(* ===== verification/Go_Prelude.thy ===== *)
theory Go_Prelude
  imports Main "HOL-Library.AList" "HOL-Library.Multiset" "HOL-Library.Monad_Syntax"
begin

text \<open>
  Shared vocabulary of the development: how the Go values of the program are read in HOL, and
  the generic facts every component uses.

  \<^item> A Go \<^verbatim>\<open>panic\<close> is the value \<open>None\<close> of an operation of type \<open>'a option\<close>, so that "this call
    never panics" is the theorem that the result is \<open>Some\<close>. Where \<open>None\<close> means something else
    (a refused reservation, a missing map entry) the definition says so.
  \<^item> A Go error return is \<open>Inl e\<close> of a sum type.
  \<^item> \<open>time.Time\<close> is the number of nanoseconds since Go's zero time, so that \<open>IsZero\<close> is
    \<open>t = 0\<close>; \<open>time.Duration\<close> is an \<open>int\<close> of nanoseconds.
  \<^item> \<open>int\<close> and \<open>int64\<close> are \<open>int\<close>; where the code multiplies or sums values that come from
    outside, the 64-bit wrap-around is written out with \<open>wrap64\<close>.
  \<^item> A Go map that the code only looks up is a partial function; a Go map that the code also
    ranges over is an association list with distinct keys, in the (unspecified) iteration order.
\<close>

subsection \<open>Collections of facts\<close>

named_theorems go_simps \<open>equations of the model that automation unfolds\<close>
named_theorems count_simps \<open>counting the elements of a multiset that satisfy a predicate\<close>

subsection \<open>Machine integers\<close>

type_synonym time = int
type_synonym duration = int

definition wrap64 :: "int \<Rightarrow> int" where
  "wrap64 x = (x + 2 ^ 63) mod 2 ^ 64 - 2 ^ 63"

definition int64 :: "int \<Rightarrow> bool" where
  "int64 x \<longleftrightarrow> - (2 ^ 63) \<le> x \<and> x < 2 ^ 63"

lemma wrap64_range [simp]: "int64 (wrap64 x)"
proof -
  have "0 \<le> (x + 2 ^ 63) mod 2 ^ 64" and "(x + 2 ^ 63) mod 2 ^ 64 < (2 ^ 64 :: int)"
    by simp_all
  then show ?thesis by (simp add: wrap64_def int64_def)
qed

lemma wrap64_id [simp]: "int64 x \<Longrightarrow> wrap64 x = x"
proof -
  assume "int64 x"
  then have "0 \<le> x + 2 ^ 63" and "x + 2 ^ 63 < 2 ^ 64"
    by (simp_all add: int64_def)
  then have "(x + 2 ^ 63) mod 2 ^ 64 = x + 2 ^ 63"
    by (rule mod_pos_pos_trivial)
  then show ?thesis by (simp add: wrap64_def)
qed

lemma int64_between: "int64 a \<Longrightarrow> int64 b \<Longrightarrow> a \<le> x \<Longrightarrow> x \<le> b \<Longrightarrow> int64 x"
  by (auto simp: int64_def)

text \<open>Go's integer division truncates towards zero.\<close>

definition quot64 :: "int \<Rightarrow> int \<Rightarrow> int" where
  "quot64 a b = sgn a * sgn b * (\<bar>a\<bar> div \<bar>b\<bar>)"

lemma quot64_nonneg: "0 \<le> a \<Longrightarrow> 0 < b \<Longrightarrow> quot64 a b = a div b"
  by (cases "a = 0") (auto simp: quot64_def sgn_if)

subsection \<open>Counting in multisets\<close>

definition mcount :: "('a \<Rightarrow> bool) \<Rightarrow> 'a multiset \<Rightarrow> int" where
  "mcount P M = int (size (filter_mset P M))"

lemma mcount_empty [count_simps]: "mcount P {#} = 0"
  by (simp add: mcount_def)

lemma mcount_add [count_simps]: "mcount P (add_mset x M) = mcount P M + (if P x then 1 else 0)"
  by (simp add: mcount_def)

lemma mcount_union [count_simps]: "mcount P (M + N) = mcount P M + mcount P N"
  by (simp add: mcount_def)

lemma mcount_replicate [count_simps]: "mcount P (replicate_mset n x) = (if P x then int n else 0)"
  by (induction n) (simp_all add: count_simps)

lemma mcount_nonneg: "0 \<le> mcount P M"
  by (simp add: mcount_def)

lemma mcount_zero_iff: "mcount P M = 0 \<longleftrightarrow> (\<forall>x \<in># M. \<not> P x)"
  by (auto simp: mcount_def filter_mset_eq_conv)

lemma mcount_le_size: "mcount P M \<le> int (size M)"
  by (simp add: mcount_def size_filter_mset_lesseq)

subsection \<open>Sorting with a comparison function\<close>

text \<open>
  \<open>sort.Slice\<close> of the standard library leaves a permutation of the slice that is sorted by the
  given comparison. Every comparison the program passes is a strict total order on the elements
  of the slice (it ends in a unique identifier), so the result is the only sorted permutation;
  \<open>sort_slice_unique\<close> below states this.
\<close>

fun insort_less :: "('a \<Rightarrow> 'a \<Rightarrow> bool) \<Rightarrow> 'a \<Rightarrow> 'a list \<Rightarrow> 'a list" where
  "insort_less lt x [] = [x]"
| "insort_less lt x (y # ys) = (if lt y x then y # insort_less lt x ys else x # y # ys)"

definition sort_slice :: "('a \<Rightarrow> 'a \<Rightarrow> bool) \<Rightarrow> 'a list \<Rightarrow> 'a list" where
  "sort_slice lt xs = foldr (insort_less lt) xs []"

definition strict_total_on :: "('a \<Rightarrow> 'a \<Rightarrow> bool) \<Rightarrow> 'a set \<Rightarrow> bool" where
  "strict_total_on lt A \<longleftrightarrow>
     (\<forall>x\<in>A. \<not> lt x x) \<and>
     (\<forall>x\<in>A. \<forall>y\<in>A. \<forall>z\<in>A. lt x y \<longrightarrow> lt y z \<longrightarrow> lt x z) \<and>
     (\<forall>x\<in>A. \<forall>y\<in>A. x \<noteq> y \<longrightarrow> lt x y \<or> lt y x)"

lemma mset_insort_less [simp]: "mset (insort_less lt x xs) = add_mset x (mset xs)"
  by (induction xs) auto

lemma set_insort_less [simp]: "set (insort_less lt x xs) = insert x (set xs)"
  by (induction xs) auto

lemma mset_sort_slice [simp]: "mset (sort_slice lt xs) = mset xs"
  by (induction xs) (auto simp: sort_slice_def)

lemma set_sort_slice [simp]: "set (sort_slice lt xs) = set xs"
  by (metis mset_sort_slice set_mset_mset)

lemma length_sort_slice [simp]: "length (sort_slice lt xs) = length xs"
  by (metis mset_sort_slice size_mset)

lemma distinct_sort_slice [simp]: "distinct (sort_slice lt xs) = distinct xs"
  by (metis mset_sort_slice mset_eq_imp_distinct_iff)

lemma strict_total_on_subset: "strict_total_on lt A \<Longrightarrow> B \<subseteq> A \<Longrightarrow> strict_total_on lt B"
  unfolding strict_total_on_def by blast

lemma strict_total_on_trans:
  "strict_total_on lt A \<Longrightarrow> x \<in> A \<Longrightarrow> y \<in> A \<Longrightarrow> z \<in> A \<Longrightarrow> lt x y \<Longrightarrow> lt y z \<Longrightarrow> lt x z"
  unfolding strict_total_on_def by blast

lemma sorted_wrt_insort_less:
  assumes "strict_total_on lt (insert x (set xs))" "x \<notin> set xs" "sorted_wrt lt xs"
  shows "sorted_wrt lt (insort_less lt x xs)"
  using assms
proof (induction xs)
  case Nil
  then show ?case by simp
next
  case (Cons y ys)
  have st: "strict_total_on lt (insert x (set ys))"
    using Cons.prems(1) by (rule strict_total_on_subset) auto
  have IH: "sorted_wrt lt (insort_less lt x ys)"
    using Cons.IH [OF st] Cons.prems by auto
  show ?case
  proof (cases "lt y x")
    case True
    then show ?thesis using IH Cons.prems by auto
  next
    case False
    then have "lt x y" using Cons.prems(1,2) unfolding strict_total_on_def by auto
    moreover have "lt x z" if "z \<in> set ys" for z
    proof (rule strict_total_on_trans [OF Cons.prems(1)])
      show "lt x y" by fact
      show "lt y z" using that Cons.prems(3) by simp
    qed (use that in auto)
    ultimately show ?thesis using False Cons.prems(3) by auto
  qed
qed

lemma sort_slice_sorted:
  "strict_total_on lt (set xs) \<Longrightarrow> distinct xs \<Longrightarrow> sorted_wrt lt (sort_slice lt xs)"
proof (induction xs)
  case Nil
  then show ?case by (simp add: sort_slice_def)
next
  case (Cons x xs)
  have "strict_total_on lt (set xs)"
    using Cons.prems(1) by (rule strict_total_on_subset) auto
  then have "sorted_wrt lt (sort_slice lt xs)"
    using Cons by simp
  moreover have "strict_total_on lt (insert x (set (sort_slice lt xs)))"
    using Cons.prems(1) by simp
  ultimately have "sorted_wrt lt (insort_less lt x (sort_slice lt xs))"
    using Cons.prems(2) by (intro sorted_wrt_insort_less) auto
  then show ?case by (simp add: sort_slice_def)
qed

lemma sorted_wrt_unique:
  assumes "strict_total_on lt (set xs)" "sorted_wrt lt xs" "sorted_wrt lt ys" "mset xs = mset ys"
  shows "xs = ys"
  using assms
proof (induction xs arbitrary: ys)
  case Nil
  then show ?case by simp
next
  case (Cons x xs)
  then obtain y zs where ys: "ys = y # zs" by (cases ys) auto
  have set_eq: "insert x (set xs) = insert y (set zs)"
    using Cons.prems(4) ys by (metis list.simps(15) set_mset_mset)
  have "x = y"
  proof (rule ccontr)
    assume "x \<noteq> y"
    then have "y \<in> set xs" and "x \<in> set zs" using set_eq by auto
    then have "lt x y" and "lt y x" using Cons.prems(2,3) ys by auto
    then show False using Cons.prems(1) \<open>y \<in> set xs\<close> unfolding strict_total_on_def
      by (metis list.set_intros(1,2))
  qed
  moreover have "xs = zs"
  proof (rule Cons.IH)
    show "strict_total_on lt (set xs)"
      using Cons.prems(1) by (rule strict_total_on_subset) auto
    show "sorted_wrt lt xs" "sorted_wrt lt zs" using Cons.prems(2,3) ys by auto
    show "mset xs = mset zs" using Cons.prems(4) ys \<open>x = y\<close> by simp
  qed
  ultimately show ?case using ys by simp
qed

lemma sort_slice_unique:
  "strict_total_on lt (set xs) \<Longrightarrow> distinct xs \<Longrightarrow> sorted_wrt lt ys \<Longrightarrow> mset ys = mset xs \<Longrightarrow>
     ys = sort_slice lt xs"
  using sorted_wrt_unique [of lt ys "sort_slice lt xs"] sort_slice_sorted [of lt xs]
  by (metis mset_sort_slice set_mset_mset)

lemma sort_slice_cong_perm:
  "strict_total_on lt (set xs) \<Longrightarrow> distinct xs \<Longrightarrow> mset xs = mset ys \<Longrightarrow>
     sort_slice lt xs = sort_slice lt ys"
  by (metis mset_eq_setD mset_eq_imp_distinct_iff mset_sort_slice sort_slice_sorted sort_slice_unique)

subsection \<open>Evaluation\<close>

text \<open>
  Evaluating a chain of fallible steps from the left: the continuation is only rewritten once the
  step before it has a value.
\<close>

lemma bind_weak_cong: "x = y \<Longrightarrow> Option.bind x f = Option.bind y f"
  by simp

end
