(* ===== verification/Capacity.thy ===== *)
theory Capacity
  imports Go_Prelude
begin

text \<open>
  Hard capacity counters. The locale \<open>slot_counter\<close> is the interface every bounded counter of
  the server offers: a reservation that is refused instead of exceeding the cap, and a release
  that cannot fail for something that is held. Its provider here is \<^verbatim>\<open>rpcResultFlightLimit\<close> of
  \<^verbatim>\<open>internal/mtprotoedge/rpc_flight.go\<close>; the transport frame budget is another one (theory
  \<open>Frame_Budget\<close>). Both are lock-free in the code: one compare-and-swap loop whose only
  successful iteration is the step modelled here.
\<close>

subsection \<open>The interface\<close>

locale slot_counter =
  fixes used :: "'s \<Rightarrow> int"
    and cap :: "'s \<Rightarrow> int"
    and reserve :: "'s \<Rightarrow> int \<Rightarrow> 's option"
    and release :: "'s \<Rightarrow> int \<Rightarrow> 's option"
  assumes reserve_effect: "reserve s n = Some s' \<Longrightarrow>
      0 < n \<and> used s' = used s + n \<and> cap s' = cap s \<and> used s' \<le> cap s"
    and reserve_complete: "0 < n \<Longrightarrow> 0 \<le> used s \<Longrightarrow> used s + n \<le> cap s \<Longrightarrow> reserve s n \<noteq> None"
    and release_effect: "0 < n \<Longrightarrow> n \<le> used s \<Longrightarrow>
      \<exists>s'. release s n = Some s' \<and> used s' = used s - n \<and> cap s' = cap s"
begin

definition holds :: "'s \<Rightarrow> int multiset \<Rightarrow> bool" where
  "holds s M \<longleftrightarrow> used s = sum_mset M \<and> (\<forall>n \<in># M. 0 < n) \<and> used s \<le> cap s"

lemma sum_mset_nonneg_pos: "(\<forall>n \<in># M. (0::int) < n) \<Longrightarrow> 0 \<le> sum_mset M"
  by (induction M) auto

lemma holds_nonneg: "holds s M \<Longrightarrow> 0 \<le> used s"
  by (simp add: holds_def sum_mset_nonneg_pos)

lemma holds_reserve: "holds s M \<Longrightarrow> reserve s n = Some s' \<Longrightarrow> holds s' (add_mset n M)"
  by (auto simp: holds_def dest!: reserve_effect)

lemma reserve_refused_iff: "holds s M \<Longrightarrow> 0 < n \<Longrightarrow> reserve s n = None \<longleftrightarrow> cap s < used s + n"
  using reserve_effect [of s n] reserve_complete [of n s] holds_nonneg [of s M]
  by (metis not_less not_None_eq order_trans order_less_le_trans linorder_not_le)

lemma holds_release:
  assumes "holds s (add_mset n M)"
  shows "\<exists>s'. release s n = Some s' \<and> holds s' M \<and> used s' = used s - n \<and> cap s' = cap s"
proof -
  have "0 < n" and "n \<le> used s" and "\<forall>m \<in># M. 0 < m"
    using assms sum_mset_nonneg_pos [of M] by (auto simp: holds_def)
  then obtain s' where "release s n = Some s'" "used s' = used s - n" "cap s' = cap s"
    using release_effect by blast
  with assms \<open>0 < n\<close> show ?thesis by (auto simp: holds_def)
qed

lemma reserve_release:
  assumes "0 \<le> used s" "reserve s n = Some s'"
  shows "\<exists>s''. release s' n = Some s'' \<and> used s'' = used s \<and> cap s'' = cap s"
  using reserve_effect [OF assms(2)] release_effect [of n s'] assms(1) by auto

end

subsection \<open>The in-flight claim counter\<close>

text \<open>
  \<^verbatim>\<open>reserveN\<close> answers \<open>None\<close> for the code's \<^verbatim>\<open>false\<close>; \<^verbatim>\<open>releaseN\<close> answers \<open>None\<close> for its two
  panics. The arithmetic of the code cannot overflow: it compares \<open>used\<close> with \<open>max - delta\<close>.
\<close>

record flight_limit =
  fl_max :: int
  fl_used :: int

definition flight_reserveN :: "flight_limit \<Rightarrow> int \<Rightarrow> flight_limit option" where
  "flight_reserveN l delta =
     (if fl_max l \<le> 0 then None
      else if delta \<le> 0 then None
      else if fl_used l < 0 \<or> fl_used l > fl_max l - delta then None
      else Some (l\<lparr>fl_used := fl_used l + delta\<rparr>))"

definition flight_reserve :: "flight_limit \<Rightarrow> flight_limit option" where
  "flight_reserve l = flight_reserveN l 1"

definition flight_releaseN :: "flight_limit \<Rightarrow> int \<Rightarrow> flight_limit option" where
  "flight_releaseN l delta =
     (if delta \<le> 0 then None
      else let remaining = fl_used l - delta
           in if remaining < 0 then None else Some (l\<lparr>fl_used := remaining\<rparr>))"

definition flight_release :: "flight_limit \<Rightarrow> flight_limit option" where
  "flight_release l = flight_releaseN l 1"

definition flight_snapshot :: "flight_limit \<Rightarrow> int" where
  "flight_snapshot l = fl_used l"

interpretation flight: slot_counter fl_used fl_max flight_reserveN flight_releaseN
  by unfold_locales (auto simp: flight_reserveN_def flight_releaseN_def Let_def split: if_splits)

lemma flight_reserve_effect:
  "flight_reserve l = Some l' \<Longrightarrow>
     fl_used l' = fl_used l + 1 \<and> fl_max l' = fl_max l \<and> fl_used l' \<le> fl_max l"
  unfolding flight_reserve_def by (drule flight.reserve_effect) simp

lemma flight_release_effect:
  "1 \<le> fl_used l \<Longrightarrow>
     \<exists>l'. flight_release l = Some l' \<and> fl_used l' = fl_used l - 1 \<and> fl_max l' = fl_max l"
  unfolding flight_release_def by (rule flight.release_effect) simp_all

text \<open>
  Executions of the counter: any interleaving of reservations (granted or refused) and releases
  of amounts that are held. The second component is the multiset of amounts held.
\<close>

datatype slot_op = Reserve int | Release int

inductive flight_run :: "flight_limit \<Rightarrow> int multiset \<Rightarrow> slot_op list \<Rightarrow> flight_limit \<Rightarrow> int multiset \<Rightarrow> bool" where
  flight_done: "flight_run l M [] l M"
| flight_granted: "flight_reserveN l n = Some l' \<Longrightarrow> flight_run l' (add_mset n M) ops l'' M'' \<Longrightarrow>
    flight_run l M (Reserve n # ops) l'' M''"
| flight_refused: "flight_reserveN l n = None \<Longrightarrow> flight_run l M ops l'' M'' \<Longrightarrow>
    flight_run l M (Reserve n # ops) l'' M''"
| flight_returned: "n \<in># M \<Longrightarrow> flight_releaseN l n = Some l' \<Longrightarrow> flight_run l' (M - {#n#}) ops l'' M'' \<Longrightarrow>
    flight_run l M (Release n # ops) l'' M''"

lemma flight_run_holds: "flight_run l M ops l' M' \<Longrightarrow> flight.holds l M \<Longrightarrow> flight.holds l' M' \<and> fl_max l' = fl_max l"
proof (induction rule: flight_run.induct)
  case (flight_granted l n l' M ops l'' M'')
  then show ?case
    using flight.holds_reserve [of l M n l'] flight.reserve_effect [of l n l'] by simp
next
  case (flight_returned n M l l' ops l'' M'')
  then have "flight.holds l (add_mset n (M - {#n#}))" by simp
  from flight.holds_release [OF this] flight_returned show ?case by auto
qed auto

end
