(* ===== verification/Rpc_Budget.thy ===== *)
theory Rpc_Budget
  imports Capacity "HOL-Library.Word"
begin

text \<open>
  The three accounts an in-flight request is charged to (\<^verbatim>\<open>internal/mtprotoedge\<close>): the fair entry
  budget (\<^verbatim>\<open>rpc_execution_budget.go\<close>), the callback budget (\<^verbatim>\<open>rpc_result_subscriber_budget.go\<close>)
  and the table of admission sequences (\<^verbatim>\<open>rpc_admission_tracker.go\<close>).

  The code spreads each map over 64 shards chosen by a hash of the key, to spread lock
  contention; a key always lands in the same shard and every operation touches the shards of its
  own key under their locks (or, for the floor, all shards under the barrier), so the shards
  together are one map and one atomic step per call of a budget, which is what is modelled. A
  section of the ledger makes several such calls; what other sections have done in between is the
  argument \<open>in_transit\<close> below.
  An eight-byte auth key id is a 64-bit word; the all-zero array is \<open>0\<close>.
\<close>

type_synonym auth_key_id = "64 word"

record rpc_key =
  key_auth :: auth_key_id
  key_session :: int
  key_msg :: int

definition session_key :: "rpc_key \<Rightarrow> auth_key_id \<times> int" where
  "session_key k = (key_auth k, key_session k)"

subsection \<open>The fair budget: one entry at global, auth and session scope\<close>

record budget_usage =
  us_entries :: int
  us_pending :: int

definition no_usage :: budget_usage where
  "no_usage = \<lparr>us_entries = 0, us_pending = 0\<rparr>"

record fair_budget =
  fb_global :: flight_limit
  fb_authLimit :: int
  fb_sessionLimit :: int
  fb_pendingPerAuth :: int
  fb_auth :: "auth_key_id \<rightharpoonup> budget_usage"
  fb_session :: "auth_key_id \<times> int \<rightharpoonup> budget_usage"

record reservation =
  rv_key :: rpc_key
  rv_pending :: bool
  rv_released :: bool

definition newRPCExecutionFairBudget :: "flight_limit \<Rightarrow> int \<Rightarrow> int \<Rightarrow> int \<Rightarrow> fair_budget" where
  "newRPCExecutionFairBudget globalEntries authLimit sessionLimit pendingPerAuth =
     \<lparr>fb_global = globalEntries, fb_authLimit = authLimit, fb_sessionLimit = sessionLimit,
      fb_pendingPerAuth = pendingPerAuth, fb_auth = Map.empty, fb_session = Map.empty\<rparr>"

definition withinRPCExecutionBudget :: "int \<Rightarrow> int \<Rightarrow> int \<Rightarrow> bool" where
  "withinRPCExecutionBudget used delta limit \<longleftrightarrow>
     delta \<ge> 0 \<and> limit > 0 \<and> used \<ge> 0 \<and> used \<le> limit - delta"

definition usage_at :: "('k \<rightharpoonup> budget_usage) \<Rightarrow> 'k \<Rightarrow> budget_usage" where
  "usage_at m k = (case m k of None \<Rightarrow> no_usage | Some u \<Rightarrow> u)"

definition store_usage :: "('k \<rightharpoonup> budget_usage) \<Rightarrow> 'k \<Rightarrow> budget_usage \<Rightarrow> ('k \<rightharpoonup> budget_usage)" where
  "store_usage m k u = (if u = no_usage then m(k := None) else m(k \<mapsto> u))"

text \<open>\<^verbatim>\<open>reserve\<close> answers \<open>None\<close> for the code's nil reservation (refused).\<close>

definition budget_reserve :: "fair_budget \<Rightarrow> rpc_key \<Rightarrow> bool \<Rightarrow> (fair_budget \<times> reservation) option" where
  "budget_reserve b key pending =
     (let au = usage_at (fb_auth b) (key_auth key);
          su = usage_at (fb_session b) (session_key key);
          allowed = withinRPCExecutionBudget (us_entries au) 1 (fb_authLimit b) \<and>
                    withinRPCExecutionBudget (us_entries su) 1 (fb_sessionLimit b) \<and>
                    (pending \<longrightarrow> withinRPCExecutionBudget (us_pending au) 1 (fb_pendingPerAuth b))
      in if \<not> allowed then None
         else case flight_reserve (fb_global b) of
           None \<Rightarrow> None
         | Some g \<Rightarrow>
             let au' = au\<lparr>us_entries := us_entries au + 1,
                          us_pending := (if pending then us_pending au + 1 else us_pending au)\<rparr>;
                 su' = su\<lparr>us_entries := us_entries su + 1\<rparr>
             in Some (b\<lparr>fb_global := g,
                        fb_auth := (fb_auth b)(key_auth key \<mapsto> au'),
                        fb_session := (fb_session b)(session_key key \<mapsto> su')\<rparr>,
                      \<lparr>rv_key = key, rv_pending = pending, rv_released = False\<rparr>))"

text \<open>
  Shards of the ledger run side by side, and the counters are shared by all of them. When one
  shard checks a capacity, other shards may hold reservations that they have not installed yet or
  are about to give back, and shares of entries that have already ended. \<open>in_transit\<close> is what they
  hold at that moment, seen from the key that is being reserved: it counts against the limit in
  the check, and the reservation itself is added to the counters that are kept.
\<close>

record in_transit =
  tr_flights :: nat
  tr_global :: nat
  tr_auth :: nat
  tr_session :: nat
  tr_pending :: nat
  tr_callbacks :: nat
  tr_authCallbacks :: nat
  tr_sessionCallbacks :: nat

definition quiet :: in_transit where
  "quiet = \<lparr>tr_flights = 0, tr_global = 0, tr_auth = 0, tr_session = 0, tr_pending = 0,
     tr_callbacks = 0, tr_authCallbacks = 0, tr_sessionCallbacks = 0\<rparr>"

definition crowded_limit :: "nat \<Rightarrow> flight_limit \<Rightarrow> flight_limit" where
  "crowded_limit n g = g\<lparr>fl_used := fl_used g + int n\<rparr>"

definition flight_reserve_among :: "in_transit \<Rightarrow> flight_limit \<Rightarrow> flight_limit option" where
  "flight_reserve_among tr g =
     (if flight_reserve (crowded_limit (tr_flights tr) g) = None then None else flight_reserve g)"

definition crowded_budget :: "in_transit \<Rightarrow> fair_budget \<Rightarrow> rpc_key \<Rightarrow> fair_budget" where
  "crowded_budget tr b key =
     (let au = usage_at (fb_auth b) (key_auth key);
          su = usage_at (fb_session b) (session_key key)
      in b\<lparr>fb_global := crowded_limit (tr_global tr) (fb_global b),
           fb_auth := (fb_auth b)(key_auth key \<mapsto>
             au\<lparr>us_entries := us_entries au + int (tr_auth tr), us_pending := us_pending au + int (tr_pending tr)\<rparr>),
           fb_session := (fb_session b)(session_key key \<mapsto> su\<lparr>us_entries := us_entries su + int (tr_session tr)\<rparr>)\<rparr>)"

definition budget_reserve_among :: "in_transit \<Rightarrow> fair_budget \<Rightarrow> rpc_key \<Rightarrow> bool \<Rightarrow> (fair_budget \<times> reservation) option" where
  "budget_reserve_among tr b key pending =
     (if budget_reserve (crowded_budget tr b key) key pending = None then None else budget_reserve b key pending)"

definition reserveOwner :: "in_transit \<Rightarrow> fair_budget \<Rightarrow> rpc_key \<Rightarrow> (fair_budget \<times> reservation) option" where
  "reserveOwner tr b key = budget_reserve_among tr b key True"

definition reserveCompleted :: "in_transit \<Rightarrow> fair_budget \<Rightarrow> rpc_key \<Rightarrow> (fair_budget \<times> reservation) option" where
  "reserveCompleted tr b key = budget_reserve_among tr b key False"

text \<open>\<^verbatim>\<open>releasePending\<close> and \<^verbatim>\<open>release\<close> answer \<open>None\<close> for their underflow panics.\<close>

definition releasePending :: "fair_budget \<Rightarrow> reservation \<Rightarrow> (fair_budget \<times> reservation) option" where
  "releasePending b r =
     (if rv_released r \<or> \<not> rv_pending r then Some (b, r)
      else case fb_auth b (key_auth (rv_key r)) of
        None \<Rightarrow> None
      | Some u \<Rightarrow>
          if us_pending u < 1 then None
          else Some (b\<lparr>fb_auth := (fb_auth b)(key_auth (rv_key r) \<mapsto> u\<lparr>us_pending := us_pending u - 1\<rparr>)\<rparr>,
                     r\<lparr>rv_pending := False\<rparr>))"

definition budget_release :: "fair_budget \<Rightarrow> reservation \<Rightarrow> (fair_budget \<times> reservation) option" where
  "budget_release b r =
     (if rv_released r then Some (b, r)
      else case (fb_auth b (key_auth (rv_key r)), fb_session b (session_key (rv_key r))) of
        (Some au, Some su) \<Rightarrow>
          if us_entries au < 1 \<or> us_entries su < 1 \<or> (rv_pending r \<and> us_pending au < 1) then None
          else
            let au' = au\<lparr>us_entries := us_entries au - 1,
                         us_pending := (if rv_pending r then us_pending au - 1 else us_pending au)\<rparr>;
                su' = su\<lparr>us_entries := us_entries su - 1\<rparr>
            in (case flight_release (fb_global b) of
                  None \<Rightarrow> None
                | Some g \<Rightarrow>
                    Some (b\<lparr>fb_global := g,
                            fb_auth := store_usage (fb_auth b) (key_auth (rv_key r)) au',
                            fb_session := store_usage (fb_session b) (session_key (rv_key r)) su'\<rparr>,
                          r\<lparr>rv_released := True, rv_pending := False\<rparr>))
      | _ \<Rightarrow> None)"

definition authSnapshot :: "fair_budget \<Rightarrow> auth_key_id \<Rightarrow> budget_usage" where
  "authSnapshot b a = usage_at (fb_auth b) a"

definition sessionSnapshot :: "fair_budget \<Rightarrow> auth_key_id \<Rightarrow> int \<Rightarrow> budget_usage" where
  "sessionSnapshot b a s = usage_at (fb_session b) (a, s)"

subsection \<open>The callback budget: several slots per request\<close>

record subscriber_budget =
  sb_global :: flight_limit
  sb_authLimit :: int
  sb_sessionLimit :: int
  sb_auth :: "auth_key_id \<rightharpoonup> int"
  sb_session :: "auth_key_id \<times> int \<rightharpoonup> int"

definition newRPCResultSubscriberBudget :: "int \<Rightarrow> int \<Rightarrow> int \<Rightarrow> subscriber_budget" where
  "newRPCResultSubscriberBudget globalLimit authLimit sessionLimit =
     \<lparr>sb_global = \<lparr>fl_max = globalLimit, fl_used = 0\<rparr>, sb_authLimit = authLimit,
      sb_sessionLimit = sessionLimit, sb_auth = Map.empty, sb_session = Map.empty\<rparr>"

definition slots_at :: "('k \<rightharpoonup> int) \<Rightarrow> 'k \<Rightarrow> int" where
  "slots_at m k = (case m k of None \<Rightarrow> 0 | Some n \<Rightarrow> n)"

definition subscriber_reserve :: "subscriber_budget \<Rightarrow> rpc_key \<Rightarrow> int \<Rightarrow> subscriber_budget option" where
  "subscriber_reserve b key slots =
     (if slots \<le> 0 then None
      else let au = slots_at (sb_auth b) (key_auth key);
               su = slots_at (sb_session b) (session_key key)
           in if \<not> withinRPCExecutionBudget au slots (sb_authLimit b) \<or>
                 \<not> withinRPCExecutionBudget su slots (sb_sessionLimit b) then None
              else case flight_reserveN (sb_global b) slots of
                None \<Rightarrow> None
              | Some g \<Rightarrow>
                  Some (b\<lparr>sb_global := g,
                          sb_auth := (sb_auth b)(key_auth key \<mapsto> au + slots),
                          sb_session := (sb_session b)(session_key key \<mapsto> su + slots)\<rparr>))"

definition crowded_subscribers :: "in_transit \<Rightarrow> subscriber_budget \<Rightarrow> rpc_key \<Rightarrow> subscriber_budget" where
  "crowded_subscribers tr b key =
     b\<lparr>sb_global := crowded_limit (tr_callbacks tr) (sb_global b),
       sb_auth := (sb_auth b)(key_auth key \<mapsto> slots_at (sb_auth b) (key_auth key) + int (tr_authCallbacks tr)),
       sb_session := (sb_session b)(session_key key \<mapsto> slots_at (sb_session b) (session_key key) + int (tr_sessionCallbacks tr))\<rparr>"

definition subscriber_reserve_among :: "in_transit \<Rightarrow> subscriber_budget \<Rightarrow> rpc_key \<Rightarrow> int \<Rightarrow> subscriber_budget option" where
  "subscriber_reserve_among tr b key slots =
     (if subscriber_reserve (crowded_subscribers tr b key) key slots = None then None
      else subscriber_reserve b key slots)"

definition subscriber_release :: "subscriber_budget \<Rightarrow> rpc_key \<Rightarrow> int \<Rightarrow> subscriber_budget option" where
  "subscriber_release b key slots =
     (if slots \<le> 0 then None
      else case (sb_auth b (key_auth key), sb_session b (session_key key)) of
        (Some au, Some su) \<Rightarrow>
          if au < slots \<or> su < slots then None
          else (case flight_releaseN (sb_global b) slots of
                  None \<Rightarrow> None
                | Some g \<Rightarrow>
                    Some (b\<lparr>sb_global := g,
                            sb_auth := (sb_auth b)(key_auth key := (if au - slots = 0 then None else Some (au - slots))),
                            sb_session := (sb_session b)(session_key key := (if su - slots = 0 then None else Some (su - slots)))\<rparr>))
      | _ \<Rightarrow> None)"

subsection \<open>Admission sequences\<close>

text \<open>
  \<^verbatim>\<open>next\<close> is an unsigned 64-bit counter, here a \<open>nat\<close> with the code's test against its largest
  value. The active sequences are a list; \<^verbatim>\<open>retire\<close> answers \<open>None\<close> for its panic.
\<close>

definition maxUint64 :: nat where
  "maxUint64 = 2 ^ 64 - 1"

record admissions =
  ad_next :: nat
  ad_active :: "nat list"

datatype rpc_error =
    ErrRPCResultFlightCapacity
  | ErrRPCResultSubscriberCapacity
  | ErrRPCResultFlightInvalid
  | ErrRPCResultIdentityMismatch nat bool
  | ErrRPCResultReplayUnavailable
  | ErrRPCAdmissionSeqExhausted

definition allocateAndRegister :: "admissions \<Rightarrow> rpc_error + (admissions \<times> nat)" where
  "allocateAndRegister t =
     (if ad_next t = maxUint64 then Inl ErrRPCAdmissionSeqExhausted
      else let sequence = ad_next t + 1
           in Inr (t\<lparr>ad_next := sequence, ad_active := sequence # ad_active t\<rparr>, sequence))"

definition retire :: "admissions \<Rightarrow> nat \<Rightarrow> admissions option" where
  "retire t sequence =
     (if sequence = 0 then Some t
      else if sequence \<notin> set (ad_active t) then None
      else Some (t\<lparr>ad_active := removeAll sequence (ad_active t)\<rparr>))"

definition stableSafeFloor :: "admissions \<Rightarrow> nat" where
  "stableSafeFloor t =
     (let minimum = foldl (\<lambda>m s. if m = 0 \<or> s < m then s else m) 0 (ad_active t)
      in if minimum \<noteq> 0 then minimum
         else if ad_next t = maxUint64 then maxUint64
         else ad_next t + 1)"

end
