(* ===== verification/Rpc_Ledger.thy ===== *)
theory Rpc_Ledger
  imports Rpc_Budget
begin

text \<open>
  The RPC execution ledger (\<^verbatim>\<open>internal/mtprotoedge/rpc_execution_ledger.go\<close> and \<^verbatim>\<open>rpc_flight.go\<close>):
  who executes a request, who joins an execution in flight, and what a repeated request gets.

  \<^item> \<open>ledger\<close> is \<^verbatim>\<open>rpcExecutionLedger\<close>; \<open>lg_hash\<close> is the seeded \<^verbatim>\<open>maphash\<close> of the full key.
  \<^item> A shard holds its receipts in push order. The code keeps them in a linked list \<^verbatim>\<open>order\<close> and
    indexes the list's elements by key (\<^verbatim>\<open>byKey\<close>); every element enters and leaves both
    together, so both are one association list here.
  \<^item> A flight is an object that waiters and leases point to, and the code compares the pointers:
    flights live in the store \<open>lg_flights\<close> and \<open>pending\<close> maps a key to a flight's address.
  \<^item> Payloads, prepared identities, profiles and callbacks are opaque values (\<open>nat\<close>). The replay
    store, an interface of the code, is the argument \<open>replay\<close>: what it holds for a key when asked.
  \<^item> Callbacks run after the shard lock is released; an operation returns them in calling order.
  \<^item> What the code does under one hold of a shard's lock is one definition, a section. A call that
    takes several locks in turn is written as its sections with the steps of other goroutines
    between them: \<open>expireReceipts\<close> and \<open>forgetSession\<close> lock the sixteen shards one after another,
    \<open>acquire\<close> and \<open>Complete\<close> may run twice with a reap in between. Those steps are an argument, a
    function on ledgers, and each section reads its own clock.
  \<^item> Two shards share the counters, so within a hold of the lock the expiry at its start and the
    rest are two sections, and every check of a capacity sees what other shards hold \<open>in_transit\<close>
    at that moment (theory \<open>Rpc_Budget\<close>). A section that takes a slot counts from its last
    reservation on, one that gives slots back from its first release on; what a section has
    reserved before, or has not given back yet, is in transit for the others.
  \<^item> \<open>None\<close> is a panic. Nil receivers are not modelled: the values here exist.
\<close>

subsection \<open>Data\<close>

definition rpcExecutionReceiptTTL :: duration where
  "rpcExecutionReceiptTTL = 331 * 10 ^ 9"

definition rpcExecutionLedgerShards :: nat where
  "rpcExecutionLedgerShards = 16"

definition rpcExecutionReceiptBudgetBytes :: int where
  "rpcExecutionReceiptBudgetBytes = 384"

record request_identity =
  ri_exact :: nat
  ri_profile :: nat
  ri_valid :: bool

definition no_identity :: request_identity where
  "no_identity = \<lparr>ri_exact = 0, ri_profile = 0, ri_valid = False\<rparr>"

definition identity_matches :: "request_identity \<Rightarrow> request_identity \<Rightarrow> bool" where
  "identity_matches i requested \<longleftrightarrow> (if \<not> ri_valid requested then True else ri_valid i \<and> ri_exact i = ri_exact requested)"

definition identityMismatch :: "request_identity \<Rightarrow> rpc_error" where
  "identityMismatch i = ErrRPCResultIdentityMismatch (ri_profile i) (ri_valid i \<and> ri_profile i \<noteq> 0)"

record flight =
  ft_done :: bool
  ft_encoded :: "nat option"
  ft_ok :: bool
  ft_subscribers :: "nat list"
  ft_executionDone :: bool
  ft_executionOK :: bool
  ft_executionSubscribers :: "nat list"
  ft_acknowledged :: bool
  ft_subscriberSlots :: int
  ft_identity :: request_identity
  ft_admissionSeq :: nat
  ft_reservation :: "reservation option"

record receipt =
  rc_key :: rpc_key
  rc_expiresAt :: time
  rc_identity :: request_identity
  rc_admissionSeq :: nat
  rc_executionKnown :: bool
  rc_executionOK :: bool
  rc_acknowledged :: bool
  rc_unavailable :: bool
  rc_reservation :: "reservation option"

record ledger_shard =
  sh_order :: "(rpc_key \<times> receipt) list"
  sh_pending :: "rpc_key \<rightharpoonup> nat"

record ledger =
  lg_shards :: "nat \<Rightarrow> ledger_shard"
  lg_hash :: "rpc_key \<Rightarrow> nat"
  lg_receiptCount :: int
  lg_budget :: fair_budget
  lg_flightLimit :: flight_limit
  lg_subscriberBudget :: subscriber_budget
  lg_subscriberPerFlight :: int
  lg_admissions :: admissions
  lg_flights :: "nat \<Rightarrow> flight"
  lg_nextFlight :: nat

record waiter =
  wt_key :: rpc_key
  wt_flight :: nat

record owner_lease =
  ls_key :: rpc_key
  ls_flight :: nat
  ls_handedOff :: bool
  ls_abortHook :: "nat option"

datatype callback =
    ResultCallback nat "nat option" bool
  | ExecutionCallback nat bool
  | AbortCallback nat

datatype acquire_result =
    AcquireCompleted nat bool bool nat
  | AcquireAcknowledged nat bool bool
  | AcquirePending nat waiter
  | AcquireOwner nat owner_lease

datatype dependency = DependencyPending waiter | DependencyCompleted bool

subsection \<open>Shards\<close>

definition shardIndex :: "ledger \<Rightarrow> rpc_key \<Rightarrow> nat" where
  "shardIndex l k = lg_hash l k mod rpcExecutionLedgerShards"

definition shard_receipt :: "ledger \<Rightarrow> nat \<Rightarrow> rpc_key \<Rightarrow> receipt option" where
  "shard_receipt l i k = map_of (sh_order (lg_shards l i)) k"

definition shard_flight :: "ledger \<Rightarrow> nat \<Rightarrow> rpc_key \<Rightarrow> nat option" where
  "shard_flight l i k = sh_pending (lg_shards l i) k"

definition set_order :: "ledger \<Rightarrow> nat \<Rightarrow> (rpc_key \<times> receipt) list \<Rightarrow> ledger" where
  "set_order l i os = l\<lparr>lg_shards := (lg_shards l)(i := (lg_shards l i)\<lparr>sh_order := os\<rparr>)\<rparr>"

definition set_pending :: "ledger \<Rightarrow> nat \<Rightarrow> (rpc_key \<rightharpoonup> nat) \<Rightarrow> ledger" where
  "set_pending l i p = l\<lparr>lg_shards := (lg_shards l)(i := (lg_shards l i)\<lparr>sh_pending := p\<rparr>)\<rparr>"

definition set_flight :: "ledger \<Rightarrow> nat \<Rightarrow> flight \<Rightarrow> ledger" where
  "set_flight l f x = l\<lparr>lg_flights := (lg_flights l)(f := x)\<rparr>"

definition decrementReceiptCount :: "ledger \<Rightarrow> ledger option" where
  "decrementReceiptCount l =
     (if lg_receiptCount l - 1 < 0 then None else Some (l\<lparr>lg_receiptCount := lg_receiptCount l - 1\<rparr>))"

definition incrementReceiptCount :: "ledger \<Rightarrow> ledger" where
  "incrementReceiptCount l = l\<lparr>lg_receiptCount := lg_receiptCount l + 1\<rparr>"

definition unlinkElement :: "ledger \<Rightarrow> nat \<Rightarrow> rpc_key \<Rightarrow> ledger option" where
  "unlinkElement l i k = decrementReceiptCount (set_order l i (AList.delete k (sh_order (lg_shards l i))))"

definition release_reservation :: "ledger \<Rightarrow> reservation option \<Rightarrow> ledger option" where
  "release_reservation l r =
     (case r of
        None \<Rightarrow> Some l
      | Some rv \<Rightarrow> do { (b, _) \<leftarrow> budget_release (lg_budget l) rv; Some (l\<lparr>lg_budget := b\<rparr>) })"

definition removeElement :: "ledger \<Rightarrow> nat \<Rightarrow> rpc_key \<Rightarrow> ledger option" where
  "removeElement l i k =
     (case shard_receipt l i k of
        None \<Rightarrow> Some l
      | Some rc \<Rightarrow> do { l' \<leftarrow> unlinkElement l i k; release_reservation l' (rc_reservation rc) })"

fun expire_from :: "ledger \<Rightarrow> nat \<Rightarrow> time \<Rightarrow> (rpc_key \<times> receipt) list \<Rightarrow> ledger option" where
  "expire_from l i now [] = Some l"
| "expire_from l i now ((k, rc) # rest) =
     (if rc_expiresAt rc > now then Some l
      else do { l' \<leftarrow> removeElement l i k; expire_from l' i now rest })"

definition expireLocked :: "ledger \<Rightarrow> nat \<Rightarrow> time \<Rightarrow> ledger option" where
  "expireLocked l i now = expire_from l i now (sh_order (lg_shards l i))"

text \<open>
  \<^verbatim>\<open>expireReceipts\<close> takes the lock and reads the clock of one shard after the other; before shard
  \<open>i\<close> other goroutines do \<open>rp_between i\<close>.
\<close>

record reap =
  rp_clock :: "nat \<Rightarrow> time"
  rp_between :: "nat \<Rightarrow> ledger \<Rightarrow> ledger option"

fun expire_shards :: "reap \<Rightarrow> ledger \<Rightarrow> nat list \<Rightarrow> ledger option" where
  "expire_shards rp l [] = Some l"
| "expire_shards rp l (i # is) =
     do { l1 \<leftarrow> rp_between rp i l; l2 \<leftarrow> expireLocked l1 i (rp_clock rp i); expire_shards rp l2 is }"

definition expireReceipts :: "reap \<Rightarrow> ledger \<Rightarrow> ledger option" where
  "expireReceipts rp l = expire_shards rp l [0..<rpcExecutionLedgerShards]"

definition receiptBudgetBytes :: "ledger \<Rightarrow> int" where
  "receiptBudgetBytes l = lg_receiptCount l * rpcExecutionReceiptBudgetBytes"

definition stableAdmissionSafeFloor :: "ledger \<Rightarrow> nat" where
  "stableAdmissionSafeFloor l = stableSafeFloor (lg_admissions l)"

subsection \<open>Construction\<close>

text \<open>The constructor after its defaults are filled in: every capacity is positive.\<close>

definition default_if :: "int \<Rightarrow> int \<Rightarrow> int" where
  "default_if x d = (if x \<le> 0 then d else x)"

record ledger_capacity =
  lc_maxPending :: int
  lc_maxPendingPerAuth :: int
  lc_globalMaxEntries :: int
  lc_authMaxEntries :: int
  lc_sessionMaxEntries :: int
  lc_subscriberMaxGlobal :: int
  lc_subscriberMaxAuth :: int
  lc_subscriberMaxSession :: int
  lc_subscriberMaxPerFlight :: int

definition idle_flight :: flight where
  "idle_flight = \<lparr>ft_done = False, ft_encoded = None, ft_ok = False, ft_subscribers = [],
     ft_executionDone = False, ft_executionOK = False, ft_executionSubscribers = [],
     ft_acknowledged = False, ft_subscriberSlots = 0, ft_identity = no_identity,
     ft_admissionSeq = 0, ft_reservation = None\<rparr>"

definition newRPCExecutionLedger :: "(rpc_key \<Rightarrow> nat) \<Rightarrow> ledger_capacity \<Rightarrow> ledger" where
  "newRPCExecutionLedger hash c =
     (let maxPending = default_if (lc_maxPending c) 32768;
          maxPendingPerAuth = default_if (lc_maxPendingPerAuth c) maxPending;
          globalMax = default_if (lc_globalMaxEntries c) (2 ^ 18);
          authMax = default_if (lc_authMaxEntries c) globalMax;
          sessionMax = default_if (lc_sessionMaxEntries c) authMax;
          subGlobal = default_if (lc_subscriberMaxGlobal c) (2 ^ 16);
          subAuth = default_if (lc_subscriberMaxAuth c) (2 ^ 13);
          subSession = default_if (lc_subscriberMaxSession c) (2 ^ 11);
          subPerFlight = default_if (lc_subscriberMaxPerFlight c) (2 ^ 7)
      in \<lparr>lg_shards = (\<lambda>_. \<lparr>sh_order = [], sh_pending = Map.empty\<rparr>),
          lg_hash = hash,
          lg_receiptCount = 0,
          lg_budget = newRPCExecutionFairBudget \<lparr>fl_max = globalMax, fl_used = 0\<rparr> authMax sessionMax maxPendingPerAuth,
          lg_flightLimit = \<lparr>fl_max = maxPending, fl_used = 0\<rparr>,
          lg_subscriberBudget = newRPCResultSubscriberBudget subGlobal subAuth subSession,
          lg_subscriberPerFlight = subPerFlight,
          lg_admissions = \<lparr>ad_next = 0, ad_active = []\<rparr>,
          lg_flights = (\<lambda>_. idle_flight),
          lg_nextFlight = 0\<rparr>)"

subsection \<open>Acquiring a claim\<close>

definition flight_limit_release :: "ledger \<Rightarrow> ledger option" where
  "flight_limit_release l = do { g \<leftarrow> flight_release (lg_flightLimit l); Some (l\<lparr>lg_flightLimit := g\<rparr>) }"

definition retire_admission :: "ledger \<Rightarrow> nat \<Rightarrow> ledger option" where
  "retire_admission l sequence = do { a \<leftarrow> retire (lg_admissions l) sequence; Some (l\<lparr>lg_admissions := a\<rparr>) }"

text \<open>The flight table and the lease of a new owner; the admission sequence is already drawn.\<close>

definition install_owner :: "ledger \<Rightarrow> nat \<Rightarrow> rpc_key \<Rightarrow> request_identity \<Rightarrow> nat \<Rightarrow> reservation \<Rightarrow> ledger \<times> owner_lease" where
  "install_owner l i k identity sequence rv =
     (let f = lg_nextFlight l;
          x = idle_flight\<lparr>ft_identity := identity, ft_admissionSeq := sequence, ft_reservation := Some rv\<rparr>;
          l1 = (set_flight l f x)\<lparr>lg_nextFlight := f + 1\<rparr>
      in (set_pending l1 i ((sh_pending (lg_shards l1 i))(k \<mapsto> f)),
          \<lparr>ls_key = k, ls_flight = f, ls_handedOff = False, ls_abortHook = None\<rparr>))"

text \<open>
  One turn of the loop of \<^verbatim>\<open>acquire\<close>, from the lookup to the unlock. It answers \<open>None\<close> when the
  fair budget refuses: the loop then reaps and takes a second turn, or gives up.
\<close>

definition acquire_locked :: "in_transit \<Rightarrow> ledger \<Rightarrow> (rpc_key \<Rightarrow> nat option) \<Rightarrow> rpc_key \<Rightarrow> request_identity \<Rightarrow>
    (ledger \<times> (rpc_error + acquire_result) option) option" where
  "acquire_locked tr l replay k identity =
     (let i = shardIndex l k in
      case shard_receipt l i k of
        Some entry \<Rightarrow>
          if \<not> identity_matches (rc_identity entry) identity then
            Some (l, Some (Inl (identityMismatch (rc_identity entry))))
          else if rc_acknowledged entry then
            Some (l, Some (Inr (AcquireAcknowledged (rc_admissionSeq entry) (rc_executionKnown entry) (rc_executionOK entry))))
          else if rc_unavailable entry then Some (l, Some (Inl ErrRPCResultFlightCapacity))
          else (case replay k of
                  None \<Rightarrow> Some (l, Some (Inl ErrRPCResultReplayUnavailable))
                | Some encoded \<Rightarrow>
                    Some (l, Some (Inr (AcquireCompleted (rc_admissionSeq entry) (rc_executionKnown entry) (rc_executionOK entry) encoded))))
      | None \<Rightarrow>
          (case shard_flight l i k of
             Some f \<Rightarrow>
               let x = lg_flights l f in
               if \<not> identity_matches (ft_identity x) identity then
                 Some (l, Some (Inl (identityMismatch (ft_identity x))))
               else if ft_acknowledged x then
                 Some (l, Some (Inr (AcquireAcknowledged (ft_admissionSeq x) (ft_executionDone x) (ft_executionOK x))))
               else Some (l, Some (Inr (AcquirePending (ft_admissionSeq x) \<lparr>wt_key = k, wt_flight = f\<rparr>)))
           | None \<Rightarrow>
               (case flight_reserve_among tr (lg_flightLimit l) of
                  None \<Rightarrow> Some (l, Some (Inl ErrRPCResultFlightCapacity))
                | Some g \<Rightarrow>
                    let l1 = l\<lparr>lg_flightLimit := g\<rparr> in
                    (case reserveOwner tr (lg_budget l1) k of
                       None \<Rightarrow> do { l2 \<leftarrow> flight_limit_release l1; Some (l2, None) }
                     | Some (b, rv) \<Rightarrow>
                         let l2 = l1\<lparr>lg_budget := b\<rparr> in
                         if ri_valid identity then
                           (case allocateAndRegister (lg_admissions l2) of
                              Inl e \<Rightarrow> do {
                                l3 \<leftarrow> release_reservation l2 (Some rv);
                                l4 \<leftarrow> flight_limit_release l3;
                                Some (l4, Some (Inl e)) }
                            | Inr (a, sequence) \<Rightarrow>
                                let (l3, lease) = install_owner (l2\<lparr>lg_admissions := a\<rparr>) i k identity sequence rv
                                in Some (l3, Some (Inr (AcquireOwner sequence lease))))
                         else
                           let (l3, lease) = install_owner l2 i k identity 0 rv
                           in Some (l3, Some (Inr (AcquireOwner 0 lease)))))))"

text \<open>
  A turn of \<^verbatim>\<open>acquire\<close> or of \<^verbatim>\<open>Complete\<close> seen from outside: what other goroutines do before it
  takes its shard's lock (\<open>tn_before\<close>), its clock, what sections of other shards do while it
  expires receipts (\<open>tn_during\<close>), and what they hold when it checks a capacity.
\<close>

record turn =
  tn_before :: "ledger \<Rightarrow> ledger option"
  tn_now :: time
  tn_during :: "ledger \<Rightarrow> ledger option"
  tn_transit :: in_transit

definition enter_shard :: "turn \<Rightarrow> ledger \<Rightarrow> rpc_key \<Rightarrow> ledger option" where
  "enter_shard tn l k =
     do { l1 \<leftarrow> tn_before tn l; l2 \<leftarrow> expireLocked l1 (shardIndex l1 k) (tn_now tn); tn_during tn l2 }"

definition acquire_turn :: "turn \<Rightarrow> ledger \<Rightarrow> (rpc_key \<Rightarrow> nat option) \<Rightarrow> rpc_key \<Rightarrow> request_identity \<Rightarrow>
    (ledger \<times> (rpc_error + acquire_result) option) option" where
  "acquire_turn tn l replay k identity =
     do { l1 \<leftarrow> enter_shard tn l k; acquire_locked (tn_transit tn) l1 replay k identity }"

text \<open>
  The loop takes at most two turns: \<^verbatim>\<open>reclaimedExpired\<close> is false in the first and true in the second.
\<close>

definition acquire :: "turn \<Rightarrow> reap \<Rightarrow> turn \<Rightarrow> ledger \<Rightarrow> (rpc_key \<Rightarrow> nat option) \<Rightarrow> rpc_key \<Rightarrow> request_identity \<Rightarrow>
    (ledger \<times> (rpc_error + acquire_result)) option" where
  "acquire first rp second l replay k identity =
     (if key_msg k = 0 then Some (l, Inl ErrRPCResultFlightInvalid)
      else do {
        (l1, answer) \<leftarrow> acquire_turn first l replay k identity;
        (case answer of
           Some r \<Rightarrow> Some (l1, r)
         | None \<Rightarrow> do {
             l2 \<leftarrow> expireReceipts rp l1;
             (l3, answer) \<leftarrow> acquire_turn second l2 replay k identity;
             Some (l3, case answer of Some r \<Rightarrow> r | None \<Rightarrow> Inl ErrRPCResultFlightCapacity) }) })"

definition AcquireUnidentified :: "turn \<Rightarrow> reap \<Rightarrow> turn \<Rightarrow> ledger \<Rightarrow> (rpc_key \<Rightarrow> nat option) \<Rightarrow> rpc_key \<Rightarrow>
    (ledger \<times> (rpc_error + acquire_result)) option" where
  "AcquireUnidentified first rp second l replay k = acquire first rp second l replay k no_identity"

definition AcquireIdentified :: "turn \<Rightarrow> reap \<Rightarrow> turn \<Rightarrow> ledger \<Rightarrow> (rpc_key \<Rightarrow> nat option) \<Rightarrow> rpc_key \<Rightarrow> nat \<Rightarrow>
    (ledger \<times> (rpc_error + acquire_result)) option" where
  "AcquireIdentified first rp second l replay k exact =
     acquire first rp second l replay k \<lparr>ri_exact = exact, ri_profile = 0, ri_valid = True\<rparr>"

definition AcquireLayerIdentified :: "turn \<Rightarrow> reap \<Rightarrow> turn \<Rightarrow> ledger \<Rightarrow> (rpc_key \<Rightarrow> nat option) \<Rightarrow> rpc_key \<Rightarrow> nat \<Rightarrow> nat \<Rightarrow>
    (ledger \<times> (rpc_error + acquire_result)) option" where
  "AcquireLayerIdentified first rp second l replay k profile exact =
     acquire first rp second l replay k \<lparr>ri_exact = exact, ri_profile = profile, ri_valid = True\<rparr>"

end
