(* ===== verification/Rpc_Ledger_Ops.thy ===== *)
theory Rpc_Ledger_Ops
  imports Rpc_Ledger
begin

text \<open>
  The rest of the ledger's operations: publishing a result, acknowledging it, observing and
  subscribing to an execution, ending a claim without a result, and reading a retained result.
\<close>

subsection \<open>Completion\<close>

text \<open>
  \<^verbatim>\<open>releaseFlightSubscriberSlotsLocked\<close>: the callbacks taken off a flight give their slots back.
\<close>

definition releaseFlightSubscriberSlots :: "ledger \<Rightarrow> rpc_key \<Rightarrow> nat \<Rightarrow> int \<Rightarrow> ledger option" where
  "releaseFlightSubscriberSlots l k f slots =
     (if slots = 0 then Some l
      else if slots < 0 \<or> ft_subscriberSlots (lg_flights l f) < slots then None
      else do {
        sb \<leftarrow> subscriber_release (lg_subscriberBudget l) k slots;
        Some ((set_flight l f ((lg_flights l f)\<lparr>ft_subscriberSlots := ft_subscriberSlots (lg_flights l f) - slots\<rparr>))
                \<lparr>lg_subscriberBudget := sb\<rparr>) })"

text \<open>
  \<^verbatim>\<open>completeRPCResultFlightLocked\<close> for the claim at address \<open>f\<close>, up to and including the close of
  its channel. It returns the callbacks of the two kinds, the terminal execution outcome, and the
  reservation with its pending share ended. In the code the receipt already points to the same
  reservation object when the share ends; here the receipt is built from the returned value, in
  the same critical section.
\<close>

definition complete_flight :: "ledger \<Rightarrow> nat \<Rightarrow> rpc_key \<Rightarrow> nat \<Rightarrow> nat \<Rightarrow>
    (ledger \<times> nat list \<times> nat list \<times> bool \<times> reservation option) option" where
  "complete_flight l i k f encoded =
     (let x = lg_flights l f;
          l1 = set_pending l i ((sh_pending (lg_shards l i))(k := None))
      in do {
        (l2, settled) \<leftarrow> (case ft_reservation x of
            None \<Rightarrow> Some (l1, None)
          | Some rv \<Rightarrow> do { (b, rv') \<leftarrow> releasePending (lg_budget l1) rv; Some (l1\<lparr>lg_budget := b\<rparr>, Some rv') });
        l3 \<leftarrow> flight_limit_release l2;
        l4 \<leftarrow> retire_admission l3 (ft_admissionSeq x);
        let subs = ft_subscribers x;
            execs = ft_executionSubscribers x;
            executionOK = (if ft_executionDone x then ft_executionOK x else False);
            l5 = set_flight l4 f (x\<lparr>ft_encoded := Some encoded, ft_ok := True, ft_subscribers := [],
                   ft_executionSubscribers := [], ft_executionDone := True, ft_executionOK := executionOK,
                   ft_reservation := None\<rparr>)
        in do {
          l6 \<leftarrow> releaseFlightSubscriberSlots l5 k f (int (length subs + length execs));
          Some (set_flight l6 f ((lg_flights l6 f)\<lparr>ft_done := True\<rparr>), subs, execs, executionOK, settled) } })"

definition push_receipt :: "ledger \<Rightarrow> nat \<Rightarrow> receipt \<Rightarrow> ledger" where
  "push_receipt l i rc =
     incrementReceiptCount (set_order l i (sh_order (lg_shards l i) @ [(rc_key rc, rc)]))"

text \<open>
  \<^verbatim>\<open>completeOnce\<close> from the lookup to the unlock. The result is \<open>False\<close> only when a completion
  without an owner found no capacity. An old receipt beside a live flight does not share the
  flight's reservation.
\<close>

definition complete_locked :: "in_transit \<Rightarrow> ledger \<Rightarrow> time \<Rightarrow> rpc_key \<Rightarrow> nat \<Rightarrow> bool \<Rightarrow> (ledger \<times> bool \<times> callback list) option" where
  "complete_locked tr l now k encoded replayable =
     (let i = shardIndex l k in
      case (shard_receipt l i k, shard_flight l i k) of
        (Some _, None) \<Rightarrow> Some (l, True, [])
      | (None, None) \<Rightarrow>
          (case reserveCompleted tr (lg_budget l) k of
             None \<Rightarrow> Some (l, False, [])
           | Some (b, rv) \<Rightarrow>
               Some (push_receipt (l\<lparr>lg_budget := b\<rparr>) i
                 \<lparr>rc_key = k, rc_expiresAt = now + rpcExecutionReceiptTTL, rc_identity = no_identity,
                  rc_admissionSeq = 0, rc_executionKnown = False, rc_executionOK = False,
                  rc_acknowledged = False, rc_unavailable = \<not> replayable, rc_reservation = Some rv\<rparr>, True, []))
      | (old, Some f) \<Rightarrow>
          let x = lg_flights l f in
          if ft_reservation x = None then None
          else do {
            l1 \<leftarrow> (case old of
                     None \<Rightarrow> Some l
                   | Some oldReceipt \<Rightarrow> do {
                       l' \<leftarrow> unlinkElement l i k;
                       release_reservation l' (rc_reservation oldReceipt) });
            (l2, subs, execs, executionOK, settled) \<leftarrow> complete_flight l1 i k f encoded;
            l3 \<leftarrow> Some (push_receipt l2 i
                 \<lparr>rc_key = k, rc_expiresAt = now + rpcExecutionReceiptTTL, rc_identity = ft_identity x,
                  rc_admissionSeq = ft_admissionSeq x, rc_executionKnown = ft_executionDone x,
                  rc_executionOK = ft_executionOK x, rc_acknowledged = ft_acknowledged x,
                  rc_unavailable = \<not> replayable, rc_reservation = settled\<rparr>);
            l4 \<leftarrow> (if ft_acknowledged x then removeElement l3 i k else Some l3);
            Some (l4, True, map (\<lambda>s. ResultCallback s (Some encoded) True) subs @
                            map (\<lambda>s. ExecutionCallback s executionOK) execs) })"

definition completeOnce :: "turn \<Rightarrow> ledger \<Rightarrow> rpc_key \<Rightarrow> nat \<Rightarrow> bool \<Rightarrow> (ledger \<times> bool \<times> callback list) option" where
  "completeOnce tn l k encoded replayable =
     do { l1 \<leftarrow> enter_shard tn l k; complete_locked (tn_transit tn) l1 (tn_now tn) k encoded replayable }"

definition Complete :: "turn \<Rightarrow> reap \<Rightarrow> turn \<Rightarrow> ledger \<Rightarrow> (rpc_key \<Rightarrow> nat option) \<Rightarrow> rpc_key \<Rightarrow> nat \<Rightarrow> bool \<Rightarrow>
    (ledger \<times> callback list) option" where
  "Complete first rp second l replay k encoded replayable =
     (if key_msg k = 0 then Some (l, [])
      else let replayable' = (replayable \<and> replay k \<noteq> None) in do {
        (l1, finished, cbs) \<leftarrow> completeOnce first l k encoded replayable';
        if finished then Some (l1, cbs)
        else do {
          l2 \<leftarrow> expireReceipts rp l1;
          (l3, _, cbs') \<leftarrow> completeOnce second l2 k encoded replayable';
          Some (l3, cbs') } })"

subsection \<open>Reading, acknowledging, forgetting\<close>

definition Replay :: "ledger \<Rightarrow> time \<Rightarrow> (rpc_key \<Rightarrow> nat option) \<Rightarrow> rpc_key \<Rightarrow> (ledger \<times> nat option) option" where
  "Replay l now replay k =
     (if key_msg k = 0 then Some (l, None)
      else let i = shardIndex l k in
        (case shard_receipt l i k of
           None \<Rightarrow> Some (l, None)
         | Some rc \<Rightarrow>
             if \<not> rc_expiresAt rc > now then do { l' \<leftarrow> removeElement l i k; Some (l', None) }
             else if rc_unavailable rc \<or> rc_acknowledged rc then Some (l, None)
             else Some (l, replay k)))"

definition Acknowledge :: "ledger \<Rightarrow> time \<Rightarrow> rpc_key \<Rightarrow> (ledger \<times> bool) option" where
  "Acknowledge l0 now k =
     (if key_msg k = 0 then Some (l0, False)
      else let i = shardIndex l0 k in do {
        l \<leftarrow> expireLocked l0 i now;
        (case shard_receipt l i k of
           Some _ \<Rightarrow> do { l' \<leftarrow> removeElement l i k; Some (l', True) }
         | None \<Rightarrow>
             (case shard_flight l i k of
                Some f \<Rightarrow> Some (set_flight l f ((lg_flights l f)\<lparr>ft_acknowledged := True\<rparr>), True)
              | None \<Rightarrow> Some (l, False))) })"

text \<open>What a read finds once an expired receipt of the key itself is dropped.\<close>

definition drop_expired :: "ledger \<Rightarrow> time \<Rightarrow> nat \<Rightarrow> rpc_key \<Rightarrow> ledger option" where
  "drop_expired l now i k =
     (case shard_receipt l i k of
        Some rc \<Rightarrow> if rc_expiresAt rc > now then Some l else removeElement l i k
      | None \<Rightarrow> Some l)"

definition ObserveDependency :: "ledger \<Rightarrow> time \<Rightarrow> rpc_key \<Rightarrow> (ledger \<times> dependency option) option" where
  "ObserveDependency l0 now k =
     (if key_msg k = 0 then Some (l0, None)
      else let i = shardIndex l0 k in do {
        l \<leftarrow> drop_expired l0 now i k;
        (case shard_receipt l i k of
           Some rc \<Rightarrow>
             Some (l, if \<not> rc_executionKnown rc then None else Some (DependencyCompleted (rc_executionOK rc)))
         | None \<Rightarrow>
             (case shard_flight l i k of
                Some f \<Rightarrow>
                  Some (l, Some (if ft_executionDone (lg_flights l f)
                                 then DependencyCompleted (ft_executionOK (lg_flights l f))
                                 else DependencyPending \<lparr>wt_key = k, wt_flight = f\<rparr>))
              | None \<Rightarrow> Some (l, None))) })"

definition ExactAdmissionProfile :: "ledger \<Rightarrow> time \<Rightarrow> rpc_key \<Rightarrow> (ledger \<times> nat option) option" where
  "ExactAdmissionProfile l0 now k =
     (if key_msg k = 0 then Some (l0, None)
      else let i = shardIndex l0 k;
               profile_of = (\<lambda>d. if ri_valid d \<and> ri_profile d \<noteq> 0 then Some (ri_profile d) else None)
      in do {
        l \<leftarrow> drop_expired l0 now i k;
        (case shard_receipt l i k of
           Some rc \<Rightarrow> Some (l, profile_of (rc_identity rc))
         | None \<Rightarrow>
             (case shard_flight l i k of
                Some f \<Rightarrow> Some (l, profile_of (ft_identity (lg_flights l f)))
              | None \<Rightarrow> Some (l, None))) })"

fun forget_from :: "ledger \<Rightarrow> nat \<Rightarrow> auth_key_id \<Rightarrow> int \<Rightarrow> (rpc_key \<times> receipt) list \<Rightarrow> ledger option" where
  "forget_from l i a s [] = Some l"
| "forget_from l i a s ((k, rc) # rest) =
     (if key_auth (rc_key rc) = a \<and> key_session (rc_key rc) = s
      then do { l' \<leftarrow> removeElement l i k; forget_from l' i a s rest }
      else forget_from l i a s rest)"

text \<open>\<^verbatim>\<open>forgetSession\<close> locks one shard after the other; before shard \<open>i\<close> other goroutines do \<open>between i\<close>.\<close>

definition forget_shard :: "ledger \<Rightarrow> nat \<Rightarrow> auth_key_id \<Rightarrow> int \<Rightarrow> ledger option" where
  "forget_shard l i a s = forget_from l i a s (sh_order (lg_shards l i))"

fun forget_shards :: "(nat \<Rightarrow> ledger \<Rightarrow> ledger option) \<Rightarrow> ledger \<Rightarrow> auth_key_id \<Rightarrow> int \<Rightarrow> nat list \<Rightarrow> ledger option" where
  "forget_shards between l a s [] = Some l"
| "forget_shards between l a s (i # is) =
     do { l1 \<leftarrow> between i l; l2 \<leftarrow> forget_shard l1 i a s; forget_shards between l2 a s is }"

definition forgetSession :: "(nat \<Rightarrow> ledger \<Rightarrow> ledger option) \<Rightarrow> ledger \<Rightarrow> auth_key_id \<Rightarrow> int \<Rightarrow> ledger option" where
  "forgetSession between l a s = forget_shards between l a s [0..<rpcExecutionLedgerShards]"

subsection \<open>Waiters\<close>

text \<open>
  What \<^verbatim>\<open>Wait\<close> answers when it looks: the terminal state once the flight is done (even when the
  context is cancelled as well), the context's error otherwise, \<open>None\<close> while it blocks.
\<close>

definition Wait :: "ledger \<Rightarrow> waiter \<Rightarrow> 'e option \<Rightarrow> ('e + nat option \<times> bool) option" where
  "Wait l w ctxErr =
     (let x = lg_flights l (wt_flight w) in
      if ft_done x then Some (Inr (ft_encoded x, ft_ok x))
      else map_option Inl ctxErr)"

definition subscribe :: "in_transit \<Rightarrow> ledger \<Rightarrow> waiter \<Rightarrow> nat option \<Rightarrow> nat option \<Rightarrow> ledger \<times> rpc_error option \<times> callback list" where
  "subscribe tr l w resultFn executionFn =
     (if resultFn = None \<and> executionFn = None then (l, Some ErrRPCResultFlightInvalid, [])
      else let k = wt_key w; f = wt_flight w; x = lg_flights l f in
        if shard_flight l (shardIndex l k) k = Some f then
          let slots = (if resultFn \<noteq> None then 1 else 0) +
                      (if executionFn \<noteq> None \<and> \<not> ft_executionDone x then 1 else 0 :: int);
              charged = (if slots > 0 then
                           if ft_subscriberSlots x > lg_subscriberPerFlight l - slots then None
                           else subscriber_reserve_among tr (lg_subscriberBudget l) k slots
                         else Some (lg_subscriberBudget l))
          in (case charged of
                None \<Rightarrow> (l, Some ErrRPCResultSubscriberCapacity, [])
              | Some sb \<Rightarrow>
                  let x' = x\<lparr>ft_subscriberSlots := ft_subscriberSlots x + slots,
                             ft_subscribers := ft_subscribers x @ (case resultFn of None \<Rightarrow> [] | Some c \<Rightarrow> [c]),
                             ft_executionSubscribers := ft_executionSubscribers x @
                               (case executionFn of None \<Rightarrow> [] | Some c \<Rightarrow> if ft_executionDone x then [] else [c])\<rparr>
                  in ((set_flight l f x')\<lparr>lg_subscriberBudget := sb\<rparr>, None,
                      (case executionFn of
                         Some c \<Rightarrow> if ft_executionDone x then [ExecutionCallback c (ft_executionOK x)] else []
                       | None \<Rightarrow> [])))
        else if (resultFn = None \<or> ft_done x) \<and> (executionFn = None \<or> ft_executionDone x) then
          (l, None,
           (case executionFn of None \<Rightarrow> [] | Some c \<Rightarrow> [ExecutionCallback c (ft_executionOK x)]) @
           (case resultFn of None \<Rightarrow> [] | Some c \<Rightarrow> [ResultCallback c (ft_encoded x) (ft_ok x)]))
        else (l, Some ErrRPCResultFlightInvalid, []))"

definition Subscribe :: "in_transit \<Rightarrow> ledger \<Rightarrow> waiter \<Rightarrow> nat option \<Rightarrow> ledger \<times> rpc_error option \<times> callback list" where
  "Subscribe tr l w fn = (if fn = None then (l, Some ErrRPCResultFlightInvalid, []) else subscribe tr l w fn None)"

definition SubscribeExecution :: "in_transit \<Rightarrow> ledger \<Rightarrow> waiter \<Rightarrow> nat option \<Rightarrow> ledger \<times> rpc_error option \<times> callback list" where
  "SubscribeExecution tr l w fn = (if fn = None then (l, Some ErrRPCResultFlightInvalid, []) else subscribe tr l w None fn)"

definition SubscribeResultAndExecution :: "in_transit \<Rightarrow> ledger \<Rightarrow> waiter \<Rightarrow> nat option \<Rightarrow> nat option \<Rightarrow>
    ledger \<times> rpc_error option \<times> callback list" where
  "SubscribeResultAndExecution tr l w resultFn executionFn =
     (if resultFn = None \<or> executionFn = None then (l, Some ErrRPCResultFlightInvalid, [])
      else subscribe tr l w resultFn executionFn)"

subsection \<open>The owner's lease\<close>

definition still_owner :: "ledger \<Rightarrow> owner_lease \<Rightarrow> bool" where
  "still_owner l ls \<longleftrightarrow> shard_flight l (shardIndex l (ls_key ls)) (ls_key ls) = Some (ls_flight ls)"

definition SetAbortHook :: "owner_lease \<Rightarrow> nat option \<Rightarrow> owner_lease" where
  "SetAbortHook ls fn = ls\<lparr>ls_abortHook := fn\<rparr>"

definition InstallAbortHook :: "ledger \<Rightarrow> owner_lease \<Rightarrow> nat option \<Rightarrow> owner_lease \<times> bool" where
  "InstallAbortHook l ls fn =
     (if fn = None \<or> \<not> still_owner l ls then (ls, False) else (ls\<lparr>ls_abortHook := fn\<rparr>, True))"

definition lease_waiter :: "owner_lease \<Rightarrow> waiter" where
  "lease_waiter ls = \<lparr>wt_key = ls_key ls, wt_flight = ls_flight ls\<rparr>"

definition CompleteExecution :: "ledger \<Rightarrow> owner_lease \<Rightarrow> bool \<Rightarrow> (ledger \<times> bool \<times> callback list) option" where
  "CompleteExecution l ls success =
     (let f = ls_flight ls; x = lg_flights l f in
      if \<not> still_owner l ls \<or> ft_executionDone x then Some (l, False, [])
      else let subs = ft_executionSubscribers x;
               l1 = set_flight l f (x\<lparr>ft_executionDone := True, ft_executionOK := success, ft_executionSubscribers := []\<rparr>)
      in do {
        l2 \<leftarrow> releaseFlightSubscriberSlots l1 (ls_key ls) f (int (length subs));
        Some (l2, True, map (\<lambda>s. ExecutionCallback s success) subs) })"

definition HandOff :: "ledger \<Rightarrow> owner_lease \<Rightarrow> owner_lease \<times> bool" where
  "HandOff l ls = (if still_owner l ls then (ls\<lparr>ls_handedOff := True\<rparr>, True) else (ls, False))"

text \<open>
  \<^verbatim>\<open>Abort\<close>. The execution outcome of a flight that is already decided is kept; its waiters still
  get a failed execution, because a decided flight has no execution callbacks left.
\<close>

definition Abort :: "ledger \<Rightarrow> owner_lease \<Rightarrow> (ledger \<times> owner_lease \<times> bool \<times> callback list) option" where
  "Abort l ls =
     (let k = ls_key ls; f = ls_flight ls; i = shardIndex l k; x = lg_flights l f in
      if ls_handedOff ls \<or> \<not> still_owner l ls then Some (l, ls, False, [])
      else do {
        l1 \<leftarrow> release_reservation (set_pending l i ((sh_pending (lg_shards l i))(k := None))) (ft_reservation x);
        l2 \<leftarrow> flight_limit_release l1;
        l3 \<leftarrow> retire_admission l2 (ft_admissionSeq x);
        let subs = ft_subscribers x; execs = ft_executionSubscribers x;
            l4 = set_flight l3 f (x\<lparr>ft_reservation := None, ft_subscribers := [], ft_executionSubscribers := []\<rparr>)
        in do {
          l5 \<leftarrow> releaseFlightSubscriberSlots l4 k f (int (length subs + length execs));
          l6 \<leftarrow> Some (set_flight l5 f ((lg_flights l5 f)\<lparr>
                  ft_executionDone := True,
                  ft_executionOK := (if ft_executionDone x then ft_executionOK x else False),
                  ft_done := True\<rparr>));
          Some (l6, ls\<lparr>ls_abortHook := None\<rparr>, True,
                (case ls_abortHook ls of None \<Rightarrow> [] | Some h \<Rightarrow> [AbortCallback h]) @
                map (\<lambda>s. ResultCallback s None False) subs @
                map (\<lambda>s. ExecutionCallback s False) execs) } })"

end
