(* ===== verification/Rpc_Budget_Laws.thy ===== *)
theory Rpc_Budget_Laws
  imports Rpc_Budget
begin

text \<open>
  What the accounts of theory \<open>Rpc_Budget\<close> promise. \<open>fair_inv b R\<close> says that budget \<open>b\<close> carries
  exactly the live reservations \<open>R\<close>: each usage cell counts the reservations of its key, no cell
  is left behind empty, and no scope exceeds its limit. The locale \<open>ownership_budget\<close> is the
  contract between a budget and the execution ledger: reserving adds a live reservation,
  settling keeps it but ends its pending share, releasing removes it, and neither settling nor
  releasing a live reservation can panic.
\<close>

subsection \<open>The contract\<close>

locale ownership_budget =
  fixes inv :: "'b \<Rightarrow> 'r multiset \<Rightarrow> bool"
    and reserve :: "'b \<Rightarrow> 'k \<Rightarrow> bool \<Rightarrow> ('b \<times> 'r) option"
    and settle :: "'b \<Rightarrow> 'r \<Rightarrow> ('b \<times> 'r) option"
    and settled :: "'r \<Rightarrow> 'r"
    and release :: "'b \<Rightarrow> 'r \<Rightarrow> ('b \<times> 'r) option"
  assumes reserve_inv: "inv b R \<Longrightarrow> reserve b k p = Some (b', r) \<Longrightarrow> inv b' (add_mset r R)"
    and settle_inv: "inv b (add_mset r R) \<Longrightarrow>
      \<exists>b'. settle b r = Some (b', settled r) \<and> inv b' (add_mset (settled r) R)"
    and release_inv: "inv b (add_mset r R) \<Longrightarrow> \<exists>b' r'. release b r = Some (b', r') \<and> inv b' R"
begin

lemma settle_then_release:
  assumes "inv b (add_mset r R)"
  shows "\<exists>b1 b2 r2. settle b r = Some (b1, settled r) \<and> release b1 (settled r) = Some (b2, r2) \<and> inv b2 R"
  using settle_inv [OF assms] release_inv by blast

lemma release_member:
  assumes "inv b R" "r \<in># R"
  shows "\<exists>b' r'. release b r = Some (b', r') \<and> inv b' (R - {#r#})"
  using release_inv [of b r "R - {#r#}"] assms by simp

end

subsection \<open>Reading and writing usage cells\<close>

lemma usage_at_upd [simp]: "usage_at (m(k \<mapsto> u)) x = (if x = k then u else usage_at m x)"
  by (simp add: usage_at_def)

lemma usage_at_store [simp]: "usage_at (store_usage m k u) x = (if x = k then u else usage_at m x)"
  by (simp add: usage_at_def store_usage_def)

lemma slots_at_upd [simp]: "slots_at (m(k := v)) x = (if x = k then (case v of None \<Rightarrow> 0 | Some n \<Rightarrow> n) else slots_at m x)"
  by (simp add: slots_at_def)

lemma no_usage_sel [simp]: "us_entries no_usage = 0" "us_pending no_usage = 0"
  by (simp_all add: no_usage_def)

lemma no_usageI: "us_entries u = 0 \<Longrightarrow> us_pending u = 0 \<Longrightarrow> u = no_usage"
  by (simp add: no_usage_def)

lemma within_iff: "withinRPCExecutionBudget used delta limit \<longleftrightarrow> 0 \<le> delta \<and> 0 < limit \<and> 0 \<le> used \<and> used + delta \<le> limit"
  by (auto simp: withinRPCExecutionBudget_def)

subsection \<open>The fair budget\<close>

text \<open>
  One scope of the budget: every cell counts the live reservations of its key, their pending
  share included, and no empty cell is left in the map.
\<close>

definition scope_ok :: "('k \<rightharpoonup> budget_usage) \<Rightarrow> (reservation \<Rightarrow> 'k) \<Rightarrow> (reservation \<Rightarrow> bool) \<Rightarrow> reservation multiset \<Rightarrow> bool" where
  "scope_ok m f p R \<longleftrightarrow>
     (\<forall>x. us_entries (usage_at m x) = mcount (\<lambda>r. f r = x) R \<and>
          us_pending (usage_at m x) = mcount (\<lambda>r. f r = x \<and> p r) R \<and>
          m x \<noteq> Some no_usage)"

lemma scope_okI:
  assumes "\<And>x. us_entries (usage_at m x) = mcount (\<lambda>r. f r = x) R"
    and "\<And>x. us_pending (usage_at m x) = mcount (\<lambda>r. f r = x \<and> p r) R"
    and "\<And>x. m x \<noteq> Some no_usage"
  shows "scope_ok m f p R"
  using assms by (simp add: scope_ok_def)

lemma scope_ok_entries: "scope_ok m f p R \<Longrightarrow> us_entries (usage_at m x) = mcount (\<lambda>r. f r = x) R"
  and scope_ok_pending: "scope_ok m f p R \<Longrightarrow> us_pending (usage_at m x) = mcount (\<lambda>r. f r = x \<and> p r) R"
  and scope_ok_nonempty: "scope_ok m f p R \<Longrightarrow> m x \<noteq> Some no_usage"
  by (simp_all add: scope_ok_def)

lemma us_eq_no_usage: "u = no_usage \<longleftrightarrow> us_entries u = 0 \<and> us_pending u = 0"
  by (auto simp: no_usage_def)

lemma scope_ok_empty: "scope_ok Map.empty f p {#}"
  by (simp add: scope_ok_def usage_at_def count_simps)

lemma scope_ok_add:
  assumes ok: "scope_ok m f p R" and x: "f r = x"
    and u: "us_entries u = us_entries (usage_at m x) + 1"
      "us_pending u = us_pending (usage_at m x) + (if p r then 1 else 0)"
  shows "scope_ok (m(x \<mapsto> u)) f p (add_mset r R)"
proof (rule scope_okI)
  fix y
  show "us_entries (usage_at (m(x \<mapsto> u)) y) = mcount (\<lambda>r. f r = y) (add_mset r R)"
    using u(1) x by (simp add: count_simps scope_ok_entries [OF ok])
  show "us_pending (usage_at (m(x \<mapsto> u)) y) = mcount (\<lambda>r. f r = y \<and> p r) (add_mset r R)"
    using u(2) x by (simp add: count_simps scope_ok_pending [OF ok])
  have "0 < us_entries u"
    using u(1) mcount_nonneg [of "\<lambda>r. f r = x" R] by (simp add: scope_ok_entries [OF ok])
  then show "(m(x \<mapsto> u)) y \<noteq> Some no_usage"
    using scope_ok_nonempty [OF ok, of y] by (auto simp: us_eq_no_usage)
qed

lemma scope_ok_cell:
  assumes ok: "scope_ok m f p (add_mset r R)" and x: "f r = x"
  shows "\<exists>u. m x = Some u \<and> 1 \<le> us_entries u \<and> (p r \<longrightarrow> 1 \<le> us_pending u)"
proof (cases "m x")
  case None
  then have "us_entries (usage_at m x) = 0" by (simp add: usage_at_def)
  moreover have "1 \<le> us_entries (usage_at m x)"
    using x mcount_nonneg [of "\<lambda>r. f r = x" R] by (simp add: scope_ok_entries [OF ok] count_simps)
  ultimately show ?thesis by simp
next
  case (Some u)
  then have u: "usage_at m x = u" by (simp add: usage_at_def)
  have "1 \<le> us_entries u" and "p r \<longrightarrow> 1 \<le> us_pending u"
    using x mcount_nonneg [of "\<lambda>r. f r = x" R] mcount_nonneg [of "\<lambda>r. f r = x \<and> p r" R]
      scope_ok_entries [OF ok, of x] scope_ok_pending [OF ok, of x] u
    by (auto simp: count_simps)
  with Some show ?thesis by blast
qed

lemma scope_ok_remove:
  assumes ok: "scope_ok m f p (add_mset r R)" and x: "f r = x"
    and u: "us_entries u = us_entries (usage_at m x) - 1"
      "us_pending u = us_pending (usage_at m x) - (if p r then 1 else 0)"
  shows "scope_ok (store_usage m x u) f p R"
proof (rule scope_okI)
  fix y
  show "us_entries (usage_at (store_usage m x u) y) = mcount (\<lambda>r. f r = y) R"
    using u(1) x by (simp add: count_simps scope_ok_entries [OF ok])
  show "us_pending (usage_at (store_usage m x u) y) = mcount (\<lambda>r. f r = y \<and> p r) R"
    using u(2) x by (auto simp: count_simps scope_ok_pending [OF ok])
  show "store_usage m x u y \<noteq> Some no_usage"
    using scope_ok_nonempty [OF ok, of y] by (auto simp: store_usage_def)
qed

lemma scope_ok_settle:
  assumes ok: "scope_ok m f p (add_mset r R)" and x: "f r = x" and r': "f r' = x" "p r" "\<not> p r'"
    and u: "us_entries u = us_entries (usage_at m x)" "us_pending u = us_pending (usage_at m x) - 1"
  shows "scope_ok (m(x \<mapsto> u)) f p (add_mset r' R)"
proof (rule scope_okI)
  fix y
  show "us_entries (usage_at (m(x \<mapsto> u)) y) = mcount (\<lambda>r. f r = y) (add_mset r' R)"
    using u(1) x r' by (simp add: count_simps scope_ok_entries [OF ok])
  show "us_pending (usage_at (m(x \<mapsto> u)) y) = mcount (\<lambda>r. f r = y \<and> p r) (add_mset r' R)"
    using u(2) x r' by (auto simp: count_simps scope_ok_pending [OF ok])
  have "0 < us_entries u"
    using u(1) x mcount_nonneg [of "\<lambda>r. f r = x" R] by (simp add: count_simps scope_ok_entries [OF ok])
  then show "(m(x \<mapsto> u)) y \<noteq> Some no_usage"
    using scope_ok_nonempty [OF ok, of y] by (auto simp: us_eq_no_usage)
qed

lemma scope_ok_cong:
  "f r = f r' \<Longrightarrow> p r = p r' \<Longrightarrow> scope_ok m f p (add_mset r R) = scope_ok m f p (add_mset r' R)"
  by (simp add: scope_ok_def count_simps)

subsection \<open>The invariant of the fair budget\<close>

definition rv_auth :: "reservation \<Rightarrow> auth_key_id" where
  "rv_auth r = key_auth (rv_key r)"

definition rv_session :: "reservation \<Rightarrow> auth_key_id \<times> int" where
  "rv_session r = session_key (rv_key r)"

definition fair_inv :: "fair_budget \<Rightarrow> reservation multiset \<Rightarrow> bool" where
  "fair_inv b R \<longleftrightarrow>
     (\<forall>r \<in># R. \<not> rv_released r) \<and>
     scope_ok (fb_auth b) rv_auth rv_pending R \<and>
     scope_ok (fb_session b) rv_session (\<lambda>_. False) R \<and>
     fl_used (fb_global b) = int (size R) \<and> fl_used (fb_global b) \<le> fl_max (fb_global b) \<and>
     (\<forall>a. us_entries (usage_at (fb_auth b) a) \<le> fb_authLimit b) \<and>
     (\<forall>a. us_pending (usage_at (fb_auth b) a) \<le> fb_pendingPerAuth b) \<and>
     (\<forall>s. us_entries (usage_at (fb_session b) s) \<le> fb_sessionLimit b)"

lemma fair_inv_new:
  "0 \<le> fl_max g \<Longrightarrow> fl_used g = 0 \<Longrightarrow> 0 \<le> al \<Longrightarrow> 0 \<le> sl \<Longrightarrow> 0 \<le> pp \<Longrightarrow>
     fair_inv (newRPCExecutionFairBudget g al sl pp) {#}"
  by (simp add: fair_inv_def newRPCExecutionFairBudget_def scope_ok_empty) (simp add: usage_at_def)

lemma fair_inv_reserve:
  assumes inv: "fair_inv b R" and res: "budget_reserve b key pending = Some (b', r)"
  shows "fair_inv b' (add_mset r R)"
proof -
  let ?au = "usage_at (fb_auth b) (key_auth key)" and ?su = "usage_at (fb_session b) (session_key key)"
  from res obtain g where
    lim: "us_entries ?au + 1 \<le> fb_authLimit b" "us_entries ?su + 1 \<le> fb_sessionLimit b"
      "pending \<longrightarrow> us_pending ?au + 1 \<le> fb_pendingPerAuth b" and
    g: "flight_reserve (fb_global b) = Some g" and
    r: "r = \<lparr>rv_key = key, rv_pending = pending, rv_released = False\<rparr>" and
    b': "b' = b\<lparr>fb_global := g,
           fb_auth := (fb_auth b)(key_auth key \<mapsto> ?au\<lparr>us_entries := us_entries ?au + 1,
              us_pending := (if pending then us_pending ?au + 1 else us_pending ?au)\<rparr>),
           fb_session := (fb_session b)(session_key key \<mapsto> ?su\<lparr>us_entries := us_entries ?su + 1\<rparr>)\<rparr>"
    by (auto simp: budget_reserve_def Let_def within_iff split: if_splits option.splits)
  have auth: "scope_ok (fb_auth b') rv_auth rv_pending (add_mset r R)"
    unfolding b' using inv by (auto simp: fair_inv_def r rv_auth_def intro!: scope_ok_add)
  have sess: "scope_ok (fb_session b') rv_session (\<lambda>_. False) (add_mset r R)"
    unfolding b' using inv by (auto simp: fair_inv_def r rv_session_def intro!: scope_ok_add)
  show ?thesis
    using inv flight_reserve_effect [OF g] lim auth sess unfolding fair_inv_def
    by (auto simp: b' r)
qed

lemma fair_inv_settle:
  assumes inv: "fair_inv b (add_mset r R)"
  shows "\<exists>b'. releasePending b r = Some (b', r\<lparr>rv_pending := False\<rparr>) \<and>
              fair_inv b' (add_mset (r\<lparr>rv_pending := False\<rparr>) R)"
proof (cases "rv_pending r")
  case False
  then have unchanged: "r\<lparr>rv_pending := False\<rparr> = r" by simp
  show ?thesis unfolding unchanged using False inv by (auto simp: releasePending_def)
next
  case True
  let ?r = "r\<lparr>rv_pending := False\<rparr>"
  have scopes: "scope_ok (fb_auth b) rv_auth rv_pending (add_mset r R)"
    "scope_ok (fb_session b) rv_session (\<lambda>_. False) (add_mset r R)" and live: "\<not> rv_released r"
    using inv by (simp_all add: fair_inv_def)
  obtain u where u: "fb_auth b (key_auth (rv_key r)) = Some u" "1 \<le> us_pending u"
    using scope_ok_cell [OF scopes(1) refl] True by (auto simp: rv_auth_def)
  define b' where "b' = b\<lparr>fb_auth := (fb_auth b)(key_auth (rv_key r) \<mapsto> u\<lparr>us_pending := us_pending u - 1\<rparr>)\<rparr>"
  have "releasePending b r = Some (b', ?r)"
    using True live u by (simp add: releasePending_def b'_def)
  moreover have "scope_ok (fb_auth b') rv_auth rv_pending (add_mset ?r R)"
    unfolding b'_def using scopes(1) u True
    by (auto simp: rv_auth_def usage_at_def intro!: scope_ok_settle [OF scopes(1)])
  moreover have "scope_ok (fb_session b') rv_session (\<lambda>_. False) (add_mset ?r R)"
    using scopes(2) scope_ok_cong [of rv_session r ?r "\<lambda>_. False"] by (simp add: b'_def rv_session_def)
  moreover have "us_entries (usage_at (fb_auth b') a) \<le> fb_authLimit b'"
      "us_pending (usage_at (fb_auth b') a) \<le> fb_pendingPerAuth b'" for a
    using inv u unfolding fair_inv_def b'_def by (auto simp: usage_at_def dest: spec [of _ a] split: option.splits)
  ultimately show ?thesis using inv unfolding fair_inv_def by (auto simp: b'_def)
qed

lemma usage_at_Some: "m k = Some u \<Longrightarrow> usage_at m k = u"
  by (simp add: usage_at_def)

lemma usage_bound_store:
  assumes "\<forall>x. us_entries (usage_at m x) \<le> lim" "m k = Some u" "us_entries u' \<le> us_entries u"
  shows "us_entries (usage_at (store_usage m k u') x) \<le> lim"
  using assms(1,3) spec [OF assms(1), of k] usage_at_Some [of m k u] assms(2) by simp

lemma pending_bound_store:
  assumes "\<forall>x. us_pending (usage_at m x) \<le> lim" "m k = Some u" "us_pending u' \<le> us_pending u"
  shows "us_pending (usage_at (store_usage m k u') x) \<le> lim"
  using assms(1,3) spec [OF assms(1), of k] usage_at_Some [of m k u] assms(2) by simp

lemma fair_inv_release:
  assumes inv: "fair_inv b (add_mset r R)"
  shows "\<exists>b'. budget_release b r = Some (b', r\<lparr>rv_released := True, rv_pending := False\<rparr>) \<and> fair_inv b' R"
proof -
  have scopes: "scope_ok (fb_auth b) rv_auth rv_pending (add_mset r R)"
    "scope_ok (fb_session b) rv_session (\<lambda>_. False) (add_mset r R)" and live: "\<not> rv_released r"
    using inv by (simp_all add: fair_inv_def)
  obtain au where au: "fb_auth b (key_auth (rv_key r)) = Some au" "1 \<le> us_entries au" "rv_pending r \<longrightarrow> 1 \<le> us_pending au"
    using scope_ok_cell [OF scopes(1) refl] by (auto simp: rv_auth_def)
  obtain su where su: "fb_session b (session_key (rv_key r)) = Some su" "1 \<le> us_entries su"
    using scope_ok_cell [OF scopes(2) refl] by (auto simp: rv_session_def)
  have "1 \<le> fl_used (fb_global b)" using inv by (simp add: fair_inv_def)
  then obtain g where g: "flight_release (fb_global b) = Some g" "fl_used g = fl_used (fb_global b) - 1"
      "fl_max g = fl_max (fb_global b)"
    using flight_release_effect by blast
  define au' where "au' = au\<lparr>us_entries := us_entries au - 1,
     us_pending := (if rv_pending r then us_pending au - 1 else us_pending au)\<rparr>"
  define su' where "su' = su\<lparr>us_entries := us_entries su - 1\<rparr>"
  define b' where "b' = b\<lparr>fb_global := g, fb_auth := store_usage (fb_auth b) (key_auth (rv_key r)) au',
     fb_session := store_usage (fb_session b) (session_key (rv_key r)) su'\<rparr>"
  have "budget_release b r = Some (b', r\<lparr>rv_released := True, rv_pending := False\<rparr>)"
    unfolding budget_release_def b'_def au'_def su'_def Let_def using live au su g by auto
  moreover have "scope_ok (fb_auth b') rv_auth rv_pending R"
    unfolding b'_def using au
    by (auto simp: rv_auth_def usage_at_def au'_def intro!: scope_ok_remove [OF scopes(1)])
  moreover have "scope_ok (fb_session b') rv_session (\<lambda>_. False) R"
    unfolding b'_def using su
    by (auto simp: rv_session_def usage_at_def su'_def intro!: scope_ok_remove [OF scopes(2)])
  moreover have "us_entries (usage_at (fb_auth b') a) \<le> fb_authLimit b'" for a
    unfolding b'_def using inv usage_bound_store [of "fb_auth b" _ "key_auth (rv_key r)" au au'] au(1) by (simp add: fair_inv_def au'_def)
  moreover have "us_pending (usage_at (fb_auth b') a) \<le> fb_pendingPerAuth b'" for a
    unfolding b'_def using inv pending_bound_store [of "fb_auth b" _ "key_auth (rv_key r)" au au'] au(1) by (simp add: fair_inv_def au'_def)
  moreover have "us_entries (usage_at (fb_session b') s) \<le> fb_sessionLimit b'" for s
    unfolding b'_def using inv usage_bound_store [of "fb_session b" _ "session_key (rv_key r)" su su'] su(1) by (simp add: fair_inv_def su'_def)
  ultimately show ?thesis using inv g unfolding fair_inv_def by (auto simp: b'_def)
qed

interpretation fair: ownership_budget fair_inv budget_reserve releasePending
    "\<lambda>r. r\<lparr>rv_pending := False\<rparr>" budget_release
proof (unfold_locales)
  show "fair_inv b R \<Longrightarrow> budget_reserve b k p = Some (b', r) \<Longrightarrow> fair_inv b' (add_mset r R)" for b R k p b' r
    by (rule fair_inv_reserve)
  show "fair_inv b (add_mset r R) \<Longrightarrow> \<exists>b'. releasePending b r = Some (b', r\<lparr>rv_pending := False\<rparr>) \<and>
      fair_inv b' (add_mset (r\<lparr>rv_pending := False\<rparr>) R)" for b r R
    by (rule fair_inv_settle)
  show "fair_inv b (add_mset r R) \<Longrightarrow> \<exists>b' r'. budget_release b r = Some (b', r') \<and> fair_inv b' R" for b r R
    using fair_inv_release by blast
qed

lemma fair_reserve_live:
  "budget_reserve b key pending = Some (b', r) \<Longrightarrow> r = \<lparr>rv_key = key, rv_pending = pending, rv_released = False\<rparr>"
  by (auto simp: budget_reserve_def Let_def split: if_splits option.splits)

text \<open>A refused reservation means that one of the four limits is reached.\<close>

lemma budget_reserve_refused:
  assumes inv: "fair_inv b R" and refused: "budget_reserve b key pending = None"
  shows "fl_max (fb_global b) \<le> int (size R) \<or>
         fb_authLimit b \<le> mcount (\<lambda>r. rv_auth r = key_auth key) R \<or>
         fb_sessionLimit b \<le> mcount (\<lambda>r. rv_session r = session_key key) R \<or>
         pending \<and> fb_pendingPerAuth b \<le> mcount (\<lambda>r. rv_auth r = key_auth key \<and> rv_pending r) R"
proof (rule ccontr)
  assume c: "\<not> ?thesis"
  have "scope_ok (fb_auth b) rv_auth rv_pending R" "scope_ok (fb_session b) rv_session (\<lambda>_. False) R"
    using inv by (simp_all add: fair_inv_def)
  note cells = scope_ok_entries [OF this(1)] scope_ok_pending [OF this(1)] scope_ok_entries [OF this(2)]
  have "flight_reserve (fb_global b) \<noteq> None"
    using c inv by (auto simp: flight_reserve_def flight_reserveN_def fair_inv_def)
  moreover have "withinRPCExecutionBudget (us_entries (usage_at (fb_auth b) (key_auth key))) 1 (fb_authLimit b)"
    "withinRPCExecutionBudget (us_entries (usage_at (fb_session b) (session_key key))) 1 (fb_sessionLimit b)"
    "pending \<longrightarrow> withinRPCExecutionBudget (us_pending (usage_at (fb_auth b) (key_auth key))) 1 (fb_pendingPerAuth b)"
    using c mcount_nonneg [of "\<lambda>r. rv_auth r = key_auth key" R] mcount_nonneg [of "\<lambda>r. rv_session r = session_key key" R]
      mcount_nonneg [of "\<lambda>r. rv_auth r = key_auth key \<and> rv_pending r" R]
    by (auto simp: within_iff cells)
  ultimately show False
    using refused by (auto simp: budget_reserve_def Let_def split: option.splits if_splits)
qed

text \<open>The same with reservations of other shards in transit.\<close>

lemma flight_reserve_among_Some: "flight_reserve_among tr g = Some g' \<Longrightarrow> flight_reserve g = Some g'"
  by (simp add: flight_reserve_among_def split: if_splits)

lemma budget_reserve_among_Some: "budget_reserve_among tr b key p = Some r \<Longrightarrow> budget_reserve b key p = Some r"
  by (simp add: budget_reserve_among_def split: if_splits)

lemma flight_reserve_among_refused:
  assumes "flight_reserve_among tr g = None" "0 \<le> fl_used g"
  shows "fl_max g \<le> fl_used g + int (tr_flights tr)"
  using assms
  by (auto simp: flight_reserve_among_def crowded_limit_def flight_reserve_def flight_reserveN_def split: if_splits)

lemma budget_reserve_crowded:
  assumes "budget_reserve (crowded_budget tr b key) key pending = None" "0 \<le> fl_used (fb_global b)"
    "0 \<le> us_entries (usage_at (fb_auth b) (key_auth key))" "0 \<le> us_pending (usage_at (fb_auth b) (key_auth key))"
    "0 \<le> us_entries (usage_at (fb_session b) (session_key key))"
  shows "fl_max (fb_global b) \<le> fl_used (fb_global b) + int (tr_global tr) \<or>
     fb_authLimit b \<le> us_entries (usage_at (fb_auth b) (key_auth key)) + int (tr_auth tr) \<or>
     fb_sessionLimit b \<le> us_entries (usage_at (fb_session b) (session_key key)) + int (tr_session tr) \<or>
     pending \<and> fb_pendingPerAuth b \<le> us_pending (usage_at (fb_auth b) (key_auth key)) + int (tr_pending tr)"
proof (rule ccontr)
  assume c: "\<not> ?thesis"
  then have "flight_reserve (crowded_limit (tr_global tr) (fb_global b)) \<noteq> None"
    using assms(2) by (auto simp: flight_reserve_def flight_reserveN_def crowded_limit_def)
  with c assms show False
    by (auto simp: budget_reserve_def Let_def crowded_budget_def usage_at_def within_iff split: if_splits option.splits)
qed

lemma budget_reserve_among_refused:
  assumes inv: "fair_inv b R" and refused: "budget_reserve_among tr b key pending = None"
  shows "fl_max (fb_global b) \<le> int (size R) + int (tr_global tr) \<or>
         fb_authLimit b \<le> mcount (\<lambda>r. rv_auth r = key_auth key) R + int (tr_auth tr) \<or>
         fb_sessionLimit b \<le> mcount (\<lambda>r. rv_session r = session_key key) R + int (tr_session tr) \<or>
         pending \<and> fb_pendingPerAuth b \<le> mcount (\<lambda>r. rv_auth r = key_auth key \<and> rv_pending r) R + int (tr_pending tr)"
proof (cases "budget_reserve (crowded_budget tr b key) key pending = None")
  case True
  have "scope_ok (fb_auth b) rv_auth rv_pending R" "scope_ok (fb_session b) rv_session (\<lambda>_. False) R"
    using inv by (simp_all add: fair_inv_def)
  note cells = scope_ok_entries [OF this(1)] scope_ok_pending [OF this(1)] scope_ok_entries [OF this(2)]
  have "fl_used (fb_global b) = int (size R)" using inv by (simp add: fair_inv_def)
  with budget_reserve_crowded [OF True] show ?thesis by (simp add: cells mcount_nonneg)
next
  case False
  then have "budget_reserve b key pending = None" using refused unfolding budget_reserve_among_def by metis
  from budget_reserve_refused [OF inv this] show ?thesis by auto
qed

subsection \<open>The callback budget\<close>

text \<open>
  Its account is the multiset of keys that own a slot, with multiplicity. It is the same contract
  with several slots at a time.
\<close>

definition slots_ok :: "('k \<rightharpoonup> int) \<Rightarrow> (rpc_key \<Rightarrow> 'k) \<Rightarrow> rpc_key multiset \<Rightarrow> bool" where
  "slots_ok m f K \<longleftrightarrow> (\<forall>x. slots_at m x = mcount (\<lambda>k. f k = x) K \<and> m x \<noteq> Some 0)"

definition sub_inv :: "subscriber_budget \<Rightarrow> rpc_key multiset \<Rightarrow> bool" where
  "sub_inv b K \<longleftrightarrow>
     slots_ok (sb_auth b) key_auth K \<and> slots_ok (sb_session b) session_key K \<and>
     fl_used (sb_global b) = int (size K) \<and> fl_used (sb_global b) \<le> fl_max (sb_global b) \<and>
     (\<forall>a. slots_at (sb_auth b) a \<le> sb_authLimit b) \<and>
     (\<forall>s. slots_at (sb_session b) s \<le> sb_sessionLimit b)"

lemma sub_inv_new: "0 \<le> g \<Longrightarrow> 0 \<le> a \<Longrightarrow> 0 \<le> s \<Longrightarrow> sub_inv (newRPCResultSubscriberBudget g a s) {#}"
  by (simp add: sub_inv_def newRPCResultSubscriberBudget_def slots_ok_def slots_at_def count_simps)

lemma slots_ok_add:
  assumes "slots_ok m f K" "0 < n"
  shows "slots_ok (m(f k \<mapsto> slots_at m (f k) + int n)) f (K + replicate_mset n k)"
  using assms mcount_nonneg [of "\<lambda>k'. f k' = f k" K]
  by (fastforce simp: slots_ok_def count_simps)

lemma slots_ok_remove:
  assumes "slots_ok m f (K + replicate_mset n k)" "0 < n"
  shows "\<exists>v. m (f k) = Some v \<and> int n \<le> v \<and>
      slots_ok (m(f k := (if v - int n = 0 then None else Some (v - int n)))) f K"
proof -
  have v: "slots_at m (f k) = mcount (\<lambda>k'. f k' = f k) K + int n"
    using assms(1) by (simp add: slots_ok_def count_simps)
  moreover have "0 \<le> mcount (\<lambda>k'. f k' = f k) K" by (rule mcount_nonneg)
  ultimately obtain w where w: "m (f k) = Some w"
    using assms(2) by (cases "m (f k)") (auto simp: slots_at_def)
  have "slots_ok (m(f k := (if w - int n = 0 then None else Some (w - int n)))) f K"
    using assms(1) v w by (fastforce simp: slots_ok_def count_simps slots_at_def)
  then show ?thesis
    using w v mcount_nonneg [of "\<lambda>k'. f k' = f k" K] by (auto simp: slots_at_def)
qed

lemma slots_bound_remove:
  assumes "\<forall>x. slots_at m x \<le> lim" "m k = Some v"
  shows "slots_at (m(k := (if v - int n = 0 then None else Some (v - int n)))) x \<le> lim"
proof -
  have "v \<le> lim" using assms spec [OF assms(1), of k] by (simp add: slots_at_def)
  then show ?thesis using assms(1) by simp
qed

lemma sub_inv_reserve:
  assumes inv: "sub_inv b K" and res: "subscriber_reserve b key (int n) = Some b'"
  shows "sub_inv b' (K + replicate_mset n key)"
proof -
  let ?au = "slots_at (sb_auth b) (key_auth key)" and ?su = "slots_at (sb_session b) (session_key key)"
  from res obtain g where n: "0 < n" and
    lim: "?au + int n \<le> sb_authLimit b" "?su + int n \<le> sb_sessionLimit b" and
    g: "flight_reserveN (sb_global b) (int n) = Some g" and
    b': "b' = b\<lparr>sb_global := g, sb_auth := (sb_auth b)(key_auth key \<mapsto> ?au + int n),
                 sb_session := (sb_session b)(session_key key \<mapsto> ?su + int n)\<rparr>"
    by (auto simp: subscriber_reserve_def Let_def within_iff split: if_splits option.splits)
  have "slots_ok (sb_auth b') key_auth (K + replicate_mset n key)"
    "slots_ok (sb_session b') session_key (K + replicate_mset n key)"
    unfolding b' using inv slots_ok_add [OF _ n] by (auto simp: sub_inv_def)
  then show ?thesis
    using inv lim flight.reserve_effect [OF g] unfolding sub_inv_def by (auto simp: b')
qed

lemma sub_inv_release:
  assumes inv: "sub_inv b (K + replicate_mset n key)" and n: "0 < n"
  shows "\<exists>b'. subscriber_release b key (int n) = Some b' \<and> sub_inv b' K"
proof -
  have ok: "slots_ok (sb_auth b) key_auth (K + replicate_mset n key)"
    "slots_ok (sb_session b) session_key (K + replicate_mset n key)"
    using inv by (simp_all add: sub_inv_def)
  obtain au where au: "sb_auth b (key_auth key) = Some au" "int n \<le> au"
      "slots_ok ((sb_auth b)(key_auth key := (if au - int n = 0 then None else Some (au - int n)))) key_auth K"
    using slots_ok_remove [OF ok(1) n] by blast
  obtain su where su: "sb_session b (session_key key) = Some su" "int n \<le> su"
      "slots_ok ((sb_session b)(session_key key := (if su - int n = 0 then None else Some (su - int n)))) session_key K"
    using slots_ok_remove [OF ok(2) n] by blast
  have "int n \<le> fl_used (sb_global b)" using inv by (simp add: sub_inv_def)
  then obtain g where g: "flight_releaseN (sb_global b) (int n) = Some g"
      "fl_used g = fl_used (sb_global b) - int n" "fl_max g = fl_max (sb_global b)"
    using flight.release_effect [of "int n" "sb_global b"] n by auto
  define b' where "b' = b\<lparr>sb_global := g,
      sb_auth := (sb_auth b)(key_auth key := (if au - int n = 0 then None else Some (au - int n))),
      sb_session := (sb_session b)(session_key key := (if su - int n = 0 then None else Some (su - int n)))\<rparr>"
  have "subscriber_release b key (int n) = Some b'"
    using n au su g by (simp add: subscriber_release_def b'_def)
  moreover have "slots_at (sb_auth b') a \<le> sb_authLimit b'" for a
    unfolding b'_def using inv slots_bound_remove [of "sb_auth b" _ "key_auth key" au n] au(1) by (simp add: sub_inv_def)
  moreover have "slots_at (sb_session b') s \<le> sb_sessionLimit b'" for s
    unfolding b'_def using inv slots_bound_remove [of "sb_session b" _ "session_key key" su n] su(1) by (simp add: sub_inv_def)
  ultimately show ?thesis using inv au su g unfolding sub_inv_def by (auto simp: b'_def)
qed

lemma subscriber_reserve_among_Some:
  "subscriber_reserve_among tr b key n = Some b' \<Longrightarrow> subscriber_reserve b key n = Some b'"
  by (simp add: subscriber_reserve_among_def split: if_splits)

end
