(* ===== verification/Rpc_Ledger_Inv.thy ===== *)
theory Rpc_Ledger_Inv
  imports Rpc_Ledger_Ops Rpc_Budget_Laws
begin

text \<open>
  The invariant of the execution ledger and its preservation by every operation, together with
  the fact that no operation panics in a state that satisfies it.

  \<^item> \<open>receipts l\<close> and \<open>pendings l\<close> read the sixteen shards as one table of completed receipts and
    one table of flights.
  \<^item> \<open>ledger_shape\<close>: a key lives in its own shard, is never both completed and in flight, and
    owns the live reservation that its state calls for.
  \<^item> \<open>ledger_accounts l R K\<close>: the budgets and counters carry exactly the reservations \<open>R\<close> and
    callback slots \<open>K\<close>, which are exactly those of the tables.
  \<^item> \<open>ledger_admissions\<close>: the active admission sequences are those of the flights, without repetition.
\<close>

subsection \<open>The tables\<close>

definition receipts :: "ledger \<Rightarrow> rpc_key \<rightharpoonup> receipt" where
  "receipts l k = shard_receipt l (shardIndex l k) k"

definition pendings :: "ledger \<Rightarrow> rpc_key \<rightharpoonup> nat" where
  "pendings l k = shard_flight l (shardIndex l k) k"

definition entry_of :: "rpc_key \<Rightarrow> bool \<Rightarrow> reservation" where
  "entry_of k p = \<lparr>rv_key = k, rv_pending = p, rv_released = False\<rparr>"

definition slot_count :: "flight \<Rightarrow> nat" where
  "slot_count x = length (ft_subscribers x) + length (ft_executionSubscribers x)"

definition flight_live :: "rpc_key \<Rightarrow> flight \<Rightarrow> bool" where
  "flight_live k x \<longleftrightarrow>
     ft_reservation x = Some (entry_of k True) \<and> \<not> ft_done x \<and> ft_encoded x = None \<and> \<not> ft_ok x \<and>
     ft_subscriberSlots x = int (slot_count x) \<and> (ft_executionDone x \<longrightarrow> ft_executionSubscribers x = [])"

definition receipt_live :: "rpc_key \<Rightarrow> receipt \<Rightarrow> bool" where
  "receipt_live k rc \<longleftrightarrow>
     rc_key rc = k \<and> rc_reservation rc = Some (entry_of k False)"

definition ledger_shape :: "ledger \<Rightarrow> bool" where
  "ledger_shape l \<longleftrightarrow>
     (\<forall>i. distinct (map fst (sh_order (lg_shards l i)))) \<and>
     (\<forall>i k rc. shard_receipt l i k = Some rc \<longrightarrow> i = shardIndex l k \<and> receipt_live k rc) \<and>
     (\<forall>i k f. shard_flight l i k = Some f \<longrightarrow>
        i = shardIndex l k \<and> f < lg_nextFlight l \<and> receipts l k = None \<and> flight_live k (lg_flights l f)) \<and>
     (\<forall>k k' f. pendings l k = Some f \<longrightarrow> pendings l k' = Some f \<longrightarrow> k = k')"

definition owed_reservations :: "ledger \<Rightarrow> reservation \<Rightarrow> nat" where
  "owed_reservations l r =
     (if rv_released r then 0
      else if rv_pending r then (if pendings l (rv_key r) = None then 0 else 1)
      else (if receipts l (rv_key r) = None then 0 else 1))"

definition owed_slots :: "ledger \<Rightarrow> rpc_key \<Rightarrow> nat" where
  "owed_slots l k = (case pendings l k of None \<Rightarrow> 0 | Some f \<Rightarrow> slot_count (lg_flights l f))"

definition ledger_accounts :: "ledger \<Rightarrow> reservation multiset \<Rightarrow> rpc_key multiset \<Rightarrow> bool" where
  "ledger_accounts l R K \<longleftrightarrow>
     fair_inv (lg_budget l) R \<and> sub_inv (lg_subscriberBudget l) K \<and>
     fl_used (lg_flightLimit l) = mcount rv_pending R \<and> fl_used (lg_flightLimit l) \<le> fl_max (lg_flightLimit l) \<and>
     lg_receiptCount l = mcount (\<lambda>r. \<not> rv_pending r) R \<and>
     (\<forall>r. count R r = owed_reservations l r) \<and> (\<forall>k. count K k = owed_slots l k)"

definition ledger_admissions :: "ledger \<Rightarrow> bool" where
  "ledger_admissions l \<longleftrightarrow>
     distinct (ad_active (lg_admissions l)) \<and>
     (\<forall>s \<in> set (ad_active (lg_admissions l)). 0 < s \<and> s \<le> ad_next (lg_admissions l)) \<and>
     (\<forall>s. s \<in> set (ad_active (lg_admissions l)) \<longleftrightarrow>
        s \<noteq> 0 \<and> (\<exists>k f. pendings l k = Some f \<and> ft_admissionSeq (lg_flights l f) = s)) \<and>
     (\<forall>k k' f f'. pendings l k = Some f \<longrightarrow> pendings l k' = Some f' \<longrightarrow>
        ft_admissionSeq (lg_flights l f) = ft_admissionSeq (lg_flights l f') \<longrightarrow>
        ft_admissionSeq (lg_flights l f) \<noteq> 0 \<longrightarrow> k = k') \<and>
     ad_next (lg_admissions l) \<le> maxUint64"

definition ledger_inv :: "ledger \<Rightarrow> bool" where
  "ledger_inv l \<longleftrightarrow> ledger_shape l \<and> (\<exists>R K. ledger_accounts l R K) \<and> ledger_admissions l"

subsection \<open>Reading the tables after a write\<close>

lemma shardIndex_cong [simp]:
  "shardIndex (set_order l i os) k = shardIndex l k"
  "shardIndex (set_pending l i p) k = shardIndex l k"
  "shardIndex (set_flight l f x) k = shardIndex l k"
  by (simp_all add: shardIndex_def set_order_def set_pending_def set_flight_def)

lemma shardIndex_upd [simp]:
  "shardIndex (l\<lparr>lg_shards := a\<rparr>) k = shardIndex l k"
  "shardIndex (l\<lparr>lg_receiptCount := b\<rparr>) k = shardIndex l k"
  "shardIndex (l\<lparr>lg_budget := c\<rparr>) k = shardIndex l k"
  "shardIndex (l\<lparr>lg_flightLimit := d\<rparr>) k = shardIndex l k"
  "shardIndex (l\<lparr>lg_subscriberBudget := e\<rparr>) k = shardIndex l k"
  "shardIndex (l\<lparr>lg_admissions := g\<rparr>) k = shardIndex l k"
  "shardIndex (l\<lparr>lg_flights := h\<rparr>) k = shardIndex l k"
  "shardIndex (l\<lparr>lg_nextFlight := n\<rparr>) k = shardIndex l k"
  by (simp_all add: shardIndex_def)

lemma shape_distinct: "ledger_shape l \<Longrightarrow> distinct (map fst (sh_order (lg_shards l i)))"
  unfolding ledger_shape_def by blast

lemma shape_receipt:
  "ledger_shape l \<Longrightarrow> shard_receipt l i k = Some rc \<Longrightarrow> i = shardIndex l k \<and> receipt_live k rc"
  unfolding ledger_shape_def by blast

lemma shape_flight:
  "ledger_shape l \<Longrightarrow> shard_flight l i k = Some f \<Longrightarrow>
     i = shardIndex l k \<and> f < lg_nextFlight l \<and> receipts l k = None \<and> flight_live k (lg_flights l f)"
  unfolding ledger_shape_def by blast

lemma ledger_shape_pending:
  "ledger_shape l \<Longrightarrow> pendings l k = Some f \<Longrightarrow>
     f < lg_nextFlight l \<and> receipts l k = None \<and> flight_live k (lg_flights l f)"
  using shape_flight unfolding pendings_def by blast

lemma ledger_shape_receipt:
  assumes "ledger_shape l" "receipts l k = Some rc"
  shows "receipt_live k rc \<and> pendings l k = None"
proof (cases "pendings l k")
  case None
  with shape_receipt assms show ?thesis unfolding receipts_def by blast
next
  case (Some f)
  with ledger_shape_pending [OF assms(1)] assms(2) show ?thesis by simp
qed

lemma ledger_shape_inj:
  "ledger_shape l \<Longrightarrow> pendings l k = Some f \<Longrightarrow> pendings l k' = Some f \<Longrightarrow> k = k'"
  unfolding ledger_shape_def by blast

lemma count_entry: "ledger_accounts l R K \<Longrightarrow> pendings l k = Some f \<Longrightarrow> entry_of k True \<in># R"
  unfolding ledger_accounts_def owed_reservations_def entry_of_def count_greater_zero_iff [symmetric] by simp

lemma count_entry_receipt: "ledger_accounts l R K \<Longrightarrow> receipts l k = Some rc \<Longrightarrow> entry_of k False \<in># R"
  unfolding ledger_accounts_def owed_reservations_def entry_of_def count_greater_zero_iff [symmetric] by simp

lemma entry_of_sel [simp]:
  "rv_key (entry_of k p) = k" "rv_pending (entry_of k p) = p" "\<not> rv_released (entry_of k p)"
  "entry_of k p = entry_of k' p' \<longleftrightarrow> k = k' \<and> p = p'"
  by (simp_all add: entry_of_def)

lemma reservation_eq_entry: "r = entry_of k p \<longleftrightarrow> rv_key r = k \<and> rv_pending r = p \<and> \<not> rv_released r"
  by (cases r) (auto simp: entry_of_def)

lemma eq_entry_flip: "entry_of k p = r \<longleftrightarrow> rv_key r = k \<and> rv_pending r = p \<and> \<not> rv_released r"
  by (cases r) (auto simp: entry_of_def)

subsection \<open>Dropping a receipt\<close>

text \<open>
  \<open>reclaim P l l'\<close>: \<open>l'\<close> is \<open>l\<close> with some receipts that satisfy \<open>P\<close> dropped and their
  reservations returned; flights, limits and admissions are untouched.
\<close>

definition reclaim :: "(receipt \<Rightarrow> bool) \<Rightarrow> ledger \<Rightarrow> ledger \<Rightarrow> bool" where
  "reclaim P l l' \<longleftrightarrow>
     (\<exists>sh c b. l' = l\<lparr>lg_shards := sh, lg_receiptCount := c, lg_budget := b\<rparr>) \<and>
     pendings l' = pendings l \<and>
     (\<forall>k. receipts l' k = receipts l k \<or>
          receipts l' k = None \<and> (\<exists>rc. receipts l k = Some rc \<and> P rc))"

lemma reclaim_refl [simp, intro]: "reclaim P l l"
proof -
  have "l = l\<lparr>lg_shards := lg_shards l, lg_receiptCount := lg_receiptCount l, lg_budget := lg_budget l\<rparr>" by simp
  then show ?thesis unfolding reclaim_def by blast
qed

lemma reclaim_frame:
  assumes "reclaim P l l'"
  shows "lg_hash l' = lg_hash l" "lg_flightLimit l' = lg_flightLimit l"
    "lg_subscriberBudget l' = lg_subscriberBudget l" "lg_subscriberPerFlight l' = lg_subscriberPerFlight l"
    "lg_admissions l' = lg_admissions l" "lg_flights l' = lg_flights l" "lg_nextFlight l' = lg_nextFlight l"
    "pendings l' = pendings l" "shardIndex l' k = shardIndex l k"
proof -
  obtain sh c b where "l' = l\<lparr>lg_shards := sh, lg_receiptCount := c, lg_budget := b\<rparr>"
    using assms unfolding reclaim_def by blast
  then show "lg_hash l' = lg_hash l" "lg_flightLimit l' = lg_flightLimit l"
    "lg_subscriberBudget l' = lg_subscriberBudget l" "lg_subscriberPerFlight l' = lg_subscriberPerFlight l"
    "lg_admissions l' = lg_admissions l" "lg_flights l' = lg_flights l" "lg_nextFlight l' = lg_nextFlight l"
    "shardIndex l' k = shardIndex l k"
    by simp_all
qed (use assms in \<open>simp add: reclaim_def\<close>)

lemma reclaim_at:
  "reclaim P l l' \<Longrightarrow>
     receipts l' k = receipts l k \<or> receipts l' k = None \<and> (\<exists>rc. receipts l k = Some rc \<and> P rc)"
  unfolding reclaim_def by (elim conjE) (erule spec)

lemma reclaim_receipt:
  "reclaim P l l' \<Longrightarrow> receipts l' k = Some rc \<Longrightarrow> receipts l k = Some rc"
  using reclaim_at [of P l l' k] by auto

lemma reclaim_gone:
  "reclaim P l l' \<Longrightarrow> receipts l k = Some rc \<Longrightarrow> receipts l' k = None \<Longrightarrow> P rc"
  using reclaim_at [of P l l' k] by auto

lemma reclaim_trans:
  assumes "reclaim P l l'" "reclaim P l' l''"
  shows "reclaim P l l''"
proof -
  obtain sh c b sh' c' b' where "l' = l\<lparr>lg_shards := sh, lg_receiptCount := c, lg_budget := b\<rparr>"
    "l'' = l'\<lparr>lg_shards := sh', lg_receiptCount := c', lg_budget := b'\<rparr>"
    using assms unfolding reclaim_def by blast
  then have "l'' = l\<lparr>lg_shards := sh', lg_receiptCount := c', lg_budget := b'\<rparr>" by simp
  then have "\<exists>sh c b. l'' = l\<lparr>lg_shards := sh, lg_receiptCount := c, lg_budget := b\<rparr>" by blast
  moreover have "pendings l'' = pendings l"
    using assms by (simp add: reclaim_def)
  moreover have "receipts l'' k = receipts l k \<or> receipts l'' k = None \<and> (\<exists>rc. receipts l k = Some rc \<and> P rc)" for k
    using reclaim_at [OF assms(1), of k] reclaim_at [OF assms(2), of k] by metis
  ultimately show ?thesis unfolding reclaim_def by blast
qed

lemma reclaim_mono:
  assumes "reclaim P l l'" and PQ: "\<And>rc. P rc \<Longrightarrow> Q rc"
  shows "reclaim Q l l'"
  unfolding reclaim_def
proof (intro conjI allI)
  fix k
  from reclaim_at [OF assms(1), of k]
  show "receipts l' k = receipts l k \<or> receipts l' k = None \<and> (\<exists>rc. receipts l k = Some rc \<and> Q rc)"
    by (elim disjE conjE exE) (simp_all add: PQ)
qed (use assms(1) in \<open>simp_all add: reclaim_def\<close>)

text \<open>The shape only depends on what the tables and the flights say.\<close>

lemma mcount_remove: "r \<in># R \<Longrightarrow> mcount P (R - {#r#}) = mcount P R - (if P r then 1 else 0)"
  by (metis add_diff_cancel_right' insert_DiffM mcount_add)

lemma map_of_delete_fun: "map_of (AList.delete k xs) = (map_of xs)(k := None)"
  by (rule delete_conv')

lemma removeElement_ok:
  assumes inv: "ledger_inv l" and rc: "receipts l k = Some rc"
  shows "\<exists>l'. removeElement l (shardIndex l k) k = Some l' \<and> ledger_inv l' \<and>
     (\<exists>sh c b. l' = l\<lparr>lg_shards := sh, lg_receiptCount := c, lg_budget := b\<rparr>) \<and>
     pendings l' = pendings l \<and> receipts l' = (receipts l)(k := None) \<and>
     (\<forall>i. sh_order (lg_shards l' i) = AList.delete k (sh_order (lg_shards l i)))"
proof -
  let ?i = "shardIndex l k"
  let ?os = "AList.delete k (sh_order (lg_shards l ?i))"
  have shape: "ledger_shape l" and adm: "ledger_admissions l" using inv by (auto simp: ledger_inv_def)
  obtain R K where acc: "ledger_accounts l R K" using inv by (auto simp: ledger_inv_def)
  have live: "rc_reservation rc = Some (entry_of k False)" and nopend: "pendings l k = None"
    using ledger_shape_receipt [OF shape rc] by (auto simp: receipt_live_def)
  have inR: "entry_of k False \<in># R" by (rule count_entry_receipt [OF acc rc])
  have fair: "fair_inv (lg_budget l) R" using acc by (simp add: ledger_accounts_def)
  obtain b r' where b: "budget_release (lg_budget l) (entry_of k False) = Some (b, r')"
      "fair_inv b (R - {#entry_of k False#})"
    using fair.release_member [OF fair inR] by blast
  have "lg_receiptCount l \<ge> 1"
    using acc inR mcount_remove [OF inR, of "\<lambda>r. \<not> rv_pending r"] mcount_nonneg [of "\<lambda>r. \<not> rv_pending r" "R - {#entry_of k False#}"]
    by (simp add: ledger_accounts_def)
  define l' where "l' = (set_order l ?i ?os)\<lparr>lg_receiptCount := lg_receiptCount l - 1, lg_budget := b\<rparr>"
  have rem: "removeElement l ?i k = Some l'"
    using rc \<open>lg_receiptCount l \<ge> 1\<close> b(1) live
    by (simp add: removeElement_def receipts_def unlinkElement_def decrementReceiptCount_def
        release_reservation_def l'_def set_order_def)
  have sr: "shard_receipt l' i k' = (if i = ?i \<and> k' = k then None else shard_receipt l i k')" for i k'
    by (simp add: l'_def shard_receipt_def set_order_def map_of_delete_fun)
  have sf: "shard_flight l' i k' = shard_flight l i k'" for i k'
    by (simp add: l'_def shard_flight_def set_order_def)
  have idx: "shardIndex l' = shardIndex l" by (simp add: l'_def fun_eq_iff)
  have recs: "receipts l' = (receipts l)(k := None)"
    by (auto simp: receipts_def fun_eq_iff sr idx)
  have pend: "pendings l' = pendings l"
    by (simp add: pendings_def fun_eq_iff sf idx)
  have frame: "lg_flights l' = lg_flights l" "lg_nextFlight l' = lg_nextFlight l" "lg_admissions l' = lg_admissions l"
    "lg_subscriberBudget l' = lg_subscriberBudget l" "lg_flightLimit l' = lg_flightLimit l"
    "lg_receiptCount l' = lg_receiptCount l - 1" "lg_budget l' = b"
    by (simp_all add: l'_def set_order_def)
  have "k \<notin> set (map fst (sh_order (lg_shards l i)))" if "i \<noteq> ?i" for i
  proof -
    have "shard_receipt l i k = None"
      using shape that unfolding ledger_shape_def by (metis option.exhaust)
    then show ?thesis by (simp add: shard_receipt_def map_of_eq_None_iff)
  qed
  then have order: "sh_order (lg_shards l' i) = AList.delete k (sh_order (lg_shards l i))" for i
    by (auto simp: l'_def set_order_def delete_idem)
  have shape': "ledger_shape l'"
    using shape unfolding ledger_shape_def order recs pend frame sr sf idx
    by (auto simp: distinct_delete)
  have "owed_slots l' = owed_slots l"
    unfolding owed_slots_def fun_eq_iff pend frame by simp
  moreover have "count (R - {#entry_of k False#}) r = owed_reservations l' r" for r
    using acc rc unfolding ledger_accounts_def owed_reservations_def pend recs
    by (auto simp: eq_entry_flip)
  ultimately have "ledger_accounts l' (R - {#entry_of k False#}) K"
    using acc b(2) unfolding ledger_accounts_def frame
    by (simp add: mcount_remove [OF inR])
  moreover have "ledger_admissions l'"
    using adm by (simp add: ledger_admissions_def frame pend)
  ultimately have "ledger_inv l'" using shape' by (auto simp: ledger_inv_def)
  moreover have "\<exists>sh c b. l' = l\<lparr>lg_shards := sh, lg_receiptCount := c, lg_budget := b\<rparr>"
    unfolding l'_def set_order_def by (intro exI) simp
  ultimately show ?thesis using rem recs pend order by blast
qed

lemma removeElement_reclaim:
  assumes "ledger_inv l" "receipts l k = Some rc" "P rc"
  shows "\<exists>l'. removeElement l (shardIndex l k) k = Some l' \<and> ledger_inv l' \<and> reclaim P l l' \<and>
     receipts l' = (receipts l)(k := None) \<and>
     (\<forall>i. sh_order (lg_shards l' i) = AList.delete k (sh_order (lg_shards l i)))"
proof -
  from removeElement_ok [OF assms(1,2)] obtain l' where l':
    "removeElement l (shardIndex l k) k = Some l'" "ledger_inv l'"
    "\<exists>sh c b. l' = l\<lparr>lg_shards := sh, lg_receiptCount := c, lg_budget := b\<rparr>"
    "pendings l' = pendings l" "receipts l' = (receipts l)(k := None)"
    "\<forall>i. sh_order (lg_shards l' i) = AList.delete k (sh_order (lg_shards l i))" by blast
  have "reclaim P l l'"
    unfolding reclaim_def using l'(3,4,5) assms(2,3) by (intro conjI) simp_all
  with l' show ?thesis by blast
qed

lemma order_receipt:
  assumes "ledger_shape l" "(k, rc) \<in> set (sh_order (lg_shards l i))"
  shows "i = shardIndex l k" "receipts l k = Some rc" "rc_key rc = k"
proof -
  have "shard_receipt l i k = Some rc"
    using assms shape_distinct [of l i] by (simp add: shard_receipt_def)
  then show "i = shardIndex l k" "receipts l k = Some rc" "rc_key rc = k"
    using shape_receipt [OF assms(1)] by (auto simp: receipts_def receipt_live_def)
qed

subsection \<open>Expiry and forgetting\<close>

definition expired :: "time \<Rightarrow> receipt \<Rightarrow> bool" where
  "expired now rc \<longleftrightarrow> rc_expiresAt rc \<le> now"

lemma delete_head: "distinct (map fst ((k, v) # xs)) \<Longrightarrow> AList.delete k ((k, v) # xs) = xs"
  by (simp add: delete_idem)

lemma delete_middle:
  "k \<notin> fst ` set xs \<Longrightarrow> k \<notin> fst ` set ys \<Longrightarrow> AList.delete k (xs @ (k, v) # ys) = xs @ ys"
  by (induction xs) (auto simp: delete_idem)

lemma expire_from_ok:
  "ledger_inv l \<Longrightarrow> sh_order (lg_shards l i) = rest \<Longrightarrow>
     \<exists>l'. expire_from l i now rest = Some l' \<and> ledger_inv l' \<and> reclaim (expired now) l l' \<and>
       sh_order (lg_shards l' i) = dropWhile (\<lambda>(k, rc). expired now rc) rest"
proof (induction rest arbitrary: l)
  case Nil
  then show ?case by auto
next
  case (Cons e rest)
  obtain k rc where e: "e = (k, rc)" by (cases e)
  show ?case
  proof (cases "expired now rc")
    case False
    then show ?thesis using Cons.prems e by (auto simp: expired_def)
  next
    case True
    have shape: "ledger_shape l" using Cons.prems(1) by (simp add: ledger_inv_def)
    have k: "i = shardIndex l k" "receipts l k = Some rc"
      using order_receipt [OF shape, of k rc i] Cons.prems(2) e by auto
    from removeElement_reclaim [of l k rc "expired now", OF Cons.prems(1) k(2) True] obtain l1 where l1:
      "removeElement l i k = Some l1" "ledger_inv l1" "reclaim (expired now) l l1"
      "sh_order (lg_shards l1 i) = AList.delete k (sh_order (lg_shards l i))"
      using k(1) by blast
    have "sh_order (lg_shards l1 i) = rest"
      using l1(4) Cons.prems(2) e shape_distinct [OF shape, of i] delete_head [of k rc rest] by simp
    from Cons.IH [OF l1(2) this] obtain l2 where
      "expire_from l1 i now rest = Some l2" "ledger_inv l2" "reclaim (expired now) l1 l2"
      "sh_order (lg_shards l2 i) = dropWhile (\<lambda>(k, rc). expired now rc) rest" by blast
    moreover from True have "expire_from l i now (e # rest) = Option.bind (removeElement l i k) (\<lambda>l'. expire_from l' i now rest)"
      by (simp add: e expired_def)
    ultimately show ?thesis
      using l1 reclaim_trans [of "expired now" l l1 l2] True e by auto
  qed
qed

lemma expireLocked_ok:
  assumes "ledger_inv l"
  shows "\<exists>l'. expireLocked l i now = Some l' \<and> ledger_inv l' \<and> reclaim (expired now) l l' \<and>
     sh_order (lg_shards l' i) = dropWhile (\<lambda>(k, rc). expired now rc) (sh_order (lg_shards l i))"
  unfolding expireLocked_def by (rule expire_from_ok [OF assms refl])

definition of_session :: "auth_key_id \<Rightarrow> int \<Rightarrow> receipt \<Rightarrow> bool" where
  "of_session a s rc \<longleftrightarrow> key_auth (rc_key rc) = a \<and> key_session (rc_key rc) = s"

lemma forget_from_ok:
  "ledger_inv l \<Longrightarrow> sh_order (lg_shards l i) = pre @ rest \<Longrightarrow>
     (\<forall>(k, rc) \<in> set pre. \<not> of_session a s rc) \<Longrightarrow>
     \<exists>l'. forget_from l i a s rest = Some l' \<and> ledger_inv l' \<and> reclaim (of_session a s) l l' \<and>
       (\<forall>(k, rc) \<in> set (sh_order (lg_shards l' i)). \<not> of_session a s rc)"
proof (induction rest arbitrary: l pre)
  case Nil
  then show ?case by auto
next
  case (Cons e rest)
  obtain k rc where e: "e = (k, rc)" by (cases e)
  show ?case
  proof (cases "of_session a s rc")
    case False
    then have "forget_from l i a s (e # rest) = forget_from l i a s rest"
      by (auto simp: e of_session_def)
    moreover have "\<exists>l'. forget_from l i a s rest = Some l' \<and> ledger_inv l' \<and> reclaim (of_session a s) l l' \<and>
       (\<forall>(k, rc) \<in> set (sh_order (lg_shards l' i)). \<not> of_session a s rc)"
      by (rule Cons.IH [of l "pre @ [e]"]) (use Cons.prems False e in auto)
    ultimately show ?thesis by simp
  next
    case True
    have shape: "ledger_shape l" using Cons.prems(1) by (simp add: ledger_inv_def)
    have k: "i = shardIndex l k" "receipts l k = Some rc"
      using order_receipt [OF shape, of k rc i] Cons.prems(2) e by auto
    from removeElement_reclaim [of l k rc "of_session a s", OF Cons.prems(1) k(2) True] obtain l1 where l1:
      "removeElement l i k = Some l1" "ledger_inv l1" "reclaim (of_session a s) l l1"
      "sh_order (lg_shards l1 i) = AList.delete k (sh_order (lg_shards l i))"
      using k(1) by blast
    have "distinct (map fst (pre @ (k, rc) # rest))"
      using shape_distinct [OF shape, of i] Cons.prems(2) e by simp
    then have "AList.delete k (pre @ (k, rc) # rest) = pre @ rest"
      by (intro delete_middle) auto
    then have "sh_order (lg_shards l1 i) = pre @ rest"
      using l1(4) Cons.prems(2) e by simp
    from Cons.IH [OF l1(2) this Cons.prems(3)] obtain l2 where
      "forget_from l1 i a s rest = Some l2" "ledger_inv l2" "reclaim (of_session a s) l1 l2"
      "\<forall>(k, rc) \<in> set (sh_order (lg_shards l2 i)). \<not> of_session a s rc" by blast
    moreover from True have "forget_from l i a s (e # rest) = Option.bind (removeElement l i k) (\<lambda>l'. forget_from l' i a s rest)"
      by (simp add: e of_session_def)
    ultimately show ?thesis
      using l1 reclaim_trans [of "of_session a s" l l1 l2] by auto
  qed
qed

lemma forget_shard_ok:
  assumes inv: "ledger_inv l"
  shows "\<exists>l'. forget_shard l i a s = Some l' \<and> ledger_inv l' \<and> reclaim (of_session a s) l l' \<and>
       (\<forall>(k, rc) \<in> set (sh_order (lg_shards l' i)). \<not> of_session a s rc)"
  unfolding forget_shard_def by (rule forget_from_ok [OF inv, of i "[]"]) simp_all

lemma forget_shard_none:
  assumes "ledger_inv l'" "\<forall>(k, rc) \<in> set (sh_order (lg_shards l' (shardIndex l' k))). \<not> of_session a s rc"
    and "receipts l' k = Some rc"
  shows "\<not> of_session a s rc"
proof -
  have "(k, rc) \<in> set (sh_order (lg_shards l' (shardIndex l' k)))"
    using assms(3) unfolding receipts_def shard_receipt_def by (rule map_of_SomeD)
  with assms(2) show ?thesis by fastforce
qed

end
