(* ===== verification/Rpc_Ledger_Claims.thy ===== *)
theory Rpc_Ledger_Claims
  imports Rpc_Ledger_Inv
begin

text \<open>
  The invariant through the life of a claim: installing an owner, adding and delivering
  callbacks, and ending the claim by a result (\<^verbatim>\<open>Complete\<close>) or without one (\<^verbatim>\<open>Abort\<close>). The lemmas
  named \<open>..._ok\<close> give for an operation the state it leaves, written with the fields that change,
  and the invariant there; in particular the operation does not panic.
\<close>

subsection \<open>Steps of the accounts\<close>

lemma releaseSlots_ok:
  assumes sub: "sub_inv (lg_subscriberBudget l) K" and m: "m \<le> count K k"
    and slots: "int m \<le> ft_subscriberSlots (lg_flights l f)"
  shows "\<exists>sb. releaseFlightSubscriberSlots l k f (int m) =
       Some (l\<lparr>lg_flights := (lg_flights l)(f := (lg_flights l f)\<lparr>ft_subscriberSlots := ft_subscriberSlots (lg_flights l f) - int m\<rparr>),
               lg_subscriberBudget := sb\<rparr>) \<and> sub_inv sb (K - replicate_mset m k)"
proof (cases "m = 0")
  case True
  have "lg_flights l f\<lparr>ft_subscriberSlots := ft_subscriberSlots (lg_flights l f)\<rparr> = lg_flights l f" by simp
  then have "releaseFlightSubscriberSlots l k f (int m) =
       Some (l\<lparr>lg_flights := (lg_flights l)(f := (lg_flights l f)\<lparr>ft_subscriberSlots := ft_subscriberSlots (lg_flights l f) - int m\<rparr>),
               lg_subscriberBudget := lg_subscriberBudget l\<rparr>)"
    using True by (simp add: releaseFlightSubscriberSlots_def)
  with True sub show ?thesis by (intro exI [of _ "lg_subscriberBudget l"]) simp
next
  case False
  have "replicate_mset m k \<subseteq># K" using m by (simp add: count_le_replicate_mset_subset_eq)
  then have "sub_inv (lg_subscriberBudget l) ((K - replicate_mset m k) + replicate_mset m k)"
    using sub by simp
  from sub_inv_release [OF this] False obtain sb where
    "subscriber_release (lg_subscriberBudget l) k (int m) = Some sb" "sub_inv sb (K - replicate_mset m k)" by blast
  with False slots show ?thesis
    by (intro exI [of _ sb]) (simp add: releaseFlightSubscriberSlots_def set_flight_def)
qed

lemma flight_limit_release_ok:
  assumes "1 \<le> fl_used (lg_flightLimit l)"
  shows "\<exists>g. flight_limit_release l = Some (l\<lparr>lg_flightLimit := g\<rparr>) \<and>
     fl_used g = fl_used (lg_flightLimit l) - 1 \<and> fl_max g = fl_max (lg_flightLimit l)"
  using flight_release_effect [OF assms] by (auto simp: flight_limit_release_def)

lemma retire_admission_ok:
  assumes "s = 0 \<or> s \<in> set (ad_active (lg_admissions l))" "0 \<notin> set (ad_active (lg_admissions l))"
  shows "retire_admission l s =
     Some (l\<lparr>lg_admissions := (lg_admissions l)\<lparr>ad_active := removeAll s (ad_active (lg_admissions l))\<rparr>\<rparr>)"
proof (cases "s = 0")
  case True
  have "(lg_admissions l)\<lparr>ad_active := ad_active (lg_admissions l)\<rparr> = lg_admissions l" by simp
  with True assms(2) show ?thesis by (simp add: retire_admission_def retire_def removeAll_id)
qed (use assms in \<open>simp add: retire_admission_def retire_def\<close>)

lemma accounts_used:
  "ledger_accounts l R K \<Longrightarrow> pendings l k = Some f \<Longrightarrow> 1 \<le> fl_used (lg_flightLimit l)"
proof -
  assume acc: "ledger_accounts l R K" and p: "pendings l k = Some f"
  have "entry_of k True \<in># R" by (rule count_entry [OF acc p])
  then show ?thesis
    using acc mcount_remove [of "entry_of k True" R rv_pending] mcount_nonneg [of rv_pending "R - {#entry_of k True#}"]
    by (simp add: ledger_accounts_def)
qed

subsection \<open>A claim that ends\<close>

lemma detach_shape:
  assumes shape: "ledger_shape l" and p: "pendings l k = Some f"
    and sf: "\<And>i' k'. shard_flight l' i' k' = (if k' = k then None else shard_flight l i' k')"
    and sr: "\<And>i' k'. shard_receipt l' i' k' = (if i' = shardIndex l k \<and> k' = k then rco else shard_receipt l i' k')"
    and dist: "\<And>i'. distinct (map fst (sh_order (lg_shards l' i')))"
    and idx: "shardIndex l' = shardIndex l" and nf: "lg_nextFlight l' = lg_nextFlight l"
    and fl: "\<And>f'. f' \<noteq> f \<Longrightarrow> lg_flights l' f' = lg_flights l f'"
    and live: "\<And>rc. rco = Some rc \<Longrightarrow> receipt_live k rc"
  shows "ledger_shape l'" "pendings l' = (pendings l)(k := None)" "receipts l' = (receipts l)(k := rco)"
proof -
  have none: "receipts l k = None" using ledger_shape_pending [OF shape p] by blast
  show pend: "pendings l' = (pendings l)(k := None)"
    by (auto simp: pendings_def fun_eq_iff sf idx)
  show recs: "receipts l' = (receipts l)(k := rco)"
    by (auto simp: receipts_def fun_eq_iff sr idx)
  have "i = shardIndex l' k' \<and> receipt_live k' rc" if "shard_receipt l' i k' = Some rc" for i k' rc
    using that live shape_receipt [OF shape, of i k' rc] unfolding sr idx by (auto split: if_splits)
  moreover have "i = shardIndex l' k' \<and> f' < lg_nextFlight l' \<and> receipts l' k' = None \<and> flight_live k' (lg_flights l' f')"
    if "shard_flight l' i k' = Some f'" for i k' f'
  proof -
    have k': "k' \<noteq> k" "shard_flight l i k' = Some f'" using that unfolding sf by (auto split: if_splits)
    have facts: "i = shardIndex l k'" "f' < lg_nextFlight l" "receipts l k' = None" "flight_live k' (lg_flights l f')"
      using shape_flight [OF shape k'(2)] by auto
    then have "pendings l k' = Some f'" using k'(2) by (simp add: pendings_def)
    then have "f' \<noteq> f" using ledger_shape_inj [OF shape p] k'(1) by metis
    with facts k'(1) show ?thesis by (simp add: idx nf recs fl)
  qed
  moreover have "k1 = k2" if "pendings l' k1 = Some f'" "pendings l' k2 = Some f'" for k1 k2 f'
    using that ledger_shape_inj [OF shape, of k1 f' k2] unfolding pend by (auto split: if_splits)
  ultimately show "ledger_shape l'" unfolding ledger_shape_def using dist by blast
qed

lemma detach_accounts:
  assumes shape: "ledger_shape l" and acc: "ledger_accounts l R K" and p: "pendings l k = Some f"
    and pend: "pendings l' = (pendings l)(k := None)" and recs: "receipts l' = (receipts l)(k := rco)"
    and fl: "\<And>f'. f' \<noteq> f \<Longrightarrow> lg_flights l' f' = lg_flights l f'"
    and R': "R' = (if rco = None then R - {#entry_of k True#} else add_mset (entry_of k False) (R - {#entry_of k True#}))"
    and K': "K' = K - replicate_mset (slot_count (lg_flights l f)) k"
    and fair: "fair_inv (lg_budget l') R'" and sub: "sub_inv (lg_subscriberBudget l') K'"
    and lim: "fl_used (lg_flightLimit l') = fl_used (lg_flightLimit l) - 1" "fl_max (lg_flightLimit l') = fl_max (lg_flightLimit l)"
    and cnt: "lg_receiptCount l' = lg_receiptCount l + (if rco = None then 0 else 1)"
  shows "ledger_accounts l' R' K'"
proof -
  have none: "receipts l k = None" using ledger_shape_pending [OF shape p] by blast
  have inR: "entry_of k True \<in># R" by (rule count_entry [OF acc p])
  have cR: "count R r = owed_reservations l r" for r using acc by (simp add: ledger_accounts_def)
  have cK: "count K k' = owed_slots l k'" for k' using acc by (simp add: ledger_accounts_def)
  have "count R' r = owed_reservations l' r" for r
    unfolding R' owed_reservations_def pend recs
    using cR [of r] none p by (auto simp: owed_reservations_def eq_entry_flip reservation_eq_entry)
  moreover have "count K' k' = owed_slots l' k'" for k'
  proof (cases "k' = k")
    case True
    then show ?thesis using cK [of k] p by (simp add: K' owed_slots_def pend)
  next
    case False
    have "lg_flights l' f' = lg_flights l f'" if "pendings l k' = Some f'" for f'
      using fl that ledger_shape_inj [OF shape p] False by metis
    then show ?thesis using cK [of k'] False by (auto simp: K' owed_slots_def pend split: option.split)
  qed
  moreover have "mcount rv_pending R' = mcount rv_pending R - 1"
    "mcount (\<lambda>r. \<not> rv_pending r) R' = mcount (\<lambda>r. \<not> rv_pending r) R + (if rco = None then 0 else 1)"
    by (simp_all add: R' mcount_add mcount_remove [OF inR])
  ultimately show ?thesis
    using acc fair sub lim cnt unfolding ledger_accounts_def by simp
qed

lemma detach_admissions:
  assumes shape: "ledger_shape l" and adm: "ledger_admissions l" and p: "pendings l k = Some f"
    and pend: "pendings l' = (pendings l)(k := None)"
    and fl: "\<And>f'. f' \<noteq> f \<Longrightarrow> lg_flights l' f' = lg_flights l f'"
    and a: "lg_admissions l' = (lg_admissions l)\<lparr>ad_active := removeAll (ft_admissionSeq (lg_flights l f)) (ad_active (lg_admissions l))\<rparr>"
  shows "ledger_admissions l'"
proof -
  have fl': "lg_flights l' f' = lg_flights l f'" if "pendings l k' = Some f'" "k' \<noteq> k" for k' f'
    using fl that ledger_shape_inj [OF shape p] by metis
  let ?s = "ft_admissionSeq (lg_flights l f)"
  have mem: "s \<in> set (ad_active (lg_admissions l)) \<longleftrightarrow>
        s \<noteq> 0 \<and> (\<exists>k f. pendings l k = Some f \<and> ft_admissionSeq (lg_flights l f) = s)" for s
    using adm unfolding ledger_admissions_def by blast
  have inj: "k1 = k2" if "pendings l k1 = Some f1" "pendings l k2 = Some f2"
    "ft_admissionSeq (lg_flights l f1) = ft_admissionSeq (lg_flights l f2)" "ft_admissionSeq (lg_flights l f1) \<noteq> 0" for k1 k2 f1 f2
    using adm that unfolding ledger_admissions_def by blast
  have "s \<in> set (ad_active (lg_admissions l')) \<longleftrightarrow>
        s \<noteq> 0 \<and> (\<exists>k f. pendings l' k = Some f \<and> ft_admissionSeq (lg_flights l' f) = s)" for s
  proof
    assume "s \<in> set (ad_active (lg_admissions l'))"
    then have s: "s \<noteq> ?s" "s \<noteq> 0" "\<exists>k f. pendings l k = Some f \<and> ft_admissionSeq (lg_flights l f) = s"
      using mem [of s] by (auto simp: a)
    then obtain k1 f1 where k1: "pendings l k1 = Some f1" "ft_admissionSeq (lg_flights l f1) = s" by blast
    then have "k1 \<noteq> k" using s(1) p by auto
    with k1 fl' [OF k1(1)] s(2) show "s \<noteq> 0 \<and> (\<exists>k f. pendings l' k = Some f \<and> ft_admissionSeq (lg_flights l' f) = s)"
      by (auto simp: pend)
  next
    assume "s \<noteq> 0 \<and> (\<exists>k f. pendings l' k = Some f \<and> ft_admissionSeq (lg_flights l' f) = s)"
    then obtain k1 f1 where k1: "s \<noteq> 0" "k1 \<noteq> k" "pendings l k1 = Some f1" "ft_admissionSeq (lg_flights l f1) = s"
      using fl' by (auto simp: pend split: if_splits)
    then have "s \<noteq> ?s" using inj [OF k1(3) p] by auto
    then show "s \<in> set (ad_active (lg_admissions l'))" using k1 mem [of s] by (auto simp: a)
  qed
  moreover have "k1 = k2" if k12: "pendings l' k1 = Some f1" "pendings l' k2 = Some f2"
    "ft_admissionSeq (lg_flights l' f1) = ft_admissionSeq (lg_flights l' f2)" "ft_admissionSeq (lg_flights l' f1) \<noteq> 0" for k1 k2 f1 f2
  proof -
    have "k1 \<noteq> k" "k2 \<noteq> k" "pendings l k1 = Some f1" "pendings l k2 = Some f2"
      using k12 by (auto simp: pend split: if_splits)
    note k = this
    show ?thesis
      by (rule inj [OF k(3,4)]) (use k12(3,4) in \<open>simp_all only: fl' [OF k(3,1)] fl' [OF k(4,2)] not_False_eq_True\<close>)
  qed
  moreover have "distinct (ad_active (lg_admissions l'))"
    "\<forall>s \<in> set (ad_active (lg_admissions l')). 0 < s \<and> s \<le> ad_next (lg_admissions l')"
    "ad_next (lg_admissions l') \<le> maxUint64"
    using adm unfolding ledger_admissions_def a by (simp_all add: distinct_removeAll)
  ultimately show ?thesis unfolding ledger_admissions_def by (intro conjI) blast+
qed

definition active_without :: "ledger \<Rightarrow> nat \<Rightarrow> admissions" where
  "active_without l s = (lg_admissions l)\<lparr>ad_active := removeAll s (ad_active (lg_admissions l))\<rparr>"

definition finished_flight :: "flight \<Rightarrow> nat option \<Rightarrow> flight" where
  "finished_flight x enc = x\<lparr>ft_encoded := enc, ft_ok := (enc \<noteq> None), ft_subscribers := [], ft_executionSubscribers := [],
     ft_executionDone := True, ft_executionOK := (ft_executionDone x \<and> ft_executionOK x),
     ft_reservation := None, ft_subscriberSlots := 0, ft_done := True\<rparr>"

definition resolved :: "ledger \<Rightarrow> rpc_key \<Rightarrow> nat \<Rightarrow> nat option \<Rightarrow> fair_budget \<Rightarrow> flight_limit \<Rightarrow> subscriber_budget \<Rightarrow> ledger" where
  "resolved l k f enc b g sb =
     (set_pending l (shardIndex l k) ((sh_pending (lg_shards l (shardIndex l k)))(k := None)))
       \<lparr>lg_budget := b, lg_flightLimit := g, lg_admissions := active_without l (ft_admissionSeq (lg_flights l f)),
        lg_flights := (lg_flights l)(f := finished_flight (lg_flights l f) enc), lg_subscriberBudget := sb\<rparr>"

lemma entry_settled: "(entry_of k True)\<lparr>rv_pending := False\<rparr> = entry_of k False"
  by (simp add: entry_of_def)

lemma admission_active:
  "ledger_admissions l \<Longrightarrow> pendings l k = Some f \<Longrightarrow>
     ft_admissionSeq (lg_flights l f) = 0 \<or> ft_admissionSeq (lg_flights l f) \<in> set (ad_active (lg_admissions l))"
  unfolding ledger_admissions_def by blast

lemma admission_nonzero: "ledger_admissions l \<Longrightarrow> 0 \<notin> set (ad_active (lg_admissions l))"
  unfolding ledger_admissions_def by blast

lemma complete_flight_ok:
  assumes shape: "ledger_shape l" and acc: "ledger_accounts l R K" and adm: "ledger_admissions l"
    and p: "pendings l k = Some f"
  shows "\<exists>b g sb.
     complete_flight l (shardIndex l k) k f enc =
       Some (resolved l k f (Some enc) b g sb, ft_subscribers (lg_flights l f), ft_executionSubscribers (lg_flights l f),
             ft_executionDone (lg_flights l f) \<and> ft_executionOK (lg_flights l f), Some (entry_of k False)) \<and>
     fair_inv b (add_mset (entry_of k False) (R - {#entry_of k True#})) \<and>
     fl_used g = fl_used (lg_flightLimit l) - 1 \<and> fl_max g = fl_max (lg_flightLimit l) \<and>
     sub_inv sb (K - replicate_mset (slot_count (lg_flights l f)) k)"
proof -
  let ?i = "shardIndex l k" and ?x = "lg_flights l f"
  let ?l1 = "set_pending l ?i ((sh_pending (lg_shards l ?i))(k := None))"
  have live: "ft_reservation ?x = Some (entry_of k True)" "ft_subscriberSlots ?x = int (slot_count ?x)" "\<not> ft_done ?x"
    using ledger_shape_pending [OF shape p] by (auto simp: flight_live_def)
  have fair: "fair_inv (lg_budget l) (add_mset (entry_of k True) (R - {#entry_of k True#}))"
    using acc count_entry [OF acc p] by (simp add: ledger_accounts_def)
  from fair.settle_inv [OF fair] obtain b where
    b: "releasePending (lg_budget l) (entry_of k True) = Some (b, entry_of k False)"
      "fair_inv b (add_mset (entry_of k False) (R - {#entry_of k True#}))"
    by (auto simp: entry_settled)
  define l2 where "l2 = ?l1\<lparr>lg_budget := b\<rparr>"
  have "lg_flightLimit l2 = lg_flightLimit l" by (simp add: l2_def set_pending_def)
  then obtain g where g: "flight_limit_release l2 = Some (l2\<lparr>lg_flightLimit := g\<rparr>)"
     "fl_used g = fl_used (lg_flightLimit l) - 1" "fl_max g = fl_max (lg_flightLimit l)"
    using flight_limit_release_ok [of l2] accounts_used [OF acc p] by auto
  define l3 where "l3 = l2\<lparr>lg_flightLimit := g\<rparr>"
  have adm3: "lg_admissions l3 = lg_admissions l" by (simp add: l3_def l2_def set_pending_def)
  have r: "retire_admission l3 (ft_admissionSeq ?x) = Some (l3\<lparr>lg_admissions := active_without l (ft_admissionSeq ?x)\<rparr>)"
    using retire_admission_ok [of "ft_admissionSeq ?x" l3] admission_active [OF adm p] admission_nonzero [OF adm]
    by (simp add: adm3 active_without_def)
  define y where "y = ?x\<lparr>ft_encoded := Some enc, ft_ok := True, ft_subscribers := [], ft_executionSubscribers := [],
     ft_executionDone := True, ft_executionOK := (if ft_executionDone ?x then ft_executionOK ?x else False),
     ft_reservation := None\<rparr>"
  define l5 where "l5 = set_flight (l3\<lparr>lg_admissions := active_without l (ft_admissionSeq ?x)\<rparr>) f y"
  have fl5: "lg_flights l5 = (lg_flights l)(f := y)" "lg_subscriberBudget l5 = lg_subscriberBudget l"
    by (simp_all add: l5_def l3_def l2_def set_pending_def set_flight_def)
  have sl: "ft_subscriberSlots y = int (slot_count ?x)" using live by (simp add: y_def)
  have cK: "count K k = slot_count ?x" using acc p by (simp add: ledger_accounts_def owed_slots_def)
  have "sub_inv (lg_subscriberBudget l5) K" using acc by (simp add: fl5 ledger_accounts_def)
  from releaseSlots_ok [OF this, of "slot_count ?x" k f] cK sl
  obtain sb where sb: "releaseFlightSubscriberSlots l5 k f (int (slot_count ?x)) =
       Some (l5\<lparr>lg_flights := (lg_flights l5)(f := (lg_flights l5 f)\<lparr>ft_subscriberSlots := ft_subscriberSlots (lg_flights l5 f) - int (slot_count ?x)\<rparr>),
               lg_subscriberBudget := sb\<rparr>)"
     "sub_inv sb (K - replicate_mset (slot_count ?x) k)"
    by (auto simp: fl5)
  have "complete_flight l ?i k f enc =
     Some (resolved l k f (Some enc) b g sb, ft_subscribers ?x, ft_executionSubscribers ?x,
           ft_executionDone ?x \<and> ft_executionOK ?x, Some (entry_of k False))"
    unfolding complete_flight_def Let_def
    using b(1) g(1) r sb(1) live
    by (simp add: set_pending_def resolved_def l2_def [symmetric, unfolded set_pending_def]
        l3_def [symmetric] y_def [symmetric] l5_def [symmetric] slot_count_def [symmetric])
       (simp add: fl5 sl set_flight_def l5_def l3_def l2_def y_def finished_flight_def set_pending_def)
  with b(2) g(2,3) sb(2) show ?thesis by blast
qed

lemma resolved_tables:
  "shard_flight (resolved l k f enc b g sb) i' k' =
     (if i' = shardIndex l k \<and> k' = k then None else shard_flight l i' k')"
  "sh_order (lg_shards (resolved l k f enc b g sb) i') = sh_order (lg_shards l i')"
  "shard_receipt (resolved l k f enc b g sb) i' k' = shard_receipt l i' k'"
  "shardIndex (resolved l k f enc b g sb) = shardIndex l"
  by (auto simp: resolved_def shard_flight_def shard_receipt_def set_pending_def shardIndex_def)

lemma resolved_sel [simp]:
  "lg_budget (resolved l k f enc b g sb) = b" "lg_flightLimit (resolved l k f enc b g sb) = g"
  "lg_subscriberBudget (resolved l k f enc b g sb) = sb"
  "lg_admissions (resolved l k f enc b g sb) = active_without l (ft_admissionSeq (lg_flights l f))"
  "lg_flights (resolved l k f enc b g sb) = (lg_flights l)(f := finished_flight (lg_flights l f) enc)"
  "lg_nextFlight (resolved l k f enc b g sb) = lg_nextFlight l"
  "lg_receiptCount (resolved l k f enc b g sb) = lg_receiptCount l"
  "lg_hash (resolved l k f enc b g sb) = lg_hash l"
  "lg_subscriberPerFlight (resolved l k f enc b g sb) = lg_subscriberPerFlight l"
  by (simp_all add: resolved_def set_pending_def)

lemma flight_only_here:
  assumes "ledger_shape l" "pendings l k = Some f"
  shows "shard_flight (resolved l k f enc b g sb) i' k' = (if k' = k then None else shard_flight l i' k')"
proof (cases "k' = k \<and> i' \<noteq> shardIndex l k")
  case True
  then have "shard_flight l i' k = None"
    using shape_flight [OF assms(1), of i' k] by (cases "shard_flight l i' k") auto
  with True show ?thesis by (simp add: resolved_tables)
qed (auto simp: resolved_tables)

lemma Abort_ok:
  assumes inv: "ledger_inv l" and owner: "pendings l (ls_key ls) = Some (ls_flight ls)" and nh: "\<not> ls_handedOff ls"
  shows "\<exists>b g sb. let k = ls_key ls; f = ls_flight ls; x = lg_flights l f; l' = resolved l k f None b g sb in
     Abort l ls = Some (l', ls\<lparr>ls_abortHook := None\<rparr>, True,
       (case ls_abortHook ls of None \<Rightarrow> [] | Some h \<Rightarrow> [AbortCallback h]) @
       map (\<lambda>s. ResultCallback s None False) (ft_subscribers x) @
       map (\<lambda>s. ExecutionCallback s False) (ft_executionSubscribers x)) \<and>
     ledger_inv l' \<and> pendings l' = (pendings l)(k := None) \<and> receipts l' = receipts l \<and>
     fl_used g = fl_used (lg_flightLimit l) - 1"
proof -
  define k f where "k = ls_key ls" and "f = ls_flight ls"
  let ?i = "shardIndex l k" and ?x = "lg_flights l f"
  let ?l1 = "set_pending l ?i ((sh_pending (lg_shards l ?i))(k := None))"
  have p: "pendings l k = Some f" using owner by (simp add: k_def f_def)
  have shape: "ledger_shape l" and adm: "ledger_admissions l" using inv by (auto simp: ledger_inv_def)
  obtain R K where acc: "ledger_accounts l R K" using inv by (auto simp: ledger_inv_def)
  have live: "ft_reservation ?x = Some (entry_of k True)" "ft_subscriberSlots ?x = int (slot_count ?x)" "\<not> ft_done ?x"
    "ft_encoded ?x = None" "\<not> ft_ok ?x"
    using ledger_shape_pending [OF shape p] by (auto simp: flight_live_def)
  have inR: "entry_of k True \<in># R" by (rule count_entry [OF acc p])
  have "fair_inv (lg_budget l) R" using acc by (simp add: ledger_accounts_def)
  from fair.release_member [OF this inR] obtain b r' where
    b: "budget_release (lg_budget l) (entry_of k True) = Some (b, r')" "fair_inv b (R - {#entry_of k True#})" by blast
  define l2 where "l2 = ?l1\<lparr>lg_budget := b\<rparr>"
  have rel: "release_reservation ?l1 (Some (entry_of k True)) = Some l2"
    using b(1) by (simp add: release_reservation_def set_pending_def l2_def)
  have "lg_flightLimit l2 = lg_flightLimit l" by (simp add: l2_def set_pending_def)
  then obtain g where g: "flight_limit_release l2 = Some (l2\<lparr>lg_flightLimit := g\<rparr>)"
     "fl_used g = fl_used (lg_flightLimit l) - 1" "fl_max g = fl_max (lg_flightLimit l)"
    using flight_limit_release_ok [of l2] accounts_used [OF acc p] by auto
  define l3 where "l3 = l2\<lparr>lg_flightLimit := g\<rparr>"
  have adm3: "lg_admissions l3 = lg_admissions l" by (simp add: l3_def l2_def set_pending_def)
  have r: "retire_admission l3 (ft_admissionSeq ?x) = Some (l3\<lparr>lg_admissions := active_without l (ft_admissionSeq ?x)\<rparr>)"
    using retire_admission_ok [of "ft_admissionSeq ?x" l3] admission_active [OF adm p] admission_nonzero [OF adm]
    by (simp add: adm3 active_without_def)
  define y where "y = ?x\<lparr>ft_reservation := None, ft_subscribers := [], ft_executionSubscribers := []\<rparr>"
  define l4 where "l4 = set_flight (l3\<lparr>lg_admissions := active_without l (ft_admissionSeq ?x)\<rparr>) f y"
  have fl4: "lg_flights l4 = (lg_flights l)(f := y)" "lg_subscriberBudget l4 = lg_subscriberBudget l"
    by (simp_all add: l4_def l3_def l2_def set_pending_def set_flight_def)
  have sl: "ft_subscriberSlots y = int (slot_count ?x)" using live by (simp add: y_def)
  have cK: "count K k = slot_count ?x" using acc p by (simp add: ledger_accounts_def owed_slots_def)
  have "sub_inv (lg_subscriberBudget l4) K" using acc by (simp add: fl4 ledger_accounts_def)
  from releaseSlots_ok [OF this, of "slot_count ?x" k f] cK sl
  obtain sb where sb: "releaseFlightSubscriberSlots l4 k f (int (slot_count ?x)) =
       Some (l4\<lparr>lg_flights := (lg_flights l4)(f := (lg_flights l4 f)\<lparr>ft_subscriberSlots := ft_subscriberSlots (lg_flights l4 f) - int (slot_count ?x)\<rparr>),
               lg_subscriberBudget := sb\<rparr>)"
     "sub_inv sb (K - replicate_mset (slot_count ?x) k)"
    by (auto simp: fl4)
  define l' where "l' = resolved l k f None b g sb"
  have still: "still_owner l ls" using owner by (simp add: still_owner_def pendings_def)
  have fin: "finished_flight ?x None = ?x\<lparr>ft_reservation := None, ft_subscribers := [], ft_executionSubscribers := [],
      ft_subscriberSlots := 0, ft_executionDone := True,
      ft_executionOK := (if ft_executionDone ?x then ft_executionOK ?x else False), ft_done := True\<rparr>"
    by (rule flight.equality) (simp_all add: finished_flight_def live)
  have abort: "Abort l ls = Some (l', ls\<lparr>ls_abortHook := None\<rparr>, True,
       (case ls_abortHook ls of None \<Rightarrow> [] | Some h \<Rightarrow> [AbortCallback h]) @
       map (\<lambda>s. ResultCallback s None False) (ft_subscribers ?x) @
       map (\<lambda>s. ExecutionCallback s False) (ft_executionSubscribers ?x))"
    unfolding Abort_def Let_def
    using nh still rel g(1) r sb(1) live
    by (simp add: k_def [symmetric] f_def [symmetric]
        l3_def [symmetric] y_def [symmetric] l4_def [symmetric] slot_count_def [symmetric])
       (simp add: fl4 sl set_flight_def l4_def l3_def l2_def y_def set_pending_def l'_def resolved_def fin)
  have tables: "ledger_shape l'" "pendings l' = (pendings l)(k := None)" "receipts l' = (receipts l)(k := None)"
    using detach_shape [OF shape p, of l' None] flight_only_here [OF shape p] shape_receipt [OF shape]
      ledger_shape_pending [OF shape p] shape_distinct [OF shape]
    by (auto simp: l'_def resolved_tables receipts_def)
  have fl': "f' \<noteq> f \<Longrightarrow> lg_flights l' f' = lg_flights l f'" for f' by (simp add: l'_def)
  have "ledger_accounts l' (R - {#entry_of k True#}) (K - replicate_mset (slot_count ?x) k)"
    by (rule detach_accounts [OF shape acc p tables(2,3) fl'])
       (use b(2) g(2,3) sb(2) in \<open>simp_all add: l'_def\<close>)
  moreover have "ledger_admissions l'"
    by (rule detach_admissions [OF shape adm p tables(2) fl']) (simp_all add: l'_def active_without_def)
  ultimately have "ledger_inv l'" using tables(1) by (auto simp: ledger_inv_def)
  moreover have "receipts l' = receipts l"
    using tables(3) ledger_shape_pending [OF shape p] by (auto simp: fun_eq_iff)
  ultimately show ?thesis
    using abort tables(2) g(2) unfolding Let_def k_def [symmetric] f_def [symmetric] l'_def by blast
qed

subsection \<open>Publishing a result\<close>

lemma push_receipt_tables:
  "sh_order (lg_shards (push_receipt l i rc) i') = (if i' = i then sh_order (lg_shards l i) @ [(rc_key rc, rc)] else sh_order (lg_shards l i'))"
  "shard_flight (push_receipt l i rc) i' k' = shard_flight l i' k'"
  "shardIndex (push_receipt l i rc) = shardIndex l"
  by (simp_all add: push_receipt_def incrementReceiptCount_def set_order_def shard_flight_def shardIndex_def fun_eq_iff)

lemma push_receipt_receipt:
  "shard_receipt l i (rc_key rc) = None \<Longrightarrow>
     shard_receipt (push_receipt l i rc) i' k' = (if i' = i \<and> k' = rc_key rc then Some rc else shard_receipt l i' k')"
  by (auto simp: shard_receipt_def push_receipt_tables map_add_def split: option.split)

lemma push_receipt_sel [simp]:
  "lg_budget (push_receipt l i rc) = lg_budget l" "lg_flightLimit (push_receipt l i rc) = lg_flightLimit l"
  "lg_subscriberBudget (push_receipt l i rc) = lg_subscriberBudget l"
  "lg_admissions (push_receipt l i rc) = lg_admissions l" "lg_flights (push_receipt l i rc) = lg_flights l"
  "lg_nextFlight (push_receipt l i rc) = lg_nextFlight l" "lg_hash (push_receipt l i rc) = lg_hash l"
  "lg_subscriberPerFlight (push_receipt l i rc) = lg_subscriberPerFlight l"
  "lg_receiptCount (push_receipt l i rc) = lg_receiptCount l + 1"
  by (simp_all add: push_receipt_def incrementReceiptCount_def set_order_def)

lemma push_distinct:
  "distinct (map fst (sh_order (lg_shards l i'))) \<Longrightarrow> shard_receipt l i (rc_key rc) = None \<Longrightarrow>
     distinct (map fst (sh_order (lg_shards (push_receipt l i rc) i')))"
  by (auto simp: push_receipt_tables shard_receipt_def map_of_eq_None_iff)

lemma publish_ok:
  assumes inv: "ledger_inv l" and p: "pendings l k = Some f" and rc: "receipt_live k rc"
  shows "\<exists>b g sb. let x = lg_flights l f; l' = push_receipt (resolved l k f (Some enc) b g sb) (shardIndex l k) rc in
     complete_flight l (shardIndex l k) k f enc =
       Some (resolved l k f (Some enc) b g sb, ft_subscribers x, ft_executionSubscribers x,
             ft_executionDone x \<and> ft_executionOK x, Some (entry_of k False)) \<and>
     ledger_inv l' \<and> pendings l' = (pendings l)(k := None) \<and> receipts l' = (receipts l)(k \<mapsto> rc) \<and>
     fl_used g = fl_used (lg_flightLimit l) - 1"
proof -
  have shape: "ledger_shape l" and adm: "ledger_admissions l" using inv by (auto simp: ledger_inv_def)
  obtain R K where acc: "ledger_accounts l R K" using inv by (auto simp: ledger_inv_def)
  from complete_flight_ok [OF shape acc adm p] obtain b g sb where cf:
    "complete_flight l (shardIndex l k) k f enc =
       Some (resolved l k f (Some enc) b g sb, ft_subscribers (lg_flights l f), ft_executionSubscribers (lg_flights l f),
             ft_executionDone (lg_flights l f) \<and> ft_executionOK (lg_flights l f), Some (entry_of k False))"
    "fair_inv b (add_mset (entry_of k False) (R - {#entry_of k True#}))"
    "fl_used g = fl_used (lg_flightLimit l) - 1" "fl_max g = fl_max (lg_flightLimit l)"
    "sub_inv sb (K - replicate_mset (slot_count (lg_flights l f)) k)" by blast
  define m where "m = resolved l k f (Some enc) b g sb"
  define l' where "l' = push_receipt m (shardIndex l k) rc"
  have key: "rc_key rc = k" using rc by (simp add: receipt_live_def)
  have nor: "receipts l k = None" using ledger_shape_pending [OF shape p] by blast
  then have norm: "shard_receipt m (shardIndex l k) (rc_key rc) = None"
    by (simp add: m_def resolved_tables receipts_def key)
  have tables: "ledger_shape l'" "pendings l' = (pendings l)(k := None)" "receipts l' = (receipts l)(k := Some rc)"
  proof -
    note d = detach_shape [OF shape p, of l' "Some rc"]
    have prems: "\<And>i' k'. shard_flight l' i' k' = (if k' = k then None else shard_flight l i' k')"
      "\<And>i' k'. shard_receipt l' i' k' = (if i' = shardIndex l k \<and> k' = k then Some rc else shard_receipt l i' k')"
      "\<And>i'. distinct (map fst (sh_order (lg_shards l' i')))"
      "shardIndex l' = shardIndex l" "lg_nextFlight l' = lg_nextFlight l"
      "\<And>f'. f' \<noteq> f \<Longrightarrow> lg_flights l' f' = lg_flights l f'"
      "\<And>rc'. Some rc = Some rc' \<Longrightarrow> receipt_live k rc'"
      using push_receipt_receipt [OF norm] push_distinct [OF _ norm] shape_distinct [OF shape] rc
      by (auto simp: l'_def m_def push_receipt_tables flight_only_here [OF shape p] resolved_tables(2-4) key)
    show "ledger_shape l'" by (rule d(1)) (rule prems, assumption?)+
    show "pendings l' = (pendings l)(k := None)" by (rule d(2)) (rule prems, assumption?)+
    show "receipts l' = (receipts l)(k := Some rc)" by (rule d(3)) (rule prems, assumption?)+
  qed
  have fl': "f' \<noteq> f \<Longrightarrow> lg_flights l' f' = lg_flights l f'" for f' by (simp add: l'_def m_def)
  have "ledger_accounts l' (add_mset (entry_of k False) (R - {#entry_of k True#})) (K - replicate_mset (slot_count (lg_flights l f)) k)"
    by (rule detach_accounts [OF shape acc p tables(2,3) fl'])
       (use cf in \<open>simp_all add: l'_def m_def\<close>)
  moreover have "ledger_admissions l'"
    by (rule detach_admissions [OF shape adm p tables(2) fl']) (simp_all add: l'_def m_def active_without_def)
  ultimately have "ledger_inv l'" using tables(1) by (auto simp: ledger_inv_def)
  then show ?thesis using cf(1,3) tables(2,3) unfolding Let_def l'_def m_def by blast
qed

text \<open>The receipt a completed claim leaves, and the one of a completion without an owner.\<close>

definition claim_receipt :: "time \<Rightarrow> rpc_key \<Rightarrow> flight \<Rightarrow> bool \<Rightarrow> receipt" where
  "claim_receipt now k x replayable =
     \<lparr>rc_key = k, rc_expiresAt = now + rpcExecutionReceiptTTL, rc_identity = ft_identity x,
      rc_admissionSeq = ft_admissionSeq x, rc_executionKnown = ft_executionDone x,
      rc_executionOK = ft_executionOK x, rc_acknowledged = ft_acknowledged x,
      rc_unavailable = \<not> replayable, rc_reservation = Some (entry_of k False)\<rparr>"

definition orphan_receipt :: "time \<Rightarrow> rpc_key \<Rightarrow> bool \<Rightarrow> receipt" where
  "orphan_receipt now k replayable =
     \<lparr>rc_key = k, rc_expiresAt = now + rpcExecutionReceiptTTL, rc_identity = no_identity,
      rc_admissionSeq = 0, rc_executionKnown = False, rc_executionOK = False,
      rc_acknowledged = False, rc_unavailable = \<not> replayable, rc_reservation = Some (entry_of k False)\<rparr>"

definition completion_callbacks :: "flight \<Rightarrow> nat \<Rightarrow> callback list" where
  "completion_callbacks x enc =
     map (\<lambda>s. ResultCallback s (Some enc) True) (ft_subscribers x) @
     map (\<lambda>s. ExecutionCallback s (ft_executionDone x \<and> ft_executionOK x)) (ft_executionSubscribers x)"

lemma orphan_ok:
  assumes inv: "ledger_inv l" and idle: "receipts l k = None" "pendings l k = None"
    and res: "reserveCompleted tr (lg_budget l) k = Some (b, rv)" and rc: "receipt_live k rc"
  shows "rv = entry_of k False"
    and "let l' = push_receipt (l\<lparr>lg_budget := b\<rparr>) (shardIndex l k) rc in
       ledger_inv l' \<and> pendings l' = pendings l \<and> receipts l' = (receipts l)(k \<mapsto> rc)"
proof -
  have shape: "ledger_shape l" and adm: "ledger_admissions l" using inv by (auto simp: ledger_inv_def)
  obtain R K where acc: "ledger_accounts l R K" using inv by (auto simp: ledger_inv_def)
  have res': "budget_reserve (lg_budget l) k False = Some (b, rv)"
    using res budget_reserve_among_Some by (simp add: reserveCompleted_def)
  show rv: "rv = entry_of k False"
    using fair_reserve_live [OF res'] by (simp add: entry_of_def)
  have key: "rc_key rc = k" using rc by (simp add: receipt_live_def)
  define m where "m = l\<lparr>lg_budget := b\<rparr>"
  define l' where "l' = push_receipt m (shardIndex l k) rc"
  have norm: "shard_receipt m (shardIndex l k) (rc_key rc) = None"
    using idle(1) by (simp add: m_def receipts_def shard_receipt_def key)
  have sr: "shard_receipt l' i' k' = (if i' = shardIndex l k \<and> k' = k then Some rc else shard_receipt l i' k')" for i' k'
    using push_receipt_receipt [OF norm, of i' k'] by (simp add: l'_def key) (simp add: m_def shard_receipt_def)
  have sf: "shard_flight l' i' k' = shard_flight l i' k'" for i' k'
    by (simp add: l'_def push_receipt_tables) (simp add: m_def shard_flight_def)
  have idx: "shardIndex l' = shardIndex l" by (simp add: l'_def push_receipt_tables) (simp add: m_def fun_eq_iff)
  have pend: "pendings l' = pendings l" by (simp add: pendings_def fun_eq_iff sf idx)
  have recs: "receipts l' = (receipts l)(k \<mapsto> rc)" by (auto simp: receipts_def fun_eq_iff sr idx)
  have dist: "distinct (map fst (sh_order (lg_shards l' i)))" for i
    unfolding l'_def by (rule push_distinct [OF _ norm]) (use shape_distinct [OF shape] in \<open>simp add: m_def\<close>)
  have fr: "lg_flights l' = lg_flights l" "lg_nextFlight l' = lg_nextFlight l" "lg_admissions l' = lg_admissions l"
    "lg_flightLimit l' = lg_flightLimit l" "lg_subscriberBudget l' = lg_subscriberBudget l" "lg_budget l' = b"
    "lg_receiptCount l' = lg_receiptCount l + 1"
    by (simp_all add: l'_def m_def)
  have "ledger_shape l'"
    unfolding ledger_shape_def
  proof (intro conjI allI impI)
    show "distinct (map fst (sh_order (lg_shards l' i)))" for i by (rule dist)
    show "i = shardIndex l' k'" "receipt_live k' rc'" if "shard_receipt l' i k' = Some rc'" for i k' rc'
      using that rc shape_receipt [OF shape, of i k' rc'] unfolding sr idx by (auto split: if_splits)
    show "i = shardIndex l' k'" "f < lg_nextFlight l'" "flight_live k' (lg_flights l' f)" "receipts l' k' = None"
      if "shard_flight l' i k' = Some f" for i k' f
      using that shape_flight [OF shape, of i k' f] idle(2) by (auto simp: sf idx fr recs pendings_def)
    show "k1 = k2" if "pendings l' k1 = Some f" "pendings l' k2 = Some f" for k1 k2 f
      using that ledger_shape_inj [OF shape] unfolding pend by metis
  qed
  moreover have "ledger_accounts l' (add_mset rv R) K"
  proof -
    have "fair_inv b (add_mset rv R)"
      using fair.reserve_inv [of "lg_budget l" R k False b rv] acc res' by (simp add: ledger_accounts_def)
    moreover have "owed_slots l' = owed_slots l" unfolding owed_slots_def fun_eq_iff pend fr by simp
    moreover have "count (add_mset rv R) r = owed_reservations l' r" for r
      using acc idle(1) unfolding ledger_accounts_def owed_reservations_def pend recs rv by (auto simp: eq_entry_flip)
    ultimately show ?thesis using acc unfolding ledger_accounts_def fr by (simp add: mcount_add rv)
  qed
  moreover have "ledger_admissions l'" using adm by (simp add: ledger_admissions_def fr pend)
  ultimately show "let l' = push_receipt (l\<lparr>lg_budget := b\<rparr>) (shardIndex l k) rc in
       ledger_inv l' \<and> pendings l' = pendings l \<and> receipts l' = (receipts l)(k \<mapsto> rc)"
    using pend recs unfolding Let_def l'_def m_def by (auto simp: ledger_inv_def)
qed

definition complete_outcome :: "time \<Rightarrow> rpc_key \<Rightarrow> nat \<Rightarrow> bool \<Rightarrow> ledger \<Rightarrow> ledger \<Rightarrow> bool \<Rightarrow> callback list \<Rightarrow> bool" where
  "complete_outcome now k enc replayable l l' finished cbs \<longleftrightarrow>
     (case receipts l k of
        Some _ \<Rightarrow> l' = l \<and> finished \<and> cbs = []
      | None \<Rightarrow>
          (case pendings l k of
             Some f \<Rightarrow>
               finished \<and> cbs = completion_callbacks (lg_flights l f) enc \<and>
               pendings l' = (pendings l)(k := None) \<and>
               receipts l' = (if ft_acknowledged (lg_flights l f) then receipts l
                              else (receipts l)(k \<mapsto> claim_receipt now k (lg_flights l f) replayable)) \<and>
               lg_flights l' = (lg_flights l)(f := finished_flight (lg_flights l f) (Some enc)) \<and>
               lg_admissions l' = active_without l (ft_admissionSeq (lg_flights l f))
           | None \<Rightarrow>
               cbs = [] \<and> pendings l' = pendings l \<and> lg_flights l' = lg_flights l \<and>
               lg_admissions l' = lg_admissions l \<and>
               (if finished then receipts l' = (receipts l)(k \<mapsto> orphan_receipt now k replayable) else l' = l))) \<and>
     lg_nextFlight l' = lg_nextFlight l \<and> lg_hash l' = lg_hash l \<and>
     lg_subscriberPerFlight l' = lg_subscriberPerFlight l"

lemma complete_locked_ok:
  assumes inv: "ledger_inv l"
  shows "\<exists>l' finished cbs. complete_locked tr l now k enc replayable = Some (l', finished, cbs) \<and>
     ledger_inv l' \<and> complete_outcome now k enc replayable l l' finished cbs"
proof -
  have shape: "ledger_shape l" using inv by (simp add: ledger_inv_def)
  note tab = receipts_def [symmetric] pendings_def [symmetric] 
  note unf = complete_locked_def Let_def bind.bind_lunit
  show ?thesis
  proof (cases "receipts l k")
    case (Some r)
    then have "pendings l k = None" using ledger_shape_receipt [OF shape] by blast
    then have "complete_locked tr l now k enc replayable = Some (l, True, [])"
      using Some by (simp add: unf tab)
    moreover have "complete_outcome now k enc replayable l l True []"
      by (simp add: complete_outcome_def Some)
    ultimately show ?thesis using inv by blast
  next
    case None
    show ?thesis
    proof (cases "pendings l k")
      case (Some f)
      let ?x = "lg_flights l f" and ?rc = "claim_receipt now k (lg_flights l f) replayable"
      have live: "ft_reservation ?x = Some (entry_of k True)" "\<not> ft_done ?x"
        using ledger_shape_pending [OF shape Some] by (auto simp: flight_live_def)
      have "receipt_live k ?rc" by (simp add: receipt_live_def claim_receipt_def)
      from publish_ok [OF inv Some this, of enc] obtain b g sb where
        cf: "complete_flight l (shardIndex l k) k f enc =
          Some (resolved l k f (Some enc) b g sb, ft_subscribers ?x, ft_executionSubscribers ?x,
             ft_executionDone ?x \<and> ft_executionOK ?x, Some (entry_of k False))" and
        push: "ledger_inv (push_receipt (resolved l k f (Some enc) b g sb) (shardIndex l k) ?rc)"
          "pendings (push_receipt (resolved l k f (Some enc) b g sb) (shardIndex l k) ?rc) = (pendings l)(k := None)"
          "receipts (push_receipt (resolved l k f (Some enc) b g sb) (shardIndex l k) ?rc) = (receipts l)(k \<mapsto> ?rc)"
        unfolding Let_def by blast
      define l3 where "l3 = push_receipt (resolved l k f (Some enc) b g sb) (shardIndex l k) ?rc"
      note l3 = push [folded l3_def]
      have fr3: "lg_flights l3 = (lg_flights l)(f := finished_flight ?x (Some enc))"
        "lg_nextFlight l3 = lg_nextFlight l" "lg_hash l3 = lg_hash l" "lg_subscriberPerFlight l3 = lg_subscriberPerFlight l" "shardIndex l3 = shardIndex l"
        "lg_admissions l3 = active_without l (ft_admissionSeq ?x)"
        by (simp_all add: l3_def push_receipt_tables resolved_tables)
      have step: "complete_locked tr l now k enc replayable =
          Option.bind (if ft_acknowledged ?x then removeElement l3 (shardIndex l k) k else Some l3)
            (\<lambda>l4. Some (l4, True, completion_callbacks ?x enc))"
        by (simp add: unf tab None Some live cf completion_callbacks_def l3_def claim_receipt_def)
      show ?thesis
      proof (cases "ft_acknowledged ?x")
        case False
        then have "complete_outcome now k enc replayable l l3 True (completion_callbacks ?x enc)"
          by (simp add: complete_outcome_def None Some l3 fr3)
        with step False inv l3(1) show ?thesis by auto
      next
        case True
        have "receipts l3 k = Some ?rc" by (simp add: l3)
        from removeElement_ok [OF l3(1) this] obtain l4 where l4:
          "removeElement l3 (shardIndex l k) k = Some l4" "ledger_inv l4"
          "\<exists>sh c b. l4 = l3\<lparr>lg_shards := sh, lg_receiptCount := c, lg_budget := b\<rparr>"
          "pendings l4 = pendings l3" "receipts l4 = (receipts l3)(k := None)"
          unfolding fr3 by blast
        then have "complete_outcome now k enc replayable l l4 True (completion_callbacks ?x enc)"
          using True None fr3 l3 by (auto simp: complete_outcome_def Some)
        with step True inv l4 show ?thesis by auto
      qed
    next
      case none: None
      show ?thesis
      proof (cases "reserveCompleted tr (lg_budget l) k")
        case rnone: None
        then have "complete_locked tr l now k enc replayable = Some (l, False, [])"
          by (simp add: unf tab none None)
        moreover have "complete_outcome now k enc replayable l l False []"
          by (simp add: complete_outcome_def None none)
        ultimately show ?thesis using inv by blast
      next
        case (Some p)
        obtain b rv where p: "p = (b, rv)" by (cases p)
        have live: "receipt_live k (orphan_receipt now k replayable)"
          by (simp add: receipt_live_def orphan_receipt_def)
        note o = orphan_ok [OF inv None none Some [unfolded p] live]
        define l' where "l' = push_receipt (l\<lparr>lg_budget := b\<rparr>) (shardIndex l k) (orphan_receipt now k replayable)"
        have "complete_locked tr l now k enc replayable = Some (l', True, [])"
          by (simp add: unf tab none None Some p l'_def orphan_receipt_def o(1))
        moreover have "complete_outcome now k enc replayable l l' True []"
          using o(2) by (simp add: complete_outcome_def None none l'_def Let_def)
        ultimately show ?thesis using inv o(2) unfolding l'_def Let_def by blast
      qed
    qed
  qed
qed

end
