(* ===== verification/Rpc_Ledger_Life.thy ===== *)
theory Rpc_Ledger_Life
  imports Rpc_Ledger_Claims
begin

text \<open>
  Acquiring a claim, subscribing to it, publishing its execution, and the reading operations:
  what each leaves behind and the invariant there. \<open>acquire_outcome\<close> is the specification of
  \<^verbatim>\<open>acquire\<close> over the tables.
\<close>

subsection \<open>Installing an owner\<close>

definition fresh_flight :: "rpc_key \<Rightarrow> request_identity \<Rightarrow> nat \<Rightarrow> flight" where
  "fresh_flight k identity sequence =
     idle_flight\<lparr>ft_identity := identity, ft_admissionSeq := sequence, ft_reservation := Some (entry_of k True)\<rparr>"

definition fresh_lease :: "rpc_key \<Rightarrow> nat \<Rightarrow> owner_lease" where
  "fresh_lease k f = \<lparr>ls_key = k, ls_flight = f, ls_handedOff = False, ls_abortHook = None\<rparr>"

text \<open>The admission table after the owner's sequence is drawn; \<open>0\<close> for an unidentified owner.\<close>

definition admitted :: "admissions \<Rightarrow> admissions \<Rightarrow> nat \<Rightarrow> bool" where
  "admitted ad a sequence \<longleftrightarrow>
     (sequence = 0 \<and> a = ad) \<or>
     (ad_next ad < maxUint64 \<and> sequence = ad_next ad + 1 \<and> a = ad\<lparr>ad_next := sequence, ad_active := sequence # ad_active ad\<rparr>)"

lemma allocate_admitted:
  "allocateAndRegister ad = Inr (a, s) \<Longrightarrow> ad_next ad \<le> maxUint64 \<Longrightarrow> admitted ad a s"
  by (auto simp: allocateAndRegister_def admitted_def Let_def split: if_splits)

lemma install_ok:
  assumes inv: "ledger_inv l" and idle: "receipts l k = None" "pendings l k = None"
    and g: "flight_reserve (lg_flightLimit l) = Some g"
    and b: "reserveOwner tr (lg_budget l) k = Some (b, rv)" and a: "admitted (lg_admissions l) a s"
  shows "let f = lg_nextFlight l; l' = fst (install_owner (l\<lparr>lg_flightLimit := g, lg_budget := b, lg_admissions := a\<rparr>) (shardIndex l k) k identity s rv) in
     snd (install_owner (l\<lparr>lg_flightLimit := g, lg_budget := b, lg_admissions := a\<rparr>) (shardIndex l k) k identity s rv) = fresh_lease k f \<and>
     ledger_inv l' \<and> receipts l' = receipts l \<and> pendings l' = (pendings l)(k \<mapsto> f) \<and>
     lg_flights l' = (lg_flights l)(f := fresh_flight k identity s) \<and> lg_nextFlight l' = f + 1 \<and>
     lg_hash l' = lg_hash l \<and> lg_admissions l' = a \<and> lg_subscriberPerFlight l' = lg_subscriberPerFlight l \<and>
     fl_used (lg_flightLimit l') = fl_used (lg_flightLimit l) + 1"
proof -
  define m where "m = l\<lparr>lg_flightLimit := g, lg_budget := b, lg_admissions := a\<rparr>"
  define f where "f = lg_nextFlight l"
  define l' where "l' = fst (install_owner m (shardIndex l k) k identity s rv)"
  have shape: "ledger_shape l" and adm: "ledger_admissions l" using inv by (auto simp: ledger_inv_def)
  obtain R K where acc: "ledger_accounts l R K" using inv by (auto simp: ledger_inv_def)
  have b': "budget_reserve (lg_budget l) k True = Some (b, rv)"
    using b budget_reserve_among_Some by (simp add: reserveOwner_def)
  have rv: "rv = entry_of k True" using fair_reserve_live [OF b'] by (simp add: entry_of_def)
  have lease: "snd (install_owner m (shardIndex l k) k identity s rv) = fresh_lease k f"
    by (simp add: install_owner_def Let_def fresh_lease_def m_def f_def)
  have fr: "lg_flights l' = (lg_flights l)(f := fresh_flight k identity s)" "lg_nextFlight l' = f + 1"
    "lg_admissions l' = a" "lg_flightLimit l' = g" "lg_subscriberBudget l' = lg_subscriberBudget l"
    "lg_budget l' = b" "lg_receiptCount l' = lg_receiptCount l" "lg_hash l' = lg_hash l"
    "lg_subscriberPerFlight l' = lg_subscriberPerFlight l"
    by (simp_all add: l'_def install_owner_def Let_def m_def f_def set_flight_def set_pending_def fresh_flight_def rv)
  have idx: "shardIndex l' = shardIndex l" by (simp add: shardIndex_def fr fun_eq_iff)
  have sf: "shard_flight l' i' k' = (if i' = shardIndex l k \<and> k' = k then Some f else shard_flight l i' k')" for i' k'
    by (simp add: l'_def install_owner_def Let_def m_def f_def set_flight_def set_pending_def shard_flight_def)
  have so: "sh_order (lg_shards l' i') = sh_order (lg_shards l i')" for i'
    by (simp add: l'_def install_owner_def Let_def m_def f_def set_flight_def set_pending_def)
  then have sr: "shard_receipt l' i' k' = shard_receipt l i' k'" for i' k' by (simp add: shard_receipt_def)
  have pend: "pendings l' = (pendings l)(k \<mapsto> f)" by (auto simp: pendings_def fun_eq_iff sf idx)
  have recs: "receipts l' = receipts l" by (auto simp: receipts_def fun_eq_iff sr idx)
  have older: "f' \<noteq> f" if "pendings l k' = Some f'" for k' f'
    using ledger_shape_pending [OF shape that] by (auto simp: f_def)
  have new_live: "flight_live k (fresh_flight k identity s)"
    by (simp add: flight_live_def fresh_flight_def idle_flight_def slot_count_def)
  have "ledger_shape l'"
    unfolding ledger_shape_def
  proof (intro conjI allI impI)
    show "distinct (map fst (sh_order (lg_shards l' i)))" for i using shape_distinct [OF shape] by (simp add: so)
    show "i = shardIndex l' k'" "receipt_live k' rc'" if "shard_receipt l' i k' = Some rc'" for i k' rc'
      using that shape_receipt [OF shape, of i k' rc'] by (simp_all add: sr idx)
    show "i = shardIndex l' k'" "f' < lg_nextFlight l'" "flight_live k' (lg_flights l' f')" "receipts l' k' = None"
      if "shard_flight l' i k' = Some f'" for i k' f'
    proof -
      have "i = shardIndex l' k' \<and> f' < lg_nextFlight l' \<and> flight_live k' (lg_flights l' f') \<and> receipts l' k' = None"
      proof (cases "i = shardIndex l k \<and> k' = k")
        case True
        with that new_live idle show ?thesis by (simp add: sf idx fr recs)
      next
        case False
        with that have old: "shard_flight l i k' = Some f'" by (auto simp: sf split: if_splits)
        note o = shape_flight [OF shape old]
        then have "pendings l k' = Some f'" using old by (simp add: pendings_def)
        with o older [OF this] show ?thesis by (auto simp: idx fr recs f_def)
      qed
      then show "i = shardIndex l' k'" "f' < lg_nextFlight l'" "flight_live k' (lg_flights l' f')" "receipts l' k' = None"
        by auto
    qed
    show "k1 = k2" if "pendings l' k1 = Some f'" "pendings l' k2 = Some f'" for k1 k2 f'
      using that ledger_shape_inj [OF shape, of k1 f' k2] older unfolding pend by (auto split: if_splits)
  qed
  moreover have "ledger_accounts l' (add_mset rv R) K"
  proof -
    have "fair_inv b (add_mset rv R)"
      using fair.reserve_inv [of "lg_budget l" R k True b rv] acc b' by (simp add: ledger_accounts_def)
    moreover have "owed_slots l' k' = owed_slots l k'" for k'
    proof (cases "k' = k")
      case True
      then show ?thesis using idle(2)
        by (simp add: owed_slots_def pend fr fresh_flight_def idle_flight_def slot_count_def)
    next
      case False
      then show ?thesis using older [of k'] by (auto simp: owed_slots_def pend fr split: option.split)
    qed
    moreover have "count (add_mset rv R) r = owed_reservations l' r" for r
      using acc idle(2) unfolding ledger_accounts_def owed_reservations_def pend recs rv by (auto simp: eq_entry_flip)
    ultimately show ?thesis
      using acc flight_reserve_effect [OF g] unfolding ledger_accounts_def fr by (simp add: mcount_add rv)
  qed
  moreover have "ledger_admissions l'"
  proof -
    let ?ad = "lg_admissions l"
    have olds: "s' \<in> set (ad_active ?ad) \<longleftrightarrow> s' \<noteq> 0 \<and> (\<exists>k f. pendings l k = Some f \<and> ft_admissionSeq (lg_flights l f) = s')"
      "s' \<in> set (ad_active ?ad) \<Longrightarrow> 0 < s' \<and> s' \<le> ad_next ?ad" for s'
      using adm unfolding ledger_admissions_def by blast+
    have inj: "k1 = k2" if "pendings l k1 = Some f1" "pendings l k2 = Some f2"
      "ft_admissionSeq (lg_flights l f1) = ft_admissionSeq (lg_flights l f2)" "ft_admissionSeq (lg_flights l f1) \<noteq> 0" for k1 k2 f1 f2
      using adm that unfolding ledger_admissions_def by blast
    have seq: "ft_admissionSeq (lg_flights l' f') = (if f' = f then s else ft_admissionSeq (lg_flights l f'))" for f'
      by (simp add: fr fresh_flight_def)
    have fresh: "ft_admissionSeq (lg_flights l f') \<noteq> s" if "pendings l k' = Some f'" "s \<noteq> 0" for k' f'
    proof
      assume eq: "ft_admissionSeq (lg_flights l f') = s"
      then have "s \<in> set (ad_active ?ad)" using olds(1) [of s] that by blast
      then show False using olds(2) [of s] a that(2) by (auto simp: admitted_def)
    qed
    have act: "set (ad_active a) = set (ad_active ?ad) \<union> (if s = 0 then {} else {s})"
      using a by (auto simp: admitted_def)
    show ?thesis
      unfolding ledger_admissions_def fr(3)
    proof (intro conjI allI impI ballI)
      show "distinct (ad_active a)"
      proof -
        have "distinct (ad_active ?ad)" using adm unfolding ledger_admissions_def by blast
        moreover have "ad_next ?ad + 1 \<notin> set (ad_active ?ad)" using olds(2) [of "ad_next ?ad + 1"] by auto
        ultimately show ?thesis using a by (auto simp: admitted_def)
      qed
      show "0 < s'" "s' \<le> ad_next a" if "s' \<in> set (ad_active a)" for s'
        using that a olds(2) [of s'] by (auto simp: admitted_def)
      show "ad_next a \<le> maxUint64"
        using a adm by (auto simp: admitted_def ledger_admissions_def)
      show "s' \<in> set (ad_active a) \<longleftrightarrow> s' \<noteq> 0 \<and> (\<exists>k f. pendings l' k = Some f \<and> ft_admissionSeq (lg_flights l' f) = s')" for s'
      proof
        assume "s' \<in> set (ad_active a)"
        then consider "s' = s" "s \<noteq> 0" | "s' \<in> set (ad_active ?ad)" by (auto simp: act split: if_splits)
        then show "s' \<noteq> 0 \<and> (\<exists>k f. pendings l' k = Some f \<and> ft_admissionSeq (lg_flights l' f) = s')"
        proof cases
          case 1
          then have "pendings l' k = Some f \<and> ft_admissionSeq (lg_flights l' f) = s'" by (simp add: pend seq)
          with 1 show ?thesis by blast
        next
          case 2
          then obtain k1 f1 where k1: "s' \<noteq> 0" "pendings l k1 = Some f1" "ft_admissionSeq (lg_flights l f1) = s'"
            using olds(1) [of s'] by blast
          then have "k1 \<noteq> k" using idle(2) by auto
          then have "pendings l' k1 = Some f1 \<and> ft_admissionSeq (lg_flights l' f1) = s'"
            using k1 older [of k1 f1] by (simp add: pend seq)
          with k1(1) show ?thesis by blast
        qed
      next
        assume "s' \<noteq> 0 \<and> (\<exists>k f. pendings l' k = Some f \<and> ft_admissionSeq (lg_flights l' f) = s')"
        then obtain k1 f1 where k1: "s' \<noteq> 0" "pendings l' k1 = Some f1" "ft_admissionSeq (lg_flights l' f1) = s'" by blast
        show "s' \<in> set (ad_active a)"
        proof (cases "k1 = k")
          case True
          then have "s' = s" using k1 by (simp add: pend seq)
          with k1(1) show ?thesis by (simp add: act)
        next
          case False
          then have "pendings l k1 = Some f1" using k1(2) by (simp add: pend)
          with k1 older [OF this] olds(1) [of s'] show ?thesis by (auto simp: act seq)
        qed
      qed
      show "k1 = k2" if k12: "pendings l' k1 = Some f1" "pendings l' k2 = Some f2"
        "ft_admissionSeq (lg_flights l' f1) = ft_admissionSeq (lg_flights l' f2)" "ft_admissionSeq (lg_flights l' f1) \<noteq> 0" for k1 k2 f1 f2
      proof -
        consider "k1 = k" "k2 = k" | "k1 = k" "k2 \<noteq> k" | "k1 \<noteq> k" "k2 = k" | "k1 \<noteq> k" "k2 \<noteq> k" by blast
        then show ?thesis
        proof cases
          case 2
          then have "f1 = f" "pendings l k2 = Some f2" using k12 by (auto simp: pend)
          with fresh [OF this(2)] older [OF this(2)] k12(3,4) show ?thesis by (auto simp: seq)
        next
          case 3
          then have "f2 = f" "pendings l k1 = Some f1" using k12 by (auto simp: pend)
          with fresh [OF this(2)] older [OF this(2)] k12(3,4) show ?thesis by (auto simp: seq)
        next
          case 4
          then have k: "pendings l k1 = Some f1" "pendings l k2 = Some f2" using k12 by (auto simp: pend)
          show ?thesis by (rule inj [OF k]) (use k12(3,4) older [OF k(1)] older [OF k(2)] in \<open>simp_all add: seq\<close>)
        qed simp
      qed
    qed
  qed
  ultimately have "ledger_inv l'" by (auto simp: ledger_inv_def)
  with lease fr recs pend flight_reserve_effect [OF g] show ?thesis
    unfolding Let_def l'_def m_def f_def by simp
qed

subsection \<open>Acquiring\<close>

definition receipt_answer :: "(rpc_key \<Rightarrow> nat option) \<Rightarrow> rpc_key \<Rightarrow> request_identity \<Rightarrow> receipt \<Rightarrow> rpc_error + acquire_result" where
  "receipt_answer replay k identity rc =
     (if \<not> identity_matches (rc_identity rc) identity then Inl (identityMismatch (rc_identity rc))
      else if rc_acknowledged rc then Inr (AcquireAcknowledged (rc_admissionSeq rc) (rc_executionKnown rc) (rc_executionOK rc))
      else if rc_unavailable rc then Inl ErrRPCResultFlightCapacity
      else (case replay k of
              None \<Rightarrow> Inl ErrRPCResultReplayUnavailable
            | Some enc \<Rightarrow> Inr (AcquireCompleted (rc_admissionSeq rc) (rc_executionKnown rc) (rc_executionOK rc) enc)))"

definition flight_answer :: "rpc_key \<Rightarrow> nat \<Rightarrow> request_identity \<Rightarrow> flight \<Rightarrow> rpc_error + acquire_result" where
  "flight_answer k f identity x =
     (if \<not> identity_matches (ft_identity x) identity then Inl (identityMismatch (ft_identity x))
      else if ft_acknowledged x then Inr (AcquireAcknowledged (ft_admissionSeq x) (ft_executionDone x) (ft_executionOK x))
      else Inr (AcquirePending (ft_admissionSeq x) \<lparr>wt_key = k, wt_flight = f\<rparr>))"

definition same_claims :: "ledger \<Rightarrow> ledger \<Rightarrow> bool" where
  "same_claims l l' \<longleftrightarrow> receipts l' = receipts l \<and> pendings l' = pendings l \<and> lg_flights l' = lg_flights l \<and>
     lg_nextFlight l' = lg_nextFlight l \<and> lg_admissions l' = lg_admissions l \<and> lg_hash l' = lg_hash l \<and>
     lg_subscriberPerFlight l' = lg_subscriberPerFlight l"

text \<open>
  What a turn of \<^verbatim>\<open>acquire\<close> answers and leaves: \<open>None\<close> is the refusal of the fair budget.
\<close>

definition acquire_outcome :: "in_transit \<Rightarrow> (rpc_key \<Rightarrow> nat option) \<Rightarrow> rpc_key \<Rightarrow> request_identity \<Rightarrow> ledger \<Rightarrow> ledger \<Rightarrow>
    (rpc_error + acquire_result) option \<Rightarrow> bool" where
  "acquire_outcome tr replay k identity l l' r \<longleftrightarrow>
     (case receipts l k of
        Some rc \<Rightarrow> l' = l \<and> r = Some (receipt_answer replay k identity rc)
      | None \<Rightarrow>
          (case pendings l k of
             Some f \<Rightarrow> l' = l \<and> r = Some (flight_answer k f identity (lg_flights l f))
           | None \<Rightarrow>
               (r = Some (Inl ErrRPCResultFlightCapacity) \<and> flight_reserve_among tr (lg_flightLimit l) = None \<and> l' = l) \<or>
               (r = None \<and> reserveOwner tr (lg_budget l) k = None \<and> l' = l) \<or>
               (r = Some (Inl ErrRPCAdmissionSeqExhausted) \<and> ad_next (lg_admissions l) = maxUint64 \<and> same_claims l l') \<or>
               (\<exists>s. r = Some (Inr (AcquireOwner s (fresh_lease k (lg_nextFlight l)))) \<and>
                    (s = 0 \<longleftrightarrow> \<not> ri_valid identity) \<and> admitted (lg_admissions l) (lg_admissions l') s \<and>
                    receipts l' = receipts l \<and> pendings l' = (pendings l)(k \<mapsto> lg_nextFlight l) \<and>
                    lg_flights l' = (lg_flights l)(lg_nextFlight l := fresh_flight k identity s) \<and>
                    lg_nextFlight l' = lg_nextFlight l + 1 \<and> lg_hash l' = lg_hash l \<and>
                    lg_subscriberPerFlight l' = lg_subscriberPerFlight l)))"

lemma reserve_then_release:
  "flight_reserve g = Some g' \<Longrightarrow> flight_release g' = Some g"
  by (auto simp: flight_reserve_def flight_reserveN_def flight_release_def flight_releaseN_def split: if_splits)

lemma acquire_locked_ok:
  assumes inv: "ledger_inv l"
  shows "\<exists>l' r. acquire_locked tr l replay k identity = Some (l', r) \<and> ledger_inv l' \<and>
       acquire_outcome tr replay k identity l l' r"
proof -
  have shape: "ledger_shape l" using inv by (simp add: ledger_inv_def)
  note tab = receipts_def [symmetric] pendings_def [symmetric]
  note unf = acquire_locked_def Let_def bind.bind_lunit
  show ?thesis
  proof (cases "receipts l k")
    case (Some e)
    then have "acquire_locked tr l replay k identity = Some (l, Some (receipt_answer replay k identity e))"
      by (simp add: unf tab receipt_answer_def split: option.split)
    moreover have "acquire_outcome tr replay k identity l l (Some (receipt_answer replay k identity e))"
      by (simp add: acquire_outcome_def Some)
    ultimately show ?thesis using inv by blast
  next
    case nor: None
    show ?thesis
    proof (cases "pendings l k")
      case (Some f)
      then have "acquire_locked tr l replay k identity = Some (l, Some (flight_answer k f identity (lg_flights l f)))"
        using nor by (simp add: unf tab flight_answer_def)
      moreover have "acquire_outcome tr replay k identity l l (Some (flight_answer k f identity (lg_flights l f)))"
        by (simp add: acquire_outcome_def Some nor)
      ultimately show ?thesis using inv by blast
    next
      case nop: None
      show ?thesis
      proof (cases "flight_reserve_among tr (lg_flightLimit l)")
        case None
        then have "acquire_locked tr l replay k identity = Some (l, Some (Inl ErrRPCResultFlightCapacity))"
          by (simp add: unf tab nor nop)
        moreover have "acquire_outcome tr replay k identity l l (Some (Inl ErrRPCResultFlightCapacity))"
          using None by (simp add: acquire_outcome_def nor nop)
        ultimately show ?thesis using inv by blast
      next
        case g: (Some g)
        note g' = flight_reserve_among_Some [OF g]
        have undo: "flight_limit_release (l\<lparr>lg_flightLimit := g\<rparr>) = Some l"
          using reserve_then_release [OF g'] by (simp add: flight_limit_release_def)
        show ?thesis
        proof (cases "reserveOwner tr (lg_budget l) k")
          case None
          then have "acquire_locked tr l replay k identity = Some (l, None)"
            by (simp add: unf tab nor nop g undo)
          moreover have "acquire_outcome tr replay k identity l l None"
            using None by (simp add: acquire_outcome_def nor nop)
          ultimately show ?thesis using inv by blast
        next
          case (Some p)
          obtain b rv where p: "p = (b, rv)" by (cases p)
          have res: "budget_reserve (lg_budget l) k True = Some (b, rv)"
            using Some p budget_reserve_among_Some by (simp add: reserveOwner_def)
          have rv: "rv = entry_of k True" using fair_reserve_live [OF res] by (simp add: entry_of_def)
          have adle: "ad_next (lg_admissions l) \<le> maxUint64"
            using inv by (simp add: ledger_inv_def ledger_admissions_def)
          have install: ?thesis
            if step: "acquire_locked tr l replay k identity =
              Some (fst (install_owner (l\<lparr>lg_flightLimit := g, lg_budget := b, lg_admissions := a\<rparr>) (shardIndex l k) k identity s rv),
                Some (Inr (AcquireOwner s (snd (install_owner (l\<lparr>lg_flightLimit := g, lg_budget := b, lg_admissions := a\<rparr>) (shardIndex l k) k identity s rv)))))"
              and adm: "admitted (lg_admissions l) a s" "s = 0 \<longleftrightarrow> \<not> ri_valid identity" for a s
          proof -
            note i = install_ok [OF inv nor nop g' Some [unfolded p] adm(1), of identity, unfolded Let_def]
            have "acquire_outcome tr replay k identity l
                (fst (install_owner (l\<lparr>lg_flightLimit := g, lg_budget := b, lg_admissions := a\<rparr>) (shardIndex l k) k identity s rv))
                (Some (Inr (AcquireOwner s (fresh_lease k (lg_nextFlight l)))))"
              unfolding acquire_outcome_def nor nop using i adm by simp
            with step i inv show ?thesis by fastforce
          qed
          show ?thesis
          proof (cases "ri_valid identity")
            case False
            have same: "l\<lparr>lg_flightLimit := g, lg_budget := b\<rparr> = l\<lparr>lg_flightLimit := g, lg_budget := b, lg_admissions := lg_admissions l\<rparr>"
              by simp
            show ?thesis
            proof (rule install)
              show "acquire_locked tr l replay k identity =
                Some (fst (install_owner (l\<lparr>lg_flightLimit := g, lg_budget := b, lg_admissions := lg_admissions l\<rparr>) (shardIndex l k) k identity 0 rv),
                  Some (Inr (AcquireOwner 0 (snd (install_owner (l\<lparr>lg_flightLimit := g, lg_budget := b, lg_admissions := lg_admissions l\<rparr>) (shardIndex l k) k identity 0 rv)))))"
                using False by (simp add: unf tab nor nop g Some p split: prod.split)
            qed (simp_all add: False admitted_def)
          next
            case True
            show ?thesis
            proof (cases "allocateAndRegister (lg_admissions l)")
              case (Inr q)
              obtain a s where q: "q = (a, s)" by (cases q)
              have adm: "admitted (lg_admissions l) a s" using allocate_admitted Inr q adle by blast
              show ?thesis
              proof (rule install [OF _ adm])
                show "acquire_locked tr l replay k identity =
                  Some (fst (install_owner (l\<lparr>lg_flightLimit := g, lg_budget := b, lg_admissions := a\<rparr>) (shardIndex l k) k identity s rv),
                    Some (Inr (AcquireOwner s (snd (install_owner (l\<lparr>lg_flightLimit := g, lg_budget := b, lg_admissions := a\<rparr>) (shardIndex l k) k identity s rv)))))"
                  using True Inr q by (simp add: unf tab nor nop g Some p split: prod.split)
                show "s = 0 \<longleftrightarrow> \<not> ri_valid identity"
                  using True Inr q by (auto simp: allocateAndRegister_def Let_def split: if_splits)
              qed
            next
              case (Inl e)
              then have e: "e = ErrRPCAdmissionSeqExhausted" "ad_next (lg_admissions l) = maxUint64"
                by (auto simp: allocateAndRegister_def Let_def split: if_splits)
              obtain R K where acc: "ledger_accounts l R K" using inv by (auto simp: ledger_inv_def)
              have "fair_inv b (add_mset rv R)"
                using fair.reserve_inv [of "lg_budget l" R k True b rv] acc res by (simp add: ledger_accounts_def)
              from fair.release_inv [OF this] obtain b' r' where
                b': "budget_release b rv = Some (b', r')" "fair_inv b' R" by blast
              have undo': "flight_limit_release (l\<lparr>lg_flightLimit := g, lg_budget := b'\<rparr>) = Some (l\<lparr>lg_budget := b'\<rparr>)"
                using reserve_then_release [OF g'] by (simp add: flight_limit_release_def)
              have step: "acquire_locked tr l replay k identity = Some (l\<lparr>lg_budget := b'\<rparr>, Some (Inl e))"
                using True Inl by (simp add: unf tab nor nop g Some p release_reservation_def b' undo')
              have idx': "shardIndex (l\<lparr>lg_budget := b'\<rparr>) = shardIndex l" by (simp add: fun_eq_iff)
              have tabs: "receipts (l\<lparr>lg_budget := b'\<rparr>) = receipts l" "pendings (l\<lparr>lg_budget := b'\<rparr>) = pendings l"
                by (simp_all add: receipts_def pendings_def shard_receipt_def shard_flight_def fun_eq_iff)
              have "ledger_inv (l\<lparr>lg_budget := b'\<rparr>)"
              proof -
                have "ledger_shape (l\<lparr>lg_budget := b'\<rparr>)"
                  using shape unfolding ledger_shape_def tabs idx' by (simp add: shard_receipt_def shard_flight_def)
                moreover have "ledger_accounts (l\<lparr>lg_budget := b'\<rparr>) R K"
                  using acc b'(2) unfolding ledger_accounts_def owed_reservations_def owed_slots_def tabs
                  by (simp cong: option.case_cong)
                moreover have "ledger_admissions (l\<lparr>lg_budget := b'\<rparr>)"
                  using inv unfolding ledger_inv_def ledger_admissions_def tabs by simp
                ultimately show ?thesis by (auto simp: ledger_inv_def)
              qed
              moreover have "acquire_outcome tr replay k identity l (l\<lparr>lg_budget := b'\<rparr>) (Some (Inl e))"
                unfolding acquire_outcome_def nor nop using e tabs by (simp add: same_claims_def)
              ultimately show ?thesis using step inv by blast
            qed
          qed
        qed
      qed
    qed
  qed
qed

subsection \<open>Changing a flight in place\<close>

definition touched :: "ledger \<Rightarrow> nat \<Rightarrow> flight \<Rightarrow> subscriber_budget \<Rightarrow> ledger" where
  "touched l f x sb = l\<lparr>lg_flights := (lg_flights l)(f := x), lg_subscriberBudget := sb\<rparr>"

lemma touched_tables [simp]:
  "receipts (touched l f x sb) = receipts l" "pendings (touched l f x sb) = pendings l"
  "lg_flights (touched l f x sb) = (lg_flights l)(f := x)" "lg_nextFlight (touched l f x sb) = lg_nextFlight l"
  "lg_admissions (touched l f x sb) = lg_admissions l" "lg_hash (touched l f x sb) = lg_hash l"
  "lg_shards (touched l f x sb) = lg_shards l" "shardIndex (touched l f x sb) = shardIndex l"
  "lg_budget (touched l f x sb) = lg_budget l" "lg_flightLimit (touched l f x sb) = lg_flightLimit l"
  "lg_subscriberPerFlight (touched l f x sb) = lg_subscriberPerFlight l"
  "lg_receiptCount (touched l f x sb) = lg_receiptCount l" "lg_subscriberBudget (touched l f x sb) = sb"
  by (simp_all add: touched_def receipts_def pendings_def shard_receipt_def shard_flight_def shardIndex_def fun_eq_iff)

lemma touch_ok:
  assumes inv: "ledger_inv l" and p: "pendings l k = Some f" and live: "flight_live k x"
    and seq: "ft_admissionSeq x = ft_admissionSeq (lg_flights l f)"
    and acc: "ledger_accounts l R K" and sub: "sub_inv sb K'"
    and cnt: "\<And>k'. count K' k' = (if k' = k then slot_count x else count K k')"
  shows "ledger_inv (touched l f x sb)"
proof -
  let ?l = "touched l f x sb"
  have shape: "ledger_shape l" and adm: "ledger_admissions l" using inv by (auto simp: ledger_inv_def)
  have other: "f' = f \<Longrightarrow> k' = k" if "pendings l k' = Some f'" for k' f'
    using ledger_shape_inj [OF shape p] that by metis
  have "ledger_shape ?l"
    unfolding ledger_shape_def
  proof (intro conjI allI impI)
    show "distinct (map fst (sh_order (lg_shards ?l i)))" for i using shape_distinct [OF shape] by simp
    show "i = shardIndex ?l k'" "receipt_live k' rc" if "shard_receipt ?l i k' = Some rc" for i k' rc
      using that shape_receipt [OF shape, of i k' rc] by (simp_all add: shard_receipt_def)
    show "i = shardIndex ?l k'" "f' < lg_nextFlight ?l" "flight_live k' (lg_flights ?l f')" "receipts ?l k' = None"
      if "shard_flight ?l i k' = Some f'" for i k' f'
    proof -
      have old: "shard_flight l i k' = Some f'" using that by (simp add: shard_flight_def)
      note o = shape_flight [OF shape old]
      then have "pendings l k' = Some f'" using old by (simp add: pendings_def)
      with o other [OF this] live show "i = shardIndex ?l k'" "f' < lg_nextFlight ?l" "flight_live k' (lg_flights ?l f')" "receipts ?l k' = None"
        by (cases "f' = f"; simp)+
    qed
    show "k1 = k2" if "pendings ?l k1 = Some f'" "pendings ?l k2 = Some f'" for k1 k2 f'
      using that ledger_shape_inj [OF shape] by simp
  qed
  moreover have "ledger_accounts ?l R K'"
  proof -
    have "count K' k' = owed_slots ?l k'" for k'
    proof (cases "k' = k")
      case True
      then show ?thesis using p by (simp add: cnt owed_slots_def)
    next
      case False
      then show ?thesis using acc other [of k'] by (auto simp: cnt owed_slots_def ledger_accounts_def split: option.split)
    qed
    moreover have "owed_reservations ?l = owed_reservations l" by (simp add: owed_reservations_def fun_eq_iff)
    ultimately show ?thesis using acc sub by (simp add: ledger_accounts_def)
  qed
  moreover have "ledger_admissions ?l"
  proof -
    have "ft_admissionSeq (lg_flights ?l f') = ft_admissionSeq (lg_flights l f')" for f' by (simp add: seq)
    then show ?thesis using adm unfolding ledger_admissions_def by simp
  qed
  ultimately show ?thesis by (auto simp: ledger_inv_def)
qed

subsection \<open>Subscribing\<close>

text \<open>What the two callbacks add to a flight, and the slots they are charged.\<close>

definition charge :: "flight \<Rightarrow> nat option \<Rightarrow> nat option \<Rightarrow> nat" where
  "charge x rfn efn = (if rfn = None then 0 else 1) + (if efn = None \<or> ft_executionDone x then 0 else 1)"

definition with_callbacks :: "flight \<Rightarrow> nat option \<Rightarrow> nat option \<Rightarrow> flight" where
  "with_callbacks x rfn efn = x\<lparr>ft_subscriberSlots := ft_subscriberSlots x + int (charge x rfn efn),
     ft_subscribers := ft_subscribers x @ (case rfn of None \<Rightarrow> [] | Some c \<Rightarrow> [c]),
     ft_executionSubscribers := ft_executionSubscribers x @
       (case efn of None \<Rightarrow> [] | Some c \<Rightarrow> if ft_executionDone x then [] else [c])\<rparr>"

definition execution_now :: "flight \<Rightarrow> nat option \<Rightarrow> callback list" where
  "execution_now x efn =
     (case efn of None \<Rightarrow> [] | Some c \<Rightarrow> if ft_executionDone x then [ExecutionCallback c (ft_executionOK x)] else [])"

lemma slot_count_with_callbacks: "slot_count (with_callbacks x rfn efn) = slot_count x + charge x rfn efn"
  by (auto simp: slot_count_def with_callbacks_def charge_def split: option.split)

lemma callbacks_seq: "ft_admissionSeq (with_callbacks x rfn efn) = ft_admissionSeq x"
  by (simp add: with_callbacks_def)

lemma with_callbacks_live: "flight_live k x \<Longrightarrow> flight_live k (with_callbacks x rfn efn)"
  unfolding flight_live_def slot_count_with_callbacks
  by (auto simp: with_callbacks_def split: option.split)

lemma subscribe_pending:
  assumes inv: "ledger_inv l" and p: "pendings l (wt_key w) = Some (wt_flight w)" and some: "\<not> (rfn = None \<and> efn = None)"
  shows "let x = lg_flights l (wt_flight w) in
     (\<exists>sb. subscribe tr l w rfn efn = (touched l (wt_flight w) (with_callbacks x rfn efn) sb, None, execution_now x efn) \<and>
           ledger_inv (touched l (wt_flight w) (with_callbacks x rfn efn) sb) \<and>
           (charge x rfn efn = 0 \<or> int (slot_count x + charge x rfn efn) \<le> lg_subscriberPerFlight l)) \<or>
     subscribe tr l w rfn efn = (l, Some ErrRPCResultSubscriberCapacity, []) \<and>
       (lg_subscriberPerFlight l < int (slot_count x + charge x rfn efn) \<or>
        subscriber_reserve_among tr (lg_subscriberBudget l) (wt_key w) (int (charge x rfn efn)) = None)"
proof -
  define k f x where "k = wt_key w" and "f = wt_flight w" and "x = lg_flights l f"
  have p': "pendings l k = Some f" using p by (simp add: k_def f_def)
  have shape: "ledger_shape l" using inv by (simp add: ledger_inv_def)
  obtain R K where acc: "ledger_accounts l R K" using inv by (auto simp: ledger_inv_def)
  have live: "flight_live k x" using ledger_shape_pending [OF shape p'] by (simp add: x_def)
  then have slots: "ft_subscriberSlots x = int (slot_count x)" by (simp add: flight_live_def)
  have cK: "count K k = slot_count x" using acc p' by (simp add: ledger_accounts_def owed_slots_def x_def)
  have n: "(if rfn \<noteq> None then 1 else 0) + (if efn \<noteq> None \<and> \<not> ft_executionDone x then 1 else 0) = int (charge x rfn efn)"
    by (auto simp: charge_def)
  define charged where "charged = (if 0 < charge x rfn efn then
       if lg_subscriberPerFlight l - int (charge x rfn efn) < ft_subscriberSlots x then None
       else subscriber_reserve_among tr (lg_subscriberBudget l) k (int (charge x rfn efn))
     else Some (lg_subscriberBudget l))"
  have step: "subscribe tr l w rfn efn =
      (case charged of None \<Rightarrow> (l, Some ErrRPCResultSubscriberCapacity, [])
       | Some sb \<Rightarrow> (touched l f (with_callbacks x rfn efn) sb, None, execution_now x efn))"
  proof -
    have c: "shard_flight l (shardIndex l k) k = Some f" using p' by (simp add: pendings_def)
    show ?thesis
      using some
      by (cases rfn; cases efn; cases "ft_executionDone x")
         (simp_all add: subscribe_def k_def [symmetric] f_def [symmetric] x_def [symmetric] c charged_def charge_def
           touched_def with_callbacks_def execution_now_def set_flight_def split: option.split)
  qed
  show ?thesis
  proof (cases charged)
    case None
    then have "lg_subscriberPerFlight l < int (slot_count x + charge x rfn efn) \<or>
        subscriber_reserve_among tr (lg_subscriberBudget l) k (int (charge x rfn efn)) = None"
      by (auto simp: charged_def slots split: if_splits)
    with None step show ?thesis unfolding Let_def k_def f_def x_def by simp
  next
    case (Some sb)
    have sub: "sub_inv sb (K + replicate_mset (charge x rfn efn) k)"
    proof (cases "charge x rfn efn = 0")
      case True
      then show ?thesis using Some acc by (simp add: charged_def ledger_accounts_def)
    next
      case False
      then show ?thesis
        using Some acc sub_inv_reserve [OF _ subscriber_reserve_among_Some, of "lg_subscriberBudget l" K tr k "charge x rfn efn" sb]
        by (simp add: charged_def ledger_accounts_def split: if_splits)
    qed
    have "ledger_inv (touched l f (with_callbacks x rfn efn) sb)"
      by (rule touch_ok [OF inv p' with_callbacks_live [OF live] _ acc sub])
         (simp_all add: callbacks_seq x_def [symmetric] cK slot_count_with_callbacks)
    moreover have "charge x rfn efn = 0 \<or> int (slot_count x + charge x rfn efn) \<le> lg_subscriberPerFlight l"
      using Some by (auto simp: charged_def slots split: if_splits)
    ultimately show ?thesis using Some step unfolding Let_def k_def f_def x_def by auto
  qed
qed

lemma subscribe_late:
  assumes "pendings l (wt_key w) \<noteq> Some (wt_flight w)"
  shows "fst (subscribe tr l w rfn efn) = l"
  using assms by (simp add: subscribe_def Let_def pendings_def)

lemma subscribe_inv: "ledger_inv l \<Longrightarrow> ledger_inv (fst (subscribe tr l w rfn efn))"
proof (cases "pendings l (wt_key w) = Some (wt_flight w) \<and> \<not> (rfn = None \<and> efn = None)")
  case True
  assume inv: "ledger_inv l"
  from subscribe_pending [OF inv, of w rfn efn tr] True inv show ?thesis
    unfolding Let_def by (elim disjE exE conjE) auto
next
  case False
  assume inv: "ledger_inv l"
  show ?thesis
  proof (cases "rfn = None \<and> efn = None")
    case True
    then show ?thesis using inv by (simp add: subscribe_def)
  next
    case F: False
    with False subscribe_late [of l w tr rfn efn] inv show ?thesis by auto
  qed
qed

subsection \<open>The handler's outcome\<close>

definition executed :: "flight \<Rightarrow> bool \<Rightarrow> flight" where
  "executed x success = x\<lparr>ft_executionDone := True, ft_executionOK := success, ft_executionSubscribers := [],
     ft_subscriberSlots := int (length (ft_subscribers x))\<rparr>"

lemma CompleteExecution_ok:
  assumes inv: "ledger_inv l" and p: "pendings l (ls_key ls) = Some (ls_flight ls)"
    and nd: "\<not> ft_executionDone (lg_flights l (ls_flight ls))"
  shows "\<exists>sb. CompleteExecution l ls success =
       Some (touched l (ls_flight ls) (executed (lg_flights l (ls_flight ls)) success) sb, True,
             map (\<lambda>s. ExecutionCallback s success) (ft_executionSubscribers (lg_flights l (ls_flight ls)))) \<and>
     ledger_inv (touched l (ls_flight ls) (executed (lg_flights l (ls_flight ls)) success) sb)"
proof -
  define k f x where "k = ls_key ls" and "f = ls_flight ls" and "x = lg_flights l f"
  have p': "pendings l k = Some f" using p by (simp add: k_def f_def)
  have shape: "ledger_shape l" using inv by (simp add: ledger_inv_def)
  obtain R K where acc: "ledger_accounts l R K" using inv by (auto simp: ledger_inv_def)
  have live: "flight_live k x" using ledger_shape_pending [OF shape p'] by (simp add: x_def)
  then have slots: "ft_subscriberSlots x = int (slot_count x)" by (simp add: flight_live_def)
  have cK: "count K k = slot_count x" using acc p' by (simp add: ledger_accounts_def owed_slots_def x_def)
  define n where "n = length (ft_executionSubscribers x)"
  define l1 where "l1 = set_flight l f (x\<lparr>ft_executionDone := True, ft_executionOK := success, ft_executionSubscribers := []\<rparr>)"
  have l1: "lg_subscriberBudget l1 = lg_subscriberBudget l" "ft_subscriberSlots (lg_flights l1 f) = int (slot_count x)"
    by (simp_all add: l1_def set_flight_def slots)
  have "sub_inv (lg_subscriberBudget l1) K" using acc by (simp add: l1 ledger_accounts_def)
  from releaseSlots_ok [OF this, of n k f] obtain sb where sb:
    "releaseFlightSubscriberSlots l1 k f (int n) =
       Some (l1\<lparr>lg_flights := (lg_flights l1)(f := (lg_flights l1 f)\<lparr>ft_subscriberSlots := ft_subscriberSlots (lg_flights l1 f) - int n\<rparr>),
               lg_subscriberBudget := sb\<rparr>)" and sub: "sub_inv sb (K - replicate_mset n k)"
    by (auto simp: cK l1 n_def slot_count_def)
  have ex: "executed x success = x\<lparr>ft_executionDone := True, ft_executionOK := success, ft_executionSubscribers := [],
      ft_subscriberSlots := int (slot_count x) - int n\<rparr>"
    by (simp add: executed_def n_def slot_count_def)
  have "still_owner l ls" using p by (simp add: still_owner_def pendings_def)
  then have step: "CompleteExecution l ls success =
       Some (touched l f (executed x success) sb, True, map (\<lambda>s. ExecutionCallback s success) (ft_executionSubscribers x))"
    using nd sb unfolding CompleteExecution_def Let_def
    by (simp add: k_def [symmetric] f_def [symmetric] x_def [symmetric] l1_def [symmetric] n_def [symmetric] l1)
       (simp add: l1_def touched_def ex set_flight_def)
  have "ledger_inv (touched l f (executed x success) sb)"
  proof (rule touch_ok [OF inv p' _ _ acc sub])
    show "flight_live k (executed x success)" using live by (simp add: flight_live_def executed_def slot_count_def)
    show "ft_admissionSeq (executed x success) = ft_admissionSeq (lg_flights l f)" by (simp add: executed_def x_def)
    show "count (K - replicate_mset n k) k' = (if k' = k then slot_count (executed x success) else count K k')" for k'
      by (simp add: cK slot_count_def executed_def n_def)
  qed
  with step show ?thesis unfolding k_def f_def x_def by blast
qed

lemma CompleteExecution_late:
  assumes "pendings l (ls_key ls) \<noteq> Some (ls_flight ls) \<or> ft_executionDone (lg_flights l (ls_flight ls))"
  shows "CompleteExecution l ls success = Some (l, False, [])"
  using assms by (auto simp: CompleteExecution_def Let_def still_owner_def pendings_def)

lemma Abort_late:
  assumes "ls_handedOff ls \<or> pendings l (ls_key ls) \<noteq> Some (ls_flight ls)"
  shows "Abort l ls = Some (l, ls, False, [])"
  using assms by (auto simp: Abort_def Let_def still_owner_def pendings_def)

subsection \<open>Reading and acknowledging\<close>

definition acked :: "flight \<Rightarrow> flight" where
  "acked x = x\<lparr>ft_acknowledged := True\<rparr>"

lemma Acknowledge_ok:
  assumes inv0: "ledger_inv l0" and k: "key_msg k \<noteq> 0"
  shows "\<exists>l l' known. Acknowledge l0 now k = Some (l', known) \<and> ledger_inv l \<and> reclaim (expired now) l0 l \<and>
     ledger_inv l' \<and> receipts l' = (receipts l)(k := None) \<and> pendings l' = pendings l \<and>
     known = (receipts l k \<noteq> None \<or> pendings l k \<noteq> None) \<and>
     lg_flights l' = (case (receipts l k, pendings l k) of
        (None, Some f) \<Rightarrow> (lg_flights l)(f := acked (lg_flights l f)) | _ \<Rightarrow> lg_flights l) \<and>
     lg_nextFlight l' = lg_nextFlight l \<and> lg_admissions l' = lg_admissions l \<and>
     lg_subscriberPerFlight l' = lg_subscriberPerFlight l"
proof -
  from expireLocked_ok [OF inv0] obtain l where
    ex: "expireLocked l0 (shardIndex l0 k) now = Some l" and inv: "ledger_inv l" and rc: "reclaim (expired now) l0 l" by blast
  have idx: "shardIndex l0 k = shardIndex l k" using reclaim_frame(9) [OF rc] by simp
  note tab = receipts_def [symmetric] pendings_def [symmetric]
  note unf = Acknowledge_def Let_def ex [unfolded idx] idx bind.bind_lunit
  show ?thesis
  proof (cases "receipts l k")
    case (Some r)
    from removeElement_ok [OF inv Some] obtain l' where l':
      "removeElement l (shardIndex l k) k = Some l'" "ledger_inv l'"
      "\<exists>sh c b. l' = l\<lparr>lg_shards := sh, lg_receiptCount := c, lg_budget := b\<rparr>"
      "pendings l' = pendings l" "receipts l' = (receipts l)(k := None)" by blast
    have "Acknowledge l0 now k = Some (l', True)" using k l'(1) Some by (simp add: unf tab)
    with l' inv rc Some show ?thesis by (intro exI [of _ l] exI [of _ l'] exI [of _ True]) auto
  next
    case nor: None
    show ?thesis
    proof (cases "pendings l k")
      case None
      then have "Acknowledge l0 now k = Some (l, False)" using k nor by (simp add: unf tab)
      with inv rc nor None show ?thesis by (intro exI [of _ l] exI [of _ False]) (auto simp: fun_upd_idem)
    next
      case (Some f)
      let ?l = "touched l f (acked (lg_flights l f)) (lg_subscriberBudget l)"
      have shape: "ledger_shape l" using inv by (simp add: ledger_inv_def)
      obtain R K where acc: "ledger_accounts l R K" using inv by (auto simp: ledger_inv_def)
      then have sub: "sub_inv (lg_subscriberBudget l) K" by (simp add: ledger_accounts_def)
      have live: "flight_live k (lg_flights l f)" using ledger_shape_pending [OF shape Some] by blast
      have "ledger_inv ?l"
      proof (rule touch_ok [OF inv Some _ _ acc sub])
        show "flight_live k (acked (lg_flights l f))" using live by (simp add: flight_live_def acked_def slot_count_def)
        show "ft_admissionSeq (acked (lg_flights l f)) = ft_admissionSeq (lg_flights l f)" by (simp add: acked_def)
        show "count K k' = (if k' = k then slot_count (acked (lg_flights l f)) else count K k')" for k'
          using acc Some by (simp add: ledger_accounts_def owed_slots_def slot_count_def acked_def)
      qed
      moreover have "Acknowledge l0 now k = Some (?l, True)"
        using k nor Some by (simp add: unf tab set_flight_def touched_def acked_def)
      ultimately show ?thesis using inv rc nor Some
        by (intro exI [of _ l] exI [of _ ?l] exI [of _ True]) (auto simp: fun_upd_idem)
    qed
  qed
qed

lemma drop_expired_ok:
  assumes inv: "ledger_inv l"
  shows "\<exists>l'. drop_expired l now (shardIndex l k) k = Some l' \<and> ledger_inv l' \<and> reclaim (expired now) l l' \<and>
     receipts l' k = (case receipts l k of None \<Rightarrow> None | Some rc \<Rightarrow> if expired now rc then None else Some rc)"
proof (cases "receipts l k")
  case None
  then show ?thesis using inv by (auto simp: drop_expired_def receipts_def [symmetric])
next
  case (Some rc)
  show ?thesis
  proof (cases "expired now rc")
    case False
    then show ?thesis using inv Some by (auto simp: drop_expired_def receipts_def [symmetric] expired_def)
  next
    case True
    from removeElement_reclaim [of l k rc "expired now", OF inv Some True] obtain l' where
      "removeElement l (shardIndex l k) k = Some l'" "ledger_inv l'" "reclaim (expired now) l l'"
      "receipts l' = (receipts l)(k := None)" by blast
    moreover have "drop_expired l now (shardIndex l k) k = removeElement l (shardIndex l k) k"
      using Some True by (simp add: drop_expired_def receipts_def [symmetric] expired_def)
    ultimately show ?thesis using Some True by auto
  qed
qed

lemma Replay_ok:
  assumes inv: "ledger_inv l" and k: "key_msg k \<noteq> 0"
  shows "\<exists>l'. Replay l now replay k =
      Some (l', (case receipts l' k of None \<Rightarrow> None
                 | Some rc \<Rightarrow> if rc_unavailable rc \<or> rc_acknowledged rc then None else replay k)) \<and>
     ledger_inv l' \<and> reclaim (expired now) l l' \<and>
     receipts l' k = (case receipts l k of None \<Rightarrow> None | Some rc \<Rightarrow> if expired now rc then None else Some rc)"
proof -
  from drop_expired_ok [OF inv] obtain l' where l': "drop_expired l now (shardIndex l k) k = Some l'" "ledger_inv l'"
    "reclaim (expired now) l l'"
    "receipts l' k = (case receipts l k of None \<Rightarrow> None | Some rc \<Rightarrow> if expired now rc then None else Some rc)" by blast
  have "Replay l now replay k = Some (l', (case receipts l' k of None \<Rightarrow> None
                 | Some rc \<Rightarrow> if rc_unavailable rc \<or> rc_acknowledged rc then None else replay k))"
    using k l'(1,4)
    by (auto simp: Replay_def drop_expired_def receipts_def [symmetric] expired_def split: option.splits if_splits)
  with l' show ?thesis by blast
qed

lemma ObserveDependency_ok:
  assumes inv: "ledger_inv l" and k: "key_msg k \<noteq> 0"
  shows "\<exists>l'. ObserveDependency l now k = Some (l',
      case receipts l' k of
        Some rc \<Rightarrow> if rc_executionKnown rc then Some (DependencyCompleted (rc_executionOK rc)) else None
      | None \<Rightarrow> (case pendings l k of None \<Rightarrow> None
                | Some f \<Rightarrow> Some (if ft_executionDone (lg_flights l f) then DependencyCompleted (ft_executionOK (lg_flights l f))
                                  else DependencyPending \<lparr>wt_key = k, wt_flight = f\<rparr>))) \<and>
     ledger_inv l' \<and> reclaim (expired now) l l' \<and>
     receipts l' k = (case receipts l k of None \<Rightarrow> None | Some rc \<Rightarrow> if expired now rc then None else Some rc)"
proof -
  from drop_expired_ok [OF inv] obtain l' where l': "drop_expired l now (shardIndex l k) k = Some l'" "ledger_inv l'"
    and rc: "reclaim (expired now) l l'" and
    val: "receipts l' k = (case receipts l k of None \<Rightarrow> None | Some rc \<Rightarrow> if expired now rc then None else Some rc)" by blast
  have idx: "shardIndex l k = shardIndex l' k" using reclaim_frame(9) [OF rc] by simp
  show ?thesis
    using k l' rc val
    by (intro exI [of _ l'])
       (auto simp: ObserveDependency_def Let_def idx receipts_def [symmetric] pendings_def [symmetric]
         reclaim_frame(6,8) [OF rc] split: option.split)
qed

lemma ExactAdmissionProfile_ok:
  assumes inv: "ledger_inv l"
  shows "\<exists>l' p. ExactAdmissionProfile l now k = Some (l', p) \<and> ledger_inv l' \<and> reclaim (expired now) l l'"
proof (cases "key_msg k = 0")
  case True
  then show ?thesis using inv by (auto simp: ExactAdmissionProfile_def)
next
  case False
  from drop_expired_ok [OF inv] obtain l' where l': "drop_expired l now (shardIndex l k) k = Some l'" "ledger_inv l'"
    "reclaim (expired now) l l'" by blast
  then show ?thesis using False
    by (intro exI [of _ l']) (auto simp: ExactAdmissionProfile_def Let_def split: option.split)
qed

subsection \<open>The initial ledger\<close>

lemma default_pos: "0 < d \<Longrightarrow> 0 < default_if x d"
  by (simp add: default_if_def)

lemma new_ledger_inv: "ledger_inv (newRPCExecutionLedger hash c)"
proof -
  let ?l = "newRPCExecutionLedger hash c"
  have tab: "shard_receipt ?l i k = None" "shard_flight ?l i k = None" "sh_order (lg_shards ?l i) = []" for i k
    by (simp_all add: newRPCExecutionLedger_def Let_def shard_receipt_def shard_flight_def)
  have "receipts ?l = Map.empty" "pendings ?l = Map.empty" by (simp_all add: receipts_def pendings_def fun_eq_iff tab)
  note tables = tab this
  have "ledger_shape ?l" by (simp add: ledger_shape_def tables)
  moreover have "ledger_accounts ?l {#} {#}"
  proof -
    have "fair_inv (lg_budget ?l) {#}"
      by (simp add: newRPCExecutionLedger_def Let_def default_pos less_imp_le fair_inv_new)
    moreover have "sub_inv (lg_subscriberBudget ?l) {#}"
      by (simp add: newRPCExecutionLedger_def Let_def default_pos less_imp_le sub_inv_new)
    moreover have "lg_receiptCount ?l = 0" "fl_used (lg_flightLimit ?l) = 0" "0 \<le> fl_max (lg_flightLimit ?l)"
      by (simp_all add: newRPCExecutionLedger_def Let_def default_pos less_imp_le)
    ultimately show ?thesis
      by (simp add: ledger_accounts_def owed_reservations_def owed_slots_def tables mcount_empty)
  qed
  moreover have "ledger_admissions ?l"
  proof -
    have "ad_active (lg_admissions ?l) = []" "ad_next (lg_admissions ?l) = 0"
      by (simp_all add: newRPCExecutionLedger_def Let_def)
    then show ?thesis by (simp add: ledger_admissions_def tables)
  qed
  ultimately show ?thesis by (auto simp: ledger_inv_def)
qed

end
