(* ===== verification/Rpc_Ledger_Run.thy ===== *)
theory Rpc_Ledger_Run
  imports Rpc_Ledger_Life
begin

text \<open>
  Executions of the ledger: any sequence of its sections, with any clock readings, any leases
  and waiters (also stale or invented ones), any contents of the replay store, and any
  reservations of other shards in transit. Every section is total on the states that satisfy the
  invariant, so a run never panics. A call that takes several locks is a run of its sections,
  whatever runs between them (\<open>acquire_is_run\<close>, \<open>Complete_is_run\<close>, \<open>expireReceipts_is_run\<close>,
  \<open>forgetSession_is_run\<close>), so what holds of all runs holds of every interleaving of calls.
\<close>

subsection \<open>Operations as events\<close>

datatype ledger_op =
    OpAcquire in_transit "rpc_key \<Rightarrow> nat option" rpc_key request_identity
  | OpComplete in_transit time rpc_key nat bool
  | OpAbort owner_lease
  | OpCompleteExecution owner_lease bool
  | OpSubscribe in_transit waiter "nat option" "nat option"
  | OpAcknowledge time rpc_key
  | OpReplay time "rpc_key \<Rightarrow> nat option" rpc_key
  | OpObserve time rpc_key
  | OpProfile time rpc_key
  | OpForget auth_key_id int nat
  | OpExpire time nat

datatype ledger_answer =
    Acquired "rpc_error + acquire_result"
  | Blocked
  | Called "callback list"
  | Subscribed "rpc_error option" "callback list"
  | Answered

definition turn_answer :: "(rpc_error + acquire_result) option \<Rightarrow> ledger_answer" where
  "turn_answer r = (case r of None \<Rightarrow> Blocked | Some r \<Rightarrow> Acquired r)"

fun ledger_apply :: "ledger_op \<Rightarrow> ledger \<Rightarrow> (ledger \<times> ledger_answer) option" where
  "ledger_apply (OpAcquire tr replay k identity) l =
     (if key_msg k = 0 then Some (l, Acquired (Inl ErrRPCResultFlightInvalid))
      else map_option (\<lambda>(l', r). (l', turn_answer r)) (acquire_locked tr l replay k identity))"
| "ledger_apply (OpComplete tr now k enc replayable) l =
     (if key_msg k = 0 then Some (l, Called [])
      else map_option (\<lambda>(l', _, cbs). (l', Called cbs)) (complete_locked tr l now k enc replayable))"
| "ledger_apply (OpAbort ls) l = map_option (\<lambda>(l', _, _, cbs). (l', Called cbs)) (Abort l ls)"
| "ledger_apply (OpCompleteExecution ls ok) l = map_option (\<lambda>(l', _, cbs). (l', Called cbs)) (CompleteExecution l ls ok)"
| "ledger_apply (OpSubscribe tr w rfn efn) l = (case subscribe tr l w rfn efn of (l', e, cbs) \<Rightarrow> Some (l', Subscribed e cbs))"
| "ledger_apply (OpAcknowledge now k) l = map_option (\<lambda>(l', _). (l', Answered)) (Acknowledge l now k)"
| "ledger_apply (OpReplay now replay k) l = map_option (\<lambda>(l', _). (l', Answered)) (Replay l now replay k)"
| "ledger_apply (OpObserve now k) l = map_option (\<lambda>(l', _). (l', Answered)) (ObserveDependency l now k)"
| "ledger_apply (OpProfile now k) l = map_option (\<lambda>(l', _). (l', Answered)) (ExactAdmissionProfile l now k)"
| "ledger_apply (OpForget a s i) l = map_option (\<lambda>l'. (l', Answered)) (forget_shard l i a s)"
| "ledger_apply (OpExpire now i) l = map_option (\<lambda>l'. (l', Answered)) (expireLocked l i now)"

fun ledger_run :: "ledger_op list \<Rightarrow> ledger \<Rightarrow> (ledger \<times> ledger_answer list) option" where
  "ledger_run [] l = Some (l, [])"
| "ledger_run (op # ops) l =
     do { (l1, a) \<leftarrow> ledger_apply op l; (l2, as) \<leftarrow> ledger_run ops l1; Some (l2, a # as) }"

subsection \<open>What one operation does to the tables\<close>

text \<open>
  \<open>step_kind l op l' a\<close> sorts the effect of an operation: it only reclaims receipts; or, after
  reclaiming, it answers from a table, installs an owner, ends a claim, or changes a flight in place.
\<close>

definition aborts :: "ledger_op \<Rightarrow> rpc_key \<Rightarrow> nat \<Rightarrow> bool" where
  "aborts op k f \<longleftrightarrow> (case op of OpAbort ls \<Rightarrow> ls_key ls = k \<and> ls_flight ls = f | _ \<Rightarrow> False)"

definition completes :: "ledger_op \<Rightarrow> rpc_key \<Rightarrow> bool" where
  "completes op k \<longleftrightarrow> (case op of OpComplete _ _ k' _ _ \<Rightarrow> k' = k | _ \<Rightarrow> False)"

definition acknowledges :: "ledger_op \<Rightarrow> rpc_key \<Rightarrow> bool" where
  "acknowledges op k \<longleftrightarrow> (case op of OpAcknowledge _ k' \<Rightarrow> k' = k | _ \<Rightarrow> False)"

definition forgets :: "ledger_op \<Rightarrow> rpc_key \<Rightarrow> bool" where
  "forgets op k \<longleftrightarrow> (case op of OpForget a s _ \<Rightarrow> key_auth k = a \<and> key_session k = s | _ \<Rightarrow> False)"

definition op_clock :: "ledger_op \<Rightarrow> time option" where
  "op_clock op = (case op of
      OpComplete _ now _ _ _ \<Rightarrow> Some now | OpAcknowledge now _ \<Rightarrow> Some now
    | OpReplay now _ _ \<Rightarrow> Some now | OpObserve now _ \<Rightarrow> Some now | OpProfile now _ \<Rightarrow> Some now
    | OpExpire now _ \<Rightarrow> Some now | _ \<Rightarrow> None)"

definition reclaimable :: "ledger_op \<Rightarrow> receipt \<Rightarrow> bool" where
  "reclaimable op rc \<longleftrightarrow>
     (case op_clock op of Some now \<Rightarrow> expired now rc | None \<Rightarrow> False) \<or> forgets op (rc_key rc)"

inductive step_kind :: "ledger \<Rightarrow> ledger_op \<Rightarrow> ledger \<Rightarrow> ledger_answer \<Rightarrow> bool" where
  kind_reclaim: "reclaim (reclaimable op) l l' \<Longrightarrow> (\<forall>tr replay k identity. op \<noteq> OpAcquire tr replay k identity) \<Longrightarrow>
     a \<in> {Called [], Answered} \<Longrightarrow> step_kind l op l' a"
| kind_invalid: "key_msg k = 0 \<Longrightarrow> step_kind l (OpAcquire tr replay k identity) l (Acquired (Inl ErrRPCResultFlightInvalid))"
| kind_acquire: "ledger_inv l \<Longrightarrow> key_msg k \<noteq> 0 \<Longrightarrow>
     acquire_outcome tr replay k identity l l' r \<Longrightarrow> step_kind l (OpAcquire tr replay k identity) l' (turn_answer r)"
| kind_complete: "ledger_inv l \<Longrightarrow> complete_outcome now k enc replayable l l' True cbs \<Longrightarrow>
     step_kind l (OpComplete tr now k enc replayable) l' (Called cbs)"
| kind_abort: "ledger_inv l \<Longrightarrow> pendings l (ls_key ls) = Some (ls_flight ls) \<Longrightarrow>
     l' = resolved l (ls_key ls) (ls_flight ls) None b g sb \<Longrightarrow>
     pendings l' = (pendings l)(ls_key ls := None) \<Longrightarrow> receipts l' = receipts l \<Longrightarrow>
     step_kind l (OpAbort ls) l' (Called ((case ls_abortHook ls of None \<Rightarrow> [] | Some h \<Rightarrow> [AbortCallback h]) @
       map (\<lambda>s. ResultCallback s None False) (ft_subscribers (lg_flights l (ls_flight ls))) @
       map (\<lambda>s. ExecutionCallback s False) (ft_executionSubscribers (lg_flights l (ls_flight ls)))))"
| kind_executed: "ledger_inv l \<Longrightarrow> pendings l (ls_key ls) = Some (ls_flight ls) \<Longrightarrow>
     l' = touched l (ls_flight ls) (executed (lg_flights l (ls_flight ls)) success) sb \<Longrightarrow>
     step_kind l (OpCompleteExecution ls success) l'
       (Called (map (\<lambda>s. ExecutionCallback s success) (ft_executionSubscribers (lg_flights l (ls_flight ls)))))"
| kind_subscribed: "ledger_inv l \<Longrightarrow> pendings l (wt_key w) = Some (wt_flight w) \<Longrightarrow>
     l' = touched l (wt_flight w) (with_callbacks (lg_flights l (wt_flight w)) rfn efn) sb \<Longrightarrow>
     charge (lg_flights l (wt_flight w)) rfn efn = 0 \<or>
       int (slot_count (lg_flights l (wt_flight w)) + charge (lg_flights l (wt_flight w)) rfn efn) \<le> lg_subscriberPerFlight l \<Longrightarrow>
     step_kind l (OpSubscribe tr w rfn efn) l' (Subscribed None (execution_now (lg_flights l (wt_flight w)) efn))"
| kind_unsubscribed: "subscribe tr l w rfn efn = (l, e, cbs) \<Longrightarrow> step_kind l (OpSubscribe tr w rfn efn) l (Subscribed e cbs)"
| kind_acknowledged: "reclaim (expired now) l l1 \<Longrightarrow> ledger_inv l1 \<Longrightarrow>
     receipts l' = (receipts l1)(k := None) \<Longrightarrow> pendings l' = pendings l1 \<Longrightarrow>
     lg_flights l' = (case (receipts l1 k, pendings l1 k) of
        (None, Some f) \<Rightarrow> (lg_flights l1)(f := acked (lg_flights l1 f)) | _ \<Rightarrow> lg_flights l1) \<Longrightarrow>
     lg_nextFlight l' = lg_nextFlight l1 \<Longrightarrow> lg_admissions l' = lg_admissions l1 \<Longrightarrow>
     lg_subscriberPerFlight l' = lg_subscriberPerFlight l1 \<Longrightarrow>
     step_kind l (OpAcknowledge now k) l' Answered"

lemma reclaim_op:
  "reclaim (expired now) l l' \<Longrightarrow> op_clock op = Some now \<Longrightarrow> reclaim (reclaimable op) l l'"
  by (erule reclaim_mono) (simp add: reclaimable_def)

lemma complete_kind:
  assumes inv: "ledger_inv l"
  shows "\<exists>l' fin cbs. complete_locked tr l now k enc replayable = Some (l', fin, cbs) \<and> ledger_inv l' \<and>
     step_kind l (OpComplete tr now k enc replayable) l' (Called cbs)"
proof -
  from complete_locked_ok [OF inv, of tr now k enc replayable] obtain l' fin cbs where
    c: "complete_locked tr l now k enc replayable = Some (l', fin, cbs)" "ledger_inv l'"
      "complete_outcome now k enc replayable l l' fin cbs" by blast
  have "step_kind l (OpComplete tr now k enc replayable) l' (Called cbs)"
  proof (cases fin)
    case True
    with c inv show ?thesis by (auto intro: kind_complete)
  next
    case False
    then have "l' = l" "cbs = []" using c(3) by (auto simp: complete_outcome_def split: option.splits)
    then show ?thesis by (auto intro: kind_reclaim)
  qed
  with c show ?thesis by blast
qed

lemma ledger_apply_kind:
  assumes inv: "ledger_inv l"
  shows "\<exists>l' a. ledger_apply op l = Some (l', a) \<and> ledger_inv l' \<and> step_kind l op l' a"
proof (cases op)
  case (OpAcquire tr replay k identity)
  from acquire_locked_ok [OF inv, of tr replay k identity] obtain l' r where
    r: "acquire_locked tr l replay k identity = Some (l', r)" "ledger_inv l'" "acquire_outcome tr replay k identity l l' r" by blast
  show ?thesis
  proof (cases "key_msg k = 0")
    case True
    then show ?thesis using inv OpAcquire by (auto intro: kind_invalid)
  next
    case False
    with r OpAcquire kind_acquire [OF inv False r(3)] show ?thesis by auto
  qed
next
  case (OpComplete tr now k enc replayable)
  show ?thesis
  proof (cases "key_msg k = 0")
    case True
    then show ?thesis using inv OpComplete by (auto intro: kind_reclaim)
  next
    case False
    with complete_kind [OF inv, of tr now k enc replayable] OpComplete show ?thesis by auto
  qed
next
  case (OpAbort ls)
  show ?thesis
  proof (cases "ls_handedOff ls \<or> pendings l (ls_key ls) \<noteq> Some (ls_flight ls)")
    case True
    then show ?thesis using Abort_late [OF True] OpAbort inv by (auto intro: kind_reclaim)
  next
    case False
    then have p: "pendings l (ls_key ls) = Some (ls_flight ls)" "\<not> ls_handedOff ls" by auto
    from Abort_ok [OF inv p] obtain b g sb where
      "Abort l ls = Some (resolved l (ls_key ls) (ls_flight ls) None b g sb, ls\<lparr>ls_abortHook := None\<rparr>, True,
         (case ls_abortHook ls of None \<Rightarrow> [] | Some h \<Rightarrow> [AbortCallback h]) @
         map (\<lambda>s. ResultCallback s None False) (ft_subscribers (lg_flights l (ls_flight ls))) @
         map (\<lambda>s. ExecutionCallback s False) (ft_executionSubscribers (lg_flights l (ls_flight ls))))"
      "ledger_inv (resolved l (ls_key ls) (ls_flight ls) None b g sb)"
      "pendings (resolved l (ls_key ls) (ls_flight ls) None b g sb) = (pendings l)(ls_key ls := None)"
      "receipts (resolved l (ls_key ls) (ls_flight ls) None b g sb) = receipts l"
      unfolding Let_def by blast
    with kind_abort [OF inv p(1) refl] OpAbort show ?thesis by auto
  qed
next
  case (OpCompleteExecution ls success)
  show ?thesis
  proof (cases "pendings l (ls_key ls) \<noteq> Some (ls_flight ls) \<or> ft_executionDone (lg_flights l (ls_flight ls))")
    case True
    then show ?thesis using CompleteExecution_late [OF True] OpCompleteExecution inv by (auto intro: kind_reclaim)
  next
    case False
    then have p: "pendings l (ls_key ls) = Some (ls_flight ls)" "\<not> ft_executionDone (lg_flights l (ls_flight ls))" by auto
    from CompleteExecution_ok [OF inv p, of success] kind_executed [OF inv p(1) refl] OpCompleteExecution
    show ?thesis by auto
  qed
next
  case (OpSubscribe tr w rfn efn)
  show ?thesis
  proof (cases "pendings l (wt_key w) = Some (wt_flight w) \<and> \<not> (rfn = None \<and> efn = None)")
    case True
    then have p: "pendings l (wt_key w) = Some (wt_flight w)" "\<not> (rfn = None \<and> efn = None)" by auto
    let ?x = "lg_flights l (wt_flight w)"
    from subscribe_pending [OF inv p, of tr, unfolded Let_def] consider
      (kept) sb where "subscribe tr l w rfn efn = (touched l (wt_flight w) (with_callbacks ?x rfn efn) sb, None, execution_now ?x efn)"
        "ledger_inv (touched l (wt_flight w) (with_callbacks ?x rfn efn) sb)"
        "charge ?x rfn efn = 0 \<or> int (slot_count ?x + charge ?x rfn efn) \<le> lg_subscriberPerFlight l"
    | (full) "subscribe tr l w rfn efn = (l, Some ErrRPCResultSubscriberCapacity, [])" by blast
    then show ?thesis
    proof cases
      case kept
      with kind_subscribed [OF inv p(1) refl kept(3)] OpSubscribe show ?thesis by auto
    qed (use inv OpSubscribe in \<open>auto intro: kind_unsubscribed\<close>)
  next
    case False
    have "fst (subscribe tr l w rfn efn) = l"
    proof (cases "rfn = None \<and> efn = None")
      case True
      then show ?thesis by (simp add: subscribe_def)
    next
      case F: False
      with False show ?thesis by (intro subscribe_late) auto
    qed
    then obtain e cbs where "subscribe tr l w rfn efn = (l, e, cbs)" by (metis prod.collapse)
    then show ?thesis using inv OpSubscribe by (auto intro: kind_unsubscribed)
  qed
next
  case (OpAcknowledge now k)
  show ?thesis
  proof (cases "key_msg k = 0")
    case True
    then show ?thesis using inv OpAcknowledge by (auto simp: Acknowledge_def intro: kind_reclaim)
  next
    case False
    from Acknowledge_ok [OF inv False, of now] kind_acknowledged OpAcknowledge show ?thesis by fastforce
  qed
next
  case (OpReplay now replay k)
  show ?thesis
  proof (cases "key_msg k = 0")
    case True
    then show ?thesis using inv OpReplay by (auto simp: Replay_def intro: kind_reclaim)
  next
    case False
    from Replay_ok [OF inv False, of now replay] OpReplay show ?thesis
      by (auto intro!: kind_reclaim reclaim_op simp: op_clock_def)
  qed
next
  case (OpObserve now k)
  show ?thesis
  proof (cases "key_msg k = 0")
    case True
    then show ?thesis using inv OpObserve by (auto simp: ObserveDependency_def intro: kind_reclaim)
  next
    case False
    from ObserveDependency_ok [OF inv False, of now] OpObserve show ?thesis
      by (auto intro!: kind_reclaim reclaim_op simp: op_clock_def)
  qed
next
  case (OpProfile now k)
  from ExactAdmissionProfile_ok [OF inv, of now k] OpProfile show ?thesis
    by (auto intro!: kind_reclaim reclaim_op simp: op_clock_def)
next
  case (OpForget a s i)
  from forget_shard_ok [OF inv, of i a s] obtain l' where
    l': "forget_shard l i a s = Some l'" "ledger_inv l'" "reclaim (of_session a s) l l'" by blast
  have "reclaim (reclaimable op) l l'"
    by (rule reclaim_mono [OF l'(3)]) (simp add: reclaimable_def forgets_def OpForget of_session_def)
  with l' OpForget show ?thesis by (auto intro!: kind_reclaim)
next
  case (OpExpire now i)
  from expireLocked_ok [OF inv, of i now] OpExpire show ?thesis
    by (auto intro!: kind_reclaim reclaim_op simp: op_clock_def)
qed

lemma ledger_apply_inv: "ledger_inv l \<Longrightarrow> ledger_apply op l = Some (l', a) \<Longrightarrow> ledger_inv l' \<and> step_kind l op l' a"
  using ledger_apply_kind [of l op] by auto

lemma ledger_run_ok: "ledger_inv l \<Longrightarrow> \<exists>l' as. ledger_run ops l = Some (l', as) \<and> ledger_inv l'"
proof (induction ops arbitrary: l)
  case Nil
  then show ?case by simp
next
  case (Cons op ops)
  from ledger_apply_kind [OF Cons.prems, of op] obtain l1 a where "ledger_apply op l = Some (l1, a)" "ledger_inv l1" by blast
  with Cons.IH [OF this(2)] show ?case by auto
qed

subsection \<open>A call is a run of its sections\<close>

lemma ledger_run_append:
  "ledger_run (ops @ ops') l =
     do { (l1, as) \<leftarrow> ledger_run ops l; (l2, as') \<leftarrow> ledger_run ops' l1; Some (l2, as @ as') }"
  by (induction ops arbitrary: l) (auto split: bind_splits)

lemma ledger_run_answers: "ledger_run ops l = Some (l', as) \<Longrightarrow> length as = length ops"
  by (induction ops arbitrary: l as) (auto split: bind_splits)

text \<open>\<open>by_others f\<close>: what happens between two sections is a run of other sections.\<close>

definition by_others :: "(ledger \<Rightarrow> ledger option) \<Rightarrow> bool" where
  "by_others f \<longleftrightarrow> (\<forall>l. \<exists>ops. f l = map_option fst (ledger_run ops l))"

definition turn_by_others :: "turn \<Rightarrow> bool" where
  "turn_by_others tn \<longleftrightarrow> by_others (tn_before tn) \<and> by_others (tn_during tn)"

lemma by_others_Some [simp]: "by_others Some"
proof -
  have "Some l = map_option fst (ledger_run [] l)" for l by simp
  then show ?thesis unfolding by_others_def by blast
qed

lemma by_others_run: "by_others f \<Longrightarrow> f l = Some l' \<Longrightarrow> \<exists>ops as. ledger_run ops l = Some (l', as)"
proof -
  assume "by_others f" and f: "f l = Some l'"
  then obtain ops where "f l = map_option fst (ledger_run ops l)" unfolding by_others_def by blast
  with f show ?thesis by (cases "ledger_run ops l") (auto intro: exI [of _ ops])
qed

lemma run_trans:
  "\<exists>ops as. ledger_run ops l = Some (l1, as) \<Longrightarrow> \<exists>ops as. ledger_run ops l1 = Some (l2, as) \<Longrightarrow>
     \<exists>ops as. ledger_run ops l = Some (l2, as)"
proof (elim exE)
  fix ops as ops' as'
  assume "ledger_run ops l = Some (l1, as)" "ledger_run ops' l1 = Some (l2, as')"
  then have "ledger_run (ops @ ops') l = Some (l2, as @ as')" by (simp add: ledger_run_append)
  then show "\<exists>ops as. ledger_run ops l = Some (l2, as)" by blast
qed

lemma run_then:
  assumes "\<exists>ops as. ledger_run ops l = Some (l1, as)" "ledger_apply op l1 = Some (l2, a)"
  shows "\<exists>ops as. ledger_run (ops @ [op]) l = Some (l2, as @ [a])"
proof -
  from assms(1) obtain ops as where "ledger_run ops l = Some (l1, as)" by blast
  with assms(2) have "ledger_run (ops @ [op]) l = Some (l2, as @ [a])" by (simp add: ledger_run_append)
  then show ?thesis by blast
qed

lemma expire_shards_is_run:
  "(\<forall>i. by_others (rp_between rp i)) \<Longrightarrow> expire_shards rp l is = Some l' \<Longrightarrow> \<exists>ops as. ledger_run ops l = Some (l', as)"
proof (induction "is" arbitrary: l)
  case Nil
  then have "ledger_run [] l = Some (l', [])" by simp
  then show ?case by blast
next
  case (Cons i "is")
  then obtain l1 l2 where s: "rp_between rp i l = Some l1" "expireLocked l1 i (rp_clock rp i) = Some l2"
    "expire_shards rp l2 is = Some l'" by (auto simp: bind_eq_Some_conv)
  have "ledger_apply (OpExpire (rp_clock rp i) i) l1 = Some (l2, Answered)" using s(2) by simp
  moreover have "\<exists>ops as. ledger_run ops l = Some (l1, as)" using by_others_run s(1) Cons.prems(1) by blast
  ultimately have "\<exists>ops as. ledger_run ops l = Some (l2, as)" using run_then by blast
  with Cons.IH [OF Cons.prems(1) s(3)] show ?case using run_trans by blast
qed

lemma expireReceipts_is_run:
  "(\<forall>i. by_others (rp_between rp i)) \<Longrightarrow> expireReceipts rp l = Some l' \<Longrightarrow> \<exists>ops as. ledger_run ops l = Some (l', as)"
  unfolding expireReceipts_def by (rule expire_shards_is_run)

lemma forget_shards_is_run:
  "(\<forall>i. by_others (between i)) \<Longrightarrow> forget_shards between l a s is = Some l' \<Longrightarrow> \<exists>ops as. ledger_run ops l = Some (l', as)"
proof (induction "is" arbitrary: l)
  case Nil
  then have "ledger_run [] l = Some (l', [])" by simp
  then show ?case by blast
next
  case (Cons i "is")
  then obtain l1 l2 where st: "between i l = Some l1" "forget_shard l1 i a s = Some l2"
    "forget_shards between l2 a s is = Some l'" by (auto simp: bind_eq_Some_conv)
  have "ledger_apply (OpForget a s i) l1 = Some (l2, Answered)" using st(2) by simp
  moreover have "\<exists>ops as. ledger_run ops l = Some (l1, as)" using by_others_run st(1) Cons.prems(1) by blast
  ultimately have "\<exists>ops as. ledger_run ops l = Some (l2, as)" using run_then by blast
  with Cons.IH [OF Cons.prems(1) st(3)] show ?case using run_trans by blast
qed

lemma forgetSession_is_run:
  "(\<forall>i. by_others (between i)) \<Longrightarrow> forgetSession between l a s = Some l' \<Longrightarrow> \<exists>ops as. ledger_run ops l = Some (l', as)"
  unfolding forgetSession_def by (rule forget_shards_is_run)

lemma enter_is_run:
  assumes "turn_by_others tn" "enter_shard tn l k = Some l'"
  shows "\<exists>ops as. ledger_run ops l = Some (l', as)"
proof -
  from assms(2) obtain l1 l2 where s: "tn_before tn l = Some l1" "expireLocked l1 (shardIndex l1 k) (tn_now tn) = Some l2"
    "tn_during tn l2 = Some l'" by (auto simp: enter_shard_def bind_eq_Some_conv)
  have "ledger_apply (OpExpire (tn_now tn) (shardIndex l1 k)) l1 = Some (l2, Answered)" using s(2) by simp
  moreover have "\<exists>ops as. ledger_run ops l = Some (l1, as)" "\<exists>ops as. ledger_run ops l2 = Some (l', as)"
    using by_others_run assms(1) s(1,3) unfolding turn_by_others_def by blast+
  ultimately show ?thesis using run_then run_trans by blast
qed

lemma acquire_turn_is_run:
  assumes "turn_by_others tn" "acquire_turn tn l replay k identity = Some (l', r)" "key_msg k \<noteq> 0"
  shows "\<exists>ops as. ledger_run (ops @ [OpAcquire (tn_transit tn) replay k identity]) l = Some (l', as @ [turn_answer r])"
proof -
  from assms(2) obtain l1 where "enter_shard tn l k = Some l1" "acquire_locked (tn_transit tn) l1 replay k identity = Some (l', r)"
    by (auto simp: acquire_turn_def bind_eq_Some_conv)
  with enter_is_run [OF assms(1)] assms(3) show ?thesis by (intro run_then) auto
qed

text \<open>
  A call of \<^verbatim>\<open>acquire\<close> ends with the section that answers it. Its refusal for capacity is the
  answer of that section, or that section found the fair budget full.
\<close>

lemma acquire_is_run:
  assumes "turn_by_others first" "\<forall>i. by_others (rp_between rp i)" "turn_by_others second"
    and "acquire first rp second l replay k identity = Some (l', r)"
  shows "\<exists>ops as a tr. ledger_run (ops @ [OpAcquire tr replay k identity]) l = Some (l', as @ [a]) \<and>
     tr \<in> {tn_transit first, tn_transit second} \<and> (a = Acquired r \<or> a = Blocked \<and> r = Inl ErrRPCResultFlightCapacity)"
proof (cases "key_msg k = 0")
  case True
  then have "ledger_run ([] @ [OpAcquire (tn_transit first) replay k identity]) l = Some (l', [] @ [Acquired r])"
    using assms(4) by (simp add: acquire_def)
  then show ?thesis by blast
next
  case False
  from assms(4) False obtain l1 x where x: "acquire_turn first l replay k identity = Some (l1, x)"
    and rest: "(case x of Some r \<Rightarrow> Some (l1, r)
       | None \<Rightarrow> do { l2 \<leftarrow> expireReceipts rp l1; (l3, y) \<leftarrow> acquire_turn second l2 replay k identity;
            Some (l3, case y of Some r \<Rightarrow> r | None \<Rightarrow> Inl ErrRPCResultFlightCapacity) }) = Some (l', r)"
    by (auto simp: acquire_def bind_eq_Some_conv)
  note r1 = acquire_turn_is_run [OF assms(1) x False]
  show ?thesis
  proof (cases x)
    case (Some r')
    with rest have "x = Some r" "l1 = l'" by auto
    with r1 show ?thesis by (auto simp: turn_answer_def)
  next
    case None
    with rest obtain l2 y where s: "expireReceipts rp l1 = Some l2" "acquire_turn second l2 replay k identity = Some (l', y)"
      and r: "r = (case y of Some r \<Rightarrow> r | None \<Rightarrow> Inl ErrRPCResultFlightCapacity)" by (auto simp: bind_eq_Some_conv)
    from run_trans [OF _ expireReceipts_is_run [OF assms(2) s(1)]] r1
    obtain ops1 as1 where o1: "ledger_run ops1 l = Some (l2, as1)" by blast
    from acquire_turn_is_run [OF assms(3) s(2) False] obtain ops2 as2 where
      o2: "ledger_run (ops2 @ [OpAcquire (tn_transit second) replay k identity]) l2 = Some (l', as2 @ [turn_answer y])" by blast
    have "ledger_run ((ops1 @ ops2) @ [OpAcquire (tn_transit second) replay k identity]) l = Some (l', (as1 @ as2) @ [turn_answer y])"
      using o1 o2 by (simp add: ledger_run_append [of ops1])
    moreover have "turn_answer y = Acquired r \<or> turn_answer y = Blocked \<and> r = Inl ErrRPCResultFlightCapacity"
      using r by (auto simp: turn_answer_def split: option.split)
    ultimately show ?thesis by blast
  qed
qed

lemma completeOnce_is_run:
  assumes "turn_by_others tn" "completeOnce tn l k enc replayable = Some (l', fin, cbs)" "key_msg k \<noteq> 0"
  shows "\<exists>ops as. ledger_run (ops @ [OpComplete (tn_transit tn) (tn_now tn) k enc replayable]) l = Some (l', as @ [Called cbs])"
proof -
  from assms(2) obtain l1 where "enter_shard tn l k = Some l1"
      "complete_locked (tn_transit tn) l1 (tn_now tn) k enc replayable = Some (l', fin, cbs)"
    by (auto simp: completeOnce_def bind_eq_Some_conv)
  with enter_is_run [OF assms(1)] assms(3) show ?thesis by (intro run_then) auto
qed

lemma Complete_is_run:
  assumes "turn_by_others first" "\<forall>i. by_others (rp_between rp i)" "turn_by_others second"
    and "Complete first rp second l replay k enc replayable = Some (l', cbs)"
  shows "\<exists>ops as tr now ra. ledger_run (ops @ [OpComplete tr now k enc ra]) l = Some (l', as @ [Called cbs])"
proof (cases "key_msg k = 0")
  case True
  then have "ledger_run ([] @ [OpComplete quiet 0 k enc True]) l = Some (l', [] @ [Called cbs])"
    using assms(4) by (simp add: Complete_def)
  then show ?thesis by blast
next
  case False
  define ra where "ra = (replayable \<and> replay k \<noteq> None)"
  from assms(4) False obtain l1 fin c1 where c: "completeOnce first l k enc ra = Some (l1, fin, c1)"
    and rest: "(if fin then Some (l1, c1) else do { l2 \<leftarrow> expireReceipts rp l1; (l3, _, c2) \<leftarrow> completeOnce second l2 k enc ra;
        Some (l3, c2) }) = Some (l', cbs)"
    unfolding Complete_def Let_def ra_def [symmetric] by (auto simp: bind_eq_Some_conv)
  note r1 = completeOnce_is_run [OF assms(1) c False]
  show ?thesis
  proof (cases fin)
    case True
    with rest have "l1 = l'" "c1 = cbs" by auto
    with r1 show ?thesis by blast
  next
    case unfinished: False
    with rest obtain l2 fin' where s: "expireReceipts rp l1 = Some l2" "completeOnce second l2 k enc ra = Some (l', fin', cbs)"
      by (auto simp: bind_eq_Some_conv)
    from run_trans [OF _ expireReceipts_is_run [OF assms(2) s(1)]] r1
    obtain ops1 as1 where o1: "ledger_run ops1 l = Some (l2, as1)" by blast
    from completeOnce_is_run [OF assms(3) s(2) False] obtain ops2 as2 where
      o2: "ledger_run (ops2 @ [OpComplete (tn_transit second) (tn_now second) k enc ra]) l2 = Some (l', as2 @ [Called cbs])" by blast
    have "ledger_run ((ops1 @ ops2) @ [OpComplete (tn_transit second) (tn_now second) k enc ra]) l = Some (l', (as1 @ as2) @ [Called cbs])"
      using o1 o2 by (simp add: ledger_run_append [of ops1])
    then show ?thesis by blast
  qed
qed

end
