(* ===== verification/Rpc_Ledger_Properties.thy ===== *)
theory Rpc_Ledger_Properties
  imports Rpc_Ledger_Run
begin

text \<open>
  What the execution ledger guarantees over its executions from an empty ledger: it never panics,
  it accounts for every claim and receipt, a request is executed once, every accepted callback is
  called once, a waiter's answer is final, and the admission floor is right.
\<close>

subsection \<open>A claim is held\<close>

definition reachable_ledger :: "ledger \<Rightarrow> bool" where
  "reachable_ledger l \<longleftrightarrow> (\<exists>hash c ops as. ledger_run ops (newRPCExecutionLedger hash c) = Some (l, as))"

lemma reachable_inv: "reachable_ledger l \<Longrightarrow> ledger_inv l"
proof -
  assume "reachable_ledger l"
  then obtain hash c ops as where "ledger_run ops (newRPCExecutionLedger hash c) = Some (l, as)"
    unfolding reachable_ledger_def by blast
  with ledger_run_ok [OF new_ledger_inv, of ops hash c] show ?thesis by auto
qed

lemma reachable_new: "reachable_ledger (newRPCExecutionLedger hash c)"
  unfolding reachable_ledger_def by (metis ledger_run.simps(1))

definition held :: "ledger \<Rightarrow> rpc_key \<Rightarrow> nat \<Rightarrow> time \<Rightarrow> bool" where
  "held l k f T \<longleftrightarrow>
     (pendings l k = Some f \<and> \<not> ft_acknowledged (lg_flights l f)) \<or>
     (\<exists>rc. receipts l k = Some rc \<and> T \<le> rc_expiresAt rc)"

text \<open>
  \<open>keeps k f T op\<close>: the operation neither aborts the claim, nor acknowledges its request, nor
  destroys its session, its clock is before \<open>T\<close>, and if it completes the request then its
  receipt lives until \<open>T\<close>.
\<close>

definition keeps :: "rpc_key \<Rightarrow> nat \<Rightarrow> time \<Rightarrow> ledger_op \<Rightarrow> bool" where
  "keeps k f T op \<longleftrightarrow> \<not> aborts op k f \<and> \<not> acknowledges op k \<and> \<not> forgets op k \<and>
     (case op_clock op of None \<Rightarrow> True
      | Some now \<Rightarrow> now < T \<and> (completes op k \<longrightarrow> T \<le> now + rpcExecutionReceiptTTL))"

definition owner_answer :: "ledger_op \<Rightarrow> ledger_answer \<Rightarrow> rpc_key \<Rightarrow> bool" where
  "owner_answer op a k \<longleftrightarrow> (case (op, a) of
      (OpAcquire _ _ k' _, Acquired (Inr (AcquireOwner _ _))) \<Rightarrow> k' = k | _ \<Rightarrow> False)"

lemma held_reclaim:
  assumes inv: "ledger_inv l" and r: "reclaim P l l'" and h: "held l k f T"
    and np: "\<And>rc. receipts l k = Some rc \<Longrightarrow> T \<le> rc_expiresAt rc \<Longrightarrow> rc_key rc = k \<Longrightarrow> \<not> P rc"
  shows "held l' k f T"
proof -
  have shape: "ledger_shape l" using inv by (simp add: ledger_inv_def)
  from h consider "pendings l k = Some f" "\<not> ft_acknowledged (lg_flights l f)"
    | rc where "receipts l k = Some rc" "T \<le> rc_expiresAt rc" unfolding held_def by blast
  then show ?thesis
  proof cases
    case 1
    then show ?thesis using reclaim_frame(6,8) [OF r] by (simp add: held_def)
  next
    case 2
    have "rc_key rc = k" using ledger_shape_receipt [OF shape 2(1)] by (simp add: receipt_live_def)
    then have "\<not> P rc" using np 2 by blast
    then have "receipts l' k = Some rc" using reclaim_gone [OF r 2(1)] reclaim_receipt [OF r, of k]  2(1)
      by (cases "receipts l' k") auto
    with 2(2) show ?thesis by (auto simp: held_def)
  qed
qed

lemma held_exclusive: "ledger_inv l \<Longrightarrow> held l k f T \<Longrightarrow> receipts l k \<noteq> None \<or> pendings l k \<noteq> None"
  by (auto simp: held_def)

lemma held_touched:
  assumes "held l k f T" "ft_acknowledged x = ft_acknowledged (lg_flights l f')"
  shows "held (touched l f' x sb) k f T"
  using assms by (auto simp: held_def)

lemma held_step:
  assumes inv: "ledger_inv l" and h: "held l k f T" and st: "step_kind l op l' a" and keep: "keeps k f T op"
  shows "held l' k f T \<and> \<not> owner_answer op a k"
  using st inv h keep
proof (induction rule: step_kind.induct)
  case (kind_reclaim op l l' a)
  have "held l' k f T"
  proof (rule held_reclaim [OF kind_reclaim(4) kind_reclaim(1) kind_reclaim(5)])
    fix rc assume "receipts l k = Some rc" "T \<le> rc_expiresAt rc" "rc_key rc = k"
    with kind_reclaim(6) show "\<not> reclaimable op rc"
      by (auto simp: keeps_def reclaimable_def expired_def split: option.splits)
  qed
  moreover have "\<not> owner_answer op a k" using kind_reclaim(3) by (auto simp: owner_answer_def split: ledger_op.split)
  ultimately show ?case by blast
next
  case (kind_acquire l k' tr replay identity l' r)
  have shape: "ledger_shape l" using kind_acquire(1) by (simp add: ledger_inv_def)
  show ?case
  proof (cases "receipts l k' \<noteq> None \<or> pendings l k' \<noteq> None")
    case True
    then have "l' = l \<and> (\<forall>s ls. r \<noteq> Some (Inr (AcquireOwner s ls)))"
      using kind_acquire(3)
      by (auto simp: acquire_outcome_def receipt_answer_def flight_answer_def split: option.splits)
    with kind_acquire(5) show ?thesis
      by (auto simp: owner_answer_def turn_answer_def split: option.splits sum.splits acquire_result.splits)
  next
    case False
    then have "k' \<noteq> k" using held_exclusive [OF kind_acquire(1,5)] by metis
    moreover have "held l' k f T"
    proof -
      have "f \<noteq> lg_nextFlight l" if "pendings l k = Some f" using ledger_shape_pending [OF shape that] by auto
      then show ?thesis
        using kind_acquire(3,5) False \<open>k' \<noteq> k\<close> by (auto simp: acquire_outcome_def held_def same_claims_def)
    qed
    ultimately show ?thesis by (auto simp: owner_answer_def turn_answer_def split: option.splits sum.splits acquire_result.splits)
  qed
next
  case (kind_complete l now k' enc ra l' cbs tr)
  have now: "k' = k \<Longrightarrow> T \<le> now + rpcExecutionReceiptTTL"
    using kind_complete by (auto simp: keeps_def op_clock_def completes_def)
  have h1: "held l k f T" by (rule kind_complete(4))
  have shape: "ledger_shape l" using kind_complete(1) by (simp add: ledger_inv_def)
  have "held l' k f T"
  proof (cases "receipts l k'")
    case (Some rc)
    with kind_complete(2) h1 show ?thesis by (simp add: complete_outcome_def)
  next
    case nor: None
    show ?thesis
    proof (cases "pendings l k'")
      case None
      with kind_complete(2) nor h1 have "k' \<noteq> k" "pendings l' = pendings l" "lg_flights l' = lg_flights l"
        "receipts l' k = receipts l k"
        by (auto simp: complete_outcome_def held_def)
      with h1 show ?thesis by (simp add: held_def)
    next
      case (Some f')
      show ?thesis
      proof (cases "k' = k")
        case True
        then have "f' = f" "\<not> ft_acknowledged (lg_flights l f)" using h1 nor Some by (auto simp: held_def)
        then have "receipts l' k = Some (claim_receipt now k (lg_flights l f) ra)"
          using kind_complete(2) nor Some True by (simp add: complete_outcome_def)
        then show ?thesis using now [OF True] by (simp add: held_def claim_receipt_def)
      next
        case False
        then have "f' \<noteq> f" if "pendings l k = Some f" using ledger_shape_inj [OF shape Some] that by metis
        moreover have "receipts l' k = receipts l k" "pendings l' k = pendings l k"
          "lg_flights l' = (lg_flights l)(f' := finished_flight (lg_flights l f') (Some enc))"
          using kind_complete(2) nor Some False by (simp_all add: complete_outcome_def)
        ultimately show ?thesis using h1 by (auto simp: held_def)
      qed
    qed
  qed
  then show ?case by (simp add: owner_answer_def)
next
  case (kind_abort l ls l' b g sb)
  have shape: "ledger_shape l" using kind_abort(1) by (simp add: ledger_inv_def)
  have "held l' k f T"
  proof (cases "ls_key ls = k")
    case True
    then have "ls_flight ls \<noteq> f" using kind_abort(8) by (auto simp: keeps_def aborts_def)
    then show ?thesis
      using kind_abort(2,7) True ledger_shape_pending [OF shape kind_abort(2)] by (auto simp: held_def)
  next
    case False
    then have "ls_flight ls \<noteq> f" if "pendings l k = Some f"
      using ledger_shape_inj [OF shape kind_abort(2)] that by metis
    moreover have "lg_flights l' f = lg_flights l f" if "ls_flight ls \<noteq> f" using that kind_abort(3) by simp
    ultimately show ?thesis using kind_abort(4,5,7) False unfolding held_def by auto
  qed
  then show ?case by (simp add: owner_answer_def)
next
  case (kind_executed l ls l' success sb)
  then show ?case by (auto simp: owner_answer_def executed_def intro: held_touched)
next
  case (kind_subscribed l w l' rfn efn sb)
  then show ?case by (auto simp: owner_answer_def with_callbacks_def intro: held_touched)
next
  case (kind_acknowledged now l l1 l' k')
  have now: "now < T" and "k' \<noteq> k" using kind_acknowledged by (auto simp: keeps_def op_clock_def acknowledges_def)
  have h1: "held l1 k f T"
    by (rule held_reclaim [OF kind_acknowledged(9) kind_acknowledged(1) kind_acknowledged(10)]) (use now in \<open>auto simp: expired_def\<close>)
  have shape: "ledger_shape l1" using kind_acknowledged(2) by (simp add: ledger_inv_def)
  have "lg_flights l' f = lg_flights l1 f" if "pendings l1 k = Some f"
    using kind_acknowledged(5) ledger_shape_inj [OF shape that] \<open>k' \<noteq> k\<close> by (auto split: option.splits)
  then have "held l' k f T" using h1 kind_acknowledged(3,4) \<open>k' \<noteq> k\<close> by (auto simp: held_def)
  then show ?case by (simp add: owner_answer_def)
qed (auto simp: owner_answer_def)

lemma held_run:
  "ledger_inv l \<Longrightarrow> held l k f T \<Longrightarrow> ledger_run ops l = Some (l', as) \<Longrightarrow> (\<forall>op \<in> set ops. keeps k f T op) \<Longrightarrow>
     held l' k f T \<and> (\<forall>(op, a) \<in> set (zip ops as). \<not> owner_answer op a k)"
proof (induction ops arbitrary: l as)
  case Nil
  then show ?case by simp
next
  case (Cons op ops)
  then obtain l1 a as' where s: "ledger_apply op l = Some (l1, a)" "ledger_run ops l1 = Some (l', as')" "as = a # as'"
    by (auto simp: bind_eq_Some_conv)
  note i = ledger_apply_inv [OF Cons.prems(1) s(1)]
  have "held l1 k f T \<and> \<not> owner_answer op a k"
    using held_step [OF Cons.prems(1,2)] i Cons.prems(4) by auto
  with Cons.IH [of l1 as'] i s Cons.prems(4) show ?case by auto
qed

lemma acquire_owner:
  assumes "ledger_inv l" "ledger_apply (OpAcquire tr replay k identity) l = Some (l', Acquired (Inr (AcquireOwner s ls)))"
  shows "receipts l k = None \<and> pendings l k = None \<and>
     ls = fresh_lease k (lg_nextFlight l) \<and> receipts l' = receipts l \<and>
     pendings l' = (pendings l)(k \<mapsto> lg_nextFlight l) \<and>
     lg_flights l' = (lg_flights l)(lg_nextFlight l := fresh_flight k identity s) \<and>
     lg_nextFlight l' = lg_nextFlight l + 1 \<and> (s = 0 \<longleftrightarrow> \<not> ri_valid identity)"
proof -
  from ledger_apply_inv [OF assms] have "step_kind l (OpAcquire tr replay k identity) l' (Acquired (Inr (AcquireOwner s ls)))" by blast
  then have "acquire_outcome tr replay k identity l l' (Some (Inr (AcquireOwner s ls)))"
    by (cases rule: step_kind.cases) (auto simp: turn_answer_def split: option.splits)
  then show ?thesis
    by (auto simp: acquire_outcome_def receipt_answer_def flight_answer_def split: option.splits if_splits)
qed

subsection \<open>Callbacks of one claim\<close>

text \<open>A claim never keeps more callbacks than its configured share.\<close>

definition flights_bounded :: "ledger \<Rightarrow> bool" where
  "flights_bounded l \<longleftrightarrow> 0 \<le> lg_subscriberPerFlight l \<and>
     (\<forall>k f. pendings l k = Some f \<longrightarrow> int (slot_count (lg_flights l f)) \<le> lg_subscriberPerFlight l)"

lemma slot_count_simps [simp]:
  "slot_count (fresh_flight k identity s) = 0" "slot_count (acked x) = slot_count x"
  "slot_count (executed x success) = length (ft_subscribers x)"
  by (simp_all add: slot_count_def fresh_flight_def idle_flight_def acked_def executed_def)

lemma bounded_update:
  assumes "flights_bounded l" "\<And>k f. pendings l' k = Some f \<Longrightarrow> pendings l k = Some f"
    and "lg_flights l' = (lg_flights l)(g := x)" "lg_subscriberPerFlight l' = lg_subscriberPerFlight l"
    and "\<And>k. pendings l' k = Some g \<Longrightarrow> int (slot_count x) \<le> lg_subscriberPerFlight l"
  shows "flights_bounded l'"
  unfolding flights_bounded_def
proof (intro conjI allI impI)
  fix k f assume f: "pendings l' k = Some f"
  show "int (slot_count (lg_flights l' f)) \<le> lg_subscriberPerFlight l'"
    using assms(1) assms(2) [OF f] assms(3-5) f by (cases "f = g") (auto simp: flights_bounded_def)
qed (use assms(1,4) in \<open>simp add: flights_bounded_def\<close>)

lemma bounded_same:
  "flights_bounded l \<Longrightarrow> pendings l' = pendings l \<Longrightarrow> lg_flights l' = lg_flights l \<Longrightarrow>
     lg_subscriberPerFlight l' = lg_subscriberPerFlight l \<Longrightarrow> flights_bounded l'"
  by (simp add: flights_bounded_def)

lemma bounded_step:
  assumes "ledger_inv l" "flights_bounded l" "step_kind l op l' a"
  shows "flights_bounded l'"
  using assms(3,1,2)
proof (induction rule: step_kind.induct)
  case (kind_reclaim op l l' a)
  show ?case by (rule bounded_same [OF kind_reclaim(5)]) (simp_all add: reclaim_frame [OF kind_reclaim(1)])
next
  case (kind_acquire l k tr replay identity l' r)
  have shape: "ledger_shape l" using kind_acquire(1) by (simp add: ledger_inv_def)
  have older: "f \<noteq> lg_nextFlight l" if "pendings l k' = Some f" for k' f using ledger_shape_pending [OF shape that] by auto
  have "pendings l' = pendings l \<and> lg_flights l' = lg_flights l \<and> lg_subscriberPerFlight l' = lg_subscriberPerFlight l \<or>
     (\<exists>s. pendings l' = (pendings l)(k \<mapsto> lg_nextFlight l) \<and>
        lg_flights l' = (lg_flights l)(lg_nextFlight l := fresh_flight k identity s) \<and> lg_subscriberPerFlight l' = lg_subscriberPerFlight l)"
    using kind_acquire(3) by (auto simp: acquire_outcome_def same_claims_def split: option.splits)
  then show ?case
  proof (elim disjE conjE exE)
    fix s assume new: "pendings l' = (pendings l)(k \<mapsto> lg_nextFlight l)"
      "lg_flights l' = (lg_flights l)(lg_nextFlight l := fresh_flight k identity s)" "lg_subscriberPerFlight l' = lg_subscriberPerFlight l"
    have "int (slot_count (lg_flights l' f)) \<le> lg_subscriberPerFlight l'" if "pendings l' k' = Some f" for k' f
      using kind_acquire(5) that older [of k' f] new by (cases "k' = k") (auto simp: flights_bounded_def)
    then show ?thesis using kind_acquire(5) new(3) by (simp add: flights_bounded_def)
  qed (rule bounded_same [OF kind_acquire(5)])
next
  case (kind_complete l now k enc ra l' cbs tr)
  have frame: "lg_subscriberPerFlight l' = lg_subscriberPerFlight l" using kind_complete(2) by (simp add: complete_outcome_def)
  show ?case
  proof (cases "receipts l k = None \<and> pendings l k \<noteq> None")
    case True
    then obtain f where f: "receipts l k = None" "pendings l k = Some f" by auto
    then have s: "pendings l' = (pendings l)(k := None)" "lg_flights l' = (lg_flights l)(f := finished_flight (lg_flights l f) (Some enc))"
      using kind_complete(2) by (simp_all add: complete_outcome_def)
    have "slot_count (finished_flight x e) = 0" for x e by (simp add: slot_count_def finished_flight_def)
    then show ?thesis
      by (intro bounded_update [OF kind_complete(4) _ s(2) frame])
         (use s(1) kind_complete(4) in \<open>auto simp: flights_bounded_def split: if_splits\<close>)
  next
    case False
    then show ?thesis using kind_complete(2,4) by (intro bounded_same [OF kind_complete(4)]) (auto simp: complete_outcome_def split: option.splits)
  qed
next
  case (kind_abort l ls l' b g sb)
  have "slot_count (finished_flight x e) = 0" for x e by (simp add: slot_count_def finished_flight_def)
  then show ?case
    by (intro bounded_update [of l l' "ls_flight ls"])
       (use kind_abort in \<open>auto simp: flights_bounded_def split: if_splits\<close>)
next
  case (kind_executed l ls l' success sb)
  have "int (slot_count (lg_flights l (ls_flight ls))) \<le> lg_subscriberPerFlight l"
    using kind_executed(2,5) by (simp add: flights_bounded_def)
  then have "int (slot_count (executed (lg_flights l (ls_flight ls)) success)) \<le> lg_subscriberPerFlight l"
    by (simp add: slot_count_def [of "lg_flights l (ls_flight ls)"])
  then show ?case by (intro bounded_update [of l l' "ls_flight ls"]) (use kind_executed in auto)
next
  case (kind_subscribed l w l' rfn efn sb tr)
  have "int (slot_count (lg_flights l (wt_flight w))) \<le> lg_subscriberPerFlight l"
    using kind_subscribed(2,6) by (simp add: flights_bounded_def)
  then have "int (slot_count (with_callbacks (lg_flights l (wt_flight w)) rfn efn)) \<le> lg_subscriberPerFlight l"
    using kind_subscribed(4) by (auto simp: slot_count_with_callbacks)
  then show ?case by (intro bounded_update [of l l' "wt_flight w"]) (use kind_subscribed in auto)
next
  case (kind_acknowledged now l l1 l' k)
  have b: "flights_bounded l1"
    by (rule bounded_same [OF kind_acknowledged(10)]) (simp_all add: reclaim_frame [OF kind_acknowledged(1)])
  show ?case
  proof (cases "receipts l1 k = None \<and> pendings l1 k \<noteq> None")
    case True
    then obtain f where f: "receipts l1 k = None" "pendings l1 k = Some f" by auto
    have "int (slot_count (lg_flights l1 f)) \<le> lg_subscriberPerFlight l1" using b f(2) by (simp add: flights_bounded_def)
    then show ?thesis using kind_acknowledged f by (intro bounded_update [OF b, of l' f "acked (lg_flights l1 f)"]) auto
  next
    case False
    then show ?thesis using kind_acknowledged by (intro bounded_same [OF b]) (auto split: option.splits)
  qed
qed simp_all

lemma bounded_run:
  "ledger_inv l \<Longrightarrow> flights_bounded l \<Longrightarrow> ledger_run ops l = Some (l', as) \<Longrightarrow> flights_bounded l'"
proof (induction ops arbitrary: l as)
  case Nil
  then show ?case by simp
next
  case (Cons op ops)
  then obtain l1 a as' where s: "ledger_apply op l = Some (l1, a)" "ledger_run ops l1 = Some (l', as')"
    by (auto simp: bind_eq_Some_conv)
  note i = ledger_apply_inv [OF Cons.prems(1) s(1)]
  from Cons.IH [OF conjunct1 [OF i] bounded_step [OF Cons.prems(1,2) conjunct2 [OF i]] s(2)] show ?case .
qed

lemma reachable_bounded: "reachable_ledger l \<Longrightarrow> flights_bounded l"
proof -
  assume "reachable_ledger l"
  then obtain hash c ops as where run: "ledger_run ops (newRPCExecutionLedger hash c) = Some (l, as)"
    unfolding reachable_ledger_def by blast
  have "flights_bounded (newRPCExecutionLedger hash c)"
    by (simp add: flights_bounded_def newRPCExecutionLedger_def Let_def default_pos less_imp_le pendings_def shard_flight_def)
  from bounded_run [OF new_ledger_inv this run] show ?thesis .
qed

subsection \<open>Counting\<close>

lemma mcount_card:
  assumes "\<forall>r. count R r \<le> 1"
  shows "mcount P R = int (card {r \<in> set_mset R. P r})"
proof -
  have "filter_mset P R = mset_set {r \<in> set_mset R. P r}"
  proof (rule multiset_eqI)
    fix r
    show "count (filter_mset P R) r = count (mset_set {r \<in> set_mset R. P r}) r"
    proof (cases "r \<in># R")
      case True
      then have "count R r = 1" using assms [rule_format, of r] count_greater_zero_iff [of R r] by linarith
      then show ?thesis using True by simp
    next
      case False
      then show ?thesis by (simp add: not_in_iff)
    qed
  qed
  then show ?thesis by (simp add: mcount_def)
qed

definition entries :: "ledger \<Rightarrow> rpc_key set" where
  "entries l = {k. receipts l k \<noteq> None \<or> pendings l k \<noteq> None}"

lemma live_entry_iff:
  "ledger_accounts l R K \<Longrightarrow> r \<in># R \<longleftrightarrow>
     \<not> rv_released r \<and> (if rv_pending r then pendings l (rv_key r) \<noteq> None else receipts l (rv_key r) \<noteq> None)"
  unfolding ledger_accounts_def count_greater_zero_iff [symmetric] by (auto simp: owed_reservations_def)

lemma entries_count:
  assumes shape: "ledger_shape l" and acc: "ledger_accounts l R K"
  shows "mcount (\<lambda>r. P (rv_key r) \<and> Q (rv_pending r)) R =
           int (card {k \<in> entries l. P k \<and> Q (pendings l k \<noteq> None)})"
    and "finite (entries l)"
proof -
  let ?e = "\<lambda>k. entry_of k (pendings l k \<noteq> None)"
  have c1: "\<forall>r. count R r \<le> 1" using acc by (auto simp: ledger_accounts_def owed_reservations_def)
  have eq: "r \<in># R \<longleftrightarrow> rv_key r \<in> entries l \<and> r = ?e (rv_key r)" for r
    using ledger_shape_pending [OF shape, of "rv_key r"]
    by (cases "pendings l (rv_key r)")
       (auto simp: live_entry_iff [OF acc] entries_def reservation_eq_entry split: if_splits)
  have inj: "inj_on ?e A" for A by (auto intro: inj_onI)
  have img: "{r \<in> set_mset R. P (rv_key r) \<and> Q (rv_pending r)} = ?e ` {k \<in> entries l. P k \<and> Q (pendings l k \<noteq> None)}"
    by (auto simp: eq image_iff reservation_eq_entry)
  show "mcount (\<lambda>r. P (rv_key r) \<and> Q (rv_pending r)) R = int (card {k \<in> entries l. P k \<and> Q (pendings l k \<noteq> None)})"
    unfolding mcount_card [OF c1] img card_image [OF inj] by (rule refl)
  have "?e ` entries l \<subseteq> set_mset R" by (auto simp: eq)
  then have "finite (?e ` entries l)" by (rule finite_subset) simp
  then show "finite (entries l)" by (rule finite_imageD) (rule inj)
qed

text \<open>The callbacks kept for claims in flight, as the callback budget counts them.\<close>

definition claims :: "ledger \<Rightarrow> rpc_key set" where
  "claims l = {k. pendings l k \<noteq> None}"

definition callbacks_kept :: "ledger \<Rightarrow> rpc_key \<Rightarrow> int" where
  "callbacks_kept l k = (case pendings l k of None \<Rightarrow> 0 | Some f \<Rightarrow> ft_subscriberSlots (lg_flights l f))"

lemma mcount_sum:
  assumes "finite A" "set_mset K \<subseteq> A"
  shows "mcount P K = (\<Sum>k \<in> {k \<in> A. P k}. int (count K k))"
proof -
  have "size (filter_mset P K) = (\<Sum>k \<in> set_mset (filter_mset P K). count (filter_mset P K) k)"
    by (rule size_multiset_overloaded_eq)
  also have "\<dots> = (\<Sum>k \<in> {k \<in> A. P k}. count K k)"
    by (rule sum.mono_neutral_cong_left) (use assms in \<open>auto simp: not_in_iff\<close>)
  finally show ?thesis by (simp add: mcount_def)
qed

lemma callbacks_count:
  assumes shape: "ledger_shape l" and acc: "ledger_accounts l R K"
  shows "callbacks_kept l k = int (count K k)"
    and "mcount P K = (\<Sum>k \<in> {k \<in> claims l. P k}. callbacks_kept l k)"
proof -
  have kept: "callbacks_kept l k = int (count K k)" for k
    using acc ledger_shape_pending [OF shape, of k]
    by (auto simp: callbacks_kept_def ledger_accounts_def owed_slots_def flight_live_def split: option.split)
  then show "callbacks_kept l k = int (count K k)" .
  have "finite (claims l)"
    by (rule finite_subset [OF _ entries_count(2) [OF shape acc]]) (auto simp: claims_def entries_def)
  moreover have "set_mset K \<subseteq> claims l"
  proof
    fix k assume "k \<in># K"
    then have "count K k \<noteq> 0" by simp
    moreover have "count K k = owed_slots l k" using acc by (simp add: ledger_accounts_def)
    ultimately have "owed_slots l k \<noteq> 0" by simp
    then show "k \<in> claims l" by (auto simp: owed_slots_def claims_def split: option.splits)
  qed
  ultimately show "mcount P K = (\<Sum>k \<in> {k \<in> claims l. P k}. callbacks_kept l k)"
    by (simp add: mcount_sum kept)
qed

subsection \<open>Callbacks\<close>

text \<open>Callbacks by identity: \<open>Inl\<close> of a result callback, \<open>Inr\<close> of an execution callback.\<close>

definition flight_callbacks :: "flight \<Rightarrow> (nat + nat) multiset" where
  "flight_callbacks x = image_mset Inl (mset (ft_subscribers x)) + image_mset Inr (mset (ft_executionSubscribers x))"

definition retained :: "ledger \<Rightarrow> (nat + nat) multiset" where
  "retained l = (\<Sum>f < lg_nextFlight l. flight_callbacks (lg_flights l f))"

fun callback_ids :: "callback list \<Rightarrow> (nat + nat) multiset" where
  "callback_ids [] = {#}"
| "callback_ids (ResultCallback c _ _ # cs) = add_mset (Inl c) (callback_ids cs)"
| "callback_ids (ExecutionCallback c _ # cs) = add_mset (Inr c) (callback_ids cs)"
| "callback_ids (AbortCallback _ # cs) = callback_ids cs"

definition called :: "ledger_answer \<Rightarrow> (nat + nat) multiset" where
  "called a = (case a of Called cbs \<Rightarrow> callback_ids cbs | Subscribed e cbs \<Rightarrow> callback_ids cbs | _ \<Rightarrow> {#})"

definition accepted :: "ledger_op \<Rightarrow> ledger_answer \<Rightarrow> (nat + nat) multiset" where
  "accepted op a = (case (op, a) of
      (OpSubscribe tr w rfn efn, Subscribed None cbs) \<Rightarrow>
         (case rfn of None \<Rightarrow> {#} | Some c \<Rightarrow> {#Inl c#}) + (case efn of None \<Rightarrow> {#} | Some c \<Rightarrow> {#Inr c#})
    | _ \<Rightarrow> {#})"

lemma callback_ids_append [simp]: "callback_ids (xs @ ys) = callback_ids xs + callback_ids ys"
  by (induction xs rule: callback_ids.induct) auto

lemma callback_ids_map [simp]:
  "callback_ids (map (\<lambda>s. ResultCallback s e ok) cs) = image_mset Inl (mset cs)"
  "callback_ids (map (\<lambda>s. ExecutionCallback s ok) cs) = image_mset Inr (mset cs)"
  by (induction cs) auto

lemma retained_update:
  fixes f n :: nat
  assumes "f < n"
  shows "(\<Sum>g < n. flight_callbacks ((F(f := x)) g)) + flight_callbacks (F f) = (\<Sum>g < n. flight_callbacks (F g)) + flight_callbacks x"
proof -
  have "(\<Sum>g < n. flight_callbacks ((F(f := x)) g)) = flight_callbacks x + (\<Sum>g \<in> {..<n} - {f}. flight_callbacks ((F(f := x)) g))"
    using assms by (subst sum.remove [of _ f]) auto
  also have "(\<Sum>g \<in> {..<n} - {f}. flight_callbacks ((F(f := x)) g)) = (\<Sum>g \<in> {..<n} - {f}. flight_callbacks (F g))"
    by (rule sum.cong) auto
  moreover have "(\<Sum>g < n. flight_callbacks (F g)) = flight_callbacks (F f) + (\<Sum>g \<in> {..<n} - {f}. flight_callbacks (F g))"
    using assms by (subst sum.remove [of _ f]) auto
  ultimately show ?thesis by (simp add: ac_simps)
qed

lemma retained_upd:
  assumes "f < lg_nextFlight l" "lg_nextFlight l' = lg_nextFlight l" "lg_flights l' = (lg_flights l)(f := x)"
  shows "retained l' + flight_callbacks (lg_flights l f) = retained l + flight_callbacks x"
  using retained_update [OF assms(1), of "lg_flights l" x] by (simp add: retained_def assms)

lemma retained_same:
  "lg_nextFlight l' = lg_nextFlight l \<Longrightarrow> lg_flights l' = lg_flights l \<Longrightarrow> retained l' = retained l"
  by (simp add: retained_def)

lemma finished_lists [simp]:
  "ft_subscribers (finished_flight x enc) = []" "ft_executionSubscribers (finished_flight x enc) = []"
  "ft_subscribers (executed x success) = ft_subscribers x" "ft_executionSubscribers (executed x success) = []"
  by (simp_all add: finished_flight_def executed_def)

lemma flight_callbacks_simps [simp]:
  "flight_callbacks (finished_flight x enc) = {#}"
  "flight_callbacks (fresh_flight k identity s) = {#}"
  "flight_callbacks (acked x) = flight_callbacks x"
  "flight_callbacks (executed x success) = image_mset Inl (mset (ft_subscribers x))"
  by (simp_all add: flight_callbacks_def finished_flight_def fresh_flight_def idle_flight_def acked_def executed_def)

lemma with_callbacks_same:
  assumes "x = with_callbacks x rfn efn"
  shows "rfn = None \<and> (efn = None \<or> ft_executionDone x)"
proof -
  have "length (ft_subscribers x) = length (ft_subscribers (with_callbacks x rfn efn))"
    "length (ft_executionSubscribers x) = length (ft_executionSubscribers (with_callbacks x rfn efn))"
    using arg_cong [OF assms, of "\<lambda>x. length (ft_subscribers x)"]
      arg_cong [OF assms, of "\<lambda>x. length (ft_executionSubscribers x)"] by simp_all
  then show ?thesis unfolding with_callbacks_def by (simp split: option.splits if_splits)
qed

lemma late_subscription:
  assumes "subscribe tr l w rfn efn = (l, None, cbs)" "ledger_inv l"
  shows "callback_ids cbs = (case rfn of None \<Rightarrow> {#} | Some c \<Rightarrow> {#Inl c#}) + (case efn of None \<Rightarrow> {#} | Some c \<Rightarrow> {#Inr c#}) \<or>
     retained l + ((case rfn of None \<Rightarrow> {#} | Some c \<Rightarrow> {#Inl c#}) + (case efn of None \<Rightarrow> {#} | Some c \<Rightarrow> {#Inr c#})) = retained l + callback_ids cbs"
proof (cases "pendings l (wt_key w) = Some (wt_flight w)")
  case False
  then show ?thesis
    using assms(1) by (auto simp: subscribe_def Let_def pendings_def split: if_splits option.splits)
next
  case True
  let ?x = "lg_flights l (wt_flight w)"
  have nn: "\<not> (rfn = None \<and> efn = None)"
  proof
    assume "rfn = None \<and> efn = None"
    then show False using assms(1) by (simp add: subscribe_def)
  qed
  from subscribe_pending [OF assms(2) True nn, of tr, unfolded Let_def] assms(1) obtain sb where
    s: "l = touched l (wt_flight w) (with_callbacks ?x rfn efn) sb" "cbs = execution_now ?x efn" by auto
  from s(1) have "lg_flights l (wt_flight w) = lg_flights (touched l (wt_flight w) (with_callbacks ?x rfn efn) sb) (wt_flight w)"
    by (rule arg_cong)
  then have "?x = with_callbacks ?x rfn efn" by simp
  then have "rfn = None \<and> (efn = None \<or> ft_executionDone ?x)" by (rule with_callbacks_same)
  with nn s(2) show ?thesis by (auto simp: execution_now_def)
qed

lemma conservation_step:
  assumes inv: "ledger_inv l" and st: "step_kind l op l' a"
  shows "retained l + accepted op a = retained l' + called a"
  using st inv
proof (induction rule: step_kind.induct)
  case (kind_reclaim op l l' a)
  then show ?case
    using retained_same [OF reclaim_frame(7,6) [OF kind_reclaim(1)]]
    by (auto simp: called_def accepted_def split: ledger_op.split)
next
  case (kind_acquire l k tr replay identity l' r)
  have "retained l' = retained l"
    using kind_acquire(3)
    by (auto simp: acquire_outcome_def same_claims_def retained_def lessThan_Suc split: option.splits intro: sum.cong)
  then show ?case by (simp add: called_def accepted_def turn_answer_def split: option.split)
next
  case (kind_complete l now k enc ra l' cbs tr)
  have "retained l = retained l' + callback_ids cbs"
  proof (cases "receipts l k = None \<and> pendings l k \<noteq> None")
    case True
    then obtain f where f: "receipts l k = None" "pendings l k = Some f" by auto
    have "f < lg_nextFlight l" using ledger_shape_pending [OF _ f(2)] kind_complete(1) by (simp add: ledger_inv_def)
    from retained_upd [OF this, of l' "finished_flight (lg_flights l f) (Some enc)"] kind_complete(2) f
    show ?thesis by (simp add: complete_outcome_def completion_callbacks_def flight_callbacks_def)
  next
    case False
    then show ?thesis using kind_complete(2)
      by (auto simp: complete_outcome_def retained_def split: option.splits)
  qed
  then show ?case by (simp add: called_def accepted_def)
next
  case (kind_abort l ls l' b g sb)
  have "ls_flight ls < lg_nextFlight l" using ledger_shape_pending [OF _ kind_abort(2)] kind_abort(1) by (simp add: ledger_inv_def)
  from retained_upd [OF this, of l' "finished_flight (lg_flights l (ls_flight ls)) None"] kind_abort(3)
  show ?case by (simp add: called_def accepted_def flight_callbacks_def split: option.split)
next
  case (kind_executed l ls l' success sb)
  have "ls_flight ls < lg_nextFlight l" using ledger_shape_pending [OF _ kind_executed(2)] kind_executed(1) by (simp add: ledger_inv_def)
  from retained_upd [OF this, of l' "executed (lg_flights l (ls_flight ls)) success"] kind_executed(3)
  show ?case by (simp add: called_def accepted_def flight_callbacks_def ac_simps)
next
  case (kind_subscribed l w l' rfn efn sb tr)
  have "wt_flight w < lg_nextFlight l" using ledger_shape_pending [OF _ kind_subscribed(2)] kind_subscribed(1) by (simp add: ledger_inv_def)
  from retained_upd [OF this, of l' "with_callbacks (lg_flights l (wt_flight w)) rfn efn"] kind_subscribed(3)
  show ?case
    by (auto simp: called_def accepted_def flight_callbacks_def with_callbacks_def execution_now_def split: option.splits if_splits)
next
  case (kind_unsubscribed tr l w rfn efn e cbs)
  show ?case
  proof (cases e)
    case None
    with kind_unsubscribed late_subscription [of tr l w rfn efn cbs] show ?thesis by (auto simp: called_def accepted_def)
  next
    case (Some err)
    with kind_unsubscribed have "cbs = []"
      by (auto simp: subscribe_def Let_def split: if_splits option.splits)
    with Some show ?thesis by (simp add: called_def accepted_def)
  qed
next
  case (kind_acknowledged now l l1 l' k)
  have "retained l1 = retained l" using retained_same [OF reclaim_frame(7,6) [OF kind_acknowledged(1)]] .
  moreover have "retained l' = retained l1"
  proof (cases "receipts l1 k = None \<and> pendings l1 k \<noteq> None")
    case True
    then obtain f where f: "receipts l1 k = None" "pendings l1 k = Some f" by auto
    have "f < lg_nextFlight l1" using ledger_shape_pending [OF _ f(2)] kind_acknowledged(2) by (simp add: ledger_inv_def)
    from retained_upd [OF this, of l' "acked (lg_flights l1 f)"] kind_acknowledged f show ?thesis by simp
  next
    case False
    then show ?thesis using kind_acknowledged by (intro retained_same) (auto split: option.splits)
  qed
  ultimately show ?case by (simp add: called_def accepted_def)
qed (auto simp: called_def accepted_def)

subsection \<open>Flights that have ended\<close>

text \<open>A flight that no key points to any more is done, keeps no callback, and is never changed again.\<close>

definition ended :: "ledger \<Rightarrow> nat \<Rightarrow> bool" where
  "ended l f \<longleftrightarrow> f < lg_nextFlight l \<and> (\<forall>k. pendings l k \<noteq> Some f)"

definition settled :: "ledger \<Rightarrow> bool" where
  "settled l \<longleftrightarrow> (\<forall>f. ended l f \<longrightarrow> ft_done (lg_flights l f) \<and> flight_callbacks (lg_flights l f) = {#})"

lemma done_ended:
  "ledger_inv l \<Longrightarrow> f < lg_nextFlight l \<Longrightarrow> ft_done (lg_flights l f) \<Longrightarrow> ended l f"
  using ledger_shape_pending [of l] by (auto simp: ended_def ledger_inv_def flight_live_def)

lemma finished_done [simp]: "ft_done (finished_flight x enc)"
  by (simp add: finished_flight_def)

lemma ended_reclaim: "reclaim P l l' \<Longrightarrow> ended l' f \<longleftrightarrow> ended l f"
  by (simp add: ended_def reclaim_frame)

lemma ended_install:
  assumes "pendings l k = None" "pendings l' = (pendings l)(k \<mapsto> lg_nextFlight l)" "lg_nextFlight l' = lg_nextFlight l + 1"
  shows "ended l' f \<longleftrightarrow> ended l f"
proof
  assume e: "ended l' f"
  then have "pendings l' k \<noteq> Some f" by (simp add: ended_def)
  then have "f < lg_nextFlight l" using e assms(2,3) by (simp add: ended_def)
  moreover have "pendings l k' \<noteq> Some f" for k'
  proof -
    have "pendings l' k' \<noteq> Some f" using e by (simp add: ended_def)
    then show ?thesis using assms(1,2) by (cases "k' = k") auto
  qed
  ultimately show "ended l f" by (simp add: ended_def)
next
  assume e: "ended l f"
  then show "ended l' f" using assms(2,3) by (auto simp: ended_def)
qed

lemma pointed_clear:
  assumes "p k = Some g" "f \<noteq> g"
  shows "(\<forall>k'. (p(k := None)) k' \<noteq> Some f) \<longleftrightarrow> (\<forall>k'. p k' \<noteq> Some f)"
  using assms by (metis fun_upd_apply option.inject option.distinct(1))

lemma ended_step:
  assumes inv: "ledger_inv l" and st: "step_kind l op l' a"
  shows "(ended l f \<longrightarrow> ended l' f \<and> lg_flights l' f = lg_flights l f) \<and>
     (ended l' f \<longrightarrow> ended l f \<or> ft_done (lg_flights l' f) \<and> flight_callbacks (lg_flights l' f) = {#})"
  using st inv
proof (induction rule: step_kind.induct)
  case (kind_reclaim op l l' a)
  then show ?case by (simp add: ended_reclaim reclaim_frame)
next
  case (kind_acquire l k tr replay identity l' r)
  have "pendings l' = pendings l \<and> lg_flights l' = lg_flights l \<and> lg_nextFlight l' = lg_nextFlight l \<or>
      pendings l k = None \<and> pendings l' = (pendings l)(k \<mapsto> lg_nextFlight l) \<and> lg_nextFlight l' = lg_nextFlight l + 1 \<and>
      (\<exists>x. lg_flights l' = (lg_flights l)(lg_nextFlight l := x))"
    using kind_acquire(3) by (auto simp: acquire_outcome_def same_claims_def split: option.splits)
  then show ?case
  proof (elim disjE conjE exE)
    assume "pendings l k = None" "pendings l' = (pendings l)(k \<mapsto> lg_nextFlight l)" "lg_nextFlight l' = lg_nextFlight l + 1"
    from ended_install [OF this, of f] show ?thesis if "lg_flights l' = (lg_flights l)(lg_nextFlight l := x)" for x
      using that by (auto simp: ended_def)
  qed (simp add: ended_def)
next
  case (kind_complete l now k enc ra l' cbs tr)
  show ?case
  proof (cases "receipts l k = None \<and> pendings l k \<noteq> None")
    case True
    then obtain g where g: "receipts l k = None" "pendings l k = Some g" by auto
    then have l': "pendings l' = (pendings l)(k := None)" "lg_nextFlight l' = lg_nextFlight l"
      "lg_flights l' = (lg_flights l)(g := finished_flight (lg_flights l g) (Some enc))"
      using kind_complete(2) by (simp_all add: complete_outcome_def)
    show ?thesis
    proof (cases "f = g")
      case True
      then show ?thesis using g(2) by (auto simp: ended_def l')
    next
      case False
      have "(\<forall>k'. pendings l' k' \<noteq> Some f) \<longleftrightarrow> (\<forall>k'. pendings l k' \<noteq> Some f)"
        unfolding l' using pointed_clear [of "pendings l" k g f] g(2) False by blast
      with False show ?thesis by (simp add: ended_def l')
    qed
  next
    case False
    then show ?thesis using kind_complete(2)
      by (auto simp: complete_outcome_def ended_def split: option.splits)
  qed
next
  case (kind_abort l ls l' b g sb)
  have l': "lg_nextFlight l' = lg_nextFlight l"
      "lg_flights l' = (lg_flights l)(ls_flight ls := finished_flight (lg_flights l (ls_flight ls)) None)"
    by (simp_all add: kind_abort(3))
  show ?case
  proof (cases "f = ls_flight ls")
    case True
    then show ?thesis using kind_abort(2) by (auto simp: ended_def l')
  next
    case False
    have "(\<forall>k'. pendings l' k' \<noteq> Some f) \<longleftrightarrow> (\<forall>k'. pendings l k' \<noteq> Some f)"
      unfolding kind_abort(4) using pointed_clear [of "pendings l" "ls_key ls" "ls_flight ls" f] kind_abort(2) False by blast
    with False show ?thesis by (simp add: ended_def l')
  qed
next
  case (kind_acknowledged now l l1 l' k)
  note e = ended_reclaim [OF kind_acknowledged(1), of f] and fr = reclaim_frame(6) [OF kind_acknowledged(1)]
  have "ended l' f = ended l1 f" using kind_acknowledged by (simp add: ended_def)
  moreover have "ended l1 f \<Longrightarrow> lg_flights l' f = lg_flights l1 f"
    using kind_acknowledged(5) by (auto simp: ended_def split: option.splits)
  ultimately show ?case using e fr by simp
qed (auto simp: ended_def)

lemma settled_step: "ledger_inv l \<Longrightarrow> settled l \<Longrightarrow> step_kind l op l' a \<Longrightarrow> settled l'"
  unfolding settled_def using ended_step by metis

lemma settled_new: "settled (newRPCExecutionLedger hash c)"
  by (simp add: settled_def ended_def newRPCExecutionLedger_def Let_def)

lemma retained_none:
  assumes "settled l" "\<forall>k. pendings l k = None"
  shows "retained l = {#}"
  using assms by (simp add: retained_def settled_def ended_def)

lemma run_facts:
  "ledger_inv l \<Longrightarrow> settled l \<Longrightarrow> ledger_run ops l = Some (l', as) \<Longrightarrow>
     settled l' \<and> length as = length ops \<and>
     retained l + (\<Sum>(op, a) \<leftarrow> zip ops as. accepted op a) = retained l' + (\<Sum>a \<leftarrow> as. called a) \<and>
     (\<forall>f. ended l f \<longrightarrow> ended l' f \<and> lg_flights l' f = lg_flights l f)"
proof (induction ops arbitrary: l as)
  case Nil
  then show ?case by simp
next
  case (Cons op ops)
  then obtain l1 a as' where s: "ledger_apply op l = Some (l1, a)" "ledger_run ops l1 = Some (l', as')" "as = a # as'"
    by (auto simp: bind_eq_Some_conv)
  from ledger_apply_inv [OF Cons.prems(1) s(1)] have inv1: "ledger_inv l1" and st: "step_kind l op l1 a" by auto
  note ih = Cons.IH [OF inv1 settled_step [OF Cons.prems(1,2) st] s(2)]
  note c = conservation_step [OF Cons.prems(1) st]
  have "retained l + (accepted op a + (\<Sum>(op, a) \<leftarrow> zip ops as'. accepted op a)) =
      (retained l + accepted op a) + (\<Sum>(op, a) \<leftarrow> zip ops as'. accepted op a)" by (simp add: ac_simps)
  also have "\<dots> = (retained l1 + (\<Sum>(op, a) \<leftarrow> zip ops as'. accepted op a)) + called a" unfolding c by (simp add: ac_simps)
  also have "\<dots> = retained l' + (called a + (\<Sum>a \<leftarrow> as'. called a))" using ih by (simp add: ac_simps)
  finally show ?case using ih ended_step [OF Cons.prems(1) st] s(3) by simp
qed

end
