(* ===== verification/Rpc_Ledger_Theorems.thy ===== *)
theory Rpc_Ledger_Theorems
  imports Rpc_Ledger_Properties
begin

text \<open>
  The properties of the RPC execution ledger, each with a concrete instance where it has
  hypotheses. The instances run on a small ledger whose sixteen shards all hash to shard 0.
\<close>

subsection \<open>A small ledger\<close>

definition demo_capacity :: ledger_capacity where
  "demo_capacity = \<lparr>lc_maxPending = 2, lc_maxPendingPerAuth = 2, lc_globalMaxEntries = 2, lc_authMaxEntries = 2,
     lc_sessionMaxEntries = 2, lc_subscriberMaxGlobal = 4, lc_subscriberMaxAuth = 4, lc_subscriberMaxSession = 4,
     lc_subscriberMaxPerFlight = 4\<rparr>"

definition demo_ledger :: ledger where
  "demo_ledger = newRPCExecutionLedger (\<lambda>_. 0) demo_capacity"

definition demo_key :: "int \<Rightarrow> rpc_key" where
  "demo_key m = \<lparr>key_auth = 7, key_session = 1, key_msg = m\<rparr>"

definition demo_identity :: request_identity where
  "demo_identity = \<lparr>ri_exact = 5, ri_profile = 9, ri_valid = True\<rparr>"

definition demo_after :: "ledger_op list \<Rightarrow> ledger" where
  "demo_after ops = fst (the (ledger_run ops demo_ledger))"

definition demo_answers :: "ledger_op list \<Rightarrow> ledger_answer list" where
  "demo_answers ops = snd (the (ledger_run ops demo_ledger))"

lemma demo_run: "ledger_run ops demo_ledger = Some (demo_after ops, demo_answers ops)"
  using ledger_run_ok [OF new_ledger_inv, of ops "\<lambda>_. 0" demo_capacity]
  by (auto simp: demo_ledger_def demo_after_def demo_answers_def)

lemma demo_reachable: "reachable_ledger (demo_after ops)"
  using demo_run [of ops] unfolding reachable_ledger_def demo_ledger_def by blast

definition own :: "int \<Rightarrow> ledger_op" where
  "own m = OpAcquire quiet (\<lambda>_. None) (demo_key m) demo_identity"

lemmas ledger_eval = demo_ledger_def demo_capacity_def demo_identity_def demo_key_def newRPCExecutionLedger_def default_if_def
  acquire_locked_def turn_answer_def expireLocked_def shard_receipt_def quiet_def flight_reserve_among_def crowded_limit_def
  crowded_budget_def budget_reserve_among_def crowded_subscribers_def subscriber_reserve_among_def shard_flight_def removeElement_def unlinkElement_def
  set_order_def decrementReceiptCount_def incrementReceiptCount_def release_reservation_def budget_release_def
  rpcExecutionReceiptTTL_def shardIndex_def rpcExecutionLedgerShards_def flight_reserve_def
  flight_reserveN_def reserveOwner_def budget_reserve_def newRPCExecutionFairBudget_def usage_at_def store_usage_def
  no_usage_def withinRPCExecutionBudget_def session_key_def allocateAndRegister_def maxUint64_def install_owner_def
  set_flight_def set_pending_def identity_matches_def own_def newRPCResultSubscriberBudget_def complete_locked_def
  complete_flight_def push_receipt_def releasePending_def flight_limit_release_def flight_release_def flight_releaseN_def
  retire_admission_def retire_def releaseFlightSubscriberSlots_def subscribe_def subscriber_reserve_def subscriber_release_def
  slots_at_def Acknowledge_def Abort_def still_owner_def CompleteExecution_def Let_def idle_flight_def reserveCompleted_def
  demo_after_def demo_answers_def receipts_def pendings_def fresh_lease_def

lemma demo_apply:
  assumes "demo_answers (ops @ [op]) = as @ [a]" "length as = length ops"
  shows "ledger_apply op (demo_after ops) = Some (demo_after (ops @ [op]), a)"
proof -
  have split: "ledger_run (ops @ [op]) l =
      do { (l1, as) \<leftarrow> ledger_run ops l; (l2, a) \<leftarrow> ledger_apply op l1; Some (l2, as @ [a]) }" for l
    by (induction ops arbitrary: l) (auto split: bind_splits)
  obtain l' b where b: "ledger_apply op (demo_after ops) = Some (l', b)"
    using ledger_apply_kind [OF reachable_inv [OF demo_reachable]] by blast
  have "Some (demo_after (ops @ [op]), demo_answers (ops @ [op])) = Some (l', demo_answers ops @ [b])"
    using split [of demo_ledger] demo_run [of "ops @ [op]"] demo_run [of ops] b by simp
  with assms b show ?thesis by simp
qed

subsection \<open>Properties\<close>

text \<open>
  C2. No execution of the ledger panics: starting from any capacity and any hash, any sequence of
  its operations runs to the end, whatever the clock readings, leases, waiters and replay answers.
\<close>

theorem ledger_never_panics:
  "\<exists>l as. ledger_run ops (newRPCExecutionLedger hash c) = Some (l, as) \<and> length as = length ops"
  using ledger_run_ok [OF new_ledger_inv, of ops hash c] run_facts [OF new_ledger_inv settled_new, of ops hash c] by fastforce

text \<open>
  C1. A request is executed once. After a claim is granted, no later acquisition of the same key
  is granted, in any execution in which the claim is not aborted, its request not acknowledged and
  its session not destroyed, up to a time \<open>T\<close> that is at most 331 seconds after the completion.
\<close>

theorem single_execution:
  assumes "reachable_ledger l"
    and "ledger_apply (OpAcquire tr replay k identity) l = Some (l1, Acquired (Inr (AcquireOwner s ls)))"
    and "ledger_run ops l1 = Some (l2, as)"
    and "\<forall>op \<in> set ops. keeps k (ls_flight ls) T op"
  shows "\<forall>(op, a) \<in> set (zip ops as). \<not> owner_answer op a k"
proof -
  have inv: "ledger_inv l" using assms(1) by (rule reachable_inv)
  have inv1: "ledger_inv l1" using ledger_apply_inv [OF inv assms(2)] by blast
  have "held l1 k (ls_flight ls) T"
    using acquire_owner [OF inv assms(2)] by (auto simp: held_def fresh_lease_def fresh_flight_def idle_flight_def)
  with held_run [OF inv1 _ assms(3,4)] show ?thesis by blast
qed

definition demo_replay :: "ledger_op list" where
  "demo_replay = [own 3, OpComplete quiet 400 (demo_key 3) 77 True, OpExpire 730 0,
     OpAcquire quiet (\<lambda>_. Some 77) (demo_key 3) demo_identity]"

lemma single_execution_witness:
  "list_all (\<lambda>(op, a). \<not> owner_answer op a (demo_key 3))
     (zip demo_replay (snd (the (ledger_run demo_replay (demo_after [own 3])))))"
  unfolding list_all_iff
proof (rule single_execution)
  show "reachable_ledger (demo_after [])" by (rule demo_reachable)
  show "ledger_apply (OpAcquire quiet (\<lambda>_. None) (demo_key 3) demo_identity) (demo_after []) =
      Some (demo_after [own 3], Acquired (Inr (AcquireOwner 1 (fresh_lease (demo_key 3) 0))))"
    using demo_apply [of "[]" "own 3" "[]"] by (simp add: own_def) (simp add: ledger_eval cong: bind_weak_cong)
  from ledger_run_ok [OF reachable_inv [OF demo_reachable], of demo_replay "[own 3]"]
  show "ledger_run demo_replay (demo_after [own 3]) =
      Some (fst (the (ledger_run demo_replay (demo_after [own 3]))), snd (the (ledger_run demo_replay (demo_after [own 3]))))"
    by auto
  show "\<forall>op \<in> set demo_replay. keeps (demo_key 3) (ls_flight (fresh_lease (demo_key 3) 0)) (400 + rpcExecutionReceiptTTL) op"
    by (simp add: demo_replay_def keeps_def own_def aborts_def acknowledges_def forgets_def op_clock_def completes_def
        rpcExecutionReceiptTTL_def)
qed

text \<open>
  C3. Every accepted callback is called exactly once: at any point of any execution the callbacks
  accepted so far are those called plus those kept by claims in flight (as multisets, so none is
  called twice), and once no claim is in flight none is kept.
\<close>

theorem callbacks_called_once:
  assumes "ledger_run ops (newRPCExecutionLedger hash c) = Some (l, as)"
  shows "(\<Sum>(op, a) \<leftarrow> zip ops as. accepted op a) = retained l + (\<Sum>a \<leftarrow> as. called a) \<and>
     ((\<forall>k. pendings l k = None) \<longrightarrow> retained l = {#})"
proof -
  have "retained (newRPCExecutionLedger hash c) = {#}" by (simp add: retained_def newRPCExecutionLedger_def Let_def)
  with run_facts [OF new_ledger_inv settled_new assms] retained_none [of l] show ?thesis by simp
qed

definition demo_callbacks :: "ledger_op list" where
  "demo_callbacks = [own 3, OpSubscribe quiet \<lparr>wt_key = demo_key 3, wt_flight = 0\<rparr> (Some 11) (Some 12),
     OpCompleteExecution (fresh_lease (demo_key 3) 0) True, OpComplete quiet 102 (demo_key 3) 77 True]"

lemma callbacks_called_once_witness:
  "(\<Sum>a \<leftarrow> demo_answers demo_callbacks. called a) = {#Inl 11, Inr 12#} \<and>
   (\<Sum>(op, a) \<leftarrow> zip demo_callbacks (demo_answers demo_callbacks). accepted op a) = {#Inl 11, Inr 12#} \<and>
   retained (demo_after demo_callbacks) = {#}"
proof -
  have a: "demo_answers demo_callbacks = [Acquired (Inr (AcquireOwner 1 (fresh_lease (demo_key 3) 0))), Subscribed None [],
      Called [ExecutionCallback 12 True], Called [ResultCallback 11 (Some 77) True]]"
    by (simp add: demo_callbacks_def ledger_eval cong: bind_weak_cong)
  note callbacks_called_once [of demo_callbacks "\<lambda>_. 0" demo_capacity, folded demo_ledger_def, OF demo_run]
  moreover have "(\<Sum>a \<leftarrow> demo_answers demo_callbacks. called a) = {#Inl 11, Inr 12#}"
    "(\<Sum>(op, a) \<leftarrow> zip demo_callbacks (demo_answers demo_callbacks). accepted op a) = {#Inl 11, Inr 12#}"
    by (simp_all add: a called_def) (simp add: demo_callbacks_def accepted_def own_def)
  ultimately show ?thesis by simp
qed

text \<open>
  What a turn of an acquisition answers, on every branch: a retained receipt answers with its
  terminal state, a claim in flight is joined, a different body under the same message id is
  refused with the winner's profile, and an idle key gets the unique owner or is refused.
\<close>

theorem acquire_answers:
  assumes "reachable_ledger l"
  shows "\<exists>l' r. acquire_locked tr l replay k identity = Some (l', r) \<and> acquire_outcome tr replay k identity l l' r"
  using acquire_locked_ok [OF reachable_inv [OF assms(1)], of tr replay k identity] by blast

lemma acquire_answers_witness:
  "\<exists>l' r. acquire_locked quiet (demo_after [own 3]) (\<lambda>_. None) (demo_key 3) demo_identity = Some (l', r) \<and>
     acquire_outcome quiet (\<lambda>_. None) (demo_key 3) demo_identity (demo_after [own 3]) l' r"
  by (rule acquire_answers [OF demo_reachable])

text \<open>Every call returns, whatever other goroutines do between its sections.\<close>

lemma by_others_total:
  assumes "by_others f" "ledger_inv l"
  shows "\<exists>l'. f l = Some l' \<and> ledger_inv l'"
proof -
  obtain ops where ops: "f l = map_option fst (ledger_run ops l)" using assms(1) unfolding by_others_def by blast
  from ledger_run_ok [OF assms(2), of ops] obtain l' as where "ledger_run ops l = Some (l', as)" "ledger_inv l'" by blast
  with ops show ?thesis by simp
qed

lemma enter_shard_total:
  assumes "turn_by_others tn" "ledger_inv l"
  shows "\<exists>l'. enter_shard tn l k = Some l' \<and> ledger_inv l'"
proof -
  obtain l1 where l1: "tn_before tn l = Some l1" "ledger_inv l1"
    using by_others_total assms unfolding turn_by_others_def by blast
  from expireLocked_ok [OF l1(2)] obtain l2 where l2: "expireLocked l1 (shardIndex l1 k) (tn_now tn) = Some l2" "ledger_inv l2" by blast
  obtain l3 where "tn_during tn l2 = Some l3" "ledger_inv l3"
    using by_others_total [OF _ l2(2)] assms(1) unfolding turn_by_others_def by blast
  with l1 l2 show ?thesis by (simp add: enter_shard_def)
qed

lemma expire_shards_total:
  "(\<forall>i. by_others (rp_between rp i)) \<Longrightarrow> ledger_inv l \<Longrightarrow> \<exists>l'. expire_shards rp l is = Some l' \<and> ledger_inv l'"
proof (induction "is" arbitrary: l)
  case (Cons i "is")
  obtain l1 where l1: "rp_between rp i l = Some l1" "ledger_inv l1" using by_others_total Cons.prems by blast
  from expireLocked_ok [OF l1(2)] obtain l2 where l2: "expireLocked l1 i (rp_clock rp i) = Some l2" "ledger_inv l2" by blast
  from Cons.IH [OF Cons.prems(1) l2(2)] l1 l2 show ?case by auto
qed simp

lemma acquire_returns:
  assumes inv: "ledger_inv l" and "turn_by_others first" "\<forall>i. by_others (rp_between rp i)" "turn_by_others second"
  shows "\<exists>l' r. acquire first rp second l replay k identity = Some (l', r) \<and> ledger_inv l'"
proof (cases "key_msg k = 0")
  case True
  then show ?thesis using inv by (simp add: acquire_def)
next
  case False
  have turn: "\<exists>l' r. acquire_turn tn m replay k identity = Some (l', r) \<and> ledger_inv l'" if "turn_by_others tn" "ledger_inv m" for tn m
  proof -
    from enter_shard_total [OF that] obtain l1 where "enter_shard tn m k = Some l1" "ledger_inv l1" by blast
    with acquire_locked_ok [OF this(2), of "tn_transit tn" replay k identity] show ?thesis by (auto simp: acquire_turn_def)
  qed
  from turn [OF assms(2) inv] obtain l1 r where l1: "acquire_turn first l replay k identity = Some (l1, r)" "ledger_inv l1" by blast
  from expire_shards_total [OF assms(3) l1(2)] obtain l2 where l2: "expireReceipts rp l1 = Some l2" "ledger_inv l2"
    unfolding expireReceipts_def by blast
  from turn [OF assms(4) l2(2)] obtain l3 r' where "acquire_turn second l2 replay k identity = Some (l3, r')" "ledger_inv l3" by blast
  with l1 l2 False show ?thesis by (cases r) (auto simp: acquire_def)
qed

lemma Complete_returns:
  assumes inv: "ledger_inv l" and "turn_by_others first" "\<forall>i. by_others (rp_between rp i)" "turn_by_others second"
  shows "\<exists>l' cbs. Complete first rp second l replay k enc replayable = Some (l', cbs) \<and> ledger_inv l'"
proof (cases "key_msg k = 0")
  case True
  then show ?thesis using inv by (simp add: Complete_def)
next
  case False
  define ra where "ra = (replayable \<and> replay k \<noteq> None)"
  have turn: "\<exists>l' fin cbs. completeOnce tn m k enc ra = Some (l', fin, cbs) \<and> ledger_inv l'" if "turn_by_others tn" "ledger_inv m" for tn m
  proof -
    from enter_shard_total [OF that] obtain l1 where "enter_shard tn m k = Some l1" "ledger_inv l1" by blast
    with complete_locked_ok [OF this(2), of "tn_transit tn" "tn_now tn" k enc ra] show ?thesis by (auto simp: completeOnce_def)
  qed
  from turn [OF assms(2) inv] obtain l1 fin cbs where l1: "completeOnce first l k enc ra = Some (l1, fin, cbs)" "ledger_inv l1" by blast
  from expire_shards_total [OF assms(3) l1(2)] obtain l2 where l2: "expireReceipts rp l1 = Some l2" "ledger_inv l2"
    unfolding expireReceipts_def by blast
  from turn [OF assms(4) l2(2)] obtain l3 fin' cbs' where "completeOnce second l2 k enc ra = Some (l3, fin', cbs')" "ledger_inv l3" by blast
  with l1 l2 False show ?thesis
    unfolding Complete_def Let_def ra_def [symmetric] by (cases fin) auto
qed

text \<open>
  C6. A waiter of an issued claim is woken exactly when the claim has ended, and the answer it
  gets never changes afterwards, not even under a cancelled context.
\<close>

theorem wait_answers_when_ended:
  assumes "reachable_ledger l" "wt_flight w < lg_nextFlight l" "ledger_run ops l = Some (l', as)"
  shows "(Wait l w (None :: nat option) \<noteq> None \<longleftrightarrow> (\<forall>k. pendings l k \<noteq> Some (wt_flight w))) \<and>
     (\<forall>r. Wait l w (None :: nat option) = Some r \<longrightarrow> (\<forall>ctx. Wait l' w ctx = Some r))"
proof -
  obtain hash c ops0 as0 where run: "ledger_run ops0 (newRPCExecutionLedger hash c) = Some (l, as0)"
    using assms(1) unfolding reachable_ledger_def by blast
  have inv: "ledger_inv l" using assms(1) by (rule reachable_inv)
  have set: "settled l" using run_facts [OF new_ledger_inv settled_new run] by blast
  have "ft_done (lg_flights l (wt_flight w)) \<longleftrightarrow> ended l (wt_flight w)"
    using done_ended [OF inv assms(2)] set unfolding settled_def by blast
  moreover have "ended l (wt_flight w) \<Longrightarrow> lg_flights l' (wt_flight w) = lg_flights l (wt_flight w)"
    using run_facts [OF inv set assms(3)] by blast
  ultimately show ?thesis
    using assms(2) by (auto simp: Wait_def Let_def ended_def split: if_splits)
qed

lemma wait_answers_when_ended_witness:
  "Wait (demo_after demo_callbacks) \<lparr>wt_key = demo_key 3, wt_flight = 0\<rparr> (None :: nat option) = Some (Inr (Some 77, True)) \<and>
   (\<forall>ctx :: nat option. Wait (demo_after demo_callbacks) \<lparr>wt_key = demo_key 3, wt_flight = 0\<rparr> ctx = Some (Inr (Some 77, True)))"
proof -
  have "lg_nextFlight (demo_after demo_callbacks) = 1"
    by (simp add: demo_callbacks_def ledger_eval cong: bind_weak_cong)
  then have f: "wt_flight \<lparr>wt_key = demo_key 3, wt_flight = 0\<rparr> < lg_nextFlight (demo_after demo_callbacks)" by simp
  have w: "Wait (demo_after demo_callbacks) \<lparr>wt_key = demo_key 3, wt_flight = 0\<rparr> (None :: nat option) = Some (Inr (Some 77, True))"
    by (simp add: Wait_def demo_callbacks_def ledger_eval cong: bind_weak_cong)
  from w wait_answers_when_ended [OF demo_reachable f ledger_run.simps(1), THEN conjunct2, THEN spec, THEN mp, OF w]
  show ?thesis by (rule conjI)
qed

lemma entry_counts:
  assumes "reachable_ledger l"
  shows "finite (entries l) \<and>
     fl_used (lg_flightLimit l) = int (card {k \<in> entries l. pendings l k \<noteq> None}) \<and>
     fl_used (lg_flightLimit l) \<le> fl_max (lg_flightLimit l) \<and>
     receiptBudgetBytes l = 384 * int (card {k \<in> entries l. pendings l k = None}) \<and>
     fl_used (fb_global (lg_budget l)) = int (card (entries l)) \<and>
     fl_used (fb_global (lg_budget l)) \<le> fl_max (fb_global (lg_budget l)) \<and>
     us_entries (authSnapshot (lg_budget l) a) = int (card {k \<in> entries l. key_auth k = a}) \<and>
     us_entries (authSnapshot (lg_budget l) a) \<le> fb_authLimit (lg_budget l) \<and>
     us_pending (authSnapshot (lg_budget l) a) = int (card {k \<in> entries l. key_auth k = a \<and> pendings l k \<noteq> None}) \<and>
     us_pending (authSnapshot (lg_budget l) a) \<le> fb_pendingPerAuth (lg_budget l) \<and>
     us_entries (sessionSnapshot (lg_budget l) a s) = int (card {k \<in> entries l. session_key k = (a, s)}) \<and>
     us_entries (sessionSnapshot (lg_budget l) a s) \<le> fb_sessionLimit (lg_budget l)"
proof -
  have inv: "ledger_inv l" using assms by (rule reachable_inv)
  then have shape: "ledger_shape l" by (simp add: ledger_inv_def)
  obtain R K where acc: "ledger_accounts l R K" using inv by (auto simp: ledger_inv_def)
  have fair: "fair_inv (lg_budget l) R" using acc by (simp add: ledger_accounts_def)
  have ok: "scope_ok (fb_auth (lg_budget l)) rv_auth rv_pending R"
    "scope_ok (fb_session (lg_budget l)) rv_session (\<lambda>_. False) R" using fair by (simp_all add: fair_inv_def)
  note n = entries_count(1) [OF shape acc]
  have c: "mcount rv_pending R = int (card {k \<in> entries l. pendings l k \<noteq> None})"
    "mcount (\<lambda>r. \<not> rv_pending r) R = int (card {k \<in> entries l. pendings l k = None})"
    "mcount (\<lambda>_. True) R = int (card (entries l))"
    "mcount (\<lambda>r. rv_auth r = a) R = int (card {k \<in> entries l. key_auth k = a})"
    "mcount (\<lambda>r. rv_auth r = a \<and> rv_pending r) R = int (card {k \<in> entries l. key_auth k = a \<and> pendings l k \<noteq> None})"
    "mcount (\<lambda>r. rv_session r = (a, s)) R = int (card {k \<in> entries l. session_key k = (a, s)})"
    using n [of "\<lambda>_. True" "\<lambda>p. p"] n [of "\<lambda>_. True" "\<lambda>p. \<not> p"] n [of "\<lambda>_. True" "\<lambda>_. True"]
      n [of "\<lambda>k. key_auth k = a" "\<lambda>_. True"] n [of "\<lambda>k. key_auth k = a" "\<lambda>p. p"] n [of "\<lambda>k. session_key k = (a, s)" "\<lambda>_. True"]
    by (simp_all add: rv_auth_def rv_session_def)
  have "fl_used (fb_global (lg_budget l)) = mcount (\<lambda>_. True) R" using fair by (simp add: fair_inv_def mcount_def)
  moreover have "finite (entries l)" by (rule entries_count(2) [OF shape acc])
  moreover have "us_entries (authSnapshot (lg_budget l) a) = mcount (\<lambda>r. rv_auth r = a) R"
    "us_pending (authSnapshot (lg_budget l) a) = mcount (\<lambda>r. rv_auth r = a \<and> rv_pending r) R"
    "us_entries (sessionSnapshot (lg_budget l) a s) = mcount (\<lambda>r. rv_session r = (a, s)) R"
    using scope_ok_entries [OF ok(1)] scope_ok_pending [OF ok(1)] scope_ok_entries [OF ok(2)]
    by (simp_all add: authSnapshot_def sessionSnapshot_def)
  moreover have "fl_used (lg_flightLimit l) = mcount rv_pending R" "fl_used (lg_flightLimit l) \<le> fl_max (lg_flightLimit l)"
    "lg_receiptCount l = mcount (\<lambda>r. \<not> rv_pending r) R" using acc by (simp_all add: ledger_accounts_def)
  moreover have "us_entries (authSnapshot (lg_budget l) a) \<le> fb_authLimit (lg_budget l)"
    "us_pending (authSnapshot (lg_budget l) a) \<le> fb_pendingPerAuth (lg_budget l)"
    "us_entries (sessionSnapshot (lg_budget l) a s) \<le> fb_sessionLimit (lg_budget l)"
    "fl_used (fb_global (lg_budget l)) \<le> fl_max (fb_global (lg_budget l))"
    using fair by (simp_all add: fair_inv_def authSnapshot_def sessionSnapshot_def)
  ultimately show ?thesis
    by (simp add: c receiptBudgetBytes_def rpcExecutionReceiptBudgetBytes_def)
qed

lemma callback_counts:
  assumes inv: "ledger_inv l" and bound: "flights_bounded l"
  shows "\<forall>k f. pendings l k = Some f \<longrightarrow>
        ft_subscriberSlots (lg_flights l f) =
          int (length (ft_subscribers (lg_flights l f)) + length (ft_executionSubscribers (lg_flights l f))) \<and>
        ft_subscriberSlots (lg_flights l f) \<le> lg_subscriberPerFlight l"
    "fl_used (sb_global (lg_subscriberBudget l)) = (\<Sum>k \<in> claims l. callbacks_kept l k)"
    "fl_used (sb_global (lg_subscriberBudget l)) \<le> fl_max (sb_global (lg_subscriberBudget l))"
    "slots_at (sb_auth (lg_subscriberBudget l)) a = (\<Sum>k \<in> {k \<in> claims l. key_auth k = a}. callbacks_kept l k)"
    "slots_at (sb_auth (lg_subscriberBudget l)) a \<le> sb_authLimit (lg_subscriberBudget l)"
    "slots_at (sb_session (lg_subscriberBudget l)) (a, s) = (\<Sum>k \<in> {k \<in> claims l. session_key k = (a, s)}. callbacks_kept l k)"
    "slots_at (sb_session (lg_subscriberBudget l)) (a, s) \<le> sb_sessionLimit (lg_subscriberBudget l)"
proof -
  have shape: "ledger_shape l" using inv by (simp add: ledger_inv_def)
  obtain R K where acc: "ledger_accounts l R K" using inv by (auto simp: ledger_inv_def)
  then have sub: "sub_inv (lg_subscriberBudget l) K" by (simp add: ledger_accounts_def)
  show "\<forall>k f. pendings l k = Some f \<longrightarrow>
        ft_subscriberSlots (lg_flights l f) =
          int (length (ft_subscribers (lg_flights l f)) + length (ft_executionSubscribers (lg_flights l f))) \<and>
        ft_subscriberSlots (lg_flights l f) \<le> lg_subscriberPerFlight l"
    using ledger_shape_pending [OF shape] bound by (auto simp: flight_live_def slot_count_def flights_bounded_def)
  note n = callbacks_count(2) [OF shape acc]
  show "fl_used (sb_global (lg_subscriberBudget l)) = (\<Sum>k \<in> claims l. callbacks_kept l k)"
    "slots_at (sb_auth (lg_subscriberBudget l)) a = (\<Sum>k \<in> {k \<in> claims l. key_auth k = a}. callbacks_kept l k)"
    "slots_at (sb_session (lg_subscriberBudget l)) (a, s) = (\<Sum>k \<in> {k \<in> claims l. session_key k = (a, s)}. callbacks_kept l k)"
    using sub n [of "\<lambda>_. True"] n [of "\<lambda>k. key_auth k = a"] n [of "\<lambda>k. session_key k = (a, s)"]
    by (simp_all add: sub_inv_def slots_ok_def mcount_def)
  show "fl_used (sb_global (lg_subscriberBudget l)) \<le> fl_max (sb_global (lg_subscriberBudget l))"
    "slots_at (sb_auth (lg_subscriberBudget l)) a \<le> sb_authLimit (lg_subscriberBudget l)"
    "slots_at (sb_session (lg_subscriberBudget l)) (a, s) \<le> sb_sessionLimit (lg_subscriberBudget l)"
    using sub by (simp_all add: sub_inv_def)
qed

text \<open>
  C4. The ledger's capacity counters are exact and bounded in every reachable state: the flight
  counter is the number of claims in flight, the receipt bytes are 384 per receipt, the entry
  counters (global, of an auth key, of a session, and the pending share of an auth key) are the
  numbers of such claims and receipts, a claim's callback slots are the callbacks it keeps, and the
  callback counters (global, of an auth key, of a session) are the sums of these; and every
  counter that has a limit is within it.
\<close>

theorem ledger_counts:
  assumes "reachable_ledger l"
  shows "finite (entries l) \<and>
     fl_used (lg_flightLimit l) = int (card {k \<in> entries l. pendings l k \<noteq> None}) \<and>
     fl_used (lg_flightLimit l) \<le> fl_max (lg_flightLimit l) \<and>
     receiptBudgetBytes l = 384 * int (card {k \<in> entries l. pendings l k = None}) \<and>
     fl_used (fb_global (lg_budget l)) = int (card (entries l)) \<and>
     fl_used (fb_global (lg_budget l)) \<le> fl_max (fb_global (lg_budget l)) \<and>
     us_entries (authSnapshot (lg_budget l) a) = int (card {k \<in> entries l. key_auth k = a}) \<and>
     us_entries (authSnapshot (lg_budget l) a) \<le> fb_authLimit (lg_budget l) \<and>
     us_pending (authSnapshot (lg_budget l) a) = int (card {k \<in> entries l. key_auth k = a \<and> pendings l k \<noteq> None}) \<and>
     us_pending (authSnapshot (lg_budget l) a) \<le> fb_pendingPerAuth (lg_budget l) \<and>
     us_entries (sessionSnapshot (lg_budget l) a s) = int (card {k \<in> entries l. session_key k = (a, s)}) \<and>
     us_entries (sessionSnapshot (lg_budget l) a s) \<le> fb_sessionLimit (lg_budget l) \<and>
     (\<forall>k f. pendings l k = Some f \<longrightarrow>
        ft_subscriberSlots (lg_flights l f) =
          int (length (ft_subscribers (lg_flights l f)) + length (ft_executionSubscribers (lg_flights l f))) \<and>
        ft_subscriberSlots (lg_flights l f) \<le> lg_subscriberPerFlight l) \<and>
     fl_used (sb_global (lg_subscriberBudget l)) = (\<Sum>k \<in> claims l. callbacks_kept l k) \<and>
     fl_used (sb_global (lg_subscriberBudget l)) \<le> fl_max (sb_global (lg_subscriberBudget l)) \<and>
     slots_at (sb_auth (lg_subscriberBudget l)) a = (\<Sum>k \<in> {k \<in> claims l. key_auth k = a}. callbacks_kept l k) \<and>
     slots_at (sb_auth (lg_subscriberBudget l)) a \<le> sb_authLimit (lg_subscriberBudget l) \<and>
     slots_at (sb_session (lg_subscriberBudget l)) (a, s) = (\<Sum>k \<in> {k \<in> claims l. session_key k = (a, s)}. callbacks_kept l k) \<and>
     slots_at (sb_session (lg_subscriberBudget l)) (a, s) \<le> sb_sessionLimit (lg_subscriberBudget l)"
  using entry_counts [OF assms, of a s] callback_counts(1-3) [OF reachable_inv reachable_bounded, OF assms assms]
    callback_counts(4,5) [OF reachable_inv reachable_bounded, OF assms assms, of a]
    callback_counts(6,7) [OF reachable_inv reachable_bounded, OF assms assms, of a s]
  by (elim conjE) (intro conjI; assumption)

lemma ledger_counts_witness:
  "let l = demo_after [own 3, OpSubscribe quiet \<lparr>wt_key = demo_key 3, wt_flight = 0\<rparr> (Some 11) (Some 12)] in
   us_pending (authSnapshot (lg_budget l) 7) = int (card {k \<in> entries l. key_auth k = 7 \<and> pendings l k \<noteq> None}) \<and>
   fl_used (sb_global (lg_subscriberBudget l)) = 2 \<and> (\<Sum>k \<in> claims l. callbacks_kept l k) = 2"
proof -
  define l where "l = demo_after [own 3, OpSubscribe quiet \<lparr>wt_key = demo_key 3, wt_flight = 0\<rparr> (Some 11) (Some 12)]"
  have "fl_used (sb_global (lg_subscriberBudget l)) = 2" by (simp add: l_def ledger_eval cong: bind_weak_cong)
  with ledger_counts [OF demo_reachable, of "[own 3, OpSubscribe quiet \<lparr>wt_key = demo_key 3, wt_flight = 0\<rparr> (Some 11) (Some 12)]" 7 1]
  show ?thesis unfolding Let_def l_def [symmetric] by (elim conjE) (intro conjI, assumption+, simp)
qed

text \<open>
  C5. A capacity refusal is explained: when an acquisition of a key without a receipt is refused,
  with any steps of other goroutines between its sections, one of the five limits is reached by
  live claims and receipts together with the reservations that other shards held in transit at the
  refusing check. In particular, with nothing in transit a limit is reached by live ones.
\<close>

theorem refusal_means_full:
  assumes "reachable_ledger l" "key_msg k \<noteq> 0"
    and "turn_by_others first" "\<forall>i. by_others (rp_between rp i)" "turn_by_others second"
    and "acquire first rp second l replay k identity = Some (l', Inl ErrRPCResultFlightCapacity)" "receipts l' k = None"
  shows "\<exists>tr \<in> {tn_transit first, tn_transit second}.
     fl_max (lg_flightLimit l') \<le> int (card {k \<in> entries l'. pendings l' k \<noteq> None} + tr_flights tr) \<or>
     fl_max (fb_global (lg_budget l')) \<le> int (card (entries l') + tr_global tr) \<or>
     fb_authLimit (lg_budget l') \<le> int (card {k' \<in> entries l'. key_auth k' = key_auth k} + tr_auth tr) \<or>
     fb_sessionLimit (lg_budget l') \<le> int (card {k' \<in> entries l'. session_key k' = session_key k} + tr_session tr) \<or>
     fb_pendingPerAuth (lg_budget l') \<le> int (card {k' \<in> entries l'. key_auth k' = key_auth k \<and> pendings l' k' \<noteq> None} + tr_pending tr)"
proof -
  from acquire_is_run [OF assms(3-6)] obtain ops as a tr where
    run: "ledger_run (ops @ [OpAcquire tr replay k identity]) l = Some (l', as @ [a])"
    and tr: "tr \<in> {tn_transit first, tn_transit second}"
    and a: "a = Acquired (Inl ErrRPCResultFlightCapacity) \<or> a = Blocked" by blast
  from run obtain l1 as1 where l1: "ledger_run ops l = Some (l1, as1)" "ledger_apply (OpAcquire tr replay k identity) l1 = Some (l', a)"
    by (auto simp: ledger_run_append bind_eq_Some_conv)
  have inv: "ledger_inv l1" using ledger_run_ok [OF reachable_inv [OF assms(1)], of ops] l1(1) by auto
  from acquire_locked_ok [OF inv, of tr replay k identity] l1(2) assms(2) obtain r where
    r: "acquire_outcome tr replay k identity l1 l' r" "a = turn_answer r" by auto
  then have l': "l' = l1" "flight_reserve_among tr (lg_flightLimit l1) = None \<or> reserveOwner tr (lg_budget l1) k = None"
    using a assms(7)
    by (auto simp: acquire_outcome_def flight_answer_def identityMismatch_def turn_answer_def split: option.splits if_splits)
  have shape: "ledger_shape l1" using inv by (simp add: ledger_inv_def)
  obtain R K where acc: "ledger_accounts l1 R K" using inv by (auto simp: ledger_inv_def)
  have fair: "fair_inv (lg_budget l1) R" using acc by (simp add: ledger_accounts_def)
  note n = entries_count(1) [OF shape acc]
  have c: "mcount rv_pending R = int (card {k \<in> entries l1. pendings l1 k \<noteq> None})"
    "int (size R) = int (card (entries l1))"
    "mcount (\<lambda>r. rv_auth r = key_auth k) R = int (card {k' \<in> entries l1. key_auth k' = key_auth k})"
    "mcount (\<lambda>r. rv_auth r = key_auth k \<and> rv_pending r) R = int (card {k' \<in> entries l1. key_auth k' = key_auth k \<and> pendings l1 k' \<noteq> None})"
    "mcount (\<lambda>r. rv_session r = session_key k) R = int (card {k' \<in> entries l1. session_key k' = session_key k})"
    using n [of "\<lambda>_. True" "\<lambda>p. p"] n [of "\<lambda>_. True" "\<lambda>_. True"]
      n [of "\<lambda>k'. key_auth k' = key_auth k" "\<lambda>_. True"] n [of "\<lambda>k'. key_auth k' = key_auth k" "\<lambda>p. p"]
      n [of "\<lambda>k'. session_key k' = session_key k" "\<lambda>_. True"]
    by (simp_all add: rv_auth_def rv_session_def mcount_def)
  from l'(2) show ?thesis
  proof
    assume "flight_reserve_among tr (lg_flightLimit l1) = None"
    from flight_reserve_among_refused [OF this] show ?thesis
      using acc c(1) mcount_nonneg [of rv_pending R] tr by (intro bexI [OF _ tr]) (simp add: ledger_accounts_def l'(1))
  next
    assume "reserveOwner tr (lg_budget l1) k = None"
    from budget_reserve_among_refused [OF fair this [unfolded reserveOwner_def]] show ?thesis
      unfolding c l'(1) by (intro bexI [OF _ tr]) auto
  qed
qed

text \<open>
  The instance: while the request of message 5 is on its way, another goroutine acquires message 4,
  the second and last claim the ledger allows.
\<close>

definition demo_turn :: turn where
  "demo_turn = \<lparr>tn_before = (\<lambda>l. map_option fst (ledger_run [own 4] l)), tn_now = 102, tn_during = Some, tn_transit = quiet\<rparr>"

definition demo_reap :: reap where
  "demo_reap = \<lparr>rp_clock = (\<lambda>_. 103), rp_between = (\<lambda>_. Some)\<rparr>"

lemma demo_others: "turn_by_others demo_turn" "by_others (rp_between demo_reap i)"
proof -
  have "by_others (\<lambda>l. map_option fst (ledger_run [own 4] l))" unfolding by_others_def by blast
  then show "turn_by_others demo_turn" by (simp add: turn_by_others_def demo_turn_def del: ledger_run.simps)
qed (simp add: demo_reap_def)

lemma refusal_means_full_witness:
  "let l' = demo_after [own 3, own 4, own 5]; k = demo_key 5 in
     fl_max (lg_flightLimit l') \<le> int (card {k \<in> entries l'. pendings l' k \<noteq> None}) \<or>
     fl_max (fb_global (lg_budget l')) \<le> int (card (entries l')) \<or>
     fb_authLimit (lg_budget l') \<le> int (card {k' \<in> entries l'. key_auth k' = key_auth k}) \<or>
     fb_sessionLimit (lg_budget l') \<le> int (card {k' \<in> entries l'. session_key k' = session_key k}) \<or>
     fb_pendingPerAuth (lg_budget l') \<le> int (card {k' \<in> entries l'. key_auth k' = key_auth k \<and> pendings l' k' \<noteq> None})"
proof -
  have a: "demo_answers ([own 3, own 4] @ [own 5]) =
      [Acquired (Inr (AcquireOwner 1 (fresh_lease (demo_key 3) 0))), Acquired (Inr (AcquireOwner 2 (fresh_lease (demo_key 4) 1)))] @
      [Acquired (Inl ErrRPCResultFlightCapacity)]"
    by (simp add: ledger_eval cong: bind_weak_cong)
  have k: "key_msg (demo_key 5) \<noteq> 0" by (simp add: demo_key_def)
  from demo_apply [OF a] k have locked: "acquire_locked quiet (demo_after [own 3, own 4]) (\<lambda>_. None) (demo_key 5) demo_identity =
      Some (demo_after [own 3, own 4, own 5], Some (Inl ErrRPCResultFlightCapacity))"
    by (auto simp: own_def turn_answer_def split: option.splits)
  have "ledger_run ([own 3] @ [own 4]) demo_ledger =
      do { (l1, as) \<leftarrow> ledger_run [own 3] demo_ledger; (l2, as') \<leftarrow> ledger_run [own 4] l1; Some (l2, as @ as') }"
    by (rule ledger_run_append)
  then have other: "map_option fst (ledger_run [own 4] (demo_after [own 3])) = Some (demo_after [own 3, own 4])"
    unfolding demo_run by (auto simp del: ledger_run.simps split: bind_splits)
  have "sh_order (lg_shards (demo_after [own 3, own 4]) i) = []" for i
    by (simp add: ledger_eval cong: bind_weak_cong)
  then have "expireLocked (demo_after [own 3, own 4]) i t = Some (demo_after [own 3, own 4])" for i t
    by (simp add: expireLocked_def)
  with other locked k have call: "acquire demo_turn demo_reap demo_turn (demo_after [own 3]) (\<lambda>_. None) (demo_key 5) demo_identity =
      Some (demo_after [own 3, own 4, own 5], Inl ErrRPCResultFlightCapacity)"
    by (simp add: acquire_def acquire_turn_def enter_shard_def demo_turn_def del: ledger_run.simps map_option_eq_Some)
  have nor: "receipts (demo_after [own 3, own 4, own 5]) (demo_key 5) = None"
    by (simp add: ledger_eval cong: bind_weak_cong)
  have "\<forall>i. by_others (rp_between demo_reap i)" by (simp add: demo_others)
  from refusal_means_full [OF demo_reachable k demo_others(1) this demo_others(1) call nor] show ?thesis
    by (simp add: demo_turn_def quiet_def)
qed

text \<open>
  The slots in transit matter: another shard's turn that has reserved a flight slot and is about
  to give it back refuses a claim although one of the two slots is free.
\<close>

lemma refused_by_transit:
  "acquire_locked (quiet\<lparr>tr_flights := 1\<rparr>) (demo_after [own 3]) (\<lambda>_. None) (demo_key 4) demo_identity =
     Some (demo_after [own 3], Some (Inl ErrRPCResultFlightCapacity)) \<and>
   fl_used (lg_flightLimit (demo_after [own 3])) = 1 \<and> fl_max (lg_flightLimit (demo_after [own 3])) = 2"
  by (simp add: ledger_eval cong: bind_weak_cong)

definition running_sequences :: "ledger \<Rightarrow> nat set" where
  "running_sequences l = {s. s \<noteq> 0 \<and> (\<exists>k f. pendings l k = Some f \<and> ft_admissionSeq (lg_flights l f) = s)}"

lemma minimum_fold:
  "(\<forall>s \<in> set xs. 0 < s) \<Longrightarrow>
     (let r = foldl (\<lambda>m s. if m = 0 \<or> s < m then s else m) m xs in
       (r = 0 \<longleftrightarrow> m = 0 \<and> xs = []) \<and> (r \<noteq> 0 \<longrightarrow> r \<in> set xs \<union> {m}) \<and>
       (m \<noteq> 0 \<longrightarrow> r \<le> m) \<and> (\<forall>s \<in> set xs. r \<le> s))" for m :: nat
proof (induction xs arbitrary: m)
  case Nil
  then show ?case by simp
next
  case (Cons x xs)
  have "\<forall>s \<in> set xs. 0 < s" "0 < x" using Cons.prems by auto
  from Cons.IH [OF this(1), of "if m = 0 \<or> x < m then x else m"] this(2) show ?case
    by (auto simp: Let_def split: if_splits)
qed

text \<open>
  The admission safe floor is right between sections: it is the smallest sequence of an identified claim in
  flight, or, when there is none, the sequence the next one will get. So a sequence below the floor
  never belongs to a request that is still running.
\<close>

theorem admission_floor:
  assumes "reachable_ledger l"
  shows "(\<forall>s \<in> running_sequences l. stableAdmissionSafeFloor l \<le> s) \<and>
     (if running_sequences l = {} then stableAdmissionSafeFloor l = min (ad_next (lg_admissions l) + 1) maxUint64
      else stableAdmissionSafeFloor l \<in> running_sequences l)"
proof -
  have adm: "ledger_admissions l" using reachable_inv [OF assms] by (simp add: ledger_inv_def)
  have mem: "set (ad_active (lg_admissions l)) = running_sequences l"
    using adm unfolding ledger_admissions_def running_sequences_def by blast
  have pos: "\<forall>s \<in> set (ad_active (lg_admissions l)). 0 < s" and bound: "ad_next (lg_admissions l) \<le> maxUint64"
    using adm unfolding ledger_admissions_def by blast+
  from minimum_fold [OF pos, of 0] bound show ?thesis
    unfolding stableAdmissionSafeFloor_def stableSafeFloor_def Let_def mem
    by (cases "ad_active (lg_admissions l) = []") (auto simp: mem [symmetric])
qed

lemma admission_floor_witness:
  "stableAdmissionSafeFloor (demo_after [own 3, own 4, OpAbort (fresh_lease (demo_key 3) 0)]) = 2 \<and>
   running_sequences (demo_after [own 3, own 4, OpAbort (fresh_lease (demo_key 3) 0)]) \<subseteq> {2..}"
proof
  show eq: "stableAdmissionSafeFloor (demo_after [own 3, own 4, OpAbort (fresh_lease (demo_key 3) 0)]) = 2"
    by (simp add: ledger_eval stableAdmissionSafeFloor_def stableSafeFloor_def cong: bind_weak_cong)
  from admission_floor [OF demo_reachable, of "[own 3, own 4, OpAbort (fresh_lease (demo_key 3) 0)]"]
  show "running_sequences (demo_after [own 3, own 4, OpAbort (fresh_lease (demo_key 3) 0)]) \<subseteq> {2..}"
    unfolding eq by auto
qed

lemma expired_lookup:
  assumes inv: "ledger_inv l" and rc: "receipts l k = Some rc" "\<not> expired now rc" and r: "reclaim (expired now) l l'"
  shows "receipts l' k = Some rc"
  using reclaim_gone [OF r rc(1)] reclaim_receipt [OF r, of k] rc by (cases "receipts l' k") auto

text \<open>
  Replay round trip: once a claim that was not acknowledged is completed with a retained frame, an
  acquisition of the same request within the next 331 seconds, after the expiry its turn starts
  with, gets the completed answer, with the frame the replay store holds and the outcome the
  handler reported.
\<close>

theorem complete_then_acquire:
  assumes "reachable_ledger l"
    and "pendings l k = Some f" "\<not> ft_acknowledged (lg_flights l f)" "identity_matches (ft_identity (lg_flights l f)) identity"
    and "complete_locked tr l t k enc True = Some (l1, finished, cbs)" "expireLocked l1 i t' = Some l2"
    and "t' < t + rpcExecutionReceiptTTL" "replay k = Some frame"
  shows "acquire_locked tr' l2 replay k identity =
     Some (l2, Some (Inr (AcquireCompleted (ft_admissionSeq (lg_flights l f)) (ft_executionDone (lg_flights l f))
                      (ft_executionOK (lg_flights l f)) frame)))"
proof -
  have inv: "ledger_inv l" using assms(1) by (rule reachable_inv)
  from complete_locked_ok [OF inv, of tr t k enc True] assms(5) have
    c: "ledger_inv l1" "complete_outcome t k enc True l l1 finished cbs" by auto
  have "receipts l k = None" using ledger_shape_pending [OF _ assms(2)] inv by (simp add: ledger_inv_def)
  then have rc: "receipts l1 k = Some (claim_receipt t k (lg_flights l f) True)"
    using c(2) assms(2,3) by (simp add: complete_outcome_def)
  from expireLocked_ok [OF c(1), of i t'] assms(6) have e: "ledger_inv l2" "reclaim (expired t') l1 l2" by auto
  have "receipts l2 k = Some (claim_receipt t k (lg_flights l f) True)"
    by (rule expired_lookup [OF c(1) rc _ e(2)]) (use assms(7) in \<open>simp add: expired_def claim_receipt_def\<close>)
  with acquire_locked_ok [OF e(1), of tr' replay k identity] assms(3,4,8) show ?thesis
    by (auto simp: acquire_outcome_def receipt_answer_def claim_receipt_def)
qed

lemma complete_then_acquire_witness:
  "\<exists>l2. acquire_locked quiet l2 (\<lambda>_. Some 78) (demo_key 3) demo_identity =
     Some (l2, Some (Inr (AcquireCompleted (ft_admissionSeq (lg_flights (demo_after [own 3]) 0))
       (ft_executionDone (lg_flights (demo_after [own 3]) 0)) (ft_executionOK (lg_flights (demo_after [own 3]) 0)) 78)))"
proof -
  from complete_locked_ok [OF reachable_inv [OF demo_reachable], of quiet "[own 3]" 400 "demo_key 3" 77 True]
  obtain l1 fin cbs where c: "complete_locked quiet (demo_after [own 3]) 400 (demo_key 3) 77 True = Some (l1, fin, cbs)" "ledger_inv l1" by blast
  from expireLocked_ok [OF c(2), of 0 700] obtain l2 where e: "expireLocked l1 0 700 = Some l2" by blast
  have "pendings (demo_after [own 3]) (demo_key 3) = Some 0" "\<not> ft_acknowledged (lg_flights (demo_after [own 3]) 0)"
    "identity_matches (ft_identity (lg_flights (demo_after [own 3]) 0)) demo_identity"
    by (simp_all add: ledger_eval cong: bind_weak_cong)
  from complete_then_acquire [OF demo_reachable this c(1) e, of "\<lambda>_. Some 78" 78 quiet]
  show ?thesis by (auto simp: rpcExecutionReceiptTTL_def)
qed

text \<open>
  Aborting a fresh claim gives everything back: no callback is called, the key is free again,
  and the flight counter and the usage of the key's auth key and session are what they were
  before the claim was granted. Its admission sequence is no longer running.
\<close>

theorem abort_gives_back:
  assumes "reachable_ledger l" "ledger_apply (OpAcquire tr replay k identity) l = Some (l1, Acquired (Inr (AcquireOwner s ls)))"
  shows "\<exists>l2 ls'. Abort l1 ls = Some (l2, ls', True, []) \<and> pendings l2 = pendings l \<and> receipts l2 = receipts l \<and>
     fl_used (lg_flightLimit l2) = fl_used (lg_flightLimit l) \<and>
     fl_used (fb_global (lg_budget l2)) = fl_used (fb_global (lg_budget l)) \<and>
     authSnapshot (lg_budget l2) a = authSnapshot (lg_budget l) a \<and>
     sessionSnapshot (lg_budget l2) a i = sessionSnapshot (lg_budget l) a i \<and>
     (s \<noteq> 0 \<longrightarrow> s \<notin> running_sequences l2)"
proof -
  have inv: "ledger_inv l" using assms(1) by (rule reachable_inv)
  have inv1: "ledger_inv l1" using ledger_apply_inv [OF inv assms(2)] by blast
  have m: "receipts l k = None" "pendings l k = None"
     "ls = fresh_lease k (lg_nextFlight l)" "receipts l1 = receipts l" "pendings l1 = (pendings l)(k \<mapsto> lg_nextFlight l)"
     "lg_flights l1 = (lg_flights l)(lg_nextFlight l := fresh_flight k identity s)"
    using acquire_owner [OF inv assms(2)] by simp_all
  have "pendings l1 (ls_key ls) = Some (ls_flight ls)" "\<not> ls_handedOff ls" by (simp_all add: m(3,5) fresh_lease_def)
  from Abort_ok [OF inv1 this] obtain b g sb where
    ab: "Abort l1 ls = Some (resolved l1 k (lg_nextFlight l) None b g sb, ls\<lparr>ls_abortHook := None\<rparr>, True, [])"
    "ledger_inv (resolved l1 k (lg_nextFlight l) None b g sb)"
    "pendings (resolved l1 k (lg_nextFlight l) None b g sb) = (pendings l1)(k := None)"
    "receipts (resolved l1 k (lg_nextFlight l) None b g sb) = receipts l1"
    unfolding Let_def by (auto simp: m(3,6) fresh_lease_def fresh_flight_def idle_flight_def)
  define l2 where "l2 = resolved l1 k (lg_nextFlight l) None b g sb"
  have l2: "ledger_inv l2" "pendings l2 = pendings l" "receipts l2 = receipts l"
    using ab(2-4) m(2,4,5) by (auto simp: l2_def fun_eq_iff)
  have same: "entries l2 = entries l" by (simp add: entries_def l2)
  have adm: "lg_admissions l2 = active_without l1 s" by (simp add: l2_def m(6) fresh_flight_def)
  obtain R K R' K' where acc: "ledger_accounts l R K" "ledger_accounts l2 R' K'" and sh: "ledger_shape l"
    using inv l2(1) by (auto simp: ledger_inv_def)
  have "R' = R"
    by (rule multiset_eqI) (use acc in \<open>simp add: ledger_accounts_def owed_reservations_def l2\<close>)
  then have fair: "fair_inv (lg_budget l) R" "fair_inv (lg_budget l2) R" and
    used: "fl_used (lg_flightLimit l2) = fl_used (lg_flightLimit l)"
    using acc by (simp_all add: ledger_accounts_def)
  have "authSnapshot (lg_budget l2) a = authSnapshot (lg_budget l) a"
    "sessionSnapshot (lg_budget l2) a i = sessionSnapshot (lg_budget l) a i"
    using fair unfolding authSnapshot_def sessionSnapshot_def
    by (auto simp: fair_inv_def scope_ok_def intro!: budget_usage.equality)
  moreover have "fl_used (fb_global (lg_budget l2)) = fl_used (fb_global (lg_budget l))"
    using fair by (simp add: fair_inv_def)
  moreover have "s \<notin> running_sequences l2" if "s \<noteq> 0"
  proof -
    have "ledger_admissions l2" using l2(1) by (simp add: ledger_inv_def)
    then have "set (ad_active (lg_admissions l2)) = running_sequences l2"
      unfolding ledger_admissions_def running_sequences_def by blast
    then show ?thesis by (auto simp: adm active_without_def)
  qed
  ultimately show ?thesis using ab(1) l2 used unfolding l2_def by blast
qed

lemma abort_gives_back_witness:
  "\<exists>l2 ls'. Abort (demo_after [own 3]) (fresh_lease (demo_key 3) 0) = Some (l2, ls', True, []) \<and>
     pendings l2 = pendings (demo_after []) \<and> fl_used (lg_flightLimit l2) = fl_used (lg_flightLimit (demo_after []))"
proof -
  have a: "demo_answers ([] @ [own 3]) = [] @ [Acquired (Inr (AcquireOwner 1 (fresh_lease (demo_key 3) 0)))]"
    by (simp add: ledger_eval cong: bind_weak_cong)
  have "ledger_apply (OpAcquire quiet (\<lambda>_. None) (demo_key 3) demo_identity) (demo_after []) =
      Some (demo_after [own 3], Acquired (Inr (AcquireOwner 1 (fresh_lease (demo_key 3) 0))))"
    using demo_apply [OF a] by (simp add: own_def)
  then show ?thesis
    using abort_gives_back [OF demo_reachable] by fastforce
qed

text \<open>
  Destroying a session, when nothing runs in between, drops exactly its receipts, and leaves every
  other receipt and every claim in flight, also those of the session, alone.
\<close>

lemma forget_shards_none:
  "ledger_inv l \<Longrightarrow> \<exists>l'. forget_shards (\<lambda>_. Some) l a s is = Some l' \<and> ledger_inv l' \<and> reclaim (of_session a s) l l' \<and>
     (\<forall>k rc. shardIndex l k \<in> set is \<longrightarrow> receipts l' k = Some rc \<longrightarrow> \<not> of_session a s rc)"
proof (induction "is" arbitrary: l)
  case (Cons i "is")
  from forget_shard_ok [OF Cons.prems, of i a s] obtain l1 where l1: "forget_shard l i a s = Some l1" "ledger_inv l1"
    "reclaim (of_session a s) l l1" "\<forall>(k, rc) \<in> set (sh_order (lg_shards l1 i)). \<not> of_session a s rc" by blast
  from Cons.IH [OF l1(2)] obtain l2 where l2: "forget_shards (\<lambda>_. Some) l1 a s is = Some l2" "ledger_inv l2"
    "reclaim (of_session a s) l1 l2"
    "\<forall>k rc. shardIndex l1 k \<in> set is \<longrightarrow> receipts l2 k = Some rc \<longrightarrow> \<not> of_session a s rc" by blast
  have idx: "shardIndex l1 k = shardIndex l k" for k using reclaim_frame(9) [OF l1(3)] .
  have "\<not> of_session a s rc" if "shardIndex l k \<in> set (i # is)" "receipts l2 k = Some rc" for k rc
  proof (cases "shardIndex l k = i")
    case True
    have "receipts l1 k = Some rc" using reclaim_receipt [OF l2(3) that(2)] .
    have "\<forall>(k, rc) \<in> set (sh_order (lg_shards l1 (shardIndex l1 k))). \<not> of_session a s rc"
      unfolding idx True by (rule l1(4))
    from forget_shard_none [OF l1(2) this \<open>receipts l1 k = Some rc\<close>] show ?thesis .
  next
    case False
    then show ?thesis using l2(4) that idx by auto
  qed
  with l1 l2 reclaim_trans [OF l1(3) l2(3)] show ?case by auto
qed auto

theorem forgetSession_exact:
  assumes "reachable_ledger l"
  shows "\<exists>l'. forgetSession (\<lambda>_. Some) l a s = Some l' \<and> pendings l' = pendings l \<and> lg_flights l' = lg_flights l \<and>
     receipts l' = (\<lambda>k. if key_auth k = a \<and> key_session k = s then None else receipts l k)"
proof -
  have inv: "ledger_inv l" using assms by (rule reachable_inv)
  from forget_shards_none [OF inv, of a s "[0..<rpcExecutionLedgerShards]"] obtain l' where
    l': "forgetSession (\<lambda>_. Some) l a s = Some l'" "ledger_inv l'" "reclaim (of_session a s) l l'"
    and gone: "\<forall>k rc. shardIndex l k \<in> set [0..<rpcExecutionLedgerShards] \<longrightarrow> receipts l' k = Some rc \<longrightarrow> \<not> of_session a s rc"
    unfolding forgetSession_def by blast
  have "shardIndex l k \<in> set [0..<rpcExecutionLedgerShards]" for k
    by (simp add: shardIndex_def rpcExecutionLedgerShards_def)
  with gone have none: "\<forall>k rc. receipts l' k = Some rc \<longrightarrow> \<not> of_session a s rc" by blast
  have key: "rc_key rc = k" if "ledger_inv m" "receipts m k = Some rc" for m k rc
    using that ledger_shape_receipt [of m k rc] by (simp add: ledger_inv_def receipt_live_def)
  have "receipts l' k = (if key_auth k = a \<and> key_session k = s then None else receipts l k)" for k
  proof (cases "receipts l' k")
    case None
    then show ?thesis using reclaim_at [OF l'(3), of k] key [OF inv, of k] by (auto simp: of_session_def)
  next
    case (Some rc)
    with reclaim_receipt [OF l'(3) this] none key [OF l'(2) Some] show ?thesis by (auto simp: of_session_def)
  qed
  with l' reclaim_frame(6,8) [OF l'(3)] show ?thesis by (metis ext)
qed

lemma forgetSession_exact_witness:
  "\<exists>l'. forgetSession (\<lambda>_. Some) (demo_after [own 3]) 7 1 = Some l' \<and> pendings l' = pendings (demo_after [own 3])"
  using forgetSession_exact [OF demo_reachable, of "[own 3]" 7 1] by blast

end
