(* ===== verification/Update_Log.thy ===== *)
theory Update_Log
  imports Go_Prelude "HOL-Library.Word"
begin

text \<open>
  The account's durable update log and its stores: \<^verbatim>\<open>internal/domain/update_event.go\<close>,
  \<^verbatim>\<open>internal/domain/update.go\<close> and \<^verbatim>\<open>internal/store/memory/updates.go\<close>.

  \<^item> An event keeps the fields of \<^verbatim>\<open>UpdateEvent\<close> that the log and the service set or read; nested
    objects they only pass along (settings, quick replies, folders, reactions, the content of messages and
    stories) are opaque values, and \<open>ue_Rest\<close> stands for the fields none of this code touches
    (\<^verbatim>\<open>Phone\<close>, \<^verbatim>\<open>Users\<close>, \<^verbatim>\<open>Channels\<close>, \<^verbatim>\<open>Draft\<close>, \<^verbatim>\<open>TagsEnabled\<close>, the Bot API envelope). The deep copies
    \<^verbatim>\<open>cloneUpdateEvent\<close> makes are the value itself: HOL values are not shared.
  \<^item> An event store is a list of events per user in append order, and a list of dispatches.
  \<^item> The locale \<open>durable_log\<close> is what a client of the log relies on: allocation appends one event
    right after the last one, reading after a cursor returns the next events, and the water mark is
    the last committed pts. The memory store provides it.
\<close>

subsection \<open>Events\<close>

datatype peer_type = PeerTypeNone | PeerTypeUser | PeerTypeChannel | PeerTypeCommunity | PeerTypeFolder

record peer =
  peer_Type :: peer_type
  peer_ID :: int

definition no_peer :: peer where
  "no_peer = \<lparr>peer_Type = PeerTypeNone, peer_ID = 0\<rparr>"

datatype update_event_type =
    UpdateEventNone | UpdateEventNewMessage | UpdateEventReadHistoryInbox | UpdateEventReadHistoryOutbox
  | UpdateEventReadChannelDiscussionInbox | UpdateEventReadChannelDiscussionOutbox
  | UpdateEventReadMessageContents | UpdateEventEditMessage | UpdateEventBotCallbackQuery | UpdateEventWebPage
  | UpdateEventMessagePoll | UpdateEventContactsReset | UpdateEventDialogPinned | UpdateEventPinnedDialogs
  | UpdateEventDialogUnreadMark | UpdateEventPeerSettings | UpdateEventPeerStoryBlocked | UpdateEventUserPhone
  | UpdateEventUserEmojiStatus | UpdateEventDeleteMessages | UpdateEventPinnedMessages | UpdateEventDialogFilter
  | UpdateEventDialogFilterOrder | UpdateEventDialogFilters | UpdateEventFolderPeers | UpdateEventChannelViewForum
  | UpdateEventStory | UpdateEventReadStories | UpdateEventSentStoryReaction | UpdateEventNewStoryReaction
  | UpdateEventQuickReplies | UpdateEventNewQuickReply | UpdateEventDeleteQuickReply | UpdateEventQuickReplyMessage
  | UpdateEventDeleteQuickReplyMessages | UpdateEventChannelState | UpdateEventDraftMessage
  | UpdateEventSavedDialogPinned | UpdateEventPinnedSavedDialogs | UpdateEventNoop

record message =
  msg_ID :: int
  msg_OwnerUserID :: int
  msg_Date :: int
  msg_Peer :: peer
  msg_payload :: nat

definition no_message :: message where
  "no_message = \<lparr>msg_ID = 0, msg_OwnerUserID = 0, msg_Date = 0, msg_Peer = no_peer, msg_payload = 0\<rparr>"

record story =
  story_Owner :: peer
  story_Date :: int
  story_payload :: nat

definition no_story :: story where
  "no_story = \<lparr>story_Owner = no_peer, story_Date = 0, story_payload = 0\<rparr>"

record emoji_collectible =
  ec_CollectibleID :: int
  ec_DocumentID :: int
  ec_Title :: string
  ec_Slug :: string
  ec_PatternDocumentID :: int
  ec_CenterColor :: int
  ec_EdgeColor :: int
  ec_PatternColor :: int
  ec_TextColor :: int

definition no_collectible :: emoji_collectible where
  "no_collectible = \<lparr>ec_CollectibleID = 0, ec_DocumentID = 0, ec_Title = [], ec_Slug = [], ec_PatternDocumentID = 0,
     ec_CenterColor = 0, ec_EdgeColor = 0, ec_PatternColor = 0, ec_TextColor = 0\<rparr>"

definition collectible_Valid :: "emoji_collectible \<Rightarrow> bool" where
  "collectible_Valid s \<longleftrightarrow>
     \<not> (ec_CollectibleID s \<le> 0 \<or> ec_DocumentID s \<le> 0 \<or> ec_PatternDocumentID s \<le> 0 \<or> ec_Title s = [] \<or> ec_Slug s = []) \<and>
     list_all (\<lambda>color. \<not> (color < 0 \<or> color > 0xffffff)) [ec_CenterColor s, ec_EdgeColor s, ec_PatternColor s, ec_TextColor s]"

record emoji_status =
  es_DocumentID :: int
  es_Until :: int
  es_Collectible :: emoji_collectible

definition no_emoji_status :: emoji_status where
  "no_emoji_status = \<lparr>es_DocumentID = 0, es_Until = 0, es_Collectible = no_collectible\<rparr>"

definition emoji_status_Empty :: "emoji_status \<Rightarrow> bool" where
  "emoji_status_Empty s \<longleftrightarrow> es_DocumentID s = 0 \<and> es_Collectible s = no_collectible"

definition emoji_status_Valid :: "emoji_status \<Rightarrow> bool" where
  "emoji_status_Valid s \<longleftrightarrow>
     (if es_Until s < 0 then False
      else if emoji_status_Empty s then es_Until s = 0
      else if es_DocumentID s \<le> 0 then False
      else if es_Collectible s = no_collectible then True
      else collectible_Valid (es_Collectible s) \<and> es_DocumentID s = ec_DocumentID (es_Collectible s))"

record update_event =
  ue_UserID :: int
  ue_Type :: update_event_type
  ue_Pts :: int
  ue_PtsCount :: int
  ue_Date :: int
  ue_Message :: message
  ue_Story :: story
  ue_Peer :: peer
  ue_Peers :: "peer list"
  ue_Bool :: bool
  ue_EmojiStatus :: emoji_status
  ue_Settings :: nat
  ue_MessageIDs :: "int list"
  ue_MaxID :: int
  ue_StillUnreadCount :: int
  ue_ChannelPts :: int
  ue_TopMsgID :: int
  ue_FilterID :: int
  ue_FolderID :: int
  ue_DialogFilter :: "nat option"
  ue_FilterOrder :: "int list"
  ue_FolderPeers :: "(peer \<times> int) list"
  ue_Reaction :: "nat option"
  ue_QuickReplies :: "nat list"
  ue_QuickReply :: nat
  ue_QuickReplyMessage :: nat
  ue_Rest :: nat

definition zero_event :: update_event where
  "zero_event = \<lparr>ue_UserID = 0, ue_Type = UpdateEventNone, ue_Pts = 0, ue_PtsCount = 0, ue_Date = 0,
     ue_Message = no_message, ue_Story = no_story, ue_Peer = no_peer, ue_Peers = [], ue_Bool = False,
     ue_EmojiStatus = no_emoji_status, ue_Settings = 0, ue_MessageIDs = [], ue_MaxID = 0, ue_StillUnreadCount = 0,
     ue_ChannelPts = 0, ue_TopMsgID = 0, ue_FilterID = 0, ue_FolderID = 0, ue_DialogFilter = None,
     ue_FilterOrder = [], ue_FolderPeers = [], ue_Reaction = None, ue_QuickReplies = [], ue_QuickReply = 0,
     ue_QuickReplyMessage = 0, ue_Rest = 0\<rparr>"

definition LacksWirePts :: "update_event \<Rightarrow> bool" where
  "LacksWirePts e =
     (if ue_Type e \<in> {UpdateEventMessagePoll, UpdateEventDraftMessage, UpdateEventChannelState, UpdateEventContactsReset,
         UpdateEventDialogPinned, UpdateEventPinnedDialogs, UpdateEventSavedDialogPinned, UpdateEventPinnedSavedDialogs,
         UpdateEventDialogUnreadMark, UpdateEventPeerSettings, UpdateEventPeerStoryBlocked, UpdateEventUserPhone,
         UpdateEventUserEmojiStatus, UpdateEventDialogFilter, UpdateEventDialogFilterOrder, UpdateEventDialogFilters,
         UpdateEventChannelViewForum, UpdateEventStory, UpdateEventReadStories, UpdateEventSentStoryReaction,
         UpdateEventNewStoryReaction, UpdateEventQuickReplies, UpdateEventNewQuickReply, UpdateEventDeleteQuickReply,
         UpdateEventQuickReplyMessage, UpdateEventDeleteQuickReplyMessages} then True
      else if ue_Type e \<in> {UpdateEventReadChannelDiscussionInbox, UpdateEventReadChannelDiscussionOutbox} then True
      else if ue_Type e \<in> {UpdateEventReadHistoryInbox, UpdateEventReadHistoryOutbox} then peer_Type (ue_Peer e) = PeerTypeChannel
      else False)"

subsection \<open>The event store\<close>

type_synonym auth_key = "64 word"

record update_dispatch =
  ud_Pts :: int
  ud_ExcludeAuthKeyID :: auth_key
  ud_ExcludeSessionID :: int

record event_store =
  st_events :: "int \<Rightarrow> update_event list"
  st_dispatches :: "int \<Rightarrow> update_dispatch list"

datatype update_error =
    ErrDispatchExclusion
  | ErrCommitMode
  | ErrConfirmUserMismatch
  | ErrStoryPeerInvalid
  | ErrStarGiftCollectibleInvalid

definition NewUpdateEventStore :: event_store where
  "NewUpdateEventStore = \<lparr>st_events = (\<lambda>_. []), st_dispatches = (\<lambda>_. [])\<rparr>"

definition max_pts :: "update_event list \<Rightarrow> int" where
  "max_pts es = foldl (\<lambda>current e. if ue_Pts e > current then ue_Pts e else current) 0 es"

definition appendLocked :: "event_store \<Rightarrow> int \<Rightarrow> update_event \<Rightarrow> bool \<Rightarrow> event_store \<times> update_event" where
  "appendLocked s userID event allocate =
     (let e1 = (if ue_PtsCount event \<le> 0 then event\<lparr>ue_PtsCount := 1\<rparr> else event);
          e2 = e1\<lparr>ue_UserID := userID\<rparr>;
          e3 = (if allocate then e2\<lparr>ue_Pts := max_pts (st_events s userID) + ue_PtsCount e2\<rparr> else e2)
      in (s\<lparr>st_events := (st_events s)(userID := st_events s userID @ [e3])\<rparr>, e3))"

definition append_event :: "event_store \<Rightarrow> int \<Rightarrow> update_event \<Rightarrow> bool \<Rightarrow> bool \<Rightarrow> auth_key \<Rightarrow> int \<Rightarrow>
    update_error + (event_store \<times> update_event)" where
  "append_event s userID event allocate withDispatch excludeAuthKeyID excludeSessionID =
     (if withDispatch \<and> (excludeAuthKeyID = 0) \<noteq> (excludeSessionID = 0) then Inl ErrDispatchExclusion
      else let (s1, e) = appendLocked s userID event allocate in
        Inr (if withDispatch
             then s1\<lparr>st_dispatches := (st_dispatches s1)(userID := st_dispatches s1 userID @
                    [\<lparr>ud_Pts = ue_Pts e, ud_ExcludeAuthKeyID = excludeAuthKeyID, ud_ExcludeSessionID = excludeSessionID\<rparr>])\<rparr>
             else s1, e))"

definition Append :: "event_store \<Rightarrow> int \<Rightarrow> update_event \<Rightarrow> update_error + (event_store \<times> update_event)" where
  "Append s userID event = append_event s userID event False False 0 0"

definition AppendAllocated :: "event_store \<Rightarrow> int \<Rightarrow> update_event \<Rightarrow> update_error + (event_store \<times> update_event)" where
  "AppendAllocated s userID event = append_event s userID event True False 0 0"

definition AppendAllocatedWithDispatch :: "event_store \<Rightarrow> int \<Rightarrow> update_event \<Rightarrow> auth_key \<Rightarrow> int \<Rightarrow>
    update_error + (event_store \<times> update_event)" where
  "AppendAllocatedWithDispatch s userID event excludeAuthKeyID excludeSessionID =
     append_event s userID event True True excludeAuthKeyID excludeSessionID"

text \<open>The loop of \<^verbatim>\<open>ListAfter\<close>: \<open>taken\<close> is \<^verbatim>\<open>len(out)\<close>; the limit counts only when it is positive.\<close>

fun list_after_from :: "update_event list \<Rightarrow> int \<Rightarrow> int \<Rightarrow> int \<Rightarrow> update_event list" where
  "list_after_from [] pts limit taken = []"
| "list_after_from (e # es) pts limit taken =
     (if ue_Pts e \<le> pts then list_after_from es pts limit taken
      else e # (if limit > 0 \<and> taken + 1 \<ge> limit then [] else list_after_from es pts limit (taken + 1)))"

definition ListAfter :: "event_store \<Rightarrow> int \<Rightarrow> int \<Rightarrow> int \<Rightarrow> update_event list" where
  "ListAfter s userID pts limit = list_after_from (st_events s userID) pts limit 0"

definition FindNewMessageEvent :: "event_store \<Rightarrow> int \<Rightarrow> int \<Rightarrow> update_event option" where
  "FindNewMessageEvent s userID messageBoxID =
     (if userID = 0 \<or> messageBoxID \<le> 0 then None
      else find (\<lambda>e. ue_Type e = UpdateEventNewMessage \<and> msg_ID (ue_Message e) = messageBoxID) (st_events s userID))"

text \<open>
  \<^verbatim>\<open>MaxContiguousPts\<close>: \<open>next_by_start\<close> is the map it builds, where a later event overwrites an
  earlier one with the same start, and \<open>contiguous_from\<close> is its unbounded loop. The loop ends
  because every step goes to a larger pts of the log.
\<close>

definition count_of :: "update_event \<Rightarrow> int" where
  "count_of e = (if ue_PtsCount e \<le> 0 then 1 else ue_PtsCount e)"

definition next_by_start :: "update_event list \<Rightarrow> int \<rightharpoonup> int" where
  "next_by_start es = foldl (\<lambda>m e. m(ue_Pts e - count_of e \<mapsto> ue_Pts e)) Map.empty es"

lemma next_by_start_Some: "next_by_start es c = Some n \<Longrightarrow> \<exists>e \<in> set es. n = ue_Pts e \<and> c = ue_Pts e - count_of e"
  unfolding next_by_start_def by (induction es rule: rev_induct) (auto split: if_splits)

lemma count_of_pos [simp]: "0 < count_of e"
  by (simp add: count_of_def)

function contiguous_from :: "update_event list \<Rightarrow> int \<Rightarrow> int" where
  "contiguous_from es contiguous =
     (case next_by_start es contiguous of None \<Rightarrow> contiguous | Some n \<Rightarrow> contiguous_from es n)"
  by pat_completeness auto
termination
proof (relation "measure (\<lambda>(es, c). card {e \<in> set es. ue_Pts e > c})")
  show "wf (measure (\<lambda>(es, c). card {e \<in> set es. c < ue_Pts e}))" by simp
  fix es c n assume "next_by_start es c = Some n"
  from next_by_start_Some [OF this] obtain e where e: "e \<in> set es" "n = ue_Pts e" "c = n - count_of e" by blast
  have "c < n" using e(3) count_of_pos [of e] by linarith
  then have "e \<in> {e \<in> set es. c < ue_Pts e}" "e \<notin> {e \<in> set es. n < ue_Pts e}"
    "{e \<in> set es. n < ue_Pts e} \<subseteq> {e \<in> set es. c < ue_Pts e}" using e(1,2) by auto
  then have "{e \<in> set es. n < ue_Pts e} \<subset> {e \<in> set es. c < ue_Pts e}" by blast
  then have "card {e \<in> set es. n < ue_Pts e} < card {e \<in> set es. c < ue_Pts e}" by (intro psubset_card_mono) simp_all
  then show "((es, n), (es, c)) \<in> measure (\<lambda>(es, c). card {e \<in> set es. c < ue_Pts e})" by simp
qed

declare contiguous_from.simps [simp del]

definition MaxContiguousPts :: "event_store \<Rightarrow> int \<Rightarrow> int" where
  "MaxContiguousPts s userID = contiguous_from (st_events s userID) 0"

subsection \<open>The state store\<close>

record update_state =
  us_Pts :: int
  us_Qts :: int
  us_Date :: int
  us_Seq :: int

definition zero_state :: update_state where
  "zero_state = \<lparr>us_Pts = 0, us_Qts = 0, us_Date = 0, us_Seq = 0\<rparr>"

record state_store =
  ss_states :: "auth_key \<times> int \<rightharpoonup> update_state"
  ss_observed :: "auth_key \<times> int \<rightharpoonup> update_state"

definition NewUpdateStateStore :: state_store where
  "NewUpdateStateStore = \<lparr>ss_states = Map.empty, ss_observed = Map.empty\<rparr>"

definition state_of :: "(auth_key \<times> int \<rightharpoonup> update_state) \<Rightarrow> auth_key \<times> int \<Rightarrow> update_state" where
  "state_of m key = (case m key of None \<Rightarrow> zero_state | Some st \<Rightarrow> st)"

definition monotonicUpdateState :: "update_state \<Rightarrow> update_state \<Rightarrow> update_state" where
  "monotonicUpdateState prev st =
     (let st1 = (if us_Pts st < us_Pts prev then st\<lparr>us_Pts := us_Pts prev\<rparr> else st);
          st2 = (if us_Qts st1 < us_Qts prev then st1\<lparr>us_Qts := us_Qts prev\<rparr> else st1);
          st3 = (if us_Date st2 < us_Date prev then st2\<lparr>us_Date := us_Date prev\<rparr> else st2)
      in if us_Seq st3 < us_Seq prev then st3\<lparr>us_Seq := us_Seq prev\<rparr> else st3)"

definition state_Get :: "state_store \<Rightarrow> auth_key \<Rightarrow> int \<Rightarrow> update_state option" where
  "state_Get s authKeyID userID = ss_states s (authKeyID, userID)"

definition state_Save :: "state_store \<Rightarrow> auth_key \<Rightarrow> int \<Rightarrow> update_state \<Rightarrow> state_store" where
  "state_Save s authKeyID userID st =
     (let key = (authKeyID, userID); prev = state_of (ss_states s) key;
          st1 = (if us_Pts st < us_Pts prev then st\<lparr>us_Pts := us_Pts prev\<rparr> else st);
          st2 = (if us_Qts st1 < us_Qts prev then st1\<lparr>us_Qts := us_Qts prev\<rparr> else st1);
          st3 = (if us_Date st2 < us_Date prev then st2\<lparr>us_Date := us_Date prev\<rparr> else st2);
          st4 = (if us_Seq st3 < us_Seq prev then st3\<lparr>us_Seq := us_Seq prev\<rparr> else st3)
      in s\<lparr>ss_states := (ss_states s)(key \<mapsto> st4)\<rparr>)"

datatype commit_mode = CommitModeInvalid int | UpdateStateCommitDeliveredOnly | UpdateStateCommitDeliveredAndObservedBaseline

definition mode_valid :: "commit_mode \<Rightarrow> bool" where
  "mode_valid mode \<longleftrightarrow> \<not> (mode \<noteq> UpdateStateCommitDeliveredOnly \<and> mode \<noteq> UpdateStateCommitDeliveredAndObservedBaseline)"

definition state_Observe :: "state_store \<Rightarrow> auth_key \<Rightarrow> int \<Rightarrow> update_state \<Rightarrow> state_store" where
  "state_Observe s authKeyID userID st =
     s\<lparr>ss_observed := (ss_observed s)((authKeyID, userID) \<mapsto> monotonicUpdateState (state_of (ss_observed s) (authKeyID, userID)) st)\<rparr>"

definition state_Commit :: "state_store \<Rightarrow> auth_key \<Rightarrow> int \<Rightarrow> update_state \<Rightarrow> commit_mode \<Rightarrow> update_error + state_store" where
  "state_Commit s authKeyID userID st mode =
     (if \<not> mode_valid mode then Inl ErrCommitMode
      else let key = (authKeyID, userID);
               s1 = s\<lparr>ss_states := (ss_states s)(key \<mapsto> monotonicUpdateState (state_of (ss_states s) key) st)\<rparr>
           in Inr (if mode = UpdateStateCommitDeliveredAndObservedBaseline
                   then s1\<lparr>ss_observed := (ss_observed s1)(key \<mapsto> monotonicUpdateState (state_of (ss_observed s1) key) st)\<rparr>
                   else s1))"

definition state_ObservedClientState :: "state_store \<Rightarrow> auth_key \<Rightarrow> int \<Rightarrow> update_state option" where
  "state_ObservedClientState s authKeyID userID = ss_observed s (authKeyID, userID)"

definition state_Delete :: "state_store \<Rightarrow> auth_key \<Rightarrow> int \<Rightarrow> state_store" where
  "state_Delete s authKeyID userID =
     s\<lparr>ss_states := (ss_states s)((authKeyID, userID) := None), ss_observed := (ss_observed s)((authKeyID, userID) := None)\<rparr>"

text \<open>Deleting while ranging over a Go map visits every key; both loops together clear the auth key.\<close>

definition state_DeleteAuthKey :: "state_store \<Rightarrow> auth_key \<Rightarrow> state_store" where
  "state_DeleteAuthKey s authKeyID =
     (let s1 = s\<lparr>ss_states := (\<lambda>k. if fst k = authKeyID then None else ss_states s k),
                ss_observed := (\<lambda>k. if fst k = authKeyID \<and> ss_states s k \<noteq> None then None else ss_observed s k)\<rparr>
      in s1\<lparr>ss_observed := (\<lambda>k. if fst k = authKeyID then None else ss_observed s1 k)\<rparr>)"

end
