(* ===== verification/Update_Contract.thy ===== *)
theory Update_Contract
  imports Update_Log
begin

text \<open>
  The contract of the durable log. \<open>chained c es\<close> says that the events take up the pts units after
  \<open>c\<close> without gap or overlap, each event as many as its \<^verbatim>\<open>PtsCount\<close>. The locale \<open>durable_log\<close> states
  what the update service relies on; the memory store provides it as long as events are only
  appended with allocated pts, which is what the service does.
\<close>

subsection \<open>Chains of events\<close>

fun chained :: "int \<Rightarrow> update_event list \<Rightarrow> bool" where
  "chained c [] \<longleftrightarrow> True"
| "chained c (e # es) \<longleftrightarrow> 0 < ue_PtsCount e \<and> ue_Pts e = c + ue_PtsCount e \<and> chained (ue_Pts e) es"

definition top_pts :: "int \<Rightarrow> update_event list \<Rightarrow> int" where
  "top_pts c es = (if es = [] then c else ue_Pts (last es))"

lemma top_pts_simps [simp]:
  "top_pts c [] = c" "top_pts c (e # es) = top_pts (ue_Pts e) es" "top_pts c (es @ [e]) = ue_Pts e"
  by (simp_all add: top_pts_def)

lemma top_pts_append: "top_pts c (es @ fs) = top_pts (top_pts c es) fs"
  by (induction es arbitrary: c) auto

lemma chained_append [simp]: "chained c (es @ fs) \<longleftrightarrow> chained c es \<and> chained (top_pts c es) fs"
  by (induction es arbitrary: c) auto

lemma chained_above: "chained c es \<Longrightarrow> e \<in> set es \<Longrightarrow> c < ue_Pts e"
  by (induction es arbitrary: c) fastforce+

lemma chained_le_top: "chained c es \<Longrightarrow> c \<le> top_pts c es"
proof (induction es arbitrary: c)
  case (Cons e es)
  then have "ue_Pts e \<le> top_pts (ue_Pts e) es" "c < ue_Pts e" by auto
  then show ?case by simp
qed simp

lemma chained_below: "chained c es \<Longrightarrow> e \<in> set es \<Longrightarrow> ue_Pts e \<le> top_pts c es"
  by (induction es arbitrary: c) (auto dest: chained_le_top)

lemma chained_sorted: "chained c es \<Longrightarrow> sorted_wrt (\<lambda>a b. ue_Pts a < ue_Pts b) es"
  by (induction es arbitrary: c) (auto dest: chained_above)

lemma chained_take: "chained c es \<Longrightarrow> chained c (take n es)"
  using chained_append [of c "take n es" "drop n es"] by simp

lemma chained_inj: "chained c es \<Longrightarrow> a \<in> set es \<Longrightarrow> b \<in> set es \<Longrightarrow> ue_Pts a = ue_Pts b \<Longrightarrow> a = b"
proof (induction es arbitrary: c)
  case (Cons e es)
  have chain: "chained (ue_Pts e) es" using Cons.prems(1) unfolding chained.simps by blast
  have above: "ue_Pts x \<noteq> ue_Pts e" if "x \<in> set es" for x using chained_above [OF chain that] by simp
  from Cons.prems(2,3) consider "a = e" "b = e" | "a = e" "b \<in> set es" | "a \<in> set es" "b = e" | "a \<in> set es" "b \<in> set es"
    by auto
  then show ?case
  proof cases
    case 4
    then show ?thesis by (rule Cons.IH [OF chain _ _ Cons.prems(4)])
  qed (use above Cons.prems(4) in \<open>metis\<close>)+
qed simp

lemma chained_distinct: "chained c es \<Longrightarrow> distinct es"
proof (induction es arbitrary: c)
  case (Cons e es)
  then have "e \<notin> set es" using chained_above [of "ue_Pts e" es e] by auto
  with Cons show ?case by auto
qed simp

lemma top_is_count: "chained c es \<Longrightarrow> top_pts c es = c + (\<Sum>e \<leftarrow> es. ue_PtsCount e)"
  by (induction es arbitrary: c) auto

lemma filter_chain_split:
  assumes "chained 0 (pre @ suf)" "top_pts 0 pre = p"
  shows "filter (\<lambda>e. p < ue_Pts e) (pre @ suf) = suf"
proof -
  have "filter (\<lambda>e. p < ue_Pts e) pre = []" using assms chained_below [of 0 pre] by (force simp: filter_empty_conv)
  moreover have "filter (\<lambda>e. p < ue_Pts e) suf = suf" using assms chained_above [of p suf] by (simp add: filter_id_conv)
  ultimately show ?thesis by simp
qed

subsection \<open>The contract\<close>

locale durable_log =
  fixes log :: "'s \<Rightarrow> int \<Rightarrow> update_event list"
    and ok :: "'s \<Rightarrow> bool"
    and alloc :: "'s \<Rightarrow> int \<Rightarrow> update_event \<Rightarrow> 's \<times> update_event"
    and list_after :: "'s \<Rightarrow> int \<Rightarrow> int \<Rightarrow> int \<Rightarrow> update_event list"
    and water :: "'s \<Rightarrow> int \<Rightarrow> int"
  assumes chain: "ok s \<Longrightarrow> chained 0 (log s u)"
    and alloc_log: "ok s \<Longrightarrow> 0 < ue_PtsCount e \<Longrightarrow> alloc s u e = (s', e') \<Longrightarrow>
      e' = e\<lparr>ue_UserID := u, ue_Pts := top_pts 0 (log s u) + ue_PtsCount e\<rparr> \<and>
      ok s' \<and> log s' = (log s)(u := log s u @ [e'])"
    and list_after_log: "ok s \<Longrightarrow> 0 < n \<Longrightarrow> list_after s u p n = take (nat n) (filter (\<lambda>e. p < ue_Pts e) (log s u))"
    and water_log: "ok s \<Longrightarrow> water s u = top_pts 0 (log s u)"
begin

text \<open>A cursor is a boundary of the log when some prefix of it ends there.\<close>

definition boundary :: "'s \<Rightarrow> int \<Rightarrow> int \<Rightarrow> bool" where
  "boundary s u p \<longleftrightarrow> (\<exists>pre suf. log s u = pre @ suf \<and> top_pts 0 pre = p)"

definition after :: "'s \<Rightarrow> int \<Rightarrow> int \<Rightarrow> update_event list" where
  "after s u p = filter (\<lambda>e. p < ue_Pts e) (log s u)"

lemma after_split: "ok s \<Longrightarrow> log s u = pre @ suf \<Longrightarrow> top_pts 0 pre = p \<Longrightarrow> after s u p = suf"
  unfolding after_def using filter_chain_split [of pre suf p] chain [of s u] by simp

lemma after_chained: "ok s \<Longrightarrow> boundary s u p \<Longrightarrow> chained p (after s u p)"
proof -
  assume ok: "ok s" and "boundary s u p"
  then obtain pre suf where s: "log s u = pre @ suf" "top_pts 0 pre = p" unfolding boundary_def by blast
  with chain [OF ok, of u] after_split [OF ok s] show ?thesis by simp
qed

lemma after_top: "ok s \<Longrightarrow> boundary s u p \<Longrightarrow> top_pts p (after s u p) = water s u"
proof -
  assume ok: "ok s" and "boundary s u p"
  then obtain pre suf where s: "log s u = pre @ suf" "top_pts 0 pre = p" unfolding boundary_def by blast
  with after_split [OF ok s] show ?thesis by (simp add: water_log [OF ok] top_pts_append)
qed

lemma page: "ok s \<Longrightarrow> boundary s u p \<Longrightarrow> 0 < n \<Longrightarrow> list_after s u p n = take (nat n) (after s u p)"
  by (simp add: list_after_log after_def)

lemma next_page:
  assumes "ok s" "boundary s u p" "q = top_pts p (take k (after s u p))"
  shows "boundary s u q \<and> after s u q = drop k (after s u p)"
proof -
  from assms(2) obtain pre suf where s: "log s u = pre @ suf" "top_pts 0 pre = p" unfolding boundary_def by blast
  have a: "after s u p = suf" by (rule after_split [OF assms(1) s])
  have "log s u = (pre @ take k suf) @ drop k suf" "top_pts 0 (pre @ take k suf) = q"
    using s assms(3) a by (simp_all add: top_pts_append)
  then show ?thesis using after_split [OF assms(1), of u "pre @ take k suf" "drop k suf" q] a
    unfolding boundary_def by blast
qed

lemma boundary_zero [simp]: "boundary s u 0"
  unfolding boundary_def by (rule exI [of _ "[]"]) simp

lemma boundary_water: "ok s \<Longrightarrow> boundary s u (water s u)"
  unfolding boundary_def by (rule exI [of _ "log s u"]) (simp add: water_log)

end

subsection \<open>The memory store provides it\<close>

definition log_ok :: "event_store \<Rightarrow> bool" where
  "log_ok s \<longleftrightarrow> (\<forall>u. chained 0 (st_events s u))"

lemma max_pts_fold: "(foldl (\<lambda>current e. if ue_Pts e > current then ue_Pts e else current) c es) = foldl max c (map ue_Pts es)"
  by (induction es arbitrary: c) (auto simp: max_def)

lemma max_pts_chained: "chained c es \<Longrightarrow> foldl max c (map ue_Pts es) = top_pts c es"
  by (induction es arbitrary: c) (auto simp: max_def)

lemma list_after_take:
  "0 < limit \<Longrightarrow> taken < limit \<Longrightarrow>
     list_after_from es pts limit taken = take (nat (limit - taken)) (filter (\<lambda>e. pts < ue_Pts e) es)"
proof (induction es arbitrary: taken)
  case (Cons e es)
  show ?case
  proof (cases "ue_Pts e \<le> pts")
    case True
    then show ?thesis using Cons by simp
  next
    case False
    then have n: "nat (limit - taken) = Suc (nat (limit - (taken + 1)))" using Cons.prems by simp
    show ?thesis
    proof (cases "taken + 1 \<ge> limit")
      case True
      then show ?thesis using False Cons.prems n by simp
    next
      case F: False
      then show ?thesis using False Cons.IH [of "taken + 1"] Cons.prems n by simp
    qed
  qed
qed simp

lemma next_by_start_snoc: "next_by_start (es @ [e]) = (next_by_start es)(ue_Pts e - count_of e \<mapsto> ue_Pts e)"
  by (simp add: next_by_start_def)

lemma count_of_chained: "chained c es \<Longrightarrow> e \<in> set es \<Longrightarrow> count_of e = ue_PtsCount e"
  by (induction es arbitrary: c) (auto simp: count_of_def)

lemma next_by_start_chained:
  assumes "chained c (pre @ e # suf)"
  shows "next_by_start (pre @ e # suf) (top_pts c pre) = Some (ue_Pts e)"
  using assms
proof (induction suf rule: rev_induct)
  case Nil
  have "count_of e = ue_PtsCount e" using count_of_chained [OF Nil, of e] by simp
  then show ?case using Nil by (simp add: next_by_start_snoc)
next
  case (snoc f suf)
  have c: "chained c ((pre @ e # suf) @ [f])" using snoc.prems by (simp only: append_assoc append_Cons)
  have pre: "chained c (pre @ e # suf)" using c chained_append by blast
  have "chained (top_pts c (pre @ e # suf)) [f]" using c chained_append by blast
  then have f: "ue_Pts f = top_pts c (pre @ e # suf) + ue_PtsCount f" "0 < ue_PtsCount f"
    unfolding chained.simps by blast+
  have "count_of f = ue_PtsCount f" using f(2) by (simp add: count_of_def)
  then have start: "ue_Pts f - count_of f = top_pts c (pre @ e # suf)" using f by simp
  have "chained (top_pts c pre) (e # suf)" using pre chained_append by blast
  then have "top_pts c pre < ue_Pts e" "ue_Pts e \<le> top_pts (ue_Pts e) suf"
    unfolding chained.simps by (auto intro: chained_le_top)
  then have lt: "top_pts c pre \<noteq> top_pts c (pre @ e # suf)" by (simp add: top_pts_append)
  have eq: "pre @ e # suf @ [f] = (pre @ e # suf) @ [f]" by simp
  show ?case unfolding eq next_by_start_snoc start fun_upd_other [OF lt] by (rule snoc.IH [OF pre])
qed

lemma contiguous_chained: "chained 0 es \<Longrightarrow> es = pre @ suf \<Longrightarrow> contiguous_from es (top_pts 0 pre) = top_pts 0 es"
proof (induction suf arbitrary: pre)
  case Nil
  have "next_by_start es (top_pts 0 es) = None"
  proof (rule ccontr)
    assume "next_by_start es (top_pts 0 es) \<noteq> None"
    then obtain e where "e \<in> set es" "top_pts 0 es = ue_Pts e - count_of e" using next_by_start_Some by blast
    with chained_below [OF Nil.prems(1), of e] count_of_pos [of e] show False by linarith
  qed
  with Nil.prems(2) show ?case by (subst contiguous_from.simps) simp
next
  case (Cons e suf)
  have "chained 0 (pre @ e # suf)" using Cons.prems by (simp only:)
  then have "next_by_start es (top_pts 0 pre) = Some (ue_Pts e)"
    unfolding Cons.prems(2) by (rule next_by_start_chained)
  then have "contiguous_from es (top_pts 0 pre) = contiguous_from es (ue_Pts e)" by (simp add: contiguous_from.simps [of es "top_pts 0 pre"])
  also have "\<dots> = top_pts 0 es"
  proof -
    have "es = (pre @ [e]) @ suf" using Cons.prems(2) by simp
    from Cons.IH [OF Cons.prems(1) this] show ?thesis by (simp only: top_pts_simps)
  qed
  finally show ?case .
qed

lemma MaxContiguousPts_ok: "log_ok s \<Longrightarrow> MaxContiguousPts s u = top_pts 0 (st_events s u)"
  using contiguous_chained [of "st_events s u" "[]"] by (simp add: MaxContiguousPts_def log_ok_def)

definition allocate_event :: "event_store \<Rightarrow> int \<Rightarrow> update_event \<Rightarrow> event_store \<times> update_event" where
  "allocate_event s u e = appendLocked s u e True"

interpretation mem: durable_log st_events log_ok allocate_event ListAfter MaxContiguousPts
proof unfold_locales
  show "log_ok s \<Longrightarrow> chained 0 (st_events s u)" for s u by (simp add: log_ok_def)
  show "e' = e\<lparr>ue_UserID := u, ue_Pts := top_pts 0 (st_events s u) + ue_PtsCount e\<rparr> \<and>
      log_ok s' \<and> st_events s' = (st_events s)(u := st_events s u @ [e'])"
    if "log_ok s" "0 < ue_PtsCount e" "allocate_event s u e = (s', e')" for s e u s' e'
    using that max_pts_chained [of 0 "st_events s u"]
    by (auto simp: allocate_event_def appendLocked_def Let_def max_pts_def max_pts_fold log_ok_def)
  show "ListAfter s u p n = take (nat n) (filter (\<lambda>e. p < ue_Pts e) (st_events s u))" if "log_ok s" "0 < n" for s u p n
    using that list_after_take [of n 0 "st_events s u" p] by (simp add: ListAfter_def)
  show "MaxContiguousPts s u = top_pts 0 (st_events s u)" if "log_ok s" for s u
    using that by (rule MaxContiguousPts_ok)
qed

lemma log_ok_new: "log_ok NewUpdateEventStore"
  by (simp add: log_ok_def NewUpdateEventStore_def)

subsection \<open>Monotone device states\<close>

definition state_le :: "update_state \<Rightarrow> update_state \<Rightarrow> bool" where
  "state_le a b \<longleftrightarrow> us_Pts a \<le> us_Pts b \<and> us_Qts a \<le> us_Qts b \<and> us_Date a \<le> us_Date b \<and> us_Seq a \<le> us_Seq b"

definition state_max :: "update_state \<Rightarrow> update_state \<Rightarrow> update_state" where
  "state_max a b = \<lparr>us_Pts = max (us_Pts a) (us_Pts b), us_Qts = max (us_Qts a) (us_Qts b),
     us_Date = max (us_Date a) (us_Date b), us_Seq = max (us_Seq a) (us_Seq b)\<rparr>"

lemma monotonic_is_max: "monotonicUpdateState prev st = state_max prev st"
  by (rule update_state.equality) (simp_all add: monotonicUpdateState_def state_max_def Let_def max_def)

lemma state_Save_max:
  "state_Save s a u st = s\<lparr>ss_states := (ss_states s)((a, u) \<mapsto> state_max (state_of (ss_states s) (a, u)) st)\<rparr>"
  using monotonic_is_max [of "state_of (ss_states s) (a, u)" st]
  by (simp add: state_Save_def monotonicUpdateState_def Let_def)

lemma state_max_upper: "state_le a (state_max a b)" "state_le b (state_max a b)"
  by (simp_all add: state_le_def state_max_def)

lemma state_le_trans: "state_le a b \<Longrightarrow> state_le b c \<Longrightarrow> state_le a c"
  by (auto simp: state_le_def)

lemma state_le_refl [simp]: "state_le a a"
  by (simp add: state_le_def)

end
