(* ===== verification/Update_Service.thy ===== *)
theory Update_Service
  imports Update_Contract
begin

text \<open>
  The update service, \<^verbatim>\<open>internal/app/updates/service.go\<close>, over the memory stores.

  \<^item> Either store may be absent (\<^verbatim>\<open>nil\<close>), as in the code. \<open>now\<close> is \<^verbatim>\<open>int(time.Now().Unix())\<close>.
  \<^item> \<open>cp\<close> is what \<^verbatim>\<open>UserUpdateRetentionCheckpoint\<close> answers: \<open>None\<close> when the event store does not
    offer it (the memory store), \<open>Some None\<close> when no checkpoint is found, \<open>Some (Some (pts, date))\<close>
    otherwise. \<^verbatim>\<open>GetDifference\<close> may ask twice, so it takes two answers.
  \<^item> A method of the service makes several calls of the stores, each under the store's own lock.
    Other requests may run between two of them: \<open>mid i\<close> is what they do to the stores at the
    \<open>i\<close>th such point of the method (\<open>idle\<close> when nothing happens). A store call is one step.
  \<^item> Log lines are left out. Where two events of a log share a pts the order \<^verbatim>\<open>sort.Slice\<close> gives them
    is not specified by Go; the model keeps their order. Allocated events never share one.
\<close>

subsection \<open>State and answers\<close>

record update_service =
  sv_states :: "state_store option"
  sv_events :: "event_store option"

record update_difference =
  df_State :: update_state
  df_Events :: "update_event list"
  df_ChannelNudges :: "nat list"
  df_Partial :: bool

type_synonym checkpoint_reading = "(int \<times> int) option option"
type_synonym meanwhile = "nat \<Rightarrow> update_service \<Rightarrow> update_service"
type_synonym recorded = "update_error + (update_service \<times> update_event \<times> update_state)"

definition idle :: meanwhile where
  "idle i s = s"

definition NewService :: "state_store option \<Rightarrow> event_store option \<Rightarrow> update_service" where
  "NewService states events = \<lparr>sv_states = states, sv_events = events\<rparr>"

definition UsesReliableDispatch :: "update_service \<Rightarrow> bool" where
  "UsesReliableDispatch s \<longleftrightarrow> sv_events s \<noteq> None"

subsection \<open>States of an account and of its devices\<close>

definition currentPts :: "update_service \<Rightarrow> int \<Rightarrow> int" where
  "currentPts s userID = (case sv_events s of None \<Rightarrow> 0 | Some ev \<Rightarrow> MaxContiguousPts ev userID)"

definition currentState :: "int \<Rightarrow> update_service \<Rightarrow> int \<Rightarrow> update_state" where
  "currentState now s userID = zero_state\<lparr>us_Pts := currentPts s userID, us_Date := now, us_Seq := 0\<rparr>"

definition CurrentState :: "int \<Rightarrow> update_service \<Rightarrow> int \<Rightarrow> update_state" where
  "CurrentState now s userID = currentState now s userID"

text \<open>\<^verbatim>\<open>s.states.Save\<close>, when the service has a state store.\<close>

definition state_save :: "update_service \<Rightarrow> auth_key \<Rightarrow> int \<Rightarrow> update_state \<Rightarrow> update_service" where
  "state_save s authKeyID userID st =
     (case sv_states s of
        None \<Rightarrow> s
      | Some ss \<Rightarrow> s\<lparr>sv_states := Some (state_Save ss authKeyID userID st)\<rparr>)"

definition GetState :: "int \<Rightarrow> meanwhile \<Rightarrow> update_service \<Rightarrow> auth_key \<Rightarrow> int \<Rightarrow> update_service \<times> update_state" where
  "GetState now mid s authKeyID userID =
     (case sv_states s of
        None \<Rightarrow> (s, zero_state\<lparr>us_Pts := currentPts s userID, us_Date := now, us_Seq := 0\<rparr>)
      | Some ss \<Rightarrow>
          (case state_Get ss authKeyID userID of
             Some st \<Rightarrow>
               (let st1 = st\<lparr>us_Seq := 0\<rparr>
                in (s, if us_Date st1 = 0 then st1\<lparr>us_Date := now\<rparr> else st1))
           | None \<Rightarrow>
               (let s1 = mid 0 s;
                    st = zero_state\<lparr>us_Pts := currentPts s1 userID, us_Date := now, us_Seq := 0\<rparr>
                in (state_save (mid 1 s1) authKeyID userID st, st))))"

definition ConfirmedState :: "update_service \<Rightarrow> auth_key \<Rightarrow> int \<Rightarrow> update_state \<times> bool" where
  "ConfirmedState s authKeyID userID =
     (case sv_states s of
        None \<Rightarrow> (zero_state, False)
      | Some ss \<Rightarrow>
          (case state_Get ss authKeyID userID of
             None \<Rightarrow> (zero_state\<lparr>us_Seq := 0\<rparr>, False)
           | Some st \<Rightarrow> (st\<lparr>us_Seq := 0\<rparr>, True)))"

definition saveConfirmedState :: "update_service \<Rightarrow> auth_key \<Rightarrow> int \<Rightarrow> update_state \<Rightarrow> update_service" where
  "saveConfirmedState s authKeyID userID st =
     state_save s authKeyID userID (st\<lparr>us_Seq := 0\<rparr>)"

definition observeClientState :: "update_service \<Rightarrow> auth_key \<Rightarrow> int \<Rightarrow> update_state \<Rightarrow> update_service" where
  "observeClientState s authKeyID userID st =
     (case sv_states s of
        None \<Rightarrow> s
      | Some ss \<Rightarrow> s\<lparr>sv_states := Some (state_Observe ss authKeyID userID (st\<lparr>us_Seq := 0\<rparr>))\<rparr>)"

definition clampDifferenceState :: "update_state \<Rightarrow> update_state \<Rightarrow> update_state" where
  "clampDifferenceState from current =
     (let f1 = (if us_Pts from < 0 then from\<lparr>us_Pts := 0\<rparr> else from);
          f2 = (if us_Pts f1 > us_Pts current then f1\<lparr>us_Pts := us_Pts current\<rparr> else f1)
      in f2\<lparr>us_Seq := 0\<rparr>)"

definition ConfirmEvent :: "int \<Rightarrow> update_service \<Rightarrow> auth_key \<Rightarrow> int \<Rightarrow> update_event \<Rightarrow> update_error + update_service" where
  "ConfirmEvent now s authKeyID userID event =
     (if ue_UserID event \<noteq> 0 \<and> ue_UserID event \<noteq> userID then Inl ErrConfirmUserMismatch
      else if ue_Pts event \<le> 0 then Inr s
      else let date = (if ue_Date event = 0 then now else ue_Date event)
           in Inr (saveConfirmedState s authKeyID userID
                (zero_state\<lparr>us_Pts := ue_Pts event, us_Date := date, us_Seq := 0\<rparr>)))"

definition ObserveDifferenceRequest :: "int \<Rightarrow> meanwhile \<Rightarrow> update_service \<Rightarrow> auth_key \<Rightarrow> int \<Rightarrow> update_state \<Rightarrow>
    update_service \<times> update_state" where
  "ObserveDifferenceRequest now mid s authKeyID userID from =
     (let from' = clampDifferenceState from (currentState now s userID)
      in (observeClientState (mid 0 s) authKeyID userID from', from'))"

definition CommitDeliveredState :: "update_service \<Rightarrow> auth_key \<Rightarrow> int \<Rightarrow> update_state \<Rightarrow> commit_mode \<Rightarrow>
    update_error + update_service" where
  "CommitDeliveredState s authKeyID userID st mode =
     (case sv_states s of
        None \<Rightarrow> Inr s
      | Some ss \<Rightarrow>
          if \<not> mode_valid mode then Inl ErrCommitMode
          else (case state_Commit ss authKeyID userID (st\<lparr>us_Seq := 0\<rparr>) mode of
                  Inl e \<Rightarrow> Inl e
                | Inr ss' \<Rightarrow> Inr (s\<lparr>sv_states := Some ss'\<rparr>)))"

definition ClearAuthKey :: "update_service \<Rightarrow> auth_key \<Rightarrow> update_service" where
  "ClearAuthKey s authKeyID =
     (case sv_states s of None \<Rightarrow> s | Some ss \<Rightarrow> s\<lparr>sv_states := Some (state_DeleteAuthKey ss authKeyID)\<rparr>)"

subsection \<open>The difference\<close>

definition getDifferenceLimit :: int where
  "getDifferenceLimit = 100"

text \<open>The loop of \<^verbatim>\<open>contiguousPrefixAndGap\<close> over the sorted events: the prefix, the event at the gap and the expected pts.\<close>

fun contiguous_loop :: "update_event list \<Rightarrow> int \<Rightarrow> update_event list \<times> (update_event \<times> int) option" where
  "contiguous_loop [] cursor = ([], None)"
| "contiguous_loop (e # es) cursor =
     (if ue_Pts e \<noteq> cursor + count_of e then ([], Some (e, cursor + count_of e))
      else let (out, gap) = contiguous_loop es (ue_Pts e) in (e # out, gap))"

definition contiguousPrefixAndGap :: "update_event list \<Rightarrow> int \<Rightarrow> update_event list \<times> (update_event \<times> int) option" where
  "contiguousPrefixAndGap events from =
     (if events = [] then ([], None)
      else contiguous_loop (sort_slice (\<lambda>a b. ue_Pts a < ue_Pts b) events) from)"

definition contiguousPrefix :: "update_event list \<Rightarrow> int \<Rightarrow> update_event list" where
  "contiguousPrefix events from = fst (contiguousPrefixAndGap events from)"

definition retainedPrefixCheckpoint :: "checkpoint_reading \<Rightarrow> update_state \<Rightarrow> update_state \<Rightarrow> update_difference option" where
  "retainedPrefixCheckpoint cp from current =
     (case cp of
        Some (Some (pts, date)) \<Rightarrow>
          if us_Pts from \<ge> pts then None
          else let c1 = from\<lparr>us_Pts := pts, us_Seq := 0\<rparr>;
                   c2 = (if date > 0 then c1\<lparr>us_Date := date\<rparr>
                         else if us_Date c1 = 0 then c1\<lparr>us_Date := us_Date current\<rparr> else c1)
               in Some \<lparr>df_State = c2, df_Events = [], df_ChannelNudges = [], df_Partial = True\<rparr>
      | _ \<Rightarrow> None)"

text \<open>
  The current pts is read first and the events are listed later, in the service \<open>mid 0 s\<close>. The field
  \<^verbatim>\<open>s.events\<close> itself is set once and never changes.
\<close>

definition listed_after :: "update_service \<Rightarrow> int \<Rightarrow> int \<Rightarrow> int \<Rightarrow> update_event list" where
  "listed_after s userID pts limit = (case sv_events s of None \<Rightarrow> [] | Some ev \<Rightarrow> ListAfter ev userID pts limit)"

definition GetDifference :: "int \<Rightarrow> meanwhile \<Rightarrow> update_service \<Rightarrow> checkpoint_reading \<Rightarrow> checkpoint_reading \<Rightarrow> int \<Rightarrow> update_state \<Rightarrow>
    update_difference" where
  "GetDifference now mid s cp cp' userID from0 =
     (let st = currentState now s userID;
          from = clampDifferenceState from0 st
      in case retainedPrefixCheckpoint cp from st of
           Some checkpoint \<Rightarrow> checkpoint
         | None \<Rightarrow>
             if sv_events s = None \<or> us_Pts from \<ge> us_Pts st
             then \<lparr>df_State = (if us_Date from \<noteq> 0 then st\<lparr>us_Date := us_Date from\<rparr> else st),
                    df_Events = [], df_ChannelNudges = [], df_Partial = False\<rparr>
             else let events = listed_after (mid 0 s) userID (us_Pts from) getDifferenceLimit;
                      contiguous = fst (contiguousPrefixAndGap events (us_Pts from));
                      again = (if contiguous = [] \<and> us_Pts from < us_Pts st
                               then retainedPrefixCheckpoint cp' from st else None)
                  in (case again of
                        Some checkpoint \<Rightarrow> checkpoint
                      | None \<Rightarrow>
                          let last' = (if contiguous \<noteq> [] then ue_Pts (last contiguous) else us_Pts from);
                              out = st\<lparr>us_Pts := last', us_Seq := 0\<rparr>
                          in \<lparr>df_State = (if contiguous \<noteq> [] then out\<lparr>us_Date := ue_Date (last contiguous)\<rparr> else out),
                              df_Events = contiguous, df_ChannelNudges = [],
                              df_Partial = (int (length contiguous) = getDifferenceLimit)\<rparr>))"

subsection \<open>Recording events\<close>

text \<open>
  A recording is two store calls: the event is appended (\<open>append_recorded\<close>), then the state of the
  device is saved.
\<close>

definition append_recorded :: "int \<Rightarrow> update_service \<Rightarrow> auth_key \<Rightarrow> int \<Rightarrow> update_event \<Rightarrow> bool \<Rightarrow> int \<Rightarrow>
    update_error + (update_service \<times> update_event \<times> update_state)" where
  "append_recorded now s excludeAuthKeyID userID event dispatch excludeSessionID =
     (let date = (if ue_Date event = 0 then now else ue_Date event);
          e1 = (if ue_PtsCount event = 0 then event\<lparr>ue_PtsCount := 1\<rparr> else event);
          e2 = e1\<lparr>ue_UserID := userID, ue_Date := date\<rparr>;
          st = zero_state\<lparr>us_Date := date, us_Seq := 0\<rparr>
      in case sv_events s of
           None \<Rightarrow>
             (let e3 = e2\<lparr>ue_Pts := currentPts s userID + ue_PtsCount e2\<rparr> in Inr (s, e3, st\<lparr>us_Pts := ue_Pts e3\<rparr>))
         | Some ev \<Rightarrow>
             (case (if dispatch then AppendAllocatedWithDispatch ev userID e2 excludeAuthKeyID excludeSessionID
                    else AppendAllocated ev userID e2) of
                Inl err \<Rightarrow> Inl err
              | Inr (ev', e3) \<Rightarrow> Inr (s\<lparr>sv_events := Some ev'\<rparr>, e3, st\<lparr>us_Pts := ue_Pts e3\<rparr>)))"

definition recordEventCore :: "int \<Rightarrow> meanwhile \<Rightarrow> update_service \<Rightarrow> auth_key \<Rightarrow> auth_key \<Rightarrow> int \<Rightarrow> update_event \<Rightarrow> bool \<Rightarrow>
    int \<Rightarrow> bool \<Rightarrow> recorded" where
  "recordEventCore now mid s stateAuthKeyID excludeAuthKeyID userID event dispatch excludeSessionID saveState =
     (case append_recorded now s excludeAuthKeyID userID event dispatch excludeSessionID of
        Inl err \<Rightarrow> Inl err
      | Inr (s1, e, st) \<Rightarrow>
          Inr (if saveState then state_save (mid 1 s1) stateAuthKeyID userID st else s1, e, st))"

definition recordEvent :: "int \<Rightarrow> meanwhile \<Rightarrow> update_service \<Rightarrow> auth_key \<Rightarrow> auth_key \<Rightarrow> int \<Rightarrow> update_event \<Rightarrow> bool \<Rightarrow> int \<Rightarrow> recorded" where
  "recordEvent now mid s stateAuthKeyID excludeAuthKeyID userID event dispatch excludeSessionID =
     recordEventCore now mid s stateAuthKeyID excludeAuthKeyID userID event dispatch excludeSessionID True"

definition recordEventWithoutState :: "int \<Rightarrow> meanwhile \<Rightarrow> update_service \<Rightarrow> int \<Rightarrow> update_event \<Rightarrow> recorded" where
  "recordEventWithoutState now mid s userID event = recordEventCore now mid s 0 0 userID event False 0 False"

end
