(* ===== verification/Update_Record.thy ===== *)
theory Update_Record
  imports Update_Service
begin

text \<open>
  The event constructors of the update service (\<^verbatim>\<open>Record...\<close> and \<^verbatim>\<open>Publish...\<close> of
  \<^verbatim>\<open>internal/app/updates/service.go\<close>): each builds one event and records it, with or without an
  online dispatch and with or without advancing the state of the device that caused it.
\<close>

subsection \<open>Arguments\<close>

record story_read_result =
  sr_ViewerID :: int
  sr_Peer :: peer
  sr_MaxReadID :: int
  sr_Advanced :: bool
  sr_Date :: int

record story_reaction_result =
  rr_ViewerID :: int
  rr_Peer :: peer
  rr_StoryID :: int
  rr_Reaction :: "nat option"
  rr_Story :: story
  rr_Changed :: bool
  rr_Date :: int

datatype quick_reply_kind =
    QuickReplyMutationList | QuickReplyMutationNew | QuickReplyMutationDelete | QuickReplyMutationMessage
  | QuickReplyMutationIDs | QuickReplyMutationOther string

record quick_reply_list =
  ql_OwnerUserID :: int
  ql_QuickReplies :: "nat list"

record quick_reply_mutation =
  qm_Kind :: quick_reply_kind
  qm_List :: quick_reply_list
  qm_QuickReply :: nat
  qm_ShortcutID :: int
  qm_Message :: nat
  qm_MessageIDs :: "int list"
  qm_Date :: int

text \<open>Of \<^verbatim>\<open>ReadHistoryResult\<close>, the fields the service reads.\<close>

record read_history_result =
  rh_OwnerUserID :: int
  rh_Peer :: peer
  rh_MaxID :: int
  rh_StillUnreadCount :: int
  rh_ChannelPts :: int

definition user_peer :: "int \<Rightarrow> peer" where
  "user_peer userID = \<lparr>peer_Type = PeerTypeUser, peer_ID = userID\<rparr>"

definition channel_peer :: "int \<Rightarrow> peer" where
  "channel_peer channelID = \<lparr>peer_Type = PeerTypeChannel, peer_ID = channelID\<rparr>"

definition unit_event :: "update_event_type \<Rightarrow> update_event" where
  "unit_event t = zero_event\<lparr>ue_Type := t, ue_PtsCount := 1\<rparr>"

subsection \<open>Messages\<close>

definition message_event :: "int \<Rightarrow> message \<Rightarrow> update_event_type \<Rightarrow> update_event" where
  "message_event now msg t =
     (unit_event t)\<lparr>ue_Date := (if msg_Date msg = 0 then now else msg_Date msg), ue_Message := msg\<rparr>"

definition RecordNewMessage :: "int \<Rightarrow> meanwhile \<Rightarrow> update_service \<Rightarrow> auth_key \<Rightarrow> int \<Rightarrow> message \<Rightarrow> recorded" where
  "RecordNewMessage now mid s authKeyID userID0 msg =
     (let userID = (if userID0 = 0 then msg_OwnerUserID msg else userID0)
      in recordEvent now mid s authKeyID 0 userID (message_event now msg UpdateEventNewMessage) False 0)"

text \<open>Other requests run between the lookup and whatever follows it.\<close>

definition PublishNewMessage :: "int \<Rightarrow> meanwhile \<Rightarrow> update_service \<Rightarrow> int \<Rightarrow> message \<Rightarrow> recorded" where
  "PublishNewMessage now mid s userID0 msg =
     (let userID = (if userID0 = 0 then msg_OwnerUserID msg else userID0);
          found = (case sv_events s of
                     None \<Rightarrow> None
                   | Some ev \<Rightarrow> if msg_ID msg > 0 then FindNewMessageEvent ev userID (msg_ID msg) else None)
      in case found of
           Some event \<Rightarrow> Inr (mid 0 s, event, currentState now (mid 0 s) userID)
         | None \<Rightarrow> recordEventCore now mid (mid 0 s) 0 0 userID (message_event now msg UpdateEventNewMessage) True 0 False)"

definition RecordMessagePoll :: "int \<Rightarrow> meanwhile \<Rightarrow> update_service \<Rightarrow> auth_key \<Rightarrow> int \<Rightarrow> message \<Rightarrow> recorded" where
  "RecordMessagePoll now mid s authKeyID userID0 msg =
     (let userID = (if userID0 = 0 then msg_OwnerUserID msg else userID0)
      in recordEventWithoutState now mid s userID ((message_event now msg UpdateEventMessagePoll)\<lparr>ue_Peer := msg_Peer msg\<rparr>))"

definition RecordReadHistory :: "int \<Rightarrow> meanwhile \<Rightarrow> update_service \<Rightarrow> auth_key \<Rightarrow> int \<Rightarrow> read_history_result \<Rightarrow> auth_key \<Rightarrow> int \<Rightarrow> recorded" where
  "RecordReadHistory now mid s stateAuthKeyID userID0 read excludeAuthKeyID excludeSessionID =
     (let userID = (if userID0 = 0 then rh_OwnerUserID read else userID0)
      in recordEvent now mid s stateAuthKeyID excludeAuthKeyID userID
        ((unit_event UpdateEventReadHistoryInbox)\<lparr>ue_Date := now, ue_Peer := rh_Peer read, ue_MaxID := rh_MaxID read,
           ue_StillUnreadCount := rh_StillUnreadCount read, ue_ChannelPts := rh_ChannelPts read\<rparr>) True excludeSessionID)"

subsection \<open>Stories\<close>

definition story_event :: "story \<Rightarrow> update_event" where
  "story_event st = (unit_event UpdateEventStory)\<lparr>ue_Date := story_Date st, ue_Peer := story_Owner st, ue_Story := st\<rparr>"

definition RecordStory :: "int \<Rightarrow> meanwhile \<Rightarrow> update_service \<Rightarrow> auth_key \<Rightarrow> int \<Rightarrow> story \<Rightarrow> auth_key \<Rightarrow> int \<Rightarrow> recorded" where
  "RecordStory now mid s stateAuthKeyID userID0 st excludeAuthKeyID excludeSessionID =
     (let userID = (if userID0 = 0 \<and> peer_Type (story_Owner st) = PeerTypeUser then peer_ID (story_Owner st) else userID0)
      in recordEvent now mid s stateAuthKeyID excludeAuthKeyID userID (story_event st) True excludeSessionID)"

definition RecordStoryFanout :: "int \<Rightarrow> meanwhile \<Rightarrow> update_service \<Rightarrow> int \<Rightarrow> story \<Rightarrow> recorded" where
  "RecordStoryFanout now mid s userID st =
     (if userID = 0 then Inl ErrStoryPeerInvalid
      else recordEventCore now mid s 0 0 userID (story_event st) True 0 False)"

definition RecordReadStories :: "int \<Rightarrow> meanwhile \<Rightarrow> update_service \<Rightarrow> auth_key \<Rightarrow> int \<Rightarrow> story_read_result \<Rightarrow> auth_key \<Rightarrow> int \<Rightarrow> recorded" where
  "RecordReadStories now mid s stateAuthKeyID userID0 read excludeAuthKeyID excludeSessionID =
     (let userID = (if userID0 = 0 then sr_ViewerID read else userID0)
      in recordEvent now mid s stateAuthKeyID excludeAuthKeyID userID
        ((unit_event UpdateEventReadStories)\<lparr>ue_Date := sr_Date read, ue_Peer := sr_Peer read, ue_MaxID := sr_MaxReadID read\<rparr>)
        True excludeSessionID)"

definition RecordSentStoryReaction :: "int \<Rightarrow> meanwhile \<Rightarrow> update_service \<Rightarrow> auth_key \<Rightarrow> int \<Rightarrow> story_reaction_result \<Rightarrow> auth_key \<Rightarrow> int \<Rightarrow>
    recorded" where
  "RecordSentStoryReaction now mid s stateAuthKeyID userID0 reaction excludeAuthKeyID excludeSessionID =
     (let userID = (if userID0 = 0 then rr_ViewerID reaction else userID0)
      in recordEvent now mid s stateAuthKeyID excludeAuthKeyID userID
        ((unit_event UpdateEventSentStoryReaction)\<lparr>ue_Date := rr_Date reaction, ue_Peer := rr_Peer reaction,
           ue_MaxID := rr_StoryID reaction, ue_Story := rr_Story reaction, ue_Reaction := rr_Reaction reaction\<rparr>)
        True excludeSessionID)"

definition RecordNewStoryReaction :: "int \<Rightarrow> meanwhile \<Rightarrow> update_service \<Rightarrow> auth_key \<Rightarrow> int \<Rightarrow> story_reaction_result \<Rightarrow> auth_key \<Rightarrow> int \<Rightarrow>
    recorded" where
  "RecordNewStoryReaction now mid s stateAuthKeyID ownerUserID0 reaction excludeAuthKeyID excludeSessionID =
     (let o1 = (if ownerUserID0 = 0 \<and> peer_Type (story_Owner (rr_Story reaction)) = PeerTypeUser
                then peer_ID (story_Owner (rr_Story reaction)) else ownerUserID0);
          o2 = (if o1 = 0 \<and> peer_Type (rr_Peer reaction) = PeerTypeUser then peer_ID (rr_Peer reaction) else o1)
      in if o2 = 0 \<or> rr_ViewerID reaction = 0 \<or> rr_Reaction reaction = None then Inl ErrStoryPeerInvalid
         else recordEventCore now mid s stateAuthKeyID excludeAuthKeyID o2
           ((unit_event UpdateEventNewStoryReaction)\<lparr>ue_Date := rr_Date reaction, ue_Peer := user_peer (rr_ViewerID reaction),
              ue_MaxID := rr_StoryID reaction, ue_Story := rr_Story reaction, ue_Reaction := rr_Reaction reaction\<rparr>)
           True excludeSessionID False)"

definition quick_reply_type :: "quick_reply_kind \<Rightarrow> update_event_type" where
  "quick_reply_type k =
     (case k of
        QuickReplyMutationNew \<Rightarrow> UpdateEventNewQuickReply
      | QuickReplyMutationDelete \<Rightarrow> UpdateEventDeleteQuickReply
      | QuickReplyMutationMessage \<Rightarrow> UpdateEventQuickReplyMessage
      | QuickReplyMutationIDs \<Rightarrow> UpdateEventDeleteQuickReplyMessages
      | _ \<Rightarrow> UpdateEventQuickReplies)"

definition RecordQuickReplyMutation :: "int \<Rightarrow> meanwhile \<Rightarrow> update_service \<Rightarrow> auth_key \<Rightarrow> int \<Rightarrow> quick_reply_mutation \<Rightarrow> auth_key \<Rightarrow> int \<Rightarrow>
    recorded" where
  "RecordQuickReplyMutation now mid s stateAuthKeyID userID0 mutation excludeAuthKeyID excludeSessionID =
     (let userID = (if userID0 = 0 then ql_OwnerUserID (qm_List mutation) else userID0)
      in recordEvent now mid s stateAuthKeyID excludeAuthKeyID userID
        ((unit_event (quick_reply_type (qm_Kind mutation)))\<lparr>ue_Date := qm_Date mutation,
           ue_QuickReplies := ql_QuickReplies (qm_List mutation), ue_QuickReply := qm_QuickReply mutation,
           ue_QuickReplyMessage := qm_Message mutation, ue_MessageIDs := qm_MessageIDs mutation,
           ue_MaxID := qm_ShortcutID mutation\<rparr>) True excludeSessionID)"

subsection \<open>Account state\<close>

definition RecordChannelState :: "int \<Rightarrow> meanwhile \<Rightarrow> update_service \<Rightarrow> auth_key \<Rightarrow> int \<Rightarrow> int \<Rightarrow> auth_key \<Rightarrow> int \<Rightarrow> recorded" where
  "RecordChannelState now mid s stateAuthKeyID userID channelID excludeAuthKeyID excludeSessionID =
     recordEvent now mid s stateAuthKeyID excludeAuthKeyID userID
       ((unit_event UpdateEventChannelState)\<lparr>ue_Peer := channel_peer channelID\<rparr>) True excludeSessionID"

definition RecordContactsReset :: "int \<Rightarrow> meanwhile \<Rightarrow> update_service \<Rightarrow> auth_key \<Rightarrow> int \<Rightarrow> auth_key \<Rightarrow> int \<Rightarrow> recorded" where
  "RecordContactsReset now mid s stateAuthKeyID userID excludeAuthKeyID excludeSessionID =
     recordEvent now mid s stateAuthKeyID excludeAuthKeyID userID (unit_event UpdateEventContactsReset) True excludeSessionID"

definition RecordUserEmojiStatus :: "int \<Rightarrow> meanwhile \<Rightarrow> update_service \<Rightarrow> auth_key \<Rightarrow> int \<Rightarrow> emoji_status \<Rightarrow> auth_key \<Rightarrow> int \<Rightarrow> recorded" where
  "RecordUserEmojiStatus now mid s stateAuthKeyID userID status excludeAuthKeyID excludeSessionID =
     (if \<not> emoji_status_Valid status then Inl ErrStarGiftCollectibleInvalid
      else recordEvent now mid s stateAuthKeyID excludeAuthKeyID userID
        ((unit_event UpdateEventUserEmojiStatus)\<lparr>ue_Peer := user_peer userID, ue_EmojiStatus := status\<rparr>) True excludeSessionID)"

definition RecordDraftMessage :: "int \<Rightarrow> meanwhile \<Rightarrow> update_service \<Rightarrow> auth_key \<Rightarrow> int \<Rightarrow> peer \<Rightarrow> int \<Rightarrow> auth_key \<Rightarrow> int \<Rightarrow> recorded" where
  "RecordDraftMessage now mid s stateAuthKeyID userID peer topMsgID excludeAuthKeyID excludeSessionID =
     recordEvent now mid s stateAuthKeyID excludeAuthKeyID userID
       ((unit_event UpdateEventDraftMessage)\<lparr>ue_Peer := peer, ue_MaxID := topMsgID\<rparr>) True excludeSessionID"

definition RecordDialogPinned :: "int \<Rightarrow> meanwhile \<Rightarrow> update_service \<Rightarrow> auth_key \<Rightarrow> int \<Rightarrow> peer \<Rightarrow> bool \<Rightarrow> int \<Rightarrow> auth_key \<Rightarrow> int \<Rightarrow> recorded" where
  "RecordDialogPinned now mid s stateAuthKeyID userID peer pinned folderID excludeAuthKeyID excludeSessionID =
     recordEvent now mid s stateAuthKeyID excludeAuthKeyID userID
       ((unit_event UpdateEventDialogPinned)\<lparr>ue_Peer := peer, ue_Bool := pinned, ue_FolderID := folderID\<rparr>) True excludeSessionID"

definition RecordPinnedDialogs :: "int \<Rightarrow> meanwhile \<Rightarrow> update_service \<Rightarrow> auth_key \<Rightarrow> int \<Rightarrow> int \<Rightarrow> peer list \<Rightarrow> auth_key \<Rightarrow> int \<Rightarrow> recorded" where
  "RecordPinnedDialogs now mid s stateAuthKeyID userID folderID order excludeAuthKeyID excludeSessionID =
     recordEvent now mid s stateAuthKeyID excludeAuthKeyID userID
       ((unit_event UpdateEventPinnedDialogs)\<lparr>ue_Peers := order, ue_FolderID := folderID\<rparr>) True excludeSessionID"

definition RecordSavedDialogPinned :: "int \<Rightarrow> meanwhile \<Rightarrow> update_service \<Rightarrow> auth_key \<Rightarrow> int \<Rightarrow> peer \<Rightarrow> bool \<Rightarrow> auth_key \<Rightarrow> int \<Rightarrow> recorded" where
  "RecordSavedDialogPinned now mid s stateAuthKeyID userID peer pinned excludeAuthKeyID excludeSessionID =
     recordEvent now mid s stateAuthKeyID excludeAuthKeyID userID
       ((unit_event UpdateEventSavedDialogPinned)\<lparr>ue_Peer := peer, ue_Bool := pinned\<rparr>) True excludeSessionID"

definition RecordPinnedSavedDialogs :: "int \<Rightarrow> meanwhile \<Rightarrow> update_service \<Rightarrow> auth_key \<Rightarrow> int \<Rightarrow> peer list \<Rightarrow> auth_key \<Rightarrow> int \<Rightarrow> recorded" where
  "RecordPinnedSavedDialogs now mid s stateAuthKeyID userID order excludeAuthKeyID excludeSessionID =
     recordEvent now mid s stateAuthKeyID excludeAuthKeyID userID
       ((unit_event UpdateEventPinnedSavedDialogs)\<lparr>ue_Peers := order\<rparr>) True excludeSessionID"

definition RecordDialogUnreadMark :: "int \<Rightarrow> meanwhile \<Rightarrow> update_service \<Rightarrow> auth_key \<Rightarrow> int \<Rightarrow> peer \<Rightarrow> bool \<Rightarrow> auth_key \<Rightarrow> int \<Rightarrow> recorded" where
  "RecordDialogUnreadMark now mid s stateAuthKeyID userID peer unread excludeAuthKeyID excludeSessionID =
     recordEvent now mid s stateAuthKeyID excludeAuthKeyID userID
       ((unit_event UpdateEventDialogUnreadMark)\<lparr>ue_Peer := peer, ue_Bool := unread\<rparr>) True excludeSessionID"

definition RecordChannelViewForumAsMessages :: "int \<Rightarrow> meanwhile \<Rightarrow> update_service \<Rightarrow> auth_key \<Rightarrow> int \<Rightarrow> int \<Rightarrow> bool \<Rightarrow> auth_key \<Rightarrow> int \<Rightarrow>
    recorded" where
  "RecordChannelViewForumAsMessages now mid s stateAuthKeyID userID channelID enabled excludeAuthKeyID excludeSessionID =
     recordEvent now mid s stateAuthKeyID excludeAuthKeyID userID
       ((unit_event UpdateEventChannelViewForum)\<lparr>ue_Peer := channel_peer channelID, ue_Bool := enabled\<rparr>) True excludeSessionID"

definition RecordChannelDiscussionInbox :: "int \<Rightarrow> meanwhile \<Rightarrow> update_service \<Rightarrow> auth_key \<Rightarrow> int \<Rightarrow> int \<Rightarrow> int \<Rightarrow> int \<Rightarrow> auth_key \<Rightarrow> int \<Rightarrow>
    recorded" where
  "RecordChannelDiscussionInbox now mid s stateAuthKeyID userID channelID topicID maxID excludeAuthKeyID excludeSessionID =
     recordEvent now mid s stateAuthKeyID excludeAuthKeyID userID
       ((unit_event UpdateEventReadChannelDiscussionInbox)\<lparr>ue_Peer := channel_peer channelID, ue_TopMsgID := topicID,
          ue_MaxID := maxID\<rparr>) True excludeSessionID"

definition RecordPeerSettings :: "int \<Rightarrow> meanwhile \<Rightarrow> update_service \<Rightarrow> auth_key \<Rightarrow> int \<Rightarrow> peer \<Rightarrow> nat \<Rightarrow> auth_key \<Rightarrow> int \<Rightarrow> recorded" where
  "RecordPeerSettings now mid s stateAuthKeyID userID peer settings excludeAuthKeyID excludeSessionID =
     recordEvent now mid s stateAuthKeyID excludeAuthKeyID userID
       ((unit_event UpdateEventPeerSettings)\<lparr>ue_Peer := peer, ue_Settings := settings\<rparr>) True excludeSessionID"

definition RecordPeerStoryBlocked :: "int \<Rightarrow> meanwhile \<Rightarrow> update_service \<Rightarrow> auth_key \<Rightarrow> int \<Rightarrow> peer \<Rightarrow> bool \<Rightarrow> auth_key \<Rightarrow> int \<Rightarrow> recorded" where
  "RecordPeerStoryBlocked now mid s stateAuthKeyID userID peer blocked excludeAuthKeyID excludeSessionID =
     recordEvent now mid s stateAuthKeyID excludeAuthKeyID userID
       ((unit_event UpdateEventPeerStoryBlocked)\<lparr>ue_Peer := peer, ue_Bool := blocked\<rparr>) True excludeSessionID"

definition RecordDialogFilter :: "int \<Rightarrow> meanwhile \<Rightarrow> update_service \<Rightarrow> auth_key \<Rightarrow> int \<Rightarrow> int \<Rightarrow> nat option \<Rightarrow> auth_key \<Rightarrow> int \<Rightarrow> recorded" where
  "RecordDialogFilter now mid s stateAuthKeyID userID folderID folder excludeAuthKeyID excludeSessionID =
     recordEvent now mid s stateAuthKeyID excludeAuthKeyID userID
       ((unit_event UpdateEventDialogFilter)\<lparr>ue_FilterID := folderID, ue_DialogFilter := folder\<rparr>) True excludeSessionID"

definition RecordDialogFilterOrder :: "int \<Rightarrow> meanwhile \<Rightarrow> update_service \<Rightarrow> auth_key \<Rightarrow> int \<Rightarrow> int list \<Rightarrow> auth_key \<Rightarrow> int \<Rightarrow> recorded" where
  "RecordDialogFilterOrder now mid s stateAuthKeyID userID order excludeAuthKeyID excludeSessionID =
     recordEvent now mid s stateAuthKeyID excludeAuthKeyID userID
       ((unit_event UpdateEventDialogFilterOrder)\<lparr>ue_FilterOrder := order\<rparr>) True excludeSessionID"

definition RecordDialogFiltersReload :: "int \<Rightarrow> meanwhile \<Rightarrow> update_service \<Rightarrow> auth_key \<Rightarrow> int \<Rightarrow> auth_key \<Rightarrow> int \<Rightarrow> recorded" where
  "RecordDialogFiltersReload now mid s stateAuthKeyID userID excludeAuthKeyID excludeSessionID =
     recordEvent now mid s stateAuthKeyID excludeAuthKeyID userID (unit_event UpdateEventDialogFilters) True excludeSessionID"

definition RecordFolderPeers :: "int \<Rightarrow> meanwhile \<Rightarrow> update_service \<Rightarrow> auth_key \<Rightarrow> int \<Rightarrow> (peer \<times> int) list \<Rightarrow> auth_key \<Rightarrow> int \<Rightarrow> recorded" where
  "RecordFolderPeers now mid s stateAuthKeyID userID peers excludeAuthKeyID excludeSessionID =
     recordEvent now mid s stateAuthKeyID excludeAuthKeyID userID
       ((unit_event UpdateEventFolderPeers)\<lparr>ue_FolderPeers := peers\<rparr>) True excludeSessionID"

end
