(* ===== verification/Update_Sync.thy ===== *)
theory Update_Sync
  imports Update_Record "HOL-Library.Sublist"
begin

text \<open>
  Executions of the update service and what they guarantee: the account's log only grows and never
  has a gap, an online dispatch always refers to a committed event, device states never go back, and
  a client that follows its differences receives every event once, in order.
\<close>

subsection \<open>Operations\<close>

datatype record_call =
    CallNewMessage auth_key int message
  | CallPublish int message
  | CallMessagePoll auth_key int message
  | CallReadHistory auth_key int read_history_result auth_key int
  | CallStory auth_key int story auth_key int
  | CallStoryFanout int story
  | CallReadStories auth_key int story_read_result auth_key int
  | CallSentStoryReaction auth_key int story_reaction_result auth_key int
  | CallNewStoryReaction auth_key int story_reaction_result auth_key int
  | CallQuickReply auth_key int quick_reply_mutation auth_key int
  | CallChannelState auth_key int int auth_key int
  | CallContactsReset auth_key int auth_key int
  | CallEmojiStatus auth_key int emoji_status auth_key int
  | CallDraftMessage auth_key int peer int auth_key int
  | CallDialogPinned auth_key int peer bool int auth_key int
  | CallPinnedDialogs auth_key int int "peer list" auth_key int
  | CallSavedDialogPinned auth_key int peer bool auth_key int
  | CallPinnedSavedDialogs auth_key int "peer list" auth_key int
  | CallDialogUnreadMark auth_key int peer bool auth_key int
  | CallViewForum auth_key int int bool auth_key int
  | CallDiscussionInbox auth_key int int int int auth_key int
  | CallPeerSettings auth_key int peer nat auth_key int
  | CallPeerStoryBlocked auth_key int peer bool auth_key int
  | CallDialogFilter auth_key int int "nat option" auth_key int
  | CallDialogFilterOrder auth_key int "int list" auth_key int
  | CallDialogFiltersReload auth_key int auth_key int
  | CallFolderPeers auth_key int "(peer \<times> int) list" auth_key int

fun run_record :: "int \<Rightarrow> meanwhile \<Rightarrow> record_call \<Rightarrow> update_service \<Rightarrow> recorded" where
  "run_record now mid (CallNewMessage a b c) s = RecordNewMessage now mid s a b c"
| "run_record now mid (CallPublish a b) s = PublishNewMessage now mid s a b"
| "run_record now mid (CallMessagePoll a b c) s = RecordMessagePoll now mid s a b c"
| "run_record now mid (CallReadHistory a b c d e) s = RecordReadHistory now mid s a b c d e"
| "run_record now mid (CallStory a b c d e) s = RecordStory now mid s a b c d e"
| "run_record now mid (CallStoryFanout a b) s = RecordStoryFanout now mid s a b"
| "run_record now mid (CallReadStories a b c d e) s = RecordReadStories now mid s a b c d e"
| "run_record now mid (CallSentStoryReaction a b c d e) s = RecordSentStoryReaction now mid s a b c d e"
| "run_record now mid (CallNewStoryReaction a b c d e) s = RecordNewStoryReaction now mid s a b c d e"
| "run_record now mid (CallQuickReply a b c d e) s = RecordQuickReplyMutation now mid s a b c d e"
| "run_record now mid (CallChannelState a b c d e) s = RecordChannelState now mid s a b c d e"
| "run_record now mid (CallContactsReset a b c d) s = RecordContactsReset now mid s a b c d"
| "run_record now mid (CallEmojiStatus a b c d e) s = RecordUserEmojiStatus now mid s a b c d e"
| "run_record now mid (CallDraftMessage a b c d e f) s = RecordDraftMessage now mid s a b c d e f"
| "run_record now mid (CallDialogPinned a b c d e f g) s = RecordDialogPinned now mid s a b c d e f g"
| "run_record now mid (CallPinnedDialogs a b c d e f) s = RecordPinnedDialogs now mid s a b c d e f"
| "run_record now mid (CallSavedDialogPinned a b c d e f) s = RecordSavedDialogPinned now mid s a b c d e f"
| "run_record now mid (CallPinnedSavedDialogs a b c d e) s = RecordPinnedSavedDialogs now mid s a b c d e"
| "run_record now mid (CallDialogUnreadMark a b c d e f) s = RecordDialogUnreadMark now mid s a b c d e f"
| "run_record now mid (CallViewForum a b c d e f) s = RecordChannelViewForumAsMessages now mid s a b c d e f"
| "run_record now mid (CallDiscussionInbox a b c d e f g) s = RecordChannelDiscussionInbox now mid s a b c d e f g"
| "run_record now mid (CallPeerSettings a b c d e f) s = RecordPeerSettings now mid s a b c d e f"
| "run_record now mid (CallPeerStoryBlocked a b c d e f) s = RecordPeerStoryBlocked now mid s a b c d e f"
| "run_record now mid (CallDialogFilter a b c d e f) s = RecordDialogFilter now mid s a b c d e f"
| "run_record now mid (CallDialogFilterOrder a b c d e) s = RecordDialogFilterOrder now mid s a b c d e"
| "run_record now mid (CallDialogFiltersReload a b c d) s = RecordDialogFiltersReload now mid s a b c d"
| "run_record now mid (CallFolderPeers a b c d e) s = RecordFolderPeers now mid s a b c d e"

lemmas record_call_defs =
  RecordNewMessage_def PublishNewMessage_def RecordMessagePoll_def RecordReadHistory_def RecordStory_def
  RecordStoryFanout_def RecordReadStories_def RecordSentStoryReaction_def RecordNewStoryReaction_def
  RecordQuickReplyMutation_def RecordChannelState_def RecordContactsReset_def RecordUserEmojiStatus_def
  RecordDraftMessage_def RecordDialogPinned_def RecordPinnedDialogs_def RecordSavedDialogPinned_def
  RecordPinnedSavedDialogs_def RecordDialogUnreadMark_def RecordChannelViewForumAsMessages_def
  RecordChannelDiscussionInbox_def RecordPeerSettings_def RecordPeerStoryBlocked_def RecordDialogFilter_def
  RecordDialogFilterOrder_def RecordDialogFiltersReload_def RecordFolderPeers_def

text \<open>
  An execution is a sequence of operations. The first six are whole calls with nothing in between;
  the last three are the single store calls that a call of the service consists of, so a sequence
  of these is any interleaving of any number of calls. The appended event takes one pts, as every
  event the service records does.
\<close>

datatype service_op =
    OpGetState int auth_key int
  | OpConfirmEvent int auth_key int update_event
  | OpObserveDifference int auth_key int update_state
  | OpCommitDelivered auth_key int update_state commit_mode
  | OpClearAuthKey auth_key
  | OpRecord int record_call
  | OpAppend int auth_key int update_event bool int
  | OpSaveState auth_key int update_state
  | OpObserveState auth_key int update_state

definition or_same :: "'s \<Rightarrow> 'e + 's \<Rightarrow> 's" where
  "or_same s r = (case r of Inl _ \<Rightarrow> s | Inr s' \<Rightarrow> s')"

fun service_step :: "service_op \<Rightarrow> update_service \<Rightarrow> update_service" where
  "service_step (OpGetState now k u) s = fst (GetState now idle s k u)"
| "service_step (OpConfirmEvent now k u e) s = or_same s (ConfirmEvent now s k u e)"
| "service_step (OpObserveDifference now k u st) s = fst (ObserveDifferenceRequest now idle s k u st)"
| "service_step (OpCommitDelivered k u st mode) s = or_same s (CommitDeliveredState s k u st mode)"
| "service_step (OpClearAuthKey k) s = ClearAuthKey s k"
| "service_step (OpRecord now c) s = (case run_record now idle c s of Inl _ \<Rightarrow> s | Inr (s', _, _) \<Rightarrow> s')"
| "service_step (OpAppend now xk u e dispatch x) s =
     (case append_recorded now s xk u (e\<lparr>ue_PtsCount := 1\<rparr>) dispatch x of Inl _ \<Rightarrow> s | Inr (s', _, _) \<Rightarrow> s')"
| "service_step (OpSaveState k u st) s = state_save s k u st"
| "service_step (OpObserveState k u st) s = observeClientState s k u st"

definition service_run :: "service_op list \<Rightarrow> update_service \<Rightarrow> update_service" where
  "service_run ops s = fold service_step ops s"

definition fresh_service :: update_service where
  "fresh_service = NewService (Some NewUpdateStateStore) (Some NewUpdateEventStore)"

definition account_log :: "update_service \<Rightarrow> int \<Rightarrow> update_event list" where
  "account_log s u = (case sv_events s of None \<Rightarrow> [] | Some ev \<Rightarrow> st_events ev u)"

definition account_dispatches :: "update_service \<Rightarrow> int \<Rightarrow> update_dispatch list" where
  "account_dispatches s u = (case sv_events s of None \<Rightarrow> [] | Some ev \<Rightarrow> st_dispatches ev u)"

definition confirmed :: "update_service \<Rightarrow> auth_key \<Rightarrow> int \<Rightarrow> update_state" where
  "confirmed s k u = (case sv_states s of None \<Rightarrow> zero_state | Some ss \<Rightarrow> state_of (ss_states ss) (k, u))"

definition observed :: "update_service \<Rightarrow> auth_key \<Rightarrow> int \<Rightarrow> update_state" where
  "observed s k u = (case sv_states s of None \<Rightarrow> zero_state | Some ss \<Rightarrow> state_of (ss_observed ss) (k, u))"

text \<open>What one recording does to the event store: nothing, or one event and perhaps one dispatch.\<close>

definition recorded_into :: "event_store \<Rightarrow> event_store \<Rightarrow> bool" where
  "recorded_into ev ev' \<longleftrightarrow> ev' = ev \<or>
     (\<exists>u e e' ds. ue_PtsCount e = 1 \<and> appendLocked ev u e True = (ev'\<lparr>st_dispatches := st_dispatches ev\<rparr>, e') \<and>
        st_dispatches ev' = (st_dispatches ev)(u := st_dispatches ev u @ ds) \<and>
        (ds = [] \<or> (\<exists>k x. ds = [\<lparr>ud_Pts = ue_Pts e', ud_ExcludeAuthKeyID = k, ud_ExcludeSessionID = x\<rparr>] \<and> (k = 0 \<longleftrightarrow> x = 0))))"

definition rises :: "state_store option \<Rightarrow> state_store option \<Rightarrow> bool" where
  "rises a b \<longleftrightarrow> (case (a, b) of
      (None, None) \<Rightarrow> True
    | (Some x, Some y) \<Rightarrow> \<forall>key. state_le (state_of (ss_states x) key) (state_of (ss_states y) key) \<and>
                                state_le (state_of (ss_observed x) key) (state_of (ss_observed y) key)
    | _ \<Rightarrow> False)"

definition event_step :: "update_service \<Rightarrow> update_service \<Rightarrow> bool" where
  "event_step s s' \<longleftrightarrow> (case (sv_events s, sv_events s') of
      (None, None) \<Rightarrow> True | (Some ev, Some ev') \<Rightarrow> recorded_into ev ev' | _ \<Rightarrow> False)"

lemma rises_refl [simp]: "rises a a"
  by (simp add: rises_def split: option.splits)

lemma rises_Save [simp]: "rises (Some ss) (Some (state_Save ss k u st))"
  by (simp add: rises_def state_Save_max state_of_def state_max_upper)

lemma rises_Observe [simp]: "rises (Some ss) (Some (state_Observe ss k u st))"
  by (simp add: rises_def state_Observe_def monotonic_is_max state_of_def state_max_upper)

lemma rises_Commit: "state_Commit ss k u st mode = Inr ss' \<Longrightarrow> rises (Some ss) (Some ss')"
  by (auto simp: rises_def state_Commit_def Let_def monotonic_is_max state_of_def state_max_upper split: if_splits)

lemma event_step_refl: "sv_events s' = sv_events s \<Longrightarrow> event_step s s'"
  by (simp add: event_step_def recorded_into_def split: option.splits)

lemma append_event_recorded:
  assumes "append_event ev u e True d k x = Inr (ev', e')" "ue_PtsCount e = 1"
  shows "recorded_into ev ev'"
proof -
  obtain ev1 e1 where a: "appendLocked ev u e True = (ev1, e1)" by fastforce
  have d1: "st_dispatches ev1 = st_dispatches ev" using a by (auto simp: appendLocked_def Let_def)
  show ?thesis
  proof (cases d)
    case False
    then have "ev' = ev1" "e' = e1" using assms a by (auto simp: append_event_def)
    then show ?thesis unfolding recorded_into_def using a d1 assms(2)
      by (intro disjI2 exI [of _ u] exI [of _ e] exI [of _ e1] exI [of _ "[]"]) auto
  next
    case True
    then have n: "(k = 0) = (x = 0)" and ev': "ev' = ev1\<lparr>st_dispatches := (st_dispatches ev1)(u := st_dispatches ev1 u @
        [\<lparr>ud_Pts = ue_Pts e1, ud_ExcludeAuthKeyID = k, ud_ExcludeSessionID = x\<rparr>])\<rparr>" and "e' = e1"
      using assms a by (auto simp: append_event_def split: if_splits)
    show ?thesis unfolding recorded_into_def ev' using a d1 n assms(2)
      by (intro disjI2 exI [of _ u] exI [of _ e] exI [of _ e1]
          exI [of _ "[\<lparr>ud_Pts = ue_Pts e1, ud_ExcludeAuthKeyID = k, ud_ExcludeSessionID = x\<rparr>]"]) auto
  qed
qed

lemma append_recorded_step:
  assumes "append_recorded now s xk u e d x = Inr (s', e', st)" "ue_PtsCount e = 1"
  shows "event_step s s' \<and> sv_states s' = sv_states s"
proof (cases "sv_events s")
  case None
  then show ?thesis using assms by (auto simp: append_recorded_def event_step_def Let_def)
next
  case (Some ev)
  define e2 where "e2 = e\<lparr>ue_UserID := u, ue_Date := (if ue_Date e = 0 then now else ue_Date e)\<rparr>"
  have c: "ue_PtsCount e2 = 1" by (simp add: e2_def assms(2))
  have e1: "(if ue_PtsCount e = 0 then e\<lparr>ue_PtsCount := 1\<rparr> else e) = e" using assms(2) by simp
  obtain ev' where ev': "append_event ev u e2 True d (if d then xk else 0) (if d then x else 0) = Inr (ev', e')"
    and s': "s' = s\<lparr>sv_events := Some ev'\<rparr>"
    using assms(1) Some unfolding append_recorded_def Let_def e1 e2_def [symmetric]
    by (cases d) (auto simp: AppendAllocatedWithDispatch_def AppendAllocated_def split: sum.splits)
  have "recorded_into ev ev'" by (rule append_event_recorded [OF ev' c])
  with s' Some show ?thesis by (auto simp: event_step_def)
qed

lemma state_save_sel [simp]:
  "sv_events (state_save s k u st) = sv_events s" "rises (sv_states s) (sv_states (state_save s k u st))"
  by (simp_all add: state_save_def split: option.split)

lemma recordEventCore_step:
  assumes "recordEventCore now idle s sk xk u e d x save = Inr (s', e', st)" "ue_PtsCount e = 1"
  shows "event_step s s' \<and> rises (sv_states s) (sv_states s')"
proof -
  obtain s1 where s1: "append_recorded now s xk u e d x = Inr (s1, e', st)"
    and s': "s' = (if save then state_save s1 sk u st else s1)"
    using assms(1) by (auto simp: recordEventCore_def idle_def split: sum.splits)
  from append_recorded_step [OF s1 assms(2)] have "event_step s s1" "sv_states s1 = sv_states s" by simp_all
  then show ?thesis unfolding s' event_step_def
    using state_save_sel(2) [of s1 sk u st] by (cases save) simp_all
qed

lemma unit_event_count [simp]: "ue_PtsCount (unit_event t) = 1" "ue_PtsCount (message_event now msg t) = 1"
    "ue_PtsCount (story_event sty) = 1"
  by (simp_all add: unit_event_def message_event_def story_event_def)

lemma run_record_step: "run_record now idle c s = Inr (s', e', st) \<Longrightarrow> event_step s s' \<and> rises (sv_states s) (sv_states s')"
  by (cases c) (auto simp: record_call_defs recordEvent_def recordEventWithoutState_def Let_def event_step_refl idle_def
      split: if_splits option.splits dest!: recordEventCore_step)

lemma service_step_events: "event_step s (service_step op s)"
proof (cases op)
  case (OpRecord now c)
  then show ?thesis using run_record_step [of now c s]
    by (auto simp: event_step_refl split: sum.splits)
next
  case (OpAppend now xk u e d x)
  then show ?thesis using append_recorded_step [of now s xk u "e\<lparr>ue_PtsCount := 1\<rparr>" d x]
    by (auto simp: event_step_refl split: sum.splits)
qed (auto simp: or_same_def GetState_def ConfirmEvent_def ObserveDifferenceRequest_def CommitDeliveredState_def ClearAuthKey_def
    saveConfirmedState_def observeClientState_def idle_def Let_def intro!: event_step_refl split: sum.splits option.splits if_splits)

lemma rises_some: "rises (Some x) b \<Longrightarrow> \<exists>y. b = Some y"
  by (cases b) (simp_all add: rises_def)

lemma service_step_rises:
  assumes "\<And>k. op \<noteq> OpClearAuthKey k"
  shows "rises (sv_states s) (sv_states (service_step op s))"
proof (cases op)
  case (OpRecord now c)
  then show ?thesis using run_record_step [of now c s] by (auto split: sum.splits)
next
  case (OpAppend now xk u e d x)
  then show ?thesis using append_recorded_step [of now s xk u "e\<lparr>ue_PtsCount := 1\<rparr>" d x] by (auto split: sum.splits)
qed (use assms in \<open>auto simp: or_same_def GetState_def ConfirmEvent_def ObserveDifferenceRequest_def CommitDeliveredState_def
    saveConfirmedState_def observeClientState_def state_save_def idle_def Let_def split: sum.splits option.splits if_splits
    intro: rises_Commit\<close>)

lemma service_step_states: "sv_states s \<noteq> None \<Longrightarrow> sv_states (service_step op s) \<noteq> None"
proof (cases "\<exists>k. op = OpClearAuthKey k")
  case False
  then show "sv_states s \<noteq> None \<Longrightarrow> ?thesis" using service_step_rises [of op s] rises_some by fastforce
qed (auto simp: ClearAuthKey_def split: option.splits)

subsection \<open>A call is a run of its store calls\<close>

definition by_requests :: "meanwhile \<Rightarrow> bool" where
  "by_requests mid \<longleftrightarrow> (\<forall>i s. \<exists>ops. mid i s = service_run ops s)"

lemma run_append: "service_run ops' (service_run ops s) = service_run (ops @ ops') s"
  by (simp add: service_run_def)

lemma run_Nil [simp]: "service_run [] s = s"
  by (simp add: service_run_def)

lemma run_single: "service_step op s = service_run [op] s"
  by (simp add: service_run_def)

lemma by_requests_run [simp]: "by_requests (\<lambda>i. service_run (ops i))" "by_requests idle"
proof -
  show "by_requests (\<lambda>i. service_run (ops i))" unfolding by_requests_def by blast
  have "idle i s = service_run [] s" for i s by (simp add: idle_def)
  then show "by_requests idle" unfolding by_requests_def by blast
qed

lemma recordEventCore_is_run:
  assumes "by_requests mid" "recordEventCore now mid s sk xk u e d x save = Inr (s', e', st)" "ue_PtsCount e = 1"
  shows "\<exists>ops. s' = service_run ops s"
proof -
  obtain s1 where s1: "append_recorded now s xk u e d x = Inr (s1, e', st)"
    and s': "s' = (if save then state_save (mid 1 s1) sk u st else s1)"
    using assms(2) by (auto simp: recordEventCore_def split: sum.splits)
  have "e\<lparr>ue_PtsCount := 1\<rparr> = e" using assms(3) by simp
  then have "s1 = service_run [OpAppend now xk u e d x] s" using s1 by (simp add: service_run_def)
  moreover obtain ops where "mid 1 s1 = service_run ops s1" using assms(1) unfolding by_requests_def by blast
  ultimately have "s' = service_run ([OpAppend now xk u e d x] @ (if save then ops @ [OpSaveState sk u st] else [])) s"
    using s' by (simp add: service_run_def)
  then show ?thesis by blast
qed

lemma run_record_is_run:
  assumes mid: "by_requests mid" and r: "run_record now mid c s = Inr (s', e', st)"
  shows "\<exists>ops. s' = service_run ops s"
proof (cases "\<exists>u msg. c = CallPublish u msg")
  case True
  then obtain u msg where c: "c = CallPublish u msg" by blast
  obtain ops where ops: "mid 0 s = service_run ops s" using mid unfolding by_requests_def by blast
  have "s' = mid 0 s \<or> (\<exists>v. recordEventCore now mid (mid 0 s) 0 0 v (message_event now msg UpdateEventNewMessage) True 0 False = Inr (s', e', st))"
    using r unfolding c by (auto simp: PublishNewMessage_def Let_def split: option.splits if_splits)
  then obtain ops' where "s' = service_run ops' (mid 0 s)"
  proof (elim disjE exE)
    assume a: "\<And>ops'. s' = service_run ops' (mid 0 s) \<Longrightarrow> thesis" "s' = mid 0 s"
    show thesis by (rule a(1) [of "[]"]) (simp add: a(2))
  next
    fix v assume a: "\<And>ops'. s' = service_run ops' (mid 0 s) \<Longrightarrow> thesis"
      "recordEventCore now mid (mid 0 s) 0 0 v (message_event now msg UpdateEventNewMessage) True 0 False = Inr (s', e', st)"
    from recordEventCore_is_run [OF mid a(2)] a(1) show thesis by auto
  qed
  then show ?thesis unfolding ops run_append by blast
next
  case False
  then show ?thesis using r
    by (cases c) (auto simp: record_call_defs recordEvent_def recordEventWithoutState_def Let_def
      split: if_splits dest!: recordEventCore_is_run [OF mid])
qed

lemma GetState_is_run:
  assumes "by_requests mid"
  shows "\<exists>ops. fst (GetState now mid s k u) = service_run ops s"
proof -
  obtain ops0 where o0: "mid 0 s = service_run ops0 s" using assms unfolding by_requests_def by blast
  obtain ops1 where o1: "mid 1 (mid 0 s) = service_run ops1 (mid 0 s)" using assms unfolding by_requests_def by blast
  show ?thesis
  proof (cases "\<exists>ss. sv_states s = Some ss \<and> state_Get ss k u = None")
    case True
    then have "fst (GetState now mid s k u) =
        service_run [OpSaveState k u (zero_state\<lparr>us_Pts := currentPts (mid 0 s) u, us_Date := now, us_Seq := 0\<rparr>)] (mid 1 (mid 0 s))"
      by (auto simp: GetState_def Let_def service_run_def)
    then show ?thesis using o0 o1 run_append by metis
  next
    case False
    then have "fst (GetState now mid s k u) = service_run [] s"
      by (auto simp: GetState_def Let_def split: option.splits)
    then show ?thesis by blast
  qed
qed

lemma ObserveDifferenceRequest_is_run:
  assumes "by_requests mid"
  shows "\<exists>ops. fst (ObserveDifferenceRequest now mid s k u st) = service_run ops s"
proof -
  obtain ops where o: "mid 0 s = service_run ops s" using assms unfolding by_requests_def by blast
  have "fst (ObserveDifferenceRequest now mid s k u st) =
      service_run [OpObserveState k u (clampDifferenceState st (currentState now s u))] (mid 0 s)"
    by (simp add: ObserveDifferenceRequest_def Let_def service_run_def)
  then show ?thesis unfolding o run_append by blast
qed

end
