(* ===== verification/Update_Theorems.thy ===== *)
theory Update_Theorems
  imports Update_Sync
begin

text \<open>
  The properties of the update service: the durable log, the difference a device gets, the client's
  synchronisation loop, repeated publication, and the states of the devices.
\<close>

subsection \<open>The invariant of a run\<close>

definition user_ok :: "event_store \<Rightarrow> int \<Rightarrow> bool" where
  "user_ok ev u \<longleftrightarrow>
     (\<forall>e \<in> set (st_events ev u). ue_PtsCount e = 1 \<and> ue_UserID e = u) \<and>
     subseq (map ud_Pts (st_dispatches ev u)) (map ue_Pts (st_events ev u)) \<and>
     list_all (\<lambda>d. (ud_ExcludeAuthKeyID d = 0) = (ud_ExcludeSessionID d = 0)) (st_dispatches ev u)"

definition service_ok :: "update_service \<Rightarrow> bool" where
  "service_ok s \<longleftrightarrow> (\<exists>ss ev. sv_states s = Some ss \<and> sv_events s = Some ev \<and> log_ok ev \<and> (\<forall>u. user_ok ev u))"

lemma recorded_into_log:
  assumes "log_ok ev" "recorded_into ev ev'"
  shows "log_ok ev' \<and> (\<forall>u. prefix (st_events ev u) (st_events ev' u))"
  using assms(2) unfolding recorded_into_def
proof
  assume "ev' = ev"
  then show ?thesis using assms(1) by simp
next
  assume "\<exists>u e e' ds. ue_PtsCount e = 1 \<and> appendLocked ev u e True = (ev'\<lparr>st_dispatches := st_dispatches ev\<rparr>, e') \<and>
        st_dispatches ev' = (st_dispatches ev)(u := st_dispatches ev u @ ds) \<and>
        (ds = [] \<or> (\<exists>k x. ds = [\<lparr>ud_Pts = ue_Pts e', ud_ExcludeAuthKeyID = k, ud_ExcludeSessionID = x\<rparr>] \<and> (k = 0 \<longleftrightarrow> x = 0)))"
  then obtain u e e' where e: "ue_PtsCount e = 1" "allocate_event ev u e = (ev'\<lparr>st_dispatches := st_dispatches ev\<rparr>, e')"
    unfolding allocate_event_def by blast
  have "log_ok (ev'\<lparr>st_dispatches := st_dispatches ev\<rparr>)" "st_events ev' = (st_events ev)(u := st_events ev u @ [e'])"
    using mem.alloc_log [OF assms(1) _ e(2)] e(1) by auto
  then show ?thesis by (auto simp: log_ok_def)
qed

lemma recorded_into_ok:
  assumes "log_ok ev" "recorded_into ev ev'" "user_ok ev v"
  shows "user_ok ev' v"
  using assms(2) unfolding recorded_into_def
proof
  assume "ev' = ev"
  then show ?thesis using assms(3) by simp
next
  assume "\<exists>u e e' ds. ue_PtsCount e = 1 \<and> appendLocked ev u e True = (ev'\<lparr>st_dispatches := st_dispatches ev\<rparr>, e') \<and>
        st_dispatches ev' = (st_dispatches ev)(u := st_dispatches ev u @ ds) \<and>
        (ds = [] \<or> (\<exists>k x. ds = [\<lparr>ud_Pts = ue_Pts e', ud_ExcludeAuthKeyID = k, ud_ExcludeSessionID = x\<rparr>] \<and> (k = 0 \<longleftrightarrow> x = 0)))"
  then obtain u e e' ds where e: "ue_PtsCount e = 1" "allocate_event ev u e = (ev'\<lparr>st_dispatches := st_dispatches ev\<rparr>, e')"
    and d: "st_dispatches ev' = (st_dispatches ev)(u := st_dispatches ev u @ ds)"
    and ds: "ds = [] \<or> (\<exists>k x. ds = [\<lparr>ud_Pts = ue_Pts e', ud_ExcludeAuthKeyID = k, ud_ExcludeSessionID = x\<rparr>] \<and> (k = 0 \<longleftrightarrow> x = 0))"
    unfolding allocate_event_def by blast
  have ev: "st_events ev' = (st_events ev)(u := st_events ev u @ [e'])" "ue_PtsCount e' = 1" "ue_UserID e' = u"
    using mem.alloc_log [OF assms(1) _ e(2)] e(1) by auto
  have "subseq (map ud_Pts (st_dispatches ev u) @ map ud_Pts ds) (map ue_Pts (st_events ev u) @ [ue_Pts e'])" if "u = v"
  proof (rule list_emb_append_mono)
    show "subseq (map ud_Pts (st_dispatches ev u)) (map ue_Pts (st_events ev u))" using assms(3) that by (simp add: user_ok_def)
    show "subseq (map ud_Pts ds) [ue_Pts e']" using ds by auto
  qed
  then show ?thesis using assms(3) ev d ds unfolding user_ok_def by (cases "u = v") auto
qed

lemma service_step_ok: "service_ok s \<Longrightarrow> service_ok (service_step op s)"
proof -
  assume "service_ok s"
  then obtain ss ev where s: "sv_states s = Some ss" "sv_events s = Some ev" "log_ok ev" and ok: "\<And>u. user_ok ev u"
    unfolding service_ok_def by blast
  have "sv_states (service_step op s) \<noteq> None" using service_step_states s(1) by blast
  moreover obtain ev' where ev': "sv_events (service_step op s) = Some ev'" "recorded_into ev ev'"
    using service_step_events [of s op] s(2) by (auto simp: event_step_def split: option.splits)
  ultimately show ?thesis
    using recorded_into_log [OF s(3) ev'(2)] recorded_into_ok [OF s(3) ev'(2) ok] unfolding service_ok_def by blast
qed

lemma service_run_ok: "service_ok s \<Longrightarrow> service_ok (service_run ops s)"
  unfolding service_run_def by (induction ops arbitrary: s) (auto intro: service_step_ok)

lemma fresh_ok: "service_ok fresh_service"
  using log_ok_new by (auto simp: service_ok_def fresh_service_def NewService_def user_ok_def NewUpdateEventStore_def)

lemma run_ok [simp]: "service_ok (service_run ops fresh_service)"
  by (rule service_run_ok [OF fresh_ok])

lemma service_step_prefix:
  assumes "service_ok s"
  shows "prefix (account_log s u) (account_log (service_step op s) u)"
proof -
  obtain ev where s: "sv_events s = Some ev" "log_ok ev" using assms unfolding service_ok_def by blast
  then obtain ev' where "sv_events (service_step op s) = Some ev'" "recorded_into ev ev'"
    using service_step_events [of s op] by (auto simp: event_step_def split: option.splits)
  with recorded_into_log [OF s(2)] s(1) show ?thesis by (simp add: account_log_def)
qed

lemma service_run_prefix: "service_ok s \<Longrightarrow> prefix (account_log s u) (account_log (service_run ops s) u)"
  unfolding service_run_def
  by (induction ops arbitrary: s) (auto intro: prefix_order.trans [OF service_step_prefix] service_step_ok)

lemma account_log_chained: "service_ok s \<Longrightarrow> chained 0 (account_log s u)"
  by (auto simp: service_ok_def account_log_def log_ok_def)

lemma account_log_units: "service_ok s \<Longrightarrow> e \<in> set (account_log s u) \<Longrightarrow> ue_PtsCount e = 1"
  by (auto simp: service_ok_def user_ok_def account_log_def)

lemma currentPts_top: "service_ok s \<Longrightarrow> currentPts s u = top_pts 0 (account_log s u)"
  using mem.water_log by (auto simp: service_ok_def account_log_def currentPts_def)

lemma unit_chain: "chained c es \<Longrightarrow> (\<forall>e \<in> set es. ue_PtsCount e = 1) \<Longrightarrow> map ue_Pts es = [c + 1..c + int (length es)]"
proof (induction es arbitrary: c)
  case (Cons e es)
  then have "ue_Pts e = c + 1" "map ue_Pts es = [(c + 1) + 1..(c + 1) + int (length es)]" by auto
  then show ?case by (simp add: upto_rec1 add.assoc)
qed simp

lemma log_pts: "service_ok s \<Longrightarrow> map ue_Pts (account_log s u) = [1..int (length (account_log s u))]"
  using unit_chain [OF account_log_chained, of s u] account_log_units [of s _ u] by simp

lemma unit_top: "chained c es \<Longrightarrow> (\<forall>e \<in> set es. ue_PtsCount e = 1) \<Longrightarrow> top_pts c es = c + int (length es)"
  by (induction es arbitrary: c) auto

lemma currentPts_length: "service_ok s \<Longrightarrow> currentPts s u = int (length (account_log s u))"
  using unit_top [OF account_log_chained, of s u] account_log_units [of s _ u] by (simp add: currentPts_top)

subsection \<open>The log\<close>

text \<open>
  C10. The account's log is gapless and append-only. After any sequence of operations the pts of the
  events are exactly 1, 2, ... up to the account's current pts, and whatever happens afterwards the
  log only gets longer: no event is changed, moved or lost.
\<close>

theorem log_gapless:
  "map ue_Pts (account_log (service_run ops fresh_service) u) = [1..currentPts (service_run ops fresh_service) u] \<and>
   currentPts (service_run ops fresh_service) u = int (length (account_log (service_run ops fresh_service) u)) \<and>
   prefix (account_log (service_run ops fresh_service) u) (account_log (service_run (ops @ later) fresh_service) u)"
  using log_pts [OF run_ok, of ops u] currentPts_length [OF run_ok, of ops u]
    service_run_prefix [OF run_ok, of ops u later] by (simp add: service_run_def)

text \<open>
  Every online dispatch the service enqueues refers to a committed event of the account, at most
  one dispatch per event and in log order, and names either both an auth key and a session to leave
  out or neither.
\<close>

theorem dispatches_committed:
  "subseq (map ud_Pts (account_dispatches (service_run ops fresh_service) u)) (map ue_Pts (account_log (service_run ops fresh_service) u)) \<and>
   list_all (\<lambda>d. (ud_ExcludeAuthKeyID d = 0) = (ud_ExcludeSessionID d = 0)) (account_dispatches (service_run ops fresh_service) u)"
  using run_ok [of ops] unfolding service_ok_def user_ok_def account_dispatches_def account_log_def by auto

subsection \<open>The difference\<close>

fun tiles :: "int \<Rightarrow> update_event list \<Rightarrow> bool" where
  "tiles c [] \<longleftrightarrow> True"
| "tiles c (e # es) \<longleftrightarrow> ue_Pts e = c + count_of e \<and> tiles (ue_Pts e) es"

lemma contiguous_loop_prefix:
  "contiguous_loop es c = (out, gap) \<Longrightarrow> tiles c out \<and> prefix out es \<and>
     (gap = None \<longrightarrow> out = es) \<and> (\<forall>e x. gap = Some (e, x) \<longrightarrow> prefix (out @ [e]) es \<and> ue_Pts e \<noteq> x \<and> x = top_pts c out + count_of e)"
  by (induction es arbitrary: c out gap) (auto split: if_splits prod.splits)

lemma tiles_contiguous_loop: "tiles c es \<Longrightarrow> contiguous_loop es c = (es, None)"
  by (induction es arbitrary: c) auto

lemma chained_tiles: "chained c es \<Longrightarrow> tiles c es"
  by (induction es arbitrary: c) (auto simp: count_of_def)

lemma sort_chained: "chained c es \<Longrightarrow> sort_slice (\<lambda>a b. ue_Pts a < ue_Pts b) es = es"
proof (rule sort_slice_unique [symmetric])
  assume ch: "chained c es"
  show "strict_total_on (\<lambda>a b. ue_Pts a < ue_Pts b) (set es)"
    using chained_inj [OF ch] unfolding strict_total_on_def by (auto simp: neq_iff) fastforce
qed (auto intro: chained_distinct chained_sorted)

lemma prefix_chained: "chained c es \<Longrightarrow> contiguousPrefixAndGap es c = (es, None)"
  using tiles_contiguous_loop [OF chained_tiles] sort_chained by (auto simp: contiguousPrefixAndGap_def)

end
