(* ===== verification/Update_Difference.thy ===== *)
theory Update_Difference
  imports Update_Theorems
begin

text \<open>
  What a device gets from \<^verbatim>\<open>GetDifference\<close>, and what the client's loop over its pages delivers.
\<close>

subsection \<open>One page\<close>

lemma clamp_pts:
  "us_Pts (clampDifferenceState from st) = min (max 0 (us_Pts from)) (us_Pts st)"
  "us_Date (clampDifferenceState from st) = us_Date from"
  by (simp_all add: clampDifferenceState_def Let_def)

lemma list_after_subset: "set (list_after_from es p n k) \<subseteq> {e \<in> set es. p < ue_Pts e}"
  by (induction es p n k rule: list_after_from.induct) auto

lemma list_after_length: "0 < n \<Longrightarrow> k < n \<Longrightarrow> int (length (list_after_from es p n k)) \<le> n - k"
  by (induction es p n k rule: list_after_from.induct) auto

lemma contiguousPrefixAndGap_facts:
  assumes "contiguousPrefixAndGap es c = (out, gap)"
  shows "tiles c out \<and> set out \<subseteq> set es \<and> length out \<le> length es"
proof (cases "es = []")
  case False
  then have "tiles c out" "prefix out (sort_slice (\<lambda>a b. ue_Pts a < ue_Pts b) es)"
    using assms contiguous_loop_prefix by (simp_all add: contiguousPrefixAndGap_def)
  then show ?thesis using set_mono_prefix prefix_length_le by force
qed (use assms in \<open>simp add: contiguousPrefixAndGap_def\<close>)

text \<open>The pts and the date of a checkpoint reading, \<open>0\<close> when there is none.\<close>

definition checkpoint_pts :: "checkpoint_reading \<Rightarrow> int" where
  "checkpoint_pts cp = (case cp of Some (Some (pts, date)) \<Rightarrow> pts | _ \<Rightarrow> 0)"

definition checkpoint_date :: "checkpoint_reading \<Rightarrow> int" where
  "checkpoint_date cp = (case cp of Some (Some (pts, date)) \<Rightarrow> date | _ \<Rightarrow> 0)"

lemma checkpoint_answer:
  "0 \<le> us_Pts from \<Longrightarrow> retainedPrefixCheckpoint cp from current =
     (if us_Pts from < checkpoint_pts cp then
        Some \<lparr>df_State = from\<lparr>us_Pts := checkpoint_pts cp, us_Seq := 0,
                us_Date := (if checkpoint_date cp > 0 then checkpoint_date cp
                            else if us_Date from = 0 then us_Date current else us_Date from)\<rparr>,
              df_Events = [], df_ChannelNudges = [], df_Partial = True\<rparr>
      else None)"
  by (auto simp: retainedPrefixCheckpoint_def checkpoint_pts_def checkpoint_date_def Let_def split: option.split)

lemma currentPts_nonneg: "0 \<le> currentPts s u"
proof -
  have "c \<le> contiguous_from es c" for es c
  proof (induction es c rule: contiguous_from.induct)
    case (1 es c)
    show ?case
    proof (cases "next_by_start es c")
      case None
      then show ?thesis by (simp add: contiguous_from.simps [of es c])
    next
      case (Some n)
      from next_by_start_Some [OF Some] obtain e where "n = ue_Pts e" "c = ue_Pts e - count_of e" by blast
      then have "c \<le> n" using count_of_pos [of e] by linarith
      with 1 [OF Some] Some show ?thesis by (simp add: contiguous_from.simps [of es c])
    qed
  qed
  then show ?thesis by (auto simp: currentPts_def MaxContiguousPts_def split: option.split)
qed

lemma listed_after_facts:
  assumes "0 < n"
  shows "set (listed_after s u p n) \<subseteq> set (account_log s u)" "int (length (listed_after s u p n)) \<le> n"
  using assms list_after_subset [of _ p n 0] list_after_length [OF assms assms, of _ p]
  by (auto simp: listed_after_def ListAfter_def account_log_def split: option.splits)

text \<open>
  C8. A difference never skips an event it could have sent. Whatever the log holds (events out of
  order, with gaps or with the same pts twice), whatever the two readings of the retention checkpoint
  say, and whatever other requests do between the reading of the current pts and the listing of the
  events: either the answer is a retention checkpoint above the device, with no events and another
  round asked for, or its events are events of the log, at most 100, that follow each other without a
  gap from the (clamped) state of the device, and the state that comes with them is the end of the
  last one. So a client jumps over pts only when a checkpoint says that they are pruned.
\<close>

theorem difference_never_skips:
  "let d = GetDifference now mid s cp cp' u st; start = min (max 0 (us_Pts st)) (currentPts s u)
   in (df_Events d = [] \<and> df_Partial d \<and> start < us_Pts (df_State d) \<and>
       us_Pts (df_State d) \<in> {checkpoint_pts cp, checkpoint_pts cp'}) \<or>
      (tiles start (df_Events d) \<and> set (df_Events d) \<subseteq> set (account_log (mid 0 s) u) \<and> length (df_Events d) \<le> 100 \<and>
       us_Pts (df_State d) = top_pts start (df_Events d))"
proof -
  define start where "start = min (max 0 (us_Pts st)) (currentPts s u)"
  define req where "req = clampDifferenceState st (currentState now s u)"
  obtain out gap where o: "contiguousPrefixAndGap (listed_after (mid 0 s) u start getDifferenceLimit) start = (out, gap)"
    by fastforce
  have page: "tiles start out" "set out \<subseteq> set (account_log (mid 0 s) u)" "length out \<le> 100"
    using contiguousPrefixAndGap_facts [OF o] listed_after_facts [of getDifferenceLimit "mid 0 s" u start]
    by (auto simp: getDifferenceLimit_def)
  have f: "us_Pts req = start" "us_Pts (currentState now s u) = currentPts s u"
    by (simp_all add: req_def start_def clamp_pts currentState_def)
  have nonneg: "0 \<le> us_Pts req" using currentPts_nonneg [of s u] by (simp add: f start_def)
  note answer = checkpoint_answer [OF nonneg, of _ "currentState now s u", unfolded f]
  have idle: "currentPts s u = start" if "sv_events s = None \<or> currentPts s u \<le> start"
    using that by (auto simp: start_def currentPts_def)
  show ?thesis
    unfolding start_def [symmetric] GetDifference_def req_def [symmetric] Let_def f o answer fst_conv
    using page idle by (auto simp: top_pts_def f)
qed

subsection \<open>The events a device misses\<close>

lemma top_take:
  assumes "service_ok s" "nat p \<le> length (account_log s u)"
  shows "top_pts 0 (take (nat p) (account_log s u)) = int (nat p)"
proof -
  have "\<forall>e \<in> set (take (nat p) (account_log s u)). ue_PtsCount e = 1"
    using account_log_units [OF assms(1)] in_set_takeD by fast
  from unit_top [OF chained_take [OF account_log_chained [OF assms(1)]] this] assms(2) show ?thesis by simp
qed

lemma filter_log_drop:
  assumes "service_ok s"
  shows "filter (\<lambda>e. p < ue_Pts e) (account_log s u) = drop (nat p) (account_log s u)"
proof (cases "nat p \<le> length (account_log s u)")
  case True
  let ?es = "account_log s u"
  have ch: "chained 0 (take (nat p) ?es @ drop (nat p) ?es)" using account_log_chained [OF assms, of u] by simp
  have "filter (\<lambda>e. int (nat p) < ue_Pts e) ?es = drop (nat p) ?es"
    using filter_chain_split [OF ch top_take [OF assms True]] by simp
  moreover have "(p < ue_Pts e) = (int (nat p) < ue_Pts e)" if "e \<in> set ?es" for e
    using chained_above [OF account_log_chained [OF assms] that] by auto
  ultimately show ?thesis by (metis (mono_tags, lifting) filter_cong)
next
  case False
  have "\<not> p < ue_Pts e" if "e \<in> set (account_log s u)" for e
    using chained_below [OF account_log_chained [OF assms] that] False currentPts_top [OF assms, of u] currentPts_length [OF assms, of u]
    by simp
  then show ?thesis using False by (simp add: filter_empty_conv)
qed

definition missing :: "update_service \<Rightarrow> int \<Rightarrow> int \<Rightarrow> update_event list" where
  "missing s u p = filter (\<lambda>e. p < ue_Pts e) (account_log s u)"

lemma missing_drop: "service_ok s \<Longrightarrow> missing s u p = drop (nat p) (account_log s u)"
  by (simp add: missing_def filter_log_drop)

lemma missing_chained:
  assumes "service_ok s" "0 \<le> p" "p \<le> currentPts s u"
  shows "chained p (missing s u p)"
proof -
  let ?es = "account_log s u"
  have ch: "chained 0 (take (nat p) ?es @ drop (nat p) ?es)" using account_log_chained [OF assms(1), of u] by simp
  have "top_pts 0 (take (nat p) ?es) = p"
    using assms top_take [OF assms(1), of p u] by (simp add: currentPts_length)
  with ch show ?thesis unfolding missing_drop [OF assms(1)] chained_append by simp
qed

definition page_of :: "int \<Rightarrow> update_state \<Rightarrow> int \<Rightarrow> update_event list \<Rightarrow> update_difference" where
  "page_of now from p es =
     \<lparr>df_State = zero_state\<lparr>us_Pts := p + int (length es),
        us_Date := (if es \<noteq> [] then ue_Date (last es) else if us_Date from \<noteq> 0 then us_Date from else now)\<rparr>,
      df_Events = es, df_ChannelNudges = [], df_Partial = (length es = 100)\<rparr>"

lemma unit_top_missing:
  "service_ok s \<Longrightarrow> 0 \<le> p \<Longrightarrow> p \<le> currentPts s u \<Longrightarrow> top_pts p (take n (missing s u p)) = p + int (length (take n (missing s u p)))"
proof (rule unit_top [OF chained_take [OF missing_chained]])
  assume "service_ok s"
  then show "\<forall>e \<in> set (take n (missing s u p)). ue_PtsCount e = 1"
    using account_log_units by (auto simp: missing_def dest!: in_set_takeD)
qed

lemma filter_log_take:
  assumes "service_ok s"
  shows "filter (\<lambda>e. ue_Pts e \<le> b) (account_log s u) = take (nat b) (account_log s u)"
proof -
  let ?F = "account_log s u" and ?P = "\<lambda>e. b < ue_Pts e"
  have "filter ?P (take (nat b) ?F) @ filter ?P (drop (nat b) ?F) = drop (nat b) ?F"
    using filter_log_drop [OF assms, of b u] by (simp flip: filter_append)
  moreover have above: "\<forall>e \<in> set (drop (nat b) ?F). b < ue_Pts e"
    using arg_cong [OF filter_log_drop [OF assms, of b u], of set] by auto
  ultimately have "filter ?P (take (nat b) ?F) = []" by (simp add: filter_True)
  then have "filter (\<lambda>e. ue_Pts e \<le> b) (take (nat b) ?F) = take (nat b) ?F" by (auto simp: filter_empty_conv filter_id_conv)
  moreover have "filter (\<lambda>e. ue_Pts e \<le> b) (drop (nat b) ?F) = []" using above by (force simp: filter_empty_conv)
  ultimately show ?thesis using filter_append [of "\<lambda>e. ue_Pts e \<le> b" "take (nat b) ?F" "drop (nat b) ?F"] by simp
qed

text \<open>The events of a log above \<open>a\<close> and up to \<open>b\<close>.\<close>

lemma log_window:
  assumes "service_ok s"
  shows "filter (\<lambda>e. a < ue_Pts e \<and> ue_Pts e \<le> b) (account_log s u) = drop (nat a) (take (nat b) (account_log s u))"
proof -
  let ?F = "account_log s u"
  have mem: "(a < ue_Pts e) = (e \<in> set (drop (nat a) ?F))" if "e \<in> set ?F" for e
    using arg_cong [OF filter_log_drop [OF assms, of a u], of set] that by auto
  have "filter (\<lambda>e. a < ue_Pts e) (take (nat b) ?F) = drop (nat a) (take (nat b) ?F)"
  proof (cases "nat b \<le> nat a")
    case True
    have "\<not> a < ue_Pts e" if e: "e \<in> set (take (nat b) ?F)" for e
    proof -
      have "ue_Pts e \<le> b" using e arg_cong [OF filter_log_take [OF assms, of b u], of set] by auto
      moreover have "0 < nat b" using e by (cases "nat b") auto
      ultimately show ?thesis using True by linarith
    qed
    then show ?thesis using True by (simp add: filter_empty_conv)
  next
    case False
    have "filter (\<lambda>e. a < ue_Pts e) ?F =
        filter (\<lambda>e. a < ue_Pts e) (take (nat b) ?F) @ filter (\<lambda>e. a < ue_Pts e) (drop (nat b) ?F)"
      by (simp flip: filter_append)
    moreover have "filter (\<lambda>e. a < ue_Pts e) (drop (nat b) ?F) = drop (nat b) ?F"
    proof (rule filter_True, rule ballI)
      fix e
      assume "e \<in> set (drop (nat b) ?F)"
      then have "b < ue_Pts e" using arg_cong [OF filter_log_drop [OF assms, of b u], of set] by auto
      then show "a < ue_Pts e" using False by linarith
    qed
    moreover have "drop (nat a) ?F = drop (nat a) (take (nat b) ?F) @ drop (nat b) ?F"
      using False drop_append [of "nat a" "take (nat b) ?F" "drop (nat b) ?F"] by (cases "nat b \<le> length ?F") auto
    ultimately show ?thesis using filter_log_drop [OF assms, of a u] by simp
  qed
  moreover have "filter (\<lambda>e. a < ue_Pts e \<and> ue_Pts e \<le> b) ?F = filter (\<lambda>e. a < ue_Pts e) (filter (\<lambda>e. ue_Pts e \<le> b) ?F)"
    by (metis (no_types, lifting) filter_cong filter_filter)
  ultimately show ?thesis by (simp only: filter_log_take [OF assms])
qed

lemma page_live:
  fixes req :: update_state and s u
  defines "p \<equiv> min (max 0 (us_Pts req)) (currentPts s u)"
  assumes ok: "service_ok s" "service_ok (mid 0 s)" and pre: "prefix (account_log s u) (account_log (mid 0 s) u)"
    and cp: "checkpoint_pts cp \<le> p"
  shows "GetDifference now mid s cp cp' u req =
     page_of now req p (if p < currentPts s u then take 100 (missing (mid 0 s) u p) else [])"
proof -
  obtain ev where ev: "sv_events s = Some ev" using ok(1) unfolding service_ok_def by blast
  obtain ev2 where ev2: "sv_events (mid 0 s) = Some ev2" "log_ok ev2" using ok(2) unfolding service_ok_def by blast
  have grow: "currentPts s u \<le> currentPts (mid 0 s) u"
    using prefix_length_le [OF pre] by (simp add: currentPts_length ok)
  have p: "0 \<le> p" "p \<le> currentPts (mid 0 s) u" using currentPts_nonneg [of s u] grow by (auto simp: p_def)
  have pts: "us_Pts (clampDifferenceState req (currentState now s u)) = p" "us_Pts (currentState now s u) = currentPts s u"
    by (simp_all add: clamp_pts currentState_def p_def)
  have cp0: "retainedPrefixCheckpoint cp (clampDifferenceState req (currentState now s u)) (currentState now s u) = None"
    using cp p(1) by (simp add: checkpoint_answer pts)
  have i: "(int n = getDifferenceLimit) = (n = 100)" for n by (simp add: getDifferenceLimit_def)
  show ?thesis
  proof (cases "p < currentPts s u")
    case False
    then have "p = currentPts s u" by (auto simp: p_def)
    then show ?thesis
      unfolding GetDifference_def Let_def cp0 pts by (simp add: page_of_def clamp_pts currentState_def zero_state_def)
  next
    case True
    have "int (length (missing (mid 0 s) u p)) = currentPts (mid 0 s) u - p"
      using p by (simp add: missing_drop [OF ok(2)] currentPts_length [OF ok(2)])
    then have ne: "take 100 (missing (mid 0 s) u p) \<noteq> []" using True grow by auto
    have l: "listed_after (mid 0 s) u p getDifferenceLimit = take 100 (missing (mid 0 s) u p)"
      using mem.list_after_log [OF ev2(2), of getDifferenceLimit u p] ev2(1)
      by (simp add: getDifferenceLimit_def missing_def account_log_def listed_after_def)
    have c: "contiguousPrefixAndGap (take 100 (missing (mid 0 s) u p)) p = (take 100 (missing (mid 0 s) u p), None)"
      by (rule prefix_chained [OF chained_take [OF missing_chained [OF ok(2) p]]])
    have t: "ue_Pts (last (take 100 (missing (mid 0 s) u p))) = p + int (length (take 100 (missing (mid 0 s) u p)))"
      using unit_top_missing [OF ok(2) p, of 100] ne by (simp add: top_pts_def)
    show ?thesis using ne True
      unfolding GetDifference_def Let_def cp0 pts ev option.case l c fst_conv t i
      by (simp add: page_of_def currentState_def zero_state_def del: take_eq_Nil)
  qed
qed

lemma run_page:
  assumes "service_ok s" "checkpoint_pts cp \<le> min (max 0 (us_Pts req)) (currentPts s u)"
  shows "GetDifference now (\<lambda>i. service_run during) s cp cp' u req =
     page_of now req (min (max 0 (us_Pts req)) (currentPts s u))
       (if min (max 0 (us_Pts req)) (currentPts s u) < currentPts s u
        then take 100 (missing (service_run during s) u (min (max 0 (us_Pts req)) (currentPts s u))) else [])"
  using assms service_run_ok service_run_prefix by (intro page_live) auto

text \<open>
  C9. The difference is exactly the next events the device misses. In every state the service can
  reach, and whatever other requests do between the reading of the current pts and the listing of
  the events: a device below the retention checkpoint is answered the checkpoint's pts and date, no
  events and the order to ask again; any other device that is below the account is answered the first
  100 events above its pts in order, the pts and the date of the last one, and a device that is not
  below it the account's pts and no events. Such an answer asks for another round exactly when it
  filled the page, so also when exactly 100 events were missing and none follows.
\<close>

theorem difference_exact:
  fixes ops during now st u cp cp'
  defines "s \<equiv> service_run ops fresh_service"
  defines "start \<equiv> min (max 0 (us_Pts st)) (currentPts s u)"
  defines "es \<equiv> if start < currentPts s u
     then take 100 (filter (\<lambda>e. us_Pts st < ue_Pts e) (account_log (service_run during s) u)) else []"
  shows "GetDifference now (\<lambda>i. service_run during) s cp cp' u st =
     (if start < checkpoint_pts cp
      then \<lparr>df_State = st\<lparr>us_Pts := checkpoint_pts cp, us_Seq := 0,
              us_Date := (if checkpoint_date cp > 0 then checkpoint_date cp else if us_Date st \<noteq> 0 then us_Date st else now)\<rparr>,
            df_Events = [], df_ChannelNudges = [], df_Partial = True\<rparr>
      else \<lparr>df_State = \<lparr>us_Pts = start + int (length es), us_Qts = 0,
              us_Date = (if es \<noteq> [] then ue_Date (last es) else if us_Date st \<noteq> 0 then us_Date st else now), us_Seq = 0\<rparr>,
            df_Events = es, df_ChannelNudges = [], df_Partial = (length es = 100)\<rparr>)"
proof (cases "start < checkpoint_pts cp")
  case True
  have "0 \<le> start" using currentPts_nonneg [of s u] by (simp add: start_def)
  then have "retainedPrefixCheckpoint cp (clampDifferenceState st (currentState now s u)) (currentState now s u) =
      Some \<lparr>df_State = st\<lparr>us_Pts := checkpoint_pts cp, us_Seq := 0,
              us_Date := (if checkpoint_date cp > 0 then checkpoint_date cp else if us_Date st \<noteq> 0 then us_Date st else now)\<rparr>,
            df_Events = [], df_ChannelNudges = [], df_Partial = True\<rparr>"
    using True unfolding start_def
    by (subst checkpoint_answer) (simp_all add: clamp_pts currentState_def, simp add: clampDifferenceState_def Let_def)
  then show ?thesis using True unfolding GetDifference_def Let_def by simp
next
  case False
  have m: "missing (service_run during s) u start = missing (service_run during s) u (us_Pts st)" if "start < currentPts s u"
    using that by (auto simp: missing_drop service_run_ok s_def start_def min_def max_def split: if_splits)
  have es: "es = (if start < currentPts s u then take 100 (missing (service_run during s) u start) else [])"
    using m unfolding es_def missing_def [of _ _ "us_Pts st", symmetric] by simp
  have "service_ok s" "checkpoint_pts cp \<le> start" using False by (simp_all add: s_def)
  then have "GetDifference now (\<lambda>i. service_run during) s cp cp' u st = page_of now st start es"
    unfolding es start_def by (rule run_page)
  then show ?thesis using False by (simp add: page_of_def zero_state_def)
qed

subsection \<open>The client's loop\<close>

text \<open>
  A client keeps asking with the state it was given until an answer is not partial. Other requests
  run all the time: the element \<open>(during, pause)\<close> of the list is what they do while one request is
  served and between its answer and the next request. \<open>None\<close> means that the rounds did not suffice.
\<close>

fun sync :: "(service_op list \<times> service_op list) list \<Rightarrow> int \<Rightarrow> update_service \<Rightarrow> checkpoint_reading \<Rightarrow> int \<Rightarrow> update_state \<Rightarrow>
    (update_event list \<times> update_state) option" where
  "sync [] now s cp u st = None"
| "sync ((during, pause) # rounds) now s cp u st =
     (let d = GetDifference now (\<lambda>i. service_run during) s cp cp u st
      in if df_Partial d
         then map_option (\<lambda>(es, st'). (df_Events d @ es, st')) (sync rounds now (service_run (during @ pause) s) cp u (df_State d))
         else Some (df_Events d, df_State d))"

fun after_rounds :: "(service_op list \<times> service_op list) list \<Rightarrow> update_service \<Rightarrow> update_service" where
  "after_rounds [] s = s"
| "after_rounds ((during, pause) # rounds) s = after_rounds rounds (service_run (during @ pause) s)"

lemma after_rounds_ok: "service_ok s \<Longrightarrow> service_ok (after_rounds rounds s)"
  by (induction rounds s rule: after_rounds.induct) (auto intro: service_run_ok)

lemma after_rounds_prefix: "service_ok s \<Longrightarrow> prefix (account_log s u) (account_log (after_rounds rounds s) u)"
proof (induction rounds s rule: after_rounds.induct)
  case (2 during pause rounds s)
  then show ?case
    using prefix_order.trans [OF service_run_prefix [OF "2.prems", of u "during @ pause"]] service_run_ok [OF "2.prems"] by simp
qed simp

lemma prefix_take: "prefix xs ys \<Longrightarrow> n \<le> length xs \<Longrightarrow> take n ys = take n xs"
  by (auto elim: prefixE)

lemma drop_take_join:
  assumes "a \<le> b" "b \<le> c"
  shows "drop a (take b xs) @ drop b (take c xs) = drop a (take c xs)"
proof -
  have "take b xs @ drop b (take c xs) = take c xs"
    using assms(2) append_take_drop_id [of b "take c xs"] by (simp add: min_def)
  moreover have "drop a (take b xs @ drop b (take c xs)) = drop a (take b xs) @ drop b (take c xs)"
    using assms(1) by (cases "b \<le> length xs") simp_all
  ultimately show ?thesis by simp
qed

text \<open>One page against the log at the end of the loop.\<close>

lemma difference_window:
  fixes s u now cp cp' st during F
  assumes ok: "service_ok s" and final: "prefix (account_log (service_run during s) u) F"
    and cp: "checkpoint_pts cp \<le> min (max 0 (us_Pts st)) (currentPts s u)"
  defines "d \<equiv> GetDifference now (\<lambda>i. service_run during) s cp cp' u st"
  shows "df_Events d = drop (nat (us_Pts st)) (take (nat (us_Pts (df_State d))) F) \<and>
     us_Pts (df_State d) \<le> currentPts (service_run during s) u \<and>
     (if df_Partial d then us_Pts (df_State d) = max 0 (us_Pts st) + 100 else currentPts s u \<le> us_Pts (df_State d))"
proof -
  define p where "p = min (max 0 (us_Pts st)) (currentPts s u)"
  let ?L = "account_log (service_run during s) u"
  have ok2: "service_ok (service_run during s)" by (rule service_run_ok [OF ok])
  have grow: "currentPts s u \<le> int (length ?L)"
    using prefix_length_le [OF service_run_prefix [OF ok, of u during]] by (simp add: currentPts_length [OF ok])
  have cur: "currentPts (service_run during s) u = int (length ?L)" by (rule currentPts_length [OF ok2])
  have F: "take n F = take n ?L" if "n \<le> length ?L" for n by (rule prefix_take [OF final that])
  have d: "d = page_of now st p (if p < currentPts s u then take 100 (drop (nat p) ?L) else [])"
    unfolding d_def p_def using run_page [OF ok cp] by (simp add: missing_drop [OF ok2])
  show ?thesis
  proof (cases "p < currentPts s u")
    case False
    then have "p = currentPts s u" "nat (currentPts s u) \<le> nat (us_Pts st)" by (auto simp: p_def min_def max_def split: if_splits)
    then show ?thesis using grow by (simp add: d page_of_def cur)
  next
    case True
    then have n: "nat (us_Pts st) = nat p" "p = max 0 (us_Pts st)" "0 \<le> p" by (auto simp: p_def min_def max_def split: if_splits)
    define k where "k = length (take 100 (drop (nat p) ?L))"
    have k: "k = min 100 (length ?L - nat p)" by (simp add: k_def)
    have le: "nat p + k \<le> length ?L" using True grow k by linarith
    have st: "us_Pts (df_State d) = p + int k" "df_Partial d = (k = 100)" "df_Events d = take 100 (drop (nat p) ?L)"
      using True by (simp_all add: d page_of_def k_def del: take_eq_Nil length_take)
    have "take 100 (drop (nat p) ?L) = take k (drop (nat p) ?L)" unfolding k by (simp add: min_def)
    also have "\<dots> = drop (nat p) (take (nat (p + int k)) F)"
      using n(3) F [OF le] by (simp add: nat_add_distrib take_drop add.commute [of k])
    finally have ev: "df_Events d = drop (nat (us_Pts st)) (take (nat (us_Pts (df_State d))) F)" by (simp only: st n(1))
    have "p + int k \<le> int (length ?L)" using le n(3) by linarith
    moreover have "currentPts s u \<le> p + int k" if "k \<noteq> 100" using that k grow True n(3) by linarith
    ultimately show ?thesis using ev n(2) by (simp add: st(1,2) cur)
  qed
qed

lemma sync_live:
  "service_ok s \<Longrightarrow> checkpoint_pts cp \<le> min (max 0 (us_Pts st)) (currentPts s u) \<Longrightarrow>
   (length (account_log (after_rounds rounds s) u) - nat (us_Pts st)) div 100 < length rounds \<Longrightarrow>
   \<exists>es st'. sync rounds now s cp u st = Some (es, st') \<and>
     es = drop (nat (us_Pts st)) (take (nat (us_Pts st')) (account_log (after_rounds rounds s) u)) \<and>
     currentPts s u \<le> us_Pts st' \<and> us_Pts st' \<le> currentPts (after_rounds rounds s) u"
proof (induction rounds now s cp u st rule: sync.induct)
  case (2 during pause rounds now s cp u st)
  define d where "d = GetDifference now (\<lambda>i. service_run during) s cp cp u st"
  define s1 where "s1 = service_run (during @ pause) s"
  let ?F = "account_log (after_rounds rounds s1) u"
  have ok1: "service_ok s1" "service_ok (service_run during s)" unfolding s1_def by (rule service_run_ok [OF "2.prems"(1)])+
  have "s1 = service_run pause (service_run during s)" by (simp add: s1_def run_append)
  then have to1: "prefix (account_log (service_run during s) u) (account_log s1 u)"
    using service_run_prefix [OF ok1(2), of u pause] by simp
  have toF: "prefix (account_log (service_run during s) u) ?F"
    by (rule prefix_order.trans [OF to1 after_rounds_prefix [OF ok1(1)]])
  have cur: "currentPts (service_run during s) u \<le> currentPts s1 u" "currentPts s1 u \<le> int (length ?F)"
      "currentPts s u \<le> currentPts s1 u" "currentPts (after_rounds rounds s1) u = int (length ?F)"
    using prefix_length_le [OF to1] prefix_length_le [OF after_rounds_prefix [OF ok1(1), of u rounds]]
      prefix_length_le [OF service_run_prefix [OF "2.prems"(1), of u "during @ pause", folded s1_def]]
    by (simp_all add: currentPts_length ok1 "2.prems"(1) after_rounds_ok)
  note page = difference_window [OF "2.prems"(1) toF "2.prems"(2), of now cp, folded d_def]
  have unf: "sync ((during, pause) # rounds) now s cp u st =
      (if df_Partial d then map_option (\<lambda>(es, st'). (df_Events d @ es, st')) (sync rounds now s1 cp u (df_State d))
       else Some (df_Events d, df_State d))" "after_rounds ((during, pause) # rounds) s = after_rounds rounds s1"
    by (simp_all add: Let_def d_def s1_def)
  show ?case
  proof (cases "df_Partial d")
    case False
    then show ?thesis unfolding unf using page cur by auto
  next
    case True
    then have pts: "us_Pts (df_State d) = max 0 (us_Pts st) + 100" "us_Pts (df_State d) \<le> currentPts s1 u"
      using page cur(1) by simp_all
    then have n: "nat (us_Pts (df_State d)) = nat (us_Pts st) + 100" by auto
    have "checkpoint_pts cp \<le> min (max 0 (us_Pts (df_State d))) (currentPts s1 u)" using "2.prems"(2) pts cur(3) by auto
    moreover have "(length ?F - nat (us_Pts (df_State d))) div 100 < length rounds"
      using "2.prems"(3) pts cur(2) unfolding unf n by simp
    ultimately obtain es st' where r: "sync rounds now s1 cp u (df_State d) = Some (es, st')"
      "es = drop (nat (us_Pts (df_State d))) (take (nat (us_Pts st')) ?F)"
      "currentPts s1 u \<le> us_Pts st'" "us_Pts st' \<le> currentPts (after_rounds rounds s1) u"
      using "2.IH" [OF d_def True, folded s1_def, OF ok1(1)] by blast
    have "df_Events d @ es = drop (nat (us_Pts st)) (take (nat (us_Pts st')) ?F)"
      using page r(2,3) pts n by (simp add: drop_take_join)
    then show ?thesis unfolding unf using r True cur(3) by auto
  qed
qed simp

text \<open>
  C7. Every device catches up. Let a client start from any state, whatever pts it claims, and keep
  asking until the answer is not partial, while any other requests run during and between its
  requests. When the retention checkpoint read for the device stays the same and is not above the
  account's pts, the loop ends after at most one round per hundred events of the final log and two
  more; the client then holds, each once and in order, exactly the events above its pts and above the
  checkpoint (what lies below it is pruned and skipped) up to the pts it ends at, which is at least
  the account's pts when it began.
\<close>

theorem sync_delivers:
  assumes "checkpoint_pts cp \<le> currentPts (service_run ops fresh_service) u"
    and "length (account_log (after_rounds rounds (service_run ops fresh_service)) u) div 100 + 2 \<le> length rounds"
  shows "\<exists>es st'. sync rounds now (service_run ops fresh_service) cp u st = Some (es, st') \<and>
     es = filter (\<lambda>e. max (us_Pts st) (checkpoint_pts cp) < ue_Pts e \<and> ue_Pts e \<le> us_Pts st')
        (account_log (after_rounds rounds (service_run ops fresh_service)) u) \<and>
     currentPts (service_run ops fresh_service) u \<le> us_Pts st' \<and>
     us_Pts st' \<le> currentPts (after_rounds rounds (service_run ops fresh_service)) u"
proof -
  let ?s = "service_run ops fresh_service" and ?F = "account_log (after_rounds rounds (service_run ops fresh_service)) u"
  have okF: "service_ok (after_rounds rounds ?s)" by (intro after_rounds_ok run_ok)
  have div: "(length ?F - n) div 100 \<le> length ?F div 100" for n by (intro div_le_mono) simp
  note window = log_window [OF okF, of "max (us_Pts st) (checkpoint_pts cp)" _ u]
  show ?thesis
  proof (cases "checkpoint_pts cp \<le> max 0 (us_Pts st)")
    case True
    then have a: "nat (max (us_Pts st) (checkpoint_pts cp)) = nat (us_Pts st)" by auto
    have "\<exists>es st'. sync rounds now ?s cp u st = Some (es, st') \<and>
        es = drop (nat (us_Pts st)) (take (nat (us_Pts st')) ?F) \<and>
        currentPts ?s u \<le> us_Pts st' \<and> us_Pts st' \<le> currentPts (after_rounds rounds ?s) u"
      using True assms div [of "nat (us_Pts st)"] by (intro sync_live) auto
    then show ?thesis unfolding window a .
  next
    case False
    obtain during pause rs where rs: "rounds = (during, pause) # rs" using assms(2) by (cases rounds) auto
    define s1 where "s1 = service_run (during @ pause) ?s"
    have ok1: "service_ok s1" unfolding s1_def by (rule service_run_ok [OF run_ok])
    have grow: "currentPts ?s u \<le> currentPts s1 u"
      using prefix_length_le [OF service_run_prefix [OF run_ok, of ops u "during @ pause", folded s1_def]]
      by (simp add: currentPts_length ok1)
    define d where "d = GetDifference now (\<lambda>i. service_run during) ?s cp cp u st"
    have d: "df_Partial d" "df_Events d = []" "us_Pts (df_State d) = checkpoint_pts cp"
      using False currentPts_nonneg [of ?s u]
      by (auto simp: d_def GetDifference_def Let_def checkpoint_answer clamp_pts currentState_def)
    have F: "?F = account_log (after_rounds rs s1) u" "after_rounds rounds ?s = after_rounds rs s1" by (simp_all add: rs s1_def)
    have a: "nat (max (us_Pts st) (checkpoint_pts cp)) = nat (us_Pts (df_State d))" using False d(3) by simp
    have "\<exists>es st'. sync rs now s1 cp u (df_State d) = Some (es, st') \<and>
        es = drop (nat (us_Pts (df_State d))) (take (nat (us_Pts st')) ?F) \<and>
        currentPts s1 u \<le> us_Pts st' \<and> us_Pts st' \<le> currentPts (after_rounds rs s1) u"
      unfolding F using False d(3) grow assms div [of "nat (us_Pts (df_State d))"]
      by (intro sync_live ok1) (simp_all add: rs flip: s1_def)
    then obtain es st' where r: "sync rs now s1 cp u (df_State d) = Some (es, st')"
      "es = drop (nat (us_Pts (df_State d))) (take (nat (us_Pts st')) ?F)"
      "currentPts s1 u \<le> us_Pts st'" "us_Pts st' \<le> currentPts (after_rounds rounds ?s) u" unfolding F by blast
    have "sync rounds now ?s cp u st = Some (es, st')" using r(1) d unfolding rs by (simp add: Let_def flip: d_def s1_def)
    then show ?thesis unfolding window a using r(2-4) grow by auto
  qed
qed

definition demo_ops :: "service_op list" where
  "demo_ops = [OpRecord 10 (CallContactsReset 9 7 0 0), OpRecord 11 (CallDialogUnreadMark 9 7 (user_peer 8) True 5 6),
     OpRecord 12 (CallContactsReset 9 7 0 0)]"

lemmas service_eval = service_run_def fresh_service_def NewService_def NewUpdateEventStore_def NewUpdateStateStore_def
  record_call_defs recordEvent_def recordEventWithoutState_def recordEventCore_def append_recorded_def state_save_def idle_def
  AppendAllocatedWithDispatch_def AppendAllocated_def
  append_event_def appendLocked_def max_pts_def unit_event_def message_event_def zero_event_def account_log_def Let_def
  state_Save_max state_of_def

lemma demo_log: "map ue_Pts (account_log (service_run demo_ops fresh_service) 7) = [1, 2, 3]"
  by (simp add: demo_ops_def service_eval)

lemma sync_delivers_witness:
  "\<exists>es st'. sync [([], demo_ops), (demo_ops, [])] 20 (service_run demo_ops fresh_service) (Some (Some (1, 5))) 7 zero_state = Some (es, st') \<and>
     es = filter (\<lambda>e. 1 < ue_Pts e \<and> ue_Pts e \<le> us_Pts st') (account_log (service_run (demo_ops @ demo_ops @ demo_ops) fresh_service) 7) \<and>
     3 \<le> us_Pts st'"
proof -
  let ?s = "service_run demo_ops fresh_service" and ?rounds = "[([], demo_ops), (demo_ops, [])]"
  have c: "currentPts ?s 7 = 3" using currentPts_length [OF run_ok, of demo_ops 7] arg_cong [OF demo_log, of length] by simp
  have final: "after_rounds ?rounds ?s = service_run (demo_ops @ demo_ops @ demo_ops) fresh_service" by (simp add: run_append)
  have "length (account_log (service_run (demo_ops @ demo_ops @ demo_ops) fresh_service) 7) = 9"
    by (simp add: demo_ops_def service_eval)
  then have "checkpoint_pts (Some (Some (1, 5))) \<le> currentPts ?s 7" "length (account_log (after_rounds ?rounds ?s) 7) div 100 + 2 \<le> length ?rounds"
    unfolding final by (simp_all add: checkpoint_pts_def c)
  from sync_delivers [OF this, of 20 zero_state] c show ?thesis unfolding final
    by (auto simp: checkpoint_pts_def zero_state_def)
qed

end
