(* ===== verification/Update_Devices.thy ===== *)
theory Update_Devices
  imports Update_Difference
begin

text \<open>
  The states of the devices, repeated publication, the exact effect of a recording and of logging
  a device out, and the account's water mark on an arbitrary log.
\<close>

subsection \<open>Publication\<close>

lemma find_append: "find P xs = Some x \<Longrightarrow> find P (xs @ ys) = Some x"
  by (induction xs) (auto split: if_splits)

lemma find_prefix: "find P xs = Some x \<Longrightarrow> prefix xs ys \<Longrightarrow> find P ys = Some x"
  by (auto elim!: prefixE intro: find_append)

lemma find_snoc: "find P xs = None \<Longrightarrow> P x \<Longrightarrow> find P (xs @ [x]) = Some x"
  by (induction xs) (auto split: if_splits)

definition resolved_user :: "int \<Rightarrow> message \<Rightarrow> int" where
  "resolved_user u msg = (if u = 0 then msg_OwnerUserID msg else u)"

abbreviation announces :: "message \<Rightarrow> update_event \<Rightarrow> bool" where
  "announces msg e \<equiv> ue_Type e = UpdateEventNewMessage \<and> msg_ID (ue_Message e) = msg_ID msg"

lemma publish_eq:
  assumes "sv_events s \<noteq> None" "0 < msg_ID msg" "resolved_user u msg \<noteq> 0"
  shows "PublishNewMessage now mid s u msg =
     (case find (announces msg) (account_log s (resolved_user u msg)) of
        Some event \<Rightarrow> Inr (mid 0 s, event, currentState now (mid 0 s) (resolved_user u msg))
      | None \<Rightarrow> recordEventCore now mid (mid 0 s) 0 0 (resolved_user u msg) (message_event now msg UpdateEventNewMessage) True 0 False)"
  using assms unfolding PublishNewMessage_def Let_def resolved_user_def [symmetric]
  by (auto simp: FindNewMessageEvent_def account_log_def)

lemma append_published:
  assumes "sv_events s \<noteq> None" "recordEventCore now mid s 0 0 u (message_event now msg UpdateEventNewMessage) True 0 False = Inr (s1, e, st)"
  shows "account_log s1 u = account_log s u @ [e] \<and> announces msg e"
  using assms by (auto simp: recordEventCore_def append_recorded_def AppendAllocatedWithDispatch_def append_event_def appendLocked_def
      Let_def account_log_def message_event_def unit_event_def)

text \<open>
  C11. Publishing a message again adds nothing. Once a publication of a message has returned, with
  other requests running inside it, every later publication of that message, at any time, after any
  other operations and with any requests inside it, adds no event: it answers the account's first
  event of the message and its current state. That event is the one the publication itself answered,
  unless another request appended the message between this publication's search and its append.
\<close>

theorem publish_once:
  assumes "PublishNewMessage now mid (service_run ops fresh_service) u msg = Inr (s1, e, st)" "by_requests mid" "0 < msg_ID msg"
    and "u \<noteq> 0 \<or> msg_OwnerUserID msg \<noteq> 0"
  shows "\<exists>first. find (announces msg) (account_log s1 (resolved_user u msg)) = Some first \<and>
     (\<forall>later now' mid'. PublishNewMessage now' mid' (service_run later s1) u msg =
        Inr (mid' 0 (service_run later s1), first, currentState now' (mid' 0 (service_run later s1)) (resolved_user u msg))) \<and>
     (first = e \<or>
      first \<in> set (account_log (mid 0 (service_run ops fresh_service)) (resolved_user u msg)) -
              set (account_log (service_run ops fresh_service) (resolved_user u msg)))"
proof -
  let ?s = "service_run ops fresh_service" and ?v = "resolved_user u msg"
  have v: "?v \<noteq> 0" using assms(4) by (auto simp: resolved_user_def)
  obtain ops0 where mid: "mid 0 ?s = service_run ops0 ?s" using assms(2) unfolding by_requests_def by blast
  have ev: "sv_events s \<noteq> None" if "service_ok s" for s using that unfolding service_ok_def by auto
  obtain ops1 where s1: "s1 = service_run ops1 ?s"
    using run_record_is_run [OF assms(2), of now "CallPublish u msg" ?s] assms(1) by auto
  have ok1: "service_ok s1" unfolding s1 by (rule service_run_ok [OF run_ok])
  note pub = assms(1) [unfolded publish_eq [OF ev [OF run_ok] assms(3) v]]
  have "\<exists>first. find (announces msg) (account_log s1 ?v) = Some first \<and>
      (first = e \<or> first \<in> set (account_log (mid 0 ?s) ?v) - set (account_log ?s ?v))"
  proof (cases "find (announces msg) (account_log ?s ?v)")
    case (Some a)
    then have "s1 = mid 0 ?s" "a = e" using pub by simp_all
    then show ?thesis using find_prefix [OF Some service_run_prefix [OF run_ok, of ops ?v ops0]] by (simp add: mid)
  next
    case None
    have "sv_events (mid 0 ?s) \<noteq> None" unfolding mid by (rule ev [OF service_run_ok [OF run_ok]])
    from append_published [OF this] pub None have log: "account_log s1 ?v = account_log (mid 0 ?s) ?v @ [e]" "announces msg e" by simp_all
    show ?thesis
    proof (cases "find (announces msg) (account_log (mid 0 ?s) ?v)")
      case new: None
      then show ?thesis using find_snoc [OF new log(2)] log(1) by simp
    next
      case (Some f)
      then have "f \<in> set (account_log (mid 0 ?s) ?v)" "announces msg f" by (auto simp: find_Some_iff)
      moreover have "f \<notin> set (account_log ?s ?v)" using None \<open>announces msg f\<close> by (auto simp: find_None_iff)
      ultimately show ?thesis using find_append [OF Some, of "[e]"] log(1) by auto
    qed
  qed
  then obtain first where first: "find (announces msg) (account_log s1 ?v) = Some first"
      "first = e \<or> first \<in> set (account_log (mid 0 ?s) ?v) - set (account_log ?s ?v)" by blast
  have "PublishNewMessage now' mid' (service_run later s1) u msg =
      Inr (mid' 0 (service_run later s1), first, currentState now' (mid' 0 (service_run later s1)) ?v)" for later now' mid'
    using find_prefix [OF first(1) service_run_prefix [OF ok1]]
    by (simp add: publish_eq [OF ev [OF service_run_ok [OF ok1]] assms(3) v])
  with first show ?thesis by blast
qed

lemma publish_once_witness:
  "\<exists>s1 e st. PublishNewMessage 10 (\<lambda>i. service_run demo_ops) fresh_service 7 (no_message\<lparr>msg_ID := 4\<rparr>) = Inr (s1, e, st) \<and> ue_Pts e = 4 \<and>
     PublishNewMessage 20 idle (service_run demo_ops s1) 7 (no_message\<lparr>msg_ID := 4\<rparr>) =
       Inr (service_run demo_ops s1, e, currentState 20 (service_run demo_ops s1) 7)"
proof -
  let ?m = "no_message\<lparr>msg_ID := 4\<rparr>"
  have "\<exists>s1 e st. PublishNewMessage 10 (\<lambda>i. service_run demo_ops) fresh_service 7 ?m = Inr (s1, e, st) \<and> ue_Pts e = 4"
    by (simp add: demo_ops_def service_eval PublishNewMessage_def FindNewMessageEvent_def no_message_def)
  then obtain s1 e st where p: "PublishNewMessage 10 (\<lambda>i. service_run demo_ops) (service_run [] fresh_service) 7 ?m = Inr (s1, e, st)"
    "ue_Pts e = 4" by auto
  have "\<not> announces ?m x" if "x \<in> set (account_log (service_run demo_ops fresh_service) 7)" for x
    using that by (auto simp: demo_ops_def service_eval)
  then obtain "PublishNewMessage 20 idle (service_run demo_ops s1) 7 ?m =
       Inr (service_run demo_ops s1, e, currentState 20 (service_run demo_ops s1) 7)"
    using publish_once [OF p(1)] by (force simp: resolved_user_def idle_def no_message_def find_Some_iff)
  with p show ?thesis by auto
qed

text \<open>
  The exception is real: nothing orders the search and the append of two publications of one message.
  When the second runs between the two steps of the first, the account gets two events for it.
\<close>

theorem publish_race:
  assumes "service_ok s" "find (announces msg) (account_log s (resolved_user u msg)) = None" "0 < msg_ID msg"
    and "resolved_user u msg \<noteq> 0"
  shows "\<exists>s1 e st other. PublishNewMessage now (\<lambda>i. service_run [OpRecord now' (CallPublish u msg)]) s u msg = Inr (s1, e, st) \<and>
     account_log s1 (resolved_user u msg) = account_log s (resolved_user u msg) @ [other, e] \<and> announces msg other \<and> announces msg e"
proof -
  let ?v = "resolved_user u msg" and ?mid = "\<lambda>i::nat. service_run [OpRecord now' (CallPublish u msg)]"
  have accepted: "\<exists>s1 e st. recordEventCore t m x 0 0 ?v (message_event t msg UpdateEventNewMessage) True 0 False = Inr (s1, e, st)"
    if some: "sv_events x \<noteq> None" for t m x
  proof -
    obtain y where y: "sv_events x = Some y" using some by blast
    show ?thesis
      by (simp add: recordEventCore_def append_recorded_def AppendAllocatedWithDispatch_def append_event_def y Let_def split: prod.split)
  qed
  have ev: "sv_events s \<noteq> None" using assms(1) unfolding service_ok_def by auto
  obtain s2 e2 st2 where two: "recordEventCore now' idle s 0 0 ?v (message_event now' msg UpdateEventNewMessage) True 0 False = Inr (s2, e2, st2)"
    using accepted [OF ev] by blast
  have s2: "?mid 0 s = s2"
    using publish_eq [OF ev assms(3,4)] two assms(2) by (simp add: service_run_def idle_def)
  have ev2: "sv_events s2 \<noteq> None"
    using service_run_ok [OF assms(1), of "[OpRecord now' (CallPublish u msg)]"] s2 unfolding service_ok_def by auto
  obtain s1 e st where one: "recordEventCore now ?mid s2 0 0 ?v (message_event now msg UpdateEventNewMessage) True 0 False = Inr (s1, e, st)"
    using accepted [OF ev2] by blast
  have "PublishNewMessage now ?mid s u msg = Inr (s1, e, st)"
    using publish_eq [OF ev assms(3,4), of now ?mid] one assms(2) s2 by simp
  then show ?thesis using append_published [OF ev two] append_published [OF ev2 one] by auto
qed

subsection \<open>Device states\<close>

lemma service_step_state_le:
  assumes "op \<noteq> OpClearAuthKey k"
  shows "state_le (confirmed s k u) (confirmed (service_step op s) k u) \<and>
    state_le (observed s k u) (observed (service_step op s) k u)"
proof (cases "\<exists>k'. op = OpClearAuthKey k'")
  case True
  then show ?thesis using assms
    by (auto simp: ClearAuthKey_def confirmed_def observed_def state_DeleteAuthKey_def Let_def state_of_def split: option.splits)
next
  case False
  then show ?thesis using service_step_rises [of op s]
    by (auto simp: rises_def confirmed_def observed_def split: option.splits)
qed

text \<open>
  C12. A device's states never go back. Until the device is logged out, no operation, whether a late
  delivery callback, an old difference request or a recording, lowers any component of its confirmed
  or its observed state.
\<close>

theorem device_states_monotone:
  assumes "OpClearAuthKey k \<notin> set ops"
  shows "state_le (confirmed s k u) (confirmed (service_run ops s) k u) \<and>
    state_le (observed s k u) (observed (service_run ops s) k u)"
  using assms
proof (induction ops arbitrary: s)
  case (Cons op ops)
  then show ?case using service_step_state_le [of op k s u] Cons.IH [of "service_step op s"]
    by (auto simp: service_run_def intro: state_le_trans)
qed (simp add: service_run_def)

lemma device_states_monotone_witness:
  "state_le (confirmed (service_run demo_ops fresh_service) 9 7)
     (confirmed (service_run [OpCommitDelivered 9 7 (zero_state\<lparr>us_Pts := 1\<rparr>) UpdateStateCommitDeliveredOnly] (service_run demo_ops fresh_service)) 9 7) \<and>
   us_Pts (confirmed (service_run demo_ops fresh_service) 9 7) = 3"
  using device_states_monotone [of 9 "[OpCommitDelivered 9 7 (zero_state\<lparr>us_Pts := 1\<rparr>) UpdateStateCommitDeliveredOnly]"
      "service_run demo_ops fresh_service" 7]
  by (simp add: demo_ops_def service_eval confirmed_def state_max_def zero_state_def)

text \<open>
  Logging a device out forgets its two states for every account, and nothing else: the other
  devices keep theirs and the durable logs are untouched.
\<close>

theorem clear_auth_key_exact:
  "ConfirmedState (ClearAuthKey s k) k' u = (if k' = k then (zero_state, False) else ConfirmedState s k' u) \<and>
   observed (ClearAuthKey s k) k' u = (if k' = k then zero_state else observed s k' u) \<and>
   sv_events (ClearAuthKey s k) = sv_events s"
  by (auto simp: ClearAuthKey_def ConfirmedState_def observed_def state_Get_def state_DeleteAuthKey_def Let_def state_of_def
      zero_state_def split: option.splits)

subsection \<open>The water mark\<close>

lemma contiguous_from_path:
  "\<exists>ps. set ps \<subseteq> set es \<and> tiles c ps \<and> contiguous_from es c = top_pts c ps \<and> next_by_start es (contiguous_from es c) = None"
proof (induction es c rule: contiguous_from.induct)
  case (1 es c)
  show ?case
  proof (cases "next_by_start es c")
    case None
    then show ?thesis by (intro exI [of _ "[]"]) (simp add: contiguous_from.simps [of es c])
  next
    case (Some n)
    from next_by_start_Some [OF Some] obtain e where e: "e \<in> set es" "n = ue_Pts e" "c = ue_Pts e - count_of e" by blast
    from 1 [OF Some] obtain ps where ps: "set ps \<subseteq> set es" "tiles n ps" "contiguous_from es n = top_pts n ps"
      "next_by_start es (contiguous_from es n) = None" by blast
    have "contiguous_from es c = contiguous_from es n" using Some by (simp add: contiguous_from.simps [of es c])
    then show ?thesis using ps e by (intro exI [of _ "e # ps"]) auto
  qed
qed

lemma next_by_start_None: "next_by_start es c = None \<Longrightarrow> e \<in> set es \<Longrightarrow> c \<noteq> ue_Pts e - count_of e"
  unfolding next_by_start_def by (induction es rule: rev_induct) (auto split: if_splits)

text \<open>
  The water mark of any log, in any order and with gaps: \<^verbatim>\<open>MaxContiguousPts\<close> is reached from 0 by
  events of the log that follow each other without a gap, and no event of the log continues from it.
\<close>

theorem water_mark:
  "(\<exists>es. set es \<subseteq> set (st_events ev u) \<and> tiles 0 es \<and> MaxContiguousPts ev u = top_pts 0 es) \<and>
   MaxContiguousPts ev u \<notin> (\<lambda>e. ue_Pts e - count_of e) ` set (st_events ev u)"
  using contiguous_from_path [of "st_events ev u" 0] next_by_start_None unfolding MaxContiguousPts_def by blast

subsection \<open>The effect of a recording\<close>

text \<open>
  A recording does exactly what it says. It is refused only when it asks for a dispatch and
  names an auth key to leave out without a session or the other way round; otherwise one event with
  the next pts is added to the user's log, one dispatch is enqueued if asked, the device that caused
  it is advanced to the event if asked, and no other log, dispatch or device changes.
\<close>

theorem recording_exact:
  fixes ops now sk xk u e d xs save
  defines "s \<equiv> service_run ops fresh_service"
  defines "e' \<equiv> e\<lparr>ue_PtsCount := count_of e, ue_UserID := u, ue_Date := (if ue_Date e = 0 then now else ue_Date e),
      ue_Pts := currentPts s u + count_of e\<rparr>"
  shows "case recordEventCore now idle s sk xk u e d xs save of
      Inl err \<Rightarrow> err = ErrDispatchExclusion \<and> d \<and> (xk = 0) \<noteq> (xs = 0)
    | Inr (s', e1, st) \<Rightarrow> (d = False \<or> (xk = 0) = (xs = 0)) \<and> e1 = e' \<and>
        st = \<lparr>us_Pts = ue_Pts e', us_Qts = 0, us_Date = ue_Date e', us_Seq = 0\<rparr> \<and>
        account_log s' = (account_log s)(u := account_log s u @ [e']) \<and>
        account_dispatches s' = (account_dispatches s)(u := account_dispatches s u @
          (if d then [\<lparr>ud_Pts = ue_Pts e', ud_ExcludeAuthKeyID = xk, ud_ExcludeSessionID = xs\<rparr>] else [])) \<and>
        confirmed s' = (\<lambda>k v. if save \<and> k = sk \<and> v = u then state_max (confirmed s sk u) st else confirmed s k v)"
proof -
  obtain ss ev where s: "sv_states s = Some ss" "sv_events s = Some ev" "log_ok ev"
    using run_ok [of ops] unfolding s_def service_ok_def by blast
  have top: "max_pts (st_events ev v) = currentPts s v" for v
    using max_pts_chained [of 0 "st_events ev v"] s(3) mem.water_log [OF s(3)]
    by (simp add: max_pts_def max_pts_fold log_ok_def currentPts_def s(2))
  show ?thesis
    unfolding e'_def
    by (cases d; cases save; simp add: recordEventCore_def append_recorded_def state_save_def idle_def s(1,2) AppendAllocatedWithDispatch_def AppendAllocated_def append_event_def
        appendLocked_def Let_def account_log_def account_dispatches_def confirmed_def top count_of_def state_Save_max state_of_def
        zero_state_def fun_eq_iff)
qed

subsection \<open>No device is ahead of its account\<close>

text \<open>
  The two operations that take a state from their caller are justified when that state exists: an
  event confirmed on behalf of another transaction is committed, and a delivered state is one an
  earlier answer could carry.
\<close>

fun justified :: "update_service \<Rightarrow> service_op \<Rightarrow> bool" where
  "justified s (OpConfirmEvent now k u e) \<longleftrightarrow> ue_Pts e \<le> currentPts s u"
| "justified s (OpCommitDelivered k u st mode) \<longleftrightarrow> us_Pts st \<le> currentPts s u"
| "justified s (OpSaveState k u st) \<longleftrightarrow> us_Pts st \<le> currentPts s u"
| "justified s (OpObserveState k u st) \<longleftrightarrow> us_Pts st \<le> currentPts s u"
| "justified s op \<longleftrightarrow> True"

fun justified_run :: "update_service \<Rightarrow> service_op list \<Rightarrow> bool" where
  "justified_run s [] \<longleftrightarrow> True"
| "justified_run s (op # ops) \<longleftrightarrow> justified s op \<and> justified_run (service_step op s) ops"

definition behind :: "update_service \<Rightarrow> bool" where
  "behind s \<longleftrightarrow> (\<forall>k u. us_Pts (confirmed s k u) \<le> currentPts s u \<and> us_Pts (observed s k u) \<le> currentPts s u)"

lemma currentPts_step: "service_ok s \<Longrightarrow> currentPts s u \<le> currentPts (service_step op s) u"
  using prefix_length_le [OF service_step_prefix, of s u op] currentPts_length [of s u]
    currentPts_length [OF service_step_ok, of s op u] by simp

lemma recordEventCore_pts:
  assumes "service_ok s" "recordEventCore now idle s sk xk u e d x save = Inr (s', e', st)"
  shows "us_Pts (confirmed s' k v) \<le> max (us_Pts (confirmed s k v)) (currentPts s' v) \<and> observed s' = observed s"
proof -
  obtain ss ev where s: "sv_states s = Some ss" "sv_events s = Some ev" "log_ok ev"
    using assms(1) unfolding service_ok_def by blast
  define e2 where "e2 = (if ue_PtsCount e = 0 then e\<lparr>ue_PtsCount := 1\<rparr> else e)\<lparr>ue_UserID := u, ue_Date := (if ue_Date e = 0 then now else ue_Date e)\<rparr>"
  obtain ev' where ev': "append_event ev u e2 True d (if d then xk else 0) (if d then x else 0) = Inr (ev', e')"
    and s': "sv_events s' = Some ev'" "sv_states s' = (if save then Some (state_Save ss sk u st) else Some ss)" "us_Pts st = ue_Pts e'"
    using assms(2) s unfolding recordEventCore_def append_recorded_def Let_def e2_def [symmetric]
    by (cases d; cases save; auto simp: state_save_def idle_def AppendAllocatedWithDispatch_def AppendAllocated_def split: sum.splits)
  obtain ev1 where a: "appendLocked ev u e2 True = (ev1, e')" "st_events ev' = st_events ev1"
    using ev' by (auto simp: append_event_def split: if_splits prod.splits)
  have "appendLocked ev u (if ue_PtsCount e2 \<le> 0 then e2\<lparr>ue_PtsCount := 1\<rparr> else e2) True = (ev1, e')"
    using a(1) by (auto simp: appendLocked_def Let_def)
  from mem.alloc_log [OF s(3) _ this [folded allocate_event_def]]
  have "log_ok ev1" "top_pts 0 (st_events ev1 u) = ue_Pts e'" by (auto split: if_splits)
  then have "currentPts s' u = ue_Pts e'"
    using MaxContiguousPts_ok [of ev' u] a(2) s'(1) by (simp add: currentPts_def log_ok_def)
  then show ?thesis using s s' by (auto simp: confirmed_def observed_def state_Save_max state_of_def state_max_def fun_eq_iff)
qed

lemma run_record_pts:
  assumes "service_ok s" "run_record now idle c s = Inr (s', e', st)"
  shows "us_Pts (confirmed s' k v) \<le> max (us_Pts (confirmed s k v)) (currentPts s' v) \<and> observed s' = observed s"
  using assms recordEventCore_pts [OF assms(1)]
  by (cases c) (auto simp: record_call_defs recordEvent_def recordEventWithoutState_def Let_def idle_def split: if_splits option.splits)

lemma behind_step:
  assumes ok: "service_ok s" and b: "behind s" and j: "justified s op"
  shows "behind (service_step op s)"
proof (cases "\<exists>now c. op = OpRecord now c")
  case True
  then obtain now c where op: "op = OpRecord now c" by blast
  show ?thesis
  proof (cases "run_record now idle c s")
    case (Inl e)
    then show ?thesis using b op by simp
  next
    case (Inr r)
    then obtain s' e' st where r: "run_record now idle c s = Inr (s', e', st)" by (cases r) auto
    have "currentPts s u \<le> currentPts s' u" for u using currentPts_step [OF ok, of u op] op r by simp
    with run_record_pts [OF ok r] b show ?thesis unfolding behind_def op by (simp add: r) (smt (verit))
  qed
next
  case no_record: False
  show ?thesis
  proof (cases "\<exists>now xk u e d x. op = OpAppend now xk u e d x")
    case True
    then obtain now xk v e d x where op: "op = OpAppend now xk v e d x" by blast
    have "sv_states (service_step op s) = sv_states s"
      using append_recorded_step [of now s xk v "e\<lparr>ue_PtsCount := 1\<rparr>" d x] by (auto simp: op split: sum.split)
    then have "confirmed (service_step op s) = confirmed s" "observed (service_step op s) = observed s"
      by (simp_all add: confirmed_def observed_def fun_eq_iff)
    then show ?thesis using b currentPts_step [OF ok, of _ op] unfolding behind_def by (metis order_trans)
  next
    case False
    have le: "currentPts (service_step op s) u = currentPts s u" for u
      using False no_record by (cases op) (auto simp: state_save_def idle_def or_same_def GetState_def ConfirmEvent_def ObserveDifferenceRequest_def
        CommitDeliveredState_def ClearAuthKey_def saveConfirmedState_def observeClientState_def Let_def currentPts_def
        split: sum.splits option.splits if_splits)
    obtain ss where ss: "sv_states s = Some ss" using ok unfolding service_ok_def by blast
    have b': "us_Pts (state_of (ss_states ss) (k, u)) \<le> currentPts s u" "us_Pts (state_of (ss_observed ss) (k, u)) \<le> currentPts s u"
      for k u using b ss by (simp_all add: behind_def confirmed_def observed_def)
    have z: "0 \<le> currentPts s u" for u using currentPts_length [OF ok, of u] by simp
    show ?thesis unfolding behind_def le using b' z j False no_record
      by (cases op) (auto simp: state_save_def idle_def ss confirmed_def observed_def or_same_def GetState_def ConfirmEvent_def ObserveDifferenceRequest_def
        CommitDeliveredState_def ClearAuthKey_def saveConfirmedState_def observeClientState_def Let_def state_Save_max
        state_Observe_def state_Commit_def state_DeleteAuthKey_def monotonic_is_max state_max_def clamp_pts currentState_def
        state_of_def state_Get_def zero_state_def
        split: sum.splits option.splits if_splits)
  qed
qed

lemma behind_run: "service_ok s \<Longrightarrow> behind s \<Longrightarrow> justified_run s ops \<Longrightarrow> behind (service_run ops s)"
proof (induction ops arbitrary: s)
  case (Cons op ops)
  then show ?case using behind_step [of s op] service_step_ok [of s op] by (simp add: service_run_def)
qed (simp add: service_run_def)

text \<open>
  No device is ahead of its account: as long as confirmed events are committed ones and delivered
  states are within the account, neither the confirmed nor the observed state of any device ever
  exceeds the account's current pts, so no device's next difference can start beyond an event it has
  not received.
\<close>

theorem no_device_ahead:
  assumes "justified_run fresh_service ops"
  shows "us_Pts (confirmed (service_run ops fresh_service) k u) \<le> currentPts (service_run ops fresh_service) u \<and>
    us_Pts (observed (service_run ops fresh_service) k u) \<le> currentPts (service_run ops fresh_service) u"
proof -
  have "us_Pts (confirmed fresh_service k u) = 0" "us_Pts (observed fresh_service k u) = 0" for k u
    by (simp_all add: confirmed_def observed_def fresh_service_def NewService_def NewUpdateStateStore_def state_of_def zero_state_def)
  then have "behind fresh_service" using currentPts_length [OF fresh_ok] by (simp add: behind_def)
  with behind_run [OF fresh_ok _ assms] show ?thesis by (simp add: behind_def)
qed

lemma no_device_ahead_witness:
  "us_Pts (confirmed (service_run (demo_ops @ [OpCommitDelivered 4 7 (zero_state\<lparr>us_Pts := 2\<rparr>) UpdateStateCommitDeliveredOnly]) fresh_service) 4 7) = 2 \<and>
   2 \<le> currentPts (service_run (demo_ops @ [OpCommitDelivered 4 7 (zero_state\<lparr>us_Pts := 2\<rparr>) UpdateStateCommitDeliveredOnly]) fresh_service) 7"
proof -
  let ?ops = "demo_ops @ [OpCommitDelivered 4 7 (zero_state\<lparr>us_Pts := 2\<rparr>) UpdateStateCommitDeliveredOnly]"
  have "currentPts (service_run demo_ops fresh_service) 7 = 3"
    using currentPts_length [OF run_ok, of demo_ops 7] arg_cong [OF demo_log, of length] by simp
  then have j: "justified_run fresh_service ?ops"
    by (simp add: demo_ops_def service_run_def zero_state_def)
  have "us_Pts (confirmed (service_run ?ops fresh_service) 4 7) = 2"
    by (simp add: demo_ops_def service_eval confirmed_def CommitDeliveredState_def state_Commit_def mode_valid_def or_same_def
        monotonic_is_max state_max_def zero_state_def)
  with no_device_ahead [OF j, of 4 7] show ?thesis by simp
qed

end
