(* ===== verification/Secret_Chat.thy ===== *)
theory Secret_Chat
  imports Go_Prelude "HOL-Library.Word"
begin

text \<open>
  Secret chats: the handshake record and its roles (\<^verbatim>\<open>internal/domain/secretchat.go\<close>), the range check
  of Diffie-Hellman values (\<^verbatim>\<open>internal/app/secretchat/dh.go\<close>) and the memory store of chats
  (\<^verbatim>\<open>internal/store/memory/secretchat.go\<close>).

  \<^item> Bytes are 8-bit words; \<open>RandomID\<close> is the 32-bit signed integer of the wire, other identifiers are
    integers. \<open>Unset\<close> is the empty state string a chat may be created with.
  \<^item> The store's map is an association list by chat id: the code ranges over it once. The clones the
    store makes are the values themselves.
\<close>

type_synonym byte = "8 word"

subsection \<open>The chat\<close>

datatype secret_chat_state =
  SecretChatStateUnset | SecretChatStateRequested | SecretChatStateNormal | SecretChatStateDiscarded

datatype secret_error =
    ErrSecretChatNotFound
  | ErrSecretChatAlreadyAccepted
  | ErrSecretChatAlreadyDeclined
  | ErrSecretChatRandomIDDuplicate
  | ErrGAInvalid
  | ErrAccessHashRand

record secret_chat =
  sc_ID :: int
  sc_AdminAccessHash :: int
  sc_ParticipantAccessHash :: int
  sc_AdminUserID :: int
  sc_ParticipantUserID :: int
  sc_AdminAuthKeyID :: int
  sc_ParticipantAuthKeyID :: int
  sc_State :: secret_chat_state
  sc_GA :: "byte list"
  sc_GB :: "byte list"
  sc_KeyFingerprint :: int
  sc_Layer :: int
  sc_FolderID :: int
  sc_HistoryDeleted :: bool
  sc_RandomID :: "32 word"
  sc_Date :: int

definition Terminal :: "secret_chat \<Rightarrow> bool" where
  "Terminal c \<longleftrightarrow> sc_State c = SecretChatStateDiscarded"

definition HasParticipant :: "secret_chat \<Rightarrow> int \<Rightarrow> bool" where
  "HasParticipant c userID \<longleftrightarrow> userID \<noteq> 0 \<and> (userID = sc_AdminUserID c \<or> userID = sc_ParticipantUserID c)"

definition IsAdmin :: "secret_chat \<Rightarrow> int \<Rightarrow> bool" where
  "IsAdmin c userID \<longleftrightarrow> userID \<noteq> 0 \<and> userID = sc_AdminUserID c"

definition PeerOf :: "secret_chat \<Rightarrow> int \<Rightarrow> int" where
  "PeerOf c userID =
     (if userID = sc_AdminUserID c then sc_ParticipantUserID c
      else if userID = sc_ParticipantUserID c then sc_AdminUserID c else 0)"

definition PeerAuthKeyOf :: "secret_chat \<Rightarrow> int \<Rightarrow> int" where
  "PeerAuthKeyOf c userID =
     (if userID = sc_AdminUserID c then sc_ParticipantAuthKeyID c
      else if userID = sc_ParticipantUserID c then sc_AdminAuthKeyID c else 0)"

definition AuthKeyOf :: "secret_chat \<Rightarrow> int \<Rightarrow> int" where
  "AuthKeyOf c userID =
     (if userID = sc_AdminUserID c then sc_AdminAuthKeyID c
      else if userID = sc_ParticipantUserID c then sc_ParticipantAuthKeyID c else 0)"

definition AccessHashFor :: "secret_chat \<Rightarrow> int \<Rightarrow> int" where
  "AccessHashFor c userID =
     (if userID = sc_AdminUserID c then sc_AdminAccessHash c
      else if userID = sc_ParticipantUserID c then sc_ParticipantAccessHash c else 0)"

record secret_chat_request =
  sq_AdminUserID :: int
  sq_AdminAuthKeyID :: int
  sq_ParticipantUserID :: int
  sq_RandomID :: "32 word"
  sq_GA :: "byte list"
  sq_Date :: int

subsection \<open>Diffie-Hellman values\<close>

text \<open>\<^verbatim>\<open>big.Int.SetBytes\<close> reads bytes as a big-endian number.\<close>

definition big_endian :: "byte list \<Rightarrow> int" where
  "big_endian bs = foldl (\<lambda>v b. v * 256 + uint b) 0 bs"

definition dhPrime :: int where
  "dhPrime = 0xc71caeb9c6b1c9048e6c522f70f13f73980d40238e3e21c14934d037563d930f48198a0aa7c14058229493d22530f4dbfa336f6e0ac925139543aed44cce7c3720fd51f69458705ac68cd4fe6b6b13abdc9746512969328454f18faf8c595f642477fe96bb2a941d5bcd1d4ac8cc49880708fa9b378e3c4f3a9060bee67cf9a4a4a695811051907e162753b56b0f6b410dba74d8a84b2a14b3144e0ef1284754fd17ed950d5965b4b9dd46582db1178d169c6bc465b0d6ff9ca3928fef5b9ae4e418fc15e83ebea0f87fa9ff5eed70050ded2849f47bf959d956850ce929851f0d8115f635b105ee2e4e15d04b2454bf6f4fadf034b10403119cd8e3b92fcc5b"

definition dhPubSize :: nat where
  "dhPubSize = 256"

definition dhLowerBound :: int where
  "dhLowerBound = 2 ^ (2048 - 64)"

definition dhUpperBound :: int where
  "dhUpperBound = dhPrime - 2 ^ (2048 - 64)"

definition leftPad256 :: "byte list \<Rightarrow> byte list" where
  "leftPad256 b = (if length b = dhPubSize then b else replicate (dhPubSize - length b) 0 @ b)"

definition validateDHParam :: "byte list \<Rightarrow> secret_error + byte list" where
  "validateDHParam g =
     (if length g = 0 \<or> length g > dhPubSize then Inl ErrGAInvalid
      else let x = big_endian g
           in if x \<le> 1 \<or> x \<ge> dhPrime - 1 then Inl ErrGAInvalid
              else if x \<le> dhLowerBound \<or> x \<ge> dhUpperBound then Inl ErrGAInvalid
              else Inr (leftPad256 g))"

lemma big_endian_append: "big_endian (xs @ ys) = big_endian xs * 256 ^ length ys + big_endian ys"
proof (induction ys rule: rev_induct)
  case (snoc y ys)
  have "big_endian ((xs @ ys) @ [y]) = big_endian (xs @ ys) * 256 + uint y" by (simp add: big_endian_def)
  moreover have "big_endian (ys @ [y]) = big_endian ys * 256 + uint y" by (simp add: big_endian_def)
  ultimately show ?case using snoc by (simp add: algebra_simps)
qed (simp add: big_endian_def)

lemma big_endian_zeros: "big_endian (replicate n 0) = 0"
  by (induction n) (simp_all add: big_endian_def)

lemma big_endian_pad: "big_endian (leftPad256 b) = big_endian b"
  by (simp add: leftPad256_def big_endian_append big_endian_zeros)

lemma byte_split: "a * 256 + x = b * 256 + y \<Longrightarrow> 0 \<le> x \<Longrightarrow> x < 256 \<Longrightarrow> 0 \<le> y \<Longrightarrow> y < 256 \<Longrightarrow> x = y \<and> a = b" for a b x y :: int
proof -
  assume eq: "a * 256 + x = b * 256 + y" and b: "0 \<le> x" "x < 256" "0 \<le> y" "y < 256"
  have "(a * 256 + x) div 256 = a" "(b * 256 + y) div 256 = b" using b by (simp_all add: div_pos_pos_trivial)
  with eq show ?thesis by simp
qed

lemma big_endian_inj: "length xs = length ys \<Longrightarrow> big_endian xs = big_endian ys \<Longrightarrow> xs = ys"
proof (induction xs arbitrary: ys rule: rev_induct)
  case (snoc x xs)
  then obtain y zs where ys: "ys = zs @ [y]" "length zs = length xs" by (cases ys rule: rev_cases) auto
  have b: "uint x < 256" "uint y < 256" "0 \<le> uint x" "0 \<le> uint y" using uint_bounded [of x] uint_bounded [of y] by simp_all
  have "big_endian xs * 256 + uint x = big_endian zs * 256 + uint y" using snoc.prems(2) ys(1) by (simp add: big_endian_def)
  then have "uint x = uint y \<and> big_endian xs = big_endian zs" by (rule byte_split) (use b in simp_all)
  with snoc.IH [of zs] ys show ?case by (simp add: word_uint_eq_iff)
qed simp

lemma pad_length: "length g \<le> dhPubSize \<Longrightarrow> length (leftPad256 g) = dhPubSize"
  by (simp add: leftPad256_def)

lemma dh_bounds: "1 < dhLowerBound" "dhUpperBound < dhPrime - 1"
  by (simp_all add: dhLowerBound_def dhUpperBound_def)

subsection \<open>The store of chats\<close>

type_synonym chat_store = "(int \<times> secret_chat) list"

definition NewSecretChatStore :: chat_store where
  "NewSecretChatStore = []"

definition CreateSecretChat :: "chat_store \<Rightarrow> secret_chat \<Rightarrow> secret_error + chat_store" where
  "CreateSecretChat st chat =
     (if sc_ID chat = 0 \<or> sc_ID chat \<noteq> sint (sc_RandomID chat) then Inl ErrSecretChatRandomIDDuplicate
      else case map_of st (sc_ID chat) of
        Some _ \<Rightarrow> Inl ErrSecretChatRandomIDDuplicate
      | None \<Rightarrow>
          (let c = (if sc_State chat = SecretChatStateUnset then chat\<lparr>sc_State := SecretChatStateRequested\<rparr> else chat)
           in Inr (AList.update (sc_ID chat) c st)))"

definition GetSecretChat :: "chat_store \<Rightarrow> int \<Rightarrow> secret_chat option" where
  "GetSecretChat st chatID = map_of st chatID"

definition AcceptSecretChat :: "chat_store \<Rightarrow> int \<Rightarrow> int \<Rightarrow> byte list \<Rightarrow> int \<Rightarrow>
    secret_error + (chat_store \<times> secret_chat)" where
  "AcceptSecretChat st chatID participantAuthKeyID gb keyFingerprint =
     (case map_of st chatID of
        None \<Rightarrow> Inl ErrSecretChatNotFound
      | Some c \<Rightarrow>
          if sc_State c = SecretChatStateNormal then Inl ErrSecretChatAlreadyAccepted
          else if sc_State c = SecretChatStateDiscarded then Inl ErrSecretChatAlreadyDeclined
          else if sc_ParticipantAuthKeyID c \<noteq> 0 then Inl ErrSecretChatAlreadyAccepted
          else let c' = c\<lparr>sc_State := SecretChatStateNormal, sc_ParticipantAuthKeyID := participantAuthKeyID,
                          sc_GB := gb, sc_KeyFingerprint := keyFingerprint\<rparr>
               in Inr (AList.update chatID c' st, c'))"

definition DiscardSecretChat :: "chat_store \<Rightarrow> int \<Rightarrow> bool \<Rightarrow> secret_error + (chat_store \<times> secret_chat \<times> bool)" where
  "DiscardSecretChat st chatID historyDeleted =
     (case map_of st chatID of
        None \<Rightarrow> Inl ErrSecretChatNotFound
      | Some c \<Rightarrow>
          if sc_State c = SecretChatStateDiscarded then Inr (st, c, True)
          else let c' = c\<lparr>sc_State := SecretChatStateDiscarded, sc_HistoryDeleted := historyDeleted\<rparr>
               in Inr (AList.update chatID c' st, c', False))"

definition ListActiveSecretChatsByAuthKey :: "chat_store \<Rightarrow> int \<Rightarrow> secret_chat list" where
  "ListActiveSecretChatsByAuthKey st authKeyID =
     (if authKeyID = 0 then []
      else sort_slice (\<lambda>a b. sc_ID a < sc_ID b)
        (filter (\<lambda>c. \<not> Terminal c \<and> (sc_AdminAuthKeyID c = authKeyID \<or> sc_ParticipantAuthKeyID c = authKeyID)) (map snd st)))"

text \<open>
  The store operations as steps, for what other goroutines do to the store between two store calls
  of a service operation.
\<close>

datatype chat_op =
    ChatCreate secret_chat
  | ChatAccept int int "byte list" int
  | ChatDiscard int bool

fun chat_step :: "chat_op \<Rightarrow> chat_store \<Rightarrow> chat_store" where
  "chat_step (ChatCreate c) st = (case CreateSecretChat st c of Inl _ \<Rightarrow> st | Inr st' \<Rightarrow> st')"
| "chat_step (ChatAccept i k gb fp) st = (case AcceptSecretChat st i k gb fp of Inl _ \<Rightarrow> st | Inr (st', _) \<Rightarrow> st')"
| "chat_step (ChatDiscard i h) st = (case DiscardSecretChat st i h of Inl _ \<Rightarrow> st | Inr (st', _, _) \<Rightarrow> st')"

definition chat_steps :: "chat_op list \<Rightarrow> chat_store \<Rightarrow> chat_store" where
  "chat_steps ops st = fold chat_step ops st"

subsection \<open>Lifecycle\<close>

fun state_rank :: "secret_chat_state \<Rightarrow> nat" where
  "state_rank SecretChatStateUnset = 0"
| "state_rank SecretChatStateRequested = 0"
| "state_rank SecretChatStateNormal = 1"
| "state_rank SecretChatStateDiscarded = 2"

text \<open>How a chat may change: who it belongs to is fixed, its state only advances, and what the accepting device put in stays.\<close>

definition same_origin :: "secret_chat \<Rightarrow> secret_chat \<Rightarrow> bool" where
  "same_origin c c' \<longleftrightarrow>
     sc_ID c' = sc_ID c \<and> sc_RandomID c' = sc_RandomID c \<and> sc_GA c' = sc_GA c \<and> sc_Date c' = sc_Date c \<and>
     sc_AdminUserID c' = sc_AdminUserID c \<and> sc_ParticipantUserID c' = sc_ParticipantUserID c \<and>
     sc_AdminAuthKeyID c' = sc_AdminAuthKeyID c \<and> sc_AdminAccessHash c' = sc_AdminAccessHash c \<and>
     sc_ParticipantAccessHash c' = sc_ParticipantAccessHash c \<and> sc_Layer c' = sc_Layer c \<and> sc_FolderID c' = sc_FolderID c"

definition evolves :: "secret_chat \<Rightarrow> secret_chat \<Rightarrow> bool" where
  "evolves c c' \<longleftrightarrow> same_origin c c' \<and>
     state_rank (sc_State c) \<le> state_rank (sc_State c') \<and>
     (0 < state_rank (sc_State c) \<longrightarrow>
        sc_ParticipantAuthKeyID c' = sc_ParticipantAuthKeyID c \<and> sc_GB c' = sc_GB c \<and> sc_KeyFingerprint c' = sc_KeyFingerprint c) \<and>
     (sc_State c = SecretChatStateDiscarded \<longrightarrow> c' = c)"

lemma evolves_refl [simp]: "evolves c c"
  by (simp add: evolves_def same_origin_def)

lemma evolves_trans: "evolves a b \<Longrightarrow> evolves b c \<Longrightarrow> evolves a c"
  unfolding evolves_def same_origin_def by auto

lemma rank_simps: "state_rank s = 0 \<longleftrightarrow> s \<noteq> SecretChatStateNormal \<and> s \<noteq> SecretChatStateDiscarded"
  by (cases s) auto

lemma map_of_update [simp]: "map_of (AList.update k v al) = (map_of al)(k \<mapsto> v)"
  by (simp add: update_conv')

lemma chat_step_evolves:
  assumes "map_of st i = Some c"
  shows "\<exists>c'. map_of (chat_step op st) i = Some c' \<and> evolves c c'"
proof (cases op)
  case (ChatCreate d)
  then show ?thesis using assms by (auto simp: CreateSecretChat_def Let_def split: option.splits)
next
  case (ChatAccept j k gb fp)
  show ?thesis
  proof (cases "j = i")
    case True
    then show ?thesis using assms ChatAccept
      by (cases "sc_State c") (auto simp: AcceptSecretChat_def Let_def evolves_def same_origin_def)
  qed (use assms ChatAccept in \<open>auto simp: AcceptSecretChat_def Let_def split: option.splits\<close>)
next
  case (ChatDiscard j h)
  show ?thesis
  proof (cases "j = i")
    case True
    then show ?thesis using assms ChatDiscard
      by (cases "sc_State c") (auto simp: DiscardSecretChat_def Let_def evolves_def same_origin_def)
  qed (use assms ChatDiscard in \<open>auto simp: DiscardSecretChat_def Let_def split: option.splits\<close>)
qed

lemma chat_steps_evolves:
  "map_of st i = Some c \<Longrightarrow> \<exists>c'. map_of (chat_steps ops st) i = Some c' \<and> evolves c c'"
proof (induction ops arbitrary: st c)
  case (Cons op ops)
  from chat_step_evolves [OF Cons.prems] obtain c1 where "map_of (chat_step op st) i = Some c1" "evolves c c1" by blast
  with Cons.IH [OF this(1)] show ?case by (auto simp: chat_steps_def intro: evolves_trans)
qed (simp add: chat_steps_def)

end
