(* ===== verification/Secret_Queue.thy ===== *)
theory Secret_Queue
  imports Secret_Chat "HOL-Library.Sublist"
begin

text \<open>
  The delivery queue of secret chats, \<^verbatim>\<open>EncryptedQueueStore\<close> of
  \<^verbatim>\<open>internal/store/memory/secretchat.go\<close>: per device a sequence of encrypted messages numbered by
  qts, the state events that carry no qts, and the snapshots of encrypted files.
\<close>

subsection \<open>State\<close>

record encrypted_file_ref =
  ef_ID :: int
  ef_AccessHash :: int
  ef_Size :: int
  ef_DCID :: int
  ef_KeyFingerprint :: int

record secret_chat_message =
  sm_ReceiverAuthKeyID :: int
  sm_Qts :: int
  sm_ReceiverUserID :: int
  sm_ChatID :: int
  sm_RandomID :: int
  sm_Date :: int
  sm_IsService :: bool
  sm_Bytes :: "byte list"
  sm_File :: "encrypted_file_ref option"

datatype encrypted_state_event_type = EncryptedStateEventEncryption | EncryptedStateEventRead

record encrypted_state_event =
  se_ID :: int
  se_TargetUserID :: int
  se_TargetAuthKeyID :: int
  se_ChatID :: int
  se_Type :: encrypted_state_event_type
  se_MaxDate :: int
  se_Date :: int

record encrypted_queue =
  eq_byDevice :: "int \<Rightarrow> secret_chat_message list"
  eq_reserved :: "int \<Rightarrow> int"
  eq_confirmed :: "int \<Rightarrow> int"
  eq_dedup :: "int \<times> int \<times> int \<rightharpoonup> int"
  eq_stateEvents :: "encrypted_state_event list"
  eq_delivered :: "int \<Rightarrow> int \<Rightarrow> bool"
  eq_nextEventID :: int
  eq_files :: "int \<rightharpoonup> encrypted_file_ref"

definition NewEncryptedQueueStore :: encrypted_queue where
  "NewEncryptedQueueStore = \<lparr>eq_byDevice = (\<lambda>_. []), eq_reserved = (\<lambda>_. 0), eq_confirmed = (\<lambda>_. 0), eq_dedup = Map.empty,
     eq_stateEvents = [], eq_delivered = (\<lambda>_ _. False), eq_nextEventID = 0, eq_files = Map.empty\<rparr>"

subsection \<open>Operations\<close>

definition dedup_key :: "secret_chat_message \<Rightarrow> int \<times> int \<times> int" where
  "dedup_key msg = (sm_ReceiverAuthKeyID msg, sm_ChatID msg, sm_RandomID msg)"

definition AppendEncryptedMessage :: "encrypted_queue \<Rightarrow> secret_chat_message \<Rightarrow>
    encrypted_queue \<times> secret_chat_message \<times> bool" where
  "AppendEncryptedMessage q msg =
     (let r = sm_ReceiverAuthKeyID msg;
          existing = (case eq_dedup q (dedup_key msg) of
                        None \<Rightarrow> None
                      | Some qts \<Rightarrow> find (\<lambda>m. sm_Qts m = qts) (eq_byDevice q r))
      in case existing of
           Some m \<Rightarrow> (q, m, True)
         | None \<Rightarrow>
             (let qts = eq_reserved q r + 1;
                  stored = msg\<lparr>sm_Qts := qts\<rparr>
              in (q\<lparr>eq_reserved := (eq_reserved q)(r := qts),
                    eq_byDevice := (eq_byDevice q)(r := eq_byDevice q r @ [stored]),
                    eq_dedup := (eq_dedup q)(dedup_key msg \<mapsto> qts)\<rparr>, stored, False)))"

fun since_loop :: "secret_chat_message list \<Rightarrow> int \<Rightarrow> int \<Rightarrow> int \<Rightarrow> secret_chat_message list" where
  "since_loop [] sinceQts limit taken = []"
| "since_loop (m # ms) sinceQts limit taken =
     (if sm_Qts m > sinceQts
      then m # (if taken + 1 \<ge> limit then [] else since_loop ms sinceQts limit (taken + 1))
      else since_loop ms sinceQts limit taken)"

definition ListEncryptedMessagesSince :: "encrypted_queue \<Rightarrow> int \<Rightarrow> int \<Rightarrow> int \<Rightarrow> secret_chat_message list" where
  "ListEncryptedMessagesSince q receiverAuthKeyID sinceQts limit =
     since_loop (eq_byDevice q receiverAuthKeyID) sinceQts (if limit \<le> 0 then 1000 else limit) 0"

definition ReservedQts :: "encrypted_queue \<Rightarrow> int \<Rightarrow> int" where
  "ReservedQts q receiverAuthKeyID = eq_reserved q receiverAuthKeyID"

definition AckEncryptedMessages :: "encrypted_queue \<Rightarrow> int \<Rightarrow> int \<Rightarrow> encrypted_queue" where
  "AckEncryptedMessages q receiverAuthKeyID maxQts =
     (if maxQts > eq_confirmed q receiverAuthKeyID
      then q\<lparr>eq_confirmed := (eq_confirmed q)(receiverAuthKeyID := maxQts)\<rparr> else q)"

definition AppendStateEvent :: "encrypted_queue \<Rightarrow> encrypted_state_event \<Rightarrow> encrypted_queue \<times> int" where
  "AppendStateEvent q ev =
     (let next = eq_nextEventID q + 1
      in (q\<lparr>eq_nextEventID := next, eq_stateEvents := eq_stateEvents q @ [ev\<lparr>se_ID := next\<rparr>]\<rparr>, next))"

fun undelivered_loop :: "encrypted_queue \<Rightarrow> encrypted_state_event list \<Rightarrow> int \<Rightarrow> int \<Rightarrow> int \<Rightarrow> int \<Rightarrow> encrypted_state_event list" where
  "undelivered_loop q [] user device limit taken = []"
| "undelivered_loop q (ev # evs) user device limit taken =
     (if se_TargetUserID ev \<noteq> user then undelivered_loop q evs user device limit taken
      else if se_TargetAuthKeyID ev \<noteq> 0 \<and> se_TargetAuthKeyID ev \<noteq> device then undelivered_loop q evs user device limit taken
      else if eq_delivered q (se_ID ev) device then undelivered_loop q evs user device limit taken
      else ev # (if taken + 1 \<ge> limit then [] else undelivered_loop q evs user device limit (taken + 1)))"

definition ListUndeliveredStateEvents :: "encrypted_queue \<Rightarrow> int \<Rightarrow> int \<Rightarrow> int \<Rightarrow> encrypted_state_event list" where
  "ListUndeliveredStateEvents q targetUserID deviceAuthKeyID limit =
     undelivered_loop q (eq_stateEvents q) targetUserID deviceAuthKeyID (if limit \<le> 0 then 1000 else limit) 0"

definition MarkStateEventsDelivered :: "encrypted_queue \<Rightarrow> int \<Rightarrow> int list \<Rightarrow> encrypted_queue" where
  "MarkStateEventsDelivered q deviceAuthKeyID eventIDs =
     q\<lparr>eq_delivered := foldl (\<lambda>d i. d(i := (d i)(deviceAuthKeyID := True))) (eq_delivered q) eventIDs\<rparr>"

definition PutEncryptedFile :: "encrypted_queue \<Rightarrow> encrypted_file_ref \<Rightarrow> encrypted_queue" where
  "PutEncryptedFile q ref = q\<lparr>eq_files := (eq_files q)(ef_ID ref \<mapsto> ref)\<rparr>"

definition GetEncryptedFile :: "encrypted_queue \<Rightarrow> int \<Rightarrow> int \<Rightarrow> encrypted_file_ref option" where
  "GetEncryptedFile q i accessHash =
     (case eq_files q i of
        None \<Rightarrow> None
      | Some ref \<Rightarrow> if ef_AccessHash ref \<noteq> accessHash then None else Some ref)"

subsection \<open>Executions\<close>

datatype queue_op =
    QueueAppend secret_chat_message
  | QueueAck int int
  | QueueStateEvent encrypted_state_event
  | QueueDelivered int "int list"
  | QueuePutFile encrypted_file_ref

fun queue_step :: "queue_op \<Rightarrow> encrypted_queue \<Rightarrow> encrypted_queue" where
  "queue_step (QueueAppend msg) q = fst (AppendEncryptedMessage q msg)"
| "queue_step (QueueAck d n) q = AckEncryptedMessages q d n"
| "queue_step (QueueStateEvent ev) q = fst (AppendStateEvent q ev)"
| "queue_step (QueueDelivered d ids) q = MarkStateEventsDelivered q d ids"
| "queue_step (QueuePutFile ref) q = PutEncryptedFile q ref"

definition queue_steps :: "queue_op list \<Rightarrow> encrypted_queue \<Rightarrow> encrypted_queue" where
  "queue_steps ops q = fold queue_step ops q"

subsection \<open>The invariant\<close>

text \<open>
  A device's messages are numbered 1, 2, ... up to the reserved qts, are addressed to it, and the
  deduplication table holds exactly the numbers of the messages with a given chat and random id.
\<close>

definition device_ok :: "encrypted_queue \<Rightarrow> int \<Rightarrow> bool" where
  "device_ok q d \<longleftrightarrow>
     map sm_Qts (eq_byDevice q d) = [1..eq_reserved q d] \<and> 0 \<le> eq_reserved q d \<and>
     list_all (\<lambda>m. sm_ReceiverAuthKeyID m = d) (eq_byDevice q d) \<and>
     distinct (map dedup_key (eq_byDevice q d)) \<and>
     (\<forall>c r. eq_dedup q (d, c, r) = map_of (map (\<lambda>m. (dedup_key m, sm_Qts m)) (eq_byDevice q d)) (d, c, r))"

definition queue_ok :: "encrypted_queue \<Rightarrow> bool" where
  "queue_ok q \<longleftrightarrow> (\<forall>d. device_ok q d) \<and>
     map se_ID (eq_stateEvents q) = [1..eq_nextEventID q] \<and> 0 \<le> eq_nextEventID q"

lemma find_qts:
  assumes "distinct (map f xs)" "x \<in> set xs"
  shows "find (\<lambda>y. f y = f x) xs = Some x"
  using assms by (induction xs) auto

lemma upto_append: "0 \<le> n \<Longrightarrow> [1..n] @ [n + 1] = [1..n + 1 :: int]"
  using upto_rec2 [of 1 "n + 1"] by simp

lemma existing_message:
  assumes "device_ok q (sm_ReceiverAuthKeyID msg)"
  shows "(case eq_dedup q (dedup_key msg) of None \<Rightarrow> None
      | Some qts \<Rightarrow> find (\<lambda>m. sm_Qts m = qts) (eq_byDevice q (sm_ReceiverAuthKeyID msg))) =
    find (\<lambda>m. dedup_key m = dedup_key msg) (eq_byDevice q (sm_ReceiverAuthKeyID msg))"
proof -
  let ?ms = "eq_byDevice q (sm_ReceiverAuthKeyID msg)"
  have qts: "distinct (map sm_Qts ?ms)" and keys: "distinct (map dedup_key ?ms)"
    and d: "eq_dedup q (dedup_key msg) = map_of (map (\<lambda>m. (dedup_key m, sm_Qts m)) ?ms) (dedup_key msg)"
    using assms unfolding device_ok_def by (simp_all add: dedup_key_def)
  show ?thesis
  proof (cases "eq_dedup q (dedup_key msg)")
    case None
    then have "dedup_key m \<noteq> dedup_key msg" if "m \<in> set ?ms" for m
      using that d unfolding None by (metis (no_types, lifting) image_eqI list.set_map map_of_eq_None_iff fst_conv)
    then have "find (\<lambda>m. dedup_key m = dedup_key msg) ?ms = None" by (simp add: find_None_iff)
    with None show ?thesis by simp
  next
    case (Some n)
    then obtain m where m: "m \<in> set ?ms" "dedup_key m = dedup_key msg" "n = sm_Qts m"
      using d by (auto dest!: map_of_SomeD)
    with Some find_qts [OF qts m(1)] find_qts [OF keys m(1)] show ?thesis by simp
  qed
qed

lemma append_cases:
  assumes "device_ok q (sm_ReceiverAuthKeyID msg)"
  shows "(\<exists>m \<in> set (eq_byDevice q (sm_ReceiverAuthKeyID msg)). dedup_key m = dedup_key msg \<and> AppendEncryptedMessage q msg = (q, m, True)) \<or>
    (\<forall>m \<in> set (eq_byDevice q (sm_ReceiverAuthKeyID msg)). dedup_key m \<noteq> dedup_key msg) \<and>
      AppendEncryptedMessage q msg =
        (let r = sm_ReceiverAuthKeyID msg; qts = eq_reserved q r + 1; stored = msg\<lparr>sm_Qts := qts\<rparr>
         in (q\<lparr>eq_reserved := (eq_reserved q)(r := qts), eq_byDevice := (eq_byDevice q)(r := eq_byDevice q r @ [stored]),
               eq_dedup := (eq_dedup q)(dedup_key msg \<mapsto> qts)\<rparr>, stored, False))"
proof (cases "find (\<lambda>m. dedup_key m = dedup_key msg) (eq_byDevice q (sm_ReceiverAuthKeyID msg))")
  case None
  then show ?thesis unfolding AppendEncryptedMessage_def Let_def existing_message [OF assms] None
    using None by (simp add: find_None_iff)
next
  case (Some m)
  then have "m \<in> set (eq_byDevice q (sm_ReceiverAuthKeyID msg))" "dedup_key m = dedup_key msg"
    by (auto simp: find_Some_iff)
  then show ?thesis unfolding AppendEncryptedMessage_def Let_def existing_message [OF assms] Some by auto
qed

lemma append_ok:
  assumes "queue_ok q" "AppendEncryptedMessage q msg = (q', m, b)"
  shows "queue_ok q' \<and> (\<forall>d. prefix (eq_byDevice q d) (eq_byDevice q' d)) \<and>
    m \<in> set (eq_byDevice q' (sm_ReceiverAuthKeyID msg)) \<and> dedup_key m = dedup_key msg"
proof -
  let ?r = "sm_ReceiverAuthKeyID msg"
  have ok: "device_ok q d" for d using assms(1) by (simp add: queue_ok_def)
  from append_cases [OF ok, of msg] consider
      (old) m' where "m' \<in> set (eq_byDevice q ?r)" "dedup_key m' = dedup_key msg" "AppendEncryptedMessage q msg = (q, m', True)"
    | (new) "\<forall>m \<in> set (eq_byDevice q ?r). dedup_key m \<noteq> dedup_key msg"
        "AppendEncryptedMessage q msg =
          (q\<lparr>eq_reserved := (eq_reserved q)(?r := eq_reserved q ?r + 1),
             eq_byDevice := (eq_byDevice q)(?r := eq_byDevice q ?r @ [msg\<lparr>sm_Qts := eq_reserved q ?r + 1\<rparr>]),
             eq_dedup := (eq_dedup q)(dedup_key msg \<mapsto> eq_reserved q ?r + 1)\<rparr>, msg\<lparr>sm_Qts := eq_reserved q ?r + 1\<rparr>, False)"
    unfolding Let_def by blast
  then show ?thesis
  proof cases
    case old
    then show ?thesis using assms by auto
  next
    case new
    let ?n = "eq_reserved q ?r + 1"
    have key: "dedup_key (msg\<lparr>sm_Qts := ?n\<rparr>) = dedup_key msg" by (simp add: dedup_key_def)
    have q': "q' = q\<lparr>eq_reserved := (eq_reserved q)(?r := ?n), eq_byDevice := (eq_byDevice q)(?r := eq_byDevice q ?r @ [msg\<lparr>sm_Qts := ?n\<rparr>]),
             eq_dedup := (eq_dedup q)(dedup_key msg \<mapsto> ?n)\<rparr>" and m: "m = msg\<lparr>sm_Qts := ?n\<rparr>" using trans [OF sym [OF assms(2)] new(2)] by simp_all
    have "device_ok q' d" for d
    proof (cases "d = ?r")
      case False
      then show ?thesis using ok [of d] unfolding device_ok_def q' by (simp add: dedup_key_def)
    next
      case True
      have r: "map sm_Qts (eq_byDevice q ?r) = [1..eq_reserved q ?r]" "0 \<le> eq_reserved q ?r"
        "list_all (\<lambda>m. sm_ReceiverAuthKeyID m = ?r) (eq_byDevice q ?r)" "distinct (map dedup_key (eq_byDevice q ?r))"
        "\<And>c r'. eq_dedup q (?r, c, r') = map_of (map (\<lambda>m. (dedup_key m, sm_Qts m)) (eq_byDevice q ?r)) (?r, c, r')"
        using ok [of ?r] unfolding device_ok_def by blast+
      have "dedup_key msg \<notin> dedup_key ` set (eq_byDevice q ?r)" using new(1) by force
      then have "map_of (map (\<lambda>m. (dedup_key m, sm_Qts m)) (eq_byDevice q ?r)) (dedup_key msg) = None"
        by (simp add: map_of_eq_None_iff image_image)
      then have "eq_dedup q' (?r, c, r') =
          map_of (map (\<lambda>m. (dedup_key m, sm_Qts m)) (eq_byDevice q' ?r)) (?r, c, r')" for c r'
        using r(5) [of c r'] unfolding q' by (auto simp: key map_add_def split: option.splits)
      moreover have "distinct (map dedup_key (eq_byDevice q' ?r))" using r(4) new(1) unfolding q' by (auto simp: key)
      ultimately show ?thesis using r(1-3) upto_append [OF r(2)] unfolding device_ok_def True q' by simp
    qed
    then have all: "\<forall>d. device_ok q' d" by blast
    have "eq_stateEvents q' = eq_stateEvents q" "eq_nextEventID q' = eq_nextEventID q" by (simp_all add: q')
    then have "queue_ok q'" using all assms(1) unfolding queue_ok_def by simp
    then show ?thesis using key unfolding m by (simp add: q')
  qed
qed

lemma queue_step_ok:
  assumes "queue_ok q"
  shows "queue_ok (queue_step op q) \<and> (\<forall>d. prefix (eq_byDevice q d) (eq_byDevice (queue_step op q) d)) \<and>
    prefix (eq_stateEvents q) (eq_stateEvents (queue_step op q))"
proof (cases op)
  case (QueueAppend msg)
  obtain q' m b where a: "AppendEncryptedMessage q msg = (q', m, b)" by (metis prod_cases3)
  have "eq_stateEvents q' = eq_stateEvents q" using a by (auto simp: AppendEncryptedMessage_def Let_def split: option.splits)
  with append_ok [OF assms a] a QueueAppend show ?thesis by simp
next
  case (QueueStateEvent ev)
  then show ?thesis using assms by (auto simp: queue_ok_def device_ok_def AppendStateEvent_def Let_def upto_append)
qed (use assms in \<open>auto simp: queue_ok_def device_ok_def AckEncryptedMessages_def MarkStateEventsDelivered_def PutEncryptedFile_def\<close>)

lemma queue_steps_ok:
  "queue_ok q \<Longrightarrow> queue_ok (queue_steps ops q) \<and> prefix (eq_byDevice q d) (eq_byDevice (queue_steps ops q) d) \<and>
     prefix (eq_stateEvents q) (eq_stateEvents (queue_steps ops q))"
proof (induction ops arbitrary: q)
  case (Cons op ops)
  then show ?case using queue_step_ok [of q op] Cons.IH [of "queue_step op q"]
    by (auto simp: queue_steps_def intro: prefix_order.trans)
qed (simp add: queue_steps_def)

lemma new_queue_ok: "queue_ok NewEncryptedQueueStore"
  by (simp add: queue_ok_def device_ok_def NewEncryptedQueueStore_def)

end
