(* ===== verification/Secret_Service.thy ===== *)
theory Secret_Service
  imports Secret_Queue
begin

text \<open>
  The secret chat service, \<^verbatim>\<open>internal/app/secretchat/service.go\<close>. A service operation makes several
  store calls, each of them atomic; \<open>mid\<close>, \<open>mid'\<close> and \<open>between\<close> are what other goroutines do to the
  chats between two of them. \<open>r1\<close> and \<open>r2\<close> are the eight bytes \<^verbatim>\<open>crypto/rand\<close> delivers, or \<open>None\<close> when it
  fails.
\<close>

definition randomAccessHash :: "64 word option \<Rightarrow> secret_error + int" where
  "randomAccessHash r =
     (case r of
        None \<Rightarrow> Inl ErrAccessHashRand
      | Some b \<Rightarrow> (let v = sint (drop_bit 1 b) in Inr (if v = 0 then 1 else v)))"

definition sameSecretChatRequest :: "secret_chat \<Rightarrow> secret_chat_request \<Rightarrow> byte list \<Rightarrow> bool" where
  "sameSecretChatRequest chat req normalizedGA \<longleftrightarrow>
     sc_ID chat = sint (sq_RandomID req) \<and> sc_RandomID chat = sq_RandomID req \<and>
     sc_AdminUserID chat = sq_AdminUserID req \<and> sc_AdminAuthKeyID chat = sq_AdminAuthKeyID req \<and>
     sc_ParticipantUserID chat = sq_ParticipantUserID req \<and> sc_GA chat = normalizedGA"

definition requested_chat :: "secret_chat_request \<Rightarrow> byte list \<Rightarrow> int \<Rightarrow> int \<Rightarrow> secret_chat" where
  "requested_chat req ga adminAH participantAH =
     \<lparr>sc_ID = sint (sq_RandomID req), sc_AdminAccessHash = adminAH, sc_ParticipantAccessHash = participantAH,
      sc_AdminUserID = sq_AdminUserID req, sc_ParticipantUserID = sq_ParticipantUserID req,
      sc_AdminAuthKeyID = sq_AdminAuthKeyID req, sc_ParticipantAuthKeyID = 0, sc_State = SecretChatStateRequested,
      sc_GA = ga, sc_GB = [], sc_KeyFingerprint = 0, sc_Layer = 0, sc_FolderID = 0, sc_HistoryDeleted = False,
      sc_RandomID = sq_RandomID req, sc_Date = sq_Date req\<rparr>"

definition RequestEncryption :: "chat_op list \<Rightarrow> chat_op list \<Rightarrow> 64 word option \<Rightarrow> 64 word option \<Rightarrow> chat_store \<Rightarrow>
    secret_chat_request \<Rightarrow> chat_store \<times> (secret_error + secret_chat)" where
  "RequestEncryption mid mid' r1 r2 st req =
     (if sq_AdminUserID req = 0 \<or> sq_ParticipantUserID req = 0 \<or> sq_AdminAuthKeyID req = 0 then (st, Inl ErrGAInvalid)
      else if sq_RandomID req = 0 then (st, Inl ErrSecretChatRandomIDDuplicate)
      else case validateDHParam (sq_GA req) of
        Inl e \<Rightarrow> (st, Inl e)
      | Inr ga \<Rightarrow>
          (case GetSecretChat st (sint (sq_RandomID req)) of
             Some existing \<Rightarrow>
               (st, if sameSecretChatRequest existing req ga \<and> \<not> Terminal existing then Inr existing
                    else Inl ErrSecretChatRandomIDDuplicate)
           | None \<Rightarrow>
               (case randomAccessHash r1 of
                  Inl e \<Rightarrow> (st, Inl e)
                | Inr adminAH \<Rightarrow>
                    (case randomAccessHash r2 of
                       Inl e \<Rightarrow> (st, Inl e)
                     | Inr participantAH \<Rightarrow>
                         let st1 = chat_steps mid st;
                             chat = requested_chat req ga adminAH participantAH
                         in case CreateSecretChat st1 chat of
                              Inr st2 \<Rightarrow> (st2, Inr chat)
                            | Inl e \<Rightarrow>
                                if e \<noteq> ErrSecretChatRandomIDDuplicate then (st1, Inl e)
                                else let st2 = chat_steps mid' st1
                                     in (st2, case GetSecretChat st2 (sint (sq_RandomID req)) of
                                                Some existing \<Rightarrow>
                                                  if sameSecretChatRequest existing req ga \<and> \<not> Terminal existing
                                                  then Inr existing else Inl ErrSecretChatRandomIDDuplicate
                                              | None \<Rightarrow> Inl ErrSecretChatRandomIDDuplicate)))))"

definition AcceptEncryption :: "chat_op list \<Rightarrow> chat_store \<Rightarrow> int \<Rightarrow> int \<Rightarrow> int \<Rightarrow> int \<Rightarrow> byte list \<Rightarrow> int \<Rightarrow>
    chat_store \<times> (secret_error + secret_chat)" where
  "AcceptEncryption mid st chatID viewerUserID participantAuthKeyID accessHash gb keyFingerprint =
     (case validateDHParam gb of
        Inl e \<Rightarrow> (st, Inl e)
      | Inr gbPadded \<Rightarrow>
          (case GetSecretChat st chatID of
             None \<Rightarrow> (st, Inl ErrSecretChatNotFound)
           | Some chat \<Rightarrow>
               if sc_ParticipantUserID chat \<noteq> viewerUserID \<or> sc_ParticipantAccessHash chat \<noteq> accessHash
               then (st, Inl ErrSecretChatNotFound)
               else if sc_State chat = SecretChatStateNormal then (st, Inl ErrSecretChatAlreadyAccepted)
               else if sc_State chat = SecretChatStateDiscarded then (st, Inl ErrSecretChatAlreadyDeclined)
               else let st1 = chat_steps mid st
                    in case AcceptSecretChat st1 chatID participantAuthKeyID gbPadded keyFingerprint of
                         Inl e \<Rightarrow> (st1, Inl e)
                       | Inr (st2, c) \<Rightarrow> (st2, Inr c)))"

definition DiscardEncryption :: "chat_op list \<Rightarrow> chat_store \<Rightarrow> int \<Rightarrow> int \<Rightarrow> int \<Rightarrow> bool \<Rightarrow>
    chat_store \<times> (secret_error + (secret_chat \<times> bool))" where
  "DiscardEncryption mid st chatID viewerUserID viewerAuthKeyID deleteHistory =
     (case GetSecretChat st chatID of
        None \<Rightarrow> (st, Inl ErrSecretChatNotFound)
      | Some chat \<Rightarrow>
          if \<not> HasParticipant chat viewerUserID \<or> viewerAuthKeyID = 0 then (st, Inl ErrSecretChatNotFound)
          else let bound = AuthKeyOf chat viewerUserID
               in if bound \<noteq> 0 \<and> bound \<noteq> viewerAuthKeyID then (st, Inl ErrSecretChatNotFound)
                  else if bound = 0 \<and> viewerUserID \<noteq> sc_ParticipantUserID chat then (st, Inl ErrSecretChatNotFound)
                  else let st1 = chat_steps mid st
                       in case DiscardSecretChat st1 chatID deleteHistory of
                            Inl e \<Rightarrow> (st1, Inl e)
                          | Inr (st2, c, already) \<Rightarrow> (st2, Inr (c, already)))"

text \<open>The loop of \<^verbatim>\<open>DiscardForAuthKey\<close>: \<open>between\<close> holds, for each chat of the list, the steps of others before it.\<close>

fun discard_each :: "(secret_chat \<times> chat_op list) list \<Rightarrow> chat_store \<Rightarrow> secret_chat list \<Rightarrow>
    chat_store \<times> secret_chat list \<times> secret_error option" where
  "discard_each [] st discarded = (st, discarded, None)"
| "discard_each ((c, mid) # cs) st discarded =
     (let st1 = chat_steps mid st
      in case DiscardSecretChat st1 (sc_ID c) False of
           Inl e \<Rightarrow> if e = ErrSecretChatNotFound then discard_each cs st1 discarded else (st1, discarded, Some e)
         | Inr (st2, updated, already) \<Rightarrow> discard_each cs st2 (if already then discarded else discarded @ [updated]))"

definition DiscardForAuthKey :: "(nat \<Rightarrow> chat_op list) \<Rightarrow> chat_store \<Rightarrow> int \<Rightarrow> chat_store \<times> secret_chat list \<times> secret_error option" where
  "DiscardForAuthKey between st authKeyID =
     (if authKeyID = 0 then (st, [], None)
      else let chats = ListActiveSecretChatsByAuthKey st authKeyID
           in discard_each (zip chats (map between [0..<length chats])) st [])"

record secret_message_delivery =
  sd_RandomID :: int
  sd_Bytes :: "byte list"
  sd_IsService :: bool
  sd_File :: "encrypted_file_ref option"
  sd_Date :: int

definition SendEncrypted :: "chat_store \<Rightarrow> encrypted_queue \<Rightarrow> int \<Rightarrow> int \<Rightarrow> int \<Rightarrow> int \<Rightarrow> secret_message_delivery \<Rightarrow>
    secret_error + (encrypted_queue \<times> secret_chat \<times> secret_chat_message)" where
  "SendEncrypted st q chatID viewerUserID viewerAuthKeyID accessHash delivery =
     (case GetSecretChat st chatID of
        None \<Rightarrow> Inl ErrSecretChatNotFound
      | Some chat \<Rightarrow>
          if \<not> HasParticipant chat viewerUserID \<or> viewerAuthKeyID = 0 \<or>
             AuthKeyOf chat viewerUserID \<noteq> viewerAuthKeyID \<or> AccessHashFor chat viewerUserID \<noteq> accessHash
          then Inl ErrSecretChatNotFound
          else if sc_State chat \<noteq> SecretChatStateNormal then Inl ErrSecretChatNotFound
          else let receiverUserID = PeerOf chat viewerUserID;
                   receiverAuthKeyID = (if IsAdmin chat viewerUserID then sc_ParticipantAuthKeyID chat else sc_AdminAuthKeyID chat)
               in if receiverUserID = 0 \<or> receiverAuthKeyID = 0 then Inl ErrSecretChatNotFound
                  else let (q', stored, existing) = AppendEncryptedMessage q
                             \<lparr>sm_ReceiverAuthKeyID = receiverAuthKeyID, sm_Qts = 0, sm_ReceiverUserID = receiverUserID,
                              sm_ChatID = chatID, sm_RandomID = sd_RandomID delivery, sm_Date = sd_Date delivery,
                              sm_IsService = sd_IsService delivery, sm_Bytes = sd_Bytes delivery, sm_File = sd_File delivery\<rparr>
                       in Inr (q', chat, stored))"

definition ListNewMessages :: "encrypted_queue \<Rightarrow> int \<Rightarrow> int \<Rightarrow> int \<Rightarrow> secret_chat_message list" where
  "ListNewMessages q deviceAuthKeyID sinceQts limit =
     (if deviceAuthKeyID = 0 then [] else ListEncryptedMessagesSince q deviceAuthKeyID sinceQts limit)"

definition DeviceReservedQts :: "encrypted_queue \<Rightarrow> int \<Rightarrow> int" where
  "DeviceReservedQts q deviceAuthKeyID = (if deviceAuthKeyID = 0 then 0 else ReservedQts q deviceAuthKeyID)"

definition AckQueue :: "encrypted_queue \<Rightarrow> int \<Rightarrow> int \<Rightarrow> encrypted_queue" where
  "AckQueue q deviceAuthKeyID maxQts =
     (if deviceAuthKeyID = 0 \<or> maxQts \<le> 0 then q else AckEncryptedMessages q deviceAuthKeyID maxQts)"

definition RecordEncryptionEvent :: "encrypted_queue \<Rightarrow> int \<Rightarrow> int \<Rightarrow> int \<Rightarrow> int \<Rightarrow> encrypted_queue" where
  "RecordEncryptionEvent q chatID targetUserID targetAuthKeyID date =
     (if targetUserID = 0 then q
      else fst (AppendStateEvent q \<lparr>se_ID = 0, se_TargetUserID = targetUserID, se_TargetAuthKeyID = targetAuthKeyID,
        se_ChatID = chatID, se_Type = EncryptedStateEventEncryption, se_MaxDate = 0, se_Date = date\<rparr>))"

definition RecordReadEvent :: "encrypted_queue \<Rightarrow> int \<Rightarrow> int \<Rightarrow> int \<Rightarrow> int \<Rightarrow> int \<Rightarrow> encrypted_queue" where
  "RecordReadEvent q chatID targetUserID targetAuthKeyID maxDate date =
     (if targetUserID = 0 then q
      else fst (AppendStateEvent q \<lparr>se_ID = 0, se_TargetUserID = targetUserID, se_TargetAuthKeyID = targetAuthKeyID,
        se_ChatID = chatID, se_Type = EncryptedStateEventRead, se_MaxDate = maxDate, se_Date = date\<rparr>))"

definition ListStateEvents :: "encrypted_queue \<Rightarrow> int \<Rightarrow> int \<Rightarrow> int \<Rightarrow> encrypted_state_event list" where
  "ListStateEvents q userID deviceAuthKeyID limit =
     (if userID = 0 \<or> deviceAuthKeyID = 0 then [] else ListUndeliveredStateEvents q userID deviceAuthKeyID limit)"

definition service_MarkStateEventsDelivered :: "encrypted_queue \<Rightarrow> int \<Rightarrow> int list \<Rightarrow> encrypted_queue" where
  "service_MarkStateEventsDelivered q deviceAuthKeyID eventIDs =
     (if deviceAuthKeyID = 0 \<or> eventIDs = [] then q else MarkStateEventsDelivered q deviceAuthKeyID eventIDs)"

definition service_PutEncryptedFile :: "encrypted_queue \<Rightarrow> encrypted_file_ref \<Rightarrow> encrypted_queue" where
  "service_PutEncryptedFile q ref = (if ef_ID ref = 0 then q else PutEncryptedFile q ref)"

definition service_GetEncryptedFile :: "encrypted_queue \<Rightarrow> int \<Rightarrow> int \<Rightarrow> encrypted_file_ref option" where
  "service_GetEncryptedFile q i accessHash = GetEncryptedFile q i accessHash"

subsection \<open>A concrete chat\<close>

text \<open>User 1 asks user 2 for a secret chat from device 11, and user 2 accepts it on device 22.\<close>

definition demo_ga :: "byte list" where
  "demo_ga = 1 # replicate 249 0"

definition demo_request :: secret_chat_request where
  "demo_request = \<lparr>sq_AdminUserID = 1, sq_AdminAuthKeyID = 11, sq_ParticipantUserID = 2, sq_RandomID = 77, sq_GA = demo_ga, sq_Date = 5\<rparr>"

definition demo_requested :: secret_chat where
  "demo_requested = requested_chat demo_request (leftPad256 demo_ga) 2 3"

definition demo_normal :: secret_chat where
  "demo_normal = demo_requested\<lparr>sc_State := SecretChatStateNormal, sc_ParticipantAuthKeyID := 22, sc_GB := leftPad256 demo_ga,
     sc_KeyFingerprint := 99\<rparr>"

lemma demo_ga_value: "big_endian demo_ga = 2 ^ 1992" "big_endian (0 # demo_ga) = 2 ^ 1992"
  using big_endian_append [of "[1]" "replicate 249 0"] big_endian_append [of "[0, 1]" "replicate 249 0"]
  by (simp_all add: demo_ga_def big_endian_zeros) (simp_all add: big_endian_def)

lemma demo_ga_valid: "validateDHParam demo_ga = Inr (leftPad256 demo_ga)"
  using demo_ga_value by (simp add: validateDHParam_def Let_def dhPubSize_def dhLowerBound_def dhUpperBound_def dhPrime_def demo_ga_def)

lemma demo_request_done:
  "RequestEncryption [] [] (Some 4) (Some 6) NewSecretChatStore demo_request = ([(77, demo_requested)], Inr demo_requested)"
proof -
  have hash: "randomAccessHash (Some 4) = Inr 2" "randomAccessHash (Some 6) = Inr 3"
    by (simp_all add: randomAccessHash_def Let_def)
  show ?thesis unfolding RequestEncryption_def
    by (simp add: hash demo_request_def demo_ga_valid GetSecretChat_def NewSecretChatStore_def Let_def chat_steps_def CreateSecretChat_def
        demo_requested_def requested_chat_def)
qed

lemma demo_accept_done:
  "AcceptEncryption [] [(77, demo_requested)] 77 2 22 3 demo_ga 99 = ([(77, demo_normal)], Inr demo_normal)"
  by (simp add: AcceptEncryption_def demo_ga_valid GetSecretChat_def Let_def chat_steps_def AcceptSecretChat_def demo_normal_def)
    (simp add: demo_requested_def requested_chat_def demo_request_def)

end
