(* ===== verification/Secret_Theorems.thy ===== *)
theory Secret_Theorems
  imports Secret_Service
begin

text \<open>
  The properties of secret chats: the life of a chat under concurrent requests, who may accept,
  discard and send, the numbering and deduplication of the encrypted messages of a device, the
  delivery of state events, and the range check of the Diffie-Hellman values.
\<close>

subsection \<open>Executions\<close>

datatype secret_op =
    SecretRequest "chat_op list" "chat_op list" "64 word option" "64 word option" secret_chat_request
  | SecretAccept "chat_op list" int int int int "byte list" int
  | SecretDiscard "chat_op list" int int int bool
  | SecretDiscardForAuthKey "nat \<Rightarrow> chat_op list" int

fun secret_step :: "secret_op \<Rightarrow> chat_store \<Rightarrow> chat_store" where
  "secret_step (SecretRequest mid mid' r1 r2 req) st = fst (RequestEncryption mid mid' r1 r2 st req)"
| "secret_step (SecretAccept mid i u k h gb fp) st = fst (AcceptEncryption mid st i u k h gb fp)"
| "secret_step (SecretDiscard mid i u k h) st = fst (DiscardEncryption mid st i u k h)"
| "secret_step (SecretDiscardForAuthKey between k) st = fst (DiscardForAuthKey between st k)"

definition secret_run :: "secret_op list \<Rightarrow> chat_store \<Rightarrow> chat_store" where
  "secret_run ops st = fold secret_step ops st"

text \<open>Every service operation is a sequence of store operations: its own and those of the others.\<close>

lemma chat_steps_append: "chat_steps (a @ b) st = chat_steps b (chat_steps a st)"
  by (simp add: chat_steps_def)

lemma chat_steps_one: "chat_steps [op] st = chat_step op st"
  by (simp add: chat_steps_def)

lemma chat_steps_snoc: "chat_steps (a @ [op]) st = chat_step op (chat_steps a st)"
  by (simp add: chat_steps_def)

lemma create_is_step: "CreateSecretChat st c = Inr st' \<Longrightarrow> st' = chat_step (ChatCreate c) st"
  by simp

lemma accept_is_step: "AcceptSecretChat st i k gb fp = Inr (st', c) \<Longrightarrow> st' = chat_step (ChatAccept i k gb fp) st"
  by simp

lemma discard_is_step: "DiscardSecretChat st i h = Inr (st', c, b) \<Longrightarrow> st' = chat_step (ChatDiscard i h) st"
  by simp

lemma request_steps: "\<exists>ops. fst (RequestEncryption mid mid' r1 r2 st req) = chat_steps ops st"
proof -
  have id: "\<exists>ops. st = chat_steps ops st" by (rule exI [of _ "[]"]) (simp add: chat_steps_def)
  have create: "\<exists>ops. st2 = chat_steps ops st" if "CreateSecretChat (chat_steps mid st) c = Inr st2" for c st2
    using create_is_step [OF that] chat_steps_snoc [of mid "ChatCreate c" st] by metis
  show ?thesis
    unfolding RequestEncryption_def Let_def
    using id create chat_steps_append [of mid mid' st]
    by (auto split: sum.splits option.splits) (metis chat_steps_append)+
qed

lemma accept_steps: "\<exists>ops. fst (AcceptEncryption mid st i u k h gb fp) = chat_steps ops st"
proof -
  have id: "\<exists>ops. st = chat_steps ops st" by (rule exI [of _ "[]"]) (simp add: chat_steps_def)
  have acc: "\<exists>ops. st2 = chat_steps ops st" if "AcceptSecretChat (chat_steps mid st) i k b fp = Inr (st2, c)" for b st2 c
    using accept_is_step [OF that] chat_steps_snoc [of mid "ChatAccept i k b fp" st] by metis
  show ?thesis
    unfolding AcceptEncryption_def Let_def using id acc by (auto split: sum.splits option.splits prod.splits)
qed

lemma discard_steps: "\<exists>ops. fst (DiscardEncryption mid st i u k h) = chat_steps ops st"
proof -
  have id: "\<exists>ops. st = chat_steps ops st" by (rule exI [of _ "[]"]) (simp add: chat_steps_def)
  have dis: "\<exists>ops. st2 = chat_steps ops st" if "DiscardSecretChat (chat_steps mid st) i h = Inr (st2, c, b)" for b st2 c
    using discard_is_step [OF that] chat_steps_snoc [of mid "ChatDiscard i h" st] by metis
  show ?thesis
    unfolding DiscardEncryption_def Let_def using id dis by (auto split: sum.splits option.splits prod.splits)
qed

lemma discard_each_steps: "\<exists>ops. fst (discard_each cs st d) = chat_steps ops st"
proof (induction cs arbitrary: st d)
  case Nil
  show ?case by (rule exI [of _ "[]"]) (simp add: chat_steps_def)
next
  case (Cons p cs)
  obtain c mid where p: "p = (c, mid)" by (cases p)
  show ?case
  proof (cases "DiscardSecretChat (chat_steps mid st) (sc_ID c) False")
    case (Inl e)
    then show ?thesis using Cons.IH [of "chat_steps mid st" d] unfolding p
      by (auto simp: Let_def) (metis chat_steps_append)
  next
    case (Inr r)
    obtain st2 upd old where r: "r = (st2, upd, old)" by (cases r)
    have st2: "st2 = chat_steps (mid @ [ChatDiscard (sc_ID c) False]) st"
      using discard_is_step [OF Inr [unfolded r]] by (simp only: chat_steps_snoc)
    from Cons.IH [of st2 "if old then d else d @ [upd]"] obtain ops
      where "fst (discard_each cs st2 (if old then d else d @ [upd])) = chat_steps ops st2" by blast
    then have "fst (discard_each (p # cs) st d) = chat_steps ((mid @ [ChatDiscard (sc_ID c) False]) @ ops) st"
      using Inr unfolding p r chat_steps_append [of "mid @ [ChatDiscard (sc_ID c) False]"] st2 [symmetric] by (simp add: Let_def)
    then show ?thesis by blast
  qed
qed

lemma secret_step_steps: "\<exists>ops. secret_step op st = chat_steps ops st"
proof (cases op)
  case (SecretDiscardForAuthKey between k)
  have id: "\<exists>ops. st = chat_steps ops st" by (rule exI [of _ "[]"]) (simp add: chat_steps_def)
  then show ?thesis using SecretDiscardForAuthKey discard_each_steps by (simp add: DiscardForAuthKey_def Let_def)
qed (use request_steps accept_steps discard_steps in simp_all)

lemma secret_run_steps: "\<exists>ops'. secret_run ops st = chat_steps ops' st"
proof (induction ops arbitrary: st)
  case Nil
  show ?case by (rule exI [of _ "[]"]) (simp add: secret_run_def chat_steps_def)
next
  case (Cons op ops)
  obtain a where a: "secret_step op st = chat_steps a st" using secret_step_steps by blast
  obtain b where "secret_run ops (secret_step op st) = chat_steps b (secret_step op st)" using Cons.IH by blast
  then have "secret_run (op # ops) st = chat_steps (a @ b) st" unfolding chat_steps_append a [symmetric] by (simp add: secret_run_def)
  then show ?case by blast
qed

text \<open>
  C13. The life of a chat. Whatever the service does, and whatever other goroutines do between its
  store calls, a chat never disappears; its id, its two users, the device that requested it, its
  access hashes and the requester's public value never change; its state only moves from requested
  to normal to discarded; and once it is accepted, the accepting device, its public value and the
  key fingerprint stay what they are. A discarded chat never changes again.
\<close>

theorem chat_lifecycle:
  assumes "map_of st i = Some c"
  shows "\<exists>c'. map_of (secret_run ops st) i = Some c' \<and> evolves c c'"
  using secret_run_steps [of ops st] chat_steps_evolves [OF assms] by metis

lemma chat_lifecycle_witness:
  "\<exists>c'. map_of (secret_run [SecretAccept [] 77 2 22 3 demo_ga 99, SecretDiscardForAuthKey (\<lambda>_. []) 11] [(77, demo_requested)]) 77 = Some c' \<and>
     evolves demo_requested c'"
  by (rule chat_lifecycle) simp

subsection \<open>Requests\<close>

definition request_admissible :: "secret_chat_request \<Rightarrow> bool" where
  "request_admissible req \<longleftrightarrow> sq_AdminUserID req \<noteq> 0 \<and> sq_ParticipantUserID req \<noteq> 0 \<and> sq_AdminAuthKeyID req \<noteq> 0 \<and> sq_RandomID req \<noteq> 0"

lemma request_success:
  assumes "RequestEncryption mid mid' r1 r2 st req = (st', Inr c)"
  shows "request_admissible req \<and> (\<exists>ga. validateDHParam (sq_GA req) = Inr ga \<and> sameSecretChatRequest c req ga) \<and>
    map_of st' (sint (sq_RandomID req)) = Some c \<and> \<not> Terminal c"
proof -
  have adm: "request_admissible req"
    using assms unfolding RequestEncryption_def request_admissible_def by (auto split: if_splits)
  obtain ga where ga: "validateDHParam (sq_GA req) = Inr ga"
    using assms adm unfolding RequestEncryption_def request_admissible_def by (cases "validateDHParam (sq_GA req)") auto
  have "sameSecretChatRequest c req ga \<and> map_of st' (sint (sq_RandomID req)) = Some c \<and> \<not> Terminal c"
    using assms adm ga unfolding RequestEncryption_def request_admissible_def GetSecretChat_def Let_def
    by (auto split: option.splits sum.splits if_splits
        simp: CreateSecretChat_def Let_def requested_chat_def sameSecretChatRequest_def Terminal_def)
  with adm ga show ?thesis by blast
qed

lemma request_again:
  assumes "request_admissible req" "validateDHParam (sq_GA req) = Inr ga" "map_of st (sint (sq_RandomID req)) = Some c"
  shows "RequestEncryption mid mid' r1 r2 st req =
    (st, if sameSecretChatRequest c req ga \<and> \<not> Terminal c then Inr c else Inl ErrSecretChatRandomIDDuplicate)"
  using assms by (simp add: RequestEncryption_def request_admissible_def GetSecretChat_def)

text \<open>
  A request is idempotent and owns its id. When a request succeeded, the same request sent again
  later, after any operations of anybody, changes nothing: it returns the same chat as it is by then,
  or reports a duplicate when the chat has been discarded. A request for the same id that differs in
  a user, the device or the public value is refused as a duplicate.
\<close>

theorem request_idempotent:
  assumes "RequestEncryption mid mid' r1 r2 st req = (st1, Inr c)"
  shows "\<exists>c'. map_of (secret_run ops st1) (sint (sq_RandomID req)) = Some c' \<and> evolves c c' \<and>
    RequestEncryption mid2 mid2' r3 r4 (secret_run ops st1) req =
      (secret_run ops st1, if Terminal c' then Inl ErrSecretChatRandomIDDuplicate else Inr c') \<and>
    (request_admissible req' \<and> sq_RandomID req' = sq_RandomID req \<and> validateDHParam (sq_GA req') \<noteq> Inl ErrGAInvalid \<and>
       (sq_AdminUserID req', sq_AdminAuthKeyID req', sq_ParticipantUserID req') \<noteq>
       (sq_AdminUserID req, sq_AdminAuthKeyID req, sq_ParticipantUserID req) \<longrightarrow>
     RequestEncryption mid2 mid2' r3 r4 (secret_run ops st1) req' = (secret_run ops st1, Inl ErrSecretChatRandomIDDuplicate))"
proof -
  obtain ga where c: "request_admissible req" "validateDHParam (sq_GA req) = Inr ga" "sameSecretChatRequest c req ga"
      "map_of st1 (sint (sq_RandomID req)) = Some c" using request_success [OF assms] by blast
  obtain c' where c': "map_of (secret_run ops st1) (sint (sq_RandomID req)) = Some c'" "evolves c c'"
    using secret_run_steps [of ops st1] chat_steps_evolves [OF c(4)] by metis
  have same: "sameSecretChatRequest c' req ga"
    using c(3) c'(2) by (auto simp: sameSecretChatRequest_def evolves_def same_origin_def)
  have "RequestEncryption mid2 mid2' r3 r4 (secret_run ops st1) req' = (secret_run ops st1, Inl ErrSecretChatRandomIDDuplicate)"
    if r: "request_admissible req'" "sq_RandomID req' = sq_RandomID req" "validateDHParam (sq_GA req') \<noteq> Inl ErrGAInvalid"
      "(sq_AdminUserID req', sq_AdminAuthKeyID req', sq_ParticipantUserID req') \<noteq>
       (sq_AdminUserID req, sq_AdminAuthKeyID req, sq_ParticipantUserID req)"
  proof -
    obtain ga' where ga': "validateDHParam (sq_GA req') = Inr ga'" using r(3) by (auto simp: validateDHParam_def Let_def split: if_splits)
    have "\<not> sameSecretChatRequest c' req' ga'" using same r(4) by (auto simp: sameSecretChatRequest_def)
    then show ?thesis using request_again [OF r(1) ga', of "secret_run ops st1" c'] c'(1) r(2) by simp
  qed
  then show ?thesis using request_again [OF c(1,2) c'(1)] same c' by auto
qed

lemma request_idempotent_witness:
  "RequestEncryption [] [] None None [(77, demo_normal)] demo_request = ([(77, demo_normal)], Inr demo_normal)"
proof -
  have run: "secret_run [SecretAccept [] 77 2 22 3 demo_ga 99] [(77, demo_requested)] = [(77, demo_normal)]"
    by (simp add: secret_run_def demo_accept_done)
  have "\<not> Terminal demo_normal" by (simp add: demo_normal_def Terminal_def)
  with request_idempotent [OF demo_request_done, of "[SecretAccept [] 77 2 22 3 demo_ga 99]" "[]" "[]" None None demo_request]
  show ?thesis unfolding run by (auto simp: demo_request_def)
qed

subsection \<open>Acceptance\<close>

lemma accept_success:
  assumes "AcceptEncryption mid st i u k h gb fp = (st', Inr c)"
  shows "map_of st' i = Some c \<and> sc_State c = SecretChatStateNormal \<and> sc_ParticipantAuthKeyID c = k \<and>
    sc_KeyFingerprint c = fp \<and> validateDHParam gb = Inr (sc_GB c)"
  using assms unfolding AcceptEncryption_def GetSecretChat_def Let_def
  by (auto split: option.splits sum.splits if_splits simp: AcceptSecretChat_def Let_def)

lemma accept_settled:
  assumes "map_of st i = Some c" "0 < state_rank (sc_State c)"
  shows "\<exists>e. snd (AcceptEncryption mid st i u k h gb fp) = Inl e"
proof -
  obtain c' where c': "map_of (chat_steps mid st) i = Some c'" "evolves c c'" using chat_steps_evolves [OF assms(1)] by blast
  then have "sc_State c' = SecretChatStateNormal \<or> sc_State c' = SecretChatStateDiscarded"
    using assms(2) by (cases "sc_State c'") (auto simp: evolves_def)
  then show ?thesis using c'(1)
    by (auto simp: AcceptEncryption_def GetSecretChat_def AcceptSecretChat_def Let_def split: sum.splits option.splits)
qed

text \<open>
  C14. A chat is accepted once, by one device. After a successful acceptance the chat is bound to the
  accepting device with its fingerprint and padded public value, and stays so; every other
  acceptance, at any later time and from whatever device, is refused, and only the invited user with
  the invitation's access hash could have accepted.
\<close>

theorem accept_once:
  assumes "AcceptEncryption mid st i u k h gb fp = (st1, Inr c)"
  shows "\<exists>c0 c'. map_of st i = Some c0 \<and> sc_ParticipantUserID c0 = u \<and> sc_ParticipantAccessHash c0 = h \<and>
    map_of (secret_run ops st1) i = Some c' \<and> sc_ParticipantAuthKeyID c' = k \<and> sc_KeyFingerprint c' = fp \<and>
    validateDHParam gb = Inr (sc_GB c') \<and>
    (\<exists>e. snd (AcceptEncryption mid2 (secret_run ops st1) i u2 k2 h2 gb2 fp2) = Inl e)"
proof -
  from accept_success [OF assms] have c: "map_of st1 i = Some c" "sc_State c = SecretChatStateNormal"
    "sc_ParticipantAuthKeyID c = k" "sc_KeyFingerprint c = fp" "validateDHParam gb = Inr (sc_GB c)" by blast+
  obtain c' where c': "map_of (secret_run ops st1) i = Some c'" "evolves c c'"
    using secret_run_steps [of ops st1] chat_steps_evolves [OF c(1)] by metis
  obtain c0 where "map_of st i = Some c0" "sc_ParticipantUserID c0 = u" "sc_ParticipantAccessHash c0 = h"
    using assms unfolding AcceptEncryption_def GetSecretChat_def by (auto split: option.splits sum.splits if_splits)
  moreover have "0 < state_rank (sc_State c')" using c(2) c'(2) by (simp add: evolves_def)
  ultimately show ?thesis using c c' accept_settled [OF c'(1)] by (auto simp: evolves_def)
qed

lemma accept_once_witness:
  "\<exists>e. snd (AcceptEncryption [] [(77, demo_normal)] 77 2 23 3 demo_ga 98) = Inl e"
  using accept_once [OF demo_accept_done, of "[]" "[]" 2 23 3 demo_ga 98] by (auto simp: secret_run_def)

subsection \<open>Discarding\<close>

lemma discard_result:
  "DiscardSecretChat st i h = Inr (st', c, b) \<Longrightarrow> map_of st' i = Some c \<and> sc_State c = SecretChatStateDiscarded"
  by (auto simp: DiscardSecretChat_def Let_def split: option.splits if_splits)

text \<open>
  Only the parties discard a chat, and only from their own devices. A successful
  \<^verbatim>\<open>discardEncryption\<close> comes from one of the two users, from the device bound to the chat for that
  user, or from any device of the invited user while none is bound; it leaves the chat discarded, and
  a refused one leaves every chat as the other goroutines put it.
\<close>

theorem discard_authorised:
  "case DiscardEncryption mid st i u k h of
     (st', Inr (c, already)) \<Rightarrow> map_of st' i = Some c \<and> sc_State c = SecretChatStateDiscarded \<and> k \<noteq> 0 \<and>
       (\<exists>c0. map_of st i = Some c0 \<and> u \<noteq> 0 \<and>
         (if u = sc_AdminUserID c0 then k = sc_AdminAuthKeyID c0 \<or> sc_AdminAuthKeyID c0 = 0 \<and> u = sc_ParticipantUserID c0
          else u = sc_ParticipantUserID c0 \<and> (sc_ParticipantAuthKeyID c0 = 0 \<or> k = sc_ParticipantAuthKeyID c0)))
   | (st', Inl e) \<Rightarrow> (st' = st \<or> st' = chat_steps mid st) \<and> e = ErrSecretChatNotFound"
proof (cases "map_of st i")
  case None
  then show ?thesis by (simp add: DiscardEncryption_def GetSecretChat_def)
next
  case (Some c0)
  show ?thesis
  proof (cases "DiscardSecretChat (chat_steps mid st) i h")
    case (Inl e)
    then have "e = ErrSecretChatNotFound" by (auto simp: DiscardSecretChat_def Let_def split: option.splits if_splits)
    then show ?thesis using Inl Some by (simp add: DiscardEncryption_def GetSecretChat_def Let_def)
  next
    case (Inr r)
    obtain st2 c b where r: "r = (st2, c, b)" by (cases r)
    show ?thesis using Some Inr [unfolded r] discard_result [OF Inr [unfolded r]]
      by (auto simp: DiscardEncryption_def GetSecretChat_def Let_def HasParticipant_def AuthKeyOf_def)
  qed
qed

lemma discard_each_discards:
  assumes "\<forall>(c, mid) \<in> set cs. map_of st (sc_ID c) \<noteq> None"
  shows "snd (snd (discard_each cs st d)) = None \<and>
    (\<forall>(c, mid) \<in> set cs. \<exists>c'. map_of (fst (discard_each cs st d)) (sc_ID c) = Some c' \<and> Terminal c')"
  using assms
proof (induction cs arbitrary: st d)
  case (Cons p cs)
  obtain c mid where p: "p = (c, mid)" by (cases p)
  let ?st1 = "chat_steps mid st"
  obtain x where "map_of st (sc_ID c) = Some x" using Cons.prems p by auto
  then obtain x1 where x1: "map_of ?st1 (sc_ID c) = Some x1" using chat_steps_evolves by blast
  obtain st2 upd b where d2: "DiscardSecretChat ?st1 (sc_ID c) False = Inr (st2, upd, b)"
    using x1 by (cases "sc_State x1 = SecretChatStateDiscarded") (force simp: DiscardSecretChat_def Let_def)+
  have st2: "st2 = chat_steps (mid @ [ChatDiscard (sc_ID c) False]) st"
    using discard_is_step [OF d2] by (simp only: chat_steps_snoc)
  have keep: "map_of st2 j \<noteq> None" if "map_of st j \<noteq> None" for j
    using that chat_steps_evolves [of st j] unfolding st2 by fastforce
  have pre: "\<forall>(c, mid) \<in> set cs. map_of st2 (sc_ID c) \<noteq> None" using Cons.prems keep p by fastforce
  note IH = Cons.IH [OF pre, of "if b then d else d @ [upd]"]
  obtain ops where ops: "fst (discard_each cs st2 (if b then d else d @ [upd])) = chat_steps ops st2"
    using discard_each_steps by blast
  have "map_of st2 (sc_ID c) = Some upd" "Terminal upd" using discard_result [OF d2] by (auto simp: Terminal_def)
  then obtain c' where "map_of (chat_steps ops st2) (sc_ID c) = Some c'" "Terminal c'"
    using chat_steps_evolves [of st2 "sc_ID c" upd ops] by (auto simp: evolves_def Terminal_def)
  with IH ops show ?case unfolding p by (simp add: Let_def d2)
qed simp

text \<open>The store keeps every chat under its own id.\<close>

definition chats_ok :: "chat_store \<Rightarrow> bool" where
  "chats_ok st \<longleftrightarrow> distinct (map fst st) \<and> (\<forall>i c. map_of st i = Some c \<longrightarrow> sc_ID c = i \<and> i \<noteq> 0)"

lemma chats_ok_update: "chats_ok st \<Longrightarrow> sc_ID c = i \<Longrightarrow> i \<noteq> 0 \<Longrightarrow> chats_ok (AList.update i c st)"
  unfolding chats_ok_def by (auto simp: distinct_update)

lemma chats_ok_lookup: "chats_ok st \<Longrightarrow> map_of st i = Some c \<Longrightarrow> sc_ID c = i \<and> i \<noteq> 0"
  unfolding chats_ok_def by blast

lemma chat_step_ok: "chats_ok st \<Longrightarrow> chats_ok (chat_step op st)"
proof (cases op)
  case (ChatCreate c)
  then show "chats_ok st \<Longrightarrow> ?thesis"
    by (auto simp: CreateSecretChat_def Let_def split: option.splits intro!: chats_ok_update)
next
  case (ChatAccept i k gb fp)
  then show "chats_ok st \<Longrightarrow> ?thesis"
    by (auto simp: AcceptSecretChat_def Let_def split: option.splits dest: chats_ok_lookup intro!: chats_ok_update)
next
  case (ChatDiscard i h)
  then show "chats_ok st \<Longrightarrow> ?thesis"
    by (auto simp: DiscardSecretChat_def Let_def split: option.splits dest: chats_ok_lookup intro!: chats_ok_update)
qed

lemma chat_steps_ok: "chats_ok st \<Longrightarrow> chats_ok (chat_steps ops st)"
  unfolding chat_steps_def by (induction ops arbitrary: st) (auto intro: chat_step_ok)

lemma secret_run_ok: "chats_ok (secret_run ops NewSecretChatStore)"
proof -
  have "chats_ok NewSecretChatStore" by (simp add: chats_ok_def NewSecretChatStore_def)
  with secret_run_steps [of ops NewSecretChatStore] chat_steps_ok show ?thesis by metis
qed

lemma active_listed:
  assumes "chats_ok st"
  shows "c \<in> set (ListActiveSecretChatsByAuthKey st k) \<longleftrightarrow>
    k \<noteq> 0 \<and> map_of st (sc_ID c) = Some c \<and> \<not> Terminal c \<and> (sc_AdminAuthKeyID c = k \<or> sc_ParticipantAuthKeyID c = k)"
proof -
  have d: "distinct (map fst st)" "\<And>i. map_of st i = Some c \<Longrightarrow> sc_ID c = i" using assms unfolding chats_ok_def by blast+
  have "c \<in> snd ` set st \<longleftrightarrow> map_of st (sc_ID c) = Some c"
  proof
    assume "c \<in> snd ` set st"
    then obtain i where "map_of st i = Some c" using map_of_eq_Some_iff [OF d(1)] by auto
    with d(2) show "map_of st (sc_ID c) = Some c" by blast
  qed (auto dest!: map_of_SomeD intro: rev_image_eqI)
  then show ?thesis by (auto simp: ListActiveSecretChatsByAuthKey_def)
qed

text \<open>
  Logging a device out ends its chats. After \<^verbatim>\<open>DiscardForAuthKey\<close> for a device, every chat that
  was active on the device when it began is discarded, whatever others do meanwhile, and no error is
  reported; a chat another goroutine discarded first does not stop the loop.
\<close>

theorem device_logout_discards:
  assumes "map_of (secret_run ops NewSecretChatStore) i = Some c" "k \<noteq> 0" "sc_AdminAuthKeyID c = k \<or> sc_ParticipantAuthKeyID c = k"
  shows "\<exists>st' d c'. DiscardForAuthKey between (secret_run ops NewSecretChatStore) k = (st', d, None) \<and>
    map_of st' i = Some c' \<and> sc_State c' = SecretChatStateDiscarded \<and> same_origin c c'"
proof -
  let ?st = "secret_run ops NewSecretChatStore"
  let ?l = "ListActiveSecretChatsByAuthKey ?st k"
  let ?cs = "zip ?l (map between [0..<length ?l])"
  have ok: "chats_ok ?st" by (rule secret_run_ok)
  have i: "sc_ID c = i" using chats_ok_lookup [OF ok assms(1)] by blast
  have "\<forall>(c, mid) \<in> set ?cs. map_of ?st (sc_ID c) \<noteq> None"
    using active_listed [OF ok] by (auto dest!: set_zip_leftD)
  note each = discard_each_discards [OF this, of "[]"]
  obtain st' d where r: "DiscardForAuthKey between ?st k = (st', d, None)" "st' = fst (discard_each ?cs ?st [])"
    using each assms(2) unfolding DiscardForAuthKey_def Let_def by (cases "discard_each ?cs ?st []") auto
  obtain ops' where st': "st' = chat_steps ops' ?st" using discard_each_steps [of ?cs ?st "[]"] r(2) by auto
  obtain c' where c': "map_of st' i = Some c'" "evolves c c'" using chat_steps_evolves [OF assms(1)] unfolding st' by blast
  have "Terminal c'"
  proof (cases "Terminal c")
    case True
    then show ?thesis using c'(2) by (simp add: evolves_def Terminal_def)
  next
    case False
    then have "c \<in> set ?l" using active_listed [OF ok] assms i by auto
    then obtain m where "(c, m) \<in> set ?cs" by (metis in_set_impl_in_set_zip1 length_map length_upt diff_zero)
    with each r(2) i c'(1) show ?thesis by fastforce
  qed
  with r(1) c' show ?thesis by (auto simp: Terminal_def evolves_def)
qed

lemma device_logout_discards_witness:
  "\<exists>st' d c'. DiscardForAuthKey (\<lambda>_. [ChatDiscard 77 True]) [(77, demo_normal)] 22 = (st', d, None) \<and>
     map_of st' 77 = Some c' \<and> sc_State c' = SecretChatStateDiscarded \<and> same_origin demo_normal c'"
proof -
  have run: "secret_run [SecretRequest [] [] (Some 4) (Some 6) demo_request, SecretAccept [] 77 2 22 3 demo_ga 99] NewSecretChatStore =
      [(77, demo_normal)]"
    by (simp add: secret_run_def demo_request_done demo_accept_done)
  show ?thesis unfolding run [symmetric]
    by (rule device_logout_discards) (simp_all add: run demo_normal_def)
qed

end
