(* ===== verification/Secret_Delivery.thy ===== *)
theory Secret_Delivery
  imports Secret_Theorems
begin

text \<open>
  Delivery in secret chats: where an encrypted message goes, how the messages of a device are
  numbered, deduplicated and read, and how state events reach a device; and the range check of
  Diffie-Hellman values.
\<close>

subsection \<open>Messages\<close>

text \<open>
  C16. The messages of a device are numbered without a gap and never twice. After any operations on
  the queue, a device's messages have the qts 1, 2, ... up to its reserved qts, they are addressed
  to it, no two of them have the same chat and random id, and later operations only append.
\<close>

theorem qts_gapless:
  "map sm_Qts (eq_byDevice (queue_steps ops NewEncryptedQueueStore) d) = [1..ReservedQts (queue_steps ops NewEncryptedQueueStore) d] \<and>
   list_all (\<lambda>m. sm_ReceiverAuthKeyID m = d) (eq_byDevice (queue_steps ops NewEncryptedQueueStore) d) \<and>
   distinct (map (\<lambda>m. (sm_ChatID m, sm_RandomID m)) (eq_byDevice (queue_steps ops NewEncryptedQueueStore) d)) \<and>
   prefix (eq_byDevice (queue_steps ops NewEncryptedQueueStore) d) (eq_byDevice (queue_steps (ops @ later) NewEncryptedQueueStore) d)"
proof -
  let ?q = "queue_steps ops NewEncryptedQueueStore"
  have ok: "queue_ok ?q" using queue_steps_ok [OF new_queue_ok] by blast
  then have dev: "device_ok ?q d" by (simp add: queue_ok_def)
  then have "distinct (map (\<lambda>m. (sm_ChatID m, sm_RandomID m)) (eq_byDevice ?q d))"
    unfolding device_ok_def distinct_map by (auto simp: inj_on_def dedup_key_def list_all_iff)
  with dev queue_steps_ok [OF ok, of later d] show ?thesis
    by (simp add: device_ok_def ReservedQts_def queue_steps_def)
qed

lemma send_cases:
  assumes "SendEncrypted st q i u k h dl = Inr (q', c, m)"
  shows "map_of st i = Some c \<and> sc_State c = SecretChatStateNormal \<and> u \<noteq> 0 \<and> k \<noteq> 0 \<and>
    (u = sc_AdminUserID c \<and> k = sc_AdminAuthKeyID c \<and> h = sc_AdminAccessHash c \<or>
     u \<noteq> sc_AdminUserID c \<and> u = sc_ParticipantUserID c \<and> k = sc_ParticipantAuthKeyID c \<and> h = sc_ParticipantAccessHash c) \<and>
    (\<exists>b. AppendEncryptedMessage q \<lparr>sm_ReceiverAuthKeyID = (if u = sc_AdminUserID c then sc_ParticipantAuthKeyID c else sc_AdminAuthKeyID c),
        sm_Qts = 0, sm_ReceiverUserID = (if u = sc_AdminUserID c then sc_ParticipantUserID c else sc_AdminUserID c), sm_ChatID = i,
        sm_RandomID = sd_RandomID dl, sm_Date = sd_Date dl, sm_IsService = sd_IsService dl, sm_Bytes = sd_Bytes dl,
        sm_File = sd_File dl\<rparr> = (q', m, b))"
  using assms unfolding SendEncrypted_def GetSecretChat_def Let_def
  by (auto simp: HasParticipant_def AuthKeyOf_def AccessHashFor_def PeerOf_def IsAdmin_def
      split: option.splits if_splits prod.splits)

lemma append_again:
  assumes "queue_ok q" "AppendEncryptedMessage q msg = (q', m, b)" "dedup_key msg' = dedup_key msg"
  shows "AppendEncryptedMessage (queue_steps ops q') msg' = (queue_steps ops q', m, True)"
proof -
  note a = append_ok [OF assms(1,2)]
  let ?Q = "queue_steps ops q'" and ?r = "sm_ReceiverAuthKeyID msg"
  have r: "sm_ReceiverAuthKeyID msg' = ?r" using assms(3) by (simp add: dedup_key_def)
  have ok: "queue_ok ?Q" and pre: "prefix (eq_byDevice q' ?r) (eq_byDevice ?Q ?r)"
    using queue_steps_ok [of q' ops ?r] a by blast+
  have m: "m \<in> set (eq_byDevice ?Q ?r)" "dedup_key m = dedup_key msg'" using a pre assms(3) set_mono_prefix by auto
  have dev: "device_ok ?Q ?r" using ok by (simp add: queue_ok_def)
  then have "find (\<lambda>x. dedup_key x = dedup_key m) (eq_byDevice ?Q ?r) = Some m"
    by (intro find_qts m(1)) (simp add: device_ok_def)
  then show ?thesis unfolding AppendEncryptedMessage_def Let_def existing_message [of ?Q msg', unfolded r, OF dev] r
    by (simp add: m(2))
qed

text \<open>
  C15. A message goes to the peer's device and is stored once. A successful send comes from the
  device bound to the chat for the sending user, with that user's access hash, while the chat is
  normal; the message it returns is in the queue of the other party's bound device and no other
  device's queue changes; and sending again with the same random id, at any later time and with any
  content, changes nothing and returns the stored message.
\<close>

theorem send_once_to_peer:
  assumes "SendEncrypted st (queue_steps ops NewEncryptedQueueStore) i u k h dl = Inr (q', c, m)"
    and "sd_RandomID dl' = sd_RandomID dl"
  shows "map_of st i = Some c \<and> sc_State c = SecretChatStateNormal \<and> k = AuthKeyOf c u \<and> h = AccessHashFor c u \<and>
    m \<in> set (eq_byDevice q' (PeerAuthKeyOf c u)) \<and> sm_ChatID m = i \<and> sm_RandomID m = sd_RandomID dl \<and>
    (\<forall>d. d = PeerAuthKeyOf c u \<or> eq_byDevice q' d = eq_byDevice (queue_steps ops NewEncryptedQueueStore) d) \<and>
    SendEncrypted st (queue_steps later q') i u k h dl' = Inr (queue_steps later q', c, m)"
proof -
  let ?q = "queue_steps ops NewEncryptedQueueStore" and ?r = "PeerAuthKeyOf c u"
  have ok: "queue_ok ?q" using queue_steps_ok [OF new_queue_ok] by blast
  define ru where "ru = (if u = sc_AdminUserID c then sc_ParticipantUserID c else sc_AdminUserID c)"
  define msg :: "secret_message_delivery \<Rightarrow> secret_chat_message" where "msg = (\<lambda>d. \<lparr>sm_ReceiverAuthKeyID = ?r, sm_Qts = 0, sm_ReceiverUserID = ru, sm_ChatID = i,
      sm_RandomID = sd_RandomID d, sm_Date = sd_Date d, sm_IsService = sd_IsService d, sm_Bytes = sd_Bytes d, sm_File = sd_File d\<rparr>)"
  from send_cases [OF assms(1)] have c: "map_of st i = Some c" "sc_State c = SecretChatStateNormal" "u \<noteq> 0" "k \<noteq> 0"
    "u = sc_AdminUserID c \<and> k = sc_AdminAuthKeyID c \<and> h = sc_AdminAccessHash c \<or>
     u \<noteq> sc_AdminUserID c \<and> u = sc_ParticipantUserID c \<and> k = sc_ParticipantAuthKeyID c \<and> h = sc_ParticipantAccessHash c"
    by blast+
  then have r: "(if u = sc_AdminUserID c then sc_ParticipantAuthKeyID c else sc_AdminAuthKeyID c) = ?r"
    by (auto simp: PeerAuthKeyOf_def)
  obtain b where a: "AppendEncryptedMessage ?q (msg dl) = (q', m, b)"
    using send_cases [OF assms(1)] unfolding r msg_def ru_def by blast
  note ao = append_ok [OF ok a]
  have key: "dedup_key (msg dl') = dedup_key (msg dl)" using assms(2) by (simp add: msg_def dedup_key_def)
  have others: "eq_byDevice q' d = eq_byDevice ?q d" if "d \<noteq> ?r" for d
    using a that by (auto simp: AppendEncryptedMessage_def Let_def msg_def split: option.splits)
  have again: "AppendEncryptedMessage (queue_steps later q') (msg dl') = (queue_steps later q', m, True)"
    by (rule append_again [OF ok a key])
  have "SendEncrypted st (queue_steps later q') i u k h dl' = Inr (queue_steps later q', c, m)"
  proof -
    have n: "ru \<noteq> 0" "?r \<noteq> 0"
      using assms(1) c unfolding SendEncrypted_def GetSecretChat_def Let_def ru_def
      by (auto simp: HasParticipant_def PeerOf_def IsAdmin_def PeerAuthKeyOf_def split: if_splits)
    show ?thesis
    proof (cases "u = sc_AdminUserID c")
      case True
      then show ?thesis using c n again
        by (simp add: SendEncrypted_def GetSecretChat_def HasParticipant_def AuthKeyOf_def AccessHashFor_def PeerOf_def IsAdmin_def
            PeerAuthKeyOf_def msg_def ru_def)
    next
      case False
      then show ?thesis using c n again
        by (simp add: SendEncrypted_def GetSecretChat_def HasParticipant_def AuthKeyOf_def AccessHashFor_def PeerOf_def IsAdmin_def
            PeerAuthKeyOf_def msg_def ru_def)
    qed
  qed
  then show ?thesis using c ao others unfolding msg_def
    by (auto simp: AuthKeyOf_def AccessHashFor_def dedup_key_def)
qed

definition demo_delivery :: secret_message_delivery where
  "demo_delivery = \<lparr>sd_RandomID = 8, sd_Bytes = [1, 2], sd_IsService = False, sd_File = None, sd_Date = 6\<rparr>"

lemma send_once_to_peer_witness:
  "\<exists>q' m. SendEncrypted [(77, demo_normal)] NewEncryptedQueueStore 77 1 11 2 demo_delivery = Inr (q', demo_normal, m) \<and>
     m \<in> set (eq_byDevice q' 22) \<and>
     SendEncrypted [(77, demo_normal)] q' 77 1 11 2 (demo_delivery\<lparr>sd_Bytes := [9]\<rparr>) = Inr (q', demo_normal, m)"
proof -
  have n: "sc_AdminUserID demo_normal = 1" "sc_AdminAuthKeyID demo_normal = 11" "sc_ParticipantAuthKeyID demo_normal = 22"
    "sc_AdminAccessHash demo_normal = 2" "sc_ParticipantUserID demo_normal = 2" "sc_State demo_normal = SecretChatStateNormal"
    by (simp_all add: demo_normal_def demo_requested_def requested_chat_def demo_request_def)
  have "\<exists>q' m. SendEncrypted [(77, demo_normal)] (queue_steps [] NewEncryptedQueueStore) 77 1 11 2 demo_delivery = Inr (q', demo_normal, m)"
    by (simp add: SendEncrypted_def GetSecretChat_def HasParticipant_def AuthKeyOf_def AccessHashFor_def PeerOf_def IsAdmin_def n
        queue_steps_def AppendEncryptedMessage_def NewEncryptedQueueStore_def Let_def)
  then obtain q' m where
    s: "SendEncrypted [(77, demo_normal)] (queue_steps [] NewEncryptedQueueStore) 77 1 11 2 demo_delivery = Inr (q', demo_normal, m)" by blast
  from s send_once_to_peer [OF s, of "demo_delivery\<lparr>sd_Bytes := [9]\<rparr>" "[]"] show ?thesis
    by (simp add: queue_steps_def PeerAuthKeyOf_def n)
qed

lemma since_loop_take:
  "t < n \<Longrightarrow> since_loop ms q n t = take (nat (n - t)) (filter (\<lambda>m. q < sm_Qts m) ms)"
proof (induction ms arbitrary: t)
  case (Cons m ms)
  have n: "nat (n - t) = Suc (nat (n - (t + 1)))" using Cons.prems by simp
  show ?case using Cons n by (cases "t + 1 < n") auto
qed simp

text \<open>
  Reading after a qts returns exactly the next messages: those above it, in order, at most the
  limit (a thousand when none is given), so a device that reads from its last qts misses none.
\<close>

theorem list_since_exact:
  "ListEncryptedMessagesSince (queue_steps ops NewEncryptedQueueStore) d since limit =
     take (nat (if limit \<le> 0 then 1000 else limit)) (drop (nat since) (eq_byDevice (queue_steps ops NewEncryptedQueueStore) d))"
proof -
  let ?q = "queue_steps ops NewEncryptedQueueStore"
  let ?ms = "eq_byDevice ?q d"
  have "device_ok ?q d" using queue_steps_ok [OF new_queue_ok, of ops d] by (simp add: queue_ok_def)
  then have qts: "map sm_Qts ?ms = [1..eq_reserved ?q d]" by (simp add: device_ok_def)
  have "filter (\<lambda>m. since < sm_Qts m) ?ms = drop (nat since) ?ms"
  proof -
    have "filter (\<lambda>m. since < sm_Qts m) ms = drop (nat (since - c)) ms" if "map sm_Qts ms = [c + 1..n]" for ms c n
      using that
    proof (induction ms arbitrary: c)
      case (Cons m ms)
      then have m: "c + 1 \<le> n" "sm_Qts m = c + 1" "map sm_Qts ms = [c + 1 + 1..n]" by (auto simp: upto.simps [of "c + 1" n] split: if_splits)
      note IH = Cons.IH [OF m(3)]
      show ?case
      proof (cases "since < c + 1")
        case True
        then show ?thesis using IH m(2) by simp
      next
        case False
        then have "nat (since - c) = Suc (nat (since - (c + 1)))" by simp
        then show ?thesis using IH m(2) False by simp
      qed
    qed simp
    from this [of ?ms 0] qts show ?thesis by simp
  qed
  then show ?thesis by (simp add: ListEncryptedMessagesSince_def since_loop_take)
qed

subsection \<open>State events\<close>

definition pending_events :: "encrypted_queue \<Rightarrow> int \<Rightarrow> int \<Rightarrow> encrypted_state_event list" where
  "pending_events q u d = filter (\<lambda>ev. se_TargetUserID ev = u \<and> (se_TargetAuthKeyID ev = 0 \<or> se_TargetAuthKeyID ev = d) \<and>
     \<not> eq_delivered q (se_ID ev) d) (eq_stateEvents q)"

lemma undelivered_take:
  "t < n \<Longrightarrow> undelivered_loop q evs u d n t =
     take (nat (n - t)) (filter (\<lambda>ev. se_TargetUserID ev = u \<and> (se_TargetAuthKeyID ev = 0 \<or> se_TargetAuthKeyID ev = d) \<and>
       \<not> eq_delivered q (se_ID ev) d) evs)"
proof (induction evs arbitrary: t)
  case (Cons ev evs)
  have n: "nat (n - t) = Suc (nat (n - (t + 1)))" using Cons.prems by simp
  show ?case using Cons n by (cases "t + 1 < n") auto
qed simp

lemma list_pending:
  "u \<noteq> 0 \<Longrightarrow> d \<noteq> 0 \<Longrightarrow> ListStateEvents q u d limit = take (nat (if limit \<le> 0 then 1000 else limit)) (pending_events q u d)"
  by (simp add: ListStateEvents_def ListUndeliveredStateEvents_def undelivered_take pending_events_def)

lemma delivered_mark:
  "eq_delivered (MarkStateEventsDelivered q d ids) i d' \<longleftrightarrow> eq_delivered q i d' \<or> d' = d \<and> i \<in> set ids"
proof -
  have "foldl (\<lambda>m i. m(i := (m i)(d := True))) m ids i d' \<longleftrightarrow> m i d' \<or> d' = d \<and> i \<in> set ids" for m :: "int \<Rightarrow> int \<Rightarrow> bool"
    by (induction ids arbitrary: m) auto
  then show ?thesis by (simp add: MarkStateEventsDelivered_def)
qed

lemma filter_not_taken: "distinct (map f xs) \<Longrightarrow> filter (\<lambda>x. f x \<notin> f ` set (take k xs)) xs = drop k xs"
proof -
  assume d: "distinct (map f xs)"
  have "filter (\<lambda>x. f x \<notin> f ` set (take k xs)) (take k xs @ drop k xs) = drop k xs"
    using d [unfolded append_take_drop_id [of k xs, symmetric, THEN arg_cong, of "map f"]]
    by (auto simp: filter_empty_conv filter_id_conv disjoint_iff simp del: append_take_drop_id)
  then show ?thesis by simp
qed

text \<open>A device that reads its events and reports them delivered, \<open>n\<close> times over.\<close>

fun collect_events :: "nat \<Rightarrow> encrypted_queue \<Rightarrow> int \<Rightarrow> int \<Rightarrow> int \<Rightarrow> encrypted_state_event list \<times> encrypted_queue" where
  "collect_events 0 q u d limit = ([], q)"
| "collect_events (Suc n) q u d limit =
     (let evs = ListStateEvents q u d limit;
          (rest, q') = collect_events n (service_MarkStateEventsDelivered q d (map se_ID evs)) u d limit
      in (evs @ rest, q'))"

lemma pending_after:
  fixes limit :: int
  assumes "queue_ok q" "u \<noteq> 0" "d \<noteq> 0"
  defines "q' \<equiv> service_MarkStateEventsDelivered q d (map se_ID (ListStateEvents q u d limit))"
  shows "queue_ok q' \<and> pending_events q' u d = drop (nat (if limit \<le> 0 then 1000 else limit)) (pending_events q u d) \<and>
    (\<forall>u' d'. d' = d \<or> pending_events q' u' d' = pending_events q u' d')"
proof -
  let ?k = "nat (if limit \<le> 0 then 1000 else limit)" and ?p = "pending_events q u d"
  have evs: "ListStateEvents q u d limit = take ?k ?p" by (rule list_pending [OF assms(2,3)])
  have q': "q' = MarkStateEventsDelivered q d (map se_ID (take ?k ?p))"
    unfolding q'_def evs using assms(3) by (simp add: service_MarkStateEventsDelivered_def MarkStateEventsDelivered_def)
  have st: "eq_stateEvents q' = eq_stateEvents q" by (simp add: q' MarkStateEventsDelivered_def)
  have "distinct (map se_ID (eq_stateEvents q))" using assms(1) by (simp add: queue_ok_def)
  then have "distinct (map se_ID ?p)" unfolding pending_events_def by (rule distinct_map_filter)
  then have "filter (\<lambda>ev. se_ID ev \<notin> se_ID ` set (take ?k ?p)) ?p = drop ?k ?p" by (rule filter_not_taken)
  moreover have "pending_events q' u d = filter (\<lambda>ev. se_ID ev \<notin> se_ID ` set (take ?k ?p)) ?p"
    unfolding pending_events_def [of q'] st by (simp add: q' delivered_mark pending_events_def [of q u d] conj_ac cong: filter_cong)
  moreover have "d' = d \<or> pending_events q' u' d' = pending_events q u' d'" for u' d'
    by (cases "d' = d") (simp_all add: pending_events_def [of _ u' d'] st, simp add: q' delivered_mark)
  moreover have "queue_ok q'" using assms(1) by (simp add: q' queue_ok_def device_ok_def MarkStateEventsDelivered_def)
  ultimately show ?thesis by simp
qed

text \<open>
  C17. Every state event reaches every device it is meant for, once. A device that repeatedly reads
  its events and reports them delivered gets, with enough rounds for its page size, exactly the
  events addressed to its user and either to every device or to it that it had not been given, each
  once and in order; nothing is left for it then, and nothing changes for the other devices.
\<close>

theorem events_delivered_once:
  assumes "u \<noteq> 0" "d \<noteq> 0" "length (pending_events (queue_steps ops NewEncryptedQueueStore) u d) \<le> n * nat (if limit \<le> 0 then 1000 else limit)"
  shows "fst (collect_events n (queue_steps ops NewEncryptedQueueStore) u d limit) = pending_events (queue_steps ops NewEncryptedQueueStore) u d \<and>
    ListStateEvents (snd (collect_events n (queue_steps ops NewEncryptedQueueStore) u d limit)) u d limit = [] \<and>
    (\<forall>u' d'. d' = d \<or> pending_events (snd (collect_events n (queue_steps ops NewEncryptedQueueStore) u d limit)) u' d' =
       pending_events (queue_steps ops NewEncryptedQueueStore) u' d')"
proof -
  define k where "k = nat (if limit \<le> 0 then 1000 else limit)"
  have lp: "ListStateEvents q u d limit = take k (pending_events q u d)" for q
    unfolding k_def by (rule list_pending [OF assms(1,2)])
  have "fst (collect_events n q u d limit) = pending_events q u d \<and> pending_events (snd (collect_events n q u d limit)) u d = [] \<and>
      (\<forall>u' d'. d' = d \<or> pending_events (snd (collect_events n q u d limit)) u' d' = pending_events q u' d')"
    if "queue_ok q" "length (pending_events q u d) \<le> n * k" for q n
    using that
  proof (induction n arbitrary: q)
    case (Suc n)
    define q1 where "q1 = service_MarkStateEventsDelivered q d (map se_ID (ListStateEvents q u d limit))"
    have p: "queue_ok q1" "pending_events q1 u d = drop k (pending_events q u d)"
      "\<And>u' d'. d' = d \<or> pending_events q1 u' d' = pending_events q u' d'"
      using pending_after [OF Suc.prems(1) assms(1,2), of limit] unfolding q1_def k_def by blast+
    have "length (pending_events q1 u d) \<le> n * k" using p(2) Suc.prems(2) by simp
    from Suc.IH [OF p(1) this] have IH: "fst (collect_events n q1 u d limit) = drop k (pending_events q u d)"
      "pending_events (snd (collect_events n q1 u d limit)) u d = []"
      "\<And>u' d'. d' = d \<or> pending_events (snd (collect_events n q1 u d limit)) u' d' = pending_events q u' d'"
      using p(2,3) by (simp_all only:) metis
    obtain rest q2 where c: "collect_events n q1 u d limit = (rest, q2)" by fastforce
    have step: "collect_events (Suc n) q u d limit = (take k (pending_events q u d) @ rest, q2)"
      unfolding collect_events.simps Let_def q1_def [symmetric] c by (simp add: lp)
    show ?case unfolding step using IH by (simp add: c)
  qed simp
  from this [OF _ assms(3) [folded k_def]] queue_steps_ok [OF new_queue_ok, of ops d] show ?thesis
    by (simp add: lp)
qed

lemma events_delivered_once_witness:
  "\<exists>ev. fst (collect_events 1 (queue_steps [QueueStateEvent \<lparr>se_ID = 0, se_TargetUserID = 5, se_TargetAuthKeyID = 0, se_ChatID = 77,
      se_Type = EncryptedStateEventRead, se_MaxDate = 3, se_Date = 4\<rparr>] NewEncryptedQueueStore) 5 9 0) = [ev] \<and> se_ID ev = 1"
proof -
  let ?q = "queue_steps [QueueStateEvent \<lparr>se_ID = 0, se_TargetUserID = 5, se_TargetAuthKeyID = 0, se_ChatID = 77,
      se_Type = EncryptedStateEventRead, se_MaxDate = 3, se_Date = 4\<rparr>] NewEncryptedQueueStore"
  have p: "\<exists>ev. pending_events ?q 5 9 = [ev] \<and> se_ID ev = 1"
    by (simp add: pending_events_def queue_steps_def AppendStateEvent_def NewEncryptedQueueStore_def Let_def)
  then have "length (pending_events ?q 5 9) \<le> 1 * nat (if (0::int) \<le> 0 then 1000 else 0)" by auto
  from events_delivered_once [OF _ _ this] p show ?thesis by auto
qed

subsection \<open>Diffie-Hellman values\<close>

text \<open>
  A Diffie-Hellman value is accepted exactly when it fits 256 bytes and lies strictly between
  2^1984 and p - 2^1984; what is stored is the 256-byte encoding of the same number, so two accepted
  encodings of one number are stored as the same bytes.
\<close>

theorem dh_check_exact:
  "(case validateDHParam g of
      Inl e \<Rightarrow> e = ErrGAInvalid \<and> \<not> (0 < length g \<and> length g \<le> 256 \<and> 2 ^ 1984 < big_endian g \<and> big_endian g < dhPrime - 2 ^ 1984)
    | Inr a \<Rightarrow> length g \<le> 256 \<and> 2 ^ 1984 < big_endian g \<and> big_endian g < dhPrime - 2 ^ 1984 \<and> length a = 256 \<and> big_endian a = big_endian g) \<and>
   (big_endian g = big_endian g' \<and> validateDHParam g = Inr a \<and> validateDHParam g' = Inr a' \<longrightarrow> a = a')"
proof -
  have v: "validateDHParam g = (if 0 < length g \<and> length g \<le> 256 \<and> 2 ^ 1984 < big_endian g \<and> big_endian g < dhPrime - 2 ^ 1984
      then Inr (leftPad256 g) else Inl ErrGAInvalid)" for g
    using dh_bounds by (auto simp: validateDHParam_def Let_def dhPubSize_def dhLowerBound_def dhUpperBound_def)
  have "leftPad256 g = leftPad256 g'" if "length g \<le> 256" "length g' \<le> 256" "big_endian g = big_endian g'"
    using that by (intro big_endian_inj) (simp_all add: big_endian_pad pad_length dhPubSize_def)
  then show ?thesis unfolding v using pad_length [of g] by (auto simp: big_endian_pad dhPubSize_def split: if_splits)
qed

lemma dh_check_exact_witness:
  "\<exists>a. validateDHParam demo_ga = Inr a \<and> validateDHParam (0 # demo_ga) = Inr a \<and> big_endian a = big_endian demo_ga"
proof -
  have len: "length (0 # demo_ga) \<le> 256" "0 < length (0 # demo_ga)" by (simp_all add: demo_ga_def)
  have "2 ^ 1984 < (2 ^ 1992 :: int)" "(2 ^ 1992 :: int) < dhPrime - 2 ^ 1984" by (simp_all add: dhPrime_def)
  then obtain a' where a': "validateDHParam (0 # demo_ga) = Inr a'"
    using dh_check_exact [of "0 # demo_ga" "0 # demo_ga" undefined undefined] len demo_ga_value
    by (cases "validateDHParam (0 # demo_ga)") auto
  have "leftPad256 demo_ga = a'"
    using dh_check_exact [of demo_ga "0 # demo_ga" "leftPad256 demo_ga" a'] a' demo_ga_valid demo_ga_value by simp
  then show ?thesis using a' demo_ga_valid big_endian_pad [of demo_ga] by simp
qed

end
