(* ===== verification/Login_Code.thy ===== *)
theory Login_Code
  imports Go_Prelude "HOL-Library.Word"
begin

text \<open>
  One-time codes for login and sensitive operations: \<^verbatim>\<open>internal/store/code.go\<close> and its memory store
  (\<^verbatim>\<open>CodeStore\<close> in \<^verbatim>\<open>internal/store/memory/auth.go\<close>, \<^verbatim>\<open>login_code.go\<close>, \<^verbatim>\<open>code_cas.go\<close>).

  \<^item> \<open>now\<close> is \<^verbatim>\<open>time.Now()\<close>; \<open>token\<close> is what \<^verbatim>\<open>NewPhoneCodeRevisionToken\<close> returns, \<open>None\<close> when the random
    source fails. \<^verbatim>\<open>subtle.ConstantTimeCompare\<close> is equality.
  \<^item> Reading a Go map at a missing key gives the empty string, which \<open>scope_hash\<close> writes out.
\<close>

subsection \<open>Records\<close>

record phone_code =
  pc_Version :: int
  pc_Revision :: string
  pc_IssuedUserID :: int
  pc_SignUpVerified :: bool
  pc_Phone :: string
  pc_Code :: string
  pc_DeliveryID :: string
  pc_Channel :: string
  pc_Purpose :: string
  pc_UserID :: int
  pc_AuthKeyID :: "64 word"
  pc_SessionID :: int
  pc_Email :: string
  pc_PendingEmail :: string
  pc_Attempts :: int
  pc_MaxAttempts :: int
  pc_VerifiedEmail :: bool
  pc_RequireSignUp :: bool
  pc_LoginEmailHash :: string
  pc_RecoveryBinding :: string
  pc_AccountDeletionHash :: string

record phone_code_scope =
  ps_Purpose :: string
  ps_UserID :: int
  ps_AuthKeyID :: "64 word"
  ps_Phone :: string

definition Scope :: "phone_code \<Rightarrow> phone_code_scope" where
  "Scope c = \<lparr>ps_Purpose = pc_Purpose c, ps_UserID = pc_UserID c, ps_AuthKeyID = pc_AuthKeyID c, ps_Phone = pc_Phone c\<rparr>"

definition scope_Valid :: "phone_code_scope \<Rightarrow> bool" where
  "scope_Valid s \<longleftrightarrow> ps_Purpose s \<noteq> '''' \<and> ps_UserID s \<noteq> 0 \<and> ps_AuthKeyID s \<noteq> 0 \<and> ps_Phone s \<noteq> ''''"

definition PhoneCodeVersionCurrent :: int where
  "PhoneCodeVersionCurrent = 2"

definition LoginCodeChannelVerifiable :: "string \<Rightarrow> bool" where
  "LoginCodeChannelVerifiable channel \<longleftrightarrow> channel = ''phone'' \<or> channel = ''sms'' \<or> channel = ''email_login''"

definition LoginCodeChannelTakeable :: "string \<Rightarrow> bool" where
  "LoginCodeChannelTakeable channel \<longleftrightarrow> LoginCodeChannelVerifiable channel \<or> channel = ''email_setup_required''"

datatype verify_status = LoginCodeVerifyMissing | LoginCodeVerifyInvalid | LoginCodeVerifyAccepted

datatype code_error = ErrRevisionToken

type_synonym verify_result = "verify_status \<times> phone_code option"

subsection \<open>The store\<close>

record code_store =
  cs_m :: "string \<rightharpoonup> phone_code \<times> time"
  cs_scopes :: "phone_code_scope \<rightharpoonup> string"

definition NewCodeStore :: code_store where
  "NewCodeStore = \<lparr>cs_m = Map.empty, cs_scopes = Map.empty\<rparr>"

definition scope_hash :: "code_store \<Rightarrow> phone_code_scope \<Rightarrow> string" where
  "scope_hash s scope = (case cs_scopes s scope of None \<Rightarrow> '''' | Some h \<Rightarrow> h)"

definition delete_scope :: "code_store \<Rightarrow> phone_code_scope \<Rightarrow> code_store" where
  "delete_scope s scope = s\<lparr>cs_scopes := (cs_scopes s)(scope := None)\<rparr>"

definition deleteCodeLocked :: "code_store \<Rightarrow> string \<Rightarrow> phone_code \<Rightarrow> code_store" where
  "deleteCodeLocked s hash code =
     (let s1 = s\<lparr>cs_m := (cs_m s)(hash := None)\<rparr>; scope = Scope code
      in if scope_Valid scope \<and> scope_hash s1 scope = hash then delete_scope s1 scope else s1)"

definition liveCodeLocked :: "code_store \<Rightarrow> time \<Rightarrow> string \<Rightarrow> code_store \<times> (phone_code \<times> time) option" where
  "liveCodeLocked s now hash =
     (case cs_m s hash of
        None \<Rightarrow> (s, None)
      | Some (code, expires) \<Rightarrow> if now > expires then (deleteCodeLocked s hash code, None) else (s, Some (code, expires)))"

definition code_Set :: "code_store \<Rightarrow> time \<Rightarrow> string option \<Rightarrow> string \<Rightarrow> phone_code \<Rightarrow> duration \<Rightarrow> code_error + code_store" where
  "code_Set s now token hash code ttl =
     (case token of
        None \<Rightarrow> Inl ErrRevisionToken
      | Some revision \<Rightarrow>
          (let code1 = code\<lparr>pc_Revision := revision\<rparr>;
               scope = Scope code1;
               s1 = (if scope_Valid scope then
                       (let s0 = (case cs_scopes s scope of
                                    None \<Rightarrow> s
                                  | Some oldHash \<Rightarrow> if oldHash \<noteq> hash then s\<lparr>cs_m := (cs_m s)(oldHash := None)\<rparr> else s)
                        in s0\<lparr>cs_scopes := (cs_scopes s0)(scope \<mapsto> hash)\<rparr>)
                     else s)
           in Inr (s1\<lparr>cs_m := (cs_m s1)(hash \<mapsto> (code1, now + ttl))\<rparr>)))"

definition code_Get :: "code_store \<Rightarrow> time \<Rightarrow> string \<Rightarrow> code_store \<times> phone_code option" where
  "code_Get s now hash =
     (case cs_m s hash of
        None \<Rightarrow> (s, None)
      | Some (code, expires) \<Rightarrow> if now > expires then (deleteCodeLocked s hash code, None) else (s, Some code))"

definition code_Update :: "code_store \<Rightarrow> time \<Rightarrow> string option \<Rightarrow> string \<Rightarrow> phone_code \<Rightarrow> code_error + code_store" where
  "code_Update s now token hash code =
     (case token of
        None \<Rightarrow> Inl ErrRevisionToken
      | Some revision \<Rightarrow>
          (case cs_m s hash of
             None \<Rightarrow> Inr s
           | Some (old, expires) \<Rightarrow>
               if now > expires then Inr (deleteCodeLocked s hash old)
               else Inr (s\<lparr>cs_m := (cs_m s)(hash \<mapsto> (code\<lparr>pc_Revision := revision\<rparr>, expires))\<rparr>)))"

definition code_Del :: "code_store \<Rightarrow> string \<Rightarrow> code_store" where
  "code_Del s hash =
     (case cs_m s hash of
        Some (code, _) \<Rightarrow> deleteCodeLocked s hash code
      | None \<Rightarrow> s\<lparr>cs_m := (cs_m s)(hash := None)\<rparr>)"

definition ConsumeScoped :: "code_store \<Rightarrow> time \<Rightarrow> string \<Rightarrow> phone_code_scope \<Rightarrow> code_store \<times> phone_code option" where
  "ConsumeScoped s now hash scope =
     (if \<not> scope_Valid scope \<or> scope_hash s scope \<noteq> hash then (s, None)
      else case cs_m s hash of
        None \<Rightarrow> (delete_scope s scope, None)
      | Some (code, expires) \<Rightarrow>
          if now > expires then (deleteCodeLocked s hash code, None)
          else if pc_Version code \<noteq> PhoneCodeVersionCurrent \<or> Scope code \<noteq> scope then
            (let s1 = delete_scope (s\<lparr>cs_m := (cs_m s)(hash := None)\<rparr>) scope;
                 actualScope = Scope code
             in (if scope_Valid actualScope \<and> scope_hash s1 actualScope = hash then delete_scope s1 actualScope else s1, None))
          else (deleteCodeLocked s hash code, Some code))"

subsection \<open>Verification\<close>

definition attempt_limit :: "phone_code \<Rightarrow> int \<Rightarrow> int" where
  "attempt_limit code defaultMaxAttempts =
     (let m1 = (if pc_MaxAttempts code \<le> 0 then defaultMaxAttempts else pc_MaxAttempts code)
      in if m1 \<le> 0 then 1 else m1)"

text \<open>The branch both verifications take on a wrong code.\<close>

definition wrong_code :: "code_store \<Rightarrow> string option \<Rightarrow> string \<Rightarrow> phone_code \<Rightarrow> time \<Rightarrow> int \<Rightarrow>
    code_store \<times> (code_error + verify_result)" where
  "wrong_code s token hash code expires defaultMaxAttempts =
     (case token of
        None \<Rightarrow> (s, Inl ErrRevisionToken)
      | Some revision \<Rightarrow>
          (let code1 = code\<lparr>pc_Attempts := pc_Attempts code + 1, pc_Revision := revision\<rparr>
           in (if pc_Attempts code1 \<ge> attempt_limit code1 defaultMaxAttempts then deleteCodeLocked s hash code1
               else s\<lparr>cs_m := (cs_m s)(hash \<mapsto> (code1, expires))\<rparr>,
               Inr (LoginCodeVerifyInvalid, Some code1))))"

definition VerifyLogin :: "code_store \<Rightarrow> time \<Rightarrow> string option \<Rightarrow> string \<Rightarrow> string \<Rightarrow> string \<Rightarrow> bool \<Rightarrow> int \<Rightarrow>
    code_store \<times> (code_error + verify_result)" where
  "VerifyLogin s now token hash phone code keepForSignUp defaultMaxAttempts =
     (case liveCodeLocked s now hash of
        (s1, None) \<Rightarrow> (s1, Inr (LoginCodeVerifyMissing, None))
      | (s1, Some (rc, expires)) \<Rightarrow>
          if pc_Version rc \<noteq> PhoneCodeVersionCurrent then (deleteCodeLocked s1 hash rc, Inr (LoginCodeVerifyMissing, None))
          else if pc_SignUpVerified rc then (s1, Inr (LoginCodeVerifyMissing, None))
          else if pc_Purpose rc \<noteq> '''' \<or> pc_Phone rc \<noteq> phone \<or> \<not> LoginCodeChannelVerifiable (pc_Channel rc) \<or>
                  pc_Code rc = '''' \<or> code = ''''
          then (s1, Inr (LoginCodeVerifyInvalid, Some rc))
          else if pc_Code rc \<noteq> code then wrong_code s1 token hash rc expires defaultMaxAttempts
          else if keepForSignUp then
            (if pc_IssuedUserID rc \<noteq> 0 then (s1, Inr (LoginCodeVerifyInvalid, Some rc))
             else case token of
               None \<Rightarrow> (s1, Inl ErrRevisionToken)
             | Some revision \<Rightarrow>
                 (let rc1 = rc\<lparr>pc_SignUpVerified := True, pc_Revision := revision\<rparr>
                  in (s1\<lparr>cs_m := (cs_m s1)(hash \<mapsto> (rc1, expires))\<rparr>, Inr (LoginCodeVerifyAccepted, Some rc1))))
          else (deleteCodeLocked s1 hash rc, Inr (LoginCodeVerifyAccepted, Some rc)))"

definition VerifyScoped :: "code_store \<Rightarrow> time \<Rightarrow> string option \<Rightarrow> string \<Rightarrow> phone_code_scope \<Rightarrow> string \<Rightarrow> int \<Rightarrow>
    code_store \<times> (code_error + verify_result)" where
  "VerifyScoped s now token hash scope code defaultMaxAttempts =
     (if \<not> scope_Valid scope \<or> scope_hash s scope \<noteq> hash then (s, Inr (LoginCodeVerifyMissing, None))
      else case liveCodeLocked s now hash of
        (s1, None) \<Rightarrow> (if scope_hash s1 scope = hash then delete_scope s1 scope else s1, Inr (LoginCodeVerifyMissing, None))
      | (s1, Some (rc, expires)) \<Rightarrow>
          if pc_Version rc \<noteq> PhoneCodeVersionCurrent \<or> Scope rc \<noteq> scope \<or> pc_SignUpVerified rc \<or> pc_Code rc = '''' then
            (let s2 = deleteCodeLocked s1 hash rc
             in (if scope_hash s2 scope = hash then delete_scope s2 scope else s2, Inr (LoginCodeVerifyMissing, None)))
          else if code = '''' then (s1, Inr (LoginCodeVerifyInvalid, Some rc))
          else if pc_Code rc \<noteq> code then wrong_code s1 token hash rc expires defaultMaxAttempts
          else (deleteCodeLocked s1 hash rc, Inr (LoginCodeVerifyAccepted, Some rc)))"

definition ConsumeSignUpVerified :: "code_store \<Rightarrow> time \<Rightarrow> string \<Rightarrow> string \<Rightarrow> code_store \<times> phone_code option" where
  "ConsumeSignUpVerified s now hash phone =
     (case liveCodeLocked s now hash of
        (s1, None) \<Rightarrow> (s1, None)
      | (s1, Some (rc, expires)) \<Rightarrow>
          if pc_Version rc \<noteq> PhoneCodeVersionCurrent then (deleteCodeLocked s1 hash rc, None)
          else if pc_Purpose rc \<noteq> '''' \<or> pc_Phone rc \<noteq> phone \<or> \<not> LoginCodeChannelVerifiable (pc_Channel rc) \<or>
                  pc_IssuedUserID rc \<noteq> 0 \<or> \<not> pc_SignUpVerified rc then (s1, None)
          else (deleteCodeLocked s1 hash rc, Some rc))"

definition TakeLoginCode :: "code_store \<Rightarrow> time \<Rightarrow> string \<Rightarrow> string \<Rightarrow> code_store \<times> phone_code option" where
  "TakeLoginCode s now hash phone =
     (case liveCodeLocked s now hash of
        (s1, None) \<Rightarrow> (s1, None)
      | (s1, Some (rc, expires)) \<Rightarrow>
          if pc_Version rc \<noteq> PhoneCodeVersionCurrent then (deleteCodeLocked s1 hash rc, None)
          else if pc_SignUpVerified rc then (s1, None)
          else if pc_Purpose rc \<noteq> '''' \<or> pc_Phone rc \<noteq> phone \<or> \<not> LoginCodeChannelTakeable (pc_Channel rc) then (s1, None)
          else (deleteCodeLocked s1 hash rc, Some rc))"

definition InvalidateLoginCode :: "code_store \<Rightarrow> time \<Rightarrow> string \<Rightarrow> string \<Rightarrow> code_store \<times> bool" where
  "InvalidateLoginCode s now hash phone =
     (case liveCodeLocked s now hash of
        (s1, None) \<Rightarrow> (s1, False)
      | (s1, Some (rc, expires)) \<Rightarrow>
          if pc_Version rc \<noteq> PhoneCodeVersionCurrent then (deleteCodeLocked s1 hash rc, False)
          else if pc_Purpose rc \<noteq> '''' \<or> pc_Phone rc \<noteq> phone \<or> \<not> LoginCodeChannelTakeable (pc_Channel rc) then (s1, False)
          else (deleteCodeLocked s1 hash rc, True))"

subsection \<open>Compare and swap\<close>

definition GetSnapshot :: "code_store \<Rightarrow> time \<Rightarrow> string \<Rightarrow> code_store \<times> (phone_code \<times> string) option" where
  "GetSnapshot s now hash =
     (case liveCodeLocked s now hash of
        (s1, None) \<Rightarrow> (s1, None)
      | (s1, Some (rc, expires)) \<Rightarrow>
          if pc_Version rc \<noteq> PhoneCodeVersionCurrent \<or> pc_Revision rc = '''' then (deleteCodeLocked s1 hash rc, None)
          else (s1, Some (rc, pc_Revision rc)))"

definition CompareAndUpdate :: "code_store \<Rightarrow> time \<Rightarrow> string option \<Rightarrow> string \<Rightarrow> string \<Rightarrow> phone_code \<Rightarrow>
    code_store \<times> (code_error + bool)" where
  "CompareAndUpdate s now token hash expectedRevision next =
     (if expectedRevision = '''' \<or> pc_Version next \<noteq> PhoneCodeVersionCurrent \<or> pc_Purpose next \<noteq> '''' then (s, Inr False)
      else case token of
        None \<Rightarrow> (s, Inl ErrRevisionToken)
      | Some revision \<Rightarrow>
          (case liveCodeLocked s now hash of
             (s1, None) \<Rightarrow> (s1, Inr False)
           | (s1, Some (rc, expires)) \<Rightarrow>
               if pc_Version rc \<noteq> PhoneCodeVersionCurrent \<or> pc_Revision rc = '''' then (deleteCodeLocked s1 hash rc, Inr False)
               else if pc_Purpose rc \<noteq> '''' \<or> pc_Revision rc \<noteq> expectedRevision then (s1, Inr False)
               else (s1\<lparr>cs_m := (cs_m s1)(hash \<mapsto> (next\<lparr>pc_Revision := revision\<rparr>, expires))\<rparr>, Inr True)))"

definition CompareAndDelete :: "code_store \<Rightarrow> time \<Rightarrow> string \<Rightarrow> string \<Rightarrow> code_store \<times> bool" where
  "CompareAndDelete s now hash expectedRevision =
     (if expectedRevision = '''' then (s, False)
      else case liveCodeLocked s now hash of
        (s1, None) \<Rightarrow> (s1, False)
      | (s1, Some (rc, expires)) \<Rightarrow>
          if pc_Version rc \<noteq> PhoneCodeVersionCurrent \<or> pc_Revision rc = '''' then (deleteCodeLocked s1 hash rc, False)
          else if pc_Purpose rc \<noteq> '''' \<or> pc_Revision rc \<noteq> expectedRevision then (s1, False)
          else (deleteCodeLocked s1 hash rc, True))"

end
