(* ===== verification/Login_Theorems.thy ===== *)
theory Login_Theorems
  imports Login_Code
begin

text \<open>
  The guarantees of the one-time codes: a code is used once, guessed at most as often as its record
  allows, never after it expired; a compare-and-swap never overwrites a change it has not seen; and
  a sensitive operation has at most one live code.
\<close>

subsection \<open>Executions\<close>

datatype code_op =
    CodeSet time "string option" string phone_code duration
  | CodeGet time string
  | CodeUpdate time "string option" string phone_code
  | CodeDel string
  | CodeConsumeScoped time string phone_code_scope
  | CodeVerifyLogin time "string option" string string string bool int
  | CodeVerifyScoped time "string option" string phone_code_scope string int
  | CodeConsumeSignUp time string string
  | CodeTake time string string
  | CodeInvalidate time string string
  | CodeSnapshot time string
  | CodeCompareUpdate time "string option" string string phone_code
  | CodeCompareDelete time string string

datatype code_answer =
    CodeFailed
  | CodeDone
  | CodeFound "phone_code option"
  | CodeVerified verify_status "phone_code option"
  | CodeSwapped bool

fun code_apply :: "code_op \<Rightarrow> code_store \<Rightarrow> code_store \<times> code_answer" where
  "code_apply (CodeSet now token h c ttl) s = (case code_Set s now token h c ttl of Inl _ \<Rightarrow> (s, CodeFailed) | Inr s' \<Rightarrow> (s', CodeDone))"
| "code_apply (CodeGet now h) s = map_prod id CodeFound (code_Get s now h)"
| "code_apply (CodeUpdate now token h c) s = (case code_Update s now token h c of Inl _ \<Rightarrow> (s, CodeFailed) | Inr s' \<Rightarrow> (s', CodeDone))"
| "code_apply (CodeDel h) s = (code_Del s h, CodeDone)"
| "code_apply (CodeConsumeScoped now h scope) s = map_prod id CodeFound (ConsumeScoped s now h scope)"
| "code_apply (CodeVerifyLogin now token h phone code keep d) s =
     map_prod id (case_sum (\<lambda>_. CodeFailed) (\<lambda>(st, rc). CodeVerified st rc)) (VerifyLogin s now token h phone code keep d)"
| "code_apply (CodeVerifyScoped now token h scope code d) s =
     map_prod id (case_sum (\<lambda>_. CodeFailed) (\<lambda>(st, rc). CodeVerified st rc)) (VerifyScoped s now token h scope code d)"
| "code_apply (CodeConsumeSignUp now h phone) s = map_prod id CodeFound (ConsumeSignUpVerified s now h phone)"
| "code_apply (CodeTake now h phone) s = map_prod id CodeFound (TakeLoginCode s now h phone)"
| "code_apply (CodeInvalidate now h phone) s = map_prod id CodeSwapped (InvalidateLoginCode s now h phone)"
| "code_apply (CodeSnapshot now h) s = map_prod id (\<lambda>r. CodeFound (map_option fst r)) (GetSnapshot s now h)"
| "code_apply (CodeCompareUpdate now token h rv c) s =
     map_prod id (case_sum (\<lambda>_. CodeFailed) CodeSwapped) (CompareAndUpdate s now token h rv c)"
| "code_apply (CodeCompareDelete now h rv) s = map_prod id CodeSwapped (CompareAndDelete s now h rv)"

fun code_run :: "code_op list \<Rightarrow> code_store \<Rightarrow> code_store \<times> code_answer list" where
  "code_run [] s = (s, [])"
| "code_run (op # ops) s = (let (s1, a) = code_apply op s; (s2, as) = code_run ops s1 in (s2, a # as))"

text \<open>The operations that issue a code under a hash, and those that write its record.\<close>

fun issues :: "string \<Rightarrow> code_op \<Rightarrow> bool" where
  "issues h (CodeSet now token h' c ttl) \<longleftrightarrow> h' = h"
| "issues h op \<longleftrightarrow> False"

fun writes :: "string \<Rightarrow> code_op \<Rightarrow> bool" where
  "writes h (CodeSet now token h' c ttl) \<longleftrightarrow> h' = h"
| "writes h (CodeUpdate now token h' c) \<longleftrightarrow> h' = h"
| "writes h (CodeCompareUpdate now token h' rv c) \<longleftrightarrow> h' = h"
| "writes h op \<longleftrightarrow> False"

text \<open>The answers that hand the code to their caller and remove it, and those that accept a proof.\<close>

fun uses_up :: "string \<Rightarrow> code_op \<Rightarrow> code_answer \<Rightarrow> bool" where
  "uses_up h (CodeConsumeScoped now h' scope) a \<longleftrightarrow> h' = h \<and> (\<exists>rc. a = CodeFound (Some rc))"
| "uses_up h (CodeVerifyLogin now token h' phone code keep d) a \<longleftrightarrow> h' = h \<and> \<not> keep \<and> (\<exists>rc. a = CodeVerified LoginCodeVerifyAccepted rc)"
| "uses_up h (CodeVerifyScoped now token h' scope code d) a \<longleftrightarrow> h' = h \<and> (\<exists>rc. a = CodeVerified LoginCodeVerifyAccepted rc)"
| "uses_up h (CodeConsumeSignUp now h' phone) a \<longleftrightarrow> h' = h \<and> (\<exists>rc. a = CodeFound (Some rc))"
| "uses_up h (CodeTake now h' phone) a \<longleftrightarrow> h' = h \<and> (\<exists>rc. a = CodeFound (Some rc))"
| "uses_up h (CodeInvalidate now h' phone) a \<longleftrightarrow> h' = h \<and> a = CodeSwapped True"
| "uses_up h (CodeCompareDelete now h' rv) a \<longleftrightarrow> h' = h \<and> a = CodeSwapped True"
| "uses_up h op a \<longleftrightarrow> False"

fun accepts :: "string \<Rightarrow> code_op \<Rightarrow> code_answer \<Rightarrow> bool" where
  "accepts h (CodeVerifyLogin now token h' phone code keep d) a \<longleftrightarrow> h' = h \<and> (\<exists>rc. a = CodeVerified LoginCodeVerifyAccepted rc)"
| "accepts h (CodeVerifyScoped now token h' scope code d) a \<longleftrightarrow> h' = h \<and> (\<exists>rc. a = CodeVerified LoginCodeVerifyAccepted rc)"
| "accepts h op a \<longleftrightarrow> False"

fun clock :: "code_op \<Rightarrow> time" where
  "clock (CodeConsumeScoped now h scope) = now"
| "clock (CodeVerifyLogin now token h phone code keep d) = now"
| "clock (CodeVerifyScoped now token h scope code d) = now"
| "clock (CodeConsumeSignUp now h phone) = now"
| "clock (CodeTake now h phone) = now"
| "clock (CodeInvalidate now h phone) = now"
| "clock (CodeCompareDelete now h rv) = now"
| "clock op = 0"

text \<open>A guess: a verification that compared a wrong code with the record's.\<close>

fun guesses :: "string \<Rightarrow> code_op \<Rightarrow> code_answer \<Rightarrow> bool" where
  "guesses h (CodeVerifyLogin now token h' phone code keep d) a \<longleftrightarrow> h' = h \<and>
     (\<exists>rc. a = CodeVerified LoginCodeVerifyInvalid (Some rc) \<and> code \<noteq> '''' \<and> pc_Code rc \<noteq> '''' \<and> code \<noteq> pc_Code rc \<and>
        pc_Phone rc = phone \<and> pc_Purpose rc = '''' \<and> LoginCodeChannelVerifiable (pc_Channel rc))"
| "guesses h (CodeVerifyScoped now token h' scope code d) a \<longleftrightarrow> h' = h \<and>
     (\<exists>rc. a = CodeVerified LoginCodeVerifyInvalid (Some rc) \<and> code \<noteq> '''' \<and> code \<noteq> pc_Code rc)"
| "guesses h op a \<longleftrightarrow> False"

fun token_of :: "code_op \<Rightarrow> string option" where
  "token_of (CodeSet now token h c ttl) = token"
| "token_of (CodeUpdate now token h c) = token"
| "token_of (CodeVerifyLogin now token h phone code keep d) = token"
| "token_of (CodeVerifyScoped now token h scope code d) = token"
| "token_of (CodeCompareUpdate now token h rv c) = token"
| "token_of op = None"

text \<open>
  A verification may instead be answered by the failure of the random source: a wrong code was then
  compared with the record's and its attempt was not written.
\<close>

fun unrecorded :: "string \<Rightarrow> code_op \<Rightarrow> code_answer \<Rightarrow> bool" where
  "unrecorded h (CodeVerifyLogin now token h' phone code keep d) a \<longleftrightarrow> h' = h \<and> a = CodeFailed"
| "unrecorded h (CodeVerifyScoped now token h' scope code d) a \<longleftrightarrow> h' = h \<and> a = CodeFailed"
| "unrecorded h op a \<longleftrightarrow> False"

text \<open>The attempts a verification allows when the record does not say.\<close>

fun default_limit :: "code_op \<Rightarrow> int" where
  "default_limit (CodeVerifyLogin now token h phone code keep d) = d"
| "default_limit (CodeVerifyScoped now token h scope code d) = d"
| "default_limit op = 0"

subsection \<open>What an operation does to a record\<close>

lemma m_delete [simp]: "cs_m (deleteCodeLocked s h c) = (cs_m s)(h := None)"
  by (simp add: deleteCodeLocked_def delete_scope_def Let_def)

lemma m_delete_scope [simp]: "cs_m (delete_scope s x) = cs_m s"
  by (simp add: delete_scope_def)

lemma live_cases:
  obtains (gone) s1 where "liveCodeLocked s now h = (s1, None)" "cs_m s1 = (cs_m s)(h := None)"
    | (live) rc ex where "liveCodeLocked s now h = (s, Some (rc, ex))" "cs_m s h = Some (rc, ex)" "now \<le> ex"
proof (cases "cs_m s h")
  case None
  then have "liveCodeLocked s now h = (s, None)" "cs_m s = (cs_m s)(h := None)" by (auto simp: liveCodeLocked_def)
  with gone show ?thesis by blast
next
  case (Some p)
  obtain rc ex where p: "p = (rc, ex)" by (cases p)
  show ?thesis
  proof (cases "now > ex")
    case True
    then show ?thesis using gone [of "deleteCodeLocked s h rc"] Some p by (simp add: liveCodeLocked_def)
  next
    case False
    then show ?thesis using live [of rc ex] Some p by (simp add: liveCodeLocked_def)
  qed
qed

definition missed :: "phone_code \<Rightarrow> string \<Rightarrow> phone_code" where
  "missed rc rv = rc\<lparr>pc_Attempts := pc_Attempts rc + 1, pc_Revision := rv\<rparr>"

definition marked :: "phone_code \<Rightarrow> string \<Rightarrow> phone_code" where
  "marked rc rv = rc\<lparr>pc_SignUpVerified := True, pc_Revision := rv\<rparr>"

text \<open>
  The effect of an operation that does not write the record of \<open>h\<close>: nothing; or the record is gone; or
  it has one more attempt, below its limit; or it is marked for sign-up. An answer that uses the code
  up or accepts it comes from a live record.
\<close>

definition effect :: "string \<Rightarrow> code_op \<Rightarrow> code_answer \<Rightarrow> (phone_code \<times> time) option \<Rightarrow> (phone_code \<times> time) option \<Rightarrow> bool" where
  "effect h op a x y \<longleftrightarrow>
     (case x of
        None \<Rightarrow> y = None \<and> \<not> uses_up h op a \<and> \<not> accepts h op a \<and> \<not> guesses h op a
      | Some (rc, ex) \<Rightarrow>
          (uses_up h op a \<or> accepts h op a \<longrightarrow> clock op \<le> ex) \<and>
          (accepts h op a \<longrightarrow> \<not> pc_SignUpVerified rc) \<and>
          (y = Some (rc, ex) \<and> \<not> uses_up h op a \<and> \<not> accepts h op a \<and> \<not> guesses h op a \<or>
           y = None \<or>
           (\<exists>rv. y = Some (missed rc rv, ex) \<and> \<not> uses_up h op a \<and> \<not> accepts h op a \<and>
              pc_Attempts rc + 1 < attempt_limit rc (default_limit op)) \<or>
           (\<exists>rv. y = Some (marked rc rv, ex) \<and> \<not> uses_up h op a \<and> \<not> guesses h op a)))"

lemma effect_same: "\<not> uses_up h op a \<Longrightarrow> \<not> accepts h op a \<Longrightarrow> \<not> guesses h op a \<Longrightarrow> effect h op a x x"
  by (auto simp: effect_def split: option.splits)

lemma effect_gone: "\<not> uses_up h op a \<Longrightarrow> \<not> accepts h op a \<Longrightarrow> \<not> guesses h op a \<Longrightarrow> effect h op a x None"
  by (auto simp: effect_def split: option.splits)

lemma wrong_code_m: "cs_m (fst (wrong_code s token h rc ex d)) h' =
    (case token of None \<Rightarrow> cs_m s h'
     | Some rv \<Rightarrow> if h' \<noteq> h then cs_m s h'
                  else if pc_Attempts rc + 1 \<ge> attempt_limit rc d then None else Some (missed rc rv, ex))"
  by (auto simp: wrong_code_def Let_def missed_def attempt_limit_def split: option.splits)

lemma attempt_limit_mono: "d \<le> d' \<Longrightarrow> attempt_limit rc d \<le> attempt_limit rc d'"
  by (simp add: attempt_limit_def Let_def)

lemma attempt_limit_update [simp]: "attempt_limit (missed rc rv) d = attempt_limit rc d" "attempt_limit (marked rc rv) d = attempt_limit rc d"
  by (simp_all add: attempt_limit_def missed_def marked_def)

lemma effect_VerifyLogin:
  assumes "code_apply (CodeVerifyLogin now token h' phone code keep d) s = (s', a)"
  shows "effect h (CodeVerifyLogin now token h' phone code keep d) a (cs_m s h) (cs_m s' h)"
proof (cases rule: live_cases [where s = s and now = now and h = h'])
  case (gone s1)
  then show ?thesis using assms by (auto simp: VerifyLogin_def intro!: effect_same effect_gone)
next
  case (live rc ex)
  show ?thesis
  proof (cases "h' = h")
    case False
    then show ?thesis using assms live
      by (auto simp: VerifyLogin_def wrong_code_def Let_def split: if_splits option.splits prod.splits sum.splits intro!: effect_same)
  next
    case True
    then show ?thesis using assms live
      by (cases token) (auto simp: VerifyLogin_def wrong_code_def Let_def effect_def missed_def marked_def attempt_limit_def
          split: if_splits)
  qed
qed

lemma effect_VerifyScoped:
  assumes "code_apply (CodeVerifyScoped now token h' scope code d) s = (s', a)"
  shows "effect h (CodeVerifyScoped now token h' scope code d) a (cs_m s h) (cs_m s' h)"
proof (cases rule: live_cases [where s = s and now = now and h = h'])
  case (gone s1)
  then show ?thesis using assms by (auto simp: VerifyScoped_def split: if_splits intro!: effect_same effect_gone)
next
  case (live rc ex)
  show ?thesis
  proof (cases "h' = h")
    case False
    then show ?thesis using assms live
      by (auto simp: VerifyScoped_def wrong_code_def Let_def split: if_splits option.splits prod.splits sum.splits intro!: effect_same)
  next
    case True
    then show ?thesis using assms live
      by (cases token) (auto simp: VerifyScoped_def wrong_code_def Let_def effect_def missed_def marked_def attempt_limit_def
          split: if_splits)
  qed
qed

lemma effect_live:
  assumes "\<And>s1. liveCodeLocked s now h' = (s1, None) \<Longrightarrow> cs_m s1 = (cs_m s)(h' := None) \<Longrightarrow> effect h op a (cs_m s h) (cs_m s' h)"
    and "\<And>rc ex. liveCodeLocked s now h' = (s, Some (rc, ex)) \<Longrightarrow> cs_m s h' = Some (rc, ex) \<Longrightarrow> now \<le> ex \<Longrightarrow>
      effect h op a (cs_m s h) (cs_m s' h)"
  shows "effect h op a (cs_m s h) (cs_m s' h)"
  by (cases rule: live_cases [where s = s and now = now and h = h']) (use assms in blast)+

lemma code_effect:
  assumes "\<not> writes h op" "code_apply op s = (s', a)"
  shows "effect h op a (cs_m s h) (cs_m s' h)"
proof (cases op)
  case (CodeSet now token h' c ttl)
  then show ?thesis using assms
    by (auto simp: code_Set_def Let_def split: option.splits if_splits intro!: effect_same effect_gone)
next
  case (CodeGet now h')
  then show ?thesis using assms
    by (auto simp: code_Get_def split: option.splits if_splits prod.splits intro!: effect_same effect_gone)
next
  case (CodeUpdate now token h' c)
  then show ?thesis using assms
    by (auto simp: code_Update_def split: option.splits if_splits prod.splits intro!: effect_same effect_gone)
next
  case (CodeDel h')
  then show ?thesis using assms
    by (auto simp: code_Del_def split: option.splits if_splits prod.splits intro!: effect_same effect_gone)
next
  case (CodeConsumeScoped now h' scope)
  then show ?thesis using assms
    by (cases "h' = h") (auto simp: ConsumeScoped_def Let_def effect_def split: option.splits if_splits prod.splits)
next
  case (CodeConsumeSignUp now h' phone)
  show ?thesis
    by (rule effect_live [where s = s and now = now and h' = h'])
      (use CodeConsumeSignUp assms in \<open>auto simp: ConsumeSignUpVerified_def effect_def split: if_splits option.splits\<close>)
next
  case (CodeTake now h' phone)
  show ?thesis
    by (rule effect_live [where s = s and now = now and h' = h'])
      (use CodeTake assms in \<open>auto simp: TakeLoginCode_def effect_def split: if_splits option.splits\<close>)
next
  case (CodeInvalidate now h' phone)
  show ?thesis
    by (rule effect_live [where s = s and now = now and h' = h'])
      (use CodeInvalidate assms in \<open>auto simp: InvalidateLoginCode_def effect_def split: if_splits option.splits\<close>)
next
  case (CodeSnapshot now h')
  show ?thesis
    by (rule effect_live [where s = s and now = now and h' = h'])
      (use CodeSnapshot assms in \<open>auto simp: GetSnapshot_def effect_def split: if_splits option.splits\<close>)
next
  case (CodeCompareUpdate now token h' rv c)
  show ?thesis
    by (rule effect_live [where s = s and now = now and h' = h'])
      (use CodeCompareUpdate assms in \<open>auto simp: CompareAndUpdate_def effect_def split: if_splits option.splits\<close>)
next
  case (CodeCompareDelete now h' rv)
  show ?thesis
    by (rule effect_live [where s = s and now = now and h' = h'])
      (use CodeCompareDelete assms in \<open>auto simp: CompareAndDelete_def effect_def split: if_splits option.splits\<close>)
next
  case (CodeVerifyLogin now token h' phone code keep d)
  then show ?thesis using effect_VerifyLogin assms(2) by simp
next
  case (CodeVerifyScoped now token h' scope code d)
  then show ?thesis using effect_VerifyScoped assms(2) by simp
qed

subsection \<open>Used once, guessed a bounded number of times, never after expiry\<close>

definition count_answers :: "(code_op \<Rightarrow> code_answer \<Rightarrow> bool) \<Rightarrow> code_op list \<Rightarrow> code_answer list \<Rightarrow> nat" where
  "count_answers P ops as = length (filter (\<lambda>(op, a). P op a) (zip ops as))"

lemma count_answers_Cons [simp]: "count_answers P (op # ops) (a # as) = (if P op a then 1 else 0) + count_answers P ops as"
  by (simp add: count_answers_def)

lemma count_answers_Nil [simp]: "count_answers P [] as = 0"
  by (simp add: count_answers_def)

lemma code_run_Cons:
  assumes "code_run (op # ops) s = (s', as)"
  obtains s1 a as' where "code_apply op s = (s1, a)" "code_run ops s1 = (s', as')" "as = a # as'"
  using assms by (auto simp: Let_def split: prod.splits)

definition uses_left :: "(phone_code \<times> time) option \<Rightarrow> nat" where
  "uses_left x = (if x = None then 0 else 1)"

definition accepts_left :: "(phone_code \<times> time) option \<Rightarrow> nat" where
  "accepts_left x = (case x of None \<Rightarrow> 0 | Some (rc, ex) \<Rightarrow> if pc_SignUpVerified rc then 0 else 1)"

definition guesses_left :: "int \<Rightarrow> (phone_code \<times> time) option \<Rightarrow> int" where
  "guesses_left d x = (case x of None \<Rightarrow> 0 | Some (rc, ex) \<Rightarrow> max 1 (attempt_limit rc d - pc_Attempts rc))"

lemma effect_uses: "effect h op a x y \<Longrightarrow> (if uses_up h op a then 1 else 0) + uses_left y \<le> uses_left x"
  by (auto simp: effect_def uses_left_def split: option.splits)

lemma effect_accepts: "effect h op a x y \<Longrightarrow> (if accepts h op a then 1 else 0) + accepts_left y \<le> accepts_left x"
  by (auto simp: effect_def accepts_left_def missed_def marked_def split: option.splits)

lemma effect_guesses:
  assumes "effect h op a x y" "default_limit op \<le> d"
  shows "(if guesses h op a then 1 else 0) + guesses_left d y \<le> guesses_left d x"
proof (cases x)
  case (Some p)
  obtain rc ex where p: "p = (rc, ex)" by fastforce
  have "attempt_limit rc (default_limit op) \<le> attempt_limit rc d" by (rule attempt_limit_mono [OF assms(2)])
  moreover have "pc_Attempts (marked rc rv) = pc_Attempts rc" "pc_Attempts (missed rc rv) = pc_Attempts rc + 1" for rv
    by (simp_all add: missed_def marked_def)
  ultimately show ?thesis using assms(1) by (auto simp: effect_def guesses_left_def Some p)
qed (use assms(1) in \<open>simp add: effect_def guesses_left_def\<close>)

lemma unrecorded_token: "code_apply op s = (s', a) \<Longrightarrow> unrecorded h op a \<Longrightarrow> token_of op = None"
  by (cases op) (auto simp: VerifyLogin_def VerifyScoped_def wrong_code_def Let_def split: if_splits option.splits prod.splits sum.splits)

text \<open>
  C18. A code has one winner. As long as no operation writes the record of a hash, whatever callers
  do with it in whatever order, at most one of them is given the code, by verification, consumption,
  taking, invalidation or deletion, and at most one proof is accepted; with no record, none is.
\<close>

theorem one_winner:
  assumes "\<forall>op \<in> set ops. \<not> writes h op" "code_run ops s = (s', as)"
  shows "count_answers (uses_up h) ops as \<le> (if cs_m s h = None then 0 else 1) \<and>
    count_answers (accepts h) ops as \<le> (if cs_m s h = None then 0 else 1)"
proof -
  have "count_answers (uses_up h) ops as + uses_left (cs_m s' h) \<le> uses_left (cs_m s h) \<and>
      count_answers (accepts h) ops as + accepts_left (cs_m s' h) \<le> accepts_left (cs_m s h)"
    using assms
  proof (induction ops arbitrary: s as)
    case (Cons op ops)
    from Cons.prems(2) obtain s1 a as' where r: "code_apply op s = (s1, a)" "code_run ops s1 = (s', as')" "as = a # as'"
      by (rule code_run_Cons)
    have e: "effect h op a (cs_m s h) (cs_m s1 h)" using code_effect [OF _ r(1)] Cons.prems(1) by simp
    show ?case using Cons.IH [OF _ r(2)] Cons.prems(1) effect_uses [OF e] effect_accepts [OF e] r(3) by simp
  qed simp
  then show ?thesis by (auto simp: uses_left_def accepts_left_def split: option.splits if_splits)
qed

definition demo_code :: phone_code where
  "demo_code = \<lparr>pc_Version = 2, pc_Revision = '''', pc_IssuedUserID = 0, pc_SignUpVerified = False, pc_Phone = ''15550001'', pc_Code = ''12345'',
     pc_DeliveryID = '''', pc_Channel = ''sms'', pc_Purpose = '''', pc_UserID = 0, pc_AuthKeyID = 0, pc_SessionID = 0, pc_Email = '''',
     pc_PendingEmail = '''', pc_Attempts = 0, pc_MaxAttempts = 2, pc_VerifiedEmail = False, pc_RequireSignUp = False,
     pc_LoginEmailHash = '''', pc_RecoveryBinding = '''', pc_AccountDeletionHash = ''''\<rparr>"

definition demo_codes :: code_store where
  "demo_codes = \<lparr>cs_m = [''h'' \<mapsto> (demo_code\<lparr>pc_Revision := ''r1''\<rparr>, 60)], cs_scopes = Map.empty\<rparr>"

definition demo_guess :: "time \<Rightarrow> string \<Rightarrow> code_op" where
  "demo_guess t code = CodeVerifyLogin t (Some ''r2'') ''h'' ''15550001'' code False 5"

lemma demo_codes_set: "code_Set NewCodeStore 0 (Some ''r1'') ''h'' demo_code 60 = Inr demo_codes"
  by (simp add: code_Set_def NewCodeStore_def demo_codes_def demo_code_def Scope_def scope_Valid_def)

lemmas code_eval = demo_guess_def demo_codes_def demo_code_def VerifyLogin_def liveCodeLocked_def wrong_code_def attempt_limit_def
  deleteCodeLocked_def Scope_def scope_Valid_def PhoneCodeVersionCurrent_def LoginCodeChannelVerifiable_def Let_def

lemma one_winner_witness:
  "let ops = [demo_guess 1 ''0'', demo_guess 2 ''12345'', demo_guess 3 ''12345'']; as = snd (code_run ops demo_codes)
   in count_answers (uses_up ''h'') ops as \<le> 1 \<and> as \<noteq> [] \<and> hd (tl as) \<noteq> CodeFailed"
proof -
  let ?ops = "[demo_guess 1 ''0'', demo_guess 2 ''12345'', demo_guess 3 ''12345'']"
  have "count_answers (uses_up ''h'') ?ops (snd (code_run ?ops demo_codes)) \<le> (if cs_m demo_codes ''h'' = None then 0 else 1)"
    using one_winner [of ?ops "''h''" demo_codes "fst (code_run ?ops demo_codes)" "snd (code_run ?ops demo_codes)"]
    by (simp add: demo_guess_def)
  then show ?thesis unfolding Let_def by (intro conjI) (simp_all add: code_eval split: if_splits)
qed

text \<open>
  C19. Guessing is bounded. The limit of a record is its own number of attempts or, where it has none,
  the default of the verification (\<open>d\<close> at most), and at least one. Whatever is tried on its hash, by
  login or by scoped verification, interleaved with anything that does not write the record, the
  answers that report a wrong code are at most the attempts left up to that limit, or one when none is
  left; once there were that many the record is gone. The only other comparisons are those answered
  by the failure of the random source, which needs a verification whose token is missing.
\<close>

theorem guess_bound:
  assumes "cs_m s h = Some (rc, ex)"
    and "\<forall>op \<in> set ops. \<not> writes h op \<and> default_limit op \<le> d" "code_run ops s = (s', as)"
  shows "int (count_answers (guesses h) ops as) \<le> max 1 (attempt_limit rc d - pc_Attempts rc) \<and>
    (int (count_answers (guesses h) ops as) = max 1 (attempt_limit rc d - pc_Attempts rc) \<longrightarrow> cs_m s' h = None) \<and>
    list_all (\<lambda>(op, a). unrecorded h op a \<longrightarrow> token_of op = None) (zip ops as)"
proof -
  have "int (count_answers (guesses h) ops as) + guesses_left d (cs_m s' h) \<le> guesses_left d (cs_m s h) \<and>
      list_all (\<lambda>(op, a). unrecorded h op a \<longrightarrow> token_of op = None) (zip ops as)"
    using assms(2,3)
  proof (induction ops arbitrary: s as)
    case (Cons op ops)
    from Cons.prems(2) obtain s1 a as' where r: "code_apply op s = (s1, a)" "code_run ops s1 = (s', as')" "as = a # as'"
      by (rule code_run_Cons)
    have "effect h op a (cs_m s h) (cs_m s1 h)" using code_effect [OF _ r(1)] Cons.prems(1) by simp
    from effect_guesses [OF this, of d] have "(if guesses h op a then 1 else 0) + guesses_left d (cs_m s1 h) \<le> guesses_left d (cs_m s h)"
      using Cons.prems(1) by simp
    with Cons.IH [OF _ r(2)] Cons.prems(1) r(3) unrecorded_token [OF r(1)] show ?case by (auto split: if_splits)
  qed simp
  with assms(1) show ?thesis by (auto simp: guesses_left_def split: option.splits)
qed

lemma guess_bound_witness:
  "cs_m (fst (code_run [demo_guess 1 ''0'', demo_guess 2 ''1''] demo_codes)) ''h'' = None"
proof -
  let ?ops = "[demo_guess 1 ''0'', demo_guess 2 ''1'']"
  have h: "cs_m demo_codes ''h'' = Some (demo_code\<lparr>pc_Revision := ''r1''\<rparr>, 60)" by (simp add: demo_codes_def)
  have w: "\<forall>op \<in> set ?ops. \<not> writes ''h'' op \<and> default_limit op \<le> 5" by (simp add: demo_guess_def)
  have "count_answers (guesses ''h'') ?ops (snd (code_run ?ops demo_codes)) = 2"
    by (simp add: code_eval)
  with guess_bound [OF h w, of "fst (code_run ?ops demo_codes)" "snd (code_run ?ops demo_codes)"]
  show ?thesis by (simp add: demo_code_def attempt_limit_def)
qed

definition within :: "time \<Rightarrow> (phone_code \<times> time) option \<Rightarrow> bool" where
  "within T x \<longleftrightarrow> (case x of None \<Rightarrow> True | Some (rc, ex) \<Rightarrow> ex = T)"

lemma code_within:
  assumes "\<not> issues h op" "code_apply op s = (s', a)" "within T (cs_m s h)"
  shows "within T (cs_m s' h) \<and> (uses_up h op a \<or> accepts h op a \<longrightarrow> clock op \<le> T)"
proof (cases "writes h op")
  case False
  from code_effect [OF this assms(2)] assms(3) show ?thesis
    by (auto simp: effect_def within_def split: option.splits)
next
  case True
  with assms(1) consider (update) now token c where "op = CodeUpdate now token h c"
    | (cas) now token rv c where "op = CodeCompareUpdate now token h rv c" by (cases op) auto
  then show ?thesis
  proof cases
    case update
    then show ?thesis using assms(2,3)
      by (auto simp: code_Update_def within_def split: option.splits if_splits prod.splits)
  next
    case cas
    show ?thesis
    proof (cases rule: live_cases [where s = s and now = now and h = h])
      case (gone s1)
      then show ?thesis using assms(2,3) cas by (auto simp: CompareAndUpdate_def within_def split: option.splits if_splits)
    next
      case (live rc ex)
      then show ?thesis using assms(2,3) cas by (auto simp: CompareAndUpdate_def within_def split: option.splits if_splits)
    qed
  qed
qed

text \<open>
  No proof is accepted after its code expired. After a code is issued under a hash at time \<open>t\<close>
  with a lifetime, and until another is issued under that hash, every answer that accepts or hands
  out the code is given at most that lifetime after \<open>t\<close>: updates, compare-and-swaps and failed
  attempts do not extend it.
\<close>

theorem never_after_expiry:
  assumes "code_Set s t token h c ttl = Inr s0" "\<forall>op \<in> set ops. \<not> issues h op" "code_run ops s0 = (s', as)"
  shows "list_all (\<lambda>(op, a). (uses_up h op a \<or> accepts h op a) \<longrightarrow> clock op \<le> t + ttl) (zip ops as)"
proof -
  have "within (t + ttl) (cs_m s0 h)"
    using assms(1) by (auto simp: code_Set_def Let_def within_def split: option.splits)
  then show ?thesis using assms(2,3)
  proof (induction ops arbitrary: s0 as)
    case (Cons op ops)
    from Cons.prems(3) obtain s1 a as' where r: "code_apply op s0 = (s1, a)" "code_run ops s1 = (s', as')" "as = a # as'"
      by (rule code_run_Cons)
    from code_within [OF _ r(1) Cons.prems(1)] Cons.prems(2) have
      "within (t + ttl) (cs_m s1 h)" "uses_up h op a \<or> accepts h op a \<longrightarrow> clock op \<le> t + ttl" by simp_all
    with Cons.IH [OF this(1) _ r(2)] Cons.prems(2) r(3) show ?case by simp
  qed simp
qed

lemma never_after_expiry_witness:
  "\<not> accepts ''h'' (demo_guess 61 ''12345'') (snd (code_apply (demo_guess 61 ''12345'') demo_codes))"
proof -
  have "code_run [demo_guess 61 ''12345''] demo_codes =
      (fst (code_apply (demo_guess 61 ''12345'') demo_codes), [snd (code_apply (demo_guess 61 ''12345'') demo_codes)])"
    by (simp add: Let_def split: prod.splits)
  from never_after_expiry [OF demo_codes_set _ this] show ?thesis by (auto simp: demo_guess_def)
qed

subsection \<open>Compare and swap\<close>

text \<open>Every operation leaves a record as it is, removes it, or gives it a revision of its own.\<close>

definition revised :: "code_op \<Rightarrow> (phone_code \<times> time) option \<Rightarrow> (phone_code \<times> time) option \<Rightarrow> bool" where
  "revised op x y \<longleftrightarrow> y = x \<or> y = None \<or> (\<exists>rc ex. y = Some (rc, ex) \<and> token_of op = Some (pc_Revision rc))"

lemma code_revised: "code_apply op s = (s', a) \<Longrightarrow> revised op (cs_m s h) (cs_m s' h)"
proof (cases op)
  case (CodeSet now token h' c ttl)
  then show "code_apply op s = (s', a) \<Longrightarrow> ?thesis" by (auto simp: code_Set_def Let_def revised_def split: option.splits if_splits)
next
  case (CodeGet now h')
  then show "code_apply op s = (s', a) \<Longrightarrow> ?thesis" by (auto simp: code_Get_def revised_def split: option.splits if_splits prod.splits)
next
  case (CodeUpdate now token h' c)
  then show "code_apply op s = (s', a) \<Longrightarrow> ?thesis" by (auto simp: code_Update_def revised_def split: option.splits if_splits prod.splits)
next
  case (CodeDel h')
  then show "code_apply op s = (s', a) \<Longrightarrow> ?thesis" by (auto simp: code_Del_def revised_def split: option.splits if_splits prod.splits)
next
  case (CodeConsumeScoped now h' scope)
  then show "code_apply op s = (s', a) \<Longrightarrow> ?thesis"
    by (auto simp: ConsumeScoped_def Let_def revised_def split: option.splits if_splits prod.splits)
next
  case (CodeVerifyLogin now token h' phone code keep d)
  then show "code_apply op s = (s', a) \<Longrightarrow> ?thesis"
    by (cases rule: live_cases [where s = s and now = now and h = h'])
      (auto simp: VerifyLogin_def wrong_code_def Let_def revised_def split: option.splits if_splits prod.splits sum.splits)
next
  case (CodeVerifyScoped now token h' scope code d)
  then show "code_apply op s = (s', a) \<Longrightarrow> ?thesis"
    by (cases rule: live_cases [where s = s and now = now and h = h'])
      (auto simp: VerifyScoped_def wrong_code_def Let_def revised_def split: option.splits if_splits prod.splits sum.splits)
next
  case (CodeConsumeSignUp now h' phone)
  then show "code_apply op s = (s', a) \<Longrightarrow> ?thesis"
    by (cases rule: live_cases [where s = s and now = now and h = h'])
      (auto simp: ConsumeSignUpVerified_def revised_def split: if_splits)
next
  case (CodeTake now h' phone)
  then show "code_apply op s = (s', a) \<Longrightarrow> ?thesis"
    by (cases rule: live_cases [where s = s and now = now and h = h']) (auto simp: TakeLoginCode_def revised_def split: if_splits)
next
  case (CodeInvalidate now h' phone)
  then show "code_apply op s = (s', a) \<Longrightarrow> ?thesis"
    by (cases rule: live_cases [where s = s and now = now and h = h']) (auto simp: InvalidateLoginCode_def revised_def split: if_splits)
next
  case (CodeSnapshot now h')
  then show "code_apply op s = (s', a) \<Longrightarrow> ?thesis"
    by (cases rule: live_cases [where s = s and now = now and h = h']) (auto simp: GetSnapshot_def revised_def split: if_splits)
next
  case (CodeCompareUpdate now token h' rv c)
  then show "code_apply op s = (s', a) \<Longrightarrow> ?thesis"
    by (cases rule: live_cases [where s = s and now = now and h = h'])
      (auto simp: CompareAndUpdate_def revised_def split: if_splits option.splits)
next
  case (CodeCompareDelete now h' rv)
  then show "code_apply op s = (s', a) \<Longrightarrow> ?thesis"
    by (cases rule: live_cases [where s = s and now = now and h = h']) (auto simp: CompareAndDelete_def revised_def split: if_splits)
qed

text \<open>
  A compare-and-swap never overwrites a change it has not seen. When the revision of a snapshot is
  not drawn again, a later \<^verbatim>\<open>CompareAndUpdate\<close> or \<^verbatim>\<open>CompareAndDelete\<close> with it succeeds only if the record
  is still exactly the one of the snapshot, whatever happened in between, and then stores the new
  value with the lifetime of the old one, or removes it.
\<close>

theorem cas_sees_changes:
  assumes "GetSnapshot s now h = (s1, Some (rc, r))" "\<forall>op \<in> set ops. token_of op \<noteq> Some r" "code_run ops s1 = (s2, as)"
  shows "(CompareAndUpdate s2 now2 token h r c = (s3, Inr True) \<longrightarrow>
      (\<exists>ex rv. cs_m s2 h = Some (rc, ex) \<and> cs_m s1 h = Some (rc, ex) \<and> token = Some rv \<and>
         cs_m s3 h = Some (c\<lparr>pc_Revision := rv\<rparr>, ex))) \<and>
    (CompareAndDelete s2 now2 h r = (s4, True) \<longrightarrow>
      (\<exists>ex. cs_m s2 h = Some (rc, ex) \<and> cs_m s1 h = Some (rc, ex) \<and> cs_m s4 h = None))"
proof -
  obtain ex where ex: "cs_m s1 h = Some (rc, ex)" "pc_Revision rc = r"
    using assms(1) by (cases rule: live_cases [where s = s and now = now and h = h])
      (auto simp: GetSnapshot_def split: if_splits)
  have "cs_m s2 h = Some (rc, ex) \<or> cs_m s2 h = None \<or> (\<exists>rc' ex'. cs_m s2 h = Some (rc', ex') \<and> pc_Revision rc' \<noteq> r)"
    if "cs_m s1 h = Some (rc, ex) \<or> cs_m s1 h = None \<or> (\<exists>rc' ex'. cs_m s1 h = Some (rc', ex') \<and> pc_Revision rc' \<noteq> r)"
    using that assms(2,3)
  proof (induction ops arbitrary: s1 as)
    case (Cons op ops)
    from Cons.prems(3) obtain s1' a as' where r: "code_apply op s1 = (s1', a)" "code_run ops s1' = (s2, as')" "as = a # as'"
      by (rule code_run_Cons)
    have "cs_m s1' h = Some (rc, ex) \<or> cs_m s1' h = None \<or> (\<exists>rc' ex'. cs_m s1' h = Some (rc', ex') \<and> pc_Revision rc' \<noteq> r)"
      using code_revised [OF r(1), of h] Cons.prems(1,2) unfolding revised_def by auto
    from Cons.IH [OF this _ r(2)] Cons.prems(2) show ?case by simp
  qed simp
  then have s2: "cs_m s2 h = Some (rc, ex) \<or> cs_m s2 h = None \<or> (\<exists>rc' ex'. cs_m s2 h = Some (rc', ex') \<and> pc_Revision rc' \<noteq> r)"
    using ex by blast
  show ?thesis
  proof (cases rule: live_cases [where s = s2 and now = now2 and h = h])
    case (gone x)
    then show ?thesis by (auto simp: CompareAndUpdate_def CompareAndDelete_def split: option.splits if_splits)
  next
    case (live rc' ex')
    then show ?thesis using s2 ex
      by (auto simp: CompareAndUpdate_def CompareAndDelete_def split: option.splits if_splits)
  qed
qed

lemma cas_sees_changes_witness:
  "snd (CompareAndUpdate (fst (code_run [demo_guess 1 ''0''] demo_codes)) 2 (Some ''r3'') ''h'' ''r1'' demo_code) \<noteq> Inr True"
proof
  let ?s2 = "fst (code_run [demo_guess 1 ''0''] demo_codes)"
  assume won: "snd (CompareAndUpdate ?s2 2 (Some ''r3'') ''h'' ''r1'' demo_code) = Inr True"
  have snap: "GetSnapshot demo_codes 0 ''h'' = (demo_codes, Some (demo_code\<lparr>pc_Revision := ''r1''\<rparr>, ''r1''))"
    by (simp add: GetSnapshot_def liveCodeLocked_def demo_codes_def demo_code_def PhoneCodeVersionCurrent_def)
  have "code_run [demo_guess 1 ''0''] demo_codes = (?s2, snd (code_run [demo_guess 1 ''0''] demo_codes))" by simp
  from cas_sees_changes [OF snap _ this, of 2 "Some ''r3''" demo_code "fst (CompareAndUpdate ?s2 2 (Some ''r3'') ''h'' ''r1'' demo_code)"] won
  have "\<exists>ex. cs_m ?s2 ''h'' = Some (demo_code\<lparr>pc_Revision := ''r1''\<rparr>, ex)"
    by (cases "CompareAndUpdate ?s2 2 (Some ''r3'') ''h'' ''r1'' demo_code") (auto simp: demo_guess_def)
  then show False by (simp add: code_eval)
qed

subsection \<open>One live code per scope\<close>

definition scope_inv :: "code_store \<Rightarrow> bool" where
  "scope_inv s \<longleftrightarrow> (\<forall>h rc ex. cs_m s h = Some (rc, ex) \<longrightarrow> scope_Valid (Scope rc) \<longrightarrow> cs_scopes s (Scope rc) = Some h)"

lemma scope_inv_drop:
  "scope_inv s \<Longrightarrow> cs_m s h = None \<Longrightarrow> scope_hash s scope = h \<Longrightarrow> scope_inv (delete_scope s scope)"
  by (force simp: scope_inv_def delete_scope_def scope_hash_def)

lemma scope_inv_remove: "scope_inv s \<Longrightarrow> scope_inv (s\<lparr>cs_m := (cs_m s)(h := None)\<rparr>)"
  by (auto simp: scope_inv_def)

lemma scope_inv_delete: "scope_inv s \<Longrightarrow> scope_inv (deleteCodeLocked s h c)"
  unfolding deleteCodeLocked_def Let_def by (auto intro: scope_inv_drop [where h = h] scope_inv_remove)

lemma scope_inv_same: "scope_inv s \<Longrightarrow> cs_m s h = Some (rc, ex) \<Longrightarrow> Scope rc' = Scope rc \<Longrightarrow> scope_inv (s\<lparr>cs_m := (cs_m s)(h \<mapsto> (rc', ex'))\<rparr>)"
  by (auto simp: scope_inv_def)

lemma scope_inv_unscoped: "scope_inv s \<Longrightarrow> \<not> scope_Valid (Scope rc') \<Longrightarrow> scope_inv (s\<lparr>cs_m := (cs_m s)(h \<mapsto> (rc', ex'))\<rparr>)"
  by (auto simp: scope_inv_def)

lemma Scope_update [simp]:
  "Scope (rc\<lparr>pc_Attempts := n\<rparr>) = Scope rc" "Scope (rc\<lparr>pc_SignUpVerified := b\<rparr>) = Scope rc"
  "Scope (rc\<lparr>pc_Revision := r\<rparr>) = Scope rc"
  by (simp_all add: Scope_def)

lemma scope_inv_wrong: "scope_inv s \<Longrightarrow> cs_m s h = Some (rc, ex) \<Longrightarrow> scope_inv (fst (wrong_code s token h rc ex d))"
  using scope_inv_same [of s h rc ex] by (auto simp: wrong_code_def Let_def split: option.splits intro: scope_inv_delete)

lemma scope_inv_Set: "scope_inv s \<Longrightarrow> code_Set s now token h c ttl = Inr s' \<Longrightarrow> scope_inv s'"
proof -
  assume inv: "scope_inv s" and set: "code_Set s now token h c ttl = Inr s'"
  then obtain rv where rv: "token = Some rv" by (auto simp: code_Set_def split: option.splits)
  define scope where "scope = Scope c"
  show "scope_inv s'"
  proof (cases "scope_Valid scope")
    case False
    then have "s' = s\<lparr>cs_m := (cs_m s)(h \<mapsto> (c\<lparr>pc_Revision := rv\<rparr>, now + ttl))\<rparr>"
      using set rv by (simp add: code_Set_def Let_def scope_def)
    then show ?thesis using scope_inv_unscoped [OF inv] False by (simp add: scope_def)
  next
    case True
    have m: "cs_m s' h' = (if h' = h then Some (c\<lparr>pc_Revision := rv\<rparr>, now + ttl)
        else if cs_scopes s scope = Some h' then None else cs_m s h')" for h'
      using set rv True by (auto simp: code_Set_def Let_def scope_def split: option.splits if_splits)
    have sc: "cs_scopes s' = (cs_scopes s)(scope \<mapsto> h)"
      using set rv True by (auto simp: code_Set_def Let_def scope_def split: option.splits if_splits)
    show ?thesis using inv unfolding scope_inv_def m sc by (auto simp: scope_def split: if_splits) (metis option.inject)
  qed
qed

fun keeps_scopes :: "code_op \<Rightarrow> bool" where
  "keeps_scopes (CodeUpdate now token h c) \<longleftrightarrow> \<not> scope_Valid (Scope c)"
| "keeps_scopes op \<longleftrightarrow> True"

lemma scope_inv_live: "scope_inv s \<Longrightarrow> scope_inv (fst (liveCodeLocked s now h))"
  by (auto simp: liveCodeLocked_def split: option.splits prod.splits intro: scope_inv_delete)

lemma scope_inv_VerifyScoped:
  assumes "scope_inv s"
  shows "scope_inv (fst (VerifyScoped s now token h scope code d))"
proof (cases rule: live_cases [where s = s and now = now and h = h])
  case (gone s1)
  have "scope_inv s1" using scope_inv_live [OF assms, of now h] gone(1) by simp
  then show ?thesis using assms gone by (auto simp: VerifyScoped_def intro: scope_inv_drop [where h = h])
next
  case (live rc ex)
  then show ?thesis using assms
    by (auto simp: VerifyScoped_def Let_def intro: scope_inv_wrong scope_inv_delete scope_inv_drop [where h = h])
qed

lemma scope_inv_VerifyLogin:
  assumes "scope_inv s"
  shows "scope_inv (fst (VerifyLogin s now token h phone code keep d))"
proof (cases rule: live_cases [where s = s and now = now and h = h])
  case (gone s1)
  then show ?thesis using scope_inv_live [OF assms, of now h] by (simp add: VerifyLogin_def)
next
  case (live rc ex)
  then show ?thesis using assms scope_inv_same [of s h rc ex]
    by (auto simp: VerifyLogin_def Let_def split: option.splits intro: scope_inv_wrong scope_inv_delete)
qed

lemma scope_inv_CompareAndUpdate:
  assumes "scope_inv s"
  shows "scope_inv (fst (CompareAndUpdate s now token h rv c))"
proof (cases rule: live_cases [where s = s and now = now and h = h])
  case (gone s1)
  then show ?thesis using scope_inv_live [OF assms, of now h] assms by (auto simp: CompareAndUpdate_def split: option.splits)
next
  case (live rc ex)
  have "\<not> scope_Valid (Scope (c\<lparr>pc_Revision := r\<rparr>))" if "pc_Purpose c = ''''" for r using that by (simp add: Scope_def scope_Valid_def)
  then show ?thesis using assms live
    by (auto simp: CompareAndUpdate_def split: option.splits intro: scope_inv_delete scope_inv_unscoped)
qed

lemma scope_inv_ConsumeScoped:
  assumes "scope_inv s"
  shows "scope_inv (fst (ConsumeScoped s now h scope))"
proof -
  have drop: "scope_inv (delete_scope x sc)" if "scope_inv x" "cs_m x h = None" "scope_hash x sc = h" for x sc
    using that by (rule scope_inv_drop)
  have remove: "scope_inv (s\<lparr>cs_m := (cs_m s)(h := None)\<rparr>)" by (rule scope_inv_remove [OF assms])
  have hash: "scope_hash (s\<lparr>cs_m := m\<rparr>) sc = scope_hash s sc" for m sc by (simp add: scope_hash_def)
  show ?thesis using assms drop remove hash
    by (auto simp: ConsumeScoped_def Let_def split: option.splits intro: scope_inv_delete)
qed

lemma scope_inv_apply: "scope_inv s \<Longrightarrow> keeps_scopes op \<Longrightarrow> scope_inv (fst (code_apply op s))"
proof (cases op)
  case (CodeSet now token h c ttl)
  then show "scope_inv s \<Longrightarrow> ?thesis" by (auto split: sum.splits intro: scope_inv_Set)
next
  case (CodeUpdate now token h c)
  then show "scope_inv s \<Longrightarrow> keeps_scopes op \<Longrightarrow> ?thesis"
    by (auto simp: code_Update_def split: sum.splits option.splits prod.splits if_splits intro: scope_inv_delete scope_inv_unscoped)
next
  case (CodeConsumeSignUp now h phone)
  then show "scope_inv s \<Longrightarrow> ?thesis" using scope_inv_live [of s now h]
    by (cases rule: live_cases [where s = s and now = now and h = h])
      (auto simp: ConsumeSignUpVerified_def intro: scope_inv_delete)
next
  case (CodeTake now h phone)
  then show "scope_inv s \<Longrightarrow> ?thesis" using scope_inv_live [of s now h]
    by (cases rule: live_cases [where s = s and now = now and h = h]) (auto simp: TakeLoginCode_def intro: scope_inv_delete)
next
  case (CodeInvalidate now h phone)
  then show "scope_inv s \<Longrightarrow> ?thesis" using scope_inv_live [of s now h]
    by (cases rule: live_cases [where s = s and now = now and h = h]) (auto simp: InvalidateLoginCode_def intro: scope_inv_delete)
next
  case (CodeSnapshot now h)
  then show "scope_inv s \<Longrightarrow> ?thesis" using scope_inv_live [of s now h]
    by (cases rule: live_cases [where s = s and now = now and h = h]) (auto simp: GetSnapshot_def intro: scope_inv_delete)
next
  case (CodeCompareDelete now h rv)
  then show "scope_inv s \<Longrightarrow> ?thesis" using scope_inv_live [of s now h]
    by (cases rule: live_cases [where s = s and now = now and h = h]) (auto simp: CompareAndDelete_def intro: scope_inv_delete)
qed (auto simp: code_Get_def code_Del_def split: option.splits prod.splits
    intro: scope_inv_delete scope_inv_remove scope_inv_VerifyLogin scope_inv_VerifyScoped scope_inv_ConsumeScoped scope_inv_CompareAndUpdate)

lemma scope_inv_run: "scope_inv s \<Longrightarrow> \<forall>op \<in> set ops. keeps_scopes op \<Longrightarrow> scope_inv (fst (code_run ops s))"
proof (induction ops arbitrary: s)
  case (Cons op ops)
  then show ?case using scope_inv_apply [of s op] by (auto simp: Let_def split: prod.splits) (metis fst_conv)
qed simp

text \<open>
  A sensitive operation has at most one live code. After any operations (plain updates writing
  only records of login codes), no two hashes hold codes for the same purpose, account, device and
  phone, and the scope index names the one that is there.
\<close>

theorem one_code_per_scope:
  assumes "\<forall>op \<in> set ops. keeps_scopes op"
    and "cs_m (fst (code_run ops NewCodeStore)) h = Some (rc, ex)" "scope_Valid (Scope rc)"
  shows "cs_scopes (fst (code_run ops NewCodeStore)) (Scope rc) = Some h \<and>
    (cs_m (fst (code_run ops NewCodeStore)) h' = Some (rc', ex') \<and> Scope rc' = Scope rc \<longrightarrow> h' = h)"
proof -
  have "scope_inv NewCodeStore" by (simp add: scope_inv_def NewCodeStore_def)
  from scope_inv_run [OF this assms(1)] have inv: "cs_m (fst (code_run ops NewCodeStore)) g = Some (r, x) \<Longrightarrow>
      scope_Valid (Scope r) \<Longrightarrow> cs_scopes (fst (code_run ops NewCodeStore)) (Scope r) = Some g" for g r x
    unfolding scope_inv_def by blast
  from inv [OF assms(2,3)] inv [of h' rc' ex'] assms(3) show ?thesis by auto
qed

lemma one_code_per_scope_witness:
  "let c = demo_code\<lparr>pc_Purpose := ''change_phone'', pc_UserID := 5, pc_AuthKeyID := 9\<rparr>;
       s = fst (code_run [CodeSet 0 (Some ''r1'') ''h'' c 60, CodeSet 1 (Some ''r2'') ''g'' c 60] NewCodeStore)
   in cs_scopes s (Scope c) = Some ''g'' \<and> cs_m s ''h'' = None"
proof -
  let ?c = "demo_code\<lparr>pc_Purpose := ''change_phone'', pc_UserID := 5, pc_AuthKeyID := 9\<rparr>"
  let ?ops = "[CodeSet 0 (Some ''r1'') ''h'' ?c 60, CodeSet 1 (Some ''r2'') ''g'' ?c 60]"
  let ?s = "fst (code_run ?ops NewCodeStore)"
  have g: "cs_m ?s ''g'' = Some (?c\<lparr>pc_Revision := ''r2''\<rparr>, 61)"
    by (simp add: code_Set_def NewCodeStore_def Let_def demo_code_def Scope_def scope_Valid_def)
  have v: "scope_Valid (Scope (?c\<lparr>pc_Revision := ''r2''\<rparr>))" by (simp add: demo_code_def Scope_def scope_Valid_def)
  have k: "\<forall>op \<in> set ?ops. keeps_scopes op" by simp
  have sc: "Scope (?c\<lparr>pc_Revision := ''r2''\<rparr>) = Scope ?c" by simp
  have "cs_m ?s ''h'' = None \<or> (\<exists>rc ex. cs_m ?s ''h'' = Some (rc, ex) \<and> Scope rc = Scope ?c)"
    by (simp add: code_Set_def NewCodeStore_def Let_def demo_code_def Scope_def scope_Valid_def)
  then show ?thesis using one_code_per_scope [OF k g v, of "''h''"] unfolding Let_def sc by auto
qed

end
