(* ===== verification/Frame_Budget.thy ===== *)
theory Frame_Budget
  imports Capacity
begin

text \<open>
  The process-wide byte budget of inbound frames: \<^verbatim>\<open>internal/mtprotoedge/frame_budget.go\<close> and the
  connection side of it in \<^verbatim>\<open>transport_compat.go\<close>.

  \<^item> The compare-and-swap loop of \<^verbatim>\<open>growReservation\<close> is its successful round. \<^verbatim>\<open>frameMu\<close> makes each update
    of a connection one step; the return of bytes to the budget happens after the lock is released,
    so it is a step of its own and the bytes on their way back are part of the state.
  \<^item> \<open>frame_step\<close> is the step relation of all connections together.
\<close>

subsection \<open>The budget\<close>

record frame_budget =
  ib_max :: int
  ib_used :: int

datatype frame_error =
    ErrInboundFrameBudgetExceeded
  | ErrInboundFrameNotReserved
  | ErrNetClosed

definition defaultInboundFrameGlobalMaxBytes :: int where
  "defaultInboundFrameGlobalMaxBytes = 512 * 2 ^ 20"

definition newInboundFrameBudget :: "int \<Rightarrow> frame_budget" where
  "newInboundFrameBudget m = \<lparr>ib_max = (if m \<le> 0 then defaultInboundFrameGlobalMaxBytes else m), ib_used = 0\<rparr>"

definition growReservation :: "frame_budget \<Rightarrow> int \<Rightarrow> int \<Rightarrow> int \<Rightarrow> frame_error + (frame_budget \<times> int)" where
  "growReservation b current wireBytes plaintextBytes =
     (if current < 0 \<or> wireBytes \<le> 0 \<or> plaintextBytes < 0 \<or> wireBytes > ib_max b \<or> plaintextBytes > ib_max b - wireBytes
      then Inl ErrInboundFrameBudgetExceeded
      else let target = wireBytes + plaintextBytes
           in if target \<le> current then Inr (b, current)
              else let n = target - current
                   in if n > ib_max b - ib_used b then Inl ErrInboundFrameBudgetExceeded
                      else Inr (b\<lparr>ib_used := ib_used b + n\<rparr>, target))"

definition frame_reserve :: "frame_budget \<Rightarrow> int \<Rightarrow> int \<Rightarrow> frame_error + (frame_budget \<times> int)" where
  "frame_reserve b wireBytes plaintextBytes = growReservation b 0 wireBytes plaintextBytes"

text \<open>\<open>None\<close> is the panic on returning more than was reserved.\<close>

definition frame_release :: "frame_budget \<Rightarrow> int \<Rightarrow> frame_budget option" where
  "frame_release b n =
     (if n = 0 then Some b
      else let used = ib_used b - n in if used < 0 then None else Some (b\<lparr>ib_used := used\<rparr>))"

definition usedBytes :: "frame_budget \<Rightarrow> int" where
  "usedBytes b = ib_used b"

text \<open>Reserving without a current charge and returning is one more bounded counter.\<close>

definition frame_slots :: "frame_budget \<Rightarrow> int \<Rightarrow> frame_budget option" where
  "frame_slots b n = (case frame_reserve b n 0 of Inl _ \<Rightarrow> None | Inr (b', _) \<Rightarrow> Some b')"

interpretation frame_bytes: slot_counter ib_used ib_max frame_slots frame_release
  by unfold_locales
    (auto simp: frame_slots_def frame_reserve_def growReservation_def frame_release_def Let_def split: if_splits)

subsection \<open>Connections\<close>

record frame_world =
  fw_budget :: frame_budget
  fw_held :: "nat \<Rightarrow> int"
  fw_closed :: "nat \<Rightarrow> bool"
  fw_delivered :: "nat \<Rightarrow> bool"
  fw_returning :: "int multiset"

definition new_frame_world :: "int \<Rightarrow> frame_world" where
  "new_frame_world m = \<lparr>fw_budget = newInboundFrameBudget m, fw_held = (\<lambda>_. 0), fw_closed = (\<lambda>_. False),
     fw_delivered = (\<lambda>_. False), fw_returning = {#}\<rparr>"

definition reserveInboundFrame :: "frame_world \<Rightarrow> nat \<Rightarrow> int \<Rightarrow> int \<Rightarrow> frame_error + frame_world" where
  "reserveInboundFrame w c wireBytes plaintextBytes =
     (if fw_closed w c then Inl ErrNetClosed
      else case growReservation (fw_budget w) (fw_held w c) wireBytes plaintextBytes of
        Inl e \<Rightarrow> Inl e
      | Inr (b, n) \<Rightarrow> Inr (w\<lparr>fw_budget := b, fw_held := (fw_held w)(c := n)\<rparr>))"

definition beginInboundFrameRead :: "frame_world \<Rightarrow> nat \<Rightarrow> frame_world" where
  "beginInboundFrameRead w c = w\<lparr>fw_delivered := (fw_delivered w)(c := False)\<rparr>"

definition retainInboundFrameBytes :: "frame_world \<Rightarrow> nat \<Rightarrow> int \<Rightarrow> frame_world \<times> bool" where
  "retainInboundFrameBytes w c n =
     (if n < 0 then (w, False)
      else let old = fw_held w c
           in if n > old then
                (case growReservation (fw_budget w) old n 0 of
                   Inl _ \<Rightarrow> (w, False)
                 | Inr (b, grown) \<Rightarrow> (w\<lparr>fw_budget := b, fw_held := (fw_held w)(c := grown)\<rparr>, True))
              else (w\<lparr>fw_held := (fw_held w)(c := n), fw_returning := add_mset (old - n) (fw_returning w)\<rparr>, True))"

definition releaseInboundFrame :: "frame_world \<Rightarrow> nat \<Rightarrow> frame_world" where
  "releaseInboundFrame w c =
     w\<lparr>fw_held := (fw_held w)(c := 0), fw_delivered := (fw_delivered w)(c := False),
       fw_returning := add_mset (fw_held w c) (fw_returning w)\<rparr>"

definition markInboundFrameDelivered :: "frame_world \<Rightarrow> nat \<Rightarrow> frame_error + frame_world" where
  "markInboundFrameDelivered w c =
     (if fw_closed w c then Inl ErrNetClosed
      else if fw_held w c = 0 then Inl ErrInboundFrameNotReserved
      else Inr (w\<lparr>fw_delivered := (fw_delivered w)(c := True)\<rparr>))"

definition transport_Close :: "frame_world \<Rightarrow> nat \<Rightarrow> frame_world" where
  "transport_Close w c = w\<lparr>fw_closed := (fw_closed w)(c := True)\<rparr>"

inductive frame_step :: "frame_world \<Rightarrow> frame_world \<Rightarrow> bool" where
  reserve: "reserveInboundFrame w c wire plain = Inr w' \<Longrightarrow> frame_step w w'"
| begin_read: "frame_step w (beginInboundFrameRead w c)"
| retain: "retainInboundFrameBytes w c n = (w', ok) \<Longrightarrow> frame_step w w'"
| release_frame: "frame_step w (releaseInboundFrame w c)"
| delivered: "markInboundFrameDelivered w c = Inr w' \<Longrightarrow> frame_step w w'"
| close: "frame_step w (transport_Close w c)"
| returned: "n \<in># fw_returning w \<Longrightarrow> frame_release (fw_budget w) n = Some b \<Longrightarrow>
     frame_step w (w\<lparr>fw_budget := b, fw_returning := fw_returning w - {#n#}\<rparr>)"

inductive frame_reachable :: "int \<Rightarrow> frame_world \<Rightarrow> bool" for m where
  start: "frame_reachable m (new_frame_world m)"
| step: "frame_reachable m w \<Longrightarrow> frame_step w w' \<Longrightarrow> frame_reachable m w'"

subsection \<open>Exact accounting\<close>

definition held_total :: "(nat \<Rightarrow> int) \<Rightarrow> int" where
  "held_total h = (\<Sum>c | h c \<noteq> 0. h c)"

lemma held_total_update:
  assumes "finite {c. h c \<noteq> 0}"
  shows "held_total (h(c := n)) = held_total h - h c + n" and "finite {x. (h(c := n)) x \<noteq> 0}"
proof -
  have sub: "{x. (h(c := n)) x \<noteq> 0} \<subseteq> insert c {x. h x \<noteq> 0}" by auto
  show "finite {x. (h(c := n)) x \<noteq> 0}" by (rule finite_subset [OF sub]) (simp add: assms)
  have all: "held_total g = sum g (insert c {x. h x \<noteq> 0})" if "{x. g x \<noteq> 0} \<subseteq> insert c {x. h x \<noteq> 0}" for g
    unfolding held_total_def using that assms by (intro sum.mono_neutral_left) auto
  have "held_total (h(c := n)) = n + sum h ({x. h x \<noteq> 0} - {c})"
    using all [OF sub] assms by (simp add: sum.insert_remove del: fun_upd_apply) simp
  moreover have "held_total h = h c + sum h ({x. h x \<noteq> 0} - {c})"
    using all [of h] assms by (simp add: sum.insert_remove subset_insertI)
  ultimately show "held_total (h(c := n)) = held_total h - h c + n" by simp
qed

definition frame_inv :: "int \<Rightarrow> frame_world \<Rightarrow> bool" where
  "frame_inv m w \<longleftrightarrow>
     finite {c. fw_held w c \<noteq> 0} \<and> (\<forall>c. 0 \<le> fw_held w c) \<and> (\<forall>n \<in># fw_returning w. 0 \<le> n) \<and>
     ib_used (fw_budget w) = held_total (fw_held w) + sum_mset (fw_returning w) \<and>
     ib_used (fw_budget w) \<le> ib_max (fw_budget w) \<and> ib_max (fw_budget w) = ib_max (newInboundFrameBudget m)"

lemma grow_facts:
  assumes "growReservation b current wire plain = Inr (b', n)"
  shows "0 \<le> current \<and> n = max current (wire + plain) \<and> b' = b\<lparr>ib_used := ib_used b + (n - current)\<rparr> \<and> 0 < wire \<and> 0 \<le> plain \<and>
    (ib_used b \<le> ib_max b \<longrightarrow> ib_used b' \<le> ib_max b')"
  using assms by (auto simp: growReservation_def Let_def split: if_splits)

lemma frame_step_inv:
  assumes "frame_step w w'" "frame_inv m w"
  shows "frame_inv m w'"
  using assms
proof cases
  case (reserve c wire plain)
  then obtain b n where g: "growReservation (fw_budget w) (fw_held w c) wire plain = Inr (b, n)"
    and w': "w' = w\<lparr>fw_budget := b, fw_held := (fw_held w)(c := n)\<rparr>"
    by (auto simp: reserveInboundFrame_def split: if_splits sum.splits)
  have "finite {x. fw_held w x \<noteq> 0}" using assms(2) by (simp add: frame_inv_def)
  from held_total_update [OF this, of c n] grow_facts [OF g] assms(2) show ?thesis
    unfolding frame_inv_def w' by auto
next
  case (retain c n ok)
  note retain' = retain
  have fin: "finite {x. fw_held w x \<noteq> 0}" using assms(2) by (simp add: frame_inv_def)
  show ?thesis
  proof (cases "n > fw_held w c \<and> 0 \<le> n")
    case True
    show ?thesis
    proof (cases "growReservation (fw_budget w) (fw_held w c) n 0")
      case (Inl e)
      then show ?thesis using retain True assms(2) by (simp add: retainInboundFrameBytes_def)
    next
      case (Inr r)
      obtain b g where r: "r = (b, g)" by (cases r)
      have w': "w' = w\<lparr>fw_budget := b, fw_held := (fw_held w)(c := g)\<rparr>"
        using retain True Inr r by (simp add: retainInboundFrameBytes_def)
      from held_total_update [OF fin, of c g] grow_facts [OF Inr [unfolded r]] assms(2) show ?thesis
        unfolding frame_inv_def w' by auto
    qed
  next
    case False
    consider "n < 0" | "0 \<le> n" "n \<le> fw_held w c" using False by linarith
    then show ?thesis
    proof cases
      case 1
      then show ?thesis using retain' assms(2) by (simp add: retainInboundFrameBytes_def)
    next
      case 2
      then have w': "w' = w\<lparr>fw_held := (fw_held w)(c := n), fw_returning := add_mset (fw_held w c - n) (fw_returning w)\<rparr>"
        using retain' by (simp add: retainInboundFrameBytes_def)
      from held_total_update [OF fin, of c n] 2 assms(2) show ?thesis unfolding frame_inv_def w' by auto
    qed
  qed
next
  case (release_frame c)
  have fin: "finite {x. fw_held w x \<noteq> 0}" using assms(2) by (simp add: frame_inv_def)
  show ?thesis using assms(2) held_total_update [OF fin, of c 0] unfolding frame_inv_def release_frame(1)
    by (auto simp: releaseInboundFrame_def)
next
  case (returned n b)
  from multi_member_split [OF returned(2)] obtain M where M: "fw_returning w = add_mset n M" by blast
  show ?thesis using assms(2) returned(3) unfolding frame_inv_def returned(1) M
    by (auto simp: frame_release_def Let_def split: if_splits)
qed (use assms(2) in \<open>auto simp: frame_inv_def beginInboundFrameRead_def markInboundFrameDelivered_def transport_Close_def split: if_splits\<close>)

lemma sum_mset_nonneg_int: "(\<And>n. n \<in># M \<Longrightarrow> (0::int) \<le> n) \<Longrightarrow> 0 \<le> sum_mset M"
  by (induction M) auto

lemma frame_reachable_inv: "frame_reachable m w \<Longrightarrow> frame_inv m w"
proof (induction rule: frame_reachable.induct)
  case start
  show ?case by (simp add: frame_inv_def new_frame_world_def newInboundFrameBudget_def held_total_def defaultInboundFrameGlobalMaxBytes_def)
qed (rule frame_step_inv)

text \<open>
  C20. The inbound byte budget is exact and never overdrawn. In every state the connections can reach,
  in any interleaving, the bytes in use are the sum of what the connections hold and of what is on
  its way back, they never exceed the limit, no connection holds a negative amount, and returning an
  amount that is on its way back never panics.
\<close>

theorem frame_budget_exact:
  assumes "frame_reachable m w"
  shows "usedBytes (fw_budget w) = (\<Sum>c | fw_held w c \<noteq> 0. fw_held w c) + sum_mset (fw_returning w) \<and>
    usedBytes (fw_budget w) \<le> (if m \<le> 0 then 512 * 2 ^ 20 else m) \<and> 0 \<le> fw_held w c \<and>
    (n \<in># fw_returning w \<longrightarrow> frame_release (fw_budget w) n \<noteq> None)"
proof -
  have inv: "frame_inv m w" by (rule frame_reachable_inv [OF assms])
  have held: "0 \<le> held_total (fw_held w)" using inv unfolding frame_inv_def held_total_def by (simp add: sum_nonneg)
  have "frame_release (fw_budget w) n \<noteq> None" if n: "n \<in># fw_returning w"
  proof -
    obtain M where M: "fw_returning w = add_mset n M" using multi_member_split [OF n] by blast
    have "0 \<le> sum_mset M" using inv unfolding frame_inv_def M by (intro sum_mset_nonneg_int) auto
    then show ?thesis using inv held unfolding frame_inv_def M by (auto simp: frame_release_def Let_def)
  qed
  then show ?thesis using inv
    by (auto simp: frame_inv_def usedBytes_def held_total_def newInboundFrameBudget_def defaultInboundFrameGlobalMaxBytes_def)
qed

definition sample_frame_world :: "frame_world" where
  "sample_frame_world = fst (retainInboundFrameBytes (projr (reserveInboundFrame (new_frame_world 64) 1 12 12)) 1 16)"

lemma sample_frame_reachable: "frame_reachable 64 sample_frame_world"
proof -
  let ?w = "projr (reserveInboundFrame (new_frame_world 64) 1 12 12)"
  have "reserveInboundFrame (new_frame_world 64) 1 12 12 = Inr ?w"
    by (simp add: reserveInboundFrame_def new_frame_world_def growReservation_def newInboundFrameBudget_def)
  then have "frame_reachable 64 ?w" by (intro frame_reachable.step [OF frame_reachable.start] frame_step.reserve)
  moreover have "frame_step ?w sample_frame_world"
    unfolding sample_frame_world_def by (rule frame_step.retain) (rule prod.collapse [symmetric])
  ultimately show ?thesis by (rule frame_reachable.step)
qed

lemma frame_budget_exact_witness:
  "fw_returning sample_frame_world = {#8#} \<and> fw_held sample_frame_world 1 = 16 \<and>
   usedBytes (fw_budget sample_frame_world) = (\<Sum>c | fw_held sample_frame_world c \<noteq> 0. fw_held sample_frame_world c) + 8 \<and>
   usedBytes (fw_budget sample_frame_world) \<le> 64 \<and> frame_release (fw_budget sample_frame_world) 8 \<noteq> None"
proof -
  have s: "fw_returning sample_frame_world = {#8#}" "fw_held sample_frame_world 1 = 16"
    by (simp_all add: sample_frame_world_def retainInboundFrameBytes_def reserveInboundFrame_def new_frame_world_def
        growReservation_def newInboundFrameBudget_def)
  show ?thesis using frame_budget_exact [OF sample_frame_reachable, of 1 8] s by simp
qed

end
