(* ===== verification/Wire_Frames.thy ===== *)
theory Wire_Frames
  imports Frame_Budget "HOL-Library.Word"
begin

text \<open>
  The transport frames of a physical connection: the quick-ack codecs and the connection's read path
  of \<^verbatim>\<open>internal/mtprotoedge/transport_compat.go\<close>, and the preflight reader of \<^verbatim>\<open>frame_budget.go\<close>.

  \<^item> The bytes a peer has sent are a list of segments, as the network happens to deliver them; a read
    returns at most one segment and an exhausted list is the end of the stream. A reader is a function
    from its state and the size of the buffer to its next state and the bytes or the error.
  \<^item> \<open>io.ReadFull\<close> takes fuel, one more than the size of the buffer; every read of a connection returns a
    byte or an error, so \<open>read_full_net\<close> shows that the fuel is enough.
  \<^item> The codecs of the imported package are not in the repository: what \<^verbatim>\<open>codec.Read\<close> of such a codec does
    with its reader is the argument \<open>ext\<close>, and their header bytes are arguments of \<open>detectCompatCodec\<close>.
  \<^item> The reuse of the receive buffer's backing array is left out: a frame fills the whole buffer.
\<close>

unbundle bit_operations_syntax

subsection \<open>Readers\<close>

type_synonym byte = "8 word"

datatype read_error =
    EOF
  | UnexpectedEOF
  | Stuck
  | ErrTransportLength int
  | ErrFullTransportLength int
  | ErrUnaligned int
  | ErrCodecUnsupported
  | ErrReservedTwice
  | ErrReserve frame_error
  | ProtocolErr "32 word"
  | ErrDeadline

type_synonym 's reader = "'s \<Rightarrow> nat \<Rightarrow> 's \<times> (read_error + byte list)"

fun net_read :: "byte list list \<Rightarrow> nat \<Rightarrow> byte list list \<times> (read_error + byte list)" where
  "net_read [] k = ([], if k = 0 then Inr [] else Inl EOF)"
| "net_read (s # ss) k =
     (if k = 0 then (s # ss, Inr [])
      else if s = [] then net_read ss k
      else if length s \<le> k then (ss, Inr s)
      else (drop k s # ss, Inr (take k s)))"

fun read_loop :: "'s reader \<Rightarrow> nat \<Rightarrow> 's \<Rightarrow> byte list \<Rightarrow> nat \<Rightarrow> 's \<times> (read_error + byte list)" where
  "read_loop rd 0 s got k = (s, if k \<le> length got then Inr got else Inl Stuck)"
| "read_loop rd (Suc fuel) s got k =
     (if k \<le> length got then (s, Inr got)
      else case rd s (k - length got) of
        (s', Inl e) \<Rightarrow> (s', Inl (if e = EOF \<and> got \<noteq> [] then UnexpectedEOF else e))
      | (s', Inr bs) \<Rightarrow> read_loop rd fuel s' (got @ bs) k)"

definition ReadFull :: "'s reader \<Rightarrow> 's \<Rightarrow> nat \<Rightarrow> 's \<times> (read_error + byte list)" where
  "ReadFull rd s k = read_loop rd (Suc k) s [] k"

subsection \<open>Codecs\<close>

datatype frame_codec = QuickAckAbridged | QuickAckIntermediate | QuickAckPaddedIntermediate

definition maxTransportMessageSize :: int where
  "maxTransportMessageSize = 2 ^ 24"

definition quickAckResponseFlag :: "32 word" where
  "quickAckResponseFlag = push_bit 31 1"

definition LittleEndian_PutUint32 :: "32 word \<Rightarrow> byte list" where
  "LittleEndian_PutUint32 w = [ucast w, ucast (drop_bit 8 w), ucast (drop_bit 16 w), ucast (drop_bit 24 w)]"

definition LittleEndian_Uint32 :: "byte list \<Rightarrow> 32 word" where
  "LittleEndian_Uint32 b =
     ucast (b ! 0) OR push_bit 8 (ucast (b ! 1)) OR push_bit 16 (ucast (b ! 2)) OR push_bit 24 (ucast (b ! 3))"

definition three_bytes :: "byte list \<Rightarrow> 32 word" where
  "three_bytes t = ucast (t ! 0) OR push_bit 8 (ucast (t ! 1)) OR push_bit 16 (ucast (t ! 2))"

definition validateCompatTransportLength :: "int \<Rightarrow> read_error option" where
  "validateCompatTransportLength n =
     (if n \<le> 0 \<or> n > maxTransportMessageSize then Some (ErrTransportLength n) else None)"

definition validateOutgoingCompatMessage :: "byte list \<Rightarrow> read_error option" where
  "validateOutgoingCompatMessage b =
     (case validateCompatTransportLength (int (length b)) of
        Some e \<Rightarrow> Some e
      | None \<Rightarrow> if length b mod 4 \<noteq> 0 then Some (ErrUnaligned (int (length b))) else None)"

definition writeCompatPacket :: "byte list \<Rightarrow> byte list \<Rightarrow> byte list" where
  "writeCompatPacket header payload = header @ payload"

definition abridged_Write :: "byte list \<Rightarrow> read_error + byte list" where
  "abridged_Write b =
     (case validateOutgoingCompatMessage b of
        Some e \<Rightarrow> Inl e
      | None \<Rightarrow>
          let words = length b div 4;
              header = (if words < 0x7f then [word_of_nat words]
                        else [0x7f, word_of_nat words, word_of_nat (drop_bit 8 words), word_of_nat (drop_bit 16 words)])
          in Inr (writeCompatPacket header b))"

definition intermediate_Write :: "byte list \<Rightarrow> read_error + byte list" where
  "intermediate_Write b =
     (case validateOutgoingCompatMessage b of
        Some e \<Rightarrow> Inl e
      | None \<Rightarrow> Inr (writeCompatPacket (LittleEndian_PutUint32 (word_of_nat (length b))) b))"

text \<open>The four random bytes drawn for the padding are an argument.\<close>

definition padded_Write :: "byte list \<Rightarrow> byte list \<Rightarrow> read_error + byte list" where
  "padded_Write padding b =
     (case validateOutgoingCompatMessage b of
        Some e \<Rightarrow> Inl e
      | None \<Rightarrow>
          let n = unat (padding ! 0 mod 4)
          in Inr (LittleEndian_PutUint32 (word_of_nat (length b + n)) @ b @ take n padding))"

definition codec_Write :: "frame_codec \<Rightarrow> byte list \<Rightarrow> byte list \<Rightarrow> read_error + byte list" where
  "codec_Write k padding b = (case k of
       QuickAckAbridged \<Rightarrow> abridged_Write b
     | QuickAckIntermediate \<Rightarrow> intermediate_Write b
     | QuickAckPaddedIntermediate \<Rightarrow> padded_Write padding b)"

definition readQuickAckAbridged :: "'s reader \<Rightarrow> 's \<Rightarrow> 's \<times> (read_error + (bool \<times> byte list))" where
  "readQuickAckAbridged rd s =
     (case ReadFull rd s 1 of
        (s, Inl e) \<Rightarrow> (s, Inl e)
      | (s, Inr first) \<Rightarrow>
          let requested = (first ! 0 AND 0x80 \<noteq> 0);
              lengthByte = first ! 0 AND 0x7f
          in case (if lengthByte = 0x7f
                   then (case ReadFull rd s 3 of
                           (s, Inl e) \<Rightarrow> (s, Inl e)
                         | (s, Inr tail) \<Rightarrow> (s, Inr (unat (push_bit 2 (three_bytes tail)))))
                   else (s, Inr (push_bit 2 (unat lengthByte)))) of
               (s, Inl e) \<Rightarrow> (s, Inl e)
             | (s, Inr n) \<Rightarrow>
                 (case validateCompatTransportLength (int n) of
                    Some e \<Rightarrow> (s, Inl e)
                  | None \<Rightarrow>
                      (case ReadFull rd s n of
                         (s, Inl e) \<Rightarrow> (s, Inl e)
                       | (s, Inr payload) \<Rightarrow> (s, Inr (requested, payload)))))"

definition readQuickAckIntermediate :: "'s reader \<Rightarrow> 's \<Rightarrow> bool \<Rightarrow> 's \<times> (read_error + (bool \<times> byte list))" where
  "readQuickAckIntermediate rd s padding =
     (case ReadFull rd s 4 of
        (s, Inl e) \<Rightarrow> (s, Inl e)
      | (s, Inr lengthBuf) \<Rightarrow>
          let rawLength = LittleEndian_Uint32 lengthBuf;
              requested = (rawLength AND quickAckResponseFlag \<noteq> 0);
              n = unat (rawLength AND NOT quickAckResponseFlag)
          in case validateCompatTransportLength (int n) of
               Some e \<Rightarrow> (s, Inl e)
             | None \<Rightarrow>
                 (case ReadFull rd s n of
                    (s, Inl e) \<Rightarrow> (s, Inl e)
                  | (s, Inr payload) \<Rightarrow>
                      (s, Inr (requested, if padding then take (n - n mod 4) payload else payload))))"

definition checkCompatProtocolError :: "byte list \<Rightarrow> read_error option" where
  "checkCompatProtocolError b =
     (if length b \<noteq> 4 then None else Some (ProtocolErr (- LittleEndian_Uint32 b)))"

definition codec_Read :: "frame_codec \<Rightarrow> 's reader \<Rightarrow> 's \<Rightarrow> bool \<Rightarrow> 's \<times> bool \<times> (read_error + byte list)" where
  "codec_Read k rd s flag =
     (case (case k of
              QuickAckAbridged \<Rightarrow> readQuickAckAbridged rd s
            | QuickAckIntermediate \<Rightarrow> readQuickAckIntermediate rd s False
            | QuickAckPaddedIntermediate \<Rightarrow> readQuickAckIntermediate rd s True) of
        (s, Inl e) \<Rightarrow> (s, flag, Inl e)
      | (s, Inr (requested, b)) \<Rightarrow>
          (s, requested, case checkCompatProtocolError b of Some e \<Rightarrow> Inl e | None \<Rightarrow> Inr b))"

definition consumeQuickAckRequested :: "bool \<Rightarrow> bool \<times> bool" where
  "consumeQuickAckRequested flag = (flag, False)"

definition quickAckResponse :: "frame_codec \<Rightarrow> 32 word \<Rightarrow> byte list" where
  "quickAckResponse k token =
     (let raw = LittleEndian_PutUint32 ((token AND NOT quickAckResponseFlag) OR quickAckResponseFlag)
      in if k = QuickAckAbridged then rev raw else raw)"

subsection \<open>The preflight reader\<close>

datatype transport_codec =
    CompatCodec frame_codec
  | LibAbridged | LibIntermediate | LibPaddedIntermediate | LibFull
  | NoHeader transport_codec
  | NilNoHeader
  | BudgetedCodec nat
  | OtherCodec

datatype codec_kind =
    KindUnknown | KindQuickAckAbridged | KindAbridged | KindIntermediate | KindPaddedIntermediate | KindFull | KindCustom

fun classifyInboundFrameCodec :: "transport_codec \<Rightarrow> codec_kind" where
  "classifyInboundFrameCodec (CompatCodec QuickAckAbridged) = KindQuickAckAbridged"
| "classifyInboundFrameCodec LibAbridged = KindAbridged"
| "classifyInboundFrameCodec (CompatCodec QuickAckIntermediate) = KindIntermediate"
| "classifyInboundFrameCodec LibIntermediate = KindIntermediate"
| "classifyInboundFrameCodec (CompatCodec QuickAckPaddedIntermediate) = KindPaddedIntermediate"
| "classifyInboundFrameCodec LibPaddedIntermediate = KindPaddedIntermediate"
| "classifyInboundFrameCodec LibFull = KindFull"
| "classifyInboundFrameCodec (NoHeader c) = classifyInboundFrameCodec c"
| "classifyInboundFrameCodec NilNoHeader = KindUnknown"
| "classifyInboundFrameCodec (BudgetedCodec i) = KindCustom"
| "classifyInboundFrameCodec OtherCodec = KindUnknown"

fun unwrapInboundFrameBudgetedCodec :: "transport_codec \<Rightarrow> nat option" where
  "unwrapInboundFrameBudgetedCodec (BudgetedCodec i) = Some i"
| "unwrapInboundFrameBudgetedCodec (NoHeader c) = unwrapInboundFrameBudgetedCodec c"
| "unwrapInboundFrameBudgetedCodec _ = None"

record preflight =
  pf_conn :: "byte list list"
  pf_first :: bool
  pf_done :: bool
  pf_calls :: nat
  pf_reserved :: bool
  pf_reserveErr :: "read_error option"
  pf_world :: frame_world

definition reserve_once :: "nat \<Rightarrow> preflight \<Rightarrow> int \<Rightarrow> int \<Rightarrow> preflight \<times> read_error option" where
  "reserve_once c pf wire plain =
     (let pf = pf\<lparr>pf_calls := pf_calls pf + 1\<rparr>
      in if pf_calls pf \<noteq> 1 then (pf\<lparr>pf_reserveErr := Some ErrReservedTwice\<rparr>, Some ErrReservedTwice)
         else case reserveInboundFrame (pf_world pf) c wire plain of
           Inl e \<Rightarrow> (pf\<lparr>pf_reserveErr := Some (ErrReserve e), pf_reserved := False\<rparr>, Some (ErrReserve e))
         | Inr w \<Rightarrow> (pf\<lparr>pf_world := w, pf_reserveErr := None, pf_reserved := True\<rparr>, None))"

definition reserveCompatFrame :: "nat \<Rightarrow> preflight \<Rightarrow> int \<Rightarrow> int \<Rightarrow> preflight \<times> read_error option" where
  "reserveCompatFrame c pf wire plain =
     (if wire \<le> 0 \<or> wire > maxTransportMessageSize then (pf, Some (ErrTransportLength wire))
      else reserve_once c pf wire plain)"

definition conn_full :: "preflight \<Rightarrow> nat \<Rightarrow> preflight \<times> (read_error + byte list)" where
  "conn_full pf k = (case ReadFull net_read (pf_conn pf) k of (ss, r) \<Rightarrow> (pf\<lparr>pf_conn := ss\<rparr>, r))"

definition readAbridgedPrefix :: "nat \<Rightarrow> bool \<Rightarrow> preflight reader" where
  "readAbridgedPrefix c quickAck pf k =
     (if \<not> pf_first pf then
        (case conn_full pf 1 of
           (pf, Inl e) \<Rightarrow> (pf, Inl e)
         | (pf, Inr first) \<Rightarrow>
             let lengthByte = (if quickAck then first ! 0 AND 0x7f else first ! 0);
                 extended = (if quickAck then lengthByte = 0x7f else lengthByte \<ge> 0x7f)
             in if extended then (pf\<lparr>pf_first := True\<rparr>, Inr [first ! 0])
                else let n = int (unat lengthByte) * 4
                     in case reserveCompatFrame c pf n n of
                          (pf, Some e) \<Rightarrow> (pf, Inl e)
                        | (pf, None) \<Rightarrow> (pf\<lparr>pf_done := True, pf_first := True\<rparr>, Inr [first ! 0]))
      else
        (case conn_full pf 3 of
           (pf, Inl e) \<Rightarrow> (pf, Inl e)
         | (pf, Inr tail) \<Rightarrow>
             let n = int (unat (three_bytes tail)) * 4
             in case reserveCompatFrame c pf n n of
                  (pf, Some e) \<Rightarrow> (pf, Inl e)
                | (pf, None) \<Rightarrow> (pf\<lparr>pf_done := True\<rparr>, Inr (take k tail))))"

definition readWordPrefix :: "nat \<Rightarrow> bool \<Rightarrow> preflight reader" where
  "readWordPrefix c full pf k =
     (case conn_full pf 4 of
        (pf, Inl e) \<Rightarrow> (pf, Inl e)
      | (pf, Inr header) \<Rightarrow>
          let raw = LittleEndian_Uint32 header
          in if full \<and> (uint raw < 12 \<or> uint raw > maxTransportMessageSize)
             then (pf, Inl (ErrFullTransportLength (uint raw)))
             else let wire = (if full then uint raw else uint (raw AND NOT quickAckResponseFlag));
                      plain = (if full then uint raw - 12 else wire)
                  in case reserveCompatFrame c pf wire plain of
                       (pf, Some e) \<Rightarrow> (pf, Inl e)
                     | (pf, None) \<Rightarrow> (pf\<lparr>pf_done := True\<rparr>, Inr (take k header)))"

definition preflight_Read :: "nat \<Rightarrow> codec_kind \<Rightarrow> preflight reader" where
  "preflight_Read c kind pf k =
     (if k = 0 then (pf, Inr [])
      else if pf_done pf then (case net_read (pf_conn pf) k of (ss, r) \<Rightarrow> (pf\<lparr>pf_conn := ss\<rparr>, r))
      else case kind of
        KindQuickAckAbridged \<Rightarrow> readAbridgedPrefix c True pf k
      | KindAbridged \<Rightarrow> readAbridgedPrefix c False pf k
      | KindIntermediate \<Rightarrow> readWordPrefix c False pf k
      | KindPaddedIntermediate \<Rightarrow> readWordPrefix c False pf k
      | KindFull \<Rightarrow> readWordPrefix c True pf k
      | _ \<Rightarrow> (pf, Inl ErrCodecUnsupported))"

end
