(* ===== verification/Wire_Recv.thy ===== *)
theory Wire_Recv
  imports Wire_Frames
begin

text \<open>
  Receiving one frame on a connection (\<^verbatim>\<open>readInboundFrame\<close> and \<^verbatim>\<open>RecvDeadline\<close> of
  \<^verbatim>\<open>internal/mtprotoedge/transport_compat.go\<close>) and its reference: \<open>admitted_frame\<close> parses the bytes of the
  stream at once, with no segments, no preflight reader and no flags.
\<close>

subsection \<open>The read path\<close>

type_synonym 's codec_read = "'s reader \<Rightarrow> 's \<Rightarrow> bool \<Rightarrow> 's \<times> bool \<times> (read_error + byte list)"

text \<open>
  \<open>ext\<close> is the \<^verbatim>\<open>Read\<close> of a codec of the imported package, \<open>custom\<close> the \<^verbatim>\<open>ReadWithInboundFrameBudget\<close> of a
  codec set in the options.
\<close>

definition readInboundFrame ::
  "(transport_codec \<Rightarrow> preflight codec_read) \<Rightarrow>
   (nat \<Rightarrow> (preflight \<Rightarrow> int \<Rightarrow> int \<Rightarrow> preflight \<times> read_error option) \<Rightarrow> preflight \<Rightarrow> bool \<Rightarrow> preflight \<times> bool \<times> (read_error + byte list)) \<Rightarrow>
   nat \<Rightarrow> transport_codec \<Rightarrow> frame_world \<Rightarrow> byte list list \<Rightarrow> bool \<Rightarrow>
   frame_world \<times> byte list list \<times> bool \<times> (read_error + byte list)" where
  "readInboundFrame ext custom c codec w segs flag =
     (let kind = classifyInboundFrameCodec codec;
          pf = \<lparr>pf_conn = segs, pf_first = False, pf_done = False, pf_calls = 0, pf_reserved = False, pf_reserveErr = None, pf_world = w\<rparr>
      in if kind = KindUnknown then (w, segs, flag, Inl ErrCodecUnsupported)
         else case (if kind = KindCustom
                    then (case unwrapInboundFrameBudgetedCodec codec of
                            None \<Rightarrow> (pf, flag, Inl ErrCodecUnsupported)
                          | Some i \<Rightarrow> custom i (reserve_once c) pf flag)
                    else (case codec of
                            CompatCodec k \<Rightarrow> codec_Read k (preflight_Read c kind) pf flag
                          | _ \<Rightarrow> ext codec (preflight_Read c kind) pf flag)) of
           (pf, flag, Inl e) \<Rightarrow> (pf_world pf, pf_conn pf, flag, Inl e)
         | (pf, flag, Inr b) \<Rightarrow>
             (case pf_reserveErr pf of
                Some e \<Rightarrow> (pf_world pf, pf_conn pf, flag, Inl e)
              | None \<Rightarrow>
                  if pf_calls pf \<noteq> 1 \<or> \<not> pf_reserved pf
                  then (pf_world pf, pf_conn pf, flag, Inl (ErrReserve ErrInboundFrameNotReserved))
                  else case markInboundFrameDelivered (pf_world pf) c of
                    Inl e \<Rightarrow> (pf_world pf, pf_conn pf, flag, Inl (ErrReserve e))
                  | Inr w \<Rightarrow> (w, pf_conn pf, flag, Inr b)))"

text \<open>\<open>deadline_ok\<close> tells whether \<^verbatim>\<open>SetReadDeadline\<close> of the connection succeeded.\<close>

definition RecvDeadline where
  "RecvDeadline ext custom deadline_ok c codec w segs flag =
     (let w = beginInboundFrameRead w c
      in if \<not> deadline_ok then (releaseInboundFrame w c, segs, flag, Inl ErrDeadline)
         else case readInboundFrame ext custom c codec w segs flag of
           (w, segs, flag, Inl e) \<Rightarrow> (releaseInboundFrame w c, segs, flag, Inl e)
         | (w, segs, flag, Inr b) \<Rightarrow> (w, segs, flag, Inr b))"

definition detectCompatCodec ::
  "byte \<Rightarrow> byte list \<Rightarrow> byte list \<Rightarrow> byte list list \<Rightarrow> read_error + (transport_codec \<times> byte list list)" where
  "detectCompatCodec abridgedStart intermediateStart paddedStart segs =
     (case ReadFull net_read segs 1 of
        (segs, Inl e) \<Rightarrow> Inl e
      | (segs, Inr first) \<Rightarrow>
          if first ! 0 = abridgedStart then Inr (CompatCodec QuickAckAbridged, segs)
          else case ReadFull net_read segs 3 of
            (segs, Inl e) \<Rightarrow> Inl e
          | (segs, Inr more_bytes) \<Rightarrow>
              let buf = first @ more_bytes
              in if buf = intermediateStart then Inr (CompatCodec QuickAckIntermediate, segs)
                 else if buf = paddedStart then Inr (CompatCodec QuickAckPaddedIntermediate, segs)
                 else Inr (LibFull, buf # segs))"

subsection \<open>The reference\<close>

definition flat_take :: "nat \<Rightarrow> byte list \<Rightarrow> read_error + byte list" where
  "flat_take k bs = (if k \<le> length bs then Inr (take k bs) else Inl (if bs = [] then EOF else UnexpectedEOF))"

text \<open>The quick-ack flag, the announced length and the length of the prefix.\<close>

definition frame_prefix :: "frame_codec \<Rightarrow> byte list \<Rightarrow> read_error + (bool \<times> nat \<times> nat)" where
  "frame_prefix k bs =
     (case k of
        QuickAckAbridged \<Rightarrow>
          if bs = [] then Inl EOF
          else let q = (hd bs AND 0x80 \<noteq> 0)
               in if hd bs AND 0x7f \<noteq> 0x7f then Inr (q, 4 * unat (hd bs AND 0x7f), 1)
                  else (case flat_take 3 (tl bs) of
                          Inl e \<Rightarrow> Inl e
                        | Inr t \<Rightarrow> Inr (q, 4 * unat (three_bytes t), 4))
      | _ \<Rightarrow>
          (case flat_take 4 bs of
             Inl e \<Rightarrow> Inl e
           | Inr h \<Rightarrow> let raw = LittleEndian_Uint32 h
                      in Inr (bit raw 31, unat (raw AND NOT quickAckResponseFlag), 4)))"

definition admitted_frame ::
  "frame_world \<Rightarrow> nat \<Rightarrow> frame_codec \<Rightarrow> byte list \<Rightarrow> frame_world \<times> byte list \<times> (read_error + (bool \<times> byte list))" where
  "admitted_frame w c k bs =
     (case frame_prefix k bs of
        Inl e \<Rightarrow> (w, [], Inl e)
      | Inr (q, n, h) \<Rightarrow>
          if n = 0 \<or> 2 ^ 24 < n then (w, drop h bs, Inl (ErrTransportLength (int n)))
          else case reserveInboundFrame w c (int n) (int n) of
            Inl e \<Rightarrow> (w, drop h bs, Inl (ErrReserve e))
          | Inr w' \<Rightarrow>
              (case flat_take n (drop h bs) of
                 Inl e \<Rightarrow> (w', [], Inl e)
               | Inr p \<Rightarrow> (w', drop (h + n) bs,
                           Inr (q, if k = QuickAckPaddedIntermediate then take (n - n mod 4) p else p))))"

subsection \<open>Reading a stream of segments\<close>

lemma net_read_step:
  assumes "0 < k"
  shows "(concat ss = [] \<and> net_read ss k = ([], Inl EOF)) \<or>
    (\<exists>ss' bs. net_read ss k = (ss', Inr bs) \<and> bs \<noteq> [] \<and> length bs \<le> k \<and> concat ss = bs @ concat ss')"
  using assms
proof (induction ss)
  case (Cons s ss)
  consider "s = []" | "s \<noteq> []" "length s \<le> k" | "s \<noteq> []" "\<not> length s \<le> k" by blast
  then show ?case
  proof cases
    case 3
    then show ?thesis using Cons.prems
      by (intro disjI2 exI [of _ "drop k s # ss"] exI [of _ "take k s"]) (auto simp flip: append_assoc)
  qed (use Cons in auto)
qed simp

lemma read_loop_net:
  assumes "length got \<le> k" "k - length got < fuel"
  shows "\<exists>ss'. read_loop net_read fuel ss got k =
      (ss', if k - length got \<le> length (concat ss) then Inr (got @ take (k - length got) (concat ss))
            else Inl (if got = [] \<and> concat ss = [] then EOF else UnexpectedEOF)) \<and>
    concat ss' = drop (k - length got) (concat ss)"
  using assms
proof (induction fuel arbitrary: ss got)
  case (Suc fuel)
  show ?case
  proof (cases "k \<le> length got")
    case False
    from net_read_step [of "k - length got" ss] False
    consider "concat ss = []" "net_read ss (k - length got) = ([], Inl EOF)"
      | ss' bs where "net_read ss (k - length got) = (ss', Inr bs)" "bs \<noteq> []" "length bs \<le> k - length got"
          "concat ss = bs @ concat ss'" by auto
    then show ?thesis
    proof cases
      case 1
      then show ?thesis using False by (simp del: concat_eq_Nil_conv)
    next
      case 2
      have "length (got @ bs) \<le> k" "k - length (got @ bs) < fuel"
        using 2 Suc.prems False length_greater_0_conv [of bs] unfolding length_append by linarith+
      from Suc.IH [OF this, of ss'] show ?thesis using 2 False by (auto simp: diff_diff_left)
    qed
  qed (use Suc.prems in simp)
qed simp

lemma ReadFull_net:
  obtains ss' where "ReadFull net_read ss k = (ss', flat_take k (concat ss))" "concat ss' = drop k (concat ss)"
  using read_loop_net [of "[]" k "Suc k" ss] unfolding ReadFull_def flat_take_def by auto

lemma read_full_net: "snd (ReadFull net_read ss k) \<noteq> Inl Stuck"
  by (rule ReadFull_net [of ss k]) (auto simp: flat_take_def)

lemma conn_full_flat:
  obtains ss' where "conn_full pf k = (pf\<lparr>pf_conn := ss'\<rparr>, flat_take k (concat (pf_conn pf)))"
    "concat ss' = drop k (concat (pf_conn pf))"
  by (rule ReadFull_net [of "pf_conn pf" k]) (auto simp: conn_full_def)

lemma ReadFull_one:
  "0 < k \<Longrightarrow> rd s k = (s', Inl e) \<Longrightarrow> ReadFull rd s k = (s', Inl e)"
  "0 < k \<Longrightarrow> rd s k = (s', Inr bs) \<Longrightarrow> k \<le> length bs \<Longrightarrow> ReadFull rd s k = (s', Inr bs)"
  unfolding ReadFull_def by (cases k; simp)+

lemma read_loop_done:
  "pf_done pf \<Longrightarrow> read_loop (preflight_Read c kind) fuel pf got k =
     (case read_loop net_read fuel (pf_conn pf) got k of (ss, r) \<Rightarrow> (pf\<lparr>pf_conn := ss\<rparr>, r))"
proof (induction fuel arbitrary: pf got)
  case (Suc fuel)
  then show ?case
    by (auto simp: preflight_Read_def split: prod.splits sum.splits)
qed simp

lemma ReadFull_done: "pf_done pf \<Longrightarrow> ReadFull (preflight_Read c kind) pf k = conn_full pf k"
  unfolding ReadFull_def conn_full_def by (rule read_loop_done)

subsection \<open>Lengths on the wire\<close>

lemma three_bytes_less: "unat (three_bytes t) < 2 ^ 24"
proof -
  have "take_bit 24 (three_bytes t) = three_bytes t"
    by (rule bit_word_eqI) (auto simp: three_bytes_def bit_simps dest: bit_imp_le_length)
  then have "unat (three_bytes t) = take_bit 24 (unat (three_bytes t))" by (simp flip: unsigned_take_bit_eq)
  then show ?thesis by (metis take_bit_nat_less_exp)
qed

lemma three_bytes_words: "unat (push_bit 2 (three_bytes t)) = 4 * unat (three_bytes t)"
  using three_bytes_less [of t] by (simp add: push_bit_eq_mult unat_mult_lem [THEN iffD1] unat_word_ariths)

lemma bit_quickAckResponseFlag [simp]: "bit quickAckResponseFlag n \<longleftrightarrow> n = 31"
proof -
  have "bit quickAckResponseFlag n \<longleftrightarrow> 31 \<le> n \<and> n < 32 \<and> n - 31 = 0"
    unfolding quickAckResponseFlag_def bit_push_bit_iff bit_1_iff by auto
  then show ?thesis by linarith
qed

lemma quick_flag: "(w AND quickAckResponseFlag \<noteq> 0) = bit w 31"
proof -
  have "w AND quickAckResponseFlag = (if bit w 31 then quickAckResponseFlag else 0)"
    by (rule bit_word_eqI) (auto simp: bit_simps)
  moreover have "quickAckResponseFlag \<noteq> 0" by (simp add: quickAckResponseFlag_def)
  ultimately show ?thesis by simp
qed

end
