(* ===== verification/Wire_Theorems.thy ===== *)
theory Wire_Theorems
  imports Wire_Recv
begin

text \<open>
  What a connection receives: the read path through the preflight reader computes \<open>admitted_frame\<close>
  whatever the segments are, and what one of the codecs writes is received unchanged.
\<close>

subsection \<open>The read path computes the reference\<close>

definition fresh_preflight :: "preflight \<Rightarrow> bool" where
  "fresh_preflight pf \<longleftrightarrow> \<not> pf_first pf \<and> \<not> pf_done pf \<and> pf_calls pf = 0"

definition read_outcome ::
  "preflight \<Rightarrow> nat \<Rightarrow> frame_codec \<Rightarrow> preflight \<times> (read_error + (bool \<times> byte list)) \<Rightarrow> bool" where
  "read_outcome pf c k out \<longleftrightarrow>
     admitted_frame (pf_world pf) c k (concat (pf_conn pf)) = (pf_world (fst out), concat (pf_conn (fst out)), snd out) \<and>
     (isl (snd out) \<or> pf_calls (fst out) = 1 \<and> pf_reserved (fst out) \<and> pf_reserveErr (fst out) = None)"

lemma reserveCompatFrame_fresh:
  "pf_calls pf = 0 \<Longrightarrow> reserveCompatFrame c pf n n' =
     (if n \<le> 0 \<or> 2 ^ 24 < n then (pf, Some (ErrTransportLength n))
      else case reserveInboundFrame (pf_world pf) c n n' of
        Inl e \<Rightarrow> (pf\<lparr>pf_calls := 1, pf_reserveErr := Some (ErrReserve e), pf_reserved := False\<rparr>, Some (ErrReserve e))
      | Inr w \<Rightarrow> (pf\<lparr>pf_calls := 1, pf_world := w, pf_reserveErr := None, pf_reserved := True\<rparr>, None))"
  by (simp add: reserveCompatFrame_def reserve_once_def maxTransportMessageSize_def split: sum.splits)

lemma flat_take_Inl: "flat_take k bs = Inl e \<Longrightarrow> drop k bs = []"
  by (simp add: flat_take_def split: if_splits)

lemma flat_take_Inr: "flat_take k bs = Inr p \<Longrightarrow> p = take k bs \<and> k \<le> length bs"
  by (simp add: flat_take_def split: if_splits)

lemma payload_outcome:
  assumes "pf_done pf1" "concat (pf_conn pf1) = drop h bs"
  obtains pf2 where "ReadFull (preflight_Read c kind) pf1 n = (pf2, flat_take n (drop h bs))"
    "pf_world pf2 = pf_world pf1" "pf_calls pf2 = pf_calls pf1" "pf_reserved pf2 = pf_reserved pf1"
    "pf_reserveErr pf2 = pf_reserveErr pf1" "concat (pf_conn pf2) = drop (h + n) bs"
  by (rule conn_full_flat [of pf1 n]) (use assms in \<open>auto simp: ReadFull_done add.commute\<close>)

definition frame_payload :: "preflight reader \<Rightarrow> frame_codec \<Rightarrow> bool \<Rightarrow> nat \<Rightarrow> preflight \<Rightarrow> preflight \<times> (read_error + (bool \<times> byte list))" where
  "frame_payload rd k q n pf =
     (case validateCompatTransportLength (int n) of
        Some e \<Rightarrow> (pf, Inl e)
      | None \<Rightarrow>
          (case ReadFull rd pf n of
             (pf, Inl e) \<Rightarrow> (pf, Inl e)
           | (pf, Inr p) \<Rightarrow> (pf, Inr (q, if k = QuickAckPaddedIntermediate then take (n - n mod 4) p else p))))"

lemma reserved_outcome:
  assumes prefix: "frame_prefix k (concat (pf_conn pf)) = Inr (q, n, h)"
    and pf1: "concat (pf_conn pf1) = drop h (concat (pf_conn pf))" "pf_world pf1 = pf_world pf" "pf_calls pf1 = 0"
    and g: "\<And>s. pf_done (g s) \<and> pf_conn (g s) = pf_conn s \<and> pf_world (g s) = pf_world s \<and> pf_calls (g s) = pf_calls s \<and>
      pf_reserved (g s) = pf_reserved s \<and> pf_reserveErr (g s) = pf_reserveErr s"
  shows "read_outcome pf c k
    (case reserveCompatFrame c pf1 (int n) (int n) of
       (s, Some e) \<Rightarrow> (s, Inl e) | (s, None) \<Rightarrow> frame_payload (preflight_Read c kind) k q n (g s))"
proof (cases "n = 0 \<or> 2 ^ 24 < n")
  case True
  then have "int n \<le> 0 \<or> 2 ^ 24 < int n" by auto
  then show ?thesis using True prefix pf1
    by (simp only: read_outcome_def admitted_frame_def reserveCompatFrame_fresh if_True) simp
next
  case False
  then have good: "\<not> (int n \<le> 0 \<or> 2 ^ 24 < int n)" by simp
  show ?thesis
  proof (cases "reserveInboundFrame (pf_world pf) c (int n) (int n)")
    case (Inl e)
    then show ?thesis using False good prefix pf1
      by (simp only: read_outcome_def admitted_frame_def reserveCompatFrame_fresh if_False) simp
  next
    case (Inr w)
    let ?s = "pf1\<lparr>pf_calls := 1, pf_world := w, pf_reserveErr := None, pf_reserved := True\<rparr>"
    have res: "reserveCompatFrame c pf1 (int n) (int n) = (?s, None)"
      using Inr good pf1 by (simp only: reserveCompatFrame_fresh if_False) simp
    have conn: "concat (pf_conn (g ?s)) = drop h (concat (pf_conn pf))" and don: "pf_done (g ?s)" using g [of ?s] pf1 by simp_all
    obtain pf2 where pf2: "ReadFull (preflight_Read c kind) (g ?s) n = (pf2, flat_take n (drop h (concat (pf_conn pf))))"
        "pf_world pf2 = w" "pf_calls pf2 = 1" "pf_reserved pf2" "pf_reserveErr pf2 = None"
        "concat (pf_conn pf2) = drop (h + n) (concat (pf_conn pf))"
      by (rule payload_outcome [OF don conn, of c kind n]) (use g [of ?s] in simp)
    have valid: "validateCompatTransportLength (int n) = None"
      using good by (simp add: validateCompatTransportLength_def maxTransportMessageSize_def)
    show ?thesis
    proof (cases "flat_take n (drop h (concat (pf_conn pf)))")
      case p: (Inl e)
      have "drop (h + n) (concat (pf_conn pf)) = []" using flat_take_Inl [OF p] by (simp add: add.commute)
      then show ?thesis using False prefix Inr pf2 p valid
        by (simp add: read_outcome_def admitted_frame_def res frame_payload_def)
    next
      case p: (Inr p)
      then show ?thesis using False prefix Inr pf2 valid
        by (simp add: read_outcome_def admitted_frame_def res frame_payload_def)
    qed
  qed
qed

lemma word_prefix:
  assumes "k \<noteq> QuickAckAbridged"
  shows "frame_prefix k bs = (case flat_take 4 bs of Inl e \<Rightarrow> Inl e
      | Inr h \<Rightarrow> Inr (bit (LittleEndian_Uint32 h) 31, unat (LittleEndian_Uint32 h AND NOT quickAckResponseFlag), 4))"
  using assms by (cases k) (simp_all add: frame_prefix_def Let_def split: sum.splits)

lemma word_outcome:
  assumes "fresh_preflight pf" "kind = KindIntermediate \<or> kind = KindPaddedIntermediate" "k \<noteq> QuickAckAbridged"
  shows "read_outcome pf c k (readQuickAckIntermediate (preflight_Read c kind) pf (k = QuickAckPaddedIntermediate))"
proof -
  let ?bs = "concat (pf_conn pf)"
  obtain ss where cf: "conn_full pf 4 = (pf\<lparr>pf_conn := ss\<rparr>, flat_take 4 ?bs)" and ss: "concat ss = drop 4 ?bs"
    by (rule conn_full_flat)
  have rd: "preflight_Read c kind pf 4 = readWordPrefix c False pf 4"
    using assms by (auto simp: preflight_Read_def fresh_preflight_def)
  note prefix = word_prefix [OF assms(3), of ?bs]
  show ?thesis
  proof (cases "flat_take 4 ?bs")
    case (Inl e)
    then have "ReadFull (preflight_Read c kind) pf 4 = (pf\<lparr>pf_conn := ss\<rparr>, Inl e)"
      by (intro ReadFull_one) (simp_all add: rd readWordPrefix_def cf)
    then show ?thesis using Inl prefix ss flat_take_Inl [OF Inl]
      by (simp add: read_outcome_def readQuickAckIntermediate_def admitted_frame_def)
  next
    case (Inr h)
    define raw where "raw = LittleEndian_Uint32 h"
    define n where "n = unat (raw AND NOT quickAckResponseFlag)"
    let ?res = "reserveCompatFrame c (pf\<lparr>pf_conn := ss\<rparr>) (int n) (int n)"
    have un: "uint (raw AND NOT quickAckResponseFlag) = int n" unfolding n_def by (rule uint_nat)
    have h: "length h = 4" using flat_take_Inr [OF Inr] by simp
    have "readWordPrefix c False pf 4 =
        (case ?res of (pf, Some e) \<Rightarrow> (pf, Inl e) | (pf, None) \<Rightarrow> (pf\<lparr>pf_done := True\<rparr>, Inr h))"
      using cf Inr h by (simp add: readWordPrefix_def Let_def flip: un raw_def split: prod.splits option.splits)
    then have "ReadFull (preflight_Read c kind) pf 4 =
        (case ?res of (pf, Some e) \<Rightarrow> (pf, Inl e) | (pf, None) \<Rightarrow> (pf\<lparr>pf_done := True\<rparr>, Inr h))"
      using h by (cases "snd ?res"; cases ?res) (simp_all add: rd ReadFull_one)
    then have "readQuickAckIntermediate (preflight_Read c kind) pf (k = QuickAckPaddedIntermediate) =
        (case ?res of (s, Some e) \<Rightarrow> (s, Inl e)
         | (s, None) \<Rightarrow> frame_payload (preflight_Read c kind) k (bit raw 31) n (s\<lparr>pf_done := True\<rparr>))"
      by (cases "snd ?res"; cases ?res)
        (simp_all add: readQuickAckIntermediate_def frame_payload_def quick_flag un Let_def flip: raw_def n_def split: option.splits prod.splits sum.splits)
    also have "read_outcome pf c k \<dots>"
      by (rule reserved_outcome [where h = 4]) (use prefix Inr ss assms(1) in \<open>simp_all add: fresh_preflight_def raw_def n_def\<close>)
    finally show ?thesis .
  qed
qed

lemma abridged_outcome:
  assumes "fresh_preflight pf"
  shows "read_outcome pf c QuickAckAbridged (readQuickAckAbridged (preflight_Read c KindQuickAckAbridged) pf)"
proof -
  let ?rd = "preflight_Read c KindQuickAckAbridged" and ?bs = "concat (pf_conn pf)"
  obtain ss where cf: "conn_full pf 1 = (pf\<lparr>pf_conn := ss\<rparr>, flat_take 1 ?bs)" and ss: "concat ss = drop 1 ?bs"
    by (rule conn_full_flat)
  have rd: "?rd pf 1 = readAbridgedPrefix c True pf 1"
    using assms by (auto simp: preflight_Read_def fresh_preflight_def)
  show ?thesis
  proof (cases ?bs)
    case Nil
    have "flat_take 1 ?bs = Inl EOF" unfolding Nil by (simp add: flat_take_def)
    then have "ReadFull ?rd pf 1 = (pf\<lparr>pf_conn := ss\<rparr>, Inl EOF)"
      using cf assms by (intro ReadFull_one) (simp_all add: rd readAbridgedPrefix_def fresh_preflight_def del: One_nat_def)
    then show ?thesis using Nil ss
      by (simp add: read_outcome_def readQuickAckAbridged_def admitted_frame_def frame_prefix_def del: concat_eq_Nil_conv)
  next
    case (Cons b bs)
    have ft: "flat_take 1 ?bs = Inr [b]" using Cons by (simp add: flat_take_def)
    define q where "q = (b AND 0x80 \<noteq> 0)"
    show ?thesis
    proof (cases "b AND 0x7f = 0x7f")
      case False
      define n where "n = push_bit 2 (unat (b AND 0x7f))"
      let ?res = "reserveCompatFrame c (pf\<lparr>pf_conn := ss\<rparr>) (int n) (int n)"
      have n: "uint (b AND 0x7f) * 4 = int n" by (simp add: n_def push_bit_eq_mult)
      have "readAbridgedPrefix c True pf 1 =
          (case ?res of (pf, Some e) \<Rightarrow> (pf, Inl e) | (pf, None) \<Rightarrow> (pf\<lparr>pf_done := True, pf_first := True\<rparr>, Inr [b]))"
        using cf ft False assms by (simp add: readAbridgedPrefix_def fresh_preflight_def Let_def n split: prod.splits option.splits)
      then have "ReadFull ?rd pf 1 =
          (case ?res of (pf, Some e) \<Rightarrow> (pf, Inl e) | (pf, None) \<Rightarrow> (pf\<lparr>pf_done := True, pf_first := True\<rparr>, Inr [b]))"
        by (cases "snd ?res"; cases ?res) (simp_all add: ReadFull_one rd del: One_nat_def)
      then have "readQuickAckAbridged ?rd pf =
          (case ?res of (s, Some e) \<Rightarrow> (s, Inl e)
           | (s, None) \<Rightarrow> frame_payload ?rd QuickAckAbridged q n (s\<lparr>pf_done := True, pf_first := True\<rparr>))"
        using False by (cases "snd ?res"; cases ?res)
          (simp_all add: readQuickAckAbridged_def frame_payload_def Let_def flip: q_def n_def split: option.splits prod.splits sum.splits)
      also have "read_outcome pf c QuickAckAbridged \<dots>"
        by (rule reserved_outcome [where h = 1])
          (use Cons ss False assms in \<open>simp_all add: fresh_preflight_def q_def n_def frame_prefix_def push_bit_eq_mult\<close>)
      finally show ?thesis .
    next
      case True
      let ?pf1 = "pf\<lparr>pf_conn := ss, pf_first := True\<rparr>"
      have "?rd pf 1 = (?pf1, Inr [b])"
        unfolding rd using cf ft True assms by (simp add: readAbridgedPrefix_def fresh_preflight_def Let_def)
      then have first: "ReadFull ?rd pf 1 = (?pf1, Inr [b])" by (intro ReadFull_one) simp_all
      have rd3: "?rd ?pf1 3 = readAbridgedPrefix c True ?pf1 3" using assms by (simp add: preflight_Read_def fresh_preflight_def)
      obtain tt where ct: "conn_full ?pf1 3 = (?pf1\<lparr>pf_conn := tt\<rparr>, flat_take 3 bs)" and tt: "concat tt = drop 3 bs"
        by (rule conn_full_flat [of ?pf1 3]) (use Cons ss in simp)
      show ?thesis
      proof (cases "flat_take 3 bs")
        case (Inl e)
        then have "ReadFull ?rd ?pf1 3 = (?pf1\<lparr>pf_conn := tt\<rparr>, Inl e)"
          using ct by (intro ReadFull_one) (simp_all add: rd3 readAbridgedPrefix_def)
        then show ?thesis using Inl True first Cons tt flat_take_Inl [OF Inl]
          by (simp add: read_outcome_def readQuickAckAbridged_def admitted_frame_def frame_prefix_def)
      next
        case (Inr t)
        define n where "n = unat (push_bit 2 (three_bytes t))"
        let ?res = "reserveCompatFrame c (?pf1\<lparr>pf_conn := tt\<rparr>) (int n) (int n)"
        have n: "uint (three_bytes t) * 4 = int n" by (simp add: n_def three_bytes_words)
        have t: "length t = 3" using flat_take_Inr [OF Inr] by simp
        have "readAbridgedPrefix c True ?pf1 3 =
            (case ?res of (pf, Some e) \<Rightarrow> (pf, Inl e) | (pf, None) \<Rightarrow> (pf\<lparr>pf_done := True\<rparr>, Inr t))"
          using ct Inr t by (simp add: readAbridgedPrefix_def Let_def n split: prod.splits option.splits)
        then have "ReadFull ?rd ?pf1 3 =
            (case ?res of (pf, Some e) \<Rightarrow> (pf, Inl e) | (pf, None) \<Rightarrow> (pf\<lparr>pf_done := True\<rparr>, Inr t))"
          using t by (cases "snd ?res"; cases ?res) (simp_all add: rd3 ReadFull_one)
        then have "readQuickAckAbridged ?rd pf =
            (case ?res of (s, Some e) \<Rightarrow> (s, Inl e)
             | (s, None) \<Rightarrow> frame_payload ?rd QuickAckAbridged q n (s\<lparr>pf_done := True\<rparr>))"
          using True first by (cases "snd ?res"; cases ?res)
            (simp_all add: readQuickAckAbridged_def frame_payload_def Let_def flip: q_def n_def split: option.splits prod.splits sum.splits)
        also have "read_outcome pf c QuickAckAbridged \<dots>"
          by (rule reserved_outcome [where h = 4])
            (use Cons tt True Inr assms in \<open>simp_all add: fresh_preflight_def q_def n_def frame_prefix_def three_bytes_words\<close>)
        finally show ?thesis .
      qed
    qed
  qed
qed

subsection \<open>Receiving a frame\<close>

definition received_frame ::
  "frame_world \<Rightarrow> nat \<Rightarrow> frame_codec \<Rightarrow> byte list \<Rightarrow> bool \<Rightarrow> frame_world \<times> byte list \<times> bool \<times> (read_error + byte list)" where
  "received_frame w c k bs flag =
     (case admitted_frame (beginInboundFrameRead w c) c k bs of
        (w, rest, Inl e) \<Rightarrow> (releaseInboundFrame w c, rest, flag, Inl e)
      | (w, rest, Inr (q, b)) \<Rightarrow>
          (case checkCompatProtocolError b of
             Some e \<Rightarrow> (releaseInboundFrame w c, rest, q, Inl e)
           | None \<Rightarrow> (w\<lparr>fw_delivered := (fw_delivered w)(c := True)\<rparr>, rest, q, Inr b)))"

lemma reserved_deliverable:
  assumes "reserveInboundFrame w c n n = Inr w'"
  shows "markInboundFrameDelivered w' c = Inr (w'\<lparr>fw_delivered := (fw_delivered w')(c := True)\<rparr>) \<and> 2 * n \<le> fw_held w' c"
  using assms grow_facts [of "fw_budget w" "fw_held w c" n n]
  by (fastforce simp: reserveInboundFrame_def markInboundFrameDelivered_def split: if_splits sum.splits)

lemma admitted_deliverable:
  assumes "admitted_frame w c k bs = (w', rest, Inr x)"
  shows "markInboundFrameDelivered w' c = Inr (w'\<lparr>fw_delivered := (fw_delivered w')(c := True)\<rparr>)"
  using assms reserved_deliverable [of w c]
  by (auto simp: admitted_frame_def split: sum.splits if_splits)

lemma codec_outcome:
  assumes "fresh_preflight pf"
  obtains pf' r where "codec_Read k (preflight_Read c (classifyInboundFrameCodec (CompatCodec k))) pf flag =
      (pf', case r of Inl e \<Rightarrow> (flag, Inl e) | Inr (q, b) \<Rightarrow> (q, case checkCompatProtocolError b of Some e \<Rightarrow> Inl e | None \<Rightarrow> Inr b))"
    "read_outcome pf c k (pf', r)"
proof (cases k)
  case QuickAckAbridged
  show ?thesis
    by (rule that [of "fst (readQuickAckAbridged (preflight_Read c KindQuickAckAbridged) pf)" "snd (readQuickAckAbridged (preflight_Read c KindQuickAckAbridged) pf)"])
      (use QuickAckAbridged abridged_outcome [OF assms, of c] in \<open>auto simp: codec_Read_def split: prod.splits sum.splits\<close>)
next
  case QuickAckIntermediate
  show ?thesis
    by (rule that [of "fst (readQuickAckIntermediate (preflight_Read c KindIntermediate) pf False)" "snd (readQuickAckIntermediate (preflight_Read c KindIntermediate) pf False)"])
      (use QuickAckIntermediate word_outcome [OF assms, of KindIntermediate k c] in \<open>auto simp: codec_Read_def split: prod.splits sum.splits\<close>)
next
  case QuickAckPaddedIntermediate
  show ?thesis
    by (rule that [of "fst (readQuickAckIntermediate (preflight_Read c KindPaddedIntermediate) pf True)" "snd (readQuickAckIntermediate (preflight_Read c KindPaddedIntermediate) pf True)"])
      (use QuickAckPaddedIntermediate word_outcome [OF assms, of KindPaddedIntermediate k c] in \<open>auto simp: codec_Read_def split: prod.splits sum.splits\<close>)
qed

lemma recv_flat:
  obtains segs' where "RecvDeadline ext custom True c (CompatCodec k) w segs flag =
      (case received_frame w c k (concat segs) flag of (w', rest, flag', r) \<Rightarrow> (w', segs', flag', r))"
    "concat segs' = fst (snd (received_frame w c k (concat segs) flag))"
proof -
  let ?w = "beginInboundFrameRead w c"
  let ?pf = "\<lparr>pf_conn = segs, pf_first = False, pf_done = False, pf_calls = 0, pf_reserved = False, pf_reserveErr = None, pf_world = ?w\<rparr>"
  have "fresh_preflight ?pf" by (simp add: fresh_preflight_def)
  from codec_outcome [OF this, of k c flag] obtain pf' r where
    cr: "codec_Read k (preflight_Read c (classifyInboundFrameCodec (CompatCodec k))) ?pf flag =
      (pf', case r of Inl e \<Rightarrow> (flag, Inl e) | Inr (q, b) \<Rightarrow> (q, case checkCompatProtocolError b of Some e \<Rightarrow> Inl e | None \<Rightarrow> Inr b))"
    and out: "read_outcome ?pf c k (pf', r)" by blast
  have kinds: "classifyInboundFrameCodec (CompatCodec k) \<noteq> KindUnknown \<and> classifyInboundFrameCodec (CompatCodec k) \<noteq> KindCustom"
    by (cases k) simp_all
  have adm: "admitted_frame ?w c k (concat segs) = (pf_world pf', concat (pf_conn pf'), r)"
    using out by (simp add: read_outcome_def)
  show ?thesis
  proof (rule that [of "pf_conn pf'"])
    show "concat (pf_conn pf') = fst (snd (received_frame w c k (concat segs) flag))"
      by (simp add: received_frame_def adm split: sum.splits option.splits)
    show "RecvDeadline ext custom True c (CompatCodec k) w segs flag =
        (case received_frame w c k (concat segs) flag of (w', rest, flag', r) \<Rightarrow> (w', pf_conn pf', flag', r))"
    proof (cases r)
      case (Inl e)
      then show ?thesis using kinds cr
        by (simp add: RecvDeadline_def readInboundFrame_def received_frame_def adm Let_def)
    next
      case (Inr x)
      obtain q b where x: "x = (q, b)" by (cases x)
      have got: "pf_calls pf' = 1" "pf_reserved pf'" "pf_reserveErr pf' = None" using out Inr by (simp_all add: read_outcome_def)
      show ?thesis using kinds cr Inr x got admitted_deliverable [OF adm [unfolded Inr]]
        by (cases "checkCompatProtocolError b") (simp_all add: RecvDeadline_def readInboundFrame_def received_frame_def adm Let_def)
    qed
  qed
qed

subsection \<open>Writing a frame\<close>

lemma bit_80 [simp]: "bit (0x80 :: byte) n \<longleftrightarrow> n = 7"
proof -
  have "(0x80 :: byte) = push_bit 7 1" by simp
  then show ?thesis unfolding bit_push_bit_iff bit_1_iff by (simp only: bit_push_bit_iff bit_1_iff) auto
qed

lemma ack_bit: "(b AND 0x80 \<noteq> 0) = bit b 7" for b :: byte
  using and_exp_eq_0_iff_not_bit [of b 7] by simp

lemma low_bits: "b AND 0x7f = take_bit 7 b" for b :: byte
  using take_bit_eq_mask [of 7 b] by (simp add: mask_eq_exp_minus_1)

lemma abridged_byte:
  assumes "n < 128"
  shows "unat ((if q then word_of_nat n OR 0x80 else word_of_nat n) AND 0x7f :: byte) = n"
    and "((if q then word_of_nat n OR 0x80 else word_of_nat n) AND 0x80 \<noteq> (0 :: byte)) = q"
proof -
  let ?b = "if q then word_of_nat n OR 0x80 else word_of_nat n :: byte"
  have "take_bit 7 ?b = take_bit 7 (word_of_nat n)"
    by (rule bit_word_eqI) (auto simp: bit_simps simp del: bit_numeral_word_iff)
  then have "unat (take_bit 7 ?b) = take_bit 7 (unat (word_of_nat n :: byte))"
    by (simp only: unsigned_take_bit_eq)
  also have "\<dots> = n" using assms by (simp add: unat_of_nat take_bit_eq_mod)
  finally show "unat ((if q then word_of_nat n OR 0x80 else word_of_nat n) AND 0x7f :: byte) = n" by (simp only: low_bits)
  have "\<not> bit (word_of_nat n :: byte) 7" using assms by (simp only: bit_of_nat_iff) (simp add: bit_iff_odd)
  then show "((if q then word_of_nat n OR 0x80 else word_of_nat n) AND 0x80 \<noteq> (0 :: byte)) = q"
    unfolding ack_bit by (simp add: bit_or_iff)
qed

lemma three_bytes_encode:
  assumes "n < 2 ^ 24"
  shows "unat (three_bytes [word_of_nat n, word_of_nat (drop_bit 8 n), word_of_nat (drop_bit 16 n)]) = n"
proof -
  have "three_bytes [word_of_nat n, word_of_nat (drop_bit 8 n), word_of_nat (drop_bit 16 n)] = take_bit 24 (word_of_nat n)"
  proof (rule bit_word_eqI)
    fix m assume "m < LENGTH(32)"
    then consider "m < 8" | "8 \<le> m \<and> m < 16" | "16 \<le> m \<and> m < 24" | "24 \<le> m \<and> m < 32" by (simp, linarith)
    then show "bit (three_bytes [word_of_nat n, word_of_nat (drop_bit 8 n), word_of_nat (drop_bit 16 n)]) m \<longleftrightarrow>
        bit (take_bit 24 (word_of_nat n :: 32 word)) m"
      by cases (auto simp: three_bytes_def bit_simps)
  qed
  then have "unat (three_bytes [word_of_nat n, word_of_nat (drop_bit 8 n), word_of_nat (drop_bit 16 n)]) =
      take_bit 24 (unat (word_of_nat n :: 32 word))"
    by (simp only: unsigned_take_bit_eq)
  then show ?thesis using assms by (simp add: unat_of_nat take_bit_eq_mod)
qed

lemma little_endian_encode:
  "LittleEndian_Uint32 ((LittleEndian_PutUint32 w)[3 := if q then LittleEndian_PutUint32 w ! 3 OR 0x80 else LittleEndian_PutUint32 w ! 3]) =
     (if q then w OR quickAckResponseFlag else w)"
proof (rule bit_word_eqI)
  fix m assume "m < LENGTH(32)"
  then consider "m < 8" | "8 \<le> m \<and> m < 16" | "16 \<le> m \<and> m < 24" | "24 \<le> m \<and> m < 32" by (simp, linarith)
  then show "bit (LittleEndian_Uint32 ((LittleEndian_PutUint32 w)[3 := if q then LittleEndian_PutUint32 w ! 3 OR 0x80 else LittleEndian_PutUint32 w ! 3])) m \<longleftrightarrow>
      bit (if q then w OR quickAckResponseFlag else w) m"
    by cases (auto simp: LittleEndian_Uint32_def LittleEndian_PutUint32_def bit_simps simp del: bit_numeral_word_iff)
qed

definition request_quick_ack :: "bool \<Rightarrow> frame_codec \<Rightarrow> byte list \<Rightarrow> byte list" where
  "request_quick_ack q k bytes =
     (if \<not> q then bytes
      else if k = QuickAckAbridged then bytes[0 := bytes ! 0 OR 0x80]
      else bytes[3 := bytes ! 3 OR 0x80])"

definition padding_of :: "frame_codec \<Rightarrow> byte list \<Rightarrow> nat" where
  "padding_of k padding = (if k = QuickAckPaddedIntermediate then unat (padding ! 0 mod 4) else 0)"

lemma padding_less: "padding_of k padding < 4"
proof -
  have "padding ! 0 mod 4 < 4" by (rule word_mod_less_divisor) simp
  then show ?thesis by (simp add: padding_of_def word_less_nat_alt)
qed

lemma valid_message:
  "validateOutgoingCompatMessage msg = None \<longleftrightarrow> msg \<noteq> [] \<and> length msg \<le> 2 ^ 24 \<and> length msg mod 4 = 0"
  by (auto simp: validateOutgoingCompatMessage_def validateCompatTransportLength_def maxTransportMessageSize_def)

lemma word_header:
  assumes "n \<le> 2 ^ 24" "bytes = LittleEndian_PutUint32 (word_of_nat n) @ payload" "k \<noteq> QuickAckAbridged"
  shows "frame_prefix k (request_quick_ack q k bytes @ rest) = Inr (q, n, 4)" and "drop 4 (request_quick_ack q k bytes @ rest) = payload @ rest"
proof -
  let ?w = "word_of_nat n :: 32 word"
  let ?h = "(LittleEndian_PutUint32 ?w)[3 := if q then LittleEndian_PutUint32 ?w ! 3 OR 0x80 else LittleEndian_PutUint32 ?w ! 3]"
  have len: "length (LittleEndian_PutUint32 ?w) = 4" by (simp add: LittleEndian_PutUint32_def)
  have req: "request_quick_ack q k bytes = ?h @ payload"
    using assms(2,3) len by (auto simp: request_quick_ack_def list_update_append nth_append)
  show "drop 4 (request_quick_ack q k bytes @ rest) = payload @ rest" using len by (simp add: req)
  have small: "\<not> bit ?w 31" using assms(1) by (simp only: bit_of_nat_iff) (simp add: bit_iff_odd)
  have "(if q then ?w OR quickAckResponseFlag else ?w) AND NOT quickAckResponseFlag = ?w"
    by (rule bit_word_eqI) (use small in \<open>auto simp: bit_or_iff bit_and_iff bit_not_iff\<close>)
  moreover have "unat ?w = n" using assms(1) by (simp add: unat_of_nat)
  moreover have "flat_take 4 (?h @ payload @ rest) = Inr ?h" using len by (simp add: flat_take_def)
  moreover have "bit (if q then ?w OR quickAckResponseFlag else ?w) 31 = q" using small by (simp add: bit_or_iff)
  ultimately show "frame_prefix k (request_quick_ack q k bytes @ rest) = Inr (q, n, 4)"
    by (simp only: word_prefix [OF assms(3)] req append_assoc sum.case little_endian_encode)
qed

lemma abridged_header:
  assumes "abridged_Write msg = Inr bytes"
  obtains h where "frame_prefix QuickAckAbridged (request_quick_ack q QuickAckAbridged bytes @ rest) = Inr (q, length msg, h)"
    "drop h (request_quick_ack q QuickAckAbridged bytes @ rest) = msg @ rest"
proof -
  define words where "words = length msg div 4"
  have msg: "validateOutgoingCompatMessage msg = None" using assms by (auto simp: abridged_Write_def split: option.splits)
  have n: "4 * words = length msg" "words < 2 ^ 24" using msg [unfolded valid_message] by (auto simp: words_def)
  show ?thesis
  proof (cases "words < 0x7f")
    case True
    have bytes: "bytes = word_of_nat words # msg" using assms msg True by (simp add: abridged_Write_def Let_def words_def writeCompatPacket_def)
    let ?b = "if q then word_of_nat words OR 0x80 else word_of_nat words :: byte"
    have req: "request_quick_ack q QuickAckAbridged bytes = ?b # msg" by (simp add: request_quick_ack_def bytes)
    have u: "unat (?b AND 0x7f) = words" "(?b AND 0x80 \<noteq> 0) = q" by (rule abridged_byte; use True in simp)+
    then have "?b AND 0x7f \<noteq> 0x7f" using True by auto
    then show ?thesis using u n
      by (intro that [of 1]) (simp_all only: req frame_prefix_def frame_codec.case append_Cons list.sel Let_def, simp_all)
  next
    case False
    let ?t = "[word_of_nat words, word_of_nat (drop_bit 8 words), word_of_nat (drop_bit 16 words)] :: byte list"
    have bytes: "bytes = 0x7f # ?t @ msg" using assms msg False by (simp add: abridged_Write_def Let_def words_def writeCompatPacket_def)
    let ?b = "if q then word_of_nat 127 OR 0x80 else word_of_nat 127 :: byte"
    have req: "request_quick_ack q QuickAckAbridged bytes = ?b # ?t @ msg" by (simp add: request_quick_ack_def bytes)
    have u: "unat (?b AND 0x7f) = 127" "(?b AND 0x80 \<noteq> 0) = q" by (rule abridged_byte; simp)+
    have b: "?b AND 0x7f = 0x7f" unfolding word_unat_eq_iff u(1) by simp
    have "flat_take 3 (?t @ msg @ rest) = Inr ?t" by (simp add: flat_take_def)
    then show ?thesis using u b n three_bytes_encode [OF n(2)]
      by (intro that [of 4]) (simp_all only: req frame_prefix_def frame_codec.case append_Cons append_assoc list.sel Let_def sum.case, simp_all)
  qed
qed

lemma encoded_frame:
  assumes "codec_Write k padding msg = Inr bytes" "length padding = 4" "length msg + padding_of k padding \<le> 2 ^ 24"
  obtains h where
    "frame_prefix k (request_quick_ack q k bytes @ rest) = Inr (q, length msg + padding_of k padding, h)"
    "drop h (request_quick_ack q k bytes @ rest) = msg @ take (padding_of k padding) padding @ rest"
proof (cases k)
  case QuickAckAbridged
  with assms(1) have "abridged_Write msg = Inr bytes" by (simp add: codec_Write_def)
  from abridged_header [OF this, of q rest] QuickAckAbridged that show ?thesis by (auto simp: padding_of_def)
next
  case QuickAckIntermediate
  then have "bytes = LittleEndian_PutUint32 (word_of_nat (length msg)) @ msg"
    using assms(1) by (auto simp: codec_Write_def intermediate_Write_def writeCompatPacket_def split: option.splits)
  from word_header [OF _ this, of k q rest] QuickAckIntermediate assms(3) that [of 4] show ?thesis by (simp add: padding_of_def)
next
  case QuickAckPaddedIntermediate
  then have "bytes = LittleEndian_PutUint32 (word_of_nat (length msg + padding_of k padding)) @ msg @ take (padding_of k padding) padding"
    using assms(1) by (auto simp: codec_Write_def padded_Write_def Let_def padding_of_def split: option.splits)
  from word_header [OF assms(3) this, of k q rest] QuickAckPaddedIntermediate that [of 4] show ?thesis by simp
qed

subsection \<open>Properties\<close>

text \<open>
  C21. Receiving a frame does what the reference says, for every stream and however the network cuts
  it into segments. In particular the preflight reader does not change what a codec reads; the frame is
  announced to the budget once, with its length on the wire, before any of its payload is read; a
  refused announcement leaves the payload unread and the connection's reservation is given back; a
  length of zero or above the limit is never announced; and a four-byte frame is a protocol error.
\<close>

theorem recv_reference:
  "(case RecvDeadline ext custom True c (CompatCodec k) w segs flag of
      (w', segs', flag', r) \<Rightarrow> (w', concat segs', flag', r)) = received_frame w c k (concat segs) flag"
  by (rule recv_flat [of ext custom c k w segs flag]) (simp split: prod.splits)

text \<open>
  C22. What a codec writes is received unchanged. If a message was written, its announced length with the
  padding is within the limit and the connection can reserve twice that length, then the receiver
  with the same codec gets exactly the message, however the bytes are cut into segments and whatever
  follows them: the padding is gone, the quick-ack request of the sender is seen, the rest of the
  stream is untouched and the frame is paid for. A message of four bytes is a protocol error instead.
\<close>

theorem frame_roundtrip:
  assumes "codec_Write k padding msg = Inr bytes" "length padding = 4"
    and "length msg + padding_of k padding = n" "n \<le> 2 ^ 24"
    and "reserveInboundFrame w c (int n) (int n) = Inr w0"
    and "concat segs = request_quick_ack q k bytes @ rest"
  shows "case RecvDeadline ext custom True c (CompatCodec k) w segs flag of
      (w', segs', flag', r) \<Rightarrow>
        concat segs' = rest \<and> flag' = q \<and>
        (if length msg = 4 then r = Inl (ProtocolErr (- LittleEndian_Uint32 msg)) \<and> fw_held w' c = 0
         else r = Inr msg \<and> fw_delivered w' c \<and> 2 * int n \<le> fw_held w' c)"
proof -
  have valid: "validateOutgoingCompatMessage msg = None"
    using assms(1) by (cases k) (auto simp: codec_Write_def abridged_Write_def intermediate_Write_def padded_Write_def split: option.splits)
  then have msg: "msg \<noteq> []" "length msg mod 4 = 0" by (simp_all add: valid_message)
  obtain h where h: "frame_prefix k (concat segs) = Inr (q, n, h)"
      "drop h (concat segs) = msg @ take (padding_of k padding) padding @ rest"
    using encoded_frame [OF assms(1,2), of q rest] assms(3,4,6) by auto
  have padlen: "length (take (padding_of k padding) padding) = padding_of k padding"
    using assms(2) padding_less [of k padding] by simp
  have take_n: "flat_take n (drop h (concat segs)) = Inr (msg @ take (padding_of k padding) padding)"
    unfolding h(2) flat_take_def using assms(3) padlen by auto
  have strip: "(if k = QuickAckPaddedIntermediate then take (n - n mod 4) (msg @ take (padding_of k padding) padding)
      else msg @ take (padding_of k padding) padding) = msg"
  proof -
    have "n mod 4 = padding_of k padding" using assms(3) msg(2) padding_less [of k padding] by presburger
    then show ?thesis using assms(3) by (auto simp: padding_of_def)
  qed
  have dropped: "drop (h + n) (concat segs) = rest"
    using h(2) assms(3) padlen by (metis add.commute append_assoc append_eq_conv_conj drop_drop length_append)
  obtain w1 where w1: "reserveInboundFrame (beginInboundFrameRead w c) c (int n) (int n) = Inr w1"
    using assms(5) by (auto simp: reserveInboundFrame_def beginInboundFrameRead_def split: if_splits sum.splits)
  have n: "\<not> (n = 0 \<or> 2 ^ 24 < n)" using assms(3,4) msg(1) by auto
  have adm: "admitted_frame (beginInboundFrameRead w c) c k (concat segs) = (w1, rest, Inr (q, msg))"
    by (simp only: admitted_frame_def h(1) sum.case prod.case n if_False w1 take_n strip dropped)
  show ?thesis
  proof (rule recv_flat [of ext custom c k w segs flag])
    fix segs'
    assume r: "RecvDeadline ext custom True c (CompatCodec k) w segs flag =
        (case received_frame w c k (concat segs) flag of (w', rest, flag', r) \<Rightarrow> (w', segs', flag', r))"
      and s: "concat segs' = fst (snd (received_frame w c k (concat segs) flag))"
    show ?thesis
    proof (cases "length msg = 4")
      case True
      then have "received_frame w c k (concat segs) flag =
          (releaseInboundFrame w1 c, rest, q, Inl (ProtocolErr (- LittleEndian_Uint32 msg)))"
        by (simp add: received_frame_def adm checkCompatProtocolError_def)
      then show ?thesis using r s True by (simp add: releaseInboundFrame_def)
    next
      case False
      then have "received_frame w c k (concat segs) flag =
          (w1\<lparr>fw_delivered := (fw_delivered w1)(c := True)\<rparr>, rest, q, Inr msg)"
        by (simp add: received_frame_def adm checkCompatProtocolError_def)
      then show ?thesis using r s False reserved_deliverable [OF w1] by simp
    qed
  qed
qed

lemma frame_roundtrip_witness:
  "case RecvDeadline (\<lambda>_ _ pf flag. (pf, flag, Inl EOF)) (\<lambda>_ _ pf flag. (pf, flag, Inl EOF)) True 0
      (CompatCodec QuickAckPaddedIntermediate) (new_frame_world 1024)
      [[11, 0], [0, 0x80, 1, 2, 3], [4, 5, 6, 7, 8, 3, 9, 9, 7]] False of
    (w', segs', flag', r) \<Rightarrow>
      concat segs' = [7] \<and> flag' = True \<and> r = Inr [1, 2, 3, 4, 5, 6, 7, 8] \<and> fw_delivered w' 0 \<and> 22 \<le> fw_held w' 0"
proof -
  let ?start = "new_frame_world 1024"
  let ?after = "?start\<lparr>fw_budget := \<lparr>ib_max = 1024, ib_used = 22\<rparr>, fw_held := (fw_held ?start)(0 := 22)\<rparr>"
  have "reserveInboundFrame ?start 0 (int 11) (int 11) = Inr ?after"
    by (simp add: reserveInboundFrame_def new_frame_world_def growReservation_def newInboundFrameBudget_def Let_def)
  moreover have "codec_Write QuickAckPaddedIntermediate [3, 9, 9, 9] [1, 2, 3, 4, 5, 6, 7, 8] =
      Inr [11, 0, 0, 0, 1, 2, 3, 4, 5, 6, 7, 8, 3, 9, 9]"
    by (simp add: codec_Write_def padded_Write_def validateOutgoingCompatMessage_def validateCompatTransportLength_def
        maxTransportMessageSize_def LittleEndian_PutUint32_def)
  ultimately show ?thesis
    using frame_roundtrip [where k = QuickAckPaddedIntermediate and padding = "[3, 9, 9, 9]" and msg = "[1, 2, 3, 4, 5, 6, 7, 8]"
        and n = 11 and w = ?start and c = 0 and segs = "[[11, 0], [0, 0x80, 1, 2, 3], [4, 5, 6, 7, 8, 3, 9, 9, 7]]" and q = True
        and rest = "[7]" and flag = False and ext = "\<lambda>_ _ pf flag. (pf, flag, Inl EOF)" and custom = "\<lambda>_ _ pf flag. (pf, flag, Inl EOF)"]
    by (simp add: padding_of_def request_quick_ack_def split: prod.splits)
qed

end
