(* ===== verification/Go_Strconv.thy ===== *)
theory Go_Strconv
  imports Go_Prelude
begin

text \<open>
  Numbers and strings of the standard library: \<^verbatim>\<open>strconv.FormatInt\<close> and \<^verbatim>\<open>strconv.ParseInt\<close> in base 10 at 64
  bits (which is \<^verbatim>\<open>strconv.Atoi\<close>), \<^verbatim>\<open>strings.Split\<close> at one character and \<^verbatim>\<open>strings.Compare\<close>. A Go string
  is a list of characters, one per byte.
\<close>

subsection \<open>Decimal numbers\<close>

fun decimal :: "nat \<Rightarrow> string" where
  "decimal n = (if n < 10 then [char_of (48 + n)] else decimal (n div 10) @ [char_of (48 + n mod 10)])"

declare decimal.simps [simp del]

definition FormatInt :: "int \<Rightarrow> string" where
  "FormatInt n = (if n < 0 then ''-'' @ decimal (nat (- n)) else decimal (nat n))"

definition is_digit :: "char \<Rightarrow> bool" where
  "is_digit c \<longleftrightarrow> 48 \<le> (of_char c :: nat) \<and> (of_char c :: nat) \<le> 57"

definition digits_value :: "string \<Rightarrow> nat" where
  "digits_value s = foldl (\<lambda>v c. 10 * v + (of_char c - 48)) 0 s"

definition parse_unsigned :: "string \<Rightarrow> int option" where
  "parse_unsigned s = (if s = [] \<or> \<not> list_all is_digit s then None else Some (int (digits_value s)))"

text \<open>\<open>None\<close> is a syntax or a range error.\<close>

definition ParseInt :: "string \<Rightarrow> int option" where
  "ParseInt s =
     (case s of
        [] \<Rightarrow> None
      | c # rest \<Rightarrow>
          (case (if c = CHR ''+'' then parse_unsigned rest
                 else if c = CHR ''-'' then map_option uminus (parse_unsigned rest)
                 else parse_unsigned s) of
             None \<Rightarrow> None
           | Some n \<Rightarrow> if int64 n then Some n else None))"

lemma digits_value_snoc: "digits_value (s @ [c]) = 10 * digits_value s + (of_char c - 48)"
  by (simp add: digits_value_def)

lemma decimal_value: "digits_value (decimal n) = n \<and> list_all is_digit (decimal n) \<and> decimal n \<noteq> []"
proof (induction n rule: decimal.induct)
  case (1 n)
  show ?case
  proof (cases "n < 10")
    case True
    then show ?thesis by (subst decimal.simps, subst decimal.simps)
        (simp add: decimal.simps [of n] digits_value_def is_digit_def)
  next
    case False
    have "decimal n = decimal (n div 10) @ [char_of (48 + n mod 10)]" using False by (subst decimal.simps) simp
    then show ?thesis using 1 [OF False] by (simp add: digits_value_snoc is_digit_def)
  qed
qed

lemma length_decimal: "n < 10 ^ k \<Longrightarrow> 0 < k \<Longrightarrow> length (decimal n) \<le> k"
proof (induction n arbitrary: k rule: decimal.induct)
  case (1 n)
  show ?case
  proof (cases "n < 10")
    case True
    then show ?thesis using 1 by (subst decimal.simps) simp
  next
    case False
    then obtain k' where k: "k = Suc k'" "0 < k'" using 1 by (cases k; cases "k - 1") auto
    have "n div 10 < 10 ^ k'" using 1 k by (simp add: less_mult_imp_div_less mult.commute)
    then have "length (decimal (n div 10)) \<le> k'" using 1 False k by blast
    then show ?thesis using False k by (subst decimal.simps) simp
  qed
qed

lemma first_decimal: "decimal n = c # s \<Longrightarrow> c \<noteq> CHR ''+'' \<and> c \<noteq> CHR ''-''"
  using decimal_value [of n] by (auto simp: is_digit_def)

lemma ParseInt_FormatInt: "0 \<le> n \<Longrightarrow> int64 n \<Longrightarrow> ParseInt (FormatInt n) = Some n"
  using decimal_value [of "nat n"] first_decimal [of "nat n"]
  by (auto simp: ParseInt_def FormatInt_def parse_unsigned_def split: list.splits)

subsection \<open>Splitting and comparing\<close>

fun split_at :: "char \<Rightarrow> string \<Rightarrow> string list" where
  "split_at c [] = [[]]"
| "split_at c (x # xs) = (if x = c then [] # split_at c xs
     else case split_at c xs of [] \<Rightarrow> [[x]] | p # ps \<Rightarrow> (x # p) # ps)"

fun compare_strings :: "string \<Rightarrow> string \<Rightarrow> int" where
  "compare_strings [] [] = 0"
| "compare_strings [] (y # ys) = - 1"
| "compare_strings (x # xs) [] = 1"
| "compare_strings (x # xs) (y # ys) =
     (if x = y then compare_strings xs ys else if (of_char x :: nat) < of_char y then - 1 else 1)"

lemma compare_strings_eq: "compare_strings a b = 0 \<longleftrightarrow> a = b"
  by (induction a b rule: compare_strings.induct) auto

end
