(* ===== verification/Stars_Cursor.thy ===== *)
theory Stars_Cursor
  imports Go_Strconv
begin

text \<open>
  The page cursor of the Stars ledger (\<^verbatim>\<open>EncodeStarsCursor\<close>, \<^verbatim>\<open>DecodeStarsCursor\<close> of
  \<^verbatim>\<open>internal/domain/stars.go\<close>): the decimal form of a transaction id in unpadded URL-safe base 64, with the
  encoding of the standard library (\<^verbatim>\<open>base64.RawURLEncoding\<close>).
\<close>

subsection \<open>Base 64\<close>

fun sextets :: "nat list \<Rightarrow> nat list" where
  "sextets [] = []"
| "sextets [a] = [a div 4, a mod 4 * 16]"
| "sextets [a, b] = [a div 4, a mod 4 * 16 + b div 16, b mod 16 * 4]"
| "sextets (a # b # c # r) = a div 4 # (a mod 4 * 16 + b div 16) # (b mod 16 * 4 + c div 64) # c mod 64 # sextets r"

text \<open>The decoder ignores the unused low bits of the last group; a group of one is an error.\<close>

fun octets :: "nat list \<Rightarrow> nat list option" where
  "octets [] = Some []"
| "octets [w] = None"
| "octets [w, x] = Some [w * 4 + x div 16]"
| "octets [w, x, y] = Some [w * 4 + x div 16, x mod 16 * 16 + y div 4]"
| "octets (w # x # y # z # r) =
     map_option (\<lambda>bs. (w * 4 + x div 16) # (x mod 16 * 16 + y div 4) # (y mod 4 * 64 + z) # bs) (octets r)"

definition url_alphabet :: string where
  "url_alphabet = ''ABCDEFGHIJKLMNOPQRSTUVWXYZabcdefghijklmnopqrstuvwxyz0123456789-_''"

fun index_of :: "'a \<Rightarrow> 'a list \<Rightarrow> nat option" where
  "index_of x [] = None"
| "index_of x (y # ys) = (if x = y then Some 0 else map_option Suc (index_of x ys))"

definition RawURLEncoding_EncodeToString :: "string \<Rightarrow> string" where
  "RawURLEncoding_EncodeToString s = map (\<lambda>i. url_alphabet ! i) (sextets (map of_char s))"

fun sequence :: "'a option list \<Rightarrow> 'a list option" where
  "sequence [] = Some []"
| "sequence (x # xs) = (case x of None \<Rightarrow> None | Some y \<Rightarrow> map_option ((#) y) (sequence xs))"

text \<open>Carriage returns and newlines in the text are skipped.\<close>

definition RawURLEncoding_DecodeString :: "string \<Rightarrow> string option" where
  "RawURLEncoding_DecodeString s =
     (case sequence (map (\<lambda>c. index_of c url_alphabet) (filter (\<lambda>c. of_char c \<noteq> (10::nat) \<and> of_char c \<noteq> (13::nat)) s)) of
        None \<Rightarrow> None
      | Some ws \<Rightarrow> map_option (map char_of) (octets ws))"

lemma sextets_bound: "list_all (\<lambda>b. b < 256) bs \<Longrightarrow> list_all (\<lambda>w. w < 64) (sextets bs)"
proof (induction bs rule: sextets.induct)
  case (3 a b)
  then show ?case by simp linarith
next
  case (4 a b c r)
  then have "a div 4 < 64" "a mod 4 * 16 + b div 16 < 64" "b mod 16 * 4 + c div 64 < 64" by auto
  then show ?case using 4 by simp
qed auto

lemma octets_sextets: "list_all (\<lambda>b. b < 256) bs \<Longrightarrow> octets (sextets bs) = Some bs"
proof (induction bs rule: sextets.induct)
  case (3 a b)
  then have "b div 16 < 16" by auto
  then show ?case by simp
next
  case (4 a b c r)
  then have "b div 16 < 16" "c div 64 < 4" by auto
  then show ?case using 4 by simp
qed auto

lemma length_sextets: "3 * length (sextets bs) \<le> 4 * length bs + 2"
  by (induction bs rule: sextets.induct) auto

lemma index_of_nth: "distinct xs \<Longrightarrow> i < length xs \<Longrightarrow> index_of (xs ! i) xs = Some i"
  by (induction xs arbitrary: i) (auto simp: nth_Cons split: nat.splits)

lemma sequence_some: "sequence (map (\<lambda>w. Some (f w)) ws) = Some (map f ws)"
  by (induction ws) auto

lemma alphabet: "distinct url_alphabet" "length url_alphabet = 64"
    "list_all (\<lambda>c. of_char c \<noteq> (10::nat) \<and> of_char c \<noteq> (13::nat)) url_alphabet"
  unfolding url_alphabet_def by code_simp+

lemma sequence_alphabet:
  "list_all (\<lambda>w. w < 64) ws \<Longrightarrow>
     sequence (map (\<lambda>c. index_of c url_alphabet)
       (filter (\<lambda>c. of_char c \<noteq> (10::nat) \<and> of_char c \<noteq> (13::nat)) (map (\<lambda>i. url_alphabet ! i) ws))) = Some ws"
proof (induction ws)
  case (Cons w ws)
  then have "w < 64" by simp
  then have "of_char (url_alphabet ! w) \<noteq> (10::nat) \<and> of_char (url_alphabet ! w) \<noteq> (13::nat)"
    using alphabet(2,3) by (auto simp: list_all_length)
  moreover have "index_of (url_alphabet ! w) url_alphabet = Some w" using Cons alphabet by (simp add: index_of_nth)
  ultimately show ?case using Cons by simp
qed simp

lemma base64_roundtrip: "RawURLEncoding_DecodeString (RawURLEncoding_EncodeToString s) = Some s"
proof -
  have "list_all (\<lambda>b. b < 256) (map of_char s :: nat list)" by (auto simp: list_all_iff)
  then show ?thesis
    by (simp add: RawURLEncoding_DecodeString_def RawURLEncoding_EncodeToString_def sequence_alphabet sextets_bound octets_sextets comp_def)
qed

subsection \<open>The cursor\<close>

definition EncodeStarsCursor :: "int \<Rightarrow> string" where
  "EncodeStarsCursor n = RawURLEncoding_EncodeToString (FormatInt n)"

text \<open>\<open>None\<close> is the answer \<^verbatim>\<open>false\<close>.\<close>

definition DecodeStarsCursor :: "string \<Rightarrow> int option" where
  "DecodeStarsCursor s =
     (if s = '''' then None
      else case RawURLEncoding_DecodeString s of
        None \<Rightarrow> None
      | Some raw \<Rightarrow> (case ParseInt raw of None \<Rightarrow> None | Some n \<Rightarrow> if n \<le> 0 then None else Some n))"

lemma decode_encode_cursor:
  assumes "0 < n" "int64 n"
  shows "DecodeStarsCursor (EncodeStarsCursor n) = Some n" and "EncodeStarsCursor n \<noteq> ''''" and "length (EncodeStarsCursor n) \<le> 64"
proof -
  have p: "ParseInt (FormatInt n) = Some n" using assms by (simp add: ParseInt_FormatInt)
  then have "FormatInt n \<noteq> ''''" by (auto simp: ParseInt_def)
  then have "sextets (map of_char (FormatInt n)) \<noteq> []" by (cases "map of_char (FormatInt n) :: nat list" rule: sextets.cases) auto
  then show ne: "EncodeStarsCursor n \<noteq> ''''" by (simp add: EncodeStarsCursor_def RawURLEncoding_EncodeToString_def)
  show "DecodeStarsCursor (EncodeStarsCursor n) = Some n"
    using ne p assms by (simp add: DecodeStarsCursor_def) (simp add: EncodeStarsCursor_def base64_roundtrip)
  have "nat n < 10 ^ 19" using assms by (simp add: int64_def nat_less_iff)
  then have "length (FormatInt n) \<le> 19" using assms length_decimal [of "nat n" 19] by (simp add: FormatInt_def)
  then show "length (EncodeStarsCursor n) \<le> 64"
    using length_sextets [of "map of_char (FormatInt n)"] by (simp add: EncodeStarsCursor_def RawURLEncoding_EncodeToString_def)
qed

end
