(* ===== verification/Stars_Ledger.thy ===== *)
theory Stars_Ledger
  imports Update_Log Stars_Cursor
begin

text \<open>
  The Stars ledger: \<^verbatim>\<open>internal/domain/stars.go\<close>, the memory store \<^verbatim>\<open>internal/store/memory/stars.go\<close> and the
  service \<^verbatim>\<open>internal/app/stars/service.go\<close>.

  \<^item> Every store operation is one critical section. Balances are 64-bit: a credit wraps around.
    Transaction ids are drawn from a counter that is left unbounded.
  \<^item> A transaction keeps the fields the ledger sets; the others are zero here.
  \<^item> The purchase store is an interface with no implementation in the memory engine: \<open>issue\<close>, \<open>settle\<close> and
    \<open>giveaway_info\<close> are what it answers, \<open>None\<close> when the service has none.
\<close>

subsection \<open>Data\<close>

datatype stars_error =
    ErrStarsInsufficient
  | ErrStarsInvalidAmount
  | ErrStarsTransactionQueryInvalid
  | ErrStarsPurchaseFormInvalid
  | ErrPurchaseStore nat

datatype stars_reason =
    StarsReasonGrant | StarsReasonTopup | StarsReasonReaction | StarsReasonGift | StarsReasonGiftUpgrade
  | StarsReasonGiftTransfer | StarsReasonGiftResale | StarsReasonGiftOffer | StarsReasonGiftAuction
  | StarsReasonGiftPrepaid | StarsReasonGiftDrop | StarsReasonPaidMedia | StarsReasonPaidMessage
  | StarsReasonSuggestedPost | StarsReasonPremium | StarsReasonWithdrawal | StarsReasonAdjust

record stars_transaction =
  tx_ID :: int
  tx_UserID :: int
  tx_Peer :: peer
  tx_Amount :: int
  tx_Date :: int
  tx_Reason :: stars_reason
  tx_Title :: string
  tx_Description :: string

record stars_balance =
  sb_UserID :: int
  sb_Balance :: int
  sb_Granted :: bool

record stars_state =
  sst_balance :: int
  sst_granted :: bool
  sst_txns :: "stars_transaction list"

record stars_store =
  stars_states :: "int \<Rightarrow> stars_state option"
  stars_nextID :: int

record stars_query =
  sq_Offset :: string
  sq_Limit :: int
  sq_Direction :: nat
  sq_Ascending :: bool

record stars_page =
  sp_Balance :: int
  sp_Transactions :: "stars_transaction list"
  sp_NextOffset :: string

definition zero_balance :: stars_balance where
  "zero_balance = \<lparr>sb_UserID = 0, sb_Balance = 0, sb_Granted = False\<rparr>"

definition empty_page :: stars_page where
  "empty_page = \<lparr>sp_Balance = 0, sp_Transactions = [], sp_NextOffset = ''''\<rparr>"

definition new_stars_state :: stars_state where
  "new_stars_state = \<lparr>sst_balance = 0, sst_granted = False, sst_txns = []\<rparr>"

definition MaxStarsTransactionsLimit :: int where
  "MaxStarsTransactionsLimit = 100"

definition MaxStarsTransactionsOffsetBytes :: nat where
  "MaxStarsTransactionsOffsetBytes = 64"

definition DefaultStarsStartingGrant :: int where
  "DefaultStarsStartingGrant = 1000"

definition direction_Valid :: "nat \<Rightarrow> bool" where
  "direction_Valid d \<longleftrightarrow> d \<le> 2"

definition IncludesAmount :: "nat \<Rightarrow> int \<Rightarrow> bool" where
  "IncludesAmount d amount \<longleftrightarrow>
     (if d = 0 then True else if d = 1 then amount > 0 else if d = 2 then amount < 0 else False)"

definition IsCredit :: "stars_transaction \<Rightarrow> bool" where
  "IsCredit t \<longleftrightarrow> tx_Amount t > 0"

definition NormalizeStarsTransactionQuery :: "stars_query \<Rightarrow> stars_error + stars_query" where
  "NormalizeStarsTransactionQuery q =
     (if \<not> direction_Valid (sq_Direction q) then Inl ErrStarsTransactionQueryInvalid
      else let q1 = (if length (sq_Offset q) > MaxStarsTransactionsOffsetBytes then q\<lparr>sq_Offset := ''''\<rparr> else q)
           in Inr (if sq_Limit q1 \<le> 0 \<or> sq_Limit q1 > MaxStarsTransactionsLimit
                   then q1\<lparr>sq_Limit := MaxStarsTransactionsLimit\<rparr> else q1))"

subsection \<open>The store\<close>

definition NewStarsStore :: stars_store where
  "NewStarsStore = \<lparr>stars_states = Map.empty, stars_nextID = 0\<rparr>"

definition balance_of :: "int \<Rightarrow> stars_state \<Rightarrow> stars_balance" where
  "balance_of userID st = \<lparr>sb_UserID = userID, sb_Balance = sst_balance st, sb_Granted = sst_granted st\<rparr>"

definition store_GetBalance :: "stars_store \<Rightarrow> int \<Rightarrow> stars_balance" where
  "store_GetBalance s userID =
     (if userID = 0 then zero_balance
      else case stars_states s userID of
        None \<Rightarrow> zero_balance\<lparr>sb_UserID := userID\<rparr>
      | Some st \<Rightarrow> balance_of userID st)"

definition appendTxn :: "stars_store \<Rightarrow> stars_state \<Rightarrow> int \<Rightarrow> int \<Rightarrow> stars_reason \<Rightarrow> peer \<Rightarrow> int \<Rightarrow> string \<Rightarrow> string \<Rightarrow> stars_store" where
  "appendTxn s st userID amount reason peer date title desc =
     (let nextID = stars_nextID s + 1;
          t = \<lparr>tx_ID = nextID, tx_UserID = userID, tx_Peer = peer, tx_Amount = amount, tx_Date = date,
               tx_Reason = reason, tx_Title = title, tx_Description = desc\<rparr>
      in s\<lparr>stars_nextID := nextID,
           stars_states := (stars_states s)(userID \<mapsto> st\<lparr>sst_txns := sst_txns st @ [t]\<rparr>)\<rparr>)"

definition store_EnsureGrant :: "stars_store \<Rightarrow> int \<Rightarrow> int \<Rightarrow> int \<Rightarrow> stars_store \<times> stars_balance \<times> bool" where
  "store_EnsureGrant s userID amount date =
     (if userID = 0 then (s, zero_balance, False)
      else let st = (case stars_states s userID of None \<Rightarrow> new_stars_state | Some st \<Rightarrow> st);
               s1 = s\<lparr>stars_states := (stars_states s)(userID \<mapsto> st)\<rparr>
           in if amount \<le> 0 then (s1, balance_of userID st, False)
              else if sst_granted st then (s1, balance_of userID st, False)
              else let st1 = st\<lparr>sst_balance := wrap64 (sst_balance st + amount), sst_granted := True\<rparr>
                   in (appendTxn s1 st1 userID amount StarsReasonGrant no_peer date '''' '''', balance_of userID st1, True))"

definition store_Credit :: "stars_store \<Rightarrow> int \<Rightarrow> int \<Rightarrow> stars_reason \<Rightarrow> peer \<Rightarrow> int \<Rightarrow> string \<Rightarrow> string \<Rightarrow>
    stars_store \<times> (stars_error + stars_balance)" where
  "store_Credit s userID amount reason peer date title desc =
     (if userID = 0 \<or> amount \<le> 0 then (s, Inl ErrStarsInvalidAmount)
      else let st = (case stars_states s userID of None \<Rightarrow> new_stars_state | Some st \<Rightarrow> st);
               st1 = st\<lparr>sst_balance := wrap64 (sst_balance st + amount)\<rparr>
           in (appendTxn s st1 userID amount reason peer date title desc, Inr (balance_of userID st1)))"

definition store_Debit :: "stars_store \<Rightarrow> int \<Rightarrow> int \<Rightarrow> stars_reason \<Rightarrow> peer \<Rightarrow> int \<Rightarrow> string \<Rightarrow> string \<Rightarrow>
    stars_store \<times> (stars_error + stars_balance)" where
  "store_Debit s userID amount reason peer date title desc =
     (if userID = 0 \<or> amount \<le> 0 then (s, Inl ErrStarsInvalidAmount)
      else case stars_states s userID of
        None \<Rightarrow> (s, Inl ErrStarsInsufficient)
      | Some st \<Rightarrow>
          if sst_balance st < amount then (s, Inl ErrStarsInsufficient)
          else let st1 = st\<lparr>sst_balance := wrap64 (sst_balance st - amount)\<rparr>
               in (appendTxn s st1 userID (- amount) reason peer date title desc, Inr (balance_of userID st1)))"

definition appendMatch :: "stars_query \<Rightarrow> int option \<Rightarrow> stars_transaction \<Rightarrow> bool" where
  "appendMatch q cursor t \<longleftrightarrow>
     (case cursor of
        None \<Rightarrow> True
      | Some c \<Rightarrow> \<not> (sq_Ascending q \<and> tx_ID t \<le> c) \<and> \<not> (\<not> sq_Ascending q \<and> tx_ID t \<ge> c)) \<and>
     IncludesAmount (sq_Direction q) (tx_Amount t)"

fun txn_loop :: "(stars_transaction \<Rightarrow> bool) \<Rightarrow> int \<Rightarrow> stars_transaction list \<Rightarrow> stars_transaction list \<Rightarrow> stars_transaction list" where
  "txn_loop keep limit [] out = out"
| "txn_loop keep limit (t # ts) out =
     (if int (length out) \<le> limit then txn_loop keep limit ts (if keep t then out @ [t] else out) else out)"

definition store_ListTransactions :: "stars_store \<Rightarrow> int \<Rightarrow> stars_query \<Rightarrow> stars_error + stars_page" where
  "store_ListTransactions s userID query =
     (if userID = 0 then Inr empty_page
      else case NormalizeStarsTransactionQuery query of
        Inl e \<Rightarrow> Inl e
      | Inr q \<Rightarrow>
          (case stars_states s userID of
             None \<Rightarrow> Inr empty_page
           | Some st \<Rightarrow>
               let out = txn_loop (appendMatch q (DecodeStarsCursor (sq_Offset q))) (sq_Limit q)
                           (if sq_Ascending q then sst_txns st else rev (sst_txns st)) []
               in if int (length out) > sq_Limit q
                  then let out1 = take (nat (sq_Limit q)) out
                       in Inr \<lparr>sp_Balance = sst_balance st, sp_Transactions = out1,
                               sp_NextOffset = EncodeStarsCursor (tx_ID (last out1))\<rparr>
                  else Inr \<lparr>sp_Balance = sst_balance st, sp_Transactions = out, sp_NextOffset = ''''\<rparr>))"

subsection \<open>The service\<close>

text \<open>\<open>grant\<close> is \<^verbatim>\<open>grantAmount\<close>, \<open>now\<close> is \<^verbatim>\<open>now().Unix()\<close> when it is asked.\<close>

definition ensureGranted :: "int \<Rightarrow> int \<Rightarrow> stars_store \<Rightarrow> int \<Rightarrow> stars_store \<times> stars_balance" where
  "ensureGranted grant now s userID =
     (if grant > 0 then (let (s1, bal, applied) = store_EnsureGrant s userID grant now in (s1, bal))
      else (s, store_GetBalance s userID))"

definition stars_GetBalance :: "int \<Rightarrow> int \<Rightarrow> stars_store \<Rightarrow> int \<Rightarrow> stars_store \<times> stars_balance" where
  "stars_GetBalance grant now s userID = ensureGranted grant now s userID"

definition stars_Credit :: "int \<Rightarrow> stars_store \<Rightarrow> int \<Rightarrow> int \<Rightarrow> stars_reason \<Rightarrow> peer \<Rightarrow> string \<Rightarrow> string \<Rightarrow>
    stars_store \<times> (stars_error + stars_balance)" where
  "stars_Credit now s userID amount reason peer title desc =
     (if amount \<le> 0 then (s, Inl ErrStarsInvalidAmount)
      else store_Credit s userID amount reason peer now title desc)"

definition stars_Debit :: "int \<Rightarrow> int \<Rightarrow> stars_store \<Rightarrow> int \<Rightarrow> int \<Rightarrow> stars_reason \<Rightarrow> peer \<Rightarrow> string \<Rightarrow> string \<Rightarrow>
    stars_store \<times> (stars_error + stars_balance)" where
  "stars_Debit grant now s userID amount reason peer title desc =
     (if amount \<le> 0 then (s, Inl ErrStarsInvalidAmount)
      else store_Debit (fst (ensureGranted grant now s userID)) userID amount reason peer now title desc)"

definition stars_ListTransactions :: "int \<Rightarrow> int \<Rightarrow> stars_store \<Rightarrow> int \<Rightarrow> stars_query \<Rightarrow> stars_store \<times> (stars_error + stars_page)" where
  "stars_ListTransactions grant now s userID query =
     (case NormalizeStarsTransactionQuery query of
        Inl e \<Rightarrow> (s, Inl e)
      | Inr q \<Rightarrow> let s1 = fst (ensureGranted grant now s userID) in (s1, store_ListTransactions s1 userID q))"

subsection \<open>Purchases\<close>

datatype purchase_kind = StarsPurchaseTopup | StarsPurchaseGift | StarsPurchaseGiveaway | StarsPurchaseOther string

definition kind_Valid :: "purchase_kind \<Rightarrow> bool" where
  "kind_Valid k \<longleftrightarrow> k = StarsPurchaseTopup \<or> k = StarsPurchaseGift \<or> k = StarsPurchaseGiveaway"

record stars_giveaway =
  sg_BoostPeer :: peer
  sg_RandomID :: int
  sg_UntilDate :: int
  sg_Users :: int
  sg_PerUserStars :: int
  sg_rest :: nat

record purchase_form =
  pf_FormID :: int
  pf_Kind :: purchase_kind
  pf_BuyerUserID :: int
  pf_RecipientUserID :: int
  pf_SpendPurposePeer :: peer
  pf_Giveaway :: "stars_giveaway option"
  pf_Stars :: int
  pf_Currency :: string
  pf_Amount :: int
  pf_IssuedAt :: int
  pf_ExpiresAt :: int

definition validPurchaseCommand :: "purchase_form \<Rightarrow> bool" where
  "validPurchaseCommand form \<longleftrightarrow>
     (if \<not> kind_Valid (pf_Kind form) \<or> pf_BuyerUserID form \<le> 0 \<or> pf_Stars form \<le> 0 \<or> pf_Amount form \<le> 0 \<or> pf_Currency form = ''''
      then False
      else case pf_Kind form of
        StarsPurchaseTopup \<Rightarrow>
          pf_Giveaway form = None \<and> pf_RecipientUserID form = 0 \<and>
          (pf_SpendPurposePeer form = no_peer \<or>
           (peer_Type (pf_SpendPurposePeer form) = PeerTypeUser \<or> peer_Type (pf_SpendPurposePeer form) = PeerTypeChannel) \<and>
           peer_ID (pf_SpendPurposePeer form) > 0)
      | StarsPurchaseGift \<Rightarrow>
          pf_Giveaway form = None \<and> pf_RecipientUserID form > 0 \<and> pf_BuyerUserID form \<noteq> pf_RecipientUserID form \<and>
          pf_SpendPurposePeer form = no_peer
      | StarsPurchaseGiveaway \<Rightarrow>
          pf_RecipientUserID form = 0 \<and> pf_SpendPurposePeer form = no_peer \<and>
          (case pf_Giveaway form of
             None \<Rightarrow> False
           | Some g \<Rightarrow>
               peer_Type (sg_BoostPeer g) = PeerTypeChannel \<and> peer_ID (sg_BoostPeer g) > 0 \<and> sg_RandomID g \<noteq> 0 \<and>
               sg_UntilDate g > 0 \<and> sg_Users g > 0 \<and> sg_PerUserStars g > 0 \<and>
               sg_Users g \<le> quot64 (pf_Stars form) (sg_PerUserStars g) \<and>
               wrap64 (sg_Users g * sg_PerUserStars g) = pf_Stars form)
      | StarsPurchaseOther k \<Rightarrow> False)"

definition validPurchaseForm :: "purchase_form \<Rightarrow> bool" where
  "validPurchaseForm form \<longleftrightarrow>
     validPurchaseCommand form \<and> pf_IssuedAt form > 0 \<and> pf_ExpiresAt form = wrap64 (pf_IssuedAt form + 600)"

definition IssuePurchaseForm :: "(purchase_form \<Rightarrow> stars_error + purchase_form) option \<Rightarrow> purchase_form \<Rightarrow> stars_error + purchase_form" where
  "IssuePurchaseForm issue form =
     (case issue of
        None \<Rightarrow> Inl ErrStarsPurchaseFormInvalid
      | Some f \<Rightarrow> if \<not> validPurchaseForm form then Inl ErrStarsPurchaseFormInvalid else f form)"

definition Purchase :: "(purchase_form \<Rightarrow> int \<Rightarrow> stars_error + 'r) option \<Rightarrow> purchase_form \<Rightarrow> int \<Rightarrow> stars_error + 'r" where
  "Purchase settle form date =
     (case settle of
        None \<Rightarrow> Inl ErrStarsPurchaseFormInvalid
      | Some f \<Rightarrow>
          if pf_FormID form = 0 \<or> date \<le> 0 \<or> \<not> validPurchaseCommand form then Inl ErrStarsPurchaseFormInvalid else f form date)"

definition GetGiveawayInfo :: "(int \<Rightarrow> int \<Rightarrow> int \<Rightarrow> int \<Rightarrow> stars_error + 'r) option \<Rightarrow> int \<Rightarrow> int \<Rightarrow> int \<Rightarrow> int \<Rightarrow> stars_error + 'r" where
  "GetGiveawayInfo giveaway_info viewerUserID channelID messageID date =
     (case giveaway_info of
        None \<Rightarrow> Inl ErrStarsPurchaseFormInvalid
      | Some f \<Rightarrow>
          if viewerUserID \<le> 0 \<or> channelID \<le> 0 \<or> messageID \<le> 0 \<or> date \<le> 0 then Inl ErrStarsPurchaseFormInvalid
          else f viewerUserID channelID messageID date)"

end
