(* ===== verification/Stars_Theorems.thy ===== *)
theory Stars_Theorems
  imports Stars_Ledger
begin

text \<open>
  The guarantees of the Stars ledger. The abstract ledger is a purse: a map from users to an amount and
  the flag that the starting grant was given, with exact arithmetic; the service over the memory store
  refines it as long as the credits do not leave 64 bits. The transactions explain every balance, and a
  client that follows the page offsets reads the whole history.
\<close>

subsection \<open>Calls and runs\<close>

datatype stars_call =
    CallBalance int int
  | CallCredit int int int stars_reason peer string string
  | CallDebit int int int stars_reason peer string string
  | CallList int int stars_query

datatype stars_answer =
    AnswerBalance stars_balance
  | AnswerRefused stars_error
  | AnswerPage stars_page

definition balance_answer :: "stars_error + stars_balance \<Rightarrow> stars_answer" where
  "balance_answer r = (case r of Inl e \<Rightarrow> AnswerRefused e | Inr b \<Rightarrow> AnswerBalance b)"

fun stars_step :: "int \<Rightarrow> stars_call \<Rightarrow> stars_store \<Rightarrow> stars_store \<times> stars_answer" where
  "stars_step grant (CallBalance now u) s = map_prod id AnswerBalance (stars_GetBalance grant now s u)"
| "stars_step grant (CallCredit now u amount reason peer title desc) s =
     map_prod id balance_answer (stars_Credit now s u amount reason peer title desc)"
| "stars_step grant (CallDebit now u amount reason peer title desc) s =
     map_prod id balance_answer (stars_Debit grant now s u amount reason peer title desc)"
| "stars_step grant (CallList now u q) s =
     map_prod id (\<lambda>r. case r of Inl e \<Rightarrow> AnswerRefused e | Inr p \<Rightarrow> AnswerPage p) (stars_ListTransactions grant now s u q)"

fun stars_run :: "int \<Rightarrow> stars_call list \<Rightarrow> stars_store \<Rightarrow> stars_store \<times> stars_answer list" where
  "stars_run grant [] s = (s, [])"
| "stars_run grant (c # cs) s =
     (let (s1, a) = stars_step grant c s; (s2, as) = stars_run grant cs s1 in (s2, a # as))"

subsection \<open>The purse\<close>

type_synonym purse = "int \<Rightarrow> int \<times> bool"

datatype purse_answer = Holds int int bool | Refused stars_error | Listed

definition purse_grant :: "int \<Rightarrow> int \<Rightarrow> purse \<Rightarrow> purse" where
  "purse_grant grant u p = (if u = 0 \<or> grant \<le> 0 \<or> snd (p u) then p else p(u := (fst (p u) + grant, True)))"

definition purse_holds :: "purse \<Rightarrow> int \<Rightarrow> purse_answer" where
  "purse_holds p u = Holds u (fst (p u)) (snd (p u))"

fun purse_step :: "int \<Rightarrow> stars_call \<Rightarrow> purse \<Rightarrow> purse \<times> purse_answer" where
  "purse_step grant (CallBalance now u) p = (let p1 = purse_grant grant u p in (p1, purse_holds p1 u))"
| "purse_step grant (CallCredit now u amount reason peer title desc) p =
     (if u = 0 \<or> amount \<le> 0 then (p, Refused ErrStarsInvalidAmount)
      else let p1 = p(u := (fst (p u) + amount, snd (p u))) in (p1, purse_holds p1 u))"
| "purse_step grant (CallDebit now u amount reason peer title desc) p =
     (if u = 0 \<or> amount \<le> 0 then (p, Refused ErrStarsInvalidAmount)
      else let p1 = purse_grant grant u p
           in if fst (p1 u) < amount then (p1, Refused ErrStarsInsufficient)
              else let p2 = p1(u := (fst (p1 u) - amount, snd (p1 u))) in (p2, purse_holds p2 u))"
| "purse_step grant (CallList now u q) p =
     (if \<not> direction_Valid (sq_Direction q) then (p, Refused ErrStarsTransactionQueryInvalid)
      else (purse_grant grant u p, Listed))"

fun purse_run :: "int \<Rightarrow> stars_call list \<Rightarrow> purse \<Rightarrow> purse \<times> purse_answer list" where
  "purse_run grant [] p = (p, [])"
| "purse_run grant (c # cs) p =
     (let (p1, a) = purse_step grant c p; (p2, as) = purse_run grant cs p1 in (p2, a # as))"

definition purse_of :: "stars_store \<Rightarrow> purse" where
  "purse_of s = (\<lambda>u. case stars_states s u of None \<Rightarrow> (0, False) | Some st \<Rightarrow> (sst_balance st, sst_granted st))"

fun answer_of :: "stars_answer \<Rightarrow> purse_answer" where
  "answer_of (AnswerBalance b) = Holds (sb_UserID b) (sb_Balance b) (sb_Granted b)"
| "answer_of (AnswerRefused e) = Refused e"
| "answer_of (AnswerPage p) = Listed"

text \<open>What a call can add to all balances together.\<close>

fun minted :: "int \<Rightarrow> stars_call \<Rightarrow> int" where
  "minted grant (CallCredit now u amount reason peer title desc) = max 0 amount"
| "minted grant c = max 0 grant"

definition minted_total :: "int \<Rightarrow> stars_call list \<Rightarrow> int" where
  "minted_total grant cs = sum_list (map (minted grant) cs)"

lemma minted_nonneg: "0 \<le> minted grant c"
  by (cases c) auto

lemma minted_total_nonneg: "0 \<le> minted_total grant cs"
  unfolding minted_total_def by (induction cs) (simp_all add: minted_nonneg)

subsection \<open>The state of the ledger\<close>

definition explained :: "int \<Rightarrow> stars_state \<Rightarrow> bool" where
  "explained u st \<longleftrightarrow>
     sst_balance st = sum_list (map tx_Amount (sst_txns st)) \<and> sorted_wrt (<) (map tx_ID (sst_txns st)) \<and>
     (\<forall>t \<in> set (sst_txns st). tx_UserID t = u \<and> tx_Amount t \<noteq> 0)"

definition state_ok :: "int \<Rightarrow> int \<Rightarrow> int \<Rightarrow> stars_state \<Rightarrow> bool" where
  "state_ok m n u st \<longleftrightarrow> 0 \<le> sst_balance st \<and> sst_balance st \<le> m \<and> explained u st \<and>
     (\<forall>t \<in> set (sst_txns st). 0 < tx_ID t \<and> tx_ID t \<le> n)"

definition txn_ids :: "stars_state \<Rightarrow> int set" where
  "txn_ids st = tx_ID ` set (sst_txns st)"

definition ids_disjoint :: "(int \<Rightarrow> stars_state option) \<Rightarrow> bool" where
  "ids_disjoint f \<longleftrightarrow> (\<forall>u v st st'. f u = Some st \<longrightarrow> f v = Some st' \<longrightarrow> u \<noteq> v \<longrightarrow> txn_ids st \<inter> txn_ids st' = {})"

lemma ids_disjoint_update:
  assumes "ids_disjoint f" "\<And>v st'. f v = Some st' \<Longrightarrow> u \<noteq> v \<Longrightarrow> txn_ids st \<inter> txn_ids st' = {}"
  shows "ids_disjoint (f(u \<mapsto> st))"
  unfolding ids_disjoint_def
proof (intro allI impI)
  fix v w a b assume h: "(f(u \<mapsto> st)) v = Some a" "(f(u \<mapsto> st)) w = Some b" "v \<noteq> w"
  show "txn_ids a \<inter> txn_ids b = {}"
  proof (cases "v = u")
    case True
    then show ?thesis using h assms(2) [of w b] by simp
  next
    case v: False
    show ?thesis
    proof (cases "w = u")
      case True
      then show ?thesis using h v assms(2) [of v a] by (simp add: Int_commute)
    next
      case False
      then have "f v = Some a" "f w = Some b" using h v by simp_all
      then show ?thesis using assms(1) h(3) unfolding ids_disjoint_def by blast
    qed
  qed
qed

definition stars_inv :: "int \<Rightarrow> stars_store \<Rightarrow> bool" where
  "stars_inv m s \<longleftrightarrow> 0 \<le> stars_nextID s \<and> stars_states s 0 = None \<and>
     (\<forall>u st. stars_states s u = Some st \<longrightarrow> state_ok m (stars_nextID s) u st) \<and>
     ids_disjoint (stars_states s)"

lemma state_ok_mono: "state_ok m n u st \<Longrightarrow> m \<le> m' \<Longrightarrow> n \<le> n' \<Longrightarrow> state_ok m' n' u st"
  unfolding state_ok_def by force

lemma ledger_inv_mono: "stars_inv m s \<Longrightarrow> m \<le> m' \<Longrightarrow> stars_inv m' s"
  unfolding stars_inv_def using state_ok_mono by blast

definition state_at :: "stars_store \<Rightarrow> int \<Rightarrow> stars_state" where
  "state_at s u = (case stars_states s u of None \<Rightarrow> new_stars_state | Some st \<Rightarrow> st)"

lemma state_at_ok: "stars_inv m s \<Longrightarrow> 0 \<le> m \<Longrightarrow> state_ok m (stars_nextID s) u (state_at s u)"
  by (cases "stars_states s u") (simp_all add: state_at_def stars_inv_def, simp add: new_stars_state_def explained_def state_ok_def)

lemma state_at_disjoint:
  "stars_inv m s \<Longrightarrow> stars_states s v = Some st \<Longrightarrow> u \<noteq> v \<Longrightarrow> txn_ids (state_at s u) \<inter> txn_ids st = {}"
  by (cases "stars_states s u") (auto simp: state_at_def stars_inv_def ids_disjoint_def new_stars_state_def txn_ids_def)

text \<open>Appending one transaction that accounts for the change of a balance.\<close>

lemma appendTxn_inv:
  assumes inv: "stars_inv m s" and m: "0 \<le> m" "m \<le> m'" and u: "u \<noteq> 0" and amount: "amount \<noteq> 0"
    and st: "st = (state_at s u)\<lparr>sst_balance := b, sst_granted := g\<rparr>" "b = sst_balance (state_at s u) + amount" "0 \<le> b" "b \<le> m'"
    and s1: "stars_nextID s1 = stars_nextID s" "(stars_states s1)(u := None) = (stars_states s)(u := None)"
  shows "stars_inv m' (appendTxn s1 st u amount reason peer date title desc)"
proof -
  let ?s = "appendTxn s1 st u amount reason peer date title desc" and ?n = "stars_nextID s"
  define t where "t = \<lparr>tx_ID = ?n + 1, tx_UserID = u, tx_Peer = peer, tx_Amount = amount, tx_Date = date,
               tx_Reason = reason, tx_Title = title, tx_Description = desc\<rparr>"
  define st1 where "st1 = st\<lparr>sst_txns := sst_txns st @ [t]\<rparr>"
  have "(stars_states s1)(u \<mapsto> st1) = (stars_states s)(u \<mapsto> st1)" using s1(2) by (metis fun_upd_upd)
  then have s: "stars_states ?s = (stars_states s)(u \<mapsto> st1)" "stars_nextID ?s = ?n + 1"
    by (simp_all add: appendTxn_def s1(1) st1_def t_def Let_def)
  have ok: "state_ok m ?n u (state_at s u)" using inv m(1) by (rule state_at_ok)
  have n: "0 \<le> ?n" "stars_states s 0 = None" using inv by (simp_all add: stars_inv_def)
  have ids: "txn_ids st1 = insert (?n + 1) (txn_ids (state_at s u))" by (simp add: st1_def st(1) t_def txn_ids_def)
  have sorted1: "sorted_wrt (<) (map tx_ID (sst_txns st1))"
    using ok by (auto simp: state_ok_def explained_def st1_def st(1) t_def sorted_wrt_append zle_add1_eq_le)
  have new_ok: "state_ok m' (?n + 1) u st1"
    using ok st(2-4) amount n(1) sorted1 unfolding state_ok_def explained_def by (auto simp: st1_def st(1) t_def)
  have new_dis: "txn_ids st1 \<inter> txn_ids st' = {}" if v: "stars_states s v = Some st'" "u \<noteq> v" for v st'
  proof -
    have "state_ok m ?n v st'" using inv v by (simp add: stars_inv_def)
    then have "?n + 1 \<notin> txn_ids st'" by (force simp: state_ok_def txn_ids_def)
    then show ?thesis using state_at_disjoint [OF inv v] by (simp add: ids)
  qed
  show ?thesis unfolding stars_inv_def
  proof (intro conjI allI impI)
    show "0 \<le> stars_nextID ?s" using n s by simp
    show "stars_states ?s 0 = None" using n s u by simp
  next
    fix v st' assume v: "stars_states ?s v = Some st'"
    show "state_ok m' (stars_nextID ?s) v st'"
    proof (cases "v = u")
      case True
      then show ?thesis using v s new_ok by simp
    next
      case False
      then have "state_ok m ?n v st'" using v s inv by (simp add: stars_inv_def)
      then show ?thesis using s m(2) by (auto elim: state_ok_mono)
    qed
  next
    show "ids_disjoint (stars_states ?s)" unfolding s
      using inv new_dis by (intro ids_disjoint_update) (auto simp: stars_inv_def)
  qed
qed

subsection \<open>Every call keeps the invariant and refines the purse\<close>

lemma purse_at: "purse_of s u = (sst_balance (state_at s u), sst_granted (state_at s u))"
  by (simp add: purse_of_def state_at_def new_stars_state_def split: option.splits)

lemma purse_append:
  assumes "\<And>v. v \<noteq> u \<Longrightarrow> stars_states s1 v = stars_states s v"
  shows "purse_of (appendTxn s1 st u amount reason peer date title desc) = (purse_of s)(u := (sst_balance st, sst_granted st))"
  using assms by (auto simp: purse_of_def appendTxn_def Let_def fun_eq_iff)

lemma wrap_small: "0 \<le> x \<Longrightarrow> x < 2 ^ 63 \<Longrightarrow> wrap64 x = x"
  by (simp add: int64_def)

text \<open>A state of its own for a user without one changes nothing.\<close>

lemma touch_inv:
  assumes "stars_inv m s" "0 \<le> m" "u \<noteq> 0"
  shows "stars_inv m (s\<lparr>stars_states := (stars_states s)(u \<mapsto> state_at s u)\<rparr>) \<and>
    purse_of (s\<lparr>stars_states := (stars_states s)(u \<mapsto> state_at s u)\<rparr>) = purse_of s"
proof
  let ?s = "s\<lparr>stars_states := (stars_states s)(u \<mapsto> state_at s u)\<rparr>"
  show "purse_of ?s = purse_of s" by (auto simp: purse_of_def state_at_def new_stars_state_def split: option.splits)
  show "stars_inv m ?s" unfolding stars_inv_def
  proof (intro conjI allI impI)
    fix v st assume "stars_states ?s v = Some st"
    then show "state_ok m (stars_nextID ?s) v st"
      using assms state_at_ok [of m s u] by (auto simp: stars_inv_def split: if_splits)
  next
    show "ids_disjoint (stars_states ?s)"
      using ids_disjoint_update [of "stars_states s" u "state_at s u"] state_at_disjoint [OF assms(1)] assms(1)
      by (simp add: stars_inv_def)
  qed (use assms in \<open>auto simp: stars_inv_def\<close>)
qed

lemma grant_step:
  assumes "stars_inv m s" "0 \<le> m" "m + max 0 g < 2 ^ 63"
  shows "stars_inv (m + max 0 g) (fst (ensureGranted g now s u)) \<and>
    purse_of (fst (ensureGranted g now s u)) = purse_grant g u (purse_of s) \<and>
    answer_of (AnswerBalance (snd (ensureGranted g now s u))) = purse_holds (purse_grant g u (purse_of s)) u \<and>
    stars_nextID s \<le> stars_nextID (fst (ensureGranted g now s u))"
proof (cases "g > 0 \<and> u \<noteq> 0")
  case False
  then show ?thesis using assms ledger_inv_mono [of m s "m + max 0 g"]
    by (auto simp: ensureGranted_def store_EnsureGrant_def store_GetBalance_def purse_grant_def purse_holds_def purse_of_def
        zero_balance_def balance_of_def stars_inv_def split: option.splits)
next
  case True
  let ?st = "state_at s u"
  let ?s1 = "s\<lparr>stars_states := (stars_states s)(u \<mapsto> ?st)\<rparr>"
  note touch = touch_inv [OF assms(1,2), of u]
  show ?thesis
  proof (cases "sst_granted ?st")
    case granted: True
    then have "ensureGranted g now s u = (?s1, balance_of u ?st)"
      using True by (simp add: ensureGranted_def store_EnsureGrant_def Let_def flip: state_at_def)
    then show ?thesis using True granted touch ledger_inv_mono [of m ?s1 "m + max 0 g"]
      by (simp add: purse_grant_def purse_holds_def purse_at balance_of_def)
  next
    case False
    let ?b = "sst_balance ?st + g"
    have ok: "0 \<le> sst_balance ?st" "sst_balance ?st \<le> m"
      using state_at_ok [OF assms(1,2), of u] by (simp_all add: state_ok_def)
    then have w: "wrap64 ?b = ?b" using assms True by (intro wrap_small) auto
    let ?st1 = "?st\<lparr>sst_balance := ?b, sst_granted := True\<rparr>"
    have e: "ensureGranted g now s u = (appendTxn ?s1 ?st1 u g StarsReasonGrant no_peer now '''' '''', balance_of u ?st1)"
      using True False w by (simp add: ensureGranted_def store_EnsureGrant_def Let_def flip: state_at_def)
    have "stars_inv (m + max 0 g) (appendTxn ?s1 ?st1 u g StarsReasonGrant no_peer now '''' '''')"
      by (rule appendTxn_inv [OF assms(1,2), where b = ?b and g = True]) (use True ok assms(3) in auto)
    moreover have "purse_of (appendTxn ?s1 ?st1 u g StarsReasonGrant no_peer now '''' '''') = purse_grant g u (purse_of s)"
      using True False by (subst purse_append [of u _ s]) (auto simp: purse_grant_def purse_at)
    ultimately show ?thesis using True False
      by (simp add: e purse_holds_def purse_grant_def purse_at balance_of_def appendTxn_def Let_def)
  qed
qed

lemma stars_step_refines:
  assumes "stars_inv m s" "0 \<le> m" "m + minted g c < 2 ^ 63"
  shows "stars_inv (m + minted g c) (fst (stars_step g c s)) \<and>
    (purse_of (fst (stars_step g c s)), answer_of (snd (stars_step g c s))) = purse_step g c (purse_of s) \<and>
    stars_nextID s \<le> stars_nextID (fst (stars_step g c s))"
proof (cases c)
  case (CallBalance now u)
  then show ?thesis using grant_step [OF assms(1,2), of g now u] assms(3)
    by (simp add: stars_GetBalance_def Let_def)
next
  case (CallCredit now u amount reason peer title desc)
  show ?thesis
  proof (cases "u = 0 \<or> amount \<le> 0")
    case True
    then show ?thesis using CallCredit assms ledger_inv_mono [of m s "m + minted g c"]
      by (auto simp: stars_Credit_def store_Credit_def balance_answer_def)
  next
    case False
    let ?st = "state_at s u"
    let ?b = "sst_balance ?st + amount"
    have ok: "0 \<le> sst_balance ?st" "sst_balance ?st \<le> m"
      using state_at_ok [OF assms(1,2), of u] by (simp_all add: state_ok_def)
    then have w: "wrap64 ?b = ?b" using assms False CallCredit by (intro wrap_small) auto
    let ?st1 = "?st\<lparr>sst_balance := ?b\<rparr>"
    have e: "stars_step g c s = (appendTxn s ?st1 u amount reason peer now title desc, AnswerBalance (balance_of u ?st1))"
      using False w CallCredit by (simp add: stars_Credit_def store_Credit_def balance_answer_def Let_def flip: state_at_def)
    have "stars_inv (m + minted g c) (appendTxn s ?st1 u amount reason peer now title desc)"
      by (rule appendTxn_inv [OF assms(1,2), where b = ?b and g = "sst_granted ?st"]) (use False ok assms(3) CallCredit in auto)
    then show ?thesis unfolding e using False CallCredit
      by (simp add: purse_append [of u s s] purse_holds_def purse_at balance_of_def Let_def) (simp add: appendTxn_def Let_def)
  qed
next
  case (CallDebit now u amount reason peer title desc)
  let ?s1 = "fst (ensureGranted g now s u)"
  have grant: "stars_inv (m + max 0 g) ?s1" "purse_of ?s1 = purse_grant g u (purse_of s)" "stars_nextID s \<le> stars_nextID ?s1"
    using grant_step [OF assms(1,2), of g now u] assms(3) CallDebit by simp_all
  show ?thesis
  proof (cases "amount \<le> 0 \<or> u = 0")
    case True
    then show ?thesis using CallDebit assms grant ledger_inv_mono [of m s "m + minted g c"]
      by (auto simp: stars_Debit_def store_Debit_def balance_answer_def purse_grant_def)
  next
    case False
    let ?st = "state_at ?s1 u"
    have bal: "fst (purse_grant g u (purse_of s) u) = sst_balance ?st" "snd (purse_grant g u (purse_of s) u) = sst_granted ?st"
      using grant(2) [THEN fun_cong, of u] unfolding purse_at by (metis fst_conv, metis snd_conv)
    show ?thesis
    proof (cases "sst_balance ?st < amount")
      case True
      then have "stars_step g c s = (?s1, AnswerRefused ErrStarsInsufficient)"
        using False CallDebit by (auto simp: stars_Debit_def store_Debit_def balance_answer_def state_at_def split: option.splits)
      then show ?thesis using True False CallDebit grant bal by (simp add: Let_def)
    next
      case enough: False
      let ?b = "sst_balance ?st - amount"
      have ok: "0 \<le> sst_balance ?st" "sst_balance ?st \<le> m + max 0 g"
        using state_at_ok [OF grant(1), of u] assms(2) by (simp_all add: state_ok_def)
      then have w: "wrap64 ?b = ?b" using assms enough False CallDebit by (intro wrap_small) auto
      let ?st1 = "?st\<lparr>sst_balance := ?b\<rparr>"
      have some: "stars_states ?s1 u = Some ?st" using enough False ok
        by (auto simp: state_at_def new_stars_state_def split: option.splits)
      have e: "stars_step g c s = (appendTxn ?s1 ?st1 u (- amount) reason peer now title desc, AnswerBalance (balance_of u ?st1))"
        using False enough w CallDebit some by (simp add: stars_Debit_def store_Debit_def balance_answer_def Let_def)
      have "stars_inv (m + max 0 g) (appendTxn ?s1 ?st1 u (- amount) reason peer now title desc)"
        by (rule appendTxn_inv [OF grant(1), where b = ?b and g = "sst_granted ?st"]) (use False enough ok assms(2) in auto)
      then show ?thesis unfolding e using False enough CallDebit grant bal
        by (simp add: purse_append [of u ?s1 ?s1] purse_holds_def balance_of_def Let_def) (simp add: appendTxn_def Let_def)
    qed
  qed
next
  case (CallList now u q)
  show ?thesis
  proof (cases "NormalizeStarsTransactionQuery q")
    case (Inl e)
    then have "\<not> direction_Valid (sq_Direction q)" "e = ErrStarsTransactionQueryInvalid"
      by (auto simp: NormalizeStarsTransactionQuery_def Let_def split: if_splits)
    then show ?thesis using CallList Inl assms ledger_inv_mono [of m s "m + minted g c"]
      by (simp add: stars_ListTransactions_def)
  next
    case (Inr q1)
    then have dir: "direction_Valid (sq_Direction q)" and q1: "direction_Valid (sq_Direction q1)"
      by (auto simp: NormalizeStarsTransactionQuery_def Let_def split: if_splits)
    have "\<exists>p. store_ListTransactions s1 u q1 = Inr p" for s1
      using q1 by (auto simp: store_ListTransactions_def NormalizeStarsTransactionQuery_def Let_def split: option.splits)
    then obtain p where "store_ListTransactions (fst (ensureGranted g now s u)) u q1 = Inr p" by blast
    then show ?thesis using CallList Inr dir grant_step [OF assms(1,2), of g now u] assms(3)
      by (simp add: stars_ListTransactions_def Let_def)
  qed
qed

lemma stars_run_refines:
  assumes "stars_inv m s" "0 \<le> m" "m + minted_total g cs < 2 ^ 63"
  shows "stars_inv (m + minted_total g cs) (fst (stars_run g cs s)) \<and>
    (purse_of (fst (stars_run g cs s)), map answer_of (snd (stars_run g cs s))) = purse_run g cs (purse_of s) \<and>
    stars_nextID s \<le> stars_nextID (fst (stars_run g cs s))"
  using assms
proof (induction cs arbitrary: m s)
  case Nil
  then show ?case by (simp add: minted_total_def)
next
  case (Cons c cs)
  have total: "minted_total g (c # cs) = minted g c + minted_total g cs" by (simp add: minted_total_def)
  have step: "stars_inv (m + minted g c) (fst (stars_step g c s))"
    "(purse_of (fst (stars_step g c s)), answer_of (snd (stars_step g c s))) = purse_step g c (purse_of s)"
    "stars_nextID s \<le> stars_nextID (fst (stars_step g c s))"
    using stars_step_refines [OF Cons.prems(1,2), of g c] Cons.prems(3) total minted_total_nonneg [of g cs] by simp_all
  have "0 \<le> m + minted g c" using Cons.prems(2) minted_nonneg [of g c] by simp
  from Cons.IH [OF step(1) this] Cons.prems(3) total step(2,3) show ?case
    by (auto simp: Let_def add.assoc split: prod.splits) 
qed

subsection \<open>Reading the history page by page\<close>

text \<open>
  A client asks, follows the offset it was given, and stops at a page without one. Each round has the
  time of the request and the calls that others (or itself) make before the next one.
\<close>

fun read_history :: "int \<Rightarrow> (int \<times> stars_call list) list \<Rightarrow> stars_store \<Rightarrow> int \<Rightarrow> stars_query \<Rightarrow> stars_transaction list option" where
  "read_history g [] s u q = None"
| "read_history g ((now, cs) # rounds) s u q =
     (case stars_ListTransactions g now s u q of
        (s1, Inl e) \<Rightarrow> None
      | (s1, Inr p) \<Rightarrow>
          if sp_NextOffset p = '''' then Some (sp_Transactions p)
          else map_option ((@) (sp_Transactions p))
                 (read_history g rounds (fst (stars_run g cs s1)) u (q\<lparr>sq_Offset := sp_NextOffset p\<rparr>)))"

definition grows :: "stars_store \<Rightarrow> stars_store \<Rightarrow> bool" where
  "grows s s' \<longleftrightarrow> stars_nextID s \<le> stars_nextID s' \<and>
     (\<forall>u. \<exists>new. sst_txns (state_at s' u) = sst_txns (state_at s u) @ new \<and> (\<forall>t \<in> set new. stars_nextID s < tx_ID t))"

lemma grows_refl [simp]: "grows s s"
  by (simp add: grows_def)

lemma grows_trans [trans]: "grows s s' \<Longrightarrow> grows s' s'' \<Longrightarrow> grows s s''"
proof -
  assume a: "grows s s'" and b: "grows s' s''"
  have "\<exists>new. sst_txns (state_at s'' u) = sst_txns (state_at s u) @ new \<and> (\<forall>t \<in> set new. stars_nextID s < tx_ID t)" for u
  proof -
    obtain x where x: "sst_txns (state_at s' u) = sst_txns (state_at s u) @ x" "\<forall>t \<in> set x. stars_nextID s < tx_ID t"
      using a unfolding grows_def by blast
    obtain y where y: "sst_txns (state_at s'' u) = sst_txns (state_at s' u) @ y" "\<forall>t \<in> set y. stars_nextID s' < tx_ID t"
      using b unfolding grows_def by blast
    have "stars_nextID s \<le> stars_nextID s'" using a by (simp add: grows_def)
    then show ?thesis using x y by (intro exI [of _ "x @ y"]) force
  qed
  then show ?thesis using a b unfolding grows_def by auto
qed

lemma state_at_upd: "state_at (s\<lparr>stars_states := (stars_states s)(u \<mapsto> st)\<rparr>) v = (if v = u then st else state_at s v)"
  by (simp add: state_at_def)

lemma grows_touch: "sst_txns st = sst_txns (state_at s u) \<Longrightarrow> grows s (s\<lparr>stars_states := (stars_states s)(u \<mapsto> st)\<rparr>)"
  by (auto simp: grows_def state_at_upd)

lemma grows_append:
  assumes "sst_txns st = sst_txns (state_at s u)"
  shows "grows s (appendTxn s st u amount reason peer date title desc)"
  using assms by (auto simp: grows_def appendTxn_def Let_def state_at_def)

lemma granted_cases:
  obtains "fst (ensureGranted g now s u) = s"
  | "fst (ensureGranted g now s u) = s\<lparr>stars_states := (stars_states s)(u \<mapsto> state_at s u)\<rparr>"
  | b where "fst (ensureGranted g now s u) = appendTxn (s\<lparr>stars_states := (stars_states s)(u \<mapsto> state_at s u)\<rparr>)
      ((state_at s u)\<lparr>sst_balance := b, sst_granted := True\<rparr>) u g StarsReasonGrant no_peer now [] []"
  by (cases "g \<le> 0"; cases "u = 0"; cases "sst_granted (state_at s u)")
    (simp_all add: ensureGranted_def store_EnsureGrant_def Let_def flip: state_at_def)

lemma grows_grant: "grows s (fst (ensureGranted g now s u))"
proof -
  let ?s1 = "s\<lparr>stars_states := (stars_states s)(u \<mapsto> state_at s u)\<rparr>"
  have t: "grows s ?s1" by (rule grows_touch) simp
  show ?thesis
  proof (cases rule: granted_cases [of g now s u])
    case (3 b)
    have "grows ?s1 (appendTxn ?s1 ((state_at s u)\<lparr>sst_balance := b, sst_granted := True\<rparr>) u g StarsReasonGrant no_peer now [] [])"
      by (rule grows_append) (simp add: state_at_upd)
    with t show ?thesis unfolding 3 by (rule grows_trans)
  qed (use t in simp_all)
qed

lemma grows_step: "grows s (fst (stars_step g c s))"
proof (cases c)
  case (CallBalance now u)
  then show ?thesis by (simp add: stars_GetBalance_def grows_grant)
next
  case (CallCredit now u amount reason peer title desc)
  then show ?thesis by (auto simp: stars_Credit_def store_Credit_def Let_def state_at_def intro!: grows_append split: option.splits)
next
  case (CallDebit now u amount reason peer title desc)
  have "grows s1 (fst (store_Debit s1 u amount reason peer now title desc))" for s1
    by (auto simp: store_Debit_def Let_def state_at_def intro!: grows_append split: option.splits)
  then have "grows s (fst (store_Debit (fst (ensureGranted g now s u)) u amount reason peer now title desc))"
    using grows_grant grows_trans by blast
  then show ?thesis using CallDebit by (simp add: stars_Debit_def)
next
  case (CallList now u q)
  then show ?thesis by (simp add: stars_ListTransactions_def Let_def grows_grant split: sum.splits)
qed

lemma grows_run: "grows s (fst (stars_run g cs s))"
proof (induction cs arbitrary: s)
  case (Cons c cs)
  then show ?case using grows_trans [OF grows_step [of s g c]] by (simp add: Let_def split: prod.splits) (metis fst_conv)
qed simp

lemma txn_loop_take:
  "0 \<le> limit \<Longrightarrow> int (length out) \<le> limit + 1 \<Longrightarrow>
     txn_loop keep limit ts out = out @ take (nat (limit + 1) - length out) (filter keep ts)"
proof (induction ts arbitrary: out)
  case (Cons t ts)
  show ?case
  proof (cases "int (length out) \<le> limit")
    case True
    then have "nat (limit + 1) - length out = Suc (nat (limit + 1) - length (out @ [t]))" by simp
    then show ?thesis using True Cons by simp
  next
    case False
    then have "nat (limit + 1) - length out = 0" using Cons.prems by simp
    then show ?thesis using False by simp
  qed
qed simp

text \<open>What a request with a cursor is about, newest first.\<close>

definition pending_history :: "stars_transaction list \<Rightarrow> nat \<Rightarrow> int option \<Rightarrow> stars_transaction list" where
  "pending_history txns d cursor =
     filter (\<lambda>t. (case cursor of None \<Rightarrow> True | Some c \<Rightarrow> tx_ID t < c) \<and> IncludesAmount d (tx_Amount t)) (rev txns)"

definition history_query :: "stars_query \<Rightarrow> bool" where
  "history_query q \<longleftrightarrow> direction_Valid (sq_Direction q) \<and> 0 < sq_Limit q \<and> sq_Limit q \<le> 100 \<and> \<not> sq_Ascending q \<and> length (sq_Offset q) \<le> 64"

lemma page_descending:
  assumes "u \<noteq> 0" "history_query q"
    and R: "R = pending_history (sst_txns (state_at s1 u)) (sq_Direction q) (DecodeStarsCursor (sq_Offset q))"
    and s1: "s1 = fst (ensureGranted g now s u)"
  obtains b where "stars_ListTransactions g now s u q = (s1, Inr
    (if int (length R) > sq_Limit q
     then \<lparr>sp_Balance = b, sp_Transactions = take (nat (sq_Limit q)) R,
           sp_NextOffset = EncodeStarsCursor (tx_ID (last (take (nat (sq_Limit q)) R)))\<rparr>
     else \<lparr>sp_Balance = b, sp_Transactions = R, sp_NextOffset = ''''\<rparr>))"
proof -
  have norm: "NormalizeStarsTransactionQuery q = Inr q"
    using assms(2) by (simp add: history_query_def NormalizeStarsTransactionQuery_def MaxStarsTransactionsOffsetBytes_def
        MaxStarsTransactionsLimit_def Let_def)
  have limit: "0 < sq_Limit q" "\<not> sq_Ascending q" using assms(2) by (simp_all add: history_query_def)
  have keep: "appendMatch q (DecodeStarsCursor (sq_Offset q)) = (\<lambda>t. (case DecodeStarsCursor (sq_Offset q) of None \<Rightarrow> True | Some c \<Rightarrow> tx_ID t < c) \<and>
      IncludesAmount (sq_Direction q) (tx_Amount t))"
    using limit by (auto simp: appendMatch_def fun_eq_iff split: option.splits)
  show ?thesis
  proof (cases "stars_states s1 u")
    case None
    then have "R = []" by (simp add: R state_at_def new_stars_state_def pending_history_def)
    then show ?thesis using None assms(1) norm limit that [of 0]
      by (simp add: stars_ListTransactions_def store_ListTransactions_def empty_page_def Let_def flip: s1)
  next
    case (Some st)
    then have st: "state_at s1 u = st" by (simp add: state_at_def)
    have "txn_loop (appendMatch q (DecodeStarsCursor (sq_Offset q))) (sq_Limit q) (rev (sst_txns st)) [] = take (nat (sq_Limit q + 1)) R"
      using limit by (subst txn_loop_take) (simp_all add: R keep st pending_history_def)
    moreover have "take (nat (sq_Limit q)) (take (nat (sq_Limit q + 1)) R) = take (nat (sq_Limit q)) R" by (simp add: min_def)
    moreover have "int (length (take (nat (sq_Limit q + 1)) R)) > sq_Limit q \<longleftrightarrow> int (length R) > sq_Limit q" using limit by auto
    moreover have "\<not> int (length R) > sq_Limit q \<Longrightarrow> take (nat (sq_Limit q + 1)) R = R" by simp
    ultimately show ?thesis using Some assms(1) norm limit that [of "sst_balance st"]
      by (auto simp: stars_ListTransactions_def store_ListTransactions_def Let_def simp flip: s1)
  qed
qed

lemma descending_rest:
  "sorted_wrt (\<lambda>a b. tx_ID b < tx_ID a) R \<Longrightarrow> 0 < l \<Longrightarrow> l < length R \<Longrightarrow>
     filter (\<lambda>t. tx_ID t < tx_ID (last (take l R))) R = drop l R"
proof -
  assume s: "sorted_wrt (\<lambda>a b. tx_ID b < tx_ID a) R" and l: "0 < l" "l < length R"
  let ?a = "take l R" and ?b = "drop l R"
  have ab: "R = ?a @ ?b" by simp
  have ne: "?a \<noteq> []" using l by auto
  have parts: "sorted_wrt (\<lambda>a b. tx_ID b < tx_ID a) ?a" "\<forall>x \<in> set ?a. \<forall>y \<in> set ?b. tx_ID y < tx_ID x"
    using s ab sorted_wrt_append by metis+
  obtain a' x where a': "?a = a' @ [x]" using ne by (cases ?a rule: rev_cases) auto
  have "\<forall>t \<in> set ?a. \<not> tx_ID t < tx_ID (last ?a)" using parts(1) unfolding a' by (auto simp: sorted_wrt_append)
  moreover have "\<forall>t \<in> set ?b. tx_ID t < tx_ID (last ?a)" using parts(2) ne by simp
  ultimately have "filter (\<lambda>t. tx_ID t < tx_ID (last ?a)) ?a = []" "filter (\<lambda>t. tx_ID t < tx_ID (last ?a)) ?b = ?b"
    by (simp_all add: filter_empty_conv filter_id_conv)
  then have "filter (\<lambda>t. tx_ID t < tx_ID (last ?a)) (?a @ ?b) = ?b" by (simp only: filter_append append_Nil)
  then show ?thesis by (simp only: append_take_drop_id)
qed

lemma pending_sorted:
  "sorted_wrt (<) (map tx_ID txns) \<Longrightarrow> sorted_wrt (\<lambda>a b. tx_ID b < tx_ID a) (pending_history txns d cursor)"
  unfolding pending_history_def by (rule sorted_wrt_filter) (simp add: sorted_wrt_rev sorted_wrt_map)

lemma last_take_in: "0 < l \<Longrightarrow> l < length R \<Longrightarrow> last (take l R) \<in> set R"
proof -
  assume "0 < l" "l < length R"
  then have "take l R \<noteq> []" by auto
  then show ?thesis using set_take_subset [of l R] last_in_set [of "take l R"] by blast
qed

lemma pending_next:
  assumes "sorted_wrt (<) (map tx_ID txns)" "R = pending_history txns d cursor" "0 < l" "l < length R"
  shows "pending_history txns d (Some (tx_ID (last (take l R)))) = drop l R"
proof -
  let ?c = "tx_ID (last (take l R))"
  have "last (take l R) \<in> set R" using assms(3,4) by (rule last_take_in)
  then have c: "case cursor of None \<Rightarrow> True | Some c \<Rightarrow> ?c < c" by (auto simp: assms(2) pending_history_def split: option.splits)
  have "filter (\<lambda>t. tx_ID t < ?c) R = pending_history txns d (Some ?c)"
    unfolding assms(2) pending_history_def filter_filter
    using c by (intro filter_cong) (auto simp: assms(2) pending_history_def split: option.splits)
  then show ?thesis using descending_rest [OF pending_sorted [OF assms(1)], of l d cursor] assms by simp
qed

lemma pending_grown:
  assumes "\<forall>t \<in> set new. c \<le> tx_ID t"
  shows "pending_history (txns @ new) d (Some c) = pending_history txns d (Some c)"
  using assms by (force simp: pending_history_def filter_empty_conv)

text \<open>The rounds after the first one, from any later store.\<close>

lemma read_history_from:
  assumes "u \<noteq> 0" "history_query q" "DecodeStarsCursor (sq_Offset q) = Some c" "c \<le> stars_nextID s0"
    and "sorted_wrt (<) (map tx_ID txns)" "\<forall>t \<in> set txns. 0 < tx_ID t \<and> tx_ID t \<le> stars_nextID s0" "stars_nextID s0 < 2 ^ 63"
    and "sst_txns (state_at s0 u) = txns" "grows s0 s"
    and "R = pending_history txns (sq_Direction q) (Some c)" "rounds \<noteq> []" "length R \<le> nat (sq_Limit q) * length rounds"
  shows "read_history g rounds s u q = Some R"
  using assms
proof (induction rounds arbitrary: s q c R)
  case (Cons round rounds)
  obtain now cs where round: "round = (now, cs)" by (cases round)
  define s1 where "s1 = fst (ensureGranted g now s u)"
  have g1: "grows s0 s1" using Cons.prems(9) grows_grant grows_trans unfolding s1_def by blast
  then obtain new where new: "sst_txns (state_at s1 u) = txns @ new" "\<forall>t \<in> set new. stars_nextID s0 < tx_ID t"
    using Cons.prems(8) unfolding grows_def by metis
  have R: "R = pending_history (sst_txns (state_at s1 u)) (sq_Direction q) (DecodeStarsCursor (sq_Offset q))"
    unfolding new(1) Cons.prems(3,10) using new(2) Cons.prems(4) by (intro pending_grown [symmetric]) force
  obtain b where page: "stars_ListTransactions g now s u q = (s1, Inr
    (if int (length R) > sq_Limit q
     then \<lparr>sp_Balance = b, sp_Transactions = take (nat (sq_Limit q)) R,
           sp_NextOffset = EncodeStarsCursor (tx_ID (last (take (nat (sq_Limit q)) R)))\<rparr>
     else \<lparr>sp_Balance = b, sp_Transactions = R, sp_NextOffset = ''''\<rparr>))"
    by (rule page_descending [OF Cons.prems(1,2) R s1_def])
  show ?case
  proof (cases "int (length R) > sq_Limit q")
    case False
    then show ?thesis by (simp add: round page)
  next
    case True
    let ?l = "nat (sq_Limit q)"
    let ?c = "tx_ID (last (take ?l R))" and ?R = "drop ?l R"
    have l: "0 < ?l" "?l < length R" using True Cons.prems(2) by (auto simp: history_query_def)
    have "last (take ?l R) \<in> set R" using l by (rule last_take_in)
    then have c: "0 < ?c" "?c \<le> stars_nextID s0" using Cons.prems(6,10) by (auto simp: pending_history_def)
    then have c64: "int64 ?c" using Cons.prems(7) by (simp add: int64_def)
    note cursor = decode_encode_cursor [OF c(1) c64]
    let ?q = "q\<lparr>sq_Offset := EncodeStarsCursor ?c\<rparr>"
    have rounds: "rounds \<noteq> []" using Cons.prems(12) l by auto
    have "read_history g rounds (fst (stars_run g cs s1)) u ?q = Some ?R"
    proof (rule Cons.IH [OF Cons.prems(1)])
      show "history_query ?q" using Cons.prems(2) cursor by (simp add: history_query_def)
      show "DecodeStarsCursor (sq_Offset ?q) = Some ?c" using cursor by simp
      show "grows s0 (fst (stars_run g cs s1))" using g1 grows_run grows_trans by blast
      show "?R = pending_history txns (sq_Direction ?q) (Some ?c)"
        using pending_next [OF Cons.prems(5,10) l] by simp
      show "length ?R \<le> nat (sq_Limit ?q) * length rounds" using Cons.prems(12) by simp
    qed (use Cons.prems c rounds in auto)
    then show ?thesis using True cursor by (simp add: round page)
  qed
qed simp

text \<open>The starting grant keeps the ids of a user's transactions increasing, whatever the amounts.\<close>

lemma granted_ids:
  assumes "stars_inv m s" "0 \<le> m"
  shows "sorted_wrt (<) (map tx_ID (sst_txns (state_at (fst (ensureGranted g now s u)) u))) \<and>
    (\<forall>t \<in> set (sst_txns (state_at (fst (ensureGranted g now s u)) u)). 0 < tx_ID t \<and> tx_ID t \<le> stars_nextID (fst (ensureGranted g now s u)))"
proof -
  have ok: "state_ok m (stars_nextID s) u (state_at s u)" by (rule state_at_ok [OF assms])
  have n: "0 \<le> stars_nextID s" using assms(1) by (simp add: stars_inv_def)
  consider "sst_txns (state_at (fst (ensureGranted g now s u)) u) = sst_txns (state_at s u)"
      "stars_nextID (fst (ensureGranted g now s u)) = stars_nextID s"
    | t where "sst_txns (state_at (fst (ensureGranted g now s u)) u) = sst_txns (state_at s u) @ [t]" "tx_ID t = stars_nextID s + 1"
      "stars_nextID (fst (ensureGranted g now s u)) = stars_nextID s + 1"
    by (cases rule: granted_cases [of g now s u]) (simp_all add: state_at_upd, simp add: appendTxn_def Let_def state_at_def)
  then show ?thesis
  proof cases
    case 1
    then show ?thesis using ok by (simp add: state_ok_def explained_def)
  next
    case 2
    then show ?thesis using ok n by (auto simp: state_ok_def explained_def sorted_wrt_append zle_add1_eq_le)
  qed
qed

subsection \<open>Properties\<close>

text \<open>
  C23. The Stars service refines the purse. For every sequence of calls whose credits and starting grants
  stay within 64 bits, every answer (balance, refusal, page) is the one the purse gives with exact
  arithmetic, and afterwards the balances are those of the purse: a debit is refused exactly when the
  purse does not hold the amount, and the starting grant is given once, before the first debit. The
  bound \<open>minted_total\<close> counts a starting grant for every call that could give one.
\<close>

theorem stars_refine_purse:
  assumes "minted_total g cs < 2 ^ 63"
  shows "(case stars_run g cs NewStarsStore of (s, answers) \<Rightarrow> (purse_of s, map answer_of answers)) =
    purse_run g cs (\<lambda>_. (0, False))"
proof -
  have "stars_inv 0 NewStarsStore" by (simp add: stars_inv_def NewStarsStore_def ids_disjoint_def)
  moreover have "purse_of NewStarsStore = (\<lambda>_. (0, False))" by (simp add: purse_of_def NewStarsStore_def)
  ultimately show ?thesis using stars_run_refines [of 0 NewStarsStore g cs] assms by (simp add: case_prod_unfold)
qed

text \<open>
  C24. The transactions explain the balances. After any sequence of calls whose credits and starting
  grants stay within 64 bits, the balance of every user is the sum of the user's transactions and is
  not negative, the transactions are the user's own, change the balance, and have increasing ids, and
  no two transactions of the ledger share an id.
\<close>

theorem transactions_explain:
  assumes "minted_total g cs < 2 ^ 63" "stars_states (fst (stars_run g cs NewStarsStore)) u = Some st"
  shows "sst_balance st = sum_list (map tx_Amount (sst_txns st)) \<and> 0 \<le> sst_balance st \<and>
    sst_balance st \<le> minted_total g cs \<and> sorted_wrt (<) (map tx_ID (sst_txns st)) \<and>
    list_all (\<lambda>t. tx_UserID t = u \<and> tx_Amount t \<noteq> 0) (sst_txns st) \<and>
    (\<forall>v st'. stars_states (fst (stars_run g cs NewStarsStore)) v = Some st' \<and> v \<noteq> u \<longrightarrow>
       tx_ID ` set (sst_txns st) \<inter> tx_ID ` set (sst_txns st') = {})"
proof -
  have "stars_inv 0 NewStarsStore" by (simp add: stars_inv_def NewStarsStore_def ids_disjoint_def)
  then have inv: "stars_inv (minted_total g cs) (fst (stars_run g cs NewStarsStore))"
    using stars_run_refines [of 0 NewStarsStore g cs] assms(1) by simp
  then have "state_ok (minted_total g cs) (stars_nextID (fst (stars_run g cs NewStarsStore))) u st"
    using assms(2) by (simp add: stars_inv_def)
  moreover have "ids_disjoint (stars_states (fst (stars_run g cs NewStarsStore)))" using inv by (simp add: stars_inv_def)
  ultimately show ?thesis using assms(2)
    by (auto simp: state_ok_def explained_def list_all_iff ids_disjoint_def txn_ids_def) blast+
qed

text \<open>
  C25. Paging through the history ends and is complete. A client that reads its transactions newest first
  with a page size of 1 to 100, follows the offset of each page and stops at the page without one gets,
  within one request per page, every transaction of the wanted direction that existed at its first
  request, each once and in order, whatever is credited, debited or read between the requests.
\<close>

theorem history_complete:
  assumes "minted_total g cs < 2 ^ 63" "s = fst (stars_run g cs NewStarsStore)"
    and "u \<noteq> 0" "direction_Valid d" "0 < limit" "limit \<le> 100"
    and "s1 = fst (ensureGranted g now s u)" "stars_nextID s1 < 2 ^ 63"
    and "all = filter (\<lambda>t. IncludesAmount d (tx_Amount t)) (rev (sst_txns (state_at s1 u)))"
    and "length all \<le> nat limit * (1 + length rounds)"
  shows "read_history g ((now, cs1) # rounds) s u \<lparr>sq_Offset = '''', sq_Limit = limit, sq_Direction = d, sq_Ascending = False\<rparr> = Some all"
proof -
  let ?q = "\<lparr>sq_Offset = '''', sq_Limit = limit, sq_Direction = d, sq_Ascending = False\<rparr>"
  let ?txns = "sst_txns (state_at s1 u)"
  have "stars_inv 0 NewStarsStore" by (simp add: stars_inv_def NewStarsStore_def ids_disjoint_def)
  then have inv0: "stars_inv (minted_total g cs) s"
    using stars_run_refines [of 0 NewStarsStore g cs] assms(1,2) by simp
  have grown: "grows s s1" unfolding assms(7) by (rule grows_grant)
  have sorted1: "sorted_wrt (<) (map tx_ID ?txns)" and range1: "\<forall>t \<in> set ?txns. 0 < tx_ID t \<and> tx_ID t \<le> stars_nextID s1"
    using granted_ids [OF inv0 minted_total_nonneg, of g now u] by (simp_all add: assms(7))
  have q: "history_query ?q" using assms(4-6) by (simp add: history_query_def)
  have first: "DecodeStarsCursor (sq_Offset ?q) = None" by (simp add: DecodeStarsCursor_def)
  have all: "all = pending_history ?txns (sq_Direction ?q) (DecodeStarsCursor (sq_Offset ?q))"
    unfolding first by (simp add: pending_history_def assms(9))
  obtain b where "stars_ListTransactions g now s u ?q = (s1, Inr
    (if int (length all) > sq_Limit ?q
     then \<lparr>sp_Balance = b, sp_Transactions = take (nat (sq_Limit ?q)) all,
           sp_NextOffset = EncodeStarsCursor (tx_ID (last (take (nat (sq_Limit ?q)) all)))\<rparr>
     else \<lparr>sp_Balance = b, sp_Transactions = all, sp_NextOffset = ''''\<rparr>))"
    by (rule page_descending [OF assms(3) q all assms(7)])
  then have page: "stars_ListTransactions g now s u ?q = (s1, Inr
    (if int (length all) > limit
     then \<lparr>sp_Balance = b, sp_Transactions = take (nat limit) all, sp_NextOffset = EncodeStarsCursor (tx_ID (last (take (nat limit) all)))\<rparr>
     else \<lparr>sp_Balance = b, sp_Transactions = all, sp_NextOffset = ''''\<rparr>))"
    by simp
  show ?thesis
  proof (cases "int (length all) > limit")
    case False
    then show ?thesis by (simp add: page)
  next
    case True
    let ?l = "nat limit"
    let ?c = "tx_ID (last (take ?l all))"
    have l: "0 < ?l" "?l < length all" using True assms(5) by auto
    have "last (take ?l all) \<in> set all" using l by (rule last_take_in)
    then have c: "0 < ?c" "?c \<le> stars_nextID s1" using range1 by (auto simp: assms(9))
    then have c64: "int64 ?c" using assms(8) by (simp add: int64_def)
    note cursor = decode_encode_cursor [OF c(1) c64]
    have rounds: "rounds \<noteq> []" using assms(10) l by auto
    have "read_history g rounds (fst (stars_run g cs1 s1)) u (?q\<lparr>sq_Offset := EncodeStarsCursor ?c\<rparr>) = Some (drop ?l all)"
    proof (rule read_history_from [OF assms(3), where c = ?c and ?s0.0 = s1 and txns = ?txns])
      show "drop ?l all = pending_history ?txns (sq_Direction (?q\<lparr>sq_Offset := EncodeStarsCursor ?c\<rparr>)) (Some ?c)"
        using pending_next [OF sorted1 all l] by simp
    qed (use q cursor c assms sorted1 range1 rounds grows_run in \<open>auto simp: history_query_def\<close>)
    then show ?thesis using True cursor by (simp add: page)
  qed
qed

text \<open>
  Without the bound the balance can leave the non-negative numbers: two credits of 2^62 make it -2^63.
\<close>

lemma credits_overflow:
  "sb_Balance (store_GetBalance (fst (stars_run 0
     [CallCredit 1 7 (2 ^ 62) StarsReasonTopup no_peer [] [], CallCredit 1 7 (2 ^ 62) StarsReasonTopup no_peer [] []]
     NewStarsStore)) 7) = - (2 ^ 63)"
  by (simp add: stars_Credit_def store_Credit_def appendTxn_def NewStarsStore_def new_stars_state_def store_GetBalance_def
      balance_of_def wrap64_def Let_def)

text \<open>
  A giveaway is paid for exactly. A giveaway form is a valid purchase only if its winners times the
  stars of each are the stars bought, in exact arithmetic: the 64-bit product cannot be made to agree by
  overflow. Conversely every well-formed giveaway whose product is exact is accepted.
\<close>

theorem giveaway_exact:
  assumes "pf_Kind form = StarsPurchaseGiveaway" "pf_Giveaway form = Some g" "int64 (pf_Stars form)"
  shows "validPurchaseCommand form \<longleftrightarrow>
    0 < pf_BuyerUserID form \<and> 0 < pf_Amount form \<and> pf_Currency form \<noteq> [] \<and> pf_RecipientUserID form = 0 \<and>
    pf_SpendPurposePeer form = no_peer \<and> peer_Type (sg_BoostPeer g) = PeerTypeChannel \<and> 0 < peer_ID (sg_BoostPeer g) \<and>
    sg_RandomID g \<noteq> 0 \<and> 0 < sg_UntilDate g \<and> 0 < sg_Users g \<and> 0 < sg_PerUserStars g \<and>
    sg_Users g * sg_PerUserStars g = pf_Stars form"
proof -
  have fits: "wrap64 (sg_Users g * sg_PerUserStars g) = sg_Users g * sg_PerUserStars g"
    if "0 < sg_Users g" "0 < sg_PerUserStars g" "0 < pf_Stars form" "sg_Users g \<le> pf_Stars form div sg_PerUserStars g"
  proof -
    have "sg_Users g * sg_PerUserStars g \<le> pf_Stars form div sg_PerUserStars g * sg_PerUserStars g"
      using that by (intro mult_right_mono) simp_all
    also have "\<dots> \<le> pf_Stars form" using that by (simp add: div_mult_mod_eq minus_mod_eq_div_mult [symmetric])
    finally have "sg_Users g * sg_PerUserStars g \<le> pf_Stars form" .
    moreover have "0 < sg_Users g * sg_PerUserStars g" using that by simp
    ultimately show ?thesis using assms(3) by (intro wrap64_id) (simp add: int64_def)
  qed
  have exact_fits: "sg_Users g \<le> pf_Stars form div sg_PerUserStars g"
    if "0 < sg_PerUserStars g" "sg_Users g * sg_PerUserStars g = pf_Stars form"
    using that by (simp flip: that(2))
  show ?thesis
  proof (cases "0 < sg_Users g \<and> 0 < sg_PerUserStars g \<and> 0 < pf_Stars form")
    case True
    then have "quot64 (pf_Stars form) (sg_PerUserStars g) = pf_Stars form div sg_PerUserStars g" by (simp add: quot64_nonneg)
    then show ?thesis using True fits exact_fits assms(1,2) by (auto simp: validPurchaseCommand_def kind_Valid_def)
  next
    case False
    moreover have "sg_Users g * sg_PerUserStars g \<noteq> pf_Stars form" if "0 < sg_Users g" "0 < sg_PerUserStars g" "pf_Stars form \<le> 0"
      using that mult_pos_pos [OF that(1,2)] by linarith
    ultimately show ?thesis using assms(1,2) by (auto simp: validPurchaseCommand_def kind_Valid_def)
  qed
qed

subsection \<open>Witnesses\<close>

definition sample_calls :: "stars_call list" where
  "sample_calls = [CallDebit 1 7 4 StarsReasonGift no_peer [] [], CallCredit 2 7 3 StarsReasonTopup no_peer [] [],
     CallDebit 3 7 100 StarsReasonGift no_peer [] []]"

lemmas stars_eval = sample_calls_def stars_Debit_def store_Debit_def stars_Credit_def store_Credit_def ensureGranted_def
  store_EnsureGrant_def appendTxn_def NewStarsStore_def new_stars_state_def balance_answer_def balance_of_def Let_def wrap64_def

lemma minted_sample: "minted_total 10 sample_calls < 2 ^ 63"
  by (simp add: sample_calls_def minted_total_def)

lemma stars_refine_purse_witness:
  "map answer_of (snd (stars_run 10 sample_calls NewStarsStore)) =
     [Holds 7 6 True, Holds 7 9 True, Refused ErrStarsInsufficient]"
proof -
  have "map answer_of (snd (stars_run 10 sample_calls NewStarsStore)) = snd (purse_run 10 sample_calls (\<lambda>_. (0, False)))"
    using stars_refine_purse [OF minted_sample] by (metis (no_types, lifting) case_prod_unfold snd_conv)
  then show ?thesis by (simp add: sample_calls_def purse_grant_def purse_holds_def Let_def)
qed

lemma transactions_explain_witness:
  "sst_balance (the (stars_states (fst (stars_run 10 sample_calls NewStarsStore)) 7)) =
     sum_list (map tx_Amount (sst_txns (the (stars_states (fst (stars_run 10 sample_calls NewStarsStore)) 7)))) \<and>
   map tx_Amount (sst_txns (the (stars_states (fst (stars_run 10 sample_calls NewStarsStore)) 7))) = [10, - 4, 3]"
proof -
  have "stars_states (fst (stars_run 10 sample_calls NewStarsStore)) 7 \<noteq> None" by (simp add: stars_eval)
  then obtain st where st: "stars_states (fst (stars_run 10 sample_calls NewStarsStore)) 7 = Some st" by blast
  have "map tx_Amount (sst_txns (the (stars_states (fst (stars_run 10 sample_calls NewStarsStore)) 7))) = [10, - 4, 3]"
    by (simp add: stars_eval)
  then show ?thesis using transactions_explain [OF minted_sample st] st by simp
qed

lemma history_complete_witness:
  "map_option (map tx_Amount) (read_history 10 [(4, [CallCredit 5 7 1 StarsReasonTopup no_peer [] []]), (6, [])]
     (fst (stars_run 10 sample_calls NewStarsStore)) 7
     \<lparr>sq_Offset = [], sq_Limit = 2, sq_Direction = 0, sq_Ascending = False\<rparr>) = Some [3, - 4, 10]"
proof -
  let ?s = "fst (stars_run 10 sample_calls NewStarsStore)"
  let ?s1 = "fst (ensureGranted 10 4 ?s 7)"
  have n: "stars_nextID ?s1 < 2 ^ 63" and t: "map tx_Amount (sst_txns (state_at ?s1 7)) = [10, - 4, 3]"
    by (simp_all add: stars_eval state_at_def)
  then have "length (sst_txns (state_at ?s1 7)) = 3" by (metis length_map list.size(3,4) numeral_3_eq_3 One_nat_def add.right_neutral add_Suc_right)
  then show ?thesis
    using history_complete [OF minted_sample refl, of 7 0 2 ?s1 4 _ "[(6, [])]" "[CallCredit 5 7 1 StarsReasonTopup no_peer [] []]"] n t
    by (simp add: direction_Valid_def IncludesAmount_def del: read_history.simps) (simp flip: rev_map)
qed

definition sample_giveaway :: purchase_form where
  "sample_giveaway = \<lparr>pf_FormID = 1, pf_Kind = StarsPurchaseGiveaway, pf_BuyerUserID = 7, pf_RecipientUserID = 0,
     pf_SpendPurposePeer = no_peer,
     pf_Giveaway = Some \<lparr>sg_BoostPeer = \<lparr>peer_Type = PeerTypeChannel, peer_ID = 3\<rparr>, sg_RandomID = 5, sg_UntilDate = 9,
       sg_Users = 4, sg_PerUserStars = 250, sg_rest = 0\<rparr>,
     pf_Stars = 1000, pf_Currency = ''USD'', pf_Amount = 1999, pf_IssuedAt = 100, pf_ExpiresAt = 700\<rparr>"

lemma giveaway_exact_witness: "validPurchaseCommand sample_giveaway"
  using giveaway_exact [of sample_giveaway] by (simp add: sample_giveaway_def int64_def)

end
