(* ===== verification/Phone_Call.thy ===== *)
theory Phone_Call
  imports Go_Strconv "HOL-Library.Word"
begin

text \<open>
  Private calls: \<^verbatim>\<open>internal/domain/phone.go\<close>, \<^verbatim>\<open>internal/app/phone/registry.go\<close> and
  \<^verbatim>\<open>internal/app/phone/service.go\<close>.

  \<^item> The registry's lock makes every operation one step. \<open>now\<close> is the clock in Unix seconds; \<open>sha\<close> is
    \<^verbatim>\<open>sha256.Sum256\<close>; random words are arguments, \<open>None\<close> when the random source fails.
  \<^item> The map of calls is ranged over, so it is an association list in the (unspecified) order of the
    iteration. The map of common versions is ranged over as well: \<open>order\<close> is that order.
  \<^item> A signal is checked under the registry's lock and counted under the lock of its call; \<open>mid\<close> is what
    happens to the registry in between. The counters of a call are kept apart from the call, since they
    outlive its removal; a call id drawn again while a signal of the removed call is in flight is not
    told apart.
\<close>

subsection \<open>Data\<close>

datatype phone_error =
    ErrPeerInvalid
  | ErrAlreadyAccepted
  | ErrAlreadyDeclined
  | ErrOccupyFailed
  | ErrProtocolLayerInvalid
  | ErrProtocolCompatLayerInvalid
  | ErrProtocolFlagsInvalid
  | ErrGAHashMismatch
  | ErrRandomID
  | ErrExhaustedIDs

datatype phone_state =
    PhoneCallStateRequested | PhoneCallStateRinging | PhoneCallStateAccepted | PhoneCallStateConfirmed | PhoneCallStateDiscarded

datatype discard_reason =
    DiscardReasonNone
  | PhoneCallDiscardReasonMissed
  | PhoneCallDiscardReasonDisconnect
  | PhoneCallDiscardReasonHangup
  | PhoneCallDiscardReasonBusy
  | PhoneCallDiscardReasonMigrateConference

record call_protocol =
  cp_UDPP2P :: bool
  cp_UDPReflector :: bool
  cp_MinLayer :: int
  cp_MaxLayer :: int
  cp_LibraryVersions :: "string list"

record session_ref =
  sr_RawAuthKeyID :: "64 word"
  sr_SessionID :: int

record phone_call =
  pc_ID :: int
  pc_AccessHash :: int
  pc_AdminID :: int
  pc_ParticipantID :: int
  pc_Video :: bool
  pc_State :: phone_state
  pc_Date :: int
  pc_ReceiveDate :: int
  pc_StartDate :: int
  pc_DiscardedAt :: int
  pc_GAHash :: "8 word list"
  pc_GB :: "8 word list"
  pc_GA :: "8 word list"
  pc_KeyFingerprint :: int
  pc_Protocol :: call_protocol
  pc_CallerProtocol :: call_protocol
  pc_CalleeProtocol :: call_protocol
  pc_P2PAllowed :: bool
  pc_DiscardReason :: discard_reason
  pc_DiscardReasonSlug :: string
  pc_Duration :: int
  pc_PrivacyP2P :: bool
  pc_Connections :: "nat list"
  pc_RandomID :: int
  pc_CallerDevice :: session_ref
  pc_CalleeDevice :: session_ref

record call_request =
  cr_CalleeID :: int
  cr_RandomID :: int
  cr_GAHash :: "8 word list"
  cr_Video :: bool
  cr_Protocol :: call_protocol
  cr_CallerDevice :: session_ref
  cr_PrivacyP2P :: bool
  cr_Connections :: "nat list"

record phone_config =
  cf_RingTimeout :: duration
  cf_TombstoneTTL :: duration
  cf_MaxActivePerUser :: int
  cf_MaxRegistryEntries :: int
  cf_SignalingRatePerSecond :: int

record phone_registry =
  rg_byID :: "(int \<times> phone_call) list"
  rg_byRandom :: "int \<times> int \<Rightarrow> int option"
  rg_active :: "int \<Rightarrow> int option"
  rg_signals :: "int \<Rightarrow> int \<times> int"

definition call_Terminal :: "phone_call \<Rightarrow> bool" where
  "call_Terminal c \<longleftrightarrow> pc_State c = PhoneCallStateDiscarded"

definition call_PeerOf :: "phone_call \<Rightarrow> int \<Rightarrow> int" where
  "call_PeerOf c userID = (if userID = pc_AdminID c then pc_ParticipantID c
     else if userID = pc_ParticipantID c then pc_AdminID c else 0)"

definition call_HasParticipant :: "phone_call \<Rightarrow> int \<Rightarrow> bool" where
  "call_HasParticipant c userID \<longleftrightarrow> userID \<noteq> 0 \<and> (userID = pc_AdminID c \<or> userID = pc_ParticipantID c)"

definition zero_protocol :: call_protocol where
  "zero_protocol = \<lparr>cp_UDPP2P = False, cp_UDPReflector = False, cp_MinLayer = 0, cp_MaxLayer = 0, cp_LibraryVersions = []\<rparr>"

definition no_session :: session_ref where
  "no_session = \<lparr>sr_RawAuthKeyID = 0, sr_SessionID = 0\<rparr>"

definition withDefaults :: "phone_config \<Rightarrow> phone_config" where
  "withDefaults c = \<lparr>
     cf_RingTimeout = (if cf_RingTimeout c \<le> 0 then 90 * 10 ^ 9 else cf_RingTimeout c),
     cf_TombstoneTTL = (if cf_TombstoneTTL c \<le> 0 then 60 * 10 ^ 9 else cf_TombstoneTTL c),
     cf_MaxActivePerUser = (if cf_MaxActivePerUser c \<le> 0 then 4 else cf_MaxActivePerUser c),
     cf_MaxRegistryEntries = (if cf_MaxRegistryEntries c \<le> 0 then 10000 else cf_MaxRegistryEntries c),
     cf_SignalingRatePerSecond = (if cf_SignalingRatePerSecond c \<le> 0 then 50 else cf_SignalingRatePerSecond c)\<rparr>"

subsection \<open>Protocols\<close>

definition minSupportedLayer :: int where
  "minSupportedLayer = 65"

definition gaHashSize :: nat where
  "gaHashSize = 32"

definition call_dhPubSize :: nat where
  "call_dhPubSize = 256"

definition validateProtocol :: "call_protocol \<Rightarrow> phone_error option" where
  "validateProtocol p =
     (if cp_MinLayer p > cp_MaxLayer p then Some ErrProtocolLayerInvalid
      else if cp_MaxLayer p < minSupportedLayer then Some ErrProtocolCompatLayerInvalid
      else if \<not> cp_UDPP2P p \<and> \<not> cp_UDPReflector p then Some ErrProtocolFlagsInvalid
      else if cp_LibraryVersions p = [] then Some ErrProtocolFlagsInvalid
      else None)"

text \<open>A missing segment is the empty string, which is not a number.\<close>

fun compare_segments :: "string list \<Rightarrow> string list \<Rightarrow> int" where
  "compare_segments [] [] = 0"
| "compare_segments as bs =
     (let av = (case as of [] \<Rightarrow> [] | a # _ \<Rightarrow> a); bv = (case bs of [] \<Rightarrow> [] | b # _ \<Rightarrow> b)
      in case (ParseInt av, ParseInt bv) of
           (Some an, Some bn) \<Rightarrow> if an \<noteq> bn then wrap64 (an - bn) else compare_segments (tl as) (tl bs)
         | _ \<Rightarrow> (let c = compare_strings av bv in if c \<noteq> 0 then c else compare_segments (tl as) (tl bs)))"

definition compareVersion :: "string \<Rightarrow> string \<Rightarrow> int" where
  "compareVersion a b = compare_segments (split_at (CHR ''.'') a) (split_at (CHR ''.'') b)"

definition preferredVersions :: "string list" where
  "preferredVersions = [''9.0.0'', ''8.0.0'', ''7.0.0'']"

definition best_of :: "string list \<Rightarrow> string option" where
  "best_of vs = fold (\<lambda>v best. case best of None \<Rightarrow> Some v | Some b \<Rightarrow> if compareVersion v b > 0 then Some v else Some b) vs None"

definition bestCommonVersion :: "(string list \<Rightarrow> string list) \<Rightarrow> string list \<Rightarrow> string list \<Rightarrow> string option" where
  "bestCommonVersion order a b =
     (let inBoth = order (remdups (filter (\<lambda>v. v \<in> set b) a))
      in case find (\<lambda>v. v \<in> set inBoth) preferredVersions of
           Some v \<Rightarrow> Some v
         | None \<Rightarrow> best_of inBoth)"

definition negotiateProtocol :: "(string list \<Rightarrow> string list) \<Rightarrow> call_protocol \<Rightarrow> call_protocol \<Rightarrow> phone_error + call_protocol" where
  "negotiateProtocol order caller callee =
     (let minLayer = max (cp_MinLayer caller) (cp_MinLayer callee);
          maxLayer = min (cp_MaxLayer caller) (cp_MaxLayer callee)
      in if minLayer > maxLayer then Inl ErrProtocolCompatLayerInvalid
         else Inr \<lparr>cp_UDPP2P = (cp_UDPP2P caller \<and> cp_UDPP2P callee),
                   cp_UDPReflector = (cp_UDPReflector caller \<or> cp_UDPReflector callee),
                   cp_MinLayer = minLayer, cp_MaxLayer = maxLayer,
                   cp_LibraryVersions =
                     (case bestCommonVersion order (cp_LibraryVersions caller) (cp_LibraryVersions callee) of
                        Some best \<Rightarrow> [best]
                      | None \<Rightarrow> cp_LibraryVersions callee)\<rparr>)"

subsection \<open>The registry\<close>

definition newRegistry :: phone_registry where
  "newRegistry = \<lparr>rg_byID = [], rg_byRandom = Map.empty, rg_active = Map.empty, rg_signals = (\<lambda>_. (0, 0))\<rparr>"

definition decActiveLocked :: "phone_registry \<Rightarrow> int \<Rightarrow> phone_registry" where
  "decActiveLocked r userID =
     (case rg_active r userID of
        None \<Rightarrow> r\<lparr>rg_active := (rg_active r)(userID := None)\<rparr>
      | Some n \<Rightarrow> if n \<le> 1 then r\<lparr>rg_active := (rg_active r)(userID := None)\<rparr>
                  else r\<lparr>rg_active := (rg_active r)(userID \<mapsto> n - 1)\<rparr>)"

definition removeLocked :: "phone_registry \<Rightarrow> int \<Rightarrow> phone_call \<Rightarrow> bool \<Rightarrow> phone_registry" where
  "removeLocked r i c wasActive =
     (let r1 = r\<lparr>rg_byID := AList.delete i (rg_byID r)\<rparr>;
          key = (pc_AdminID c, pc_RandomID c);
          r2 = (if rg_byRandom r1 key = Some i then r1\<lparr>rg_byRandom := (rg_byRandom r1)(key := None)\<rparr> else r1)
      in if wasActive then decActiveLocked r2 (pc_AdminID c) else r2)"

definition sweepTombstonesLocked :: "phone_registry \<Rightarrow> int \<Rightarrow> int \<Rightarrow> phone_registry" where
  "sweepTombstonesLocked r nowUnix tombstoneTTLSec =
     fold (\<lambda>(i, c) r. if call_Terminal c \<and> nowUnix - pc_DiscardedAt c > tombstoneTTLSec then removeLocked r i c False else r)
       (rg_byID r) r"

definition put_call :: "phone_registry \<Rightarrow> phone_call \<Rightarrow> phone_registry" where
  "put_call r c = r\<lparr>rg_byID := AList.update (pc_ID c) c (rg_byID r)\<rparr>"

definition markDiscardedWithSlugLocked :: "phone_registry \<Rightarrow> phone_call \<Rightarrow> discard_reason \<Rightarrow> string \<Rightarrow> int \<Rightarrow> int \<Rightarrow>
    phone_registry \<times> phone_call" where
  "markDiscardedWithSlugLocked r c reason slug duration nowUnix =
     (if call_Terminal c then (r, c)
      else let c1 = c\<lparr>pc_State := PhoneCallStateDiscarded, pc_DiscardReason := reason, pc_DiscardReasonSlug := slug,
                      pc_Duration := duration, pc_DiscardedAt := nowUnix\<rparr>
           in (decActiveLocked (put_call r c1) (pc_AdminID c1), c1))"

definition markDiscardedLocked :: "phone_registry \<Rightarrow> phone_call \<Rightarrow> discard_reason \<Rightarrow> int \<Rightarrow> int \<Rightarrow> phone_registry \<times> phone_call" where
  "markDiscardedLocked r c reason duration nowUnix = markDiscardedWithSlugLocked r c reason [] duration nowUnix"

definition randomPositiveInt64 :: "64 word option \<Rightarrow> phone_error + int" where
  "randomPositiveInt64 buf =
     (case buf of
        None \<Rightarrow> Inl ErrRandomID
      | Some b \<Rightarrow> let v = sint (drop_bit 1 b) in Inr (if v = 0 then 1 else v))"

text \<open>\<open>fuel\<close> counts the attempts that are left, \<open>draws\<close> the words of the attempts.\<close>

fun new_id_from :: "phone_registry \<Rightarrow> (nat \<Rightarrow> 64 word option) \<Rightarrow> nat \<Rightarrow> nat \<Rightarrow> phone_error + int" where
  "new_id_from r draws i 0 = Inl ErrExhaustedIDs"
| "new_id_from r draws i (Suc fuel) =
     (case randomPositiveInt64 (draws i) of
        Inl e \<Rightarrow> Inl e
      | Inr v \<Rightarrow> if map_of (rg_byID r) v = None then Inr v else new_id_from r draws (Suc i) fuel)"

definition newIDLocked :: "phone_registry \<Rightarrow> (nat \<Rightarrow> 64 word option) \<Rightarrow> phone_error + int" where
  "newIDLocked r draws = new_id_from r draws 0 32"

subsection \<open>The service\<close>

definition seconds :: "duration \<Rightarrow> int" where
  "seconds d = quot64 d (10 ^ 9)"

definition active_calls :: "phone_registry \<Rightarrow> int \<Rightarrow> int" where
  "active_calls r userID = (case rg_active r userID of None \<Rightarrow> 0 | Some n \<Rightarrow> n)"

definition lookupLocked :: "phone_registry \<Rightarrow> int \<Rightarrow> int \<Rightarrow> phone_call option" where
  "lookupLocked r callID accessHash =
     (case map_of (rg_byID r) callID of
        None \<Rightarrow> None
      | Some c \<Rightarrow> if pc_AccessHash c \<noteq> accessHash then None else Some c)"

definition RequestCall :: "phone_config \<Rightarrow> int \<Rightarrow> (nat \<Rightarrow> 64 word option) \<Rightarrow> 64 word option \<Rightarrow> phone_registry \<Rightarrow> int \<Rightarrow>
    call_request \<Rightarrow> phone_registry \<times> (phone_error + phone_call)" where
  "RequestCall cfg now draws hashDraw r callerID req =
     (case validateProtocol (cr_Protocol req) of
        Some e \<Rightarrow> (r, Inl e)
      | None \<Rightarrow>
          if length (cr_GAHash req) \<noteq> gaHashSize then (r, Inl ErrProtocolFlagsInvalid)
          else
            let r1 = sweepTombstonesLocked r now (seconds (cf_TombstoneTTL cfg));
                key = (callerID, cr_RandomID req);
                live = (case rg_byRandom r1 key of
                          None \<Rightarrow> None
                        | Some i \<Rightarrow> (case map_of (rg_byID r1) i of
                                       None \<Rightarrow> None
                                     | Some c \<Rightarrow> if call_Terminal c then None else Some c))
            in case live of
                 Some c \<Rightarrow> (r1, Inr c)
               | None \<Rightarrow>
                   if int (length (rg_byID r1)) \<ge> cf_MaxRegistryEntries cfg then (r1, Inl ErrOccupyFailed)
                   else if active_calls r1 callerID \<ge> cf_MaxActivePerUser cfg then (r1, Inl ErrOccupyFailed)
                   else case newIDLocked r1 draws of
                     Inl e \<Rightarrow> (r1, Inl e)
                   | Inr i \<Rightarrow>
                       (case randomPositiveInt64 hashDraw of
                          Inl e \<Rightarrow> (r1, Inl e)
                        | Inr accessHash \<Rightarrow>
                            let c = \<lparr>pc_ID = i, pc_AccessHash = accessHash, pc_AdminID = callerID, pc_ParticipantID = cr_CalleeID req,
                                     pc_Video = cr_Video req, pc_State = PhoneCallStateRequested, pc_Date = now, pc_ReceiveDate = 0,
                                     pc_StartDate = 0, pc_DiscardedAt = 0, pc_GAHash = cr_GAHash req, pc_GB = [], pc_GA = [],
                                     pc_KeyFingerprint = 0, pc_Protocol = cr_Protocol req, pc_CallerProtocol = cr_Protocol req,
                                     pc_CalleeProtocol = zero_protocol, pc_P2PAllowed = False, pc_DiscardReason = DiscardReasonNone,
                                     pc_DiscardReasonSlug = [], pc_Duration = 0, pc_PrivacyP2P = cr_PrivacyP2P req,
                                     pc_Connections = cr_Connections req, pc_RandomID = cr_RandomID req,
                                     pc_CallerDevice = cr_CallerDevice req, pc_CalleeDevice = no_session\<rparr>
                            in (r1\<lparr>rg_byID := AList.update i c (rg_byID r1), rg_byRandom := (rg_byRandom r1)(key \<mapsto> i),
                                   rg_active := (rg_active r1)(callerID \<mapsto> active_calls r1 callerID + 1),
                                   rg_signals := (rg_signals r1)(i := (0, 0))\<rparr>, Inr c)))"

definition ReceivedCall :: "int \<Rightarrow> phone_registry \<Rightarrow> int \<Rightarrow> int \<Rightarrow> int \<Rightarrow> phone_registry \<times> (phone_error + (phone_call \<times> bool))" where
  "ReceivedCall now r userID callID accessHash =
     (case lookupLocked r callID accessHash of
        None \<Rightarrow> (r, Inl ErrPeerInvalid)
      | Some c \<Rightarrow>
          if userID \<noteq> pc_ParticipantID c then (r, Inl ErrPeerInvalid)
          else if pc_State c = PhoneCallStateRequested then
            (let c1 = c\<lparr>pc_State := PhoneCallStateRinging, pc_ReceiveDate := now\<rparr> in (put_call r c1, Inr (c1, True)))
          else (r, Inr (c, False)))"

definition AcceptCall :: "(string list \<Rightarrow> string list) \<Rightarrow> phone_registry \<Rightarrow> int \<Rightarrow> int \<Rightarrow> int \<Rightarrow> 8 word list \<Rightarrow> call_protocol \<Rightarrow>
    session_ref \<Rightarrow> phone_registry \<times> (phone_error + phone_call)" where
  "AcceptCall order r userID callID accessHash gb proto device =
     (case validateProtocol proto of
        Some e \<Rightarrow> (r, Inl e)
      | None \<Rightarrow>
          if length gb \<noteq> call_dhPubSize \<or> list_all (\<lambda>b. b = 0) gb then (r, Inl ErrProtocolFlagsInvalid)
          else case lookupLocked r callID accessHash of
            None \<Rightarrow> (r, Inl ErrPeerInvalid)
          | Some c \<Rightarrow>
              if userID \<noteq> pc_ParticipantID c then (r, Inl ErrPeerInvalid)
              else if pc_State c = PhoneCallStateAccepted \<or> pc_State c = PhoneCallStateConfirmed then (r, Inl ErrAlreadyAccepted)
              else if pc_State c = PhoneCallStateDiscarded then (r, Inl ErrAlreadyDeclined)
              else case negotiateProtocol order (pc_CallerProtocol c) proto of
                Inl e \<Rightarrow> (r, Inl e)
              | Inr negotiated \<Rightarrow>
                  let c1 = c\<lparr>pc_GB := gb, pc_CalleeProtocol := proto, pc_Protocol := negotiated, pc_CalleeDevice := device,
                             pc_State := PhoneCallStateAccepted\<rparr>
                  in (put_call r c1, Inr c1))"

text \<open>The answer on a hash mismatch is the discarded call with the error.\<close>

definition ConfirmCall :: "(8 word list \<Rightarrow> 8 word list) \<Rightarrow> int \<Rightarrow> phone_registry \<Rightarrow> int \<Rightarrow> int \<Rightarrow> int \<Rightarrow> 8 word list \<Rightarrow> int \<Rightarrow> call_protocol \<Rightarrow>
    phone_registry \<times> phone_call option \<times> bool \<times> phone_error option" where
  "ConfirmCall sha now r userID callID accessHash ga keyFingerprint proto =
     (case lookupLocked r callID accessHash of
        None \<Rightarrow> (r, None, False, Some ErrPeerInvalid)
      | Some c \<Rightarrow>
          if userID \<noteq> pc_AdminID c then (r, None, False, Some ErrPeerInvalid)
          else if pc_State c = PhoneCallStateConfirmed then (r, None, False, Some ErrAlreadyAccepted)
          else if pc_State c = PhoneCallStateDiscarded then (r, None, False, Some ErrAlreadyDeclined)
          else if pc_State c \<noteq> PhoneCallStateAccepted then (r, None, False, Some ErrPeerInvalid)
          else case validateProtocol proto of
            Some e \<Rightarrow> (r, None, False, Some e)
          | None \<Rightarrow>
              if length ga \<noteq> call_dhPubSize \<or> sha ga \<noteq> pc_GAHash c then
                (let (r1, c1) = markDiscardedLocked r c PhoneCallDiscardReasonDisconnect 0 now
                 in (r1, Some c1, True, Some ErrGAHashMismatch))
              else let c1 = c\<lparr>pc_GA := ga, pc_KeyFingerprint := keyFingerprint, pc_StartDate := now,
                              pc_P2PAllowed := (cp_UDPP2P (pc_CallerProtocol c) \<and> cp_UDPP2P (pc_CalleeProtocol c) \<and> pc_PrivacyP2P c),
                              pc_State := PhoneCallStateConfirmed\<rparr>
                   in (put_call r c1, Some c1, False, None))"

definition DiscardCallWithSlug :: "int \<Rightarrow> phone_registry \<Rightarrow> int \<Rightarrow> int \<Rightarrow> int \<Rightarrow> discard_reason \<Rightarrow> string \<Rightarrow> int \<Rightarrow>
    phone_registry \<times> (phone_error + (phone_call \<times> bool))" where
  "DiscardCallWithSlug now r userID callID accessHash reason0 reasonSlug0 duration0 =
     (case lookupLocked r callID accessHash of
        None \<Rightarrow> (r, Inl ErrPeerInvalid)
      | Some c \<Rightarrow>
          if \<not> call_HasParticipant c userID then (r, Inl ErrPeerInvalid)
          else if call_Terminal c then (r, Inr (c, True))
          else let reason = (if reason0 = DiscardReasonNone then PhoneCallDiscardReasonHangup else reason0);
                   slug = (if reason \<noteq> PhoneCallDiscardReasonMigrateConference then [] else reasonSlug0);
                   duration = (if pc_StartDate c = 0 \<or> duration0 < 0 then 0 else duration0);
                   (r1, c1) = markDiscardedWithSlugLocked r c reason slug duration now
               in (r1, Inr (c1, False)))"

definition DiscardCall :: "int \<Rightarrow> phone_registry \<Rightarrow> int \<Rightarrow> int \<Rightarrow> int \<Rightarrow> discard_reason \<Rightarrow> int \<Rightarrow>
    phone_registry \<times> (phone_error + (phone_call \<times> bool))" where
  "DiscardCall now r userID callID accessHash reason duration = DiscardCallWithSlug now r userID callID accessHash reason [] duration"

definition overdue :: "phone_config \<Rightarrow> int \<Rightarrow> phone_call \<Rightarrow> bool" where
  "overdue cfg now c \<longleftrightarrow> \<not> call_Terminal c \<and> pc_State c \<noteq> PhoneCallStateConfirmed \<and> now - pc_Date c > seconds (cf_RingTimeout cfg)"

definition expire_one :: "phone_config \<Rightarrow> int \<Rightarrow> int \<times> phone_call \<Rightarrow> phone_registry \<times> phone_call list \<Rightarrow> phone_registry \<times> phone_call list" where
  "expire_one cfg now ic acc =
     (let c = snd ic
      in if overdue cfg now c then
           (let reason = (if pc_State c = PhoneCallStateAccepted then PhoneCallDiscardReasonDisconnect else PhoneCallDiscardReasonMissed);
                (r1, c1) = markDiscardedLocked (fst acc) c reason 0 now
            in (r1, snd acc @ [c1]))
         else acc)"

definition ExpireDue :: "phone_config \<Rightarrow> int \<Rightarrow> phone_registry \<Rightarrow> phone_registry \<times> phone_call list" where
  "ExpireDue cfg now r =
     (let (r1, expired) = fold (expire_one cfg now) (rg_byID r) (r, [])
      in (sweepTombstonesLocked r1 now (seconds (cf_TombstoneTTL cfg)), expired))"

definition phone_Lookup :: "phone_registry \<Rightarrow> int \<Rightarrow> int \<Rightarrow> phone_call option" where
  "phone_Lookup r callID accessHash = lookupLocked r callID accessHash"

subsection \<open>Signals\<close>

text \<open>The first part answers an error, a silent drop or where the signal goes.\<close>

datatype signal_check = SignalError phone_error | SignalDrop | SignalTo int session_ref

definition check_signal :: "phone_registry \<Rightarrow> int \<Rightarrow> int \<Rightarrow> int \<Rightarrow> signal_check" where
  "check_signal r userID callID accessHash =
     (case lookupLocked r callID accessHash of
        None \<Rightarrow> SignalError ErrPeerInvalid
      | Some c \<Rightarrow>
          if \<not> call_HasParticipant c userID then SignalError ErrPeerInvalid
          else let peer = call_PeerOf c userID;
                   peerDevice = (if peer = pc_AdminID c then pc_CallerDevice c else pc_CalleeDevice c)
               in if pc_State c = PhoneCallStateAccepted \<or> pc_State c = PhoneCallStateConfirmed then SignalTo peer peerDevice
                  else if pc_State c = PhoneCallStateDiscarded then SignalDrop
                  else SignalError ErrPeerInvalid)"

definition count_signal :: "phone_config \<Rightarrow> int \<Rightarrow> phone_registry \<Rightarrow> int \<Rightarrow> phone_registry \<times> bool" where
  "count_signal cfg now r callID =
     (let (window, n) = rg_signals r callID;
          n1 = (if window \<noteq> now then 0 else n)
      in if n1 \<ge> cf_SignalingRatePerSecond cfg then (r\<lparr>rg_signals := (rg_signals r)(callID := (now, n1))\<rparr>, False)
         else (r\<lparr>rg_signals := (rg_signals r)(callID := (now, n1 + 1))\<rparr>, True))"

text \<open>\<open>Inr None\<close> is a drop, \<open>Inr (Some (peer, device))\<close> the call of \<^verbatim>\<open>forward\<close>.\<close>

definition Signal :: "phone_config \<Rightarrow> int \<Rightarrow> (phone_registry \<Rightarrow> phone_registry) \<Rightarrow> phone_registry \<Rightarrow> int \<Rightarrow> int \<Rightarrow> int \<Rightarrow>
    phone_registry \<times> (phone_error + (int \<times> session_ref) option)" where
  "Signal cfg now mid r userID callID accessHash =
     (case check_signal r userID callID accessHash of
        SignalError e \<Rightarrow> (r, Inl e)
      | SignalDrop \<Rightarrow> (r, Inr None)
      | SignalTo peer device \<Rightarrow>
          (let (r1, ok) = count_signal cfg now (mid r) callID
           in (r1, Inr (if ok then Some (peer, device) else None))))"

end
