(* ===== verification/Phone_Registry.thy ===== *)
theory Phone_Registry
  imports Phone_Call
begin

text \<open>
  The operations on private calls as data, the invariant of the registry and that every operation keeps
  it, and how a call may change from one operation to the next.
\<close>

subsection \<open>Operations\<close>

datatype phone_op =
    OpRequest int "nat \<Rightarrow> 64 word option" "64 word option" int call_request
  | OpReceived int int int int
  | OpAccept "string list \<Rightarrow> string list" int int int "8 word list" call_protocol session_ref
  | OpConfirm int int int int "8 word list" int call_protocol
  | OpDiscard int int int int discard_reason string int
  | OpExpire int
  | OpCountSignal int int

datatype phone_answer =
    AnsCall "phone_error + phone_call"
  | AnsFlag "phone_error + (phone_call \<times> bool)"
  | AnsConfirm "phone_call option" bool "phone_error option"
  | AnsExpired "phone_call list"
  | AnsCounted bool

fun phone_step :: "phone_config \<Rightarrow> (8 word list \<Rightarrow> 8 word list) \<Rightarrow> phone_op \<Rightarrow> phone_registry \<Rightarrow> phone_registry \<times> phone_answer" where
  "phone_step cfg sha (OpRequest now draws h caller req) r = map_prod id AnsCall (RequestCall cfg now draws h r caller req)"
| "phone_step cfg sha (OpReceived now u i h) r = map_prod id AnsFlag (ReceivedCall now r u i h)"
| "phone_step cfg sha (OpAccept order u i h gb proto device) r = map_prod id AnsCall (AcceptCall order r u i h gb proto device)"
| "phone_step cfg sha (OpConfirm now u i h ga fp proto) r =
     (case ConfirmCall sha now r u i h ga fp proto of (r1, c, ended, e) \<Rightarrow> (r1, AnsConfirm c ended e))"
| "phone_step cfg sha (OpDiscard now u i h reason slug d) r = map_prod id AnsFlag (DiscardCallWithSlug now r u i h reason slug d)"
| "phone_step cfg sha (OpExpire now) r = map_prod id AnsExpired (ExpireDue cfg now r)"
| "phone_step cfg sha (OpCountSignal now i) r = map_prod id AnsCounted (count_signal cfg now r i)"

fun phone_run :: "phone_config \<Rightarrow> (8 word list \<Rightarrow> 8 word list) \<Rightarrow> phone_op list \<Rightarrow> phone_registry \<Rightarrow> phone_registry \<times> phone_answer list" where
  "phone_run cfg sha [] r = (r, [])"
| "phone_run cfg sha (op # ops) r =
     (let (r1, a) = phone_step cfg sha op r; (r2, as) = phone_run cfg sha ops r1 in (r2, a # as))"

subsection \<open>The invariant\<close>

definition call_wf :: "(8 word list \<Rightarrow> 8 word list) \<Rightarrow> phone_call \<Rightarrow> bool" where
  "call_wf sha c \<longleftrightarrow>
     length (pc_GAHash c) = 32 \<and>
     (pc_GB c \<noteq> [] \<longrightarrow> length (pc_GB c) = 256 \<and> \<not> list_all (\<lambda>b. b = 0) (pc_GB c) \<and>
        (\<exists>order. negotiateProtocol order (pc_CallerProtocol c) (pc_CalleeProtocol c) = Inr (pc_Protocol c))) \<and>
     (pc_GA c \<noteq> [] \<longrightarrow> pc_GB c \<noteq> [] \<and> length (pc_GA c) = 256 \<and> sha (pc_GA c) = pc_GAHash c) \<and>
     (pc_State c = PhoneCallStateRequested \<or> pc_State c = PhoneCallStateRinging \<longrightarrow> pc_GB c = []) \<and>
     (pc_State c = PhoneCallStateAccepted \<longrightarrow> pc_GB c \<noteq> [] \<and> pc_GA c = []) \<and>
     (pc_State c = PhoneCallStateConfirmed \<longrightarrow> pc_GA c \<noteq> []) \<and>
     (pc_StartDate c \<noteq> 0 \<longrightarrow> pc_GA c \<noteq> []) \<and> (pc_Duration c \<noteq> 0 \<longrightarrow> call_Terminal c \<and> pc_StartDate c \<noteq> 0)"

definition live_of :: "int \<Rightarrow> (int \<times> phone_call) list \<Rightarrow> nat" where
  "live_of u cs = length (filter (\<lambda>(i, c). \<not> call_Terminal c \<and> pc_AdminID c = u) cs)"

definition random_key :: "phone_call \<Rightarrow> int \<times> int" where
  "random_key c = (pc_AdminID c, pc_RandomID c)"

definition calls_ok :: "(8 word list \<Rightarrow> 8 word list) \<Rightarrow> phone_registry \<Rightarrow> bool" where
  "calls_ok sha r \<longleftrightarrow> distinct (map fst (rg_byID r)) \<and> (\<forall>i c. map_of (rg_byID r) i = Some c \<longrightarrow> pc_ID c = i \<and> call_wf sha c)"

definition index_ok :: "phone_registry \<Rightarrow> bool" where
  "index_ok r \<longleftrightarrow>
     (\<forall>key i. rg_byRandom r key = Some i \<longrightarrow> (\<exists>c. map_of (rg_byID r) i = Some c \<and> random_key c = key)) \<and>
     (\<forall>i c. map_of (rg_byID r) i = Some c \<longrightarrow> \<not> call_Terminal c \<longrightarrow> rg_byRandom r (random_key c) = Some i)"

definition active_ok :: "phone_config \<Rightarrow> phone_registry \<Rightarrow> bool" where
  "active_ok cfg r \<longleftrightarrow>
     (\<forall>u. rg_active r u = (if live_of u (rg_byID r) = 0 then None else Some (int (live_of u (rg_byID r)))) \<and>
          int (live_of u (rg_byID r)) \<le> max 0 (cf_MaxActivePerUser cfg)) \<and>
     int (length (rg_byID r)) \<le> max 0 (cf_MaxRegistryEntries cfg)"

definition registry_inv :: "phone_config \<Rightarrow> (8 word list \<Rightarrow> 8 word list) \<Rightarrow> phone_registry \<Rightarrow> bool" where
  "registry_inv cfg sha r \<longleftrightarrow> calls_ok sha r \<and> index_ok r \<and> active_ok cfg r"

subsection \<open>Counting\<close>

lemma live_update:
  assumes "distinct (map fst cs)" "map_of cs i = Some c"
  shows "live_of u (AList.update i c' cs) + of_bool (\<not> call_Terminal c \<and> pc_AdminID c = u) =
    live_of u cs + of_bool (\<not> call_Terminal c' \<and> pc_AdminID c' = u)"
  using assms by (induction cs) (auto simp: live_of_def of_bool_def)

lemma live_insert: "map_of cs i = None \<Longrightarrow> live_of u (AList.update i c cs) = live_of u cs + of_bool (\<not> call_Terminal c \<and> pc_AdminID c = u)"
  by (induction cs) (auto simp: live_of_def split: if_splits)

lemma live_delete:
  assumes "distinct (map fst cs)" "map_of cs i = Some c" "call_Terminal c"
  shows "live_of u (AList.delete i cs) = live_of u cs"
  using assms
proof (induction cs)
  case Nil
  then show ?case by simp
next
  case (Cons x cs)
  obtain j d where x: "x = (j, d)" by (cases x)
  show ?case
  proof (cases "j = i")
    case True
    then have "AList.delete i cs = cs" using Cons.prems(1) x by (intro delete_id) auto
    then show ?thesis using True Cons.prems(2,3) x by (simp add: live_of_def)
  next
    case False
    then show ?thesis using Cons x by (simp add: live_of_def)
  qed
qed

lemma live_of_card:
  assumes "distinct (map fst cs)"
  shows "live_of u cs = card {i. \<exists>c. map_of cs i = Some c \<and> \<not> call_Terminal c \<and> pc_AdminID c = u}"
proof -
  let ?L = "filter (\<lambda>(i, c). \<not> call_Terminal c \<and> pc_AdminID c = u) cs"
  have "distinct (map fst ?L)" using assms by (rule distinct_map_filter)
  then have "live_of u cs = card (set (map fst ?L))" using distinct_card [of "map fst ?L"] by (simp add: live_of_def)
  also have "set (map fst ?L) = {i. \<exists>c. map_of cs i = Some c \<and> \<not> call_Terminal c \<and> pc_AdminID c = u}"
    using assms by (auto intro: image_eqI [where x = "(i, c)" for i c])
  finally show ?thesis .
qed

lemma length_update_old: "map_of cs i \<noteq> None \<Longrightarrow> length (AList.update i c cs) = length cs"
  by (induction cs) (auto split: if_splits)

lemma length_update_new: "map_of cs i = None \<Longrightarrow> length (AList.update i c cs) = Suc (length cs)"
  by (induction cs) (auto split: if_splits)

lemma length_delete_le': "length (AList.delete i cs) \<le> length cs"
  by (simp add: AList.delete_eq)

subsection \<open>Updating one call\<close>

lemma calls_ok_update:
  assumes "calls_ok sha r" "pc_ID c' = i" "call_wf sha c'" "rg_byID r' = AList.update i c' (rg_byID r)"
  shows "calls_ok sha r'"
  using assms by (auto simp: calls_ok_def update_conv' distinct_update)

lemma index_ok_update:
  assumes "index_ok r" "map_of (rg_byID r) i = Some c" "random_key c' = random_key c" "\<not> call_Terminal c' \<longrightarrow> \<not> call_Terminal c"
    and "rg_byID r' = AList.update i c' (rg_byID r)" "rg_byRandom r' = rg_byRandom r"
  shows "index_ok r'"
  unfolding index_ok_def assms(5,6) update_conv'
proof (intro conjI allI impI)
  fix key j assume "rg_byRandom r key = Some j"
  then obtain d where "map_of (rg_byID r) j = Some d" "random_key d = key" using assms(1) unfolding index_ok_def by blast
  then show "\<exists>d. ((map_of (rg_byID r))(i \<mapsto> c')) j = Some d \<and> random_key d = key" using assms(2,3) by auto
next
  fix j d assume "((map_of (rg_byID r))(i \<mapsto> c')) j = Some d" "\<not> call_Terminal d"
  then show "rg_byRandom r (random_key d) = Some j"
    using assms(1-4) unfolding index_ok_def by (cases "j = i") auto
qed

lemma put_call_inv:
  assumes inv: "registry_inv cfg sha r" and c: "map_of (rg_byID r) (pc_ID c) = Some c"
    and c': "pc_ID c' = pc_ID c" "pc_AdminID c' = pc_AdminID c" "pc_RandomID c' = pc_RandomID c" "call_wf sha c'" "call_Terminal c' = call_Terminal c"
  shows "registry_inv cfg sha (put_call r c')"
proof -
  have d: "distinct (map fst (rg_byID r))" using inv by (simp add: registry_inv_def calls_ok_def)
  have same: "rg_byID (put_call r c') = AList.update (pc_ID c) c' (rg_byID r)" "rg_byRandom (put_call r c') = rg_byRandom r"
    "rg_active (put_call r c') = rg_active r" using c' by (simp_all add: put_call_def)
  have live: "live_of u (AList.update (pc_ID c) c' (rg_byID r)) = live_of u (rg_byID r)" for u
    using live_update [OF d c, of u c'] c' by simp
  have "calls_ok sha (put_call r c')" by (rule calls_ok_update [OF _ c'(1,4) same(1)]) (use inv in \<open>simp add: registry_inv_def\<close>)
  moreover have "index_ok (put_call r c')"
  proof (rule index_ok_update [OF _ c _ _ same(1,2)])
    show "index_ok r" using inv by (simp add: registry_inv_def)
    show "random_key c' = random_key c" using c'(2,3) by (simp add: random_key_def)
    show "\<not> call_Terminal c' \<longrightarrow> \<not> call_Terminal c" using c'(5) by simp
  qed
  moreover have "active_ok cfg (put_call r c')"
    using inv c unfolding registry_inv_def active_ok_def same live by (simp add: length_update_old)
  ultimately show ?thesis by (simp add: registry_inv_def)
qed

lemma discard_inv:
  assumes inv: "registry_inv cfg sha r" and c: "map_of (rg_byID r) (pc_ID c) = Some c" and live: "\<not> call_Terminal c"
    and d: "duration \<noteq> 0 \<longrightarrow> pc_StartDate c \<noteq> 0"
  shows "registry_inv cfg sha (fst (markDiscardedWithSlugLocked r c reason slug duration now))"
proof -
  let ?c = "c\<lparr>pc_State := PhoneCallStateDiscarded, pc_DiscardReason := reason, pc_DiscardReasonSlug := slug,
                      pc_Duration := duration, pc_DiscardedAt := now\<rparr>"
  have dist: "distinct (map fst (rg_byID r))" using inv by (simp add: registry_inv_def calls_ok_def)
  have wf: "call_wf sha c" using inv c by (simp add: registry_inv_def calls_ok_def)
  then have wf': "call_wf sha ?c" using d by (simp add: call_wf_def call_Terminal_def)
  have l: "live_of u (AList.update (pc_ID c) ?c (rg_byID r)) = live_of u (rg_byID r) - of_bool (pc_AdminID c = u)"
    and pos: "0 < live_of (pc_AdminID c) (rg_byID r)" for u
  proof -
    note eq = live_update [OF dist c, of _ ?c]
    show "live_of u (AList.update (pc_ID c) ?c (rg_byID r)) = live_of u (rg_byID r) - of_bool (pc_AdminID c = u)"
      using eq [of u] live by (simp add: call_Terminal_def)
    show "0 < live_of (pc_AdminID c) (rg_byID r)" using eq [of "pc_AdminID c"] live by (simp add: call_Terminal_def)
  qed
  let ?r = "decActiveLocked (put_call r ?c) (pc_AdminID c)"
  have same: "rg_byID ?r = AList.update (pc_ID c) ?c (rg_byID r)" "rg_byRandom ?r = rg_byRandom r"
    by (simp_all add: decActiveLocked_def put_call_def split: option.splits)
  have "rg_active r (pc_AdminID c) = Some (int (live_of (pc_AdminID c) (rg_byID r)))"
    using inv pos by (simp add: registry_inv_def active_ok_def)
  then have act: "rg_active ?r = (rg_active r)(pc_AdminID c :=
      (if live_of (pc_AdminID c) (rg_byID r) \<le> 1 then None else Some (int (live_of (pc_AdminID c) (rg_byID r)) - 1)))"
    by (auto simp: decActiveLocked_def put_call_def)
  have "calls_ok sha ?r" by (rule calls_ok_update [OF _ _ wf' same(1)]) (use inv in \<open>simp_all add: registry_inv_def\<close>)
  moreover have "index_ok ?r"
  proof (rule index_ok_update [OF _ c _ _ same])
    show "index_ok r" using inv by (simp add: registry_inv_def)
    show "random_key ?c = random_key c" by (simp add: random_key_def)
  qed (use live in simp)
  moreover have "active_ok cfg ?r" unfolding active_ok_def
  proof (intro conjI allI)
    fix u
    have old: "rg_active r u = (if live_of u (rg_byID r) = 0 then None else Some (int (live_of u (rg_byID r))))"
      "int (live_of u (rg_byID r)) \<le> max 0 (cf_MaxActivePerUser cfg)"
      using inv by (simp_all add: registry_inv_def active_ok_def)
    show "rg_active ?r u = (if live_of u (rg_byID ?r) = 0 then None else Some (int (live_of u (rg_byID ?r))))"
      using old(1) pos unfolding act same l by (auto simp: of_nat_diff)
    show "int (live_of u (rg_byID ?r)) \<le> max 0 (cf_MaxActivePerUser cfg)" using old(2) unfolding same l by linarith
    show "int (length (rg_byID ?r)) \<le> max 0 (cf_MaxRegistryEntries cfg)"
      using inv c by (simp add: registry_inv_def active_ok_def same length_update_old)
  qed
  ultimately show ?thesis using live by (simp add: markDiscardedWithSlugLocked_def registry_inv_def Let_def)
qed

lemma discard_effect:
  assumes "\<not> call_Terminal c"
  shows "map_of (rg_byID (fst (markDiscardedWithSlugLocked r c reason slug duration now))) =
      (map_of (rg_byID r))(pc_ID c \<mapsto> snd (markDiscardedWithSlugLocked r c reason slug duration now))"
    and "snd (markDiscardedWithSlugLocked r c reason slug duration now) = c\<lparr>pc_State := PhoneCallStateDiscarded,
      pc_DiscardReason := reason, pc_DiscardReasonSlug := slug, pc_Duration := duration, pc_DiscardedAt := now\<rparr>"
  using assms
  by (auto simp: markDiscardedWithSlugLocked_def decActiveLocked_def put_call_def update_conv' Let_def split: option.splits)

end
