(* ===== verification/Phone_Invariant.thy ===== *)
theory Phone_Invariant
  imports Phone_Registry
begin

text \<open>
  What the sweep of old calls and the expiry of unanswered ones do to the registry, that every operation
  keeps the registry's invariant, and how a call advances.
\<close>

subsection \<open>Removing calls\<close>

definition dead_call :: "int \<Rightarrow> int \<Rightarrow> phone_call \<Rightarrow> bool" where
  "dead_call now ttl c \<longleftrightarrow> call_Terminal c \<and> now - pc_DiscardedAt c > ttl"

lemma remove_effect:
  "map_of (rg_byID (removeLocked r i c False)) = (map_of (rg_byID r))(i := None)"
  "rg_active (removeLocked r i c False) = rg_active r" "rg_signals (removeLocked r i c False) = rg_signals r"
  by (simp_all add: removeLocked_def Let_def delete_conv')

lemma remove_inv:
  assumes inv: "registry_inv cfg sha r" and c: "map_of (rg_byID r) i = Some c" and t: "call_Terminal c"
  shows "registry_inv cfg sha (removeLocked r i c False)"
proof -
  let ?r = "removeLocked r i c False"
  have byID: "rg_byID ?r = AList.delete i (rg_byID r)" by (simp add: removeLocked_def Let_def)
  have random: "rg_byRandom ?r = (if rg_byRandom r (random_key c) = Some i then (rg_byRandom r)(random_key c := None) else rg_byRandom r)"
    by (simp add: removeLocked_def Let_def random_key_def)
  have dist: "distinct (map fst (rg_byID r))" using inv by (simp add: registry_inv_def calls_ok_def)
  have "calls_ok sha ?r" unfolding calls_ok_def
  proof (intro conjI allI impI)
    show "distinct (map fst (rg_byID ?r))" using dist by (simp add: byID distinct_delete)
    fix j d assume "map_of (rg_byID ?r) j = Some d"
    then have "map_of (rg_byID r) j = Some d" by (auto simp: remove_effect(1) split: if_splits)
    then show "pc_ID d = j" "call_wf sha d" using inv by (simp_all add: registry_inv_def calls_ok_def)
  qed
  moreover have "index_ok ?r" unfolding index_ok_def remove_effect(1)
  proof (intro conjI allI impI)
    fix key j assume k: "rg_byRandom ?r key = Some j"
    then have old: "rg_byRandom r key = Some j" by (auto simp: random split: if_splits)
    then obtain d where d: "map_of (rg_byID r) j = Some d" "random_key d = key"
      using inv unfolding registry_inv_def index_ok_def by blast
    have "j \<noteq> i"
    proof
      assume "j = i"
      then have "random_key c = key" using d c by simp
      then show False using k old \<open>j = i\<close> by (simp add: random)
    qed
    then show "\<exists>d. ((map_of (rg_byID r))(i := None)) j = Some d \<and> random_key d = key" using d by simp
  next
    fix j d assume d: "((map_of (rg_byID r))(i := None)) j = Some d" "\<not> call_Terminal d"
    then have j: "j \<noteq> i" "map_of (rg_byID r) j = Some d" by (auto split: if_splits)
    then have "rg_byRandom r (random_key d) = Some j" using inv d(2) unfolding registry_inv_def index_ok_def by blast
    then show "rg_byRandom ?r (random_key d) = Some j" using j(1) by (auto simp: random)
  qed
  moreover have "active_ok cfg ?r"
  proof -
    have live: "live_of u (AList.delete i (rg_byID r)) = live_of u (rg_byID r)" for u by (rule live_delete [OF dist c t])
    have "length (AList.delete i (rg_byID r)) \<le> length (rg_byID r)" by (rule length_delete_le')
    then show ?thesis using inv unfolding registry_inv_def active_ok_def byID remove_effect(2) live by auto
  qed
  ultimately show ?thesis by (simp add: registry_inv_def)
qed

lemma sweep_from:
  fixes now ttl :: int
  assumes "registry_inv cfg sha r" "distinct (map fst L)" "\<forall>(i, c) \<in> set L. map_of (rg_byID r) i = Some c"
  defines "r' \<equiv> fold (\<lambda>(i, c) r. if call_Terminal c \<and> now - pc_DiscardedAt c > ttl then removeLocked r i c False else r) L r"
  shows "registry_inv cfg sha r' \<and> rg_active r' = rg_active r \<and> rg_signals r' = rg_signals r \<and>
    (\<forall>j. map_of (rg_byID r') j = (if \<exists>c. (j, c) \<in> set L \<and> dead_call now ttl c then None else map_of (rg_byID r) j))"
  using assms(1-3) unfolding r'_def
proof (induction L arbitrary: r)
  case Nil
  then show ?case by simp
next
  case (Cons x L)
  obtain i c where x: "x = (i, c)" by (cases x)
  have c: "map_of (rg_byID r) i = Some c" using Cons.prems(3) x by simp
  have notin: "\<And>d. (i, d) \<notin> set L" using Cons.prems(2) x by (auto simp: image_iff)
  show ?case
  proof (cases "dead_call now ttl c")
    case True
    let ?r = "removeLocked r i c False"
    have inv: "registry_inv cfg sha ?r" using remove_inv [OF Cons.prems(1) c] True by (simp add: dead_call_def)
    have rest: "\<forall>(j, d) \<in> set L. map_of (rg_byID ?r) j = Some d"
      using Cons.prems(3) notin by (auto simp: remove_effect)
    have "distinct (map fst L)" using Cons.prems(2) by simp
    note IH = Cons.IH [OF inv this rest]
    show ?thesis using True IH notin by (auto simp: x remove_effect dead_call_def)
  next
    case False
    have "distinct (map fst L)" "\<forall>(j, d) \<in> set L. map_of (rg_byID r) j = Some d" using Cons.prems by simp_all
    note IH = Cons.IH [OF Cons.prems(1) this]
    show ?thesis using False IH by (auto simp: x dead_call_def)
  qed
qed

lemma sweep_effect:
  fixes now ttl :: int
  assumes inv: "registry_inv cfg sha r"
  defines "r' \<equiv> sweepTombstonesLocked r now ttl"
  shows "registry_inv cfg sha r'" "rg_active r' = rg_active r" "rg_signals r' = rg_signals r"
    and "map_of (rg_byID r') i = (case map_of (rg_byID r) i of None \<Rightarrow> None | Some c \<Rightarrow> if dead_call now ttl c then None else Some c)"
proof -
  have d: "distinct (map fst (rg_byID r))" using inv by (simp add: registry_inv_def calls_ok_def)
  have "\<forall>(i, c) \<in> set (rg_byID r). map_of (rg_byID r) i = Some c" using d by auto
  note * = sweep_from [OF inv d this, where now = now and ttl = ttl, folded sweepTombstonesLocked_def, folded r'_def]
  show "registry_inv cfg sha r'" "rg_active r' = rg_active r" "rg_signals r' = rg_signals r" using * by simp_all
  have "map_of (rg_byID r') i = (if \<exists>c. map_of (rg_byID r) i = Some c \<and> dead_call now ttl c then None else map_of (rg_byID r) i)"
    using * d by simp
  then show "map_of (rg_byID r') i = (case map_of (rg_byID r) i of None \<Rightarrow> None | Some c \<Rightarrow> if dead_call now ttl c then None else Some c)"
    by (simp split: option.splits)
qed

subsection \<open>Expiring calls\<close>

definition expired_call :: "int \<Rightarrow> phone_call \<Rightarrow> phone_call" where
  "expired_call now c = c\<lparr>pc_State := PhoneCallStateDiscarded,
     pc_DiscardReason := (if pc_State c = PhoneCallStateAccepted then PhoneCallDiscardReasonDisconnect else PhoneCallDiscardReasonMissed),
     pc_DiscardReasonSlug := [], pc_Duration := 0, pc_DiscardedAt := now\<rparr>"

lemma expire_fold:
  assumes "registry_inv cfg sha r" "distinct (map fst L)" "\<forall>(i, c) \<in> set L. map_of (rg_byID r) i = Some c"
  shows "registry_inv cfg sha (fst (fold (expire_one cfg now) L (r, cs))) \<and>
    snd (fold (expire_one cfg now) L (r, cs)) = cs @ map (expired_call now) (filter (overdue cfg now) (map snd L)) \<and>
    rg_signals (fst (fold (expire_one cfg now) L (r, cs))) = rg_signals r \<and>
    (\<forall>j. map_of (rg_byID (fst (fold (expire_one cfg now) L (r, cs)))) j =
       (case map_of L j of None \<Rightarrow> map_of (rg_byID r) j
        | Some c \<Rightarrow> Some (if overdue cfg now c then expired_call now c else c)))"
  using assms
proof (induction L arbitrary: r cs)
  case Nil
  then show ?case by simp
next
  case (Cons x L)
  obtain i c where x: "x = (i, c)" by (cases x)
  have c: "map_of (rg_byID r) i = Some c" using Cons.prems(3) x by simp
  then have id: "pc_ID c = i" using Cons.prems(1) by (simp add: registry_inv_def calls_ok_def)
  have notin: "map_of L i = None" "\<And>d. (i, d) \<notin> set L" using Cons.prems(2) x by (auto simp: image_iff map_of_eq_None_iff)
  have dist: "distinct (map fst L)" using Cons.prems(2) by simp
  show ?case
  proof (cases "overdue cfg now c")
    case True
    then have live: "\<not> call_Terminal c" by (simp add: overdue_def)
    let ?why = "if pc_State c = PhoneCallStateAccepted then PhoneCallDiscardReasonDisconnect else PhoneCallDiscardReasonMissed"
    let ?m = "markDiscardedLocked r c ?why 0 now"
    define r1 where "r1 = fst ?m"
    have new: "snd ?m = expired_call now c"
      using discard_effect(2) [OF live] by (simp add: markDiscardedLocked_def expired_call_def)
    have byID: "map_of (rg_byID r1) = (map_of (rg_byID r))(i \<mapsto> expired_call now c)"
      using discard_effect(1) [OF live, of r ?why "[]" 0 now] new id by (simp add: r1_def markDiscardedLocked_def)
    have sig: "rg_signals r1 = rg_signals r"
      by (simp add: r1_def markDiscardedLocked_def markDiscardedWithSlugLocked_def decActiveLocked_def put_call_def Let_def split: option.splits)
    have inv: "registry_inv cfg sha r1"
      unfolding r1_def markDiscardedLocked_def by (rule discard_inv [OF Cons.prems(1) _ live]) (use c id in simp_all)
    have rest: "\<forall>(j, d) \<in> set L. map_of (rg_byID r1) j = Some d"
      using Cons.prems(3) notin(2) by (auto simp: byID)
    have one: "expire_one cfg now x (r, cs) = (r1, cs @ [expired_call now c])"
      using True new by (simp add: expire_one_def x split_beta r1_def)
    show ?thesis using Cons.IH [OF inv dist rest] True sig notin(1) by (auto simp: one [unfolded x] x byID split: option.splits)
  next
    case False
    then have one: "expire_one cfg now x (r, cs) = (r, cs)" by (simp add: expire_one_def x)
    have rest: "\<forall>(j, d) \<in> set L. map_of (rg_byID r) j = Some d" using Cons.prems(3) by simp
    show ?thesis using Cons.IH [OF Cons.prems(1) dist rest] False c notin(1) by (auto simp: one [unfolded x] x split: option.splits)
  qed
qed

lemma expire_effect:
  assumes inv: "registry_inv cfg sha r" and ttl: "0 \<le> seconds (cf_TombstoneTTL cfg)"
  shows "registry_inv cfg sha (fst (ExpireDue cfg now r))"
    and "snd (ExpireDue cfg now r) = map (expired_call now) (filter (overdue cfg now) (map snd (rg_byID r)))"
    and "rg_signals (fst (ExpireDue cfg now r)) = rg_signals r"
    and "map_of (rg_byID (fst (ExpireDue cfg now r))) i =
      (case map_of (rg_byID r) i of None \<Rightarrow> None
       | Some c \<Rightarrow> if overdue cfg now c then Some (expired_call now c)
                   else if dead_call now (seconds (cf_TombstoneTTL cfg)) c then None else Some c)"
proof -
  have d: "distinct (map fst (rg_byID r))" using inv by (simp add: registry_inv_def calls_ok_def)
  have "\<forall>(i, c) \<in> set (rg_byID r). map_of (rg_byID r) i = Some c" using d by auto
  note * = expire_fold [OF inv d this, of now "[]"]
  obtain r1 cs where f: "fold (expire_one cfg now) (rg_byID r) (r, []) = (r1, cs)" by force
  have E: "ExpireDue cfg now r = (sweepTombstonesLocked r1 now (seconds (cf_TombstoneTTL cfg)), cs)"
    by (simp add: ExpireDue_def f)
  have inv1: "registry_inv cfg sha r1" and cs: "cs = map (expired_call now) (filter (overdue cfg now) (map snd (rg_byID r)))"
    and sig: "rg_signals r1 = rg_signals r"
    and m: "map_of (rg_byID r1) i = (case map_of (rg_byID r) i of None \<Rightarrow> map_of (rg_byID r) i
        | Some c \<Rightarrow> Some (if overdue cfg now c then expired_call now c else c))"
    using * by (simp_all add: f)
  note s = sweep_effect [OF inv1, of now "seconds (cf_TombstoneTTL cfg)"]
  show "registry_inv cfg sha (fst (ExpireDue cfg now r))" "rg_signals (fst (ExpireDue cfg now r)) = rg_signals r"
    "snd (ExpireDue cfg now r) = map (expired_call now) (filter (overdue cfg now) (map snd (rg_byID r)))"
    using s(1,3) sig cs by (simp_all add: E)
  have fresh: "\<not> dead_call now (seconds (cf_TombstoneTTL cfg)) (expired_call now c)" for c
    using ttl by (simp add: dead_call_def expired_call_def)
  show "map_of (rg_byID (fst (ExpireDue cfg now r))) i =
      (case map_of (rg_byID r) i of None \<Rightarrow> None
       | Some c \<Rightarrow> if overdue cfg now c then Some (expired_call now c)
                   else if dead_call now (seconds (cf_TombstoneTTL cfg)) c then None else Some c)"
    using s(4) [of i] m fresh by (auto simp: E split: option.splits)
qed

text \<open>The calls that an expiry reports, in the order of the iteration, are the overdue ones after their end.\<close>

lemma ended_set:
  assumes inv: "registry_inv cfg' sha r"
    and at: "\<And>i. map_of (rg_byID r') i = (case map_of (rg_byID r) i of None \<Rightarrow> None
       | Some c \<Rightarrow> if overdue cfg now c then Some (expired_call now c)
                   else if dead_call now ttl c then None else Some c)"
    and ended: "ended = map (expired_call now) (filter (overdue cfg now) (map snd (rg_byID r)))"
  shows "distinct (map pc_ID ended) \<and>
    set ended = {d. \<exists>c. map_of (rg_byID r) (pc_ID d) = Some c \<and> overdue cfg now c \<and> map_of (rg_byID r') (pc_ID d) = Some d}"
proof -
  have d: "distinct (map fst (rg_byID r))" and id: "\<And>i c. (i, c) \<in> set (rg_byID r) \<Longrightarrow> pc_ID c = i"
    using inv by (auto simp: registry_inv_def calls_ok_def)
  have same: "pc_ID (expired_call now c) = pc_ID c" for c by (simp add: expired_call_def)
  have "map pc_ID (map snd (rg_byID r)) = map fst (rg_byID r)" using id by auto
  then have "distinct (map pc_ID (map snd (rg_byID r)))" using d by (simp only:)
  then have "distinct (map pc_ID (filter (overdue cfg now) (map snd (rg_byID r))))" by (rule distinct_map_filter)
  then have "distinct (map pc_ID ended)" by (simp add: ended comp_def same)
  moreover have "e \<in> set ended \<longleftrightarrow> (\<exists>c. map_of (rg_byID r) (pc_ID e) = Some c \<and> overdue cfg now c \<and> map_of (rg_byID r') (pc_ID e) = Some e)" for e
  proof
    assume "e \<in> set ended"
    then obtain i c where c: "(i, c) \<in> set (rg_byID r)" "overdue cfg now c" "e = expired_call now c" by (auto simp: ended)
    then have "map_of (rg_byID r) (pc_ID e) = Some c" using id d same by simp
    then show "\<exists>c. map_of (rg_byID r) (pc_ID e) = Some c \<and> overdue cfg now c \<and> map_of (rg_byID r') (pc_ID e) = Some e"
      using c by (simp add: at)
  next
    assume "\<exists>c. map_of (rg_byID r) (pc_ID e) = Some c \<and> overdue cfg now c \<and> map_of (rg_byID r') (pc_ID e) = Some e"
    then obtain c where c: "map_of (rg_byID r) (pc_ID e) = Some c" "overdue cfg now c" "e = expired_call now c" by (auto simp: at)
    then have "(pc_ID e, c) \<in> set (rg_byID r)" by (simp add: map_of_SomeD)
    then show "e \<in> set ended" using c(2,3) by (force simp: ended)
  qed
  ultimately show ?thesis by blast
qed

end
