(* ===== verification/Phone_Steps.thy ===== *)
theory Phone_Steps
  imports Phone_Invariant
begin

text \<open>
  Every operation on private calls keeps the registry's invariant, a call that has not ended is never
  removed and only advances, and a call that was answered stays answered.
\<close>

subsection \<open>A new call\<close>

definition fresh_call :: "int \<Rightarrow> call_request \<Rightarrow> phone_call \<Rightarrow> bool" where
  "fresh_call caller req c \<longleftrightarrow> pc_AdminID c = caller \<and> pc_RandomID c = cr_RandomID req \<and> pc_ParticipantID c = cr_CalleeID req \<and>
     pc_State c = PhoneCallStateRequested \<and> pc_GAHash c = cr_GAHash req \<and> length (cr_GAHash req) = 32 \<and> pc_GB c = [] \<and> pc_GA c = [] \<and>
     pc_StartDate c = 0 \<and> pc_Duration c = 0"

definition insert_call :: "phone_registry \<Rightarrow> phone_call \<Rightarrow> phone_registry" where
  "insert_call r c = r\<lparr>rg_byID := AList.update (pc_ID c) c (rg_byID r), rg_byRandom := (rg_byRandom r)(random_key c \<mapsto> pc_ID c),
     rg_active := (rg_active r)(pc_AdminID c \<mapsto> active_calls r (pc_AdminID c) + 1), rg_signals := (rg_signals r)(pc_ID c := (0, 0))\<rparr>"

definition live_request :: "phone_registry \<Rightarrow> int \<times> int \<Rightarrow> phone_call option" where
  "live_request r key = (case rg_byRandom r key of
      None \<Rightarrow> None
    | Some i \<Rightarrow> (case map_of (rg_byID r) i of None \<Rightarrow> None | Some c \<Rightarrow> if call_Terminal c then None else Some c))"

lemma new_id_fresh: "new_id_from r draws k fuel = Inr i \<Longrightarrow> map_of (rg_byID r) i = None"
  by (induction fuel arbitrary: k) (auto split: sum.splits if_splits)

lemma RequestCall_cases:
  assumes "RequestCall cfg now draws h r caller req = (r', ans)"
  defines "r1 \<equiv> sweepTombstonesLocked r now (seconds (cf_TombstoneTTL cfg))"
  obtains (refused) e where "r' = r" "ans = Inl e"
    | (full) e where "r' = r1" "ans = Inl e" "live_request r1 (caller, cr_RandomID req) = None"
    | (again) c where "r' = r1" "ans = Inr c" "live_request r1 (caller, cr_RandomID req) = Some c"
    | (new) c where "r' = insert_call r1 c" "ans = Inr c" "live_request r1 (caller, cr_RandomID req) = None" "fresh_call caller req c"
        "map_of (rg_byID r1) (pc_ID c) = None" "int (length (rg_byID r1)) < cf_MaxRegistryEntries cfg"
        "active_calls r1 caller < cf_MaxActivePerUser cfg"
proof (cases "validateProtocol (cr_Protocol req) = None \<and> length (cr_GAHash req) = gaHashSize")
  case False
  then have "r' = r \<and> (\<exists>e. ans = Inl e)" using assms(1) by (auto simp: RequestCall_def split: option.splits)
  then show ?thesis using refused by blast
next
  case True
  note run = assms(1) [unfolded RequestCall_def, folded live_request_def r1_def, simplified Let_def, folded live_request_def r1_def]
  show ?thesis
  proof (cases "live_request r1 (caller, cr_RandomID req)")
    case (Some c)
    then have "r' = r1 \<and> ans = Inr c" using run True by simp
    then show ?thesis using again Some by blast
  next
    case None
    show ?thesis
    proof (cases "int (length (rg_byID r1)) \<ge> cf_MaxRegistryEntries cfg \<or> active_calls r1 caller \<ge> cf_MaxActivePerUser cfg \<or>
        (\<exists>e. newIDLocked r1 draws = Inl e) \<or> (\<exists>e. randomPositiveInt64 h = Inl e)")
      case True': True
      then have "r' = r1 \<and> (\<exists>e. ans = Inl e)" using run True None by (auto split: sum.splits if_splits)
      then show ?thesis using full None by blast
    next
      case False
      then obtain i a where i: "newIDLocked r1 draws = Inr i" and a: "randomPositiveInt64 h = Inr a"
        and space: "int (length (rg_byID r1)) < cf_MaxRegistryEntries cfg" "active_calls r1 caller < cf_MaxActivePerUser cfg"
        by (metis linorder_not_le sum.exhaust)
      then obtain c where c: "r' = insert_call r1 c" "ans = Inr c" "fresh_call caller req c" "pc_ID c = i"
        using run True None by (auto simp: insert_call_def fresh_call_def random_key_def gaHashSize_def)
      have "map_of (rg_byID r1) (pc_ID c) = None" using i new_id_fresh c(4) by (auto simp: newIDLocked_def)
      then show ?thesis using new c space None by blast
    qed
  qed
qed

lemma live_request_key:
  assumes "registry_inv cfg sha r"
  shows "live_request r (random_key c) = Some c \<longleftrightarrow> map_of (rg_byID r) (pc_ID c) = Some c \<and> \<not> call_Terminal c"
proof
  assume "live_request r (random_key c) = Some c"
  then obtain i where i: "map_of (rg_byID r) i = Some c" "\<not> call_Terminal c"
    by (auto simp: live_request_def simp del: map_of_eq_Some_iff split: option.splits if_splits)
  then have "pc_ID c = i" using assms by (simp add: registry_inv_def calls_ok_def)
  then show "map_of (rg_byID r) (pc_ID c) = Some c \<and> \<not> call_Terminal c" using i by simp
next
  assume c: "map_of (rg_byID r) (pc_ID c) = Some c \<and> \<not> call_Terminal c"
  then have "rg_byRandom r (random_key c) = Some (pc_ID c)" using assms by (simp add: registry_inv_def index_ok_def)
  then show "live_request r (random_key c) = Some c" using c by (simp add: live_request_def)
qed

lemma live_request_None:
  assumes "registry_inv cfg sha r" "live_request r key = None" "map_of (rg_byID r) i = Some c" "\<not> call_Terminal c"
  shows "random_key c \<noteq> key"
proof
  assume "random_key c = key"
  then have "rg_byRandom r key = Some i" using assms(1,3,4) unfolding registry_inv_def index_ok_def by blast
  then show False using assms(2-4) by (simp add: live_request_def)
qed

lemma insert_inv:
  assumes inv: "registry_inv cfg sha r" and new: "map_of (rg_byID r) (pc_ID c) = None" and f: "fresh_call caller req c"
    and none: "live_request r (caller, cr_RandomID req) = None"
    and space: "int (length (rg_byID r)) < cf_MaxRegistryEntries cfg" "active_calls r caller < cf_MaxActivePerUser cfg"
  shows "registry_inv cfg sha (insert_call r c)"
proof -
  let ?r = "insert_call r c"
  have key: "random_key c = (caller, cr_RandomID req)" using f by (simp add: random_key_def fresh_call_def)
  have wf: "call_wf sha c" and live: "\<not> call_Terminal c" and admin: "pc_AdminID c = caller"
    using f by (simp_all add: call_wf_def fresh_call_def call_Terminal_def)
  have byID: "rg_byID ?r = AList.update (pc_ID c) c (rg_byID r)" by (simp add: insert_call_def)
  have "calls_ok sha ?r" by (rule calls_ok_update [OF _ refl wf byID]) (use inv in \<open>simp add: registry_inv_def\<close>)
  moreover have "index_ok ?r" unfolding index_ok_def byID update_conv'
  proof (intro conjI allI impI)
    fix k j assume k: "rg_byRandom ?r k = Some j"
    show "\<exists>d. ((map_of (rg_byID r))(pc_ID c \<mapsto> c)) j = Some d \<and> random_key d = k"
    proof (cases "k = random_key c")
      case True
      then show ?thesis using k by (auto simp: insert_call_def)
    next
      case False
      then have "rg_byRandom r k = Some j" using k by (simp add: insert_call_def)
      then obtain d where "map_of (rg_byID r) j = Some d" "random_key d = k"
        using inv unfolding registry_inv_def index_ok_def by blast
      moreover from this have "j \<noteq> pc_ID c" using new by auto
      ultimately show ?thesis by simp
    qed
  next
    fix j d assume d: "((map_of (rg_byID r))(pc_ID c \<mapsto> c)) j = Some d" "\<not> call_Terminal d"
    show "rg_byRandom ?r (random_key d) = Some j"
    proof (cases "j = pc_ID c")
      case True
      then show ?thesis using d by (simp add: insert_call_def)
    next
      case False
      then have j: "map_of (rg_byID r) j = Some d" using d(1) by simp
      then have "random_key d \<noteq> random_key c" using live_request_None [OF inv none j d(2)] key by simp
      moreover have "rg_byRandom r (random_key d) = Some j" using inv j d(2) unfolding registry_inv_def index_ok_def by blast
      ultimately show ?thesis by (simp add: insert_call_def)
    qed
  qed
  moreover have "active_ok cfg ?r" unfolding active_ok_def
  proof (intro conjI allI)
    fix u
    have old: "rg_active r u = (if live_of u (rg_byID r) = 0 then None else Some (int (live_of u (rg_byID r))))"
      "int (live_of u (rg_byID r)) \<le> max 0 (cf_MaxActivePerUser cfg)"
      using inv by (simp_all add: registry_inv_def active_ok_def)
    have l: "live_of u (rg_byID ?r) = live_of u (rg_byID r) + of_bool (caller = u)"
      using live_insert [OF new, of u c] live admin by (simp add: byID)
    have a: "active_calls r u = int (live_of u (rg_byID r))" using old(1) by (simp add: active_calls_def)
    show "rg_active ?r u = (if live_of u (rg_byID ?r) = 0 then None else Some (int (live_of u (rg_byID ?r))))"
      using old(1) a admin unfolding l by (auto simp: insert_call_def)
    show "int (live_of u (rg_byID ?r)) \<le> max 0 (cf_MaxActivePerUser cfg)"
      using old(2) a space(2) unfolding l by (cases "caller = u") auto
    show "int (length (rg_byID ?r)) \<le> max 0 (cf_MaxRegistryEntries cfg)"
      using space(1) by (simp add: byID length_update_new [OF new])
  qed
  ultimately show ?thesis by (simp add: registry_inv_def)
qed


subsection \<open>One operation\<close>

definition phone_rank :: "phone_state \<Rightarrow> nat" where
  "phone_rank s = (case s of PhoneCallStateRequested \<Rightarrow> 0 | PhoneCallStateRinging \<Rightarrow> 1 | PhoneCallStateAccepted \<Rightarrow> 2
     | PhoneCallStateConfirmed \<Rightarrow> 3 | PhoneCallStateDiscarded \<Rightarrow> 4)"

text \<open>A call keeps who takes part, its secret and its commitment; what was answered stays; an ended call stays as it is.\<close>

definition advances :: "phone_call \<Rightarrow> phone_call \<Rightarrow> bool" where
  "advances c d \<longleftrightarrow>
     pc_ID d = pc_ID c \<and> pc_AccessHash d = pc_AccessHash c \<and> pc_AdminID d = pc_AdminID c \<and> pc_ParticipantID d = pc_ParticipantID c \<and>
     pc_RandomID d = pc_RandomID c \<and> pc_GAHash d = pc_GAHash c \<and> pc_CallerProtocol d = pc_CallerProtocol c \<and>
     pc_CallerDevice d = pc_CallerDevice c \<and> phone_rank (pc_State c) \<le> phone_rank (pc_State d) \<and>
     (pc_GB c \<noteq> [] \<longrightarrow> pc_GB d = pc_GB c \<and> pc_Protocol d = pc_Protocol c \<and> pc_CalleeDevice d = pc_CalleeDevice c) \<and>
     (pc_GA c \<noteq> [] \<longrightarrow> pc_GA d = pc_GA c \<and> pc_KeyFingerprint d = pc_KeyFingerprint c \<and> pc_StartDate d = pc_StartDate c) \<and>
     (call_Terminal c \<longrightarrow> d = c)"

lemma advances_refl: "advances c c"
  by (simp add: advances_def)

lemma advances_trans: "advances c d \<Longrightarrow> advances d e \<Longrightarrow> advances c e"
  unfolding advances_def by (cases "call_Terminal c") auto

lemma advances_discard:
  "\<not> call_Terminal c \<Longrightarrow> advances c (c\<lparr>pc_State := PhoneCallStateDiscarded, pc_DiscardReason := a, pc_DiscardReasonSlug := b,
      pc_Duration := d, pc_DiscardedAt := e\<rparr>)"
  by (auto simp: advances_def phone_rank_def split: phone_state.splits)

text \<open>
  What one operation does to the registry: it does nothing, puts an advanced call back, ends a call, adds a
  requested one after a sweep, or expires.
\<close>

lemma lookup_Some: "lookupLocked r i h = Some c \<Longrightarrow> map_of (rg_byID r) i = Some c \<and> pc_AccessHash c = h"
  by (auto simp: lookupLocked_def simp del: map_of_eq_Some_iff split: option.splits if_splits)

lemma accept_wf:
  fixes device :: session_ref
  assumes "call_wf sha c" "pc_State c = PhoneCallStateRequested \<or> pc_State c = PhoneCallStateRinging"
    and "length gb = call_dhPubSize" "\<not> list_all (\<lambda>b. b = 0) gb" "negotiateProtocol order (pc_CallerProtocol c) proto = Inr p"
  defines "c' \<equiv> c\<lparr>pc_GB := gb, pc_CalleeProtocol := proto, pc_Protocol := p, pc_CalleeDevice := device, pc_State := PhoneCallStateAccepted\<rparr>"
  shows "call_wf sha c' \<and> advances c c' \<and> \<not> call_Terminal c \<and> \<not> call_Terminal c'"
proof -
  have c: "pc_GB c = []" "pc_GA c = []" "length (pc_GAHash c) = 32" "pc_StartDate c = 0" "pc_Duration c = 0"
    using assms(1,2) by (auto simp: call_wf_def)
  have "\<exists>order. negotiateProtocol order (pc_CallerProtocol c) proto = Inr p" "gb \<noteq> []" using assms(4,5) by auto
  then have "call_wf sha c'" using c assms(3,4) by (simp add: call_wf_def c'_def call_dhPubSize_def)
  moreover have "\<not> call_Terminal c" "\<not> call_Terminal c'" using assms(2) by (auto simp: call_Terminal_def c'_def)
  moreover have "advances c c'" using c assms(2) \<open>\<not> call_Terminal c\<close> by (auto simp: advances_def phone_rank_def c'_def)
  ultimately show ?thesis by blast
qed

lemma confirm_wf:
  fixes fp now :: int and p :: bool
  assumes "call_wf sha c" "pc_State c = PhoneCallStateAccepted" "length ga = call_dhPubSize" "sha ga = pc_GAHash c"
  defines "c' \<equiv> c\<lparr>pc_GA := ga, pc_KeyFingerprint := fp, pc_StartDate := now, pc_P2PAllowed := p, pc_State := PhoneCallStateConfirmed\<rparr>"
  shows "call_wf sha c' \<and> advances c c' \<and> \<not> call_Terminal c \<and> \<not> call_Terminal c'"
proof -
  have c: "pc_GA c = []" "ga \<noteq> []" "pc_GB c \<noteq> []" "length ga = 256" "pc_Duration c = 0"
    using assms(1-4) by (auto simp: call_wf_def call_dhPubSize_def call_Terminal_def)
  then have "call_wf sha c'" using assms(1,2,4) by (simp add: call_wf_def c'_def)
  moreover have "\<not> call_Terminal c" "\<not> call_Terminal c'" using assms(2) by (simp_all add: call_Terminal_def c'_def)
  moreover have "advances c c'" using c assms(2) \<open>\<not> call_Terminal c\<close> by (simp add: advances_def phone_rank_def c'_def)
  ultimately show ?thesis by blast
qed

lemma put_call_map: "map_of (rg_byID (put_call r c)) = (map_of (rg_byID r))(pc_ID c \<mapsto> c)"
  by (simp add: put_call_def update_conv')

definition discarded :: "phone_call \<Rightarrow> discard_reason \<Rightarrow> string \<Rightarrow> int \<Rightarrow> int \<Rightarrow> phone_call" where
  "discarded c reason slug d now = c\<lparr>pc_State := PhoneCallStateDiscarded, pc_DiscardReason := reason, pc_DiscardReasonSlug := slug,
     pc_Duration := d, pc_DiscardedAt := now\<rparr>"

lemma discard_call:
  fixes reason :: discard_reason and slug :: string and now :: int
  assumes inv: "registry_inv cfg sha r" and c: "map_of (rg_byID r) i = Some c" and live: "\<not> call_Terminal c"
    and d: "d \<noteq> 0 \<longrightarrow> pc_StartDate c \<noteq> 0"
  defines "r' \<equiv> fst (markDiscardedWithSlugLocked r c reason slug d now)"
  shows "registry_inv cfg sha r'" and "map_of (rg_byID r') = (map_of (rg_byID r))(i \<mapsto> discarded c reason slug d now)"
    and "rg_signals r' = rg_signals r" and "snd (markDiscardedWithSlugLocked r c reason slug d now) = discarded c reason slug d now"
    and "advances c (discarded c reason slug d now)"
proof -
  have id: "pc_ID c = i" using inv c by (simp add: registry_inv_def calls_ok_def)
  show "registry_inv cfg sha r'" unfolding r'_def by (rule discard_inv [OF inv _ live d]) (use c id in simp)
  show "map_of (rg_byID r') = (map_of (rg_byID r))(i \<mapsto> discarded c reason slug d now)"
    "snd (markDiscardedWithSlugLocked r c reason slug d now) = discarded c reason slug d now"
    using discard_effect [OF live, of r reason slug d now] id by (simp_all add: r'_def discarded_def)
  show "rg_signals r' = rg_signals r"
    by (simp add: r'_def markDiscardedWithSlugLocked_def decActiveLocked_def put_call_def Let_def split: option.splits)
  show "advances c (discarded c reason slug d now)" unfolding discarded_def by (rule advances_discard [OF live])
qed


subsection \<open>How the calls of the registry follow each other\<close>

definition requested_as :: "phone_answer \<Rightarrow> phone_call \<Rightarrow> bool" where
  "requested_as a d \<longleftrightarrow> a = AnsCall (Inr d) \<and> pc_State d = PhoneCallStateRequested"

definition follows :: "phone_registry \<Rightarrow> phone_registry \<Rightarrow> phone_answer \<Rightarrow> bool" where
  "follows r r' a \<longleftrightarrow> (\<forall>i.
     (\<forall>c. map_of (rg_byID r) i = Some c \<longrightarrow> \<not> call_Terminal c \<longrightarrow> (\<exists>d. map_of (rg_byID r') i = Some d \<and> advances c d)) \<and>
     (\<forall>d. map_of (rg_byID r') i = Some d \<longrightarrow>
        (\<exists>c. map_of (rg_byID r) i = Some c \<and> advances c d) \<or> pc_ID d = i \<and> requested_as a d))"

lemma follows_refl: "follows r r a"
  using advances_refl by (auto simp: follows_def simp del: map_of_eq_Some_iff)

lemma follows_update:
  assumes "map_of (rg_byID r) i = Some c" "advances c c'" "map_of (rg_byID r') = (map_of (rg_byID r))(i \<mapsto> c')"
  shows "follows r r' a"
  using assms advances_refl by (auto simp: follows_def simp del: map_of_eq_Some_iff)

lemma follows_sweep:
  assumes "registry_inv cfg sha r" shows "follows r (sweepTombstonesLocked r now ttl) a"
  using sweep_effect(4) [OF assms] advances_refl
  by (auto simp: follows_def dead_call_def simp del: map_of_eq_Some_iff split: option.splits if_splits)

lemma follows_add:
  assumes f: "follows r r1 a" and new: "map_of (rg_byID r1) (pc_ID c) = None" and req: "requested_as a c"
    and m: "map_of (rg_byID r') = (map_of (rg_byID r1))(pc_ID c \<mapsto> c)"
  shows "follows r r' a"
  unfolding follows_def
proof (intro allI conjI impI)
  fix i d assume d: "map_of (rg_byID r) i = Some d" "\<not> call_Terminal d"
  then obtain e where e: "map_of (rg_byID r1) i = Some e" "advances d e" using f unfolding follows_def by blast
  then have "i \<noteq> pc_ID c" using new by auto
  then show "\<exists>e. map_of (rg_byID r') i = Some e \<and> advances d e" using e m by simp
next
  fix i d assume d: "map_of (rg_byID r') i = Some d"
  show "(\<exists>c. map_of (rg_byID r) i = Some c \<and> advances c d) \<or> pc_ID d = i \<and> requested_as a d"
  proof (cases "i = pc_ID c")
    case True
    then show ?thesis using d m req by simp
  next
    case False
    then have "map_of (rg_byID r1) i = Some d" using d m by simp
    then show ?thesis using f unfolding follows_def by blast
  qed
qed

lemma request_step:
  assumes inv: "registry_inv cfg sha r"
  shows "registry_inv cfg sha (fst (RequestCall cfg now draws h r caller req)) \<and>
    follows r (fst (RequestCall cfg now draws h r caller req)) (AnsCall (snd (RequestCall cfg now draws h r caller req)))"
proof -
  obtain r' ans where run: "RequestCall cfg now draws h r caller req = (r', ans)" by (cases "RequestCall cfg now draws h r caller req")
  let ?r1 = "sweepTombstonesLocked r now (seconds (cf_TombstoneTTL cfg))"
  have inv1: "registry_inv cfg sha ?r1" by (rule sweep_effect(1) [OF inv])
  have sweep: "follows r ?r1 a" for a by (rule follows_sweep [OF inv])
  from run show ?thesis
  proof (cases rule: RequestCall_cases)
    case (new c)
    note n = new
    have "pc_State c = PhoneCallStateRequested" using n(4) by (simp add: fresh_call_def)
    then have "requested_as (AnsCall ans) c" using n(2) by (simp add: requested_as_def)
    moreover have m: "map_of (rg_byID r') = (map_of (rg_byID ?r1))(pc_ID c \<mapsto> c)" using n(1) by (simp add: insert_call_def update_conv')
    ultimately have "follows r r' (AnsCall ans)"
      using follows_add [OF sweep n(5)] by blast
    moreover have "registry_inv cfg sha r'" unfolding n(1) by (rule insert_inv [OF inv1 n(5,4,3,6,7)])
    ultimately show ?thesis by (simp add: run)
  qed (use inv inv1 sweep run follows_refl in simp_all)
qed

lemma update_step:
  assumes inv: "registry_inv cfg sha r" and c: "map_of (rg_byID r) i = Some c"
    and c': "advances c c'" "call_wf sha c'" "\<not> call_Terminal c" "\<not> call_Terminal c'"
  shows "registry_inv cfg sha (put_call r c') \<and> follows r (put_call r c') a"
proof -
  have id: "pc_ID c = i" using inv c by (simp add: registry_inv_def calls_ok_def)
  then have id': "pc_ID c' = i" using c'(1) by (simp add: advances_def)
  have "registry_inv cfg sha (put_call r c')"
    by (rule put_call_inv [OF inv, of c]) (use c c' id in \<open>simp_all add: advances_def\<close>)
  moreover have "follows r (put_call r c') a"
    by (rule follows_update [OF c c'(1)]) (simp add: put_call_map id')
  ultimately show ?thesis by blast
qed

lemma wf_of: "registry_inv cfg sha r \<Longrightarrow> map_of (rg_byID r) i = Some c \<Longrightarrow> call_wf sha c"
  by (simp add: registry_inv_def calls_ok_def)

lemma received_step:
  assumes inv: "registry_inv cfg sha r"
  shows "registry_inv cfg sha (fst (ReceivedCall now r u i h)) \<and> follows r (fst (ReceivedCall now r u i h)) a"
proof (cases "\<exists>c. lookupLocked r i h = Some c \<and> u = pc_ParticipantID c \<and> pc_State c = PhoneCallStateRequested")
  case True
  then obtain c where l: "lookupLocked r i h = Some c" "u = pc_ParticipantID c" "pc_State c = PhoneCallStateRequested" by blast
  then have c: "map_of (rg_byID r) i = Some c" using lookup_Some by blast
  let ?c = "c\<lparr>pc_State := PhoneCallStateRinging, pc_ReceiveDate := now\<rparr>"
  have "pc_GA c = []" using wf_of [OF inv c] l(3) by (auto simp: call_wf_def)
  then have "call_wf sha ?c" using wf_of [OF inv c] l(3) by (simp add: call_wf_def call_Terminal_def)
  moreover have "advances c ?c" using l(3) by (simp add: advances_def phone_rank_def call_Terminal_def)
  ultimately show ?thesis
    using update_step [OF inv c, of ?c a] l by (simp add: ReceivedCall_def call_Terminal_def Let_def)
next
  case False
  then have "fst (ReceivedCall now r u i h) = r" by (auto simp: ReceivedCall_def split: option.splits)
  then show ?thesis using inv follows_refl by simp
qed

lemma accept_step:
  assumes inv: "registry_inv cfg sha r"
  shows "registry_inv cfg sha (fst (AcceptCall order r u i h gb proto device)) \<and> follows r (fst (AcceptCall order r u i h gb proto device)) a"
proof (cases "snd (AcceptCall order r u i h gb proto device)")
  case (Inl e)
  then have "fst (AcceptCall order r u i h gb proto device) = r"
    by (auto simp: AcceptCall_def Let_def split: option.splits sum.splits if_splits)
  then show ?thesis using inv follows_refl by simp
next
  case (Inr c')
  then obtain c p where l: "lookupLocked r i h = Some c" "length gb = call_dhPubSize" "\<not> list_all (\<lambda>b. b = 0) gb"
      "negotiateProtocol order (pc_CallerProtocol c) proto = Inr p"
    and st: "pc_State c \<noteq> PhoneCallStateAccepted" "pc_State c \<noteq> PhoneCallStateConfirmed" "pc_State c \<noteq> PhoneCallStateDiscarded"
    and c': "c' = c\<lparr>pc_GB := gb, pc_CalleeProtocol := proto, pc_Protocol := p, pc_CalleeDevice := device, pc_State := PhoneCallStateAccepted\<rparr>"
    and r': "fst (AcceptCall order r u i h gb proto device) = put_call r c'"
    by (auto simp: AcceptCall_def Let_def split: option.splits sum.splits if_splits)
  have c: "map_of (rg_byID r) i = Some c" using l(1) lookup_Some by blast
  have st': "pc_State c = PhoneCallStateRequested \<or> pc_State c = PhoneCallStateRinging" using st by (cases "pc_State c") auto
  have "call_wf sha c' \<and> advances c c' \<and> \<not> call_Terminal c \<and> \<not> call_Terminal c'"
    unfolding c' by (rule accept_wf [OF wf_of [OF inv c] st' l(2-4)])
  then show ?thesis using update_step [OF inv c] unfolding r' by blast
qed

end
