(* ===== verification/Phone_Runs.thy ===== *)
theory Phone_Runs
  imports Phone_Steps
begin

text \<open>
  The remaining operations, sequences of operations, and what holds between two points of a sequence. The
  configuration is the one \<^verbatim>\<open>NewService\<close> leaves, with its defaults filled in.
\<close>

subsection \<open>Ending calls\<close>

lemma discard_step:
  assumes inv: "registry_inv cfg sha r" and c: "map_of (rg_byID r) i = Some c" and live: "\<not> call_Terminal c"
    and d: "d \<noteq> 0 \<longrightarrow> pc_StartDate c \<noteq> 0"
  shows "registry_inv cfg sha (fst (markDiscardedWithSlugLocked r c reason slug d now)) \<and>
    follows r (fst (markDiscardedWithSlugLocked r c reason slug d now)) a"
  using discard_call(1) [OF assms] follows_update [OF c discard_call(5) [OF assms] discard_call(2) [OF assms]] by blast

lemma discard_op_step:
  assumes inv: "registry_inv cfg sha r"
  shows "registry_inv cfg sha (fst (DiscardCallWithSlug now r u i h reason slug d)) \<and>
    follows r (fst (DiscardCallWithSlug now r u i h reason slug d)) a"
proof (cases "\<exists>c. lookupLocked r i h = Some c \<and> call_HasParticipant c u \<and> \<not> call_Terminal c")
  case True
  then obtain c where l: "lookupLocked r i h = Some c" "call_HasParticipant c u" "\<not> call_Terminal c" by blast
  then have c: "map_of (rg_byID r) i = Some c" using lookup_Some by blast
  let ?reason = "if reason = DiscardReasonNone then PhoneCallDiscardReasonHangup else reason"
  let ?slug = "if ?reason \<noteq> PhoneCallDiscardReasonMigrateConference then [] else slug"
  let ?d = "if pc_StartDate c = 0 \<or> d < 0 then 0 else d"
  have eq: "fst (DiscardCallWithSlug now r u i h reason slug d) = fst (markDiscardedWithSlugLocked r c ?reason ?slug ?d now)"
    using l by (simp add: DiscardCallWithSlug_def Let_def split_beta)
  have "?d \<noteq> 0 \<longrightarrow> pc_StartDate c \<noteq> 0" by simp
  from discard_step [OF inv c l(3) this] show ?thesis unfolding eq .
next
  case False
  then have "fst (DiscardCallWithSlug now r u i h reason slug d) = r" by (auto simp: DiscardCallWithSlug_def split: option.splits)
  then show ?thesis using inv follows_refl by simp
qed

lemma confirm_step:
  assumes inv: "registry_inv cfg sha r"
  shows "registry_inv cfg sha (fst (ConfirmCall sha now r u i h ga fp proto)) \<and> follows r (fst (ConfirmCall sha now r u i h ga fp proto)) a"
proof (cases "\<exists>c. lookupLocked r i h = Some c \<and> u = pc_AdminID c \<and> pc_State c = PhoneCallStateAccepted \<and> validateProtocol proto = None")
  case True
  then obtain c where l: "lookupLocked r i h = Some c" "u = pc_AdminID c" "pc_State c = PhoneCallStateAccepted" "validateProtocol proto = None"
    by blast
  then have c: "map_of (rg_byID r) i = Some c" using lookup_Some by blast
  have live: "\<not> call_Terminal c" using l(3) by (simp add: call_Terminal_def)
  show ?thesis
  proof (cases "length ga \<noteq> call_dhPubSize \<or> sha ga \<noteq> pc_GAHash c")
    case True
    then have "fst (ConfirmCall sha now r u i h ga fp proto) =
        fst (markDiscardedWithSlugLocked r c PhoneCallDiscardReasonDisconnect [] 0 now)"
      using l by (auto simp: ConfirmCall_def markDiscardedLocked_def Let_def split_beta)
    then show ?thesis using discard_step [OF inv c live, of 0] by simp
  next
    case False
    define c' where "c' = c\<lparr>pc_GA := ga, pc_KeyFingerprint := fp, pc_StartDate := now,
        pc_P2PAllowed := (cp_UDPP2P (pc_CallerProtocol c) \<and> cp_UDPP2P (pc_CalleeProtocol c) \<and> pc_PrivacyP2P c),
        pc_State := PhoneCallStateConfirmed\<rparr>"
    have r': "fst (ConfirmCall sha now r u i h ga fp proto) = put_call r c'"
      using l False by (simp add: ConfirmCall_def Let_def c'_def)
    have "call_wf sha c' \<and> advances c c' \<and> \<not> call_Terminal c \<and> \<not> call_Terminal c'"
      unfolding c'_def by (rule confirm_wf [OF wf_of [OF inv c] l(3)]) (use False in auto)
    then show ?thesis using update_step [OF inv c] unfolding r' by blast
  qed
next
  case False
  then have "fst (ConfirmCall sha now r u i h ga fp proto) = r" by (auto simp: ConfirmCall_def split: option.splits)
  then show ?thesis using inv follows_refl by simp
qed

lemma expire_step:
  assumes inv: "registry_inv cfg sha r" and ttl: "0 \<le> seconds (cf_TombstoneTTL cfg)"
  shows "registry_inv cfg sha (fst (ExpireDue cfg now r)) \<and> follows r (fst (ExpireDue cfg now r)) a"
proof -
  have adv: "overdue cfg now c \<Longrightarrow> advances c (expired_call now c)" for c
    unfolding expired_call_def by (rule advances_discard) (simp add: overdue_def)
  have "follows r (fst (ExpireDue cfg now r)) a"
    unfolding follows_def expire_effect(4) [OF inv ttl] dead_call_def
    using adv advances_refl by (auto simp del: map_of_eq_Some_iff split: option.splits if_splits)
  then show ?thesis using expire_effect(1) [OF inv ttl] by blast
qed

lemma count_step:
  assumes "registry_inv cfg sha r"
  shows "registry_inv cfg sha (fst (count_signal cfg now r i)) \<and> follows r (fst (count_signal cfg now r i)) a"
proof -
  have "rg_byID (fst (count_signal cfg now r i)) = rg_byID r" "rg_byRandom (fst (count_signal cfg now r i)) = rg_byRandom r"
    "rg_active (fst (count_signal cfg now r i)) = rg_active r"
    by (auto simp: count_signal_def Let_def split: prod.splits)
  then show ?thesis using assms advances_refl
    by (auto simp: registry_inv_def calls_ok_def index_ok_def active_ok_def follows_def simp del: map_of_eq_Some_iff)
qed

subsection \<open>Every operation\<close>

lemma defaults_ttl: "0 \<le> seconds (cf_TombstoneTTL (withDefaults cfg))"
  by (simp add: withDefaults_def seconds_def quot64_nonneg pos_imp_zdiv_nonneg_iff)

lemma phone_step_ok:
  assumes inv: "registry_inv (withDefaults cfg) sha r"
  shows "registry_inv (withDefaults cfg) sha (fst (phone_step (withDefaults cfg) sha op r)) \<and>
    follows r (fst (phone_step (withDefaults cfg) sha op r)) (snd (phone_step (withDefaults cfg) sha op r))"
proof (cases op)
  case OpRequest
  then show ?thesis using request_step [OF inv] by simp
next
  case OpReceived
  then show ?thesis using received_step [OF inv] by simp
next
  case OpAccept
  then show ?thesis using accept_step [OF inv] by simp
next
  case (OpConfirm now u i h ga fp proto)
  obtain r' c ended e where run: "ConfirmCall sha now r u i h ga fp proto = (r', c, ended, e)"
    by (cases "ConfirmCall sha now r u i h ga fp proto")
  then show ?thesis using confirm_step [OF inv, of now u i h ga fp proto] OpConfirm by simp
next
  case OpDiscard
  then show ?thesis using discard_op_step [OF inv] by simp
next
  case OpExpire
  then show ?thesis using expire_step [OF inv defaults_ttl] by simp
next
  case OpCountSignal
  then show ?thesis using count_step [OF inv] by simp
qed

lemma new_inv: "registry_inv cfg sha newRegistry"
  by (simp add: registry_inv_def calls_ok_def index_ok_def active_ok_def newRegistry_def live_of_def)

lemma phone_run_inv:
  "registry_inv (withDefaults cfg) sha r \<Longrightarrow> registry_inv (withDefaults cfg) sha (fst (phone_run (withDefaults cfg) sha ops r))"
proof (induction ops arbitrary: r)
  case Nil
  then show ?case by simp
next
  case (Cons op ops)
  show ?case
    using Cons.IH [of "fst (phone_step (withDefaults cfg) sha op r)"] phone_step_ok [OF Cons.prems, of op]
    by (simp add: Let_def split_beta)
qed

lemma phone_run_append:
  "phone_run cfg sha (ops @ ops') r = (let (r1, as) = phone_run cfg sha ops r; (r2, as') = phone_run cfg sha ops' r1 in (r2, as @ as'))"
  by (induction ops arbitrary: r) (simp_all add: Let_def split_beta)

lemma phone_run_snoc: "fst (phone_run cfg sha (ops @ [op]) r) = fst (phone_step cfg sha op (fst (phone_run cfg sha ops r)))"
  by (simp add: phone_run_append Let_def split_beta)

text \<open>A call that has not ended is there until it has ended, in an advanced form.\<close>

lemma run_advances:
  assumes "registry_inv (withDefaults cfg) sha r" "map_of (rg_byID r) i = Some c"
    and "\<forall>k < length ops. \<forall>d. map_of (rg_byID (fst (phone_run (withDefaults cfg) sha (take k ops) r))) i = Some d \<longrightarrow> \<not> call_Terminal d"
  shows "\<exists>d. map_of (rg_byID (fst (phone_run (withDefaults cfg) sha ops r))) i = Some d \<and> advances c d"
  using assms(3)
proof (induction ops rule: rev_induct)
  case Nil
  then show ?case using assms(2) advances_refl by auto
next
  case (snoc op ops)
  let ?r = "fst (phone_run (withDefaults cfg) sha ops r)"
  have prem: "\<not> call_Terminal d" if "k \<le> length ops" "map_of (rg_byID (fst (phone_run (withDefaults cfg) sha (take k ops) r))) i = Some d" for k d
    using snoc.prems [rule_format, of k d] that by simp
  obtain d where d: "map_of (rg_byID ?r) i = Some d" "advances c d" using snoc.IH prem by (meson less_imp_le)
  then have "\<not> call_Terminal d" using prem [of "length ops" d] by simp
  moreover have "follows ?r (fst (phone_step (withDefaults cfg) sha op ?r)) (snd (phone_step (withDefaults cfg) sha op ?r))"
    using phone_step_ok [OF phone_run_inv [OF assms(1)]] by blast
  ultimately obtain e where "map_of (rg_byID (fst (phone_step (withDefaults cfg) sha op ?r))) i = Some e" "advances d e"
    using d(1) unfolding follows_def by blast
  then show ?case using advances_trans [OF d(2)] by (auto simp: phone_run_snoc)
qed

lemma run_until_end:
  assumes "registry_inv (withDefaults cfg) sha r" "map_of (rg_byID r) i = Some c"
  shows "\<exists>k d. k \<le> length ops \<and> map_of (rg_byID (fst (phone_run (withDefaults cfg) sha (take k ops) r))) i = Some d \<and>
    advances c d \<and> (k = length ops \<or> call_Terminal d)"
proof -
  let ?at = "\<lambda>k. map_of (rg_byID (fst (phone_run (withDefaults cfg) sha (take k ops) r))) i"
  define ended where "ended k \<longleftrightarrow> k = length ops \<or> (\<exists>d. ?at k = Some d \<and> call_Terminal d)" for k
  define k where "k = (LEAST k. ended k)"
  have "ended (length ops)" by (simp add: ended_def)
  then have k: "ended k" "k \<le> length ops" "\<And>j. j < k \<Longrightarrow> \<not> ended j"
    unfolding k_def by (auto intro: LeastI Least_le dest: not_less_Least)
  have "\<forall>j < length (take k ops). \<forall>d. map_of (rg_byID (fst (phone_run (withDefaults cfg) sha (take j (take k ops)) r))) i = Some d \<longrightarrow> \<not> call_Terminal d"
    using k(2,3) by (auto simp: ended_def min_def simp del: map_of_eq_Some_iff)
  from run_advances [OF assms this] obtain d where "?at k = Some d" "advances c d" by blast
  then show ?thesis using k(1,2) by (auto simp: ended_def simp del: map_of_eq_Some_iff)
qed

subsection \<open>Answered calls\<close>

definition answered :: "phone_registry \<Rightarrow> int \<Rightarrow> bool" where
  "answered r i \<longleftrightarrow> (\<forall>c. map_of (rg_byID r) i = Some c \<longrightarrow> 2 \<le> phone_rank (pc_State c))"

lemma follows_answered:
  assumes "follows r r' a" "answered r i" "\<not> (\<exists>d. requested_as a d \<and> pc_ID d = i)"
  shows "answered r' i"
  unfolding answered_def
proof (intro allI impI)
  fix d assume "map_of (rg_byID r') i = Some d"
  then obtain c where "map_of (rg_byID r) i = Some c" "advances c d" using assms(1,3) unfolding follows_def by blast
  then show "2 \<le> phone_rank (pc_State d)" using assms(2) unfolding answered_def advances_def by (meson le_trans)
qed

lemma run_answered:
  assumes "registry_inv (withDefaults cfg) sha r" "phone_run (withDefaults cfg) sha ops r = (r', answers)"
    and "answered r i" "\<forall>d. AnsCall (Inr d) \<in> set answers \<longrightarrow> pc_State d = PhoneCallStateRequested \<longrightarrow> pc_ID d \<noteq> i"
  shows "answered r' i"
  using assms
proof (induction ops arbitrary: r answers)
  case Nil
  then show ?case by simp
next
  case (Cons op ops)
  let ?s = "phone_step (withDefaults cfg) sha op r"
  obtain as where as: "phone_run (withDefaults cfg) sha ops (fst ?s) = (r', as)" "answers = snd ?s # as"
    using Cons.prems(2) by (auto simp: Let_def split_beta prod_eq_iff)
  have "answered (fst ?s) i"
    by (rule follows_answered [OF _ Cons.prems(3)]) (use phone_step_ok [OF Cons.prems(1)] Cons.prems(4) as(2) in \<open>auto simp: requested_as_def\<close>)
  then show ?case using Cons.IH [OF _ as(1)] phone_step_ok [OF Cons.prems(1)] Cons.prems(4) as(2) by simp
qed

lemma answered_refuses: "answered r i \<Longrightarrow> \<exists>e. AcceptCall order r u i h gb proto device = (r, Inl e)"
proof -
  assume a: "answered r i"
  have "pc_State c = PhoneCallStateAccepted \<or> pc_State c = PhoneCallStateConfirmed \<or> pc_State c = PhoneCallStateDiscarded"
    if "lookupLocked r i h = Some c" for c
    using a lookup_Some [OF that] by (cases "pc_State c") (auto simp: answered_def phone_rank_def)
  then show ?thesis by (auto simp: AcceptCall_def split: option.splits)
qed

lemma accept_answers:
  assumes inv: "registry_inv cfg sha r" and "AcceptCall order r u i h gb proto device = (r', Inr c')"
  shows "answered r' i"
proof -
  obtain c where c: "lookupLocked r i h = Some c" "r' = put_call r c'" "pc_ID c' = pc_ID c" "pc_State c' = PhoneCallStateAccepted"
    using assms(2) by (auto simp: AcceptCall_def Let_def split: option.splits sum.splits if_splits)
  have "pc_ID c = i" using lookup_Some [OF c(1)] inv by (simp add: registry_inv_def calls_ok_def)
  then show ?thesis using c by (simp add: answered_def put_call_map phone_rank_def)
qed

end
