(* ===== verification/Phone_Theorems.thy ===== *)
theory Phone_Theorems
  imports Phone_Runs
begin

text \<open>
  What private calls promise: the registry is well formed, live calls only advance, a call is answered
  once, unanswered calls end exactly when they are due, retried requests give the same call, negotiation
  stays within what both sides offer, and signals are bounded and reach the other side only.
\<close>

subsection \<open>Examples\<close>

definition ex_config :: phone_config where
  "ex_config = \<lparr>cf_RingTimeout = 0, cf_TombstoneTTL = 0, cf_MaxActivePerUser = 0, cf_MaxRegistryEntries = 0, cf_SignalingRatePerSecond = 2\<rparr>"

definition ex_protocol :: call_protocol where
  "ex_protocol = \<lparr>cp_UDPP2P = True, cp_UDPReflector = True, cp_MinLayer = 65, cp_MaxLayer = 92, cp_LibraryVersions = [''9.0.0'']\<rparr>"

definition ex_sha :: "8 word list \<Rightarrow> 8 word list" where
  "ex_sha bs = replicate 32 (hd bs)"

definition ex_request :: call_request where
  "ex_request = \<lparr>cr_CalleeID = 2, cr_RandomID = 5, cr_GAHash = replicate 32 7, cr_Video = False, cr_Protocol = ex_protocol,
     cr_CallerDevice = no_session, cr_PrivacyP2P = True, cr_Connections = []\<rparr>"

definition ex_answered :: "phone_op list" where
  "ex_answered = [OpRequest 100 (\<lambda>_. Some 6) (Some 22) 1 ex_request, OpReceived 101 2 3 11,
     OpAccept (\<lambda>vs. vs) 2 3 11 (replicate 256 1) ex_protocol no_session]"

definition ex_confirmed :: "phone_op list" where
  "ex_confirmed = ex_answered @ [OpConfirm 103 1 3 11 (replicate 256 7) 99 ex_protocol]"

subsection \<open>Well-formedness\<close>

text \<open>
  C26. After any sequence of requests, receipts, answers, confirmations, hang-ups, expiries and signals, the
  registry is well formed: ids are unique and every call is stored under its own; every call is
  consistent with its state (an answered call has a usable key share and a protocol negotiated from both
  sides, a confirmed one a key that hashes to the commitment of the request, only an ended call a
  duration); the retry index points to calls with that key and finds every live one; a user's counter
  is the number of live calls he started and within the limit, and so is the number of calls.
\<close>

theorem registry_sound:
  fixes cfg sha ops
  defines "r \<equiv> fst (phone_run (withDefaults cfg) sha ops newRegistry)"
  shows "distinct (map fst (rg_byID r)) \<and>
    (\<forall>i c. map_of (rg_byID r) i = Some c \<longrightarrow> pc_ID c = i \<and> call_wf sha c) \<and>
    (\<forall>key i. rg_byRandom r key = Some i \<longrightarrow> (\<exists>c. map_of (rg_byID r) i = Some c \<and> (pc_AdminID c, pc_RandomID c) = key)) \<and>
    (\<forall>i c. map_of (rg_byID r) i = Some c \<longrightarrow> \<not> call_Terminal c \<longrightarrow> rg_byRandom r (pc_AdminID c, pc_RandomID c) = Some i) \<and>
    (\<forall>u. active_calls r u = int (card {i. \<exists>c. map_of (rg_byID r) i = Some c \<and> \<not> call_Terminal c \<and> pc_AdminID c = u}) \<and>
         active_calls r u \<le> cf_MaxActivePerUser (withDefaults cfg)) \<and>
    int (length (rg_byID r)) \<le> cf_MaxRegistryEntries (withDefaults cfg)"
proof -
  have inv: "registry_inv (withDefaults cfg) sha r" unfolding r_def by (rule phone_run_inv [OF new_inv])
  then have d: "distinct (map fst (rg_byID r))" by (simp add: registry_inv_def calls_ok_def)
  have live: "live_of u (rg_byID r) = card {i. \<exists>c. map_of (rg_byID r) i = Some c \<and> \<not> call_Terminal c \<and> pc_AdminID c = u}" for u
    by (rule live_of_card [OF d])
  have pos: "max 0 (cf_MaxActivePerUser (withDefaults cfg)) = cf_MaxActivePerUser (withDefaults cfg)"
    "max 0 (cf_MaxRegistryEntries (withDefaults cfg)) = cf_MaxRegistryEntries (withDefaults cfg)"
    by (simp_all add: withDefaults_def)
  have count: "active_calls r u = int (live_of u (rg_byID r))" "int (live_of u (rg_byID r)) \<le> cf_MaxActivePerUser (withDefaults cfg)" for u
    using inv unfolding registry_inv_def active_ok_def pos by (simp_all add: active_calls_def)
  have act: "active_calls r u = int (live_of u (rg_byID r))" "active_calls r u \<le> cf_MaxActivePerUser (withDefaults cfg)"
    "int (length (rg_byID r)) \<le> cf_MaxRegistryEntries (withDefaults cfg)" for u
    using inv count [of u] unfolding registry_inv_def active_ok_def pos by simp_all
  show ?thesis using inv act unfolding live registry_inv_def calls_ok_def index_ok_def random_key_def by blast
qed

lemma registry_sound_witness:
  "let r = fst (phone_run (withDefaults ex_config) ex_sha ex_confirmed newRegistry)
   in active_calls r 1 = 1 \<and> active_calls r 1 \<le> 4 \<and> (\<exists>c. map_of (rg_byID r) 3 = Some c \<and> call_wf ex_sha c \<and>
        pc_State c = PhoneCallStateConfirmed \<and> ex_sha (pc_GA c) = pc_GAHash c)"
proof -
  let ?r = "fst (phone_run (withDefaults ex_config) ex_sha ex_confirmed newRegistry)"
  have run: "active_calls ?r 1 = 1" "map_option pc_State (map_of (rg_byID ?r) 3) = Some PhoneCallStateConfirmed"
    "cf_MaxActivePerUser (withDefaults ex_config) = 4"
    by code_simp+
  then obtain c where c: "map_of (rg_byID ?r) 3 = Some c" "pc_State c = PhoneCallStateConfirmed" by auto
  note sound = registry_sound [of ex_config ex_sha ex_confirmed]
  have wf: "call_wf ex_sha c" using sound c by blast
  then have "ex_sha (pc_GA c) = pc_GAHash c" using c(2) by (simp add: call_wf_def)
  then show ?thesis using run sound c wf by auto
qed

subsection \<open>The life of a call\<close>

text \<open>
  C27. A call that has not ended is never lost and only advances: after any further operations it is
  still in the registry, or was there when it ended, with the same parties, secret, commitment and
  request, a state that is no earlier, the answer and the key it already had; and once it is confirmed its
  key hashes to the commitment the request made.
\<close>

theorem live_calls_advance:
  assumes "map_of (rg_byID (fst (phone_run (withDefaults cfg) sha ops newRegistry))) i = Some c" and "\<not> call_Terminal c"
  shows "\<exists>k \<le> length later. \<exists>d.
    map_of (rg_byID (fst (phone_run (withDefaults cfg) sha (ops @ take k later) newRegistry))) i = Some d \<and>
    (k = length later \<or> call_Terminal d) \<and>
    pc_AdminID d = pc_AdminID c \<and> pc_ParticipantID d = pc_ParticipantID c \<and> pc_AccessHash d = pc_AccessHash c \<and>
    pc_GAHash d = pc_GAHash c \<and> pc_CallerProtocol d = pc_CallerProtocol c \<and> phone_rank (pc_State c) \<le> phone_rank (pc_State d) \<and>
    (pc_GB c \<noteq> [] \<longrightarrow> pc_GB d = pc_GB c \<and> pc_Protocol d = pc_Protocol c) \<and>
    (pc_GA c \<noteq> [] \<longrightarrow> pc_GA d = pc_GA c \<and> pc_StartDate d = pc_StartDate c) \<and>
    (pc_State d = PhoneCallStateConfirmed \<longrightarrow> sha (pc_GA d) = pc_GAHash c)"
proof -
  let ?cfg = "withDefaults cfg"
  let ?r = "fst (phone_run ?cfg sha ops newRegistry)"
  let ?at = "\<lambda>k. map_of (rg_byID (fst (phone_run ?cfg sha (take k later) ?r))) i"
  have inv: "registry_inv ?cfg sha ?r" by (rule phone_run_inv [OF new_inv])
  obtain k d where k: "k \<le> length later" "?at k = Some d" "advances c d" "k = length later \<or> call_Terminal d"
    using run_until_end [OF inv assms(1)] by blast
  have eq: "fst (phone_run ?cfg sha (ops @ take k later) newRegistry) = fst (phone_run ?cfg sha (take k later) ?r)"
    by (simp add: phone_run_append Let_def split_beta)
  have "call_wf sha d" by (rule wf_of [OF phone_run_inv [OF inv] k(2)])
  then have "pc_State d = PhoneCallStateConfirmed \<longrightarrow> sha (pc_GA d) = pc_GAHash c"
    using k(3) by (auto simp: call_wf_def advances_def)
  then show ?thesis
    using k(1,2,4) k(3) [unfolded advances_def] by (intro exI [of _ k] conjI exI [of _ d]) (simp_all add: eq)
qed

lemma live_calls_advance_witness:
  "\<exists>k \<le> 1. \<exists>d. map_of (rg_byID (fst (phone_run (withDefaults ex_config) ex_sha
       (ex_answered @ take k [OpConfirm 103 1 3 11 (replicate 256 7) 99 ex_protocol]) newRegistry))) 3 = Some d \<and>
     (k = 1 \<or> call_Terminal d) \<and> pc_AdminID d = 1 \<and> pc_GB d \<noteq> [] \<and> hd (pc_GB d) = 1"
proof -
  let ?r = "fst (phone_run (withDefaults ex_config) ex_sha ex_answered newRegistry)"
  have run: "map_option pc_State (map_of (rg_byID ?r) 3) = Some PhoneCallStateAccepted"
    "map_option pc_AdminID (map_of (rg_byID ?r) 3) = Some 1" "map_option (\<lambda>c. pc_GB c \<noteq> [] \<and> hd (pc_GB c) = 1) (map_of (rg_byID ?r) 3) = Some True"
    by code_simp+
  then obtain c where c: "map_of (rg_byID ?r) 3 = Some c" "\<not> call_Terminal c" "pc_AdminID c = 1" "pc_GB c \<noteq> []" "hd (pc_GB c) = 1"
    by (auto simp: call_Terminal_def)
  from live_calls_advance [OF c(1,2), of "[OpConfirm 103 1 3 11 (replicate 256 7) 99 ex_protocol]"] c(3-5)
  show ?thesis by fastforce
qed

text \<open>
  C28. A call is answered at most once: after an answer succeeded, every later answer to the call, by any
  device and after any other operations, fails and changes nothing, as long as no new call draws the
  same id.
\<close>

theorem accept_once_call:
  assumes "phone_step (withDefaults cfg) sha (OpAccept order u i h gb proto device)
      (fst (phone_run (withDefaults cfg) sha ops newRegistry)) = (r1, AnsCall (Inr c))"
    and "phone_run (withDefaults cfg) sha later r1 = (r2, answers)"
    and "\<forall>d. AnsCall (Inr d) \<in> set answers \<longrightarrow> pc_State d = PhoneCallStateRequested \<longrightarrow> pc_ID d \<noteq> i"
  shows "\<exists>e. phone_step (withDefaults cfg) sha (OpAccept order' u' i h' gb' proto' device') r2 = (r2, AnsCall (Inl e))"
proof -
  let ?cfg = "withDefaults cfg"
  let ?r = "fst (phone_run ?cfg sha ops newRegistry)"
  have inv: "registry_inv ?cfg sha ?r" by (rule phone_run_inv [OF new_inv])
  have inv1: "registry_inv ?cfg sha r1"
    using phone_step_ok [OF inv, of "OpAccept order u i h gb proto device"] unfolding assms(1) by simp
  have acc: "AcceptCall order ?r u i h gb proto device = (r1, Inr c)"
    using assms(1) by (cases "AcceptCall order ?r u i h gb proto device") simp
  have "answered r1 i" by (rule accept_answers [OF inv acc])
  then have "answered r2 i"
    using run_answered [OF inv1 assms(2)] assms(3) by blast
  then obtain e where "AcceptCall order' r2 u' i h' gb' proto' device' = (r2, Inl e)" using answered_refuses by blast
  then show ?thesis by simp
qed

lemma accept_once_call_witness:
  "\<exists>e. AcceptCall (\<lambda>vs. vs) (fst (phone_run (withDefaults ex_config) ex_sha ex_confirmed newRegistry)) 2 3 11 (replicate 256 9) ex_protocol no_session =
     (fst (phone_run (withDefaults ex_config) ex_sha ex_confirmed newRegistry), Inl e)"
proof -
  let ?cfg = "withDefaults ex_config"
  let ?before = "[OpRequest 100 (\<lambda>_. Some 6) (Some 22) 1 ex_request, OpReceived 101 2 3 11]"
  let ?later = "[OpConfirm 103 1 3 11 (replicate 256 7) 99 ex_protocol]"
  let ?acc = "OpAccept (\<lambda>vs. vs) 2 3 11 (replicate 256 1) ex_protocol no_session"
  let ?s = "phone_step ?cfg ex_sha ?acc (fst (phone_run ?cfg ex_sha ?before newRegistry))"
  have "(case snd ?s of AnsCall (Inr c) \<Rightarrow> True | _ \<Rightarrow> False)" by code_simp
  then obtain c where s: "?s = (fst ?s, AnsCall (Inr c))" by (auto split: phone_answer.splits sum.splits simp: prod_eq_iff)
  have one: "\<exists>a b e. snd (phone_run ?cfg ex_sha ?later (fst ?s)) = [AnsConfirm a b e]" by (simp add: Let_def split_beta)
  have eq: "fst (phone_run ?cfg ex_sha ?later (fst ?s)) = fst (phone_run ?cfg ex_sha ex_confirmed newRegistry)"
    by (simp add: ex_confirmed_def ex_answered_def Let_def split_beta)
  obtain e where "phone_step ?cfg ex_sha (OpAccept (\<lambda>vs. vs) 2 3 11 (replicate 256 9) ex_protocol no_session)
      (fst (phone_run ?cfg ex_sha ?later (fst ?s))) = (fst (phone_run ?cfg ex_sha ?later (fst ?s)), AnsCall (Inl e))"
    using accept_once_call [OF s, of ?later "fst (phone_run ?cfg ex_sha ?later (fst ?s))" "snd (phone_run ?cfg ex_sha ?later (fst ?s))"] one
    by fastforce
  then show ?thesis unfolding eq by (auto simp: map_prod_def split: prod.splits)
qed

subsection \<open>Unanswered calls\<close>

text \<open>
  C29. An expiry run ends every unanswered or unconfirmed call whose ring time is over, with the reason its
  state asks for, forgets the ended calls whose time is over and touches no other call; it reports exactly
  the calls it ended, each once, so no overdue call is left behind.
\<close>

theorem expire_exact:
  fixes cfg sha ops now
  defines "r \<equiv> fst (phone_run (withDefaults cfg) sha ops newRegistry)"
    and "r' \<equiv> fst (phone_run (withDefaults cfg) sha (ops @ [OpExpire now]) newRegistry)"
    and "ended \<equiv> snd (ExpireDue (withDefaults cfg) now (fst (phone_run (withDefaults cfg) sha ops newRegistry)))"
  shows "(\<forall>i. map_of (rg_byID r') i =
      (case map_of (rg_byID r) i of
         None \<Rightarrow> None
       | Some c \<Rightarrow>
           if pc_State c \<in> {PhoneCallStateRequested, PhoneCallStateRinging, PhoneCallStateAccepted} \<and>
              now - pc_Date c > seconds (cf_RingTimeout (withDefaults cfg))
           then Some (c\<lparr>pc_State := PhoneCallStateDiscarded,
               pc_DiscardReason := (if pc_State c = PhoneCallStateAccepted then PhoneCallDiscardReasonDisconnect else PhoneCallDiscardReasonMissed),
               pc_DiscardReasonSlug := [], pc_Duration := 0, pc_DiscardedAt := now\<rparr>)
           else if pc_State c = PhoneCallStateDiscarded \<and> now - pc_DiscardedAt c > seconds (cf_TombstoneTTL (withDefaults cfg)) then None
           else Some c)) \<and>
    distinct (map pc_ID ended) \<and>
    set ended = {d. \<exists>c. map_of (rg_byID r) (pc_ID d) = Some c \<and> overdue (withDefaults cfg) now c \<and> map_of (rg_byID r') (pc_ID d) = Some d}"
proof -
  let ?cfg = "withDefaults cfg"
  have inv: "registry_inv ?cfg sha r" unfolding r_def by (rule phone_run_inv [OF new_inv])
  have r': "r' = fst (ExpireDue ?cfg now r)" by (simp add: r'_def r_def phone_run_snoc)
  note e = expire_effect [OF inv defaults_ttl, of now, folded r']
  have due: "overdue ?cfg now c \<longleftrightarrow> pc_State c \<in> {PhoneCallStateRequested, PhoneCallStateRinging, PhoneCallStateAccepted} \<and>
      now - pc_Date c > seconds (cf_RingTimeout ?cfg)" for c
    by (cases "pc_State c") (auto simp: overdue_def call_Terminal_def)
  have "\<forall>i. map_of (rg_byID r') i = (case map_of (rg_byID r) i of None \<Rightarrow> None
       | Some c \<Rightarrow>
           if pc_State c \<in> {PhoneCallStateRequested, PhoneCallStateRinging, PhoneCallStateAccepted} \<and>
              now - pc_Date c > seconds (cf_RingTimeout (withDefaults cfg))
           then Some (c\<lparr>pc_State := PhoneCallStateDiscarded,
               pc_DiscardReason := (if pc_State c = PhoneCallStateAccepted then PhoneCallDiscardReasonDisconnect else PhoneCallDiscardReasonMissed),
               pc_DiscardReasonSlug := [], pc_Duration := 0, pc_DiscardedAt := now\<rparr>)
           else if pc_State c = PhoneCallStateDiscarded \<and> now - pc_DiscardedAt c > seconds (cf_TombstoneTTL (withDefaults cfg)) then None
           else Some c)"
    using e(4) unfolding due expired_call_def dead_call_def call_Terminal_def by blast
  moreover have "distinct (map pc_ID ended) \<and>
    set ended = {d. \<exists>c. map_of (rg_byID r) (pc_ID d) = Some c \<and> overdue ?cfg now c \<and> map_of (rg_byID r') (pc_ID d) = Some d}"
    unfolding ended_def r_def [symmetric] by (rule ended_set [OF inv e(4) e(2)])
  ultimately show ?thesis by blast
qed

text \<open>
  A retried request is absorbed: while the call a user requested with a random number is live, a
  request with the same number, whatever its limits and its other contents, answers that very call,
  draws no id and changes no call beyond forgetting old ended ones.
\<close>

theorem retried_request:
  assumes "map_of (rg_byID (fst (phone_run (withDefaults cfg) sha ops newRegistry))) i = Some c" and "\<not> call_Terminal c"
    and "cr_RandomID req = pc_RandomID c" and "validateProtocol (cr_Protocol req) = None" and "length (cr_GAHash req) = 32"
  shows "snd (RequestCall (withDefaults cfg) now draws h (fst (phone_run (withDefaults cfg) sha ops newRegistry)) (pc_AdminID c) req) = Inr c \<and>
    (\<forall>j d. map_of (rg_byID (fst (phone_run (withDefaults cfg) sha ops newRegistry))) j = Some d \<longrightarrow> \<not> call_Terminal d \<longrightarrow>
       map_of (rg_byID (fst (RequestCall (withDefaults cfg) now draws h
         (fst (phone_run (withDefaults cfg) sha ops newRegistry)) (pc_AdminID c) req))) j = Some d)"
proof -
  let ?cfg = "withDefaults cfg"
  let ?r = "fst (phone_run ?cfg sha ops newRegistry)"
  let ?r1 = "sweepTombstonesLocked ?r now (seconds (cf_TombstoneTTL ?cfg))"
  have inv: "registry_inv ?cfg sha ?r" by (rule phone_run_inv [OF new_inv])
  have kept: "map_of (rg_byID ?r1) j = Some d" if "map_of (rg_byID ?r) j = Some d" "\<not> call_Terminal d" for j d
    using that by (simp add: sweep_effect(4) [OF inv] dead_call_def)
  have "pc_ID c = i" using inv assms(1) by (simp add: registry_inv_def calls_ok_def)
  then have live: "live_request ?r1 (pc_AdminID c, cr_RandomID req) = Some c"
    using live_request_key [OF sweep_effect(1) [OF inv], of now "seconds (cf_TombstoneTTL ?cfg)" c] kept [OF assms(1,2)] assms(2,3)
    by (simp add: random_key_def)
  have "RequestCall ?cfg now draws h ?r (pc_AdminID c) req = (?r1, Inr c)"
    using live assms(4,5) by (simp add: RequestCall_def gaHashSize_def live_request_def [symmetric] Let_def)
  then show ?thesis using kept by simp
qed

lemma retried_request_witness:
  "snd (RequestCall (withDefaults ex_config) 150 (\<lambda>_. None) None
     (fst (phone_run (withDefaults ex_config) ex_sha ex_confirmed newRegistry)) 1 ex_request) =
   Inr (the (map_of (rg_byID (fst (phone_run (withDefaults ex_config) ex_sha ex_confirmed newRegistry))) 3))"
proof -
  let ?r = "fst (phone_run (withDefaults ex_config) ex_sha ex_confirmed newRegistry)"
  have run: "map_option (\<lambda>c. (pc_State c, pc_AdminID c, pc_RandomID c)) (map_of (rg_byID ?r) 3) = Some (PhoneCallStateConfirmed, 1, 5)"
    by code_simp
  then obtain c where c: "map_of (rg_byID ?r) 3 = Some c" "\<not> call_Terminal c" "pc_AdminID c = 1" "pc_RandomID c = 5"
    by (auto simp: call_Terminal_def)
  have "cr_RandomID ex_request = pc_RandomID c" "length (cr_GAHash ex_request) = 32" using c(4) by (simp_all add: ex_request_def)
  moreover have "validateProtocol (cr_Protocol ex_request) = None" by code_simp
  ultimately show ?thesis using retried_request [OF c(1,2), of ex_request 150 "\<lambda>_. None" None] c(1,3) by simp
qed

end
