(* ===== verification/Phone_Signals.thy ===== *)
theory Phone_Signals
  imports Phone_Theorems
begin

text \<open>
  What passes between the two sides of a call: the protocol that is negotiated for them, and the signals,
  their destination and their number.
\<close>

subsection \<open>The negotiated protocol\<close>

lemma find_Some_set: "find P xs = Some x \<Longrightarrow> P x \<and> x \<in> set xs"
  by (auto simp: find_Some_iff)

lemma best_of_in: "best_of vs = (if vs = [] then None else Some (the (best_of vs))) \<and> (vs \<noteq> [] \<longrightarrow> the (best_of vs) \<in> set vs)"
proof -
  have step: "fold (\<lambda>v best. case best of None \<Rightarrow> Some v | Some b \<Rightarrow> if compareVersion v b > 0 then Some v else Some b) vs (Some b) \<in>
      Some ` insert b (set vs)" for vs b
    by (induction vs arbitrary: b) (auto simp: image_iff)
  show ?thesis using step [of "tl vs" "hd vs"] by (cases vs) (auto simp: best_of_def)
qed

lemma best_common:
  assumes "\<And>vs. set (order vs) = set vs"
  shows "case bestCommonVersion order a b of
      None \<Rightarrow> set a \<inter> set b = {}
    | Some v \<Rightarrow> v \<in> set a \<inter> set b \<and> (\<forall>p \<in> set preferredVersions \<inter> set a \<inter> set b. v \<in> set preferredVersions)"
proof -
  let ?both = "order (remdups (filter (\<lambda>v. v \<in> set b) a))"
  have both: "set ?both = set a \<inter> set b" using assms by auto
  show ?thesis
  proof (cases "find (\<lambda>v. v \<in> set ?both) preferredVersions")
    case (Some v)
    then show ?thesis using find_Some_set [OF Some] both by (simp add: bestCommonVersion_def Let_def)
  next
    case None
    then have none: "set preferredVersions \<inter> (set a \<inter> set b) = {}" using both by (auto simp: find_None_iff)
    show ?thesis
    proof (cases "?both = []")
      case True
      then show ?thesis using None both best_of_in [of "[]"] by (simp add: bestCommonVersion_def Let_def)
    next
      case False
      then obtain v where "best_of ?both = Some v" "v \<in> set ?both" using best_of_in [of ?both] by auto
      then show ?thesis using None none both by (auto simp: bestCommonVersion_def Let_def)
    qed
  qed
qed

text \<open>
  Negotiation stays within what the two sides offer: it fails exactly when their layer ranges do not
  meet; otherwise the layers are the intersection, direct connections need both sides and a reflector one,
  and the version is a single one that both offer, a preferred one when both offer a preferred one, or the
  callee's list when they share none; in whatever order the common versions are visited.
\<close>

theorem negotiate_within:
  assumes "\<And>vs. set (order vs) = set vs"
  shows "case negotiateProtocol order caller callee of
      Inl e \<Rightarrow> e = ErrProtocolCompatLayerInvalid \<and>
        {cp_MinLayer caller .. cp_MaxLayer caller} \<inter> {cp_MinLayer callee .. cp_MaxLayer callee} = {}
    | Inr p \<Rightarrow>
        {cp_MinLayer p .. cp_MaxLayer p} = {cp_MinLayer caller .. cp_MaxLayer caller} \<inter> {cp_MinLayer callee .. cp_MaxLayer callee} \<and>
        cp_MinLayer p \<le> cp_MaxLayer p \<and>
        cp_UDPP2P p = (cp_UDPP2P caller \<and> cp_UDPP2P callee) \<and> cp_UDPReflector p = (cp_UDPReflector caller \<or> cp_UDPReflector callee) \<and>
        (if set (cp_LibraryVersions caller) \<inter> set (cp_LibraryVersions callee) = {}
         then cp_LibraryVersions p = cp_LibraryVersions callee
         else \<exists>v \<in> set (cp_LibraryVersions caller) \<inter> set (cp_LibraryVersions callee). cp_LibraryVersions p = [v] \<and>
           (set preferredVersions \<inter> set (cp_LibraryVersions caller) \<inter> set (cp_LibraryVersions callee) \<noteq> {} \<longrightarrow> v \<in> set preferredVersions))"
proof (cases "max (cp_MinLayer caller) (cp_MinLayer callee) > min (cp_MaxLayer caller) (cp_MaxLayer callee)")
  case True
  then show ?thesis by (auto simp: negotiateProtocol_def Let_def)
next
  case False
  define lo where "lo = max (cp_MinLayer caller) (cp_MinLayer callee)"
  define hi where "hi = min (cp_MaxLayer caller) (cp_MaxLayer callee)"
  have ok: "lo \<le> hi" "{lo .. hi} = {cp_MinLayer caller .. cp_MaxLayer caller} \<inter> {cp_MinLayer callee .. cp_MaxLayer callee}"
    using False unfolding lo_def hi_def by auto
  define vs where "vs = (case bestCommonVersion order (cp_LibraryVersions caller) (cp_LibraryVersions callee) of
      Some best \<Rightarrow> [best] | None \<Rightarrow> cp_LibraryVersions callee)"
  have n: "negotiateProtocol order caller callee = Inr \<lparr>cp_UDPP2P = (cp_UDPP2P caller \<and> cp_UDPP2P callee),
      cp_UDPReflector = (cp_UDPReflector caller \<or> cp_UDPReflector callee), cp_MinLayer = lo, cp_MaxLayer = hi, cp_LibraryVersions = vs\<rparr>"
    using False unfolding negotiateProtocol_def Let_def lo_def hi_def vs_def by simp
  have "if set (cp_LibraryVersions caller) \<inter> set (cp_LibraryVersions callee) = {} then vs = cp_LibraryVersions callee
      else \<exists>v \<in> set (cp_LibraryVersions caller) \<inter> set (cp_LibraryVersions callee). vs = [v] \<and>
        (set preferredVersions \<inter> set (cp_LibraryVersions caller) \<inter> set (cp_LibraryVersions callee) \<noteq> {} \<longrightarrow> v \<in> set preferredVersions)"
  proof (cases "bestCommonVersion order (cp_LibraryVersions caller) (cp_LibraryVersions callee)")
    case None
    then show ?thesis using best_common [of order "cp_LibraryVersions caller" "cp_LibraryVersions callee", OF assms] by (simp add: vs_def)
  next
    case (Some v)
    then have v: "v \<in> set (cp_LibraryVersions caller) \<inter> set (cp_LibraryVersions callee)"
      "set preferredVersions \<inter> set (cp_LibraryVersions caller) \<inter> set (cp_LibraryVersions callee) \<noteq> {} \<longrightarrow> v \<in> set preferredVersions"
      using best_common [of order "cp_LibraryVersions caller" "cp_LibraryVersions callee", OF assms] by auto
    moreover have "vs = [v]" using Some by (simp add: vs_def)
    ultimately show ?thesis by auto
  qed
  then show ?thesis using ok unfolding n by simp
qed

lemma negotiate_within_witness:
  "case negotiateProtocol (\<lambda>vs. vs) ex_protocol (ex_protocol\<lparr>cp_MaxLayer := 80, cp_LibraryVersions := [''10.0.0'', ''9.0.0'']\<rparr>) of
     Inl e \<Rightarrow> False
   | Inr p \<Rightarrow> {cp_MinLayer p .. cp_MaxLayer p} = {65 .. 92} \<inter> {65 .. 80} \<and> cp_LibraryVersions p = [''9.0.0'']"
proof -
  let ?callee = "ex_protocol\<lparr>cp_MaxLayer := 80, cp_LibraryVersions := [''10.0.0'', ''9.0.0'']\<rparr>"
  have "(case negotiateProtocol (\<lambda>vs. vs) ex_protocol ?callee of Inl e \<Rightarrow> False | Inr p \<Rightarrow> cp_LibraryVersions p = [''9.0.0''])" by code_simp
  then show ?thesis using negotiate_within [of "\<lambda>vs. vs" ex_protocol ?callee]
    by (auto simp: ex_protocol_def split: sum.splits)
qed

text \<open>The best of versions that are not all preferred can depend on the order of the iteration.\<close>

lemma best_depends_on_order:
  "bestCommonVersion (\<lambda>vs. vs) [''2'', ''10'', ''1a''] [''2'', ''10'', ''1a''] = Some ''1a'' \<and>
   bestCommonVersion rev [''2'', ''10'', ''1a''] [''2'', ''10'', ''1a''] = Some ''2''"
  by code_simp

text \<open>Versions that the preferences exclude are chosen when the two sides share nothing else.\<close>

lemma excluded_version_chosen:
  "bestCommonVersion (\<lambda>vs. vs) [''10.0.0'', ''2.7.7''] [''2.7.7'', ''10.0.0''] = Some ''10.0.0''"
  by code_simp

subsection \<open>Signals\<close>

lemma count_other: "i \<noteq> j \<Longrightarrow> rg_signals (fst (count_signal cfg now r i)) j = rg_signals r j"
  by (auto simp: count_signal_def Let_def split: prod.splits)

lemma put_call_signals [simp]: "rg_signals (put_call r c) = rg_signals r"
  by (simp add: put_call_def)

lemma discard_signals [simp]: "rg_signals (fst (markDiscardedWithSlugLocked r c reason slug d now)) = rg_signals r"
  by (simp add: markDiscardedWithSlugLocked_def decActiveLocked_def Let_def split: option.splits)

lemma step_signals:
  assumes inv: "registry_inv (withDefaults cfg) sha r"
    and step: "phone_step (withDefaults cfg) sha op r = (r', a)"
    and other: "\<And>now. op \<noteq> OpCountSignal now i" "\<And>d. requested_as a d \<Longrightarrow> pc_ID d \<noteq> i"
  shows "rg_signals r' i = rg_signals r i"
proof (cases op)
  case (OpRequest now draws h caller req)
  obtain ans where run: "RequestCall (withDefaults cfg) now draws h r caller req = (r', ans)" "a = AnsCall ans"
    using step OpRequest by (cases "RequestCall (withDefaults cfg) now draws h r caller req") simp
  from run(1) show ?thesis
  proof (cases rule: RequestCall_cases)
    case (new c)
    then have "requested_as a c" using run(2) by (simp add: requested_as_def fresh_call_def)
    then have "pc_ID c \<noteq> i" by (rule other(2))
    then show ?thesis unfolding new(1) by (simp add: insert_call_def sweep_effect(3) [OF inv])
  qed (simp_all add: sweep_effect(3) [OF inv])
next
  case (OpReceived now u j h)
  then have "r' = fst (ReceivedCall now r u j h)" using step by (cases "ReceivedCall now r u j h") simp
  then show ?thesis by (simp add: ReceivedCall_def Let_def split: option.splits)
next
  case (OpAccept order u j h gb proto device)
  then have "r' = fst (AcceptCall order r u j h gb proto device)" using step by (cases "AcceptCall order r u j h gb proto device") simp
  then show ?thesis by (simp add: AcceptCall_def Let_def split: option.splits sum.splits)
next
  case (OpConfirm now u j h ga fp proto)
  then have "r' = fst (ConfirmCall sha now r u j h ga fp proto)" using step by (cases "ConfirmCall sha now r u j h ga fp proto") auto
  then show ?thesis by (simp add: ConfirmCall_def markDiscardedLocked_def Let_def split_beta split: option.splits)
next
  case (OpDiscard now u j h reason slug d)
  then have "r' = fst (DiscardCallWithSlug now r u j h reason slug d)" using step by (cases "DiscardCallWithSlug now r u j h reason slug d") simp
  then show ?thesis by (simp add: DiscardCallWithSlug_def Let_def split_beta split: option.splits)
next
  case (OpExpire now)
  then have "r' = fst (ExpireDue (withDefaults cfg) now r)" using step by (cases "ExpireDue (withDefaults cfg) now r") simp
  then show ?thesis by (simp add: expire_effect(3) [OF inv defaults_ttl])
next
  case (OpCountSignal now j)
  then have "r' = fst (count_signal (withDefaults cfg) now r j)" using step by (cases "count_signal (withDefaults cfg) now r j") simp
  then show ?thesis using count_other other(1) OpCountSignal by metis
qed

fun signal_time :: "int \<Rightarrow> phone_op \<Rightarrow> int option" where
  "signal_time i (OpCountSignal now j) = (if j = i then Some now else None)"
| "signal_time i _ = None"

definition passed :: "int \<Rightarrow> int \<Rightarrow> phone_op \<times> phone_answer \<Rightarrow> bool" where
  "passed i t oa \<longleftrightarrow> signal_time i (fst oa) = Some t \<and> snd oa = AnsCounted True"

lemma passed_later:
  assumes "\<forall>u \<in> set (List.map_filter (signal_time i) ops). now \<le> u" "t < now"
  shows "filter (passed i t) (zip ops answers) = []"
  using assms by (force simp: filter_empty_conv passed_def List.map_filter_def dest: set_zip_leftD)

lemma passed_hd: "passed i t (OpCountSignal now i, AnsCounted True) \<longleftrightarrow> now = t"
  by (simp add: passed_def)

lemma signals_from:
  assumes "registry_inv (withDefaults cfg) sha r" "phone_run (withDefaults cfg) sha ops r = (r', answers)"
    and "\<forall>d. AnsCall (Inr d) \<in> set answers \<longrightarrow> pc_State d = PhoneCallStateRequested \<longrightarrow> pc_ID d \<noteq> i"
    and "sorted (List.map_filter (signal_time i) ops)"
    and "rg_signals r i = (w, n)" "0 \<le> n" "n = 0 \<or> (\<forall>t \<in> set (List.map_filter (signal_time i) ops). w \<le> t)"
    and "n \<le> cf_SignalingRatePerSecond (withDefaults cfg)"
  shows "int (length (filter (passed i t) (zip ops answers))) \<le> cf_SignalingRatePerSecond (withDefaults cfg) - (if t = w then n else 0)"
  using assms
proof (induction ops arbitrary: r answers w n)
  case Nil
  then show ?case by (auto simp: withDefaults_def)
next
  case (Cons op ops)
  let ?cfg = "withDefaults cfg"
  obtain r1 a where s: "phone_step ?cfg sha op r = (r1, a)" by (cases "phone_step ?cfg sha op r")
  obtain as where as: "phone_run ?cfg sha ops r1 = (r', as)" "answers = a # as"
    using Cons.prems(2) s by (auto simp: Let_def split_beta prod_eq_iff)
  have inv1: "registry_inv ?cfg sha r1" using phone_step_ok [OF Cons.prems(1), of op] s by simp
  have fresh: "\<forall>d. AnsCall (Inr d) \<in> set as \<longrightarrow> pc_State d = PhoneCallStateRequested \<longrightarrow> pc_ID d \<noteq> i"
    using Cons.prems(3) as(2) by simp
  have pos: "0 < cf_SignalingRatePerSecond ?cfg" by (simp add: withDefaults_def)
  note IH = Cons.IH [OF inv1 as(1) fresh]
  show ?case
  proof (cases "signal_time i op")
    case None
    have "rg_signals r1 i = rg_signals r i"
      by (rule step_signals [OF Cons.prems(1) s]) (use None Cons.prems(3) as(2) in \<open>auto simp: requested_as_def\<close>)
    then show ?thesis using IH [of w n] Cons.prems None as(2) by (simp add: List.map_filter_simps passed_def)
  next
    case (Some now)
    then have op: "op = OpCountSignal now i" by (cases op) (auto split: if_splits)
    have sorted: "sorted (List.map_filter (signal_time i) ops)" "\<forall>t \<in> set (List.map_filter (signal_time i) ops). now \<le> t"
      using Cons.prems(4) Some by (simp_all add: List.map_filter_simps)
    define n1 where "n1 = (if w \<noteq> now then 0 else n)"
    have w: "n = 0 \<or> w \<le> now" using Cons.prems(7) Some by (auto simp: List.map_filter_simps)
    show ?thesis
    proof (cases "n1 \<ge> cf_SignalingRatePerSecond ?cfg")
      case True
      then have "rg_signals r1 i = (now, n1)" "a = AnsCounted False"
        using s Cons.prems(5) by (auto simp: op count_signal_def Let_def n1_def split: if_splits)
      then show ?thesis using IH [of now n1] sorted Cons.prems(6,8) as(2) True pos w
        by (auto simp: passed_def n1_def split: if_splits)
    next
      case False
      then have "rg_signals r1 i = (now, n1 + 1)" "a = AnsCounted True"
        using s Cons.prems(5) by (auto simp: op count_signal_def Let_def n1_def split: if_splits)
      note now = this
      have "t < now \<Longrightarrow> filter (passed i t) (zip ops as) = []" by (rule passed_later [OF sorted(2)])
      then show ?thesis using IH [of now "n1 + 1"] now sorted Cons.prems(6,8) as(2) False pos w
        by (cases "t < now") (auto simp: passed_hd op n1_def split: if_splits)
    qed
  qed
qed

text \<open>
  C30. However the operations on calls are interleaved, while the clock of the signals of a call does not
  run backwards and its id is not given to a new call, at most the configured number of its signals pass
  in any second, counted from the request, where the call starts without a window.
\<close>

theorem signal_bounds:
  assumes "rg_signals (fst (phone_run (withDefaults cfg) sha ops newRegistry)) i = (0, 0)"
    and "phone_run (withDefaults cfg) sha later (fst (phone_run (withDefaults cfg) sha ops newRegistry)) = (r, answers)"
    and "\<forall>d. AnsCall (Inr d) \<in> set answers \<longrightarrow> pc_State d = PhoneCallStateRequested \<longrightarrow> pc_ID d \<noteq> i"
    and "sorted (List.map_filter (signal_time i) later)"
  shows "int (length (filter (passed i t) (zip later answers))) \<le> cf_SignalingRatePerSecond (withDefaults cfg)"
  using signals_from [OF phone_run_inv [OF new_inv] assms(2,3,4,1), of t] by (auto simp: withDefaults_def split: if_splits)

lemma signal_bounds_witness:
  "let later = [OpCountSignal 200 3, OpCountSignal 200 3, OpExpire 200, OpCountSignal 200 3, OpCountSignal 201 3];
       answers = snd (phone_run (withDefaults ex_config) ex_sha later (fst (phone_run (withDefaults ex_config) ex_sha ex_confirmed newRegistry)))
   in length (filter (passed 3 200) (zip later answers)) = 2 \<and>
      int (length (filter (passed 3 200) (zip later answers))) \<le> cf_SignalingRatePerSecond (withDefaults ex_config)"
proof -
  let ?cfg = "withDefaults ex_config"
  let ?r = "fst (phone_run ?cfg ex_sha ex_confirmed newRegistry)"
  let ?later = "[OpCountSignal 200 3, OpCountSignal 200 3, OpExpire 200, OpCountSignal 200 3, OpCountSignal 201 3]"
  let ?run = "phone_run ?cfg ex_sha ?later ?r"
  have start: "rg_signals ?r 3 = (0, 0)" by code_simp
  have "list_all (\<lambda>a. case a of AnsCall b \<Rightarrow> False | _ \<Rightarrow> True) (snd ?run)" by (simp add: Let_def split_beta map_prod_def)
  then have fresh: "\<forall>d. AnsCall (Inr d) \<in> set (snd ?run) \<longrightarrow> pc_State d = PhoneCallStateRequested \<longrightarrow> pc_ID d \<noteq> 3"
    by (fastforce simp: list_all_iff)
  have "sorted (List.map_filter (signal_time 3) ?later)" by simp
  from signal_bounds [OF start _ fresh this, of "fst ?run" 200]
  have "int (length (filter (passed 3 200) (zip ?later (snd ?run)))) \<le> cf_SignalingRatePerSecond ?cfg" by simp
  moreover have "length (filter (passed 3 200) (zip ?later (snd ?run))) = 2" by code_simp
  ultimately show ?thesis by simp
qed

text \<open>
  A signal is forwarded to one place only: to the other side of the call, on the device that side
  called or answered from, and only for someone who takes part and knows the call's secret, while the call
  is answered or confirmed and the signal was counted within the limit.
\<close>

theorem signal_to_peer:
  assumes "Signal cfg now mid r u i h = (r', Inr (Some (peer, device)))"
  shows "\<exists>c. map_of (rg_byID r) i = Some c \<and> pc_AccessHash c = h \<and>
    (pc_State c = PhoneCallStateAccepted \<or> pc_State c = PhoneCallStateConfirmed) \<and> u \<noteq> 0 \<and>
    (u = pc_AdminID c \<and> peer = pc_ParticipantID c \<and> (peer \<noteq> u \<longrightarrow> device = pc_CalleeDevice c) \<or>
     u = pc_ParticipantID c \<and> peer = pc_AdminID c \<and> device = pc_CallerDevice c) \<and>
    count_signal cfg now (mid r) i = (r', True) \<and> snd (rg_signals r' i) \<le> cf_SignalingRatePerSecond cfg"
proof -
  have check: "check_signal r u i h = SignalTo peer device" and count: "count_signal cfg now (mid r) i = (r', True)"
    using assms by (auto simp: Signal_def split: signal_check.splits prod.splits if_splits)
  obtain c where c: "lookupLocked r i h = Some c" using check by (auto simp: check_signal_def split: option.splits)
  have part: "call_HasParticipant c u" and st: "pc_State c = PhoneCallStateAccepted \<or> pc_State c = PhoneCallStateConfirmed"
    and peer: "peer = call_PeerOf c u" "device = (if peer = pc_AdminID c then pc_CallerDevice c else pc_CalleeDevice c)"
    using check c by (auto simp: check_signal_def Let_def split: if_splits)
  have "snd (rg_signals r' i) \<le> cf_SignalingRatePerSecond cfg"
    using count by (auto simp: count_signal_def Let_def split: prod.splits if_splits)
  then show ?thesis using lookup_Some [OF c] part st peer count by (auto simp: call_HasParticipant_def call_PeerOf_def split: if_splits)
qed

lemma signal_to_peer_witness:
  "\<exists>c. map_of (rg_byID (fst (phone_run (withDefaults ex_config) ex_sha ex_confirmed newRegistry))) 3 = Some c \<and> pc_AccessHash c = 11 \<and>
     (1 = pc_AdminID c \<and> 2 = pc_ParticipantID c \<or> 1 = pc_ParticipantID c \<and> 2 = pc_AdminID c)"
proof -
  let ?r = "fst (phone_run (withDefaults ex_config) ex_sha ex_confirmed newRegistry)"
  have "snd (Signal (withDefaults ex_config) 200 (\<lambda>r. r) ?r 1 3 11) = Inr (Some (2, no_session))" by code_simp
  then have "Signal (withDefaults ex_config) 200 (\<lambda>r. r) ?r 1 3 11 =
      (fst (Signal (withDefaults ex_config) 200 (\<lambda>r. r) ?r 1 3 11), Inr (Some (2, no_session)))"
    by (simp add: prod_eq_iff)
  from signal_to_peer [OF this] show ?thesis by auto
qed

end
