(* ===== verification/Private_Message.thy ===== *)
theory Private_Message
  imports Update_Log
begin

text \<open>
  Private messages: the message box of an account and its dialogs (\<^verbatim>\<open>internal/domain/message.go\<close>,
  \<^verbatim>\<open>media.go\<close>, \<^verbatim>\<open>dialog.go\<close>), and the helpers of the memory store
  (\<^verbatim>\<open>internal/store/memory/message_store.go\<close>, \<^verbatim>\<open>message_allocators.go\<close>, \<^verbatim>\<open>message_helpers.go\<close>,
  \<^verbatim>\<open>dialogs.go\<close>).

  \<^item> A private message extends the message of the update log, which an event carries without the fields
    of the extension. \<open>msg_payload\<close> stands for the fields that are only copied (entities, silent, the
    bot it was sent through, album, effect, markup). Deep copies are the value itself.
  \<^item> The boxes are ranged over, so they are an association list. A counter that has no entry is zero.
  \<^item> The store is wired as the server does it (\<^verbatim>\<open>internal/storebundle\<close>): with a dialog store and the
    account's update log.
\<close>

subsection \<open>Data\<close>

datatype message_error =
    ErrMessageEmpty
  | ErrMessageRandomIDDuplicate
  | ErrReplyMessageIDInvalid
  | ErrChatForwardsRestricted
  | ErrMessageIDInvalid
  | ErrMessageNotReadYet
  | ErrQuoteRefused nat
  | ErrFingerprintInvalid
  | ErrSnapshotInvalid
  | ErrReplayScopeInvalid
  | ErrReplayAbsent int
  | ErrTooManyMessageIDs

datatype media_kind = MediaKindNone | MediaKindDocument | MediaKindService | MediaKindOther nat

datatype service_action = ActionHistoryClear | ActionOther nat

record message_media =
  md_Kind :: media_kind
  md_ServiceAction :: "service_action option"
  md_TTLSeconds :: int
  md_Voice :: bool
  md_Round :: bool
  md_rest :: nat

record rich_message =
  rm_Blocks :: "nat list"
  rm_Photos :: "nat list"
  rm_Documents :: "nat list"
  rm_rest :: nat

record message_reply =
  mr_MessageID :: int
  mr_Peer :: peer
  mr_TopMessageID :: int
  mr_QuoteOffset :: int
  mr_External :: "nat option"
  mr_StoryID :: int
  mr_quote :: nat

record message_forward =
  mf_From :: peer
  mf_FromName :: string
  mf_SavedFrom :: peer
  mf_rest :: nat

record private_message = message +
  pm_UID :: int
  pm_RandomID :: int
  pm_From :: peer
  pm_Out :: bool
  pm_NoForwards :: bool
  pm_Body :: string
  pm_Media :: "message_media option"
  pm_MediaUnread :: bool
  pm_ReactionUnread :: bool
  pm_ReplyTo :: "message_reply option"
  pm_Forward :: "message_forward option"
  pm_Rich :: "rich_message option"
  pm_Pts :: int
  pm_SavedPeer :: peer

definition zero_message :: private_message where
  "zero_message = \<lparr>msg_ID = 0, msg_OwnerUserID = 0, msg_Date = 0, msg_Peer = no_peer, msg_payload = 0, pm_UID = 0, pm_RandomID = 0,
     pm_From = no_peer, pm_Out = False, pm_NoForwards = False, pm_Body = [], pm_Media = None, pm_MediaUnread = False,
     pm_ReactionUnread = False, pm_ReplyTo = None, pm_Forward = None, pm_Rich = None, pm_Pts = 0, pm_SavedPeer = no_peer\<rparr>"

record send_request =
  sp_SenderUserID :: int
  sp_RecipientUserID :: int
  sp_RandomID :: int
  sp_Message :: string
  sp_Media :: "message_media option"
  sp_Rich :: "rich_message option"
  sp_NoForwards :: bool
  sp_ReplyTo :: "message_reply option"
  sp_Forward :: "message_forward option"
  sp_Date :: int
  sp_OriginAuthKeyID :: auth_key
  sp_OriginSessionID :: int
  sp_OriginUserID :: int
  sp_RecipientBlocked :: bool
  sp_IdempotencyFingerprint :: "8 word list"
  sp_TTLPeriod :: int
  sp_payload :: nat

record dialog =
  dg_Peer :: peer
  dg_FolderID :: int
  dg_TopMessage :: int
  dg_TopMessageDate :: int
  dg_ReadInboxMaxID :: int
  dg_ReadOutboxMaxID :: int
  dg_UnreadCount :: int
  dg_UnreadMentions :: int
  dg_UnreadReactions :: int
  dg_UnreadMark :: bool
  dg_Pinned :: bool
  dg_PinnedOrder :: int
  dg_TTLPeriod :: int
  dg_ThemeEmoticon :: string
  dg_HasScheduled :: bool
  dg_PeerSettingsBarHidden :: bool
  dg_ViewForumAsMessages :: bool
  dg_Draft :: "nat option"
  dg_rest :: nat

definition zero_dialog :: dialog where
  "zero_dialog = \<lparr>dg_Peer = no_peer, dg_FolderID = 0, dg_TopMessage = 0, dg_TopMessageDate = 0, dg_ReadInboxMaxID = 0, dg_ReadOutboxMaxID = 0,
     dg_UnreadCount = 0, dg_UnreadMentions = 0, dg_UnreadReactions = 0, dg_UnreadMark = False, dg_Pinned = False, dg_PinnedOrder = 0,
     dg_TTLPeriod = 0, dg_ThemeEmoticon = [], dg_HasScheduled = False, dg_PeerSettingsBarHidden = False,
     dg_ViewForumAsMessages = False, dg_Draft = None, dg_rest = 0\<rparr>"

record dialog_list =
  dl_Dialogs :: "dialog list"
  dl_Messages :: "private_message list"

record dedup_record =
  dd_recipientUserID :: int
  dd_senderSnapshot :: private_message
  dd_recipientMessage :: private_message
  dd_fingerprint :: "8 word list"
  dd_senderDeleteEvent :: "update_event option"

record message_store =
  ms_m :: "(int \<times> private_message list) list"
  ms_nextUID :: int
  ms_nextBox :: "int \<Rightarrow> int"
  ms_nextPts :: "int \<Rightarrow> int"
  ms_readOutboxDates :: "int \<times> int \<times> int \<Rightarrow> int"
  ms_savedMessageTags :: "int \<times> int \<Rightarrow> nat option"
  ms_privateSendDedup :: "int \<times> int \<Rightarrow> dedup_record option"
  ms_privateNoForwards :: "int \<times> int \<Rightarrow> int"
  ms_dialogs :: "int \<Rightarrow> dialog_list"
  ms_updateEvents :: event_store

definition NewMessageStore :: "event_store \<Rightarrow> message_store" where
  "NewMessageStore events = \<lparr>ms_m = [], ms_nextUID = 1, ms_nextBox = (\<lambda>_. 0), ms_nextPts = (\<lambda>_. 0), ms_readOutboxDates = (\<lambda>_. 0),
     ms_savedMessageTags = Map.empty, ms_privateSendDedup = Map.empty, ms_privateNoForwards = (\<lambda>_. 0),
     ms_dialogs = (\<lambda>_. \<lparr>dl_Dialogs = [], dl_Messages = []\<rparr>), ms_updateEvents = events\<rparr>"

definition box :: "message_store \<Rightarrow> int \<Rightarrow> private_message list" where
  "box s userID = (case map_of (ms_m s) userID of None \<Rightarrow> [] | Some ms \<Rightarrow> ms)"

definition put_box :: "message_store \<Rightarrow> int \<Rightarrow> private_message list \<Rightarrow> message_store" where
  "put_box s userID ms = s\<lparr>ms_m := AList.update userID ms (ms_m s)\<rparr>"

definition user_peer :: "int \<Rightarrow> peer" where
  "user_peer userID = \<lparr>peer_Type = PeerTypeUser, peer_ID = userID\<rparr>"

subsection \<open>Domain functions\<close>

definition MaxMessageBoxID :: int where
  "MaxMessageBoxID = 2 ^ 31 - 1"

definition MaxDeleteMessageIDs :: int where
  "MaxDeleteMessageIDs = 1000"

definition MaxDeleteHistoryBatch :: int where
  "MaxDeleteHistoryBatch = 1000"

definition MaxMessageReplyQuoteOffset :: int where
  "MaxMessageReplyQuoteOffset = 2 * 4096"

definition media_IsZero :: "message_media option \<Rightarrow> bool" where
  "media_IsZero m = (case m of None \<Rightarrow> True | Some md \<Rightarrow> md_Kind md = MediaKindNone)"

definition HasUnreadPayload :: "message_media option \<Rightarrow> bool" where
  "HasUnreadPayload m = (case m of None \<Rightarrow> False
     | Some md \<Rightarrow> if md_Kind md = MediaKindNone \<or> md_Kind md \<noteq> MediaKindDocument then False else md_Voice md \<or> md_Round md)"

definition rich_IsZero :: "rich_message option \<Rightarrow> bool" where
  "rich_IsZero m = (case m of None \<Rightarrow> True | Some r \<Rightarrow> rm_Blocks r = [] \<and> rm_Photos r = [] \<and> rm_Documents r = [])"

definition HasContent :: "send_request \<Rightarrow> bool" where
  "HasContent r \<longleftrightarrow> sp_Message r \<noteq> [] \<or> \<not> media_IsZero (sp_Media r) \<or> \<not> rich_IsZero (sp_Rich r)"

definition ValidateMessageReplyBounds :: "message_reply \<Rightarrow> bool" where
  "ValidateMessageReplyBounds reply \<longleftrightarrow>
     (if mr_MessageID reply < 0 \<or> mr_MessageID reply > MaxMessageBoxID then False
      else if mr_TopMessageID reply < 0 \<or> mr_TopMessageID reply > MaxMessageBoxID then False
      else if mr_StoryID reply < 0 \<or> mr_StoryID reply > MaxMessageBoxID then False
      else if mr_MessageID reply = 0 \<and> mr_TopMessageID reply = 0 \<and> mr_StoryID reply = 0 \<and> mr_External reply = None then False
      else if mr_QuoteOffset reply < 0 \<or> mr_QuoteOffset reply > MaxMessageReplyQuoteOffset then False
      else True)"

definition SavedHiddenAuthorUserID :: int where
  "SavedHiddenAuthorUserID = 2666000"

definition SavedPeerForSelfChat :: "int \<Rightarrow> message_forward option \<Rightarrow> peer" where
  "SavedPeerForSelfChat selfUserID forward =
     (case forward of
        None \<Rightarrow> user_peer selfUserID
      | Some f \<Rightarrow> if peer_ID (mf_SavedFrom f) \<noteq> 0 then mf_SavedFrom f
                 else if peer_ID (mf_From f) = 0 \<and> mf_FromName f \<noteq> [] then user_peer SavedHiddenAuthorUserID
                 else user_peer selfUserID)"

definition NewHistoryClearMessage :: "int \<Rightarrow> peer \<Rightarrow> int \<Rightarrow> int \<Rightarrow> int \<Rightarrow> int \<Rightarrow> private_message" where
  "NewHistoryClearMessage ownerUserID peer boxID uid date pts =
     zero_message\<lparr>msg_ID := boxID, pm_UID := uid, msg_OwnerUserID := ownerUserID, msg_Peer := peer, pm_From := user_peer ownerUserID,
       msg_Date := date, pm_Out := True, pm_Pts := pts,
       pm_Media := Some \<lparr>md_Kind = MediaKindService, md_ServiceAction = Some ActionHistoryClear, md_TTLSeconds = 0,
                         md_Voice = False, md_Round = False, md_rest = 0\<rparr>\<rparr>"

definition IsHistoryClearServiceMessage :: "private_message \<Rightarrow> bool" where
  "IsHistoryClearServiceMessage m =
     (case pm_Media m of None \<Rightarrow> False
      | Some md \<Rightarrow> md_Kind md = MediaKindService \<and> md_ServiceAction md = Some ActionHistoryClear)"

definition noForwardsPair :: "int \<Rightarrow> int \<Rightarrow> (int \<times> int) option" where
  "noForwardsPair a b = (if a \<le> 0 \<or> b \<le> 0 \<or> a = b then None else Some (min a b, max a b))"

subsection \<open>Allocators and events\<close>

definition nextBoxIDLocked :: "message_store \<Rightarrow> int \<Rightarrow> message_store \<times> int" where
  "nextBoxIDLocked s userID = (let n = ms_nextBox s userID + 1 in (s\<lparr>ms_nextBox := (ms_nextBox s)(userID := n)\<rparr>, n))"

definition nextPtsLocked :: "message_store \<Rightarrow> int \<Rightarrow> message_store \<times> int" where
  "nextPtsLocked s userID = (let n = ms_nextPts s userID + 1 in (s\<lparr>ms_nextPts := (ms_nextPts s)(userID := n)\<rparr>, n))"

definition nextPtsNLocked :: "message_store \<Rightarrow> int \<Rightarrow> int \<Rightarrow> message_store \<times> int" where
  "nextPtsNLocked s userID cnt =
     (let c = (if cnt \<le> 0 then 1 else cnt); n = ms_nextPts s userID + c
      in (s\<lparr>ms_nextPts := (ms_nextPts s)(userID := n)\<rparr>, n))"

definition newMessageEvent :: "private_message \<Rightarrow> update_event" where
  "newMessageEvent m =
     (if msg_ID m = 0 then zero_event
      else zero_event\<lparr>ue_UserID := msg_OwnerUserID m, ue_Type := UpdateEventNewMessage, ue_Pts := pm_Pts m, ue_PtsCount := 1,
             ue_Date := msg_Date m, ue_Message := message.truncate m\<rparr>)"

definition appendMemorySendEventLocked :: "event_store \<Rightarrow> int \<Rightarrow> update_event \<Rightarrow> auth_key \<Rightarrow> int \<Rightarrow> event_store" where
  "appendMemorySendEventLocked events userID event excludeAuthKeyID excludeSessionID =
     (let (ev, e) = appendLocked events userID event False
      in ev\<lparr>st_dispatches := (st_dispatches ev)(userID := st_dispatches ev userID @
              [\<lparr>ud_Pts = ue_Pts e, ud_ExcludeAuthKeyID = excludeAuthKeyID, ud_ExcludeSessionID = excludeSessionID\<rparr>])\<rparr>)"

subsection \<open>Dialogs\<close>

definition merge_dialog :: "dialog \<Rightarrow> dialog \<Rightarrow> dialog" where
  "merge_dialog old d =
     d\<lparr>dg_ReadInboxMaxID := (if dg_ReadInboxMaxID d = 0 then dg_ReadInboxMaxID old else dg_ReadInboxMaxID d),
       dg_ReadOutboxMaxID := (if dg_ReadOutboxMaxID d = 0 then dg_ReadOutboxMaxID old else dg_ReadOutboxMaxID d),
       dg_FolderID := (if dg_FolderID d = 0 \<and> dg_FolderID old \<noteq> 0 then dg_FolderID old else dg_FolderID d),
       dg_UnreadCount := (if dg_UnreadCount d = 0 then dg_UnreadCount old else dg_UnreadCount d),
       dg_UnreadMentions := (if dg_UnreadMentions d = 0 then dg_UnreadMentions old else dg_UnreadMentions d),
       dg_UnreadReactions := (if dg_UnreadReactions d = 0 then dg_UnreadReactions old else dg_UnreadReactions d),
       dg_UnreadMark := (if \<not> dg_UnreadMark d then dg_UnreadMark old else dg_UnreadMark d),
       dg_Pinned := (if \<not> dg_Pinned d \<and> dg_Pinned old then dg_Pinned old else dg_Pinned d),
       dg_PinnedOrder := (if \<not> dg_Pinned d \<and> dg_Pinned old then dg_PinnedOrder old else dg_PinnedOrder d),
       dg_TTLPeriod := (if dg_TTLPeriod d = 0 then dg_TTLPeriod old else dg_TTLPeriod d),
       dg_ThemeEmoticon := (if dg_ThemeEmoticon d = [] then dg_ThemeEmoticon old else dg_ThemeEmoticon d),
       dg_HasScheduled := (if \<not> dg_HasScheduled d then dg_HasScheduled old else dg_HasScheduled d),
       dg_PeerSettingsBarHidden := (if \<not> dg_PeerSettingsBarHidden d then dg_PeerSettingsBarHidden old else dg_PeerSettingsBarHidden d),
       dg_ViewForumAsMessages := (if \<not> dg_ViewForumAsMessages d then dg_ViewForumAsMessages old else dg_ViewForumAsMessages d),
       dg_Draft := (if dg_Draft d = None then dg_Draft old else dg_Draft d)\<rparr>"

fun upsert_dialogs :: "dialog list \<Rightarrow> dialog \<Rightarrow> dialog list" where
  "upsert_dialogs [] d = [d]"
| "upsert_dialogs (x # xs) d = (if dg_Peer x = dg_Peer d then merge_dialog x d # xs else x # upsert_dialogs xs d)"

definition upsertMemoryDialog :: "dialog_list \<Rightarrow> dialog \<Rightarrow> dialog_list" where
  "upsertMemoryDialog list d = list\<lparr>dl_Dialogs := upsert_dialogs (dl_Dialogs list) d\<rparr>"

fun change_dialog :: "peer \<Rightarrow> (dialog \<Rightarrow> dialog) \<Rightarrow> dialog list \<Rightarrow> dialog list" where
  "change_dialog p f [] = []"
| "change_dialog p f (d # ds) = (if dg_Peer d = p then f d # ds else d # change_dialog p f ds)"

definition find_dialog :: "message_store \<Rightarrow> int \<Rightarrow> peer \<Rightarrow> dialog option" where
  "find_dialog s userID p = find (\<lambda>d. dg_Peer d = p) (dl_Dialogs (ms_dialogs s userID))"

definition incoming_after :: "private_message list \<Rightarrow> peer \<Rightarrow> int \<Rightarrow> int" where
  "incoming_after ms p readMax = int (length (filter (\<lambda>m. msg_Peer m = p \<and> \<not> pm_Out m \<and> msg_ID m > readMax) ms))"

definition privateUnreadCountLocked :: "message_store \<Rightarrow> int \<Rightarrow> peer \<Rightarrow> int" where
  "privateUnreadCountLocked s ownerUserID p =
     (let readMax = (case find_dialog s ownerUserID p of None \<Rightarrow> 0 | Some d \<Rightarrow> dg_ReadInboxMaxID d)
      in incoming_after (box s ownerUserID) p readMax)"

definition upsertMemoryDialogsLocked :: "message_store \<Rightarrow> private_message \<Rightarrow> private_message \<Rightarrow> message_store" where
  "upsertMemoryDialogsLocked s sender recipient =
     (let owner = msg_OwnerUserID sender;
          list = upsertMemoryDialog (ms_dialogs s owner)
                   (zero_dialog\<lparr>dg_Peer := msg_Peer sender, dg_TopMessage := msg_ID sender, dg_TopMessageDate := msg_Date sender\<rparr>);
          list1 = list\<lparr>dl_Dialogs := change_dialog (msg_Peer sender) (\<lambda>d. d\<lparr>dg_UnreadMark := False\<rparr>) (dl_Dialogs list),
                       dl_Messages := dl_Messages list @ [sender]\<rparr>;
          s1 = s\<lparr>ms_dialogs := (ms_dialogs s)(owner := list1)\<rparr>
      in if msg_OwnerUserID recipient \<noteq> owner then
           (let other = msg_OwnerUserID recipient;
                peerList = upsertMemoryDialog (ms_dialogs s1 other)
                   (zero_dialog\<lparr>dg_Peer := msg_Peer recipient, dg_TopMessage := msg_ID recipient, dg_TopMessageDate := msg_Date recipient,
                                dg_UnreadCount := privateUnreadCountLocked s1 other (msg_Peer recipient)\<rparr>)
            in s1\<lparr>ms_dialogs := (ms_dialogs s1)(other := peerList\<lparr>dl_Messages := dl_Messages peerList @ [recipient]\<rparr>)\<rparr>)
         else s1)"

end
