(* ===== verification/Private_Send.thy ===== *)
theory Private_Send
  imports Private_Message
begin

text \<open>
  Sending a private message once: \<^verbatim>\<open>internal/store/memory/message_send.go\<close> with the fingerprints and
  snapshots of \<^verbatim>\<open>internal/store/private_send_idempotency.go\<close>.

  \<^item> \<open>digest\<close> is SHA-256 of the JSON of a fingerprint payload, \<open>None\<close> when it cannot be encoded. A snapshot
    is the message itself: its JSON is decoded only by this code.
  \<^item> \<open>quote\<close> stands for the check of a quote from another chat and the snapshot of its source
    (\<^verbatim>\<open>message_reply_external.go\<close>: UTF-16 offsets and a JSON bound).
  \<^item> An operation is one step under the store's lock. \<open>now\<close> is the clock, read when the request has no date.
\<close>

subsection \<open>Fingerprints and snapshots\<close>

record fingerprint_payload =
  fg_Version :: int
  fg_RecipientUserID :: int
  fg_Message :: string
  fg_Media :: "message_media option"
  fg_NoForwards :: bool
  fg_ReplyTo :: "message_reply option"
  fg_Forward :: "message_forward option"
  fg_TTLPeriod :: int
  fg_Rich :: "rich_message option"
  fg_payload :: nat

definition PrivateSendFingerprint :: "(fingerprint_payload \<Rightarrow> 8 word list option) \<Rightarrow> send_request \<Rightarrow> message_error + 8 word list" where
  "PrivateSendFingerprint digest req =
     (if sp_IdempotencyFingerprint req \<noteq> [] then
        (if length (sp_IdempotencyFingerprint req) \<noteq> 32 then Inl ErrFingerprintInvalid else Inr (sp_IdempotencyFingerprint req))
      else case digest \<lparr>fg_Version = 1, fg_RecipientUserID = sp_RecipientUserID req, fg_Message = sp_Message req, fg_Media = sp_Media req,
              fg_NoForwards = sp_NoForwards req, fg_ReplyTo = sp_ReplyTo req, fg_Forward = sp_Forward req,
              fg_TTLPeriod = sp_TTLPeriod req, fg_Rich = sp_Rich req, fg_payload = sp_payload req\<rparr> of
        None \<Rightarrow> Inl ErrFingerprintInvalid
      | Some d \<Rightarrow> Inr d)"

definition ValidateSendFingerprint :: "8 word list \<Rightarrow> bool" where
  "ValidateSendFingerprint fingerprint \<longleftrightarrow> length fingerprint = 32"

definition SameSendFingerprint :: "8 word list \<Rightarrow> 8 word list \<Rightarrow> bool" where
  "SameSendFingerprint stored expected \<longleftrightarrow> length stored = 32 \<and> length expected = 32 \<and> stored = expected"

definition EncodePrivateSendSnapshot :: "private_message \<Rightarrow> message_error + private_message" where
  "EncodePrivateSendSnapshot m =
     (if msg_ID m \<le> 0 \<or> pm_UID m \<le> 0 \<or> pm_RandomID m = 0 \<or> msg_OwnerUserID m = 0 \<or> pm_Pts m \<le> 0 then Inl ErrSnapshotInvalid else Inr m)"

definition DecodePrivateSendSnapshot :: "private_message \<Rightarrow> message_error + private_message" where
  "DecodePrivateSendSnapshot m =
     (if msg_ID m \<le> 0 \<or> pm_UID m \<le> 0 \<or> pm_RandomID m = 0 \<or> msg_OwnerUserID m = 0 \<or> pm_Pts m \<le> 0 then Inl ErrSnapshotInvalid else Inr m)"

subsection \<open>Replays\<close>

record replay_request =
  rr_SenderUserID :: int
  rr_RecipientUserID :: int
  rr_RandomID :: int
  rr_IdempotencyFingerprint :: "8 word list"

record send_result =
  sd_SenderMessage :: private_message
  sd_RecipientMessage :: private_message
  sd_SenderEvent :: update_event
  sd_RecipientEvent :: update_event
  sd_Duplicate :: bool
  sd_ReplayDeleteEvent :: "update_event option"

definition immutablePrivateSendReceipt :: "private_message \<Rightarrow> private_message" where
  "immutablePrivateSendReceipt m =
     (if msg_ID m = 0 then zero_message
      else zero_message\<lparr>msg_ID := msg_ID m, pm_UID := pm_UID m, pm_RandomID := pm_RandomID m, msg_OwnerUserID := msg_OwnerUserID m,
             msg_Peer := msg_Peer m, pm_From := pm_From m, msg_Date := msg_Date m, pm_Out := pm_Out m, pm_Pts := pm_Pts m\<rparr>)"

text \<open>\<open>Inr None\<close> is "not found".\<close>

definition lookupPrivateSendReplayLocked :: "message_store \<Rightarrow> replay_request \<Rightarrow> message_error + send_result option" where
  "lookupPrivateSendReplayLocked s req =
     (case ms_privateSendDedup s (rr_SenderUserID req, rr_RandomID req) of
        None \<Rightarrow> Inr None
      | Some record \<Rightarrow>
          if dd_recipientUserID record \<noteq> rr_RecipientUserID req \<or>
             \<not> SameSendFingerprint (dd_fingerprint record) (rr_IdempotencyFingerprint req) then Inl ErrMessageRandomIDDuplicate
          else case DecodePrivateSendSnapshot (dd_senderSnapshot record) of
            Inl e \<Rightarrow> Inl e
          | Inr firstSender \<Rightarrow>
              let current = find (\<lambda>m. pm_UID m = pm_UID firstSender \<and> msg_ID m = msg_ID firstSender) (box s (rr_SenderUserID req))
              in if current = None \<and> dd_senderDeleteEvent record = None then Inl (ErrReplayAbsent (pm_UID firstSender))
                 else Inr (Some \<lparr>
                   sd_SenderMessage = (case current of None \<Rightarrow> firstSender | Some m \<Rightarrow> m\<lparr>pm_RandomID := pm_RandomID firstSender\<rparr>),
                   sd_RecipientMessage = dd_recipientMessage record,
                   sd_SenderEvent = newMessageEvent firstSender,
                   sd_RecipientEvent = newMessageEvent (dd_recipientMessage record),
                   sd_Duplicate = True,
                   sd_ReplayDeleteEvent = dd_senderDeleteEvent record\<rparr>))"

definition LookupPrivateSendReplay :: "message_store \<Rightarrow> replay_request \<Rightarrow> message_error + send_result option" where
  "LookupPrivateSendReplay s req =
     (if rr_SenderUserID req = 0 \<or> rr_RecipientUserID req = 0 \<or> rr_RandomID req = 0 then Inl ErrReplayScopeInvalid
      else if \<not> ValidateSendFingerprint (rr_IdempotencyFingerprint req) then Inl ErrFingerprintInvalid
      else lookupPrivateSendReplayLocked s req)"

subsection \<open>Replies\<close>

type_synonym quote_source = "message_reply \<Rightarrow> private_message \<Rightarrow> message_error + nat"

definition resolveMemoryReplyLocked :: "quote_source \<Rightarrow> message_store \<Rightarrow> send_request \<Rightarrow>
    message_error + (message_reply option \<times> message_reply option)" where
  "resolveMemoryReplyLocked quote s req =
     (case sp_ReplyTo req of
        None \<Rightarrow> Inr (None, None)
      | Some r \<Rightarrow>
          if \<not> ValidateMessageReplyBounds r then Inl ErrReplyMessageIDInvalid
          else if mr_StoryID r > 0 then
            (let reply = \<lparr>mr_MessageID = 0, mr_Peer = user_peer (sp_RecipientUserID req), mr_TopMessageID = 0, mr_QuoteOffset = 0,
                          mr_External = None, mr_StoryID = mr_StoryID r, mr_quote = 0\<rparr>
             in Inr (Some reply, Some reply))
          else
            let p = (if peer_ID (mr_Peer r) = 0 then user_peer (sp_RecipientUserID req) else mr_Peer r)
            in if peer_Type p \<noteq> PeerTypeUser \<or> mr_External r \<noteq> None then Inl ErrReplyMessageIDInvalid
               else
                 let target = (case find (\<lambda>m. msg_Peer m = p \<and> msg_ID m = mr_MessageID r) (box s (sp_SenderUserID req)) of
                                 None \<Rightarrow> zero_message | Some m \<Rightarrow> m)
                 in if msg_ID target = 0 then Inl ErrReplyMessageIDInvalid
                    else
                      let senderReply = r\<lparr>mr_MessageID := msg_ID target, mr_Peer := p\<rparr>
                      in if peer_ID p \<noteq> sp_RecipientUserID req then
                           (let protected = (pm_NoForwards target \<or> (case pm_Media target of None \<Rightarrow> False | Some md \<Rightarrow> md_TTLSeconds md > 0));
                                protected1 = (case noForwardsPair (sp_SenderUserID req) (peer_ID p) of
                                                None \<Rightarrow> protected
                                              | Some pair \<Rightarrow> protected \<or> ms_privateNoForwards s pair \<noteq> 0)
                            in if protected1 then Inl ErrChatForwardsRestricted
                               else case quote r target of
                                 Inl e \<Rightarrow> Inl e
                               | Inr ext \<Rightarrow>
                                   let senderReply1 = senderReply\<lparr>mr_External := Some ext\<rparr>
                                   in Inr (Some senderReply1,
                                           Some (if sp_SenderUserID req \<noteq> sp_RecipientUserID req
                                                 then senderReply1\<lparr>mr_MessageID := 0, mr_TopMessageID := 0\<rparr> else senderReply1)))
                         else if sp_SenderUserID req = sp_RecipientUserID req then Inr (Some senderReply, Some senderReply)
                         else case find (\<lambda>m. pm_UID m = pm_UID target) (box s (sp_RecipientUserID req)) of
                           Some m \<Rightarrow> Inr (Some senderReply,
                                         Some (senderReply\<lparr>mr_MessageID := msg_ID m, mr_Peer := user_peer (sp_SenderUserID req)\<rparr>))
                         | None \<Rightarrow> Inr (Some senderReply, None))"

subsection \<open>Sending\<close>

text \<open>
  \<open>fresh_pts\<close> is the closure \<^verbatim>\<open>nextPTS\<close>: the counters staged so far are \<open>allocated\<close>. A prefix is a list of
  events that are staged before the message and the change of state they come with.
\<close>

definition fresh_pts :: "message_store \<Rightarrow> (int \<Rightarrow> int option) \<Rightarrow> int \<Rightarrow> int" where
  "fresh_pts s allocated userID =
     (case allocated userID of
        Some current \<Rightarrow> current
      | None \<Rightarrow> foldl (\<lambda>current e. if ue_Pts e > current then ue_Pts e else current) (ms_nextPts s userID) (st_events (ms_updateEvents s) userID)) + 1"

type_synonym send_prefix = "update_event list \<times> (update_event list \<Rightarrow> message_store \<Rightarrow> message_store)"

definition stage_prefix :: "message_store \<Rightarrow> update_event list \<Rightarrow> update_event list \<times> (int \<Rightarrow> int option)" where
  "stage_prefix s evs =
     fold (\<lambda>e (out, allocated). let p = fresh_pts s allocated (ue_UserID e)
                               in (out @ [e\<lparr>ue_Pts := p\<rparr>], allocated(ue_UserID e \<mapsto> p))) evs ([], Map.empty)"

definition sender_copy :: "message_store \<Rightarrow> send_request \<Rightarrow> message_reply option \<Rightarrow> int \<Rightarrow> private_message" where
  "sender_copy s req reply pts =
     (let m = zero_message\<lparr>msg_ID := ms_nextBox s (sp_SenderUserID req) + 1, pm_UID := ms_nextUID s, pm_RandomID := sp_RandomID req,
                msg_OwnerUserID := sp_SenderUserID req, msg_Peer := user_peer (sp_RecipientUserID req), pm_From := user_peer (sp_SenderUserID req),
                msg_Date := sp_Date req, pm_Out := True, pm_NoForwards := sp_NoForwards req, pm_Body := sp_Message req,
                pm_Media := sp_Media req, pm_Rich := sp_Rich req, pm_ReplyTo := reply, pm_Forward := sp_Forward req, pm_Pts := pts,
                msg_payload := sp_payload req,
                pm_MediaUnread := (HasUnreadPayload (sp_Media req) \<and> sp_SenderUserID req \<noteq> sp_RecipientUserID req)\<rparr>
      in if sp_SenderUserID req = sp_RecipientUserID req
         then m\<lparr>pm_SavedPeer := SavedPeerForSelfChat (sp_SenderUserID req) (sp_Forward req)\<rparr> else m)"

definition recipient_copy :: "message_store \<Rightarrow> send_request \<Rightarrow> private_message \<Rightarrow> message_reply option \<Rightarrow> int \<Rightarrow> private_message" where
  "recipient_copy s req sender reply pts =
     sender\<lparr>msg_ID := ms_nextBox s (sp_RecipientUserID req) + 1, msg_OwnerUserID := sp_RecipientUserID req,
       msg_Peer := user_peer (sp_SenderUserID req), pm_Out := False, pm_ReplyTo := reply, pm_Pts := pts,
       pm_MediaUnread := HasUnreadPayload (sp_Media req)\<rparr>"

definition exclusion :: "send_request \<Rightarrow> int \<Rightarrow> auth_key \<times> int" where
  "exclusion req userID =
     (let originUserID = (if sp_OriginUserID req = 0 then sp_SenderUserID req else sp_OriginUserID req)
      in if originUserID = userID then (sp_OriginAuthKeyID req, sp_OriginSessionID req) else (0, 0))"

definition append_all :: "event_store \<Rightarrow> send_request \<Rightarrow> update_event list \<Rightarrow> event_store" where
  "append_all ev req evs =
     fold (\<lambda>e ev. let (auth, session) = (if ue_UserID e = sp_SenderUserID req then (sp_OriginAuthKeyID req, sp_OriginSessionID req) else (0, 0))
                  in appendMemorySendEventLocked ev (ue_UserID e) e auth session) evs ev"

definition commit_send :: "message_store \<Rightarrow> send_request \<Rightarrow> 8 word list \<Rightarrow> (int \<Rightarrow> int option) \<Rightarrow> private_message \<Rightarrow> private_message \<Rightarrow> message_store" where
  "commit_send s req fingerprint allocated sender recipient =
     (let u = sp_SenderUserID req; r = sp_RecipientUserID req;
          s1 = s\<lparr>ms_nextUID := ms_nextUID s + 1, ms_nextBox := (ms_nextBox s)(u := msg_ID sender)\<rparr>;
          s2 = (if msg_ID recipient \<noteq> 0 then s1\<lparr>ms_nextBox := (ms_nextBox s1)(msg_OwnerUserID recipient := msg_ID recipient)\<rparr> else s1);
          s3 = s2\<lparr>ms_nextPts := (\<lambda>v. case allocated v of None \<Rightarrow> ms_nextPts s2 v | Some p \<Rightarrow> p)\<rparr>;
          s4 = put_box s3 u (box s3 u @ [sender]);
          s5 = (if u \<noteq> r \<and> \<not> sp_RecipientBlocked req then put_box s4 r (box s4 r @ [recipient]) else s4);
          s6 = (if sp_RandomID req \<noteq> 0
                then s5\<lparr>ms_privateSendDedup := (ms_privateSendDedup s5)((u, sp_RandomID req) \<mapsto>
                       \<lparr>dd_recipientUserID = r, dd_senderSnapshot = sender, dd_recipientMessage = immutablePrivateSendReceipt recipient,
                        dd_fingerprint = fingerprint, dd_senderDeleteEvent = None\<rparr>)\<rparr>
                else s5);
          s7 = upsertMemoryDialogsLocked s6 sender (if msg_ID recipient \<noteq> 0 then recipient else sender);
          ev1 = (let (auth, session) = exclusion req u in appendMemorySendEventLocked (ms_updateEvents s7) u (newMessageEvent sender) auth session);
          ev2 = (if msg_ID recipient \<noteq> 0 \<and> msg_OwnerUserID recipient \<noteq> msg_OwnerUserID sender
                 then (let (auth, session) = exclusion req r in appendMemorySendEventLocked ev1 r (newMessageEvent recipient) auth session)
                 else ev1)
      in s7\<lparr>ms_updateEvents := ev2\<rparr>)"

text \<open>The part of \<^verbatim>\<open>sendPrivateTextLocked\<close> after the replay and the replies.\<close>

definition send_new :: "message_store \<Rightarrow> send_request \<Rightarrow> 8 word list \<Rightarrow> send_prefix option \<Rightarrow> message_reply option \<Rightarrow> message_reply option \<Rightarrow>
    message_store \<times> (message_error + send_result)" where
  "send_new s req fingerprint prefix senderReply recipientReply =
     (let (prefixEvents, alloc1) = stage_prefix s (case prefix of None \<Rightarrow> [] | Some (evs, apply) \<Rightarrow> evs);
          u = sp_SenderUserID req; r = sp_RecipientUserID req;
          upts = fresh_pts s alloc1 u;
          alloc2 = alloc1(u \<mapsto> upts);
          sender = sender_copy s req senderReply upts;
          deliver = (u \<noteq> r \<and> \<not> sp_RecipientBlocked req);
          rpts = fresh_pts s alloc2 r;
          alloc3 = (if deliver then alloc2(r \<mapsto> rpts) else alloc2);
          recipient = (if u = r then sender else if deliver then recipient_copy s req sender recipientReply rpts else zero_message)
      in case (if sp_RandomID req \<noteq> 0 then EncodePrivateSendSnapshot sender else Inr sender) of
           Inl e \<Rightarrow> (s, Inl e)
         | Inr snapshot \<Rightarrow>
             let s1 = (case prefix of None \<Rightarrow> s | Some (evs, apply) \<Rightarrow> apply prefixEvents s);
                 s2 = s1\<lparr>ms_updateEvents := append_all (ms_updateEvents s1) req prefixEvents\<rparr>
             in (commit_send s2 req fingerprint alloc3 sender recipient,
                 Inr \<lparr>sd_SenderMessage = sender, sd_RecipientMessage = recipient, sd_SenderEvent = newMessageEvent sender,
                      sd_RecipientEvent = newMessageEvent recipient, sd_Duplicate = False, sd_ReplayDeleteEvent = None\<rparr>))"

definition sendPrivateTextLocked :: "int \<Rightarrow> quote_source \<Rightarrow> message_store \<Rightarrow> send_request \<Rightarrow> 8 word list \<Rightarrow> send_prefix option \<Rightarrow>
    message_store \<times> (message_error + send_result)" where
  "sendPrivateTextLocked now quote s req0 fingerprint prefix =
     (case lookupPrivateSendReplayLocked s \<lparr>rr_SenderUserID = sp_SenderUserID req0, rr_RecipientUserID = sp_RecipientUserID req0,
             rr_RandomID = sp_RandomID req0, rr_IdempotencyFingerprint = fingerprint\<rparr> of
        Inl e \<Rightarrow> (s, Inl e)
      | Inr (Some replay) \<Rightarrow> (s, Inr replay)
      | Inr None \<Rightarrow>
          (let req = (if sp_Date req0 = 0 then req0\<lparr>sp_Date := now\<rparr> else req0)
           in case resolveMemoryReplyLocked quote s req of
                Inl e \<Rightarrow> (s, Inl e)
              | Inr (senderReply, recipientReply) \<Rightarrow> send_new s req fingerprint prefix senderReply recipientReply))"

definition SendPrivateText :: "(fingerprint_payload \<Rightarrow> 8 word list option) \<Rightarrow> int \<Rightarrow> quote_source \<Rightarrow> message_store \<Rightarrow> send_request \<Rightarrow>
    message_store \<times> (message_error + send_result)" where
  "SendPrivateText digest now quote s req =
     (if \<not> HasContent req then (s, Inl ErrMessageEmpty)
      else case PrivateSendFingerprint digest req of
        Inl e \<Rightarrow> (s, Inl e)
      | Inr fingerprint \<Rightarrow> sendPrivateTextLocked now quote s req fingerprint None)"

end
