(* ===== verification/Private_Changes.thy ===== *)
theory Private_Changes
  imports Private_Send
begin

text \<open>
  Reading and deleting private messages: \<^verbatim>\<open>internal/store/memory/message_history.go\<close>,
  \<^verbatim>\<open>message_read.go\<close>, \<^verbatim>\<open>message_delete.go\<close> and the deletions of \<^verbatim>\<open>message_helpers.go\<close>.

  \<^item> \<open>now\<close> is the clock, read when the request has no date.
  \<^item> The check at the end of \<^verbatim>\<open>finishMemoryDeleteLocked\<close>, that the cursor reaches the reserved pts, compares
    two sums of the same parts and is left out.
\<close>

subsection \<open>Removing messages from the boxes\<close>

record deleted_message =
  dm_userID :: int
  dm_peer :: peer
  dm_id :: int
  dm_privateMessageID :: int
  dm_messageSenderID :: int
  dm_randomID :: int

definition deleted_row :: "int \<Rightarrow> private_message \<Rightarrow> deleted_message" where
  "deleted_row userID m = \<lparr>dm_userID = userID, dm_peer = msg_Peer m, dm_id = msg_ID m, dm_privateMessageID = pm_UID m,
     dm_messageSenderID = peer_ID (pm_From m), dm_randomID = pm_RandomID m\<rparr>"

fun delete_loop :: "(private_message \<Rightarrow> bool) \<Rightarrow> int \<Rightarrow> private_message list \<Rightarrow> private_message list \<Rightarrow> private_message list \<Rightarrow> bool \<Rightarrow>
    private_message list \<times> private_message list \<times> bool" where
  "delete_loop match limit [] kept deleted more_left = (kept, deleted, more_left)"
| "delete_loop match limit (m # ms) kept deleted more_left =
     (if match m then
        (if limit > 0 \<and> int (length deleted) \<ge> limit then delete_loop match limit ms (kept @ [m]) deleted True
         else delete_loop match limit ms kept (deleted @ [m]) more_left)
      else delete_loop match limit ms (kept @ [m]) deleted more_left)"

definition deleteMemoryMessagesLocked :: "message_store \<Rightarrow> int \<Rightarrow> int \<Rightarrow> (private_message \<Rightarrow> bool) \<Rightarrow>
    message_store \<times> deleted_message list \<times> int list \<times> bool" where
  "deleteMemoryMessagesLocked s userID limit match =
     (let (kept, deleted, more_left) = delete_loop match limit (box s userID) [] [] False
      in (put_box s userID kept, map (deleted_row userID) deleted, filter (\<lambda>uid. uid \<noteq> 0) (map pm_UID deleted), more_left))"

definition deleteMemoryMessagesByUIDLocked :: "message_store \<Rightarrow> int list \<Rightarrow> int \<Rightarrow> message_store \<times> deleted_message list" where
  "deleteMemoryMessagesByUIDLocked s uids excludeUserID =
     (if uids = [] then (s, [])
      else (s\<lparr>ms_m := map (\<lambda>(u, ms). (u, if u = excludeUserID then ms else filter (\<lambda>m. pm_UID m \<notin> set uids) ms)) (ms_m s)\<rparr>,
            concat (map (\<lambda>(u, ms). if u = excludeUserID then []
                                  else map (deleted_row u) (filter (\<lambda>m. pm_UID m \<in> set uids) ms)) (ms_m s))))"

definition normalizeMemoryMessageIDs :: "int list \<Rightarrow> int list" where
  "normalizeMemoryMessageIDs ids = sort (remdups (filter (\<lambda>i. \<not> (i \<le> 0 \<or> i > MaxMessageBoxID)) ids))"

subsection \<open>Dialogs after a deletion\<close>

text \<open>\<open>newest\<close> is the id and the date of the newest message with the peer.\<close>

fun rebuild_loop :: "private_message list \<Rightarrow> peer \<Rightarrow> int \<times> int \<Rightarrow> int \<Rightarrow> dialog list \<Rightarrow> dialog list" where
  "rebuild_loop ms p newest unread [] = []"
| "rebuild_loop ms p newest unread (d # ds) =
     (if dg_Peer d \<noteq> p then d # rebuild_loop ms p newest unread ds
      else if fst newest = 0 then rebuild_loop ms p newest unread ds
      else let unread1 = unread + incoming_after ms p (dg_ReadInboxMaxID d)
           in d\<lparr>dg_TopMessage := fst newest, dg_TopMessageDate := snd newest, dg_UnreadCount := unread1, dg_UnreadMentions := 0,
                dg_UnreadReactions := 0\<rparr> # rebuild_loop ms p newest unread1 ds)"

definition top_message :: "private_message list \<Rightarrow> peer \<Rightarrow> private_message" where
  "top_message ms p = foldl (\<lambda>newest m. if msg_Peer m = p \<and> msg_ID m > msg_ID newest then m else newest) zero_message ms"

definition rebuildMemoryDialogLocked :: "int \<Rightarrow> peer \<Rightarrow> message_store \<Rightarrow> message_store" where
  "rebuildMemoryDialogLocked userID p s =
     (let newest = top_message (box s userID) p; list = ms_dialogs s userID
      in s\<lparr>ms_dialogs := (ms_dialogs s)(userID := list\<lparr>
             dl_Dialogs := rebuild_loop (box s userID) p (msg_ID newest, msg_Date newest) 0 (dl_Dialogs list),
             dl_Messages := box s userID\<rparr>)\<rparr>)"

definition advanceMemoryHistoryClearDialogLocked :: "int \<Rightarrow> peer \<Rightarrow> int \<Rightarrow> message_store \<Rightarrow> message_store" where
  "advanceMemoryHistoryClearDialogLocked userID p maxID s =
     (let list = ms_dialogs s userID
      in s\<lparr>ms_dialogs := (ms_dialogs s)(userID := list\<lparr>dl_Dialogs := change_dialog p
           (\<lambda>d. d\<lparr>dg_ReadInboxMaxID := (if dg_ReadInboxMaxID d < maxID then maxID else dg_ReadInboxMaxID d),
                  dg_UnreadCount := 0, dg_UnreadMark := False, dg_UnreadMentions := 0, dg_UnreadReactions := 0\<rparr>) (dl_Dialogs list)\<rparr>)\<rparr>)"

subsection \<open>Finishing a deletion\<close>

record clear_anchor =
  ca_message :: private_message
  ca_materialized :: bool

record deleted_for_user =
  du_UserID :: int
  du_MessageIDs :: "int list"
  du_Event :: update_event
  du_Events :: "update_event list"
  du_Pts :: int
  du_PtsCount :: int

record delete_result =
  dr_OwnerUserID :: int
  dr_Deleted :: "deleted_for_user list"
  dr_Offset :: int

definition drop_tags :: "deleted_message list \<Rightarrow> message_store \<Rightarrow> message_store" where
  "drop_tags deleted s = fold (\<lambda>d s. s\<lparr>ms_savedMessageTags := (ms_savedMessageTags s)((dm_userID d, dm_id d) := None)\<rparr>) deleted s"

definition delete_receipt :: "int \<Rightarrow> update_event \<Rightarrow> deleted_message \<Rightarrow> message_store \<Rightarrow> message_store" where
  "delete_receipt userID event d s =
     (if dm_userID d \<noteq> userID \<or> dm_messageSenderID d \<noteq> userID \<or> dm_randomID d = 0 \<or> dm_privateMessageID d = 0 then s
      else case ms_privateSendDedup s (userID, dm_randomID d) of
        None \<Rightarrow> s
      | Some record \<Rightarrow> s\<lparr>ms_privateSendDedup := (ms_privateSendDedup s)((userID, dm_randomID d) \<mapsto>
                                 record\<lparr>dd_senderDeleteEvent := Some event\<rparr>)\<rparr>)"

fun replace_message :: "private_message \<Rightarrow> private_message list \<Rightarrow> private_message list" where
  "replace_message m [] = []"
| "replace_message m (x # xs) = (if msg_ID x = msg_ID m \<and> msg_Peer x = msg_Peer m then m # xs else x # replace_message m xs)"

definition materialize_anchor :: "int \<Rightarrow> int \<Rightarrow> int \<Rightarrow> private_message \<Rightarrow> message_store \<times> deleted_for_user \<Rightarrow> message_store \<times> deleted_for_user" where
  "materialize_anchor userID date cursor m acc =
     (let (s, item) = acc;
          readPts = cursor + 1; editPts = readPts + 1;
          msg = NewHistoryClearMessage userID (msg_Peer m) (msg_ID m) (pm_UID m) (msg_Date m) editPts;
          s1 = put_box s userID (replace_message msg (box s userID));
          s2 = s1\<lparr>ms_savedMessageTags := (ms_savedMessageTags s1)((userID, msg_ID m) := None)\<rparr>;
          readEvent = zero_event\<lparr>ue_UserID := userID, ue_Type := UpdateEventReadHistoryInbox, ue_Pts := readPts,
             ue_PtsCount := 1, ue_Date := date, ue_Peer := msg_Peer m, ue_MaxID := msg_ID m, ue_StillUnreadCount := 0\<rparr>;
          editEvent = zero_event\<lparr>ue_UserID := userID, ue_Type := UpdateEventEditMessage, ue_Pts := editPts,
             ue_PtsCount := 1, ue_Date := date, ue_Message := message.truncate msg\<rparr>
      in (s2, item\<lparr>du_Events := du_Events item @ [readEvent, editEvent]\<rparr>))"

definition refresh_dialogs :: "int \<Rightarrow> peer list \<Rightarrow> private_message option \<Rightarrow> message_store \<Rightarrow> message_store" where
  "refresh_dialogs userID peers cleared s =
     (let s1 = fold (rebuildMemoryDialogLocked userID) peers s
      in case cleared of None \<Rightarrow> s1 | Some m \<Rightarrow> advanceMemoryHistoryClearDialogLocked userID (msg_Peer m) (msg_ID m) s1)"

definition finish_owner :: "deleted_message list \<Rightarrow> (int \<times> clear_anchor) list \<Rightarrow> int \<Rightarrow> int \<Rightarrow>
    message_store \<times> deleted_for_user list \<Rightarrow> message_store \<times> deleted_for_user list" where
  "finish_owner deleted anchors date userID acc =
     (let (s, items) = acc;
          rows = filter (\<lambda>d. dm_userID d = userID) deleted;
          ids = normalizeMemoryMessageIDs (map dm_id rows);
          anchor = map_of anchors userID;
          cleared = (case anchor of None \<Rightarrow> None | Some a \<Rightarrow> if ca_materialized a then None else Some (ca_message a));
          total = int (length ids) + (if cleared \<noteq> None then 2 else 0)
      in if total = 0 then (s, items)
         else
           let (s1, pts) = nextPtsNLocked s userID total;
               cursor = pts - total + int (length ids);
               event = zero_event\<lparr>ue_UserID := userID, ue_Type := UpdateEventDeleteMessages, ue_Pts := cursor, ue_PtsCount := int (length ids),
                         ue_Date := date, ue_MessageIDs := ids\<rparr>;
               s2 = (if ids \<noteq> [] then fold (delete_receipt userID event) deleted s1 else s1);
               item = \<lparr>du_UserID = userID, du_MessageIDs = ids, du_Event = (if ids \<noteq> [] then event else zero_event),
                        du_Events = (if ids \<noteq> [] then [event] else []), du_Pts = pts, du_PtsCount = total\<rparr>;
               (s3, item1) = (case cleared of None \<Rightarrow> (s2, item) | Some m \<Rightarrow> materialize_anchor userID date cursor m (s2, item));
               peers = remdups (map dm_peer rows @ (case anchor of None \<Rightarrow> [] | Some a \<Rightarrow> [msg_Peer (ca_message a)]))
           in (refresh_dialogs userID peers cleared s3, items @ [item1]))"

definition finishMemoryDeleteLocked :: "message_store \<Rightarrow> delete_result \<Rightarrow> deleted_message list \<Rightarrow> int \<Rightarrow> (int \<times> clear_anchor) list \<Rightarrow>
    message_store \<times> delete_result" where
  "finishMemoryDeleteLocked s res deleted date anchors =
     (if deleted = [] \<and> anchors = [] then (s, res)
      else let ownerIDs = sort (remdups (map dm_userID deleted @ map fst (filter (\<lambda>(u, a). \<not> ca_materialized a) anchors)));
               (s1, items) = fold (finish_owner deleted anchors date) ownerIDs (drop_tags deleted s, [])
           in (s1, res\<lparr>dr_Deleted := dr_Deleted res @ items\<rparr>))"

subsection \<open>Deleting\<close>

definition DeleteMessages :: "int \<Rightarrow> message_store \<Rightarrow> int \<Rightarrow> int list \<Rightarrow> bool \<Rightarrow> int \<Rightarrow> message_store \<times> (message_error + delete_result)" where
  "DeleteMessages now s ownerUserID rawIDs revoke date0 =
     (let res = \<lparr>dr_OwnerUserID = ownerUserID, dr_Deleted = [], dr_Offset = 0\<rparr>;
          ids = normalizeMemoryMessageIDs rawIDs
      in if ownerUserID = 0 \<or> ids = [] then (s, Inr res)
         else if int (length ids) > MaxDeleteMessageIDs then (s, Inl ErrTooManyMessageIDs)
         else let date = (if date0 = 0 then now else date0);
                  (s1, deleted, revokeUIDs, more_left) = deleteMemoryMessagesLocked s ownerUserID 0 (\<lambda>m. msg_ID m \<in> set ids);
                  (s2, others) = (if revoke \<and> revokeUIDs \<noteq> [] then deleteMemoryMessagesByUIDLocked s1 revokeUIDs ownerUserID else (s1, []));
                  (s3, res1) = finishMemoryDeleteLocked s2 res (deleted @ others) date []
              in (s3, Inr res1))"

definition memoryHistoryClearAnchorLocked :: "message_store \<Rightarrow> int \<Rightarrow> peer \<Rightarrow> clear_anchor option" where
  "memoryHistoryClearAnchorLocked s userID p =
     (let newest = top_message (box s userID) p
      in if msg_ID newest = 0 then None else Some \<lparr>ca_message = newest, ca_materialized = IsHistoryClearServiceMessage newest\<rparr>)"

record delete_history_request =
  dh_OwnerUserID :: int
  dh_Peer :: peer
  dh_MaxID :: int
  dh_MinDate :: int
  dh_MaxDate :: int
  dh_JustClear :: bool
  dh_Revoke :: bool
  dh_Date :: int

definition DeleteHistory :: "int \<Rightarrow> message_store \<Rightarrow> delete_history_request \<Rightarrow> message_store \<times> delete_result" where
  "DeleteHistory now s req =
     (let owner = dh_OwnerUserID req; p = dh_Peer req;
          res = \<lparr>dr_OwnerUserID = owner, dr_Deleted = [], dr_Offset = 0\<rparr>
      in if owner = 0 \<or> peer_ID p = 0 then (s, res)
         else
           let date = (if dh_Date req = 0 then now else dh_Date req);
               inDateRange = (\<lambda>m. \<not> (dh_MinDate req > 0 \<and> msg_Date m < dh_MinDate req) \<and> \<not> (dh_MaxDate req > 0 \<and> msg_Date m > dh_MaxDate req));
               fullJustClear = (dh_JustClear req \<and> dh_MaxID req \<le> 0 \<and> dh_MinDate req \<le> 0 \<and> dh_MaxDate req \<le> 0);
               own_anchor = (if fullJustClear then memoryHistoryClearAnchorLocked s owner p else None);
               peer_anchor = (if fullJustClear \<and> dh_Revoke req \<and> peer_ID p \<noteq> owner
                              then memoryHistoryClearAnchorLocked s (peer_ID p) (user_peer owner) else None);
               anchors = (case own_anchor of None \<Rightarrow> [] | Some a \<Rightarrow> [(owner, a)]) @ (case peer_anchor of None \<Rightarrow> [] | Some a \<Rightarrow> [(peer_ID p, a)]);
               kept_anchor = (\<lambda>u m. case map_of anchors u of None \<Rightarrow> False | Some a \<Rightarrow> msg_ID m = msg_ID (ca_message a));
               (s1, deleted, revokeUIDs, more1) = deleteMemoryMessagesLocked s owner MaxDeleteHistoryBatch
                  (\<lambda>m. \<not> kept_anchor owner m \<and> msg_Peer m = p \<and> (dh_MaxID req \<le> 0 \<or> msg_ID m \<le> dh_MaxID req) \<and> inDateRange m);
               (s2, byUID) = (if dh_Revoke req \<and> dh_MaxID req > 0 \<and> revokeUIDs \<noteq> []
                              then deleteMemoryMessagesByUIDLocked s1 revokeUIDs owner else (s1, []));
               (s3, byPeer, more2) = (if dh_Revoke req \<and> dh_MaxID req \<le> 0 \<and> peer_ID p \<noteq> owner then
                    (let (s', d, uids, more') = deleteMemoryMessagesLocked s2 (peer_ID p) MaxDeleteHistoryBatch
                           (\<lambda>m. \<not> kept_anchor (peer_ID p) m \<and> msg_Peer m = user_peer owner \<and> inDateRange m)
                     in (s', d, more')) else (s2, [], False));
               (s4, res1) = finishMemoryDeleteLocked s3 res (deleted @ byUID @ byPeer) date anchors
           in (s4, if more1 \<or> more2 then res1\<lparr>dr_Offset := 1\<rparr> else res1))"

subsection \<open>Reading\<close>

record read_result =
  rd_OwnerUserID :: int
  rd_Peer :: peer
  rd_MaxID :: int
  rd_StillUnreadCount :: int
  rd_Changed :: bool
  rd_InboxEvent :: update_event
  rd_OutboxChanged :: bool
  rd_OutboxUserID :: int
  rd_OutboxEvent :: update_event

definition latest_incoming :: "private_message list \<Rightarrow> peer \<Rightarrow> int \<Rightarrow> int \<Rightarrow> private_message" where
  "latest_incoming ms p oldRead readMax =
     foldl (\<lambda>latest m. if msg_Peer m \<noteq> p \<or> pm_Out m then latest
                      else if msg_ID m > readMax then latest
                      else if msg_ID m > oldRead \<and> msg_ID m > msg_ID latest then m else latest) zero_message ms"

definition put_dialogs :: "message_store \<Rightarrow> int \<Rightarrow> dialog list \<Rightarrow> message_store" where
  "put_dialogs s userID ds = s\<lparr>ms_dialogs := (ms_dialogs s)(userID := (ms_dialogs s userID)\<lparr>dl_Dialogs := ds\<rparr>)\<rparr>"

text \<open>The receipt for the sender of the newest message that was read.\<close>

definition read_outbox :: "int \<Rightarrow> int \<Rightarrow> private_message \<Rightarrow> message_store \<times> read_result \<Rightarrow> message_store \<times> read_result" where
  "read_outbox ownerUserID date latestIncoming acc =
     (let (s, res) = acc
      in if msg_ID latestIncoming \<noteq> 0 \<and> peer_ID (pm_From latestIncoming) \<noteq> 0 \<and> peer_ID (pm_From latestIncoming) \<noteq> ownerUserID then
           (let senderUserID = peer_ID (pm_From latestIncoming);
                senderBoxID = (case find (\<lambda>m. pm_UID m = pm_UID latestIncoming \<and> pm_Out m) (box s senderUserID) of
                                 None \<Rightarrow> 0 | Some m \<Rightarrow> msg_ID m)
            in if senderBoxID > 0 then
                 (case find_dialog s senderUserID (user_peer ownerUserID) of
                    None \<Rightarrow> (s, res)
                  | Some senderDialog \<Rightarrow>
                      if senderBoxID \<le> dg_ReadOutboxMaxID senderDialog then (s, res)
                      else
                        let oldOutbox = dg_ReadOutboxMaxID senderDialog;
                            s1 = put_dialogs s senderUserID (change_dialog (user_peer ownerUserID)
                                   (\<lambda>d. d\<lparr>dg_ReadOutboxMaxID := senderBoxID\<rparr>) (dl_Dialogs (ms_dialogs s senderUserID)));
                            s2 = s1\<lparr>ms_readOutboxDates := (\<lambda>key. if \<exists>m \<in> set (box s1 senderUserID). msg_Peer m = user_peer ownerUserID \<and> pm_Out m \<and>
                                      msg_ID m > oldOutbox \<and> msg_ID m \<le> senderBoxID \<and> key = (senderUserID, ownerUserID, msg_ID m)
                                    then date else ms_readOutboxDates s1 key)\<rparr>;
                            (s3, outPts) = nextPtsLocked s2 senderUserID
                        in (s3, res\<lparr>rd_OutboxChanged := True, rd_OutboxUserID := senderUserID,
                              rd_OutboxEvent := zero_event\<lparr>ue_UserID := senderUserID, ue_Type := UpdateEventReadHistoryOutbox, ue_Pts := outPts,
                                 ue_PtsCount := 1, ue_Date := date, ue_Peer := user_peer ownerUserID, ue_MaxID := senderBoxID\<rparr>\<rparr>))
               else (s, res))
         else (s, res))"

definition ReadHistory :: "int \<Rightarrow> message_store \<Rightarrow> int \<Rightarrow> peer \<Rightarrow> int \<Rightarrow> int \<Rightarrow> message_store \<times> read_result" where
  "ReadHistory now s ownerUserID p maxID date0 =
     (let res = \<lparr>rd_OwnerUserID = ownerUserID, rd_Peer = p, rd_MaxID = maxID, rd_StillUnreadCount = 0, rd_Changed = False,
                 rd_InboxEvent = zero_event, rd_OutboxChanged = False, rd_OutboxUserID = 0, rd_OutboxEvent = zero_event\<rparr>
      in if ownerUserID = 0 \<or> peer_ID p = 0 then (s, res)
         else
           let date = (if date0 = 0 then now else date0); ms = box s ownerUserID; ds = dl_Dialogs (ms_dialogs s ownerUserID)
           in case find_dialog s ownerUserID p of
                None \<Rightarrow> (s, res)
              | Some dialog \<Rightarrow>
                  let readMax0 = (if maxID \<le> 0 then dg_TopMessage dialog else maxID);
                      readMax = (if readMax0 > dg_TopMessage dialog then dg_TopMessage dialog else readMax0);
                      oldRead = dg_ReadInboxMaxID dialog;
                      res1 = res\<lparr>rd_MaxID := readMax\<rparr>
                  in if \<not> readMax > oldRead then
                       (if dg_UnreadCount dialog > 0 then
                          (let unread = incoming_after ms p oldRead
                           in (put_dialogs s ownerUserID (change_dialog p
                                 (\<lambda>d. d\<lparr>dg_UnreadCount := unread, dg_UnreadMentions := 0, dg_UnreadMark := False\<rparr>) ds),
                               res1\<lparr>rd_MaxID := dg_ReadInboxMaxID dialog, rd_StillUnreadCount := unread\<rparr>))
                        else (s, res1))
                     else
                       let unread = incoming_after ms p readMax;
                           (s1, pts) = nextPtsLocked s ownerUserID;
                           s2 = put_dialogs s1 ownerUserID (change_dialog p
                                  (\<lambda>d. d\<lparr>dg_ReadInboxMaxID := readMax, dg_UnreadCount := unread, dg_UnreadMentions := 0, dg_UnreadMark := False\<rparr>) ds);
                           res2 = res1\<lparr>rd_Changed := True, rd_StillUnreadCount := unread,
                             rd_InboxEvent := zero_event\<lparr>ue_UserID := ownerUserID, ue_Type := UpdateEventReadHistoryInbox, ue_Pts := pts,
                               ue_PtsCount := 1, ue_Date := date, ue_Peer := p, ue_MaxID := readMax, ue_StillUnreadCount := unread\<rparr>\<rparr>
                       in read_outbox ownerUserID date (latest_incoming ms p oldRead readMax) (s2, res2))"

definition GetOutboxReadDate :: "message_store \<Rightarrow> int \<Rightarrow> peer \<Rightarrow> int \<Rightarrow> message_error + int" where
  "GetOutboxReadDate s ownerUserID p i =
     (if ownerUserID = 0 \<or> peer_Type p \<noteq> PeerTypeUser \<or> peer_ID p = 0 \<or> i \<le> 0 \<or> i > MaxMessageBoxID then Inl ErrMessageIDInvalid
      else if find (\<lambda>m. msg_ID m = i \<and> msg_Peer m = p \<and> pm_Out m) (box s ownerUserID) = None then Inl ErrMessageIDInvalid
      else let date = ms_readOutboxDates s (ownerUserID, peer_ID p, i)
           in if date = 0 then Inl ErrMessageNotReadYet else Inr date)"

end
