(* ===== verification/Private_Run.thy ===== *)
theory Private_Run
  imports Private_Changes
begin

text \<open>
  The operations on private messages as data, sequences of them, and the effect of each on the boxes,
  dialogs and receipts, which the invariants are proved from.
\<close>

subsection \<open>Operations\<close>

text \<open>\<open>PmRecord\<close> is any other service writing to the same update log.\<close>

datatype pm_op =
    PmSend int quote_source send_request
  | PmRead int int peer int int
  | PmDelete int int "int list" bool int
  | PmClear int delete_history_request
  | PmRecord int update_event

datatype pm_answer =
    AnsSend "message_error + send_result"
  | AnsRead read_result
  | AnsDelete "message_error + delete_result"
  | AnsClear delete_result
  | AnsRecord "update_error + update_event"

type_synonym digest = "fingerprint_payload \<Rightarrow> 8 word list option"

fun pm_step :: "digest \<Rightarrow> pm_op \<Rightarrow> message_store \<Rightarrow> message_store \<times> pm_answer" where
  "pm_step digest (PmSend now quote req) s = map_prod id AnsSend (SendPrivateText digest now quote s req)"
| "pm_step digest (PmRead now owner p maxID date) s = map_prod id AnsRead (ReadHistory now s owner p maxID date)"
| "pm_step digest (PmDelete now owner ids revoke date) s = map_prod id AnsDelete (DeleteMessages now s owner ids revoke date)"
| "pm_step digest (PmClear now req) s = map_prod id AnsClear (DeleteHistory now s req)"
| "pm_step digest (PmRecord userID e) s =
     (case AppendAllocated (ms_updateEvents s) userID e of
        Inl err \<Rightarrow> (s, AnsRecord (Inl err))
      | Inr (ev, e') \<Rightarrow> (s\<lparr>ms_updateEvents := ev\<rparr>, AnsRecord (Inr e')))"

fun pm_run :: "digest \<Rightarrow> pm_op list \<Rightarrow> message_store \<Rightarrow> message_store \<times> pm_answer list" where
  "pm_run digest [] s = (s, [])"
| "pm_run digest (op # ops) s =
     (let (s1, a) = pm_step digest op s; (s2, as) = pm_run digest ops s1 in (s2, a # as))"

lemma pm_run_append:
  "pm_run digest (ops @ ops') s = (let (s1, as) = pm_run digest ops s; (s2, as') = pm_run digest ops' s1 in (s2, as @ as'))"
  by (induction ops arbitrary: s) (simp_all add: Let_def split_beta)

lemma pm_run_inv:
  assumes "\<And>op s. P s \<Longrightarrow> P (fst (pm_step digest op s))" "P s"
  shows "P (fst (pm_run digest ops s))"
  using assms(2) by (induction ops arbitrary: s) (simp_all add: Let_def split_beta assms(1))

subsection \<open>Boxes\<close>

lemma box_put [simp]: "box (put_box s u ms) v = (if v = u then ms else box s v)"
  by (simp add: box_def put_box_def update_conv')

lemma box_updates [simp]:
  "box (s\<lparr>ms_nextUID := a\<rparr>) u = box s u" "box (s\<lparr>ms_nextBox := b\<rparr>) u = box s u" "box (s\<lparr>ms_nextPts := b\<rparr>) u = box s u"
  "box (s\<lparr>ms_readOutboxDates := c\<rparr>) u = box s u" "box (s\<lparr>ms_savedMessageTags := d\<rparr>) u = box s u"
  "box (s\<lparr>ms_privateSendDedup := e\<rparr>) u = box s u" "box (s\<lparr>ms_dialogs := f\<rparr>) u = box s u" "box (s\<lparr>ms_updateEvents := g\<rparr>) u = box s u"
  by (simp_all add: box_def)

lemma put_box_fields [simp]:
  "ms_nextUID (put_box s u ms) = ms_nextUID s" "ms_nextBox (put_box s u ms) = ms_nextBox s" "ms_nextPts (put_box s u ms) = ms_nextPts s"
  "ms_readOutboxDates (put_box s u ms) = ms_readOutboxDates s" "ms_savedMessageTags (put_box s u ms) = ms_savedMessageTags s"
  "ms_privateSendDedup (put_box s u ms) = ms_privateSendDedup s" "ms_privateNoForwards (put_box s u ms) = ms_privateNoForwards s"
  "ms_dialogs (put_box s u ms) = ms_dialogs s" "ms_updateEvents (put_box s u ms) = ms_updateEvents s"
  by (simp_all add: put_box_def)

lemma put_box_m: "distinct (map fst (ms_m s)) \<Longrightarrow> distinct (map fst (ms_m (put_box s u ms)))"
  by (simp add: put_box_def distinct_update)

lemma find_dialog_updates [simp]:
  "find_dialog (s\<lparr>ms_nextUID := a\<rparr>) u p = find_dialog s u p" "find_dialog (s\<lparr>ms_nextBox := b\<rparr>) u p = find_dialog s u p"
  "find_dialog (s\<lparr>ms_nextPts := b\<rparr>) u p = find_dialog s u p" "find_dialog (s\<lparr>ms_readOutboxDates := c\<rparr>) u p = find_dialog s u p"
  "find_dialog (s\<lparr>ms_privateSendDedup := e\<rparr>) u p = find_dialog s u p" "find_dialog (s\<lparr>ms_updateEvents := g\<rparr>) u p = find_dialog s u p"
  "find_dialog (put_box s v ms) u p = find_dialog s u p"
  by (simp_all add: find_dialog_def)

lemma incoming_append [simp]: "incoming_after (xs @ ys) p k = incoming_after xs p k + incoming_after ys p k"
  by (simp add: incoming_after_def)

lemma incoming_one: "incoming_after [m] p k = of_bool (msg_Peer m = p \<and> \<not> pm_Out m \<and> msg_ID m > k)"
  by (simp add: incoming_after_def)

lemma incoming_nonneg [simp]: "0 \<le> incoming_after ms p k"
  by (simp add: incoming_after_def)

subsection \<open>Sending\<close>

text \<open>The dialogs change through \<open>upsertMemoryDialogsLocked\<close> only.\<close>

lemma upsert_fields [simp]:
  "ms_m (upsertMemoryDialogsLocked s a b) = ms_m s" "ms_nextUID (upsertMemoryDialogsLocked s a b) = ms_nextUID s"
  "ms_nextBox (upsertMemoryDialogsLocked s a b) = ms_nextBox s" "ms_nextPts (upsertMemoryDialogsLocked s a b) = ms_nextPts s"
  "ms_privateSendDedup (upsertMemoryDialogsLocked s a b) = ms_privateSendDedup s"
  "ms_updateEvents (upsertMemoryDialogsLocked s a b) = ms_updateEvents s"
  "ms_readOutboxDates (upsertMemoryDialogsLocked s a b) = ms_readOutboxDates s"
  by (simp_all add: upsertMemoryDialogsLocked_def Let_def)

lemma box_upsert [simp]: "box (upsertMemoryDialogsLocked s a b) u = box s u"
  by (simp add: box_def)

definition delivers :: "send_request \<Rightarrow> bool" where
  "delivers req \<longleftrightarrow> sp_SenderUserID req \<noteq> sp_RecipientUserID req \<and> \<not> sp_RecipientBlocked req"

lemma commit_boxes:
  "box (commit_send s req fp alloc sender recipient) v =
     (if v = sp_SenderUserID req then box s v @ [sender]
      else if v = sp_RecipientUserID req \<and> delivers req then box s v @ [recipient] else box s v)"
  by (simp add: commit_send_def Let_def split_beta delivers_def)

lemma commit_fields:
  "ms_nextUID (commit_send s req fp alloc sender recipient) = ms_nextUID s + 1"
  "ms_nextPts (commit_send s req fp alloc sender recipient) v = (case alloc v of None \<Rightarrow> ms_nextPts s v | Some p \<Rightarrow> p)"
  "ms_readOutboxDates (commit_send s req fp alloc sender recipient) = ms_readOutboxDates s"
  "ms_privateSendDedup (commit_send s req fp alloc sender recipient) =
     (if sp_RandomID req \<noteq> 0 then (ms_privateSendDedup s)((sp_SenderUserID req, sp_RandomID req) \<mapsto>
        \<lparr>dd_recipientUserID = sp_RecipientUserID req, dd_senderSnapshot = sender, dd_recipientMessage = immutablePrivateSendReceipt recipient,
         dd_fingerprint = fp, dd_senderDeleteEvent = None\<rparr>)
      else ms_privateSendDedup s)"
  by (simp_all add: commit_send_def Let_def split_beta split: option.split)

lemma commit_keys: "distinct (map fst (ms_m s)) \<Longrightarrow> distinct (map fst (ms_m (commit_send s req fp alloc sender recipient)))"
  by (simp add: commit_send_def Let_def split_beta put_box_def distinct_update)

text \<open>A send that is not a replay and not refused.\<close>

definition send_commits :: "message_store \<Rightarrow> send_request \<Rightarrow> 8 word list \<Rightarrow> message_reply option \<Rightarrow> message_reply option \<Rightarrow>
    private_message \<Rightarrow> private_message \<Rightarrow> (int \<Rightarrow> int option) \<Rightarrow> bool" where
  "send_commits s req fp senderReply recipientReply sender recipient alloc \<longleftrightarrow>
     sender = sender_copy s req senderReply (fresh_pts s Map.empty (sp_SenderUserID req)) \<and>
     recipient = (if sp_SenderUserID req = sp_RecipientUserID req then sender
        else if delivers req then recipient_copy s req sender recipientReply (fresh_pts s Map.empty (sp_RecipientUserID req)) else zero_message) \<and>
     alloc = (if delivers req then [sp_SenderUserID req \<mapsto> pm_Pts sender, sp_RecipientUserID req \<mapsto> pm_Pts recipient]
              else [sp_SenderUserID req \<mapsto> pm_Pts sender])"

lemma send_new_cases:
  assumes "send_new s req fp None a b = (s', ans)"
  obtains (refused) e where "s' = s" "ans = Inl e"
    | (new) sender recipient alloc where "send_commits s req fp a b sender recipient alloc"
        "sp_RandomID req \<noteq> 0 \<longrightarrow> EncodePrivateSendSnapshot sender = Inr sender"
        "s' = commit_send s req fp alloc sender recipient"
        "ans = Inr \<lparr>sd_SenderMessage = sender, sd_RecipientMessage = recipient, sd_SenderEvent = newMessageEvent sender,
                    sd_RecipientEvent = newMessageEvent recipient, sd_Duplicate = False, sd_ReplayDeleteEvent = None\<rparr>"
proof -
  define sender where "sender = sender_copy s req a (fresh_pts s Map.empty (sp_SenderUserID req))"
  define recipient where "recipient = (if sp_SenderUserID req = sp_RecipientUserID req then sender
    else if delivers req then recipient_copy s req sender b (fresh_pts s Map.empty (sp_RecipientUserID req)) else zero_message)"
  define alloc where "alloc = (if delivers req then [sp_SenderUserID req \<mapsto> pm_Pts sender, sp_RecipientUserID req \<mapsto> pm_Pts recipient]
          else [sp_SenderUserID req \<mapsto> pm_Pts sender])"
  have commits: "send_commits s req fp a b sender recipient alloc"
    by (simp add: send_commits_def sender_def recipient_def alloc_def)
  have pts: "pm_Pts sender = fresh_pts s Map.empty (sp_SenderUserID req)"
    "delivers req \<Longrightarrow> pm_Pts recipient = fresh_pts s Map.empty (sp_RecipientUserID req)"
    by (simp_all add: sender_def recipient_def sender_copy_def recipient_copy_def delivers_def Let_def)
  have other: "fresh_pts s [sp_SenderUserID req \<mapsto> x] (sp_RecipientUserID req) = fresh_pts s Map.empty (sp_RecipientUserID req)"
    if "delivers req" for x using that by (simp add: fresh_pts_def delivers_def)
  have alloc3: "(if sp_SenderUserID req \<noteq> sp_RecipientUserID req \<and> \<not> sp_RecipientBlocked req
       then [sp_SenderUserID req \<mapsto> fresh_pts s Map.empty (sp_SenderUserID req),
             sp_RecipientUserID req \<mapsto> fresh_pts s [sp_SenderUserID req \<mapsto> fresh_pts s Map.empty (sp_SenderUserID req)] (sp_RecipientUserID req)]
       else [sp_SenderUserID req \<mapsto> fresh_pts s Map.empty (sp_SenderUserID req)]) = alloc"
    using pts other unfolding alloc_def delivers_def by simp
  have recip: "(if sp_SenderUserID req = sp_RecipientUserID req then sender
       else if sp_SenderUserID req \<noteq> sp_RecipientUserID req \<and> \<not> sp_RecipientBlocked req
       then recipient_copy s req sender b (fresh_pts s [sp_SenderUserID req \<mapsto> fresh_pts s Map.empty (sp_SenderUserID req)] (sp_RecipientUserID req))
       else zero_message) = recipient"
    using other unfolding recipient_def delivers_def by simp
  have stage: "stage_prefix s [] = ([], Map.empty)" by (simp add: stage_prefix_def)
  have same: "s\<lparr>ms_updateEvents := append_all (ms_updateEvents s) req []\<rparr> = s" by (simp add: append_all_def)
  have run: "(s', ans) = (case (if sp_RandomID req \<noteq> 0 then EncodePrivateSendSnapshot sender else Inr sender) of
       Inl e \<Rightarrow> (s, Inl e)
     | Inr snapshot \<Rightarrow> (commit_send s req fp alloc sender recipient,
         Inr \<lparr>sd_SenderMessage = sender, sd_RecipientMessage = recipient, sd_SenderEvent = newMessageEvent sender,
              sd_RecipientEvent = newMessageEvent recipient, sd_Duplicate = False, sd_ReplayDeleteEvent = None\<rparr>))"
    unfolding assms [symmetric] send_new_def option.case stage prod.case Let_def sender_def [symmetric] recip alloc3 same by simp
  show ?thesis
  proof (cases "sp_RandomID req \<noteq> 0 \<and> (\<exists>e. EncodePrivateSendSnapshot sender = Inl e)")
    case True
    then have "s' = s \<and> (\<exists>e. ans = Inl e)" using run by auto
    then show ?thesis using refused by blast
  next
    case False
    then have enc: "sp_RandomID req \<noteq> 0 \<longrightarrow> EncodePrivateSendSnapshot sender = Inr sender"
      by (auto simp: EncodePrivateSendSnapshot_def)
    then show ?thesis using new [OF commits enc] run by (auto split: if_splits)
  qed
qed

definition dated :: "int \<Rightarrow> send_request \<Rightarrow> send_request" where
  "dated now req = (if sp_Date req = 0 then req\<lparr>sp_Date := now\<rparr> else req)"

definition replay_of :: "send_request \<Rightarrow> 8 word list \<Rightarrow> replay_request" where
  "replay_of req fp = \<lparr>rr_SenderUserID = sp_SenderUserID req, rr_RecipientUserID = sp_RecipientUserID req,
     rr_RandomID = sp_RandomID req, rr_IdempotencyFingerprint = fp\<rparr>"

lemma send_private_cases:
  assumes "SendPrivateText digest now quote s req = (s', ans)"
  obtains (refused) e where "s' = s" "ans = Inl e"
    | (replay) fp d where "s' = s" "ans = Inr d" "PrivateSendFingerprint digest req = Inr fp"
        "lookupPrivateSendReplayLocked s (replay_of req fp) = Inr (Some d)"
    | (new) fp a b sender recipient alloc where "PrivateSendFingerprint digest req = Inr fp"
        "lookupPrivateSendReplayLocked s (replay_of req fp) = Inr None"
        "resolveMemoryReplyLocked quote s (dated now req) = Inr (a, b)" "send_commits s (dated now req) fp a b sender recipient alloc"
        "sp_RandomID req \<noteq> 0 \<longrightarrow> EncodePrivateSendSnapshot sender = Inr sender"
        "s' = commit_send s (dated now req) fp alloc sender recipient"
        "ans = Inr \<lparr>sd_SenderMessage = sender, sd_RecipientMessage = recipient, sd_SenderEvent = newMessageEvent sender,
                    sd_RecipientEvent = newMessageEvent recipient, sd_Duplicate = False, sd_ReplayDeleteEvent = None\<rparr>"
proof (cases "HasContent req \<and> (\<exists>fp. PrivateSendFingerprint digest req = Inr fp)")
  case False
  then have "s' = s \<and> (\<exists>e. ans = Inl e)" using assms by (auto simp: SendPrivateText_def split: if_splits sum.splits)
  then show ?thesis using refused by blast
next
  case True
  then obtain fp where fp: "PrivateSendFingerprint digest req = Inr fp" by blast
  have run: "sendPrivateTextLocked now quote s req fp None = (s', ans)" using assms True fp by (simp add: SendPrivateText_def)
  note run = run [unfolded sendPrivateTextLocked_def, folded replay_of_def dated_def, unfolded Let_def]
  consider e where "lookupPrivateSendReplayLocked s (replay_of req fp) = Inl e"
    | d where "lookupPrivateSendReplayLocked s (replay_of req fp) = Inr (Some d)"
    | e where "lookupPrivateSendReplayLocked s (replay_of req fp) = Inr None" "resolveMemoryReplyLocked quote s (dated now req) = Inl e"
    | a b where "lookupPrivateSendReplayLocked s (replay_of req fp) = Inr None" "resolveMemoryReplyLocked quote s (dated now req) = Inr (a, b)"
    by (metis not_Some_eq sum.exhaust surj_pair)
  then show ?thesis
  proof cases
    case (1 e)
    then have "s' = s \<and> ans = Inl e" using run by auto
    then show ?thesis using refused by blast
  next
    case (2 d)
    then have "s' = s \<and> ans = Inr d" using run by auto
    then show ?thesis using replay fp 2 by blast
  next
    case (3 e)
    then have "s' = s \<and> ans = Inl e" using run by auto
    then show ?thesis using refused by blast
  next
    case (4 a b)
    then have "send_new s (dated now req) fp None a b = (s', ans)" using run by simp
    then show ?thesis
    proof (cases rule: send_new_cases)
      case (refused e)
      then show ?thesis using that(1) by blast
    next
      case (new sender recipient alloc)
      have "sp_RandomID (dated now req) = sp_RandomID req" by (simp add: dated_def)
      then show ?thesis using that(3) [OF fp 4 new(1)] new(2-4) by simp
    qed
  qed
qed

end
