(* ===== verification/Private_Boxes.thy ===== *)
theory Private_Boxes
  imports Private_Run
begin

text \<open>
  The message boxes: what reading and deleting leave of them, and the invariant that ids and the shared
  message ids increase along each box and that the two copies of a message name each other's owner.
\<close>

subsection \<open>Boxes that shrink\<close>

text \<open>A message keeps its place; its content may be cleared.\<close>

definition same_slot :: "private_message \<Rightarrow> private_message \<Rightarrow> bool" where
  "same_slot m m' \<longleftrightarrow> msg_ID m' = msg_ID m \<and> pm_UID m' = pm_UID m \<and> msg_Peer m' = msg_Peer m \<and>
     msg_OwnerUserID m' = msg_OwnerUserID m \<and> (m' = m \<or> pm_RandomID m' = 0 \<and> pm_Out m')"

definition shrinks :: "private_message list \<Rightarrow> private_message list \<Rightarrow> bool" where
  "shrinks ms ms' \<longleftrightarrow> (\<exists>P f. ms' = map f (filter P ms) \<and> (\<forall>m \<in> set ms. same_slot m (f m)))"

lemma same_slot_refl [simp]: "same_slot m m"
  by (simp add: same_slot_def)

lemma same_slot_trans: "same_slot a b \<Longrightarrow> same_slot b c \<Longrightarrow> same_slot a c"
  by (auto simp: same_slot_def)

lemma shrinks_refl [simp]: "shrinks ms ms"
proof -
  have "ms = map (\<lambda>m. m) (filter (\<lambda>m. True) ms) \<and> (\<forall>m \<in> set ms. same_slot m m)" by simp
  then show ?thesis unfolding shrinks_def by blast
qed

lemma shrinks_filter: "shrinks ms (filter P ms)"
proof -
  have "filter P ms = map (\<lambda>m. m) (filter P ms) \<and> (\<forall>m \<in> set ms. same_slot m m)" by simp
  then show ?thesis unfolding shrinks_def by blast
qed

lemma shrinks_trans:
  assumes "shrinks xs ys" "shrinks ys zs"
  shows "shrinks xs zs"
proof -
  obtain P f where f: "ys = map f (filter P xs)" "\<forall>m \<in> set xs. same_slot m (f m)" using assms(1) unfolding shrinks_def by blast
  obtain Q g where g: "zs = map g (filter Q ys)" "\<forall>m \<in> set ys. same_slot m (g m)" using assms(2) unfolding shrinks_def by blast
  let ?h = "\<lambda>m. if P m then g (f m) else m"
  have "zs = map ?h (filter (\<lambda>m. P m \<and> Q (f m)) xs)" unfolding g(1) f(1) by (simp add: filter_map comp_def conj_commute)
  moreover have "same_slot m (?h m)" if "m \<in> set xs" for m
    using that f(2) g(2) same_slot_trans [of m "f m" "g (f m)"] f(1) by auto
  ultimately show ?thesis unfolding shrinks_def by blast
qed

lemma shrinks_from: "shrinks xs ys \<Longrightarrow> y \<in> set ys \<Longrightarrow> \<exists>x \<in> set xs. same_slot x y"
  unfolding shrinks_def by fastforce

lemma shrinks_sorted:
  assumes "shrinks xs ys" and "\<And>a b. same_slot a b \<Longrightarrow> k b = k a" and "sorted_wrt (<) (map k xs)"
  shows "sorted_wrt (<) (map (k :: private_message \<Rightarrow> int) ys)"
proof -
  obtain P f where f: "ys = map f (filter P xs)" "\<forall>m \<in> set xs. same_slot m (f m)" using assms(1) unfolding shrinks_def by blast
  have "map k ys = map k (filter P xs)" using f assms(2) by auto
  then show ?thesis using assms(3) by (simp add: sorted_wrt_map sorted_wrt_filter)
qed

lemma replace_map:
  assumes "distinct (map msg_ID ms)"
  shows "replace_message m ms = map (\<lambda>x. if msg_ID x = msg_ID m \<and> msg_Peer x = msg_Peer m then m else x) ms"
  using assms
proof (induction ms)
  case Nil
  then show ?case by simp
next
  case (Cons x xs)
  have "map (\<lambda>x. if msg_ID x = msg_ID m \<and> msg_Peer x = msg_Peer m then m else x) xs = xs" if "msg_ID x = msg_ID m"
    by (rule map_idI) (use Cons.prems that in \<open>force simp: image_iff\<close>)
  then show ?case using Cons by auto
qed

lemma shrinks_replace:
  assumes "distinct (map msg_ID ms)" and "\<And>x. x \<in> set ms \<Longrightarrow> msg_ID x = msg_ID m \<Longrightarrow> msg_Peer x = msg_Peer m \<Longrightarrow> same_slot x m"
  shows "shrinks ms (replace_message m ms)"
proof -
  let ?f = "\<lambda>x. if msg_ID x = msg_ID m \<and> msg_Peer x = msg_Peer m then m else x"
  have "replace_message m ms = map ?f (filter (\<lambda>m. True) ms) \<and> (\<forall>x \<in> set ms. same_slot x (?f x))"
    using replace_map [OF assms(1)] assms(2) by simp
  then show ?thesis unfolding shrinks_def by blast
qed

lemma delete_loop_eq:
  assumes "distinct ms" "delete_loop match limit ms kept deleted more_left = (k, d, more')"
  obtains D where "D \<subseteq> {m \<in> set ms. match m}" "limit \<le> 0 \<longrightarrow> D = {m \<in> set ms. match m}"
    "k = kept @ filter (\<lambda>m. m \<notin> D) ms" "d = deleted @ filter (\<lambda>m. m \<in> D) ms"
  using assms
proof (induction ms arbitrary: kept deleted more_left thesis)
  case Nil
  then show ?case by simp
next
  case (Cons m ms)
  have notin: "m \<notin> set ms" and dist: "distinct ms" using Cons.prems(2) by simp_all
  show ?case
  proof (cases "match m \<and> \<not> (limit > 0 \<and> int (length deleted) \<ge> limit)")
    case True
    then have step: "delete_loop match limit ms kept (deleted @ [m]) more_left = (k, d, more')" using Cons.prems(3) by (simp split: if_splits)
    obtain D where D: "D \<subseteq> {m \<in> set ms. match m}" "limit \<le> 0 \<longrightarrow> D = {m \<in> set ms. match m}"
      "k = kept @ filter (\<lambda>m. m \<notin> D) ms" "d = (deleted @ [m]) @ filter (\<lambda>m. m \<in> D) ms"
      by (rule Cons.IH [OF _ dist step])
    have eq: "filter (\<lambda>x. x \<notin> insert m D) ms = filter (\<lambda>x. x \<notin> D) ms" "filter (\<lambda>x. x \<in> insert m D) ms = filter (\<lambda>x. x \<in> D) ms"
      using notin by (auto intro!: filter_cong)
    show ?thesis
    proof (rule Cons.prems(1) [of "insert m D"])
      show "insert m D \<subseteq> {x \<in> set (m # ms). match x}" using D(1) True by auto
      show "limit \<le> 0 \<longrightarrow> insert m D = {x \<in> set (m # ms). match x}" using D(2) True by auto
      show "k = kept @ filter (\<lambda>x. x \<notin> insert m D) (m # ms)" using D(3) eq(1) by simp
      show "d = deleted @ filter (\<lambda>x. x \<in> insert m D) (m # ms)" using D(4) eq(2) by simp
    qed
  next
    case False
    then have step: "delete_loop match limit ms (kept @ [m]) deleted (if match m then True else more_left) = (k, d, more')"
      using Cons.prems(3) by (cases "match m") simp_all
    obtain D where D: "D \<subseteq> {m \<in> set ms. match m}" "limit \<le> 0 \<longrightarrow> D = {m \<in> set ms. match m}"
      "k = (kept @ [m]) @ filter (\<lambda>m. m \<notin> D) ms" "d = deleted @ filter (\<lambda>m. m \<in> D) ms"
      by (rule Cons.IH [OF _ dist step])
    have m: "m \<notin> D" using D(1) notin by auto
    show ?thesis
    proof (rule Cons.prems(1) [of D])
      show "D \<subseteq> {x \<in> set (m # ms). match x}" using D(1) by auto
      show "limit \<le> 0 \<longrightarrow> D = {x \<in> set (m # ms). match x}" using D(2) False by auto
    qed (use D(3,4) m in simp_all)
  qed
qed

subsection \<open>What is left by the operations\<close>

definition ids_ok :: "message_store \<Rightarrow> bool" where
  "ids_ok s \<longleftrightarrow> distinct (map fst (ms_m s)) \<and> (\<forall>u. sorted_wrt (<) (map msg_ID (box s u)) \<and> (\<forall>m \<in> set (box s u). msg_OwnerUserID m = u))"

text \<open>Receipts stay, and a deletion that is recorded stays recorded.\<close>

definition receipts_kept :: "message_store \<Rightarrow> message_store \<Rightarrow> bool" where
  "receipts_kept s s' \<longleftrightarrow> (\<forall>k.
     (case ms_privateSendDedup s k of
        None \<Rightarrow> ms_privateSendDedup s' k = None
      | Some r \<Rightarrow> \<exists>e. ms_privateSendDedup s' k = Some (r\<lparr>dd_senderDeleteEvent := e\<rparr>) \<and> (dd_senderDeleteEvent r \<noteq> None \<longrightarrow> e \<noteq> None)))"

definition leaves :: "message_store \<Rightarrow> message_store \<Rightarrow> bool" where
  "leaves s s' \<longleftrightarrow> ms_nextUID s' = ms_nextUID s \<and> ms_nextBox s' = ms_nextBox s \<and> (distinct (map fst (ms_m s)) \<longrightarrow> distinct (map fst (ms_m s'))) \<and>
     (\<forall>u. shrinks (box s u) (box s' u)) \<and> receipts_kept s s'"

lemma receipts_eq:
  assumes "ms_privateSendDedup s' = ms_privateSendDedup s" shows "receipts_kept s s'"
  unfolding receipts_kept_def assms
proof
  fix k show "case ms_privateSendDedup s k of None \<Rightarrow> ms_privateSendDedup s k = None
      | Some r \<Rightarrow> \<exists>e. ms_privateSendDedup s k = Some (r\<lparr>dd_senderDeleteEvent := e\<rparr>) \<and> (dd_senderDeleteEvent r \<noteq> None \<longrightarrow> e \<noteq> None)"
  proof (cases "ms_privateSendDedup s k")
    case (Some r)
    then show ?thesis by (simp, intro exI [of _ "dd_senderDeleteEvent r"]) simp
  qed simp
qed

lemma receipts_refl [simp]: "receipts_kept s s"
  by (simp add: receipts_eq)

lemma receipts_trans: "receipts_kept a b \<Longrightarrow> receipts_kept b c \<Longrightarrow> receipts_kept a c"
  unfolding receipts_kept_def
proof
  fix k
  assume ab: "\<forall>k. case ms_privateSendDedup a k of None \<Rightarrow> ms_privateSendDedup b k = None
      | Some r \<Rightarrow> \<exists>e. ms_privateSendDedup b k = Some (r\<lparr>dd_senderDeleteEvent := e\<rparr>) \<and> (dd_senderDeleteEvent r \<noteq> None \<longrightarrow> e \<noteq> None)"
    and bc: "\<forall>k. case ms_privateSendDedup b k of None \<Rightarrow> ms_privateSendDedup c k = None
      | Some r \<Rightarrow> \<exists>e. ms_privateSendDedup c k = Some (r\<lparr>dd_senderDeleteEvent := e\<rparr>) \<and> (dd_senderDeleteEvent r \<noteq> None \<longrightarrow> e \<noteq> None)"
  show "case ms_privateSendDedup a k of None \<Rightarrow> ms_privateSendDedup c k = None
      | Some r \<Rightarrow> \<exists>e. ms_privateSendDedup c k = Some (r\<lparr>dd_senderDeleteEvent := e\<rparr>) \<and> (dd_senderDeleteEvent r \<noteq> None \<longrightarrow> e \<noteq> None)"
    using spec [OF ab, of k] spec [OF bc, of k] by (auto split: option.splits)
qed

lemma leaves_refl [simp]: "leaves s s"
  by (simp add: leaves_def)

lemma leaves_trans: "leaves a b \<Longrightarrow> leaves b c \<Longrightarrow> leaves a c"
  unfolding leaves_def by (metis shrinks_trans receipts_trans)

lemma leaves_ids:
  assumes "leaves s s'" "ids_ok s"
  shows "ids_ok s'"
  unfolding ids_ok_def
proof (intro conjI allI ballI)
  show "distinct (map fst (ms_m s'))" using assms by (simp add: leaves_def ids_ok_def)
  fix u
  have sh: "shrinks (box s u) (box s' u)" using assms(1) by (simp add: leaves_def)
  then show "sorted_wrt (<) (map msg_ID (box s' u))"
    by (rule shrinks_sorted) (use assms(2) in \<open>simp_all add: ids_ok_def same_slot_def\<close>)
  fix m assume "m \<in> set (box s' u)"
  then show "msg_OwnerUserID m = u" using shrinks_from [OF sh] assms(2) by (auto simp: ids_ok_def same_slot_def)
qed

lemma ids_distinct: "ids_ok s \<Longrightarrow> distinct (map msg_ID (box s u))"
  by (simp add: ids_ok_def strict_sorted_iff)

text \<open>A change of the other fields leaves everything.\<close>

lemma leaves_same:
  assumes "ms_m s' = ms_m s" "ms_nextUID s' = ms_nextUID s" "ms_nextBox s' = ms_nextBox s" "ms_privateSendDedup s' = ms_privateSendDedup s"
  shows "leaves s s'"
proof -
  have "box s' u = box s u" for u using assms(1) by (simp add: box_def)
  moreover have "receipts_kept s s'" using assms(4) by (rule receipts_eq)
  ultimately show ?thesis using assms by (simp add: leaves_def)
qed

lemma leaves_put:
  assumes "shrinks (box s u) ms"
  shows "leaves s (put_box s u ms)"
proof -
  have "receipts_kept s (put_box s u ms)" by (rule receipts_eq) simp
  then show ?thesis using assms by (simp add: leaves_def put_box_m)
qed

lemma delete_step:
  assumes ids: "ids_ok s" and run: "deleteMemoryMessagesLocked s u limit match = (s', del, uids, more')"
  obtains D where "D \<subseteq> {m \<in> set (box s u). match m}" "limit \<le> 0 \<longrightarrow> D = {m \<in> set (box s u). match m}"
    "s' = put_box s u (filter (\<lambda>m. m \<notin> D) (box s u))" "del = map (deleted_row u) (filter (\<lambda>m. m \<in> D) (box s u))"
    "uids = filter (\<lambda>uid. uid \<noteq> 0) (map pm_UID (filter (\<lambda>m. m \<in> D) (box s u)))"
proof -
  obtain k d b where loop: "delete_loop match limit (box s u) [] [] False = (k, d, b)" by (cases "delete_loop match limit (box s u) [] [] False")
  have dist: "distinct (box s u)" using ids_distinct [OF ids] by (simp add: distinct_map)
  obtain D where D: "D \<subseteq> {m \<in> set (box s u). match m}" "limit \<le> 0 \<longrightarrow> D = {m \<in> set (box s u). match m}"
    "k = [] @ filter (\<lambda>m. m \<notin> D) (box s u)" "d = [] @ filter (\<lambda>m. m \<in> D) (box s u)"
    by (rule delete_loop_eq [OF dist loop])
  show ?thesis by (rule that [OF D(1,2)]) (use run D(3,4) loop in \<open>simp_all add: deleteMemoryMessagesLocked_def\<close>)
qed

lemma map_of_map_pair: "map_of (map (\<lambda>(u, ms). (u, f u ms)) xs) v = map_option (f v) (map_of xs v)"
  by (induction xs) auto

lemma delete_by_uid:
  assumes "deleteMemoryMessagesByUIDLocked s uids excl = (s', del)" "distinct (map fst (ms_m s))"
  shows "box s' v = (if v = excl then box s v else filter (\<lambda>m. pm_UID m \<notin> set uids) (box s v))"
    and "filter (\<lambda>d. dm_userID d = v) del = (if v = excl then [] else map (deleted_row v) (filter (\<lambda>m. pm_UID m \<in> set uids) (box s v)))"
    and "leaves s s'"
proof -
  have b: "box s' v = (if v = excl then box s v else filter (\<lambda>m. pm_UID m \<notin> set uids) (box s v))" for v
    using assms(1) map_of_map_pair [of "\<lambda>u ms. if u = excl then ms else filter (\<lambda>m. pm_UID m \<notin> set uids) ms" "ms_m s" v]
    by (auto simp: deleteMemoryMessagesByUIDLocked_def box_def split: if_splits option.splits)
  show "box s' v = (if v = excl then box s v else filter (\<lambda>m. pm_UID m \<notin> set uids) (box s v))" by (rule b)
  have rows: "filter (\<lambda>d. dm_userID d = v) (concat (map (\<lambda>(u, ms). if u = excl then []
       else map (deleted_row u) (filter (\<lambda>m. pm_UID m \<in> set uids) ms)) xs)) =
     (if v = excl then [] else map (deleted_row v) (filter (\<lambda>m. pm_UID m \<in> set uids) (case map_of xs v of None \<Rightarrow> [] | Some ms \<Rightarrow> ms)))"
    if "distinct (map fst xs)" for xs
    using that
  proof (induction xs)
    case Nil
    then show ?case by simp
  next
    case (Cons x xs)
    obtain u ms where x: "x = (u, ms)" by (cases x)
    have own: "filter (\<lambda>d. dm_userID d = v) (map (deleted_row u) ys) = (if u = v then map (deleted_row u) ys else [])" for ys
      by (induction ys) (simp_all add: deleted_row_def)
    have "map_of xs v = None" if "u = v" using Cons.prems x that by (auto simp: map_of_eq_None_iff)
    then show ?case using Cons x own by auto
  qed
  show "filter (\<lambda>d. dm_userID d = v) del = (if v = excl then [] else map (deleted_row v) (filter (\<lambda>m. pm_UID m \<in> set uids) (box s v)))"
    using assms rows [OF assms(2)] by (auto simp: deleteMemoryMessagesByUIDLocked_def box_def split: if_splits)
  have "map fst (ms_m s') = map fst (ms_m s)" using assms(1) by (auto simp: deleteMemoryMessagesByUIDLocked_def split: if_splits)
  moreover have "receipts_kept s s'"
    using assms(1) by (intro receipts_eq) (auto simp: deleteMemoryMessagesByUIDLocked_def split: if_splits)
  moreover have "ms_nextUID s' = ms_nextUID s" "ms_nextBox s' = ms_nextBox s"
    using assms(1) by (auto simp: deleteMemoryMessagesByUIDLocked_def split: if_splits)
  ultimately show "leaves s s'" using b assms(2) by (simp add: leaves_def shrinks_filter)
qed

end
