(* ===== verification/Private_Mailbox.thy ===== *)
theory Private_Mailbox
  imports Private_Boxes
begin

text \<open>
  Reading and deleting leave the boxes in order, and the invariant of the boxes and receipts that every
  operation keeps.
\<close>

subsection \<open>The parts of a deletion\<close>

lemma drop_tags_leaves: "leaves s (drop_tags deleted s)"
proof -
  have "ms_m (drop_tags deleted s) = ms_m s \<and> ms_nextUID (drop_tags deleted s) = ms_nextUID s \<and> ms_nextBox (drop_tags deleted s) = ms_nextBox s \<and>
      ms_privateSendDedup (drop_tags deleted s) = ms_privateSendDedup s"
    unfolding drop_tags_def by (induction deleted arbitrary: s) auto
  then show ?thesis by (simp add: leaves_same)
qed

lemma receipt_leaves: "leaves s (delete_receipt u e d s)"
proof -
  have "receipts_kept s (delete_receipt u e d s)"
    unfolding receipts_kept_def
  proof
    fix k
    have same: "case ms_privateSendDedup s k of None \<Rightarrow> ms_privateSendDedup s k = None
        | Some r \<Rightarrow> \<exists>e. ms_privateSendDedup s k = Some (r\<lparr>dd_senderDeleteEvent := e\<rparr>) \<and> (dd_senderDeleteEvent r \<noteq> None \<longrightarrow> e \<noteq> None)"
      using receipts_refl [of s] unfolding receipts_kept_def by blast
    show "case ms_privateSendDedup s k of None \<Rightarrow> ms_privateSendDedup (delete_receipt u e d s) k = None
        | Some r \<Rightarrow> \<exists>e'. ms_privateSendDedup (delete_receipt u e d s) k = Some (r\<lparr>dd_senderDeleteEvent := e'\<rparr>) \<and>
            (dd_senderDeleteEvent r \<noteq> None \<longrightarrow> e' \<noteq> None)"
    proof (cases "ms_privateSendDedup (delete_receipt u e d s) k = ms_privateSendDedup s k")
      case True
      from same show ?thesis unfolding True .
    next
      case False
      then obtain r where "ms_privateSendDedup s k = Some r" "ms_privateSendDedup (delete_receipt u e d s) k = Some (r\<lparr>dd_senderDeleteEvent := Some e\<rparr>)"
        by (auto simp: delete_receipt_def split: if_splits option.splits)
      then show ?thesis by auto
    qed
  qed
  moreover have "ms_m (delete_receipt u e d s) = ms_m s" "ms_nextUID (delete_receipt u e d s) = ms_nextUID s"
    "ms_nextBox (delete_receipt u e d s) = ms_nextBox s"
    by (auto simp: delete_receipt_def split: option.splits)
  ultimately show ?thesis by (simp add: leaves_def box_def)
qed

lemma receipts_fold_leaves: "leaves s (fold (delete_receipt u e) deleted s)"
proof (induction deleted arbitrary: s)
  case Nil
  then show ?case by simp
next
  case (Cons d deleted)
  then show ?case using leaves_trans [OF receipt_leaves [of s u e d]] by simp
qed

lemma receipts_fold_box: "box (fold (delete_receipt u e) deleted s) v = box s v"
proof (induction deleted arbitrary: s)
  case (Cons d deleted)
  have "box (delete_receipt u e d s) v = box s v" by (auto simp: delete_receipt_def split: option.splits)
  then show ?case using Cons by simp
qed simp

lemma rebuild_fields [simp]:
  "ms_m (rebuildMemoryDialogLocked u p s) = ms_m s" "ms_nextUID (rebuildMemoryDialogLocked u p s) = ms_nextUID s"
  "ms_nextBox (rebuildMemoryDialogLocked u p s) = ms_nextBox s" "ms_privateSendDedup (rebuildMemoryDialogLocked u p s) = ms_privateSendDedup s"
  "box (rebuildMemoryDialogLocked u p s) v = box s v"
  by (simp_all add: rebuildMemoryDialogLocked_def Let_def)

lemma rebuild_fold_fields:
  "ms_m (fold (rebuildMemoryDialogLocked u) ps s) = ms_m s \<and> ms_nextUID (fold (rebuildMemoryDialogLocked u) ps s) = ms_nextUID s \<and>
   ms_nextBox (fold (rebuildMemoryDialogLocked u) ps s) = ms_nextBox s \<and>
   ms_privateSendDedup (fold (rebuildMemoryDialogLocked u) ps s) = ms_privateSendDedup s"
  by (induction ps arbitrary: s) simp_all

lemma refresh_leaves: "leaves s (refresh_dialogs u ps cleared s)"
  using rebuild_fold_fields [of u ps s]
  by (intro leaves_same) (auto simp: refresh_dialogs_def advanceMemoryHistoryClearDialogLocked_def Let_def split: option.splits)

lemma refresh_box [simp]: "box (refresh_dialogs u ps cleared s) v = box s v"
  using rebuild_fold_fields [of u ps s]
  by (auto simp: box_def refresh_dialogs_def advanceMemoryHistoryClearDialogLocked_def Let_def split: option.splits)

lemma next_pts_leaves: "nextPtsNLocked s u n = (s', pts) \<Longrightarrow> leaves s s'"
  by (rule leaves_same) (auto simp: nextPtsNLocked_def Let_def)

subsection \<open>Clearing the anchor\<close>

definition anchors_fit :: "(int \<times> clear_anchor) list \<Rightarrow> message_store \<Rightarrow> bool" where
  "anchors_fit anchors s \<longleftrightarrow> (\<forall>u a. map_of anchors u = Some a \<longrightarrow>
     (\<forall>x \<in> set (box s u). msg_ID x = msg_ID (ca_message a) \<longrightarrow> pm_UID x = pm_UID (ca_message a)))"

lemma anchors_fit_leaves:
  assumes "anchors_fit anchors s" "leaves s s'"
  shows "anchors_fit anchors s'"
  unfolding anchors_fit_def
proof (intro allI impI ballI)
  fix u a x
  assume a: "map_of anchors u = Some a" and x: "x \<in> set (box s' u)" and id: "msg_ID x = msg_ID (ca_message a)"
  have "shrinks (box s u) (box s' u)" using assms(2) by (simp add: leaves_def)
  then obtain y where "y \<in> set (box s u)" "same_slot y x" using shrinks_from x by blast
  then show "pm_UID x = pm_UID (ca_message a)" using assms(1) a id by (auto simp: anchors_fit_def same_slot_def)
qed

lemma materialize_leaves:
  assumes ids: "ids_ok s" and fit: "\<And>x. x \<in> set (box s u) \<Longrightarrow> msg_ID x = msg_ID m \<Longrightarrow> pm_UID x = pm_UID m"
  shows "leaves s (fst (materialize_anchor u date cursor m (s, item)))"
proof -
  let ?msg = "NewHistoryClearMessage u (msg_Peer m) (msg_ID m) (pm_UID m) (msg_Date m) (cursor + 1 + 1)"
  let ?s = "put_box s u (replace_message ?msg (box s u))"
  have "shrinks (box s u) (replace_message ?msg (box s u))"
  proof (rule shrinks_replace [OF ids_distinct [OF ids]])
    fix x assume x: "x \<in> set (box s u)" "msg_ID x = msg_ID ?msg" "msg_Peer x = msg_Peer ?msg"
    have "msg_OwnerUserID x = u" using ids x(1) by (simp add: ids_ok_def)
    then show "same_slot x ?msg" using x fit [of x] by (simp add: same_slot_def NewHistoryClearMessage_def zero_message_def)
  qed
  then have "leaves s ?s" by (rule leaves_put)
  moreover have "leaves ?s (?s\<lparr>ms_savedMessageTags := (ms_savedMessageTags ?s)((u, msg_ID m) := None)\<rparr>)" by (rule leaves_same) simp_all
  ultimately have "leaves s (?s\<lparr>ms_savedMessageTags := (ms_savedMessageTags ?s)((u, msg_ID m) := None)\<rparr>)" by (rule leaves_trans)
  then show ?thesis by (simp add: materialize_anchor_def Let_def)
qed

lemma finish_owner_leaves:
  assumes ids: "ids_ok s" and fit: "anchors_fit anchors s"
  shows "leaves s (fst (finish_owner deleted anchors date u (s, items)))"
proof -
  let ?rows = "filter (\<lambda>d. dm_userID d = u) deleted"
  define mids where "mids = normalizeMemoryMessageIDs (map dm_id ?rows)"
  define cleared where "cleared = (case map_of anchors u of None \<Rightarrow> None | Some a \<Rightarrow> if ca_materialized a then None else Some (ca_message a))"
  define total where "total = int (length mids) + (if cleared \<noteq> None then 2 else 0)"
  obtain s1 pts where p: "nextPtsNLocked s u total = (s1, pts)" by (cases "nextPtsNLocked s u total")
  define event where "event = zero_event\<lparr>ue_UserID := u, ue_Type := UpdateEventDeleteMessages, ue_Pts := pts - total + int (length mids),
      ue_PtsCount := int (length mids), ue_Date := date, ue_MessageIDs := mids\<rparr>"
  define s2 where "s2 = (if mids \<noteq> [] then fold (delete_receipt u event) deleted s1 else s1)"
  define item where "item = \<lparr>du_UserID = u, du_MessageIDs = mids, du_Event = (if mids \<noteq> [] then event else zero_event),
      du_Events = (if mids \<noteq> [] then [event] else []), du_Pts = pts, du_PtsCount = total\<rparr>"
  define s3 where "s3 = fst (case cleared of None \<Rightarrow> (s2, item)
      | Some m \<Rightarrow> materialize_anchor u date (pts - total + int (length mids)) m (s2, item))"
  have eq: "fst (finish_owner deleted anchors date u (s, items)) = (if total = 0 then s else
      refresh_dialogs u (remdups (map dm_peer ?rows @ (case map_of anchors u of None \<Rightarrow> [] | Some a \<Rightarrow> [msg_Peer (ca_message a)]))) cleared s3)"
    unfolding finish_owner_def prod.case Let_def mids_def [symmetric] cleared_def [symmetric] total_def [symmetric] p
      event_def [symmetric] s2_def [symmetric] item_def [symmetric] by (simp add: s3_def split_beta)
  have l1: "leaves s s1" by (rule next_pts_leaves [OF p])
  have "leaves s1 s2" by (simp add: s2_def receipts_fold_leaves)
  with l1 have l2: "leaves s s2" by (rule leaves_trans)
  have "leaves s2 s3"
  proof (cases cleared)
    case None
    then show ?thesis by (simp add: s3_def)
  next
    case (Some m)
    then obtain a where a: "map_of anchors u = Some a" "m = ca_message a" by (auto simp: cleared_def split: option.splits if_splits)
    have fit2: "anchors_fit anchors s2" by (rule anchors_fit_leaves [OF fit l2])
    have "leaves s2 (fst (materialize_anchor u date (pts - total + int (length mids)) m (s2, item)))"
      by (rule materialize_leaves [OF leaves_ids [OF l2 ids]]) (use fit2 a in \<open>auto simp: anchors_fit_def\<close>)
    then show ?thesis by (simp add: s3_def Some)
  qed
  with l2 have "leaves s s3" by (rule leaves_trans)
  then have "leaves s (refresh_dialogs u ps cleared s3)" for ps using refresh_leaves leaves_trans by blast
  then show ?thesis unfolding eq by simp
qed

lemma finish_fold_leaves:
  assumes "ids_ok s" "anchors_fit anchors s"
  shows "leaves s (fst (fold (finish_owner deleted anchors date) us (s, items)))"
  using assms
proof (induction us arbitrary: s items)
  case Nil
  then show ?case by simp
next
  case (Cons u us)
  obtain s1 items1 where f: "finish_owner deleted anchors date u (s, items) = (s1, items1)"
    by (cases "finish_owner deleted anchors date u (s, items)")
  have l: "leaves s s1" using finish_owner_leaves [OF Cons.prems, of deleted date u items] f by simp
  have "leaves s1 (fst (fold (finish_owner deleted anchors date) us (s1, items1)))"
    by (rule Cons.IH [OF leaves_ids [OF l Cons.prems(1)] anchors_fit_leaves [OF Cons.prems(2) l]])
  then show ?case using leaves_trans [OF l] f by simp
qed

lemma finish_leaves:
  assumes "ids_ok s" "anchors_fit anchors s"
  shows "leaves s (fst (finishMemoryDeleteLocked s res deleted date anchors))"
proof -
  let ?t = "drop_tags deleted s"
  have l: "leaves s ?t" by (rule drop_tags_leaves)
  have "leaves ?t (fst (fold (finish_owner deleted anchors date) us (?t, [])))" for us
    by (rule finish_fold_leaves [OF leaves_ids [OF l assms(1)] anchors_fit_leaves [OF assms(2) l]])
  then have "leaves s (fst (fold (finish_owner deleted anchors date) us (?t, [])))" for us using leaves_trans [OF l] by blast
  then show ?thesis by (simp add: finishMemoryDeleteLocked_def Let_def split_beta)
qed

subsection \<open>The operations\<close>

lemma top_message_props:
  "(top_message ms p = zero_message \<or> top_message ms p \<in> set ms \<and> msg_Peer (top_message ms p) = p \<and> 0 < msg_ID (top_message ms p)) \<and>
   (\<forall>m \<in> set ms. msg_Peer m = p \<longrightarrow> msg_ID m \<le> msg_ID (top_message ms p)) \<and> 0 \<le> msg_ID (top_message ms p)"
proof (induction ms rule: rev_induct)
  case Nil
  then show ?case by (simp add: top_message_def zero_message_def)
next
  case (snoc m ms)
  have "top_message (ms @ [m]) p = (if msg_Peer m = p \<and> msg_ID m > msg_ID (top_message ms p) then m else top_message ms p)"
    by (simp add: top_message_def)
  then show ?case using snoc by auto
qed

lemma same_id:
  assumes "ids_ok s" "x \<in> set (box s u)" "y \<in> set (box s u)" "msg_ID x = msg_ID y"
  shows "x = y"
  using ids_distinct [OF assms(1), of u] assms(2-4) by (auto simp: distinct_map dest: inj_onD)

lemma anchor_fits:
  assumes "ids_ok s" "memoryHistoryClearAnchorLocked s u p = Some a"
  shows "\<forall>x \<in> set (box s u). msg_ID x = msg_ID (ca_message a) \<longrightarrow> pm_UID x = pm_UID (ca_message a)"
    and "ca_message a \<in> set (box s u)" "msg_Peer (ca_message a) = p"
proof -
  have a: "ca_message a = top_message (box s u) p" "msg_ID (top_message (box s u) p) \<noteq> 0"
    using assms(2) by (auto simp: memoryHistoryClearAnchorLocked_def Let_def split: if_splits)
  then have "top_message (box s u) p \<noteq> zero_message" by (auto simp: zero_message_def)
  then show in_box: "ca_message a \<in> set (box s u)" "msg_Peer (ca_message a) = p" using top_message_props [of "box s u" p] a by auto
  then show "\<forall>x \<in> set (box s u). msg_ID x = msg_ID (ca_message a) \<longrightarrow> pm_UID x = pm_UID (ca_message a)"
    using same_id [OF assms(1)] by metis
qed

lemma delete_locked_leaves:
  assumes "ids_ok s" "deleteMemoryMessagesLocked s u limit match = (s', del, uids, more')"
  shows "leaves s s'"
  by (rule delete_step [OF assms]) (simp add: leaves_put shrinks_filter)

lemma delete_messages_leaves:
  assumes ids: "ids_ok s"
  shows "leaves s (fst (DeleteMessages now s owner rawIDs revoke date0))"
proof -
  let ?ids = "normalizeMemoryMessageIDs rawIDs"
  obtain s1 deleted uids more1 where d: "deleteMemoryMessagesLocked s owner 0 (\<lambda>m. msg_ID m \<in> set ?ids) = (s1, deleted, uids, more1)"
    by (rule prod_cases4)
  obtain s2 others where r: "(if revoke \<and> uids \<noteq> [] then deleteMemoryMessagesByUIDLocked s1 uids owner else (s1, [])) = (s2, others)"
    by (rule prod.exhaust)
  have l1: "leaves s s1" by (rule delete_locked_leaves [OF ids d])
  have keys: "distinct (map fst (ms_m s1))" using leaves_ids [OF l1 ids] by (simp add: ids_ok_def)
  have "leaves s1 s2" using r delete_by_uid(3) [OF _ keys, of uids owner s2 others] by (auto split: if_splits)
  with l1 have l2: "leaves s s2" by (rule leaves_trans)
  have "leaves s2 (fst (finishMemoryDeleteLocked s2 res dd date []))" for res dd date
    by (rule finish_leaves [OF leaves_ids [OF l2 ids]]) (simp add: anchors_fit_def)
  then have "leaves s (fst (finishMemoryDeleteLocked s2 res dd date []))" for res dd date using leaves_trans [OF l2] by blast
  then show ?thesis unfolding DeleteMessages_def Let_def d prod.case r by (simp add: split_beta)
qed

text \<open>
  The phases of \<^verbatim>\<open>DeleteHistory\<close>: the messages of the owner, their other copies, the messages of the peer, and the
  end. An anchor is the newest message with the peer, is not matched, and excludes the second phase.
\<close>

definition not_anchor :: "(int \<times> clear_anchor) list \<Rightarrow> int \<Rightarrow> private_message \<Rightarrow> bool" where
  "not_anchor anchors u m \<longleftrightarrow> (case map_of anchors u of None \<Rightarrow> True | Some a \<Rightarrow> msg_ID m \<noteq> msg_ID (ca_message a))"

lemma delete_history_phases:
  assumes "dh_OwnerUserID req \<noteq> 0" "peer_ID (dh_Peer req) \<noteq> 0"
  obtains anchors match1 match2 s1 deleted uids more1 s2 byUID s3 byPeer res date where
    "deleteMemoryMessagesLocked s (dh_OwnerUserID req) MaxDeleteHistoryBatch match1 = (s1, deleted, uids, more1)"
    "s2 = s1 \<and> byUID = [] \<or> deleteMemoryMessagesByUIDLocked s1 uids (dh_OwnerUserID req) = (s2, byUID) \<and> anchors = []"
    "s3 = s2 \<and> byPeer = [] \<or>
       (\<exists>uids' more'. deleteMemoryMessagesLocked s2 (peer_ID (dh_Peer req)) MaxDeleteHistoryBatch match2 = (s3, byPeer, uids', more'))"
    "fst (DeleteHistory now s req) = fst (finishMemoryDeleteLocked s3 res (deleted @ byUID @ byPeer) date anchors)"
    "\<And>u a. map_of anchors u = Some a \<Longrightarrow> dh_JustClear req \<and> (\<exists>q. memoryHistoryClearAnchorLocked s u q = Some a)"
    "\<And>m. match1 m \<Longrightarrow> not_anchor anchors (dh_OwnerUserID req) m" "\<And>m. match2 m \<Longrightarrow> not_anchor anchors (peer_ID (dh_Peer req)) m"
proof -
  define owner p where op: "owner = dh_OwnerUserID req" "p = dh_Peer req"
  define date where "date = (if dh_Date req = 0 then now else dh_Date req)"
  define dates where "dates = (\<lambda>m :: private_message. \<not> (dh_MinDate req > 0 \<and> msg_Date m < dh_MinDate req) \<and> \<not> (dh_MaxDate req > 0 \<and> msg_Date m > dh_MaxDate req))"
  define full where "full = (dh_JustClear req \<and> dh_MaxID req \<le> 0 \<and> dh_MinDate req \<le> 0 \<and> dh_MaxDate req \<le> 0)"
  define own where "own = (if full then memoryHistoryClearAnchorLocked s owner p else None)"
  define other where "other = (if full \<and> dh_Revoke req \<and> peer_ID p \<noteq> owner then memoryHistoryClearAnchorLocked s (peer_ID p) (user_peer owner) else None)"
  define anchors where "anchors = (case own of None \<Rightarrow> [] | Some a \<Rightarrow> [(owner, a)]) @ (case other of None \<Rightarrow> [] | Some a \<Rightarrow> [(peer_ID p, a)])"
  define kept where "kept = (\<lambda>u (m :: private_message). case map_of anchors u of None \<Rightarrow> False | Some a \<Rightarrow> msg_ID m = msg_ID (ca_message a))"
  define match1 where "match1 = (\<lambda>m. \<not> kept owner m \<and> msg_Peer m = p \<and> (dh_MaxID req \<le> 0 \<or> msg_ID m \<le> dh_MaxID req) \<and> dates m)"
  define match2 where "match2 = (\<lambda>m. \<not> kept (peer_ID p) m \<and> msg_Peer m = user_peer owner \<and> dates m)"
  obtain s1 deleted uids more1 where d: "deleteMemoryMessagesLocked s owner MaxDeleteHistoryBatch match1 = (s1, deleted, uids, more1)"
    by (rule prod_cases4)
  obtain s2 byUID where r: "(if dh_Revoke req \<and> dh_MaxID req > 0 \<and> uids \<noteq> [] then deleteMemoryMessagesByUIDLocked s1 uids owner else (s1, [])) = (s2, byUID)"
    by (rule prod.exhaust)
  obtain s' d' uids' more' where e: "deleteMemoryMessagesLocked s2 (peer_ID p) MaxDeleteHistoryBatch match2 = (s', d', uids', more')"
    by (rule prod_cases4)
  define t where "t = (if dh_Revoke req \<and> dh_MaxID req \<le> 0 \<and> peer_ID p \<noteq> owner then (s', d', more') else (s2, [], False))"
  have own_or_other: "own = Some a \<and> u = owner \<or> other = Some a \<and> u = peer_ID p" if "map_of anchors u = Some a" for u a
    using that unfolding anchors_def by (cases own; cases other) (auto split: if_splits)
  have full: "full" if "anchors \<noteq> []" using that unfolding anchors_def own_def other_def by (auto split: if_splits)
  have "fst (DeleteHistory now s req) = fst (finishMemoryDeleteLocked (fst t)
      \<lparr>dr_OwnerUserID = owner, dr_Deleted = [], dr_Offset = 0\<rparr> (deleted @ byUID @ fst (snd t)) date anchors)"
    unfolding DeleteHistory_def Let_def op [symmetric] date_def [symmetric] dates_def [symmetric] full_def [symmetric] own_def [symmetric]
      other_def [symmetric] anchors_def [symmetric] d [unfolded match1_def kept_def] prod.case r e [unfolded match2_def kept_def] t_def [symmetric]
    using assms by (simp add: op [symmetric] split_beta)
  moreover have "s2 = s1 \<and> byUID = [] \<or> deleteMemoryMessagesByUIDLocked s1 uids owner = (s2, byUID) \<and> anchors = []"
    using r full unfolding full_def by (cases "anchors = []") (auto split: if_splits)
  moreover have "fst t = s2 \<and> fst (snd t) = [] \<or>
      (\<exists>uids' more'. deleteMemoryMessagesLocked s2 (peer_ID p) MaxDeleteHistoryBatch match2 = (fst t, fst (snd t), uids', more'))"
    using e by (simp add: t_def)
  moreover have "dh_JustClear req \<and> (\<exists>q. memoryHistoryClearAnchorLocked s u q = Some a)" if "map_of anchors u = Some a" for u a
    using own_or_other [OF that] unfolding own_def other_def full_def by (auto split: if_splits)
  moreover have "not_anchor anchors owner m" if "match1 m" for m using that by (auto simp: match1_def not_anchor_def kept_def split: option.splits)
  moreover have "not_anchor anchors (peer_ID p) m" if "match2 m" for m using that by (auto simp: match2_def not_anchor_def kept_def split: option.splits)
  ultimately show ?thesis using d unfolding op by (intro that)
qed

lemma delete_history_leaves:
  assumes ids: "ids_ok s"
  shows "leaves s (fst (DeleteHistory now s req))"
proof (cases "dh_OwnerUserID req = 0 \<or> peer_ID (dh_Peer req) = 0")
  case True
  then show ?thesis by (simp add: DeleteHistory_def Let_def)
next
  case False
  then have "dh_OwnerUserID req \<noteq> 0" "peer_ID (dh_Peer req) \<noteq> 0" by simp_all
  then show ?thesis
  proof (rule delete_history_phases [where s = s and now = now])
    fix anchors match1 match2 s1 deleted uids more1 s2 byUID s3 byPeer res date
    assume d: "deleteMemoryMessagesLocked s (dh_OwnerUserID req) MaxDeleteHistoryBatch match1 = (s1, deleted, uids, more1)"
      and r: "s2 = s1 \<and> byUID = [] \<or> deleteMemoryMessagesByUIDLocked s1 uids (dh_OwnerUserID req) = (s2, byUID) \<and> anchors = []"
      and e: "s3 = s2 \<and> byPeer = [] \<or>
       (\<exists>uids' more'. deleteMemoryMessagesLocked s2 (peer_ID (dh_Peer req)) MaxDeleteHistoryBatch match2 = (s3, byPeer, uids', more'))"
      and eq: "fst (DeleteHistory now s req) = fst (finishMemoryDeleteLocked s3 res (deleted @ byUID @ byPeer) date anchors)"
      and anchors: "\<And>u a. map_of anchors u = Some a \<Longrightarrow> dh_JustClear req \<and> (\<exists>q. memoryHistoryClearAnchorLocked s u q = Some a)"
    have l1: "leaves s s1" by (rule delete_locked_leaves [OF ids d])
    have keys: "distinct (map fst (ms_m s1))" using leaves_ids [OF l1 ids] by (simp add: ids_ok_def)
    have "leaves s1 s2" using r delete_by_uid(3) [OF _ keys] by auto
    with l1 have l2: "leaves s s2" by (rule leaves_trans)
    have "leaves s2 s3" using e delete_locked_leaves [OF leaves_ids [OF l2 ids]] by auto
    with l2 have l3: "leaves s s3" by (rule leaves_trans)
    have "anchors_fit anchors s" unfolding anchors_fit_def using anchors anchor_fits(1) [OF ids] by blast
    then have "anchors_fit anchors s3" by (rule anchors_fit_leaves [OF _ l3])
    then have "leaves s3 (fst (finishMemoryDeleteLocked s3 res (deleted @ byUID @ byPeer) date anchors))" by (rule finish_leaves [OF leaves_ids [OF l3 ids]])
    with l3 show ?thesis unfolding eq by (rule leaves_trans)
  qed
qed

lemma read_fields:
  "ms_m (fst (ReadHistory now s owner p maxID date0)) = ms_m s \<and> ms_nextUID (fst (ReadHistory now s owner p maxID date0)) = ms_nextUID s \<and>
   ms_nextBox (fst (ReadHistory now s owner p maxID date0)) = ms_nextBox s \<and>
   ms_privateSendDedup (fst (ReadHistory now s owner p maxID date0)) = ms_privateSendDedup s"
proof -
  have out: "ms_m (fst (read_outbox o' d l (s', res))) = ms_m s' \<and> ms_nextUID (fst (read_outbox o' d l (s', res))) = ms_nextUID s' \<and>
      ms_nextBox (fst (read_outbox o' d l (s', res))) = ms_nextBox s' \<and> ms_privateSendDedup (fst (read_outbox o' d l (s', res))) = ms_privateSendDedup s'"
    for o' d l s' res
    by (simp add: read_outbox_def Let_def nextPtsLocked_def put_dialogs_def split: option.splits)
  show ?thesis by (simp add: ReadHistory_def Let_def out nextPtsLocked_def put_dialogs_def split: option.splits)
qed

lemma read_leaves: "leaves s (fst (ReadHistory now s owner p maxID date0))"
  using read_fields by (intro leaves_same) blast+

end
