(* ===== verification/Private_Invariant.thy ===== *)
theory Private_Invariant
  imports Private_Mailbox
begin

text \<open>
  The invariant of the boxes and receipts: ids and shared ids, the two copies of a message, and the receipt
  every sent message has. Every operation keeps it.
\<close>

subsection \<open>The invariant\<close>

definition receipt_ok :: "message_store \<Rightarrow> int \<times> int \<Rightarrow> dedup_record \<Rightarrow> bool" where
  "receipt_ok s k r \<longleftrightarrow> (let m = dd_senderSnapshot r in
     DecodePrivateSendSnapshot m = Inr m \<and> pm_UID m < ms_nextUID s \<and> msg_ID m \<le> ms_nextBox s (fst k) \<and>
     msg_OwnerUserID m = fst k \<and> pm_RandomID m = snd k \<and> msg_Peer m = user_peer (dd_recipientUserID r) \<and> pm_Out m)"

definition boxes_ok :: "message_store \<Rightarrow> bool" where
  "boxes_ok s \<longleftrightarrow> ids_ok s \<and> 0 < ms_nextUID s \<and> (\<forall>u. 0 \<le> ms_nextBox s u) \<and>
     (\<forall>u. sorted_wrt (<) (map pm_UID (box s u))) \<and>
     (\<forall>u. \<forall>m \<in> set (box s u). 0 < msg_ID m \<and> msg_ID m \<le> ms_nextBox s u \<and> 0 < pm_UID m \<and> pm_UID m < ms_nextUID s) \<and>
     (\<forall>u v. \<forall>m \<in> set (box s u). \<forall>m' \<in> set (box s v). pm_UID m = pm_UID m' \<and> u \<noteq> v \<longrightarrow> msg_Peer m = user_peer v) \<and>
     (\<forall>k r. ms_privateSendDedup s k = Some r \<longrightarrow> receipt_ok s k r) \<and>
     (\<forall>u. \<forall>m \<in> set (box s u). pm_Out m \<and> pm_RandomID m \<noteq> 0 \<longrightarrow>
        (\<exists>r. ms_privateSendDedup s (u, pm_RandomID m) = Some r \<and> dd_senderSnapshot r = m))"

lemma boxes_okD:
  assumes "boxes_ok s"
  shows "ids_ok s" "0 < ms_nextUID s" "0 \<le> ms_nextBox s u" "sorted_wrt (<) (map pm_UID (box s u))"
    and "m \<in> set (box s u) \<Longrightarrow> 0 < msg_ID m" "m \<in> set (box s u) \<Longrightarrow> msg_ID m \<le> ms_nextBox s u"
    and "m \<in> set (box s u) \<Longrightarrow> 0 < pm_UID m" "m \<in> set (box s u) \<Longrightarrow> pm_UID m < ms_nextUID s"
    and "m \<in> set (box s u) \<Longrightarrow> m' \<in> set (box s v) \<Longrightarrow> pm_UID m = pm_UID m' \<Longrightarrow> u \<noteq> v \<Longrightarrow> msg_Peer m = user_peer v"
    and "ms_privateSendDedup s k = Some r \<Longrightarrow> receipt_ok s k r"
    and "m \<in> set (box s u) \<Longrightarrow> pm_Out m \<Longrightarrow> pm_RandomID m \<noteq> 0 \<Longrightarrow>
      \<exists>r. ms_privateSendDedup s (u, pm_RandomID m) = Some r \<and> dd_senderSnapshot r = m"
    and "m \<in> set (box s u) \<Longrightarrow> msg_OwnerUserID m = u"
  using assms unfolding boxes_ok_def ids_ok_def by blast+

lemma boxes_ok_new: "boxes_ok (NewMessageStore events)"
  by (simp add: boxes_ok_def ids_ok_def NewMessageStore_def box_def)

subsection \<open>Reading and deleting\<close>

lemma receipts_forward:
  assumes "receipts_kept s s'" "ms_privateSendDedup s k = Some r"
  shows "\<exists>e. ms_privateSendDedup s' k = Some (r\<lparr>dd_senderDeleteEvent := e\<rparr>) \<and> (dd_senderDeleteEvent r \<noteq> None \<longrightarrow> e \<noteq> None)"
  using spec [OF assms(1) [unfolded receipts_kept_def], of k] assms(2) by simp

lemma receipts_back:
  assumes "receipts_kept s s'" "ms_privateSendDedup s' k = Some r'"
  shows "\<exists>r e. ms_privateSendDedup s k = Some r \<and> r' = r\<lparr>dd_senderDeleteEvent := e\<rparr>"
  using spec [OF assms(1) [unfolded receipts_kept_def], of k] assms(2) by (auto split: option.splits)

lemma boxes_ok_leaves:
  assumes l: "leaves s s'" and ok: "boxes_ok s"
  shows "boxes_ok s'"
proof -
  have counters: "ms_nextUID s' = ms_nextUID s" "ms_nextBox s' = ms_nextBox s" using l by (simp_all add: leaves_def)
  have sh: "shrinks (box s u) (box s' u)" for u using l by (simp add: leaves_def)
  have orig: "\<exists>x \<in> set (box s u). same_slot x m" if "m \<in> set (box s' u)" for m u using shrinks_from [OF sh that] .
  have kept: "receipts_kept s s'" using l by (simp add: leaves_def)
  show ?thesis
    unfolding boxes_ok_def
  proof (intro conjI allI ballI impI)
    show "ids_ok s'" using leaves_ids [OF l boxes_okD(1) [OF ok]] .
    show "0 < ms_nextUID s'" "0 \<le> ms_nextBox s' u" for u using boxes_okD(2,3) [OF ok] by (simp_all add: counters)
    show "sorted_wrt (<) (map pm_UID (box s' u))" for u
      by (rule shrinks_sorted [OF sh _ boxes_okD(4) [OF ok]]) (simp add: same_slot_def)
    fix u m assume m: "m \<in> set (box s' u)"
    then obtain x where x: "x \<in> set (box s u)" "same_slot x m" using orig by blast
    show "0 < msg_ID m" "msg_ID m \<le> ms_nextBox s' u" "0 < pm_UID m" "pm_UID m < ms_nextUID s'"
      using boxes_okD(5-8) [OF ok x(1)] x(2) by (simp_all add: counters same_slot_def)
    show "\<exists>r. ms_privateSendDedup s' (u, pm_RandomID m) = Some r \<and> dd_senderSnapshot r = m" if "pm_Out m \<and> pm_RandomID m \<noteq> 0"
      using boxes_okD(11) [OF ok x(1)] x(2) that receipts_forward [OF kept] by (fastforce simp: same_slot_def)
    fix v m' assume m': "m' \<in> set (box s' v)" "pm_UID m = pm_UID m' \<and> u \<noteq> v"
    then obtain y where "y \<in> set (box s v)" "same_slot y m'" using orig by blast
    then show "msg_Peer m = user_peer v" using boxes_okD(9) [OF ok x(1), of y v] x(2) m'(2) by (simp add: same_slot_def)
  next
    fix k r' assume "ms_privateSendDedup s' k = Some r'"
    then obtain r e where "ms_privateSendDedup s k = Some r" "r' = r\<lparr>dd_senderDeleteEvent := e\<rparr>" using receipts_back [OF kept] by blast
    then show "receipt_ok s' k r'" using boxes_okD(10) [OF ok] by (fastforce simp: receipt_ok_def counters Let_def)
  qed
qed

subsection \<open>Sending\<close>

text \<open>A send that commits, by its two copies.\<close>

lemma copies:
  assumes "send_commits s req fp a b sender recipient alloc"
  shows "msg_ID sender = ms_nextBox s (sp_SenderUserID req) + 1" "pm_UID sender = ms_nextUID s" "pm_RandomID sender = sp_RandomID req"
    "msg_OwnerUserID sender = sp_SenderUserID req" "msg_Peer sender = user_peer (sp_RecipientUserID req)"
    "pm_From sender = user_peer (sp_SenderUserID req)" "pm_Out sender" "pm_Pts sender = fresh_pts s Map.empty (sp_SenderUserID req)"
    and "delivers req \<Longrightarrow> msg_ID recipient = ms_nextBox s (sp_RecipientUserID req) + 1" "delivers req \<Longrightarrow> pm_UID recipient = ms_nextUID s"
    "delivers req \<Longrightarrow> msg_OwnerUserID recipient = sp_RecipientUserID req" "delivers req \<Longrightarrow> msg_Peer recipient = user_peer (sp_SenderUserID req)"
    "delivers req \<Longrightarrow> \<not> pm_Out recipient" "delivers req \<Longrightarrow> pm_Pts recipient = fresh_pts s Map.empty (sp_RecipientUserID req)"
    "delivers req \<Longrightarrow> pm_From recipient = user_peer (sp_SenderUserID req)"
    and "sp_SenderUserID req = sp_RecipientUserID req \<Longrightarrow> recipient = sender"
    "sp_SenderUserID req \<noteq> sp_RecipientUserID req \<Longrightarrow> sp_RecipientBlocked req \<Longrightarrow> recipient = zero_message"
  using assms by (auto simp: send_commits_def sender_copy_def recipient_copy_def delivers_def Let_def)

lemma commit_next_box:
  assumes "send_commits s req fp a b sender recipient alloc" "0 \<le> ms_nextBox s (sp_RecipientUserID req)"
  shows "ms_nextBox (commit_send s req fp alloc sender recipient) v =
    (if v = sp_SenderUserID req \<or> v = sp_RecipientUserID req \<and> delivers req then ms_nextBox s v + 1 else ms_nextBox s v)"
proof -
  note c = copies [OF assms(1)]
  consider (self) "sp_SenderUserID req = sp_RecipientUserID req" | (blocked) "sp_SenderUserID req \<noteq> sp_RecipientUserID req" "sp_RecipientBlocked req"
    | (deliver) "delivers req" by (auto simp: delivers_def)
  then show ?thesis
  proof cases
    case self
    then show ?thesis using c(1,4,16) by (simp add: commit_send_def Let_def split_beta delivers_def)
  next
    case blocked
    then have z: "recipient = zero_message" by (rule c(17))
    show ?thesis using blocked c(1) unfolding z by (simp add: commit_send_def Let_def split_beta delivers_def zero_message_def)
  next
    case deliver
    then show ?thesis using c(1,9,11) assms(2) by (auto simp: commit_send_def Let_def split_beta delivers_def)
  qed
qed

text \<open>A box after a commit: the message at its end, with the next id and the next shared id.\<close>

lemma committed_box:
  assumes "send_commits s req fp a b sender recipient alloc"
  obtains "box (commit_send s req fp alloc sender recipient) v = box s v" "v \<noteq> sp_SenderUserID req" "v = sp_RecipientUserID req \<longrightarrow> \<not> delivers req"
    | m where "box (commit_send s req fp alloc sender recipient) v = box s v @ [m]" "msg_ID m = ms_nextBox s v + 1" "pm_UID m = ms_nextUID s"
      "msg_OwnerUserID m = v" "v = sp_SenderUserID req \<and> m = sender \<or> v = sp_RecipientUserID req \<and> m = recipient \<and> delivers req \<and> \<not> pm_Out m"
proof (cases "v = sp_SenderUserID req \<or> v = sp_RecipientUserID req \<and> delivers req")
  case True
  note c = copies [OF assms]
  define m where "m = (if v = sp_SenderUserID req then sender else recipient)"
  have "box (commit_send s req fp alloc sender recipient) v = box s v @ [m]" using True by (auto simp: commit_boxes m_def)
  moreover have "msg_ID m = ms_nextBox s v + 1" "pm_UID m = ms_nextUID s" "msg_OwnerUserID m = v"
    using True c(1,2,4,9,10,11) by (auto simp: m_def)
  moreover have "v = sp_SenderUserID req \<and> m = sender \<or> v = sp_RecipientUserID req \<and> m = recipient \<and> delivers req \<and> \<not> pm_Out m"
    using True c(13) by (auto simp: m_def)
  ultimately show ?thesis by (rule that(2))
next
  case False
  then show ?thesis by (intro that(1)) (auto simp: commit_boxes)
qed

lemma lookup_none: "lookupPrivateSendReplayLocked s req = Inr None \<Longrightarrow> ms_privateSendDedup s (rr_SenderUserID req, rr_RandomID req) = None"
  by (auto simp: lookupPrivateSendReplayLocked_def Let_def split: option.splits if_splits sum.splits)

lemma ids_ok_commit:
  assumes ok: "boxes_ok s" and c: "send_commits s req fp a b sender recipient alloc"
  shows "ids_ok (commit_send s req fp alloc sender recipient)" (is "ids_ok ?t")
  unfolding ids_ok_def
proof (intro conjI allI ballI)
  show "distinct (map fst (ms_m ?t))" using boxes_okD(1) [OF ok] by (simp add: ids_ok_def commit_keys)
  fix v
  have sorted: "sorted_wrt (<) (map msg_ID (box s v))" using boxes_okD(1) [OF ok] by (simp add: ids_ok_def)
  have below: "\<forall>x \<in> set (box s v). msg_ID x < ms_nextBox s v + 1" using boxes_okD(6) [OF ok] by (force simp: less_le)
  show "sorted_wrt (<) (map msg_ID (box ?t v))"
    by (rule committed_box [OF c, of v]) (use sorted below in \<open>auto simp: sorted_wrt_append\<close>)
  fix m assume m: "m \<in> set (box ?t v)"
  show "msg_OwnerUserID m = v"
    by (rule committed_box [OF c, of v]) (use m boxes_okD(12) [OF ok] in auto)
qed

lemma boxes_ok_commit:
  assumes ok: "boxes_ok s" and c: "send_commits s req fp a b sender recipient alloc"
    and enc: "sp_RandomID req \<noteq> 0 \<longrightarrow> EncodePrivateSendSnapshot sender = Inr sender"
    and fresh: "ms_privateSendDedup s (sp_SenderUserID req, sp_RandomID req) = None"
  shows "boxes_ok (commit_send s req fp alloc sender recipient)" (is "boxes_ok ?t")
proof -
  let ?u = "sp_SenderUserID req" and ?r = "sp_RecipientUserID req"
  note cp = copies [OF c]
  have nb: "ms_nextBox ?t v = (if v = ?u \<or> v = ?r \<and> delivers req then ms_nextBox s v + 1 else ms_nextBox s v)" for v
    by (rule commit_next_box [OF c boxes_okD(3) [OF ok]])
  have nb_mono: "ms_nextBox s v \<le> ms_nextBox ?t v" for v by (simp add: nb)
  have uid: "ms_nextUID ?t = ms_nextUID s + 1" by (simp add: commit_fields)
  text \<open>A message of the new boxes is an old one or the one just sent.\<close>
  have new: "m \<in> set (box s v) \<or> pm_UID m = ms_nextUID s \<and> msg_ID m = ms_nextBox ?t v \<and> 0 < msg_ID m \<and>
      (v = ?u \<and> m = sender \<or> v = ?r \<and> delivers req \<and> m = recipient \<and> \<not> pm_Out m)" if "m \<in> set (box ?t v)" for m v
    using that boxes_okD(3) [OF ok, of v] cp(9,10,13) cp(1,2)
    by (auto simp: commit_boxes nb delivers_def split: if_splits)
  have receipts: "ms_privateSendDedup ?t k = Some r \<longleftrightarrow> (if sp_RandomID req \<noteq> 0 \<and> k = (?u, sp_RandomID req) then
       r = \<lparr>dd_recipientUserID = ?r, dd_senderSnapshot = sender, dd_recipientMessage = immutablePrivateSendReceipt recipient,
            dd_fingerprint = fp, dd_senderDeleteEvent = None\<rparr> else ms_privateSendDedup s k = Some r)" for k r
    by (auto simp: commit_fields)
  show ?thesis
    unfolding boxes_ok_def
  proof (intro conjI allI ballI impI)
    show "ids_ok ?t" by (rule ids_ok_commit [OF ok c])
    show "0 < ms_nextUID ?t" using boxes_okD(2) [OF ok] uid by simp
    show "0 \<le> ms_nextBox ?t v" for v using boxes_okD(3) [OF ok, of v] nb_mono [of v] by simp
    show "sorted_wrt (<) (map pm_UID (box ?t v))" for v
      by (rule committed_box [OF c, of v]) (use boxes_okD(4,8) [OF ok] in \<open>auto simp: sorted_wrt_append\<close>)
    fix v m assume m: "m \<in> set (box ?t v)"
    show "0 < msg_ID m" "msg_ID m \<le> ms_nextBox ?t v" using new [OF m] boxes_okD(5,6) [OF ok, of m v] nb_mono [of v] by fastforce+
    show "0 < pm_UID m" "pm_UID m < ms_nextUID ?t" using new [OF m] boxes_okD(2) [OF ok] boxes_okD(7,8) [OF ok, of m v] uid by fastforce+
    show "\<exists>r. ms_privateSendDedup ?t (v, pm_RandomID m) = Some r \<and> dd_senderSnapshot r = m" if out: "pm_Out m \<and> pm_RandomID m \<noteq> 0"
    proof (cases "m \<in> set (box s v)")
      case True
      then obtain r where "ms_privateSendDedup s (v, pm_RandomID m) = Some r" "dd_senderSnapshot r = m"
        using boxes_okD(11) [OF ok True] out by blast
      then show ?thesis unfolding receipts using fresh by auto
    next
      case False
      then have "v = ?u" "m = sender" using new [OF m] out by auto
      then show ?thesis unfolding receipts using out cp(3) by simp
    qed
    fix w m' assume m': "m' \<in> set (box ?t w)" and same: "pm_UID m = pm_UID m' \<and> v \<noteq> w"
    show "msg_Peer m = user_peer w"
    proof (cases "m \<in> set (box s v) \<or> m' \<in> set (box s w)")
      case True
      have "m \<in> set (box s v) \<and> m' \<in> set (box s w)"
        using True same new [OF m] new [OF m'] boxes_okD(8) [OF ok, of m v] boxes_okD(8) [OF ok, of m' w] by fastforce
      then show ?thesis using boxes_okD(9) [OF ok, of m v m' w] same by blast
    next
      case False
      then show ?thesis using new [OF m] new [OF m'] same cp(5,12) by auto
    qed
  next
    fix k r assume r: "ms_privateSendDedup ?t k = Some r"
    show "receipt_ok ?t k r"
    proof (cases "sp_RandomID req \<noteq> 0 \<and> k = (?u, sp_RandomID req)")
      case True
      have "DecodePrivateSendSnapshot sender = Inr sender" using enc True by (simp add: DecodePrivateSendSnapshot_def EncodePrivateSendSnapshot_def)
      then show ?thesis using r True cp(1-7) unfolding receipts by (simp add: receipt_ok_def Let_def nb uid)
    next
      case False
      then have "receipt_ok s k r" using r boxes_okD(10) [OF ok] unfolding receipts by auto
      then show ?thesis using nb_mono [of "fst k"] uid by (auto simp: receipt_ok_def Let_def)
    qed
  qed
qed

subsection \<open>Runs\<close>

text \<open>A step changes the boxes and receipts by a commit, or leaves them in order.\<close>

lemma pm_step_cases:
  assumes "ids_ok s" "pm_step digest op s = (s', ans)"
  obtains (left) "leaves s s'" "\<And>now quote req. op = PmSend now quote req \<Longrightarrow> s' = s"
    | (sent) now quote req fp a b sender recipient alloc where "op = PmSend now quote req"
      "send_commits s (dated now req) fp a b sender recipient alloc" "s' = commit_send s (dated now req) fp alloc sender recipient"
      "sp_RandomID req \<noteq> 0 \<longrightarrow> EncodePrivateSendSnapshot sender = Inr sender"
      "ms_privateSendDedup s (sp_SenderUserID req, sp_RandomID req) = None"
proof (cases op)
  case (PmSend now quote req)
  obtain a where run: "SendPrivateText digest now quote s req = (s', a)" using assms(2) PmSend by (cases "SendPrivateText digest now quote s req") auto
  then show ?thesis
  proof (cases rule: send_private_cases)
    case (new fp a b sender recipient alloc)
    have "ms_privateSendDedup s (sp_SenderUserID req, sp_RandomID req) = None" using lookup_none [OF new(2)] by (simp add: replay_of_def)
    then show ?thesis by (rule sent [OF PmSend new(4) new(6) new(5)])
  qed (use left PmSend in auto)
next
  case (PmRead now owner p maxID date)
  have "leaves s s'" using assms(2) PmRead read_leaves [of s now owner p maxID date] by (auto simp: map_prod_def split_beta)
  then show ?thesis by (rule left) (simp add: PmRead)
next
  case (PmDelete now owner ids revoke date)
  have "leaves s s'" using assms(2) PmDelete delete_messages_leaves [OF assms(1), of now owner ids revoke date] by (auto simp: map_prod_def split_beta)
  then show ?thesis by (rule left) (simp add: PmDelete)
next
  case (PmClear now req)
  have "leaves s s'" using assms(2) PmClear delete_history_leaves [OF assms(1), of now req] by (auto simp: map_prod_def split_beta)
  then show ?thesis by (rule left) (simp add: PmClear)
next
  case (PmRecord userID e)
  have "leaves s s'" by (rule leaves_same) (use assms(2) PmRecord in \<open>auto split: sum.splits\<close>)
  then show ?thesis by (rule left) (simp add: PmRecord)
qed

lemma boxes_ok_step: "boxes_ok s \<Longrightarrow> boxes_ok (fst (pm_step digest op s))"
proof -
  assume ok: "boxes_ok s"
  obtain s' a where step: "pm_step digest op s = (s', a)" by (cases "pm_step digest op s")
  show ?thesis
  proof (rule pm_step_cases [OF boxes_okD(1) [OF ok] step])
    assume "leaves s s'"
    then show ?thesis using boxes_ok_leaves ok step by simp
  next
    fix now quote req fp a b sender recipient alloc
    assume sent: "send_commits s (dated now req) fp a b sender recipient alloc" "s' = commit_send s (dated now req) fp alloc sender recipient"
      "sp_RandomID req \<noteq> 0 \<longrightarrow> EncodePrivateSendSnapshot sender = Inr sender" "ms_privateSendDedup s (sp_SenderUserID req, sp_RandomID req) = None"
    have "boxes_ok (commit_send s (dated now req) fp alloc sender recipient)"
      by (rule boxes_ok_commit [OF ok sent(1)]) (use sent(3,4) in \<open>auto simp: dated_def\<close>)
    then show ?thesis using step sent(2) by simp
  qed
qed

lemma boxes_ok_run: "boxes_ok s \<Longrightarrow> boxes_ok (fst (pm_run digest ops s))"
  by (rule pm_run_inv [where P = boxes_ok]) (rule boxes_ok_step)

end
