(* ===== verification/Private_Delete.thy ===== *)
theory Private_Delete
  imports Private_Invariant
begin

text \<open>
  What a deletion removes, exactly: the messages of each box and the rows reported for them, the receipts
  that record it, and the boxes after the deletions without a cleared anchor.
\<close>

subsection \<open>Rows and boxes\<close>

definition removes :: "message_store \<Rightarrow> message_store \<Rightarrow> deleted_message list \<Rightarrow> bool" where
  "removes s s' rows \<longleftrightarrow> (\<forall>u. \<exists>D. D \<subseteq> set (box s u) \<and> box s' u = filter (\<lambda>m. m \<notin> D) (box s u) \<and>
     {d \<in> set rows. dm_userID d = u} = deleted_row u ` D)"

lemma removes_refl [simp]: "removes s s []"
  unfolding removes_def by (intro allI exI [of _ "{}"]) simp

lemma removes_trans:
  assumes "removes s s1 rows1" "removes s1 s2 rows2"
  shows "removes s s2 (rows1 @ rows2)"
  unfolding removes_def
proof
  fix u
  obtain D1 where D1: "D1 \<subseteq> set (box s u)" "box s1 u = filter (\<lambda>m. m \<notin> D1) (box s u)" "{d \<in> set rows1. dm_userID d = u} = deleted_row u ` D1"
    using spec [OF assms(1) [unfolded removes_def], of u] by blast
  obtain D2 where D2: "D2 \<subseteq> set (box s1 u)" "box s2 u = filter (\<lambda>m. m \<notin> D2) (box s1 u)" "{d \<in> set rows2. dm_userID d = u} = deleted_row u ` D2"
    using spec [OF assms(2) [unfolded removes_def], of u] by blast
  have "box s2 u = filter (\<lambda>m. m \<notin> D1 \<union> D2) (box s u)" unfolding D2(2) D1(2) by (simp add: conj_commute)
  moreover have "{d \<in> set (rows1 @ rows2). dm_userID d = u} = deleted_row u ` (D1 \<union> D2)"
    unfolding image_Un D1(3) [symmetric] D2(3) [symmetric] by auto
  moreover have "D1 \<union> D2 \<subseteq> set (box s u)" using D1(1) D2(1) unfolding D1(2) by auto
  ultimately show "\<exists>D. D \<subseteq> set (box s u) \<and> box s2 u = filter (\<lambda>m. m \<notin> D) (box s u) \<and> {d \<in> set (rows1 @ rows2). dm_userID d = u} = deleted_row u ` D"
    by blast
qed

lemma removes_locked:
  assumes "ids_ok s" "deleteMemoryMessagesLocked s u limit match = (s', del, uids, more')"
  shows "removes s s' del"
proof (rule delete_step [OF assms])
  fix D assume D: "D \<subseteq> {m \<in> set (box s u). match m}" "s' = put_box s u (filter (\<lambda>m. m \<notin> D) (box s u))"
    "del = map (deleted_row u) (filter (\<lambda>m. m \<in> D) (box s u))"
  show ?thesis
    unfolding removes_def
  proof
    fix v
    show "\<exists>D. D \<subseteq> set (box s v) \<and> box s' v = filter (\<lambda>m. m \<notin> D) (box s v) \<and> {d \<in> set del. dm_userID d = v} = deleted_row v ` D"
    proof (cases "v = u")
      case True
      then show ?thesis using D by (intro exI [of _ D]) (auto simp: deleted_row_def)
    next
      case False
      then show ?thesis using D by (intro exI [of _ "{}"]) (auto simp: deleted_row_def)
    qed
  qed
qed

lemma removes_by_uid:
  assumes "deleteMemoryMessagesByUIDLocked s uids excl = (s', del)" "distinct (map fst (ms_m s))"
  shows "removes s s' del"
  unfolding removes_def
proof
  fix v
  let ?D = "if v = excl then {} else {m \<in> set (box s v). pm_UID m \<in> set uids}"
  note b = delete_by_uid(1,2) [OF assms, of v]
  have "{d \<in> set del. dm_userID d = v} = set (filter (\<lambda>d. dm_userID d = v) del)" by auto
  also have "\<dots> = deleted_row v ` ?D" unfolding b(2) by auto
  finally have rows: "{d \<in> set del. dm_userID d = v} = deleted_row v ` ?D" .
  have "box s' v = filter (\<lambda>m. m \<notin> ?D) (box s v)" unfolding b(1) by (auto intro!: filter_cong)
  with rows show "\<exists>D. D \<subseteq> set (box s v) \<and> box s' v = filter (\<lambda>m. m \<notin> D) (box s v) \<and> {d \<in> set del. dm_userID d = v} = deleted_row v ` D"
    by (intro exI [of _ ?D]) auto
qed

subsection \<open>Finishing without an anchor\<close>

text \<open>The boxes stay, and every row of a message the user sent gets its receipt.\<close>

definition due :: "deleted_message \<Rightarrow> bool" where
  "due d \<longleftrightarrow> dm_messageSenderID d = dm_userID d \<and> dm_randomID d \<noteq> 0 \<and> dm_privateMessageID d \<noteq> 0 \<and> 0 < dm_id d \<and> dm_id d \<le> MaxMessageBoxID"

definition recorded :: "message_store \<Rightarrow> int \<times> int \<Rightarrow> bool" where
  "recorded s k \<longleftrightarrow> (\<exists>r. ms_privateSendDedup s k = Some r \<and> dd_senderDeleteEvent r \<noteq> None)"

lemma recorded_leaves: "recorded s k \<Longrightarrow> leaves s s' \<Longrightarrow> recorded s' k"
  unfolding recorded_def leaves_def by (metis dedup_record.select_convs(5) dedup_record.surjective dedup_record.update_convs(5) receipts_forward)

lemma receipt_recorded:
  assumes "dm_userID d = u" "due d" "ms_privateSendDedup s (u, dm_randomID d) \<noteq> None"
  shows "recorded (delete_receipt u e d s) (u, dm_randomID d)"
  using assms by (auto simp: recorded_def delete_receipt_def due_def)

lemma receipts_recorded:
  assumes "d \<in> set rows" "dm_userID d = u" "due d" "ms_privateSendDedup s (u, dm_randomID d) \<noteq> None"
  shows "recorded (fold (delete_receipt u e) rows s) (u, dm_randomID d)"
  using assms(1,4)
proof (induction rows arbitrary: s)
  case Nil
  then show ?case by simp
next
  case (Cons x rows)
  let ?t = "delete_receipt u e x s"
  have "ms_privateSendDedup ?t (u, dm_randomID d) \<noteq> None"
    using receipts_forward [of s ?t] receipt_leaves [of s u e x] Cons.prems(2) by (fastforce simp: leaves_def)
  then show ?case
  proof (cases "x = d")
    case True
    have "recorded ?t (u, dm_randomID d)" using receipt_recorded [OF assms(2,3) Cons.prems(2)] True by simp
    then show ?thesis using recorded_leaves [OF _ receipts_fold_leaves] by simp
  next
    case False
    then show ?thesis using Cons.IH [of ?t] Cons.prems(1) \<open>ms_privateSendDedup ?t (u, dm_randomID d) \<noteq> None\<close> by simp
  qed
qed

lemma finish_owner_plain:
  assumes "finish_owner rows [] date u (s, items) = (s', items')"
  shows "box s' v = box s v"
    and "d \<in> set rows \<Longrightarrow> dm_userID d = u \<Longrightarrow> due d \<Longrightarrow> ms_privateSendDedup s (u, dm_randomID d) \<noteq> None \<Longrightarrow> recorded s' (u, dm_randomID d)"
proof -
  let ?ids = "normalizeMemoryMessageIDs (map dm_id (filter (\<lambda>d. dm_userID d = u) rows))"
  obtain s1 pts where p: "nextPtsNLocked s u (int (length ?ids)) = (s1, pts)" by (cases "nextPtsNLocked s u (int (length ?ids))")
  have s1: "box s1 v = box s v" "ms_privateSendDedup s1 = ms_privateSendDedup s" for v
    using p by (auto simp: nextPtsNLocked_def Let_def)
  obtain e ps where s': "s' = (if ?ids = [] then s else refresh_dialogs u ps None (fold (delete_receipt u e) rows s1))"
    using assms p by (auto simp: finish_owner_def Let_def split: if_splits)
  show "box s' v = box s v" using s' s1 receipts_fold_box by (auto split: if_splits)
  assume d: "d \<in> set rows" "dm_userID d = u" "due d" "ms_privateSendDedup s (u, dm_randomID d) \<noteq> None"
  then have "dm_id d \<in> set ?ids" by (auto simp: normalizeMemoryMessageIDs_def due_def)
  then have "?ids \<noteq> []" by auto
  moreover have "recorded (fold (delete_receipt u e) rows s1) (u, dm_randomID d)" using receipts_recorded d s1 by simp
  ultimately show "recorded s' (u, dm_randomID d)" using s' recorded_leaves [OF _ refresh_leaves] by simp
qed

lemma finish_fold_plain:
  assumes "ids_ok s"
  shows "box (fst (fold (finish_owner rows [] date) us (s, items))) v = box s v"
    and "d \<in> set rows \<Longrightarrow> dm_userID d \<in> set us \<Longrightarrow> due d \<Longrightarrow> ms_privateSendDedup s (dm_userID d, dm_randomID d) \<noteq> None \<Longrightarrow>
      recorded (fst (fold (finish_owner rows [] date) us (s, items))) (dm_userID d, dm_randomID d)"
  using assms
proof (induction us arbitrary: s items)
  case Nil
  { case 1 then show ?case by simp next case 2 then show ?case by simp }
next
  case (Cons u us)
  have fit: "anchors_fit [] t" for t by (simp add: anchors_fit_def)
  { case 1
    obtain s1 items1 where f: "finish_owner rows [] date u (s, items) = (s1, items1)" by (cases "finish_owner rows [] date u (s, items)")
    have l: "leaves s s1" using finish_owner_leaves [OF 1 fit, of rows date u items] f by simp
    show ?case using Cons.IH(1) [OF leaves_ids [OF l 1], of items1] finish_owner_plain(1) [OF f] f by simp
  next
    case 2
    obtain s1 items1 where f: "finish_owner rows [] date u (s, items) = (s1, items1)" by (cases "finish_owner rows [] date u (s, items)")
    have l: "leaves s s1" using finish_owner_leaves [OF 2(5) fit, of rows date u items] f by simp
    have ids: "ids_ok s1" by (rule leaves_ids [OF l 2(5)])
    show ?case
    proof (cases "dm_userID d = u")
      case True
      then have "recorded s1 (dm_userID d, dm_randomID d)" using finish_owner_plain(2) [OF f 2(1) _ 2(3)] 2(4) by simp
      then show ?thesis using recorded_leaves [OF _ finish_fold_leaves [OF ids fit]] f by simp
    next
      case False
      have "ms_privateSendDedup s1 (dm_userID d, dm_randomID d) \<noteq> None"
        using receipts_forward [of s s1] l 2(4) by (fastforce simp: leaves_def)
      then show ?thesis using Cons.IH(2) [OF 2(1) _ 2(3) _ ids, of items1] 2(2) False f by simp
    qed }
qed

lemma finish_plain:
  assumes "ids_ok s" "finishMemoryDeleteLocked s res rows date [] = (s', res')"
  shows "box s' v = box s v"
    and "d \<in> set rows \<Longrightarrow> due d \<Longrightarrow> ms_privateSendDedup s (dm_userID d, dm_randomID d) \<noteq> None \<Longrightarrow> recorded s' (dm_userID d, dm_randomID d)"
proof -
  let ?t = "drop_tags rows s" and ?us = "sort (remdups (map dm_userID rows))"
  have l: "leaves s ?t" by (rule drop_tags_leaves)
  have ids: "ids_ok ?t" by (rule leaves_ids [OF l assms(1)])
  have t: "box ?t v = box s v \<and> ms_privateSendDedup ?t = ms_privateSendDedup s" for v
    unfolding drop_tags_def by (induction rows arbitrary: s) simp_all
  have s': "s' = (if rows = [] then s else fst (fold (finish_owner rows [] date) ?us (?t, [])))"
    using assms(2) by (auto simp: finishMemoryDeleteLocked_def Let_def split: prod.splits if_splits)
  show "box s' v = box s v" using s' finish_fold_plain(1) [OF ids, of rows date ?us "[]" v] t by simp
  assume d: "d \<in> set rows" "due d" "ms_privateSendDedup s (dm_userID d, dm_randomID d) \<noteq> None"
  have "recorded (fst (fold (finish_owner rows [] date) ?us (?t, []))) (dm_userID d, dm_randomID d)"
    by (rule finish_fold_plain(2) [OF ids d(1) _ d(2)]) (use d t in auto)
  then show "recorded s' (dm_userID d, dm_randomID d)" using s' d(1) by auto
qed

subsection \<open>The operations\<close>

text \<open>Messages go, each with a row, and the rows of messages their owner sent are recorded.\<close>

definition deletes :: "message_store \<Rightarrow> message_store \<Rightarrow> deleted_message list \<Rightarrow> bool" where
  "deletes s s' rows \<longleftrightarrow> removes s s' rows \<and>
     (\<forall>d \<in> set rows. due d \<and> ms_privateSendDedup s (dm_userID d, dm_randomID d) \<noteq> None \<longrightarrow> recorded s' (dm_userID d, dm_randomID d))"

lemma deletes_finish:
  assumes "ids_ok s" "leaves s t" "removes s t rows" "finishMemoryDeleteLocked t res rows date [] = (s', res')"
  shows "deletes s s' rows" "box s' v = box t v"
proof -
  have ids: "ids_ok t" by (rule leaves_ids [OF assms(2,1)])
  have b: "box s' v = box t v" for v by (rule finish_plain(1) [OF ids assms(4)])
  then show "box s' v = box t v" .
  have "ms_privateSendDedup t k \<noteq> None" if "ms_privateSendDedup s k \<noteq> None" for k
    using that receipts_forward [of s t k] assms(2) by (auto simp: leaves_def)
  then show "deletes s s' rows" using assms(3) b finish_plain(2) [OF ids assms(4)] unfolding deletes_def removes_def by auto
qed

lemma locked_dialogs: "deleteMemoryMessagesLocked s u limit match = (s', del, uids, more') \<Longrightarrow> ms_dialogs s' = ms_dialogs s"
  by (auto simp: deleteMemoryMessagesLocked_def split: prod.splits)

lemma by_uid_dialogs: "deleteMemoryMessagesByUIDLocked s uids excl = (s', del) \<Longrightarrow> ms_dialogs s' = ms_dialogs s"
  by (auto simp: deleteMemoryMessagesByUIDLocked_def split: if_splits)

lemma delete_messages_stage:
  assumes ids: "ids_ok s" and owner: "owner \<noteq> 0" and size: "int (length (normalizeMemoryMessageIDs rawIDs)) \<le> MaxDeleteMessageIDs"
    and nonempty: "normalizeMemoryMessageIDs rawIDs \<noteq> []"
  obtains t rows res date where "leaves s t" "removes s t rows" "ms_dialogs t = ms_dialogs s"
    "fst (DeleteMessages now s owner rawIDs revoke date0) = fst (finishMemoryDeleteLocked t res rows date [])"
    "box t owner = filter (\<lambda>m. msg_ID m \<notin> set (normalizeMemoryMessageIDs rawIDs)) (box s owner)"
    "\<And>v. v \<noteq> owner \<Longrightarrow> box t v = (if revoke then filter (\<lambda>m. pm_UID m = 0 \<or>
        pm_UID m \<notin> pm_UID ` {m \<in> set (box s owner). msg_ID m \<in> set (normalizeMemoryMessageIDs rawIDs)}) (box s v) else box s v)"
proof -
  define mids where "mids = normalizeMemoryMessageIDs rawIDs"
  obtain s1 deleted uids more1 where d: "deleteMemoryMessagesLocked s owner 0 (\<lambda>m. msg_ID m \<in> set mids) = (s1, deleted, uids, more1)"
    by (rule prod_cases4)
  obtain s2 others where r: "(if revoke \<and> uids \<noteq> [] then deleteMemoryMessagesByUIDLocked s1 uids owner else (s1, [])) = (s2, others)"
    by (rule prod.exhaust)
  obtain res date where f: "fst (DeleteMessages now s owner rawIDs revoke date0) = fst (finishMemoryDeleteLocked s2 res (deleted @ others) date [])"
    using owner size nonempty d r unfolding DeleteMessages_def Let_def mids_def [symmetric] d prod.case r by (simp add: split_beta)
  have l1: "leaves s s1" by (rule delete_locked_leaves [OF ids d])
  have keys: "distinct (map fst (ms_m s1))" using leaves_ids [OF l1 ids] by (simp add: ids_ok_def)
  have "leaves s1 s2" using r delete_by_uid(3) [OF _ keys, of uids owner s2 others] by (auto split: if_splits)
  with l1 have l2: "leaves s s2" by (rule leaves_trans)
  have "removes s1 s2 others" using r removes_by_uid [OF _ keys, of uids owner s2 others] by (auto split: if_splits)
  with removes_locked [OF ids d] have rows: "removes s s2 (deleted @ others)" by (rule removes_trans)
  have dialogs: "ms_dialogs s2 = ms_dialogs s" using locked_dialogs [OF d] r by_uid_dialogs [of s1 uids owner s2 others] by (auto split: if_splits)
  show ?thesis
  proof (rule delete_step [OF ids d])
    fix D assume "D \<subseteq> {m \<in> set (box s owner). msg_ID m \<in> set mids}" "(0 :: int) \<le> 0 \<longrightarrow> D = {m \<in> set (box s owner). msg_ID m \<in> set mids}"
      "s1 = put_box s owner (filter (\<lambda>m. m \<notin> D) (box s owner))" "uids = filter (\<lambda>uid. uid \<noteq> 0) (map pm_UID (filter (\<lambda>m. m \<in> D) (box s owner)))"
    then have s1: "s1 = put_box s owner (filter (\<lambda>m. msg_ID m \<notin> set mids) (box s owner))"
      and uids: "set uids = pm_UID ` {m \<in> set (box s owner). msg_ID m \<in> set mids} - {0}"
      by (auto intro!: arg_cong [of _ _ "put_box s owner"] filter_cong)
    have others_box: "box s2 v = (if revoke then filter (\<lambda>m. pm_UID m \<notin> set uids) (box s1 v) else box s1 v)" if "v \<noteq> owner" for v
      using r that delete_by_uid(1) [OF _ keys, of uids owner s2 others v] by (cases "uids = []") (auto split: if_splits)
    show thesis
    proof (rule that [OF l2 rows dialogs f])
      show "box s2 owner = filter (\<lambda>m. msg_ID m \<notin> set (normalizeMemoryMessageIDs rawIDs)) (box s owner)"
        using r delete_by_uid(1) [OF _ keys, of uids owner s2 others owner] by (auto simp: s1 mids_def split: if_splits)
      fix v assume "v \<noteq> owner"
      then show "box s2 v = (if revoke then filter (\<lambda>m. pm_UID m = 0 \<or>
          pm_UID m \<notin> pm_UID ` {m \<in> set (box s owner). msg_ID m \<in> set (normalizeMemoryMessageIDs rawIDs)}) (box s v) else box s v)"
        using others_box [of v] uids by (auto simp: s1 mids_def Diff_iff intro!: filter_cong)
    qed
  qed
qed

lemma delete_messages_parts:
  assumes ids: "ids_ok s" and run: "DeleteMessages now s owner rawIDs revoke date0 = (s', ans)"
    and owner: "owner \<noteq> 0" and size: "int (length (normalizeMemoryMessageIDs rawIDs)) \<le> MaxDeleteMessageIDs"
  obtains rows where "deletes s s' rows"
    "box s' owner = filter (\<lambda>m. msg_ID m \<notin> set (normalizeMemoryMessageIDs rawIDs)) (box s owner)"
    "\<And>v. v \<noteq> owner \<Longrightarrow> box s' v = (if revoke then filter (\<lambda>m. pm_UID m = 0 \<or>
        pm_UID m \<notin> pm_UID ` {m \<in> set (box s owner). msg_ID m \<in> set (normalizeMemoryMessageIDs rawIDs)}) (box s v) else box s v)"
proof (cases "normalizeMemoryMessageIDs rawIDs = []")
  case True
  then have "s' = s" using run by (simp add: DeleteMessages_def)
  then show ?thesis using True by (intro that [of "[]"]) (auto simp: deletes_def)
next
  case False
  show ?thesis
  proof (rule delete_messages_stage [OF ids owner size False, of now revoke date0])
    fix t rows res date
    assume st: "leaves s t" "removes s t rows"
      and f: "fst (DeleteMessages now s owner rawIDs revoke date0) = fst (finishMemoryDeleteLocked t res rows date [])"
      and b: "box t owner = filter (\<lambda>m. msg_ID m \<notin> set (normalizeMemoryMessageIDs rawIDs)) (box s owner)"
       "\<And>v. v \<noteq> owner \<Longrightarrow> box t v = (if revoke then filter (\<lambda>m. pm_UID m = 0 \<or>
        pm_UID m \<notin> pm_UID ` {m \<in> set (box s owner). msg_ID m \<in> set (normalizeMemoryMessageIDs rawIDs)}) (box s v) else box s v)"
    obtain res' where f': "finishMemoryDeleteLocked t res rows date [] = (s', res')" using f run by (metis fst_conv prod.exhaust)
    note eq = deletes_finish(2) [OF ids st f']
    show thesis by (rule that [OF deletes_finish(1) [OF ids st f']]) (unfold eq, rule b(1), rule b(2))
  qed
qed

lemma delete_messages_deletes:
  assumes "ids_ok s"
  shows "\<exists>rows. deletes s (fst (DeleteMessages now s owner rawIDs revoke date0)) rows"
proof (cases "owner \<noteq> 0 \<and> int (length (normalizeMemoryMessageIDs rawIDs)) \<le> MaxDeleteMessageIDs")
  case True
  obtain s' ans where run: "DeleteMessages now s owner rawIDs revoke date0 = (s', ans)" by (rule prod.exhaust)
  show ?thesis by (rule delete_messages_parts [OF assms run]) (use True run in auto)
next
  case False
  then have "fst (DeleteMessages now s owner rawIDs revoke date0) = s" by (auto simp: DeleteMessages_def Let_def)
  then show ?thesis by (intro exI [of _ "[]"]) (simp add: deletes_def)
qed

lemma unmatched_stays:
  assumes "ids_ok s" "deleteMemoryMessagesLocked s u limit match = (s', del, uids, more')" "x \<in> set (box s v)" "v = u \<Longrightarrow> \<not> match x"
  shows "x \<in> set (box s' v)"
  by (rule delete_step [OF assms(1,2)]) (use assms(3,4) in auto)

lemma delete_history_parts:
  assumes ids: "ids_ok s" and req: "dh_OwnerUserID req \<noteq> 0" "peer_ID (dh_Peer req) \<noteq> 0"
  obtains t rows anchors res date where "leaves s t" "removes s t rows" "ms_dialogs t = ms_dialogs s" "anchors_fit anchors t"
    "fst (DeleteHistory now s req) = fst (finishMemoryDeleteLocked t res rows date anchors)"
    "\<And>u a. map_of anchors u = Some a \<Longrightarrow>
       dh_JustClear req \<and> (\<exists>q. memoryHistoryClearAnchorLocked s u q = Some a) \<and> ca_message a \<in> set (box t u)"
  using req
proof (rule delete_history_phases [where s = s and now = now])
  fix anchors match1 match2 s1 deleted uids more1 s2 byUID s3 byPeer res date
  assume d: "deleteMemoryMessagesLocked s (dh_OwnerUserID req) MaxDeleteHistoryBatch match1 = (s1, deleted, uids, more1)"
    and r: "s2 = s1 \<and> byUID = [] \<or> deleteMemoryMessagesByUIDLocked s1 uids (dh_OwnerUserID req) = (s2, byUID) \<and> anchors = []"
    and e: "s3 = s2 \<and> byPeer = [] \<or>
     (\<exists>uids' more'. deleteMemoryMessagesLocked s2 (peer_ID (dh_Peer req)) MaxDeleteHistoryBatch match2 = (s3, byPeer, uids', more'))"
    and eq: "fst (DeleteHistory now s req) = fst (finishMemoryDeleteLocked s3 res (deleted @ byUID @ byPeer) date anchors)"
    and anchors: "\<And>u a. map_of anchors u = Some a \<Longrightarrow> dh_JustClear req \<and> (\<exists>q. memoryHistoryClearAnchorLocked s u q = Some a)"
    and unmatched: "\<And>m. match1 m \<Longrightarrow> not_anchor anchors (dh_OwnerUserID req) m" "\<And>m. match2 m \<Longrightarrow> not_anchor anchors (peer_ID (dh_Peer req)) m"
  have l1: "leaves s s1" by (rule delete_locked_leaves [OF ids d])
  have ids1: "ids_ok s1" by (rule leaves_ids [OF l1 ids])
  then have keys: "distinct (map fst (ms_m s1))" by (simp add: ids_ok_def)
  have "leaves s1 s2" using r delete_by_uid(3) [OF _ keys] by auto
  with l1 have l2: "leaves s s2" by (rule leaves_trans)
  have ids2: "ids_ok s2" by (rule leaves_ids [OF l2 ids])
  have "leaves s2 s3" using e delete_locked_leaves [OF ids2] by auto
  with l2 have l3: "leaves s s3" by (rule leaves_trans)
  have "removes s1 s2 byUID" using r removes_by_uid [OF _ keys] by auto
  with removes_locked [OF ids d] have "removes s s2 (deleted @ byUID)" by (rule removes_trans)
  moreover have "removes s2 s3 byPeer" using e removes_locked [OF ids2] by auto
  ultimately have rows: "removes s s3 (deleted @ byUID @ byPeer)" using removes_trans by fastforce
  have "anchors_fit anchors s" unfolding anchors_fit_def using anchors anchor_fits(1) [OF ids] by blast
  then have fit: "anchors_fit anchors s3" by (rule anchors_fit_leaves [OF _ l3])
  have stays: "ca_message a \<in> set (box s3 u)" if a: "map_of anchors u = Some a" for u a
  proof -
    have no: "\<not> not_anchor anchors u (ca_message a)" using a by (simp add: not_anchor_def)
    have "ca_message a \<in> set (box s u)" using anchors [OF a] anchor_fits(2) [OF ids] by blast
    then have "ca_message a \<in> set (box s1 u)" by (rule unmatched_stays [OF ids d]) (use no unmatched(1) in auto)
    moreover have "s2 = s1" using r a by auto
    ultimately have in2: "ca_message a \<in> set (box s2 u)" by simp
    show ?thesis
    proof (cases "s3 = s2")
      case False
      then obtain uids' more' where e': "deleteMemoryMessagesLocked s2 (peer_ID (dh_Peer req)) MaxDeleteHistoryBatch match2 = (s3, byPeer, uids', more')"
        using e by blast
      show ?thesis by (rule unmatched_stays [OF ids2 e' in2]) (use no unmatched(2) in auto)
    qed (use in2 in simp)
  qed
  have dialogs: "ms_dialogs s3 = ms_dialogs s" using locked_dialogs [OF d] locked_dialogs r e by_uid_dialogs by metis
  show thesis by (rule that [OF l3 rows dialogs fit eq]) (use anchors stays in blast)
qed

lemma delete_history_deletes:
  assumes ids: "ids_ok s" and "\<not> dh_JustClear req"
  shows "\<exists>rows. deletes s (fst (DeleteHistory now s req)) rows"
proof (cases "dh_OwnerUserID req = 0 \<or> peer_ID (dh_Peer req) = 0")
  case True
  then have "fst (DeleteHistory now s req) = s" by (simp add: DeleteHistory_def Let_def)
  then show ?thesis by (intro exI [of _ "[]"]) (simp add: deletes_def)
next
  case False
  then have "dh_OwnerUserID req \<noteq> 0" "peer_ID (dh_Peer req) \<noteq> 0" by simp_all
  then show ?thesis
  proof (rule delete_history_parts [OF ids, where now = now])
    fix t rows anchors res date
    assume l: "leaves s t" "removes s t rows" "fst (DeleteHistory now s req) = fst (finishMemoryDeleteLocked t res rows date anchors)"
      and a: "\<And>u a. map_of anchors u = Some a \<Longrightarrow>
       dh_JustClear req \<and> (\<exists>q. memoryHistoryClearAnchorLocked s u q = Some a) \<and> ca_message a \<in> set (box t u)"
    have "map_of anchors u = None" for u using a assms(2) by (cases "map_of anchors u") auto
    then have "anchors = []" by (simp add: map_of_eq_empty_iff [symmetric] fun_eq_iff)
    then obtain s' res' where f: "finishMemoryDeleteLocked t res rows date [] = (s', res')" "fst (DeleteHistory now s req) = s'"
      using l(3) by (cases "finishMemoryDeleteLocked t res rows date []") auto
    show ?thesis using deletes_finish(1) [OF ids l(1,2) f(1)] f(2) by blast
  qed
qed

end
