(* ===== verification/Private_Dialogs.thy ===== *)
theory Private_Dialogs
  imports Private_Delete
begin

text \<open>
  The dialogs of an account are an exact view of its message box: a dialog for every peer there is a message
  with, its top message and date, and its unread count. A deletion makes the dialogs of the peers of the
  removed messages stale until they are rebuilt.
\<close>

subsection \<open>The view of one account\<close>

definition exact :: "message_store \<Rightarrow> int \<Rightarrow> dialog \<Rightarrow> bool" where
  "exact s u d \<longleftrightarrow> (let top = top_message (box s u) (dg_Peer d) in
     msg_ID top \<noteq> 0 \<and> dg_TopMessage d = msg_ID top \<and> dg_TopMessageDate d = msg_Date top \<and>
     dg_UnreadCount d = incoming_after (box s u) (dg_Peer d) (dg_ReadInboxMaxID d))"

definition dialogs_of :: "message_store \<Rightarrow> int \<Rightarrow> dialog list" where
  "dialogs_of s u = dl_Dialogs (ms_dialogs s u)"

definition view_ok :: "message_store \<Rightarrow> int \<Rightarrow> peer set \<Rightarrow> bool" where
  "view_ok s u stale \<longleftrightarrow> distinct (map dg_Peer (dialogs_of s u)) \<and>
     (\<forall>d \<in> set (dialogs_of s u). dg_ReadInboxMaxID d \<le> ms_nextBox s u \<and> (dg_Peer d \<notin> stale \<longrightarrow> exact s u d)) \<and>
     (\<forall>m \<in> set (box s u). msg_Peer m \<in> dg_Peer ` set (dialogs_of s u))"

lemma view_mono: "view_ok s u ps \<Longrightarrow> ps \<subseteq> qs \<Longrightarrow> view_ok s u qs"
  unfolding view_ok_def by blast

lemma view_cong:
  assumes "box s' u = box s u" "ms_dialogs s' u = ms_dialogs s u" "ms_nextBox s' u = ms_nextBox s u"
  shows "view_ok s' u ps = view_ok s u ps"
  using assms by (simp add: view_ok_def exact_def dialogs_of_def)

text \<open>The view of a peer depends on the messages with that peer.\<close>

lemma top_filter: "top_message (filter (\<lambda>m. msg_Peer m = p) ms) p = top_message ms p"
  by (induction ms rule: rev_induct) (simp_all add: top_message_def)

lemma incoming_filter: "incoming_after (filter (\<lambda>m. msg_Peer m = p) ms) p k = incoming_after ms p k"
  unfolding incoming_after_def by (simp add: conj_ac)

lemma exact_peer:
  assumes "filter (\<lambda>m. msg_Peer m = dg_Peer d) (box s' u) = filter (\<lambda>m. msg_Peer m = dg_Peer d) (box s u)"
  shows "exact s' u d = exact s u d"
  using assms unfolding exact_def Let_def by (metis top_filter incoming_filter)

lemma top_append: "top_message (ms @ [m]) p = (if msg_Peer m = p \<and> msg_ID m > msg_ID (top_message ms p) then m else top_message ms p)"
  by (simp add: top_message_def)

lemma top_bound: "m \<in> set ms \<Longrightarrow> msg_Peer m = p \<Longrightarrow> msg_ID m \<le> msg_ID (top_message ms p)"
  using top_message_props [of ms p] by blast

lemma incoming_none: "(\<And>m. m \<in> set ms \<Longrightarrow> msg_Peer m = p \<Longrightarrow> msg_ID m \<le> k) \<Longrightarrow> incoming_after ms p k = 0"
  by (fastforce simp: incoming_after_def filter_empty_conv)

lemma incoming_top: "msg_ID (top_message ms p) \<le> k \<Longrightarrow> incoming_after ms p k = 0"
  using top_bound by (intro incoming_none) fastforce

subsection \<open>Changes of a list of dialogs\<close>

lemma change_map:
  "distinct (map dg_Peer ds) \<Longrightarrow> change_dialog p f ds = map (\<lambda>d. if dg_Peer d = p then f d else d) ds"
proof (induction ds)
  case (Cons d ds)
  have "map (\<lambda>d. if dg_Peer d = p then f d else d) ds = ds" if "dg_Peer d = p"
    by (rule map_idI) (use Cons.prems that in \<open>force simp: image_iff\<close>)
  then show ?case using Cons by auto
qed simp

lemma change_peers: "(\<And>d. dg_Peer (f d) = dg_Peer d) \<Longrightarrow> map dg_Peer (change_dialog p f ds) = map dg_Peer ds"
  by (induction ds) simp_all

lemma merge_peer [simp]: "dg_Peer (merge_dialog x d) = dg_Peer d"
  by (simp add: merge_dialog_def)

lemma upsert_set:
  "distinct (map dg_Peer ds) \<Longrightarrow> set (upsert_dialogs ds d) = {x \<in> set ds. dg_Peer x \<noteq> dg_Peer d} \<union>
     {case find (\<lambda>x. dg_Peer x = dg_Peer d) ds of None \<Rightarrow> d | Some x \<Rightarrow> merge_dialog x d}"
proof (induction ds)
  case Nil
  then show ?case by simp
next
  case (Cons x ds)
  then show ?case by (auto simp: image_iff)
qed

lemma upsert_peers: "map dg_Peer (upsert_dialogs ds d) =
    (if dg_Peer d \<in> dg_Peer ` set ds then map dg_Peer ds else map dg_Peer ds @ [dg_Peer d])"
  by (induction ds) auto

lemma find_dialog_eq: "find_dialog s u p = find (\<lambda>d. dg_Peer d = p) (dialogs_of s u)"
  by (simp add: find_dialog_def dialogs_of_def)

lemma find_dialogD: "find_dialog s u p = Some d \<Longrightarrow> d \<in> set (dialogs_of s u) \<and> dg_Peer d = p"
  by (auto simp: find_dialog_eq find_Some_iff)

lemma find_dialog_None: "find_dialog s u p = None \<longleftrightarrow> p \<notin> dg_Peer ` set (dialogs_of s u)"
  by (auto simp: find_dialog_eq find_None_iff)

text \<open>A change of the dialog with one peer that makes it exact.\<close>

lemma view_change:
  assumes v: "view_ok s u ps" and t: "box t u = box s u" "ms_nextBox t u = ms_nextBox s u" "dialogs_of t u = change_dialog p f (dialogs_of s u)"
    and f: "\<And>d. dg_Peer (f d) = dg_Peer d"
    and good: "\<And>d. d \<in> set (dialogs_of s u) \<Longrightarrow> dg_Peer d = p \<Longrightarrow> dg_ReadInboxMaxID (f d) \<le> ms_nextBox s u \<and> (p \<notin> ps \<longrightarrow> exact s u d \<longrightarrow> exact s u (f d))"
  shows "view_ok t u ps"
proof -
  have dist: "distinct (map dg_Peer (dialogs_of s u))" using v by (simp add: view_ok_def)
  have same: "exact t u d = exact s u d" for d by (rule exact_peer) (simp add: t(1))
  have peers: "map dg_Peer (dialogs_of t u) = map dg_Peer (dialogs_of s u)" unfolding t(3) by (rule change_peers [OF f])
  then have img: "dg_Peer ` set (dialogs_of t u) = dg_Peer ` set (dialogs_of s u)" by (metis list.set_map)
  have ds: "set (dialogs_of t u) = (\<lambda>d. if dg_Peer d = p then f d else d) ` set (dialogs_of s u)" unfolding t(3) change_map [OF dist] by simp
  show ?thesis
    unfolding view_ok_def peers img t(1,2) same
  proof (intro conjI dist ballI)
    fix d assume "d \<in> set (dialogs_of t u)"
    then obtain x where x: "x \<in> set (dialogs_of s u)" "d = (if dg_Peer x = p then f x else x)" unfolding ds by blast
    show "dg_ReadInboxMaxID d \<le> ms_nextBox s u" "dg_Peer d \<notin> ps \<longrightarrow> exact s u d"
      using x v good [OF x(1)] f [of x] by (auto simp: view_ok_def)
  qed (use v in \<open>simp add: view_ok_def\<close>)
qed

subsection \<open>Rebuilding\<close>

lemma view_removed:
  assumes v: "view_ok s u {}" and t: "box t u = filter (\<lambda>m. m \<notin> D) (box s u)" "ms_dialogs t u = ms_dialogs s u" "ms_nextBox t u = ms_nextBox s u"
  shows "view_ok t u (msg_Peer ` D)"
proof -
  have ds: "dialogs_of t u = dialogs_of s u" using t(2) by (simp add: dialogs_of_def)
  have "exact t u d" if "d \<in> set (dialogs_of s u)" "dg_Peer d \<notin> msg_Peer ` D" for d
  proof -
    have "filter (\<lambda>m. msg_Peer m = dg_Peer d) (box t u) = filter (\<lambda>m. msg_Peer m = dg_Peer d) (box s u)"
      using that(2) unfolding t(1) filter_filter by (intro filter_cong) (auto simp: image_iff)
    then have "exact t u d = exact s u d" by (rule exact_peer)
    then show ?thesis using v that(1) by (simp add: view_ok_def)
  qed
  then show ?thesis using v unfolding view_ok_def ds t(1,3) by auto
qed

lemma rebuild_skip: "p \<notin> dg_Peer ` set ds \<Longrightarrow> rebuild_loop ms p newest unread ds = ds"
  by (induction ds arbitrary: unread) auto

definition rebuilt :: "private_message list \<Rightarrow> dialog \<Rightarrow> dialog" where
  "rebuilt ms d = (let newest = top_message ms (dg_Peer d) in
     d\<lparr>dg_TopMessage := msg_ID newest, dg_TopMessageDate := msg_Date newest,
       dg_UnreadCount := incoming_after ms (dg_Peer d) (dg_ReadInboxMaxID d), dg_UnreadMentions := 0, dg_UnreadReactions := 0\<rparr>)"

lemma rebuild_map:
  assumes "distinct (map dg_Peer ds)"
  shows "rebuild_loop ms p (msg_ID (top_message ms p), msg_Date (top_message ms p)) 0 ds =
    map (\<lambda>d. if dg_Peer d = p then rebuilt ms d else d) (filter (\<lambda>d. dg_Peer d = p \<longrightarrow> msg_ID (top_message ms p) \<noteq> 0) ds)"
  using assms
proof (induction ds)
  case Nil
  then show ?case by simp
next
  case (Cons d ds)
  show ?case
  proof (cases "dg_Peer d = p")
    case True
    then have p: "p \<notin> dg_Peer ` set ds" using Cons.prems by auto
    have 1: "filter (\<lambda>d. dg_Peer d = p \<longrightarrow> msg_ID (top_message ms p) \<noteq> 0) ds = ds" by (rule filter_True) (use p in auto)
    have 2: "map (\<lambda>d. if dg_Peer d = p then rebuilt ms d else d) ds = ds" by (rule map_idI) (use p in auto)
    have 3: "filter (\<lambda>d. dg_Peer d \<noteq> p) ds = ds" by (rule filter_True) (use p in auto)
    show ?thesis using True rebuild_skip [OF p] 1 2 3 by (simp add: rebuilt_def Let_def)
  next
    case False
    then show ?thesis using Cons by simp
  qed
qed

lemma rebuild_view:
  assumes v: "view_ok s u ps" and pos: "\<And>m. m \<in> set (box s u) \<Longrightarrow> 0 < msg_ID m"
  shows "view_ok (rebuildMemoryDialogLocked u p s) u (ps - {p})" (is "view_ok ?t u _")
proof -
  let ?top = "msg_ID (top_message (box s u) p)"
  have dist: "distinct (map dg_Peer (dialogs_of s u))" using v by (simp add: view_ok_def)
  have ds: "dialogs_of ?t u = map (\<lambda>d. if dg_Peer d = p then rebuilt (box s u) d else d) (filter (\<lambda>d. dg_Peer d = p \<longrightarrow> ?top \<noteq> 0) (dialogs_of s u))"
    using rebuild_map [OF dist] by (simp add: dialogs_of_def rebuildMemoryDialogLocked_def Let_def)
  have same: "exact ?t u d = exact s u d" for d by (rule exact_peer) simp
  have peer: "dg_Peer (rebuilt ms d) = dg_Peer d" "dg_ReadInboxMaxID (rebuilt ms d) = dg_ReadInboxMaxID d" for ms d by (simp_all add: rebuilt_def Let_def)
  have good: "exact s u (rebuilt (box s u) d)" if "dg_Peer d = p" "?top \<noteq> 0" for d
    using that by (simp add: exact_def rebuilt_def Let_def)
  show ?thesis
    unfolding view_ok_def same
  proof (intro conjI ballI)
    have "map dg_Peer (dialogs_of ?t u) = map dg_Peer (filter (\<lambda>d. dg_Peer d = p \<longrightarrow> ?top \<noteq> 0) (dialogs_of s u))"
      unfolding ds by (simp add: peer)
    then show "distinct (map dg_Peer (dialogs_of ?t u))" using distinct_map_filter [OF dist] by simp
    fix d assume "d \<in> set (dialogs_of ?t u)"
    then obtain x where x: "x \<in> set (dialogs_of s u)" "d = (if dg_Peer x = p then rebuilt (box s u) x else x)" "dg_Peer x = p \<longrightarrow> ?top \<noteq> 0"
      unfolding ds by auto
    show "dg_ReadInboxMaxID d \<le> ms_nextBox ?t u" "dg_Peer d \<notin> ps - {p} \<longrightarrow> exact s u d"
      using x v good [of x] by (auto simp: view_ok_def peer)
  next
    fix m assume m: "m \<in> set (box ?t u)"
    then obtain d where d: "d \<in> set (dialogs_of s u)" "dg_Peer d = msg_Peer m" using v by (auto simp: view_ok_def)
    have "?top \<noteq> 0" if "msg_Peer m = p" using top_bound [of m "box s u" p] pos [of m] m that by simp
    then have "(if dg_Peer d = p then rebuilt (box s u) d else d) \<in> set (dialogs_of ?t u)" unfolding ds using d by auto
    then show "msg_Peer m \<in> dg_Peer ` set (dialogs_of ?t u)" using d(2) peer(1) by (metis (full_types) image_eqI)
  qed
qed

lemma rebuild_fold_view:
  assumes "view_ok s u ps" "\<And>m. m \<in> set (box s u) \<Longrightarrow> 0 < msg_ID m"
  shows "view_ok (fold (rebuildMemoryDialogLocked u) qs s) u (ps - set qs)"
  using assms
proof (induction qs arbitrary: s ps)
  case Nil
  then show ?case by simp
next
  case (Cons q qs)
  have "view_ok (rebuildMemoryDialogLocked u q s) u (ps - {q})" by (rule rebuild_view [OF Cons.prems])
  from Cons.IH [OF this] have "view_ok (fold (rebuildMemoryDialogLocked u) (q # qs) s) u (ps - {q} - set qs)" using Cons.prems(2) by simp
  moreover have "ps - {q} - set qs = ps - set (q # qs)" by auto
  ultimately show ?case by simp
qed

lemma rebuild_fold_box: "box (fold (rebuildMemoryDialogLocked u) ps s) v = box s v" "ms_nextBox (fold (rebuildMemoryDialogLocked u) ps s) = ms_nextBox s"
  using rebuild_fold_fields [of u ps s] by (auto simp: box_def)

lemma refresh_view:
  assumes v: "view_ok s u ps" and sub: "ps \<subseteq> set qs" and pos: "\<And>m. m \<in> set (box s u) \<Longrightarrow> 0 < msg_ID m"
    and cleared: "\<And>m. cleared = Some m \<Longrightarrow> msg_ID m \<le> ms_nextBox s u \<and> msg_ID (top_message (box s u) (msg_Peer m)) \<le> msg_ID m"
  shows "view_ok (refresh_dialogs u qs cleared s) u {}"
proof -
  let ?s = "fold (rebuildMemoryDialogLocked u) qs s"
  have v1: "view_ok ?s u {}" using rebuild_fold_view [OF v pos, of qs] sub view_mono by (metis Diff_eq_empty_iff order_refl)
  show ?thesis
  proof (cases cleared)
    case None
    then show ?thesis using v1 by (simp add: refresh_dialogs_def)
  next
    case (Some m)
    let ?f = "\<lambda>d. d\<lparr>dg_ReadInboxMaxID := (if dg_ReadInboxMaxID d < msg_ID m then msg_ID m else dg_ReadInboxMaxID d),
                  dg_UnreadCount := 0, dg_UnreadMark := False, dg_UnreadMentions := 0, dg_UnreadReactions := 0\<rparr>"
    note c = cleared [OF Some]
    have "view_ok (advanceMemoryHistoryClearDialogLocked u (msg_Peer m) (msg_ID m) ?s) u {}"
    proof (rule view_change [OF v1, where f = ?f and p = "msg_Peer m"])
      show "dialogs_of (advanceMemoryHistoryClearDialogLocked u (msg_Peer m) (msg_ID m) ?s) u = change_dialog (msg_Peer m) ?f (dialogs_of ?s u)"
        by (simp add: dialogs_of_def advanceMemoryHistoryClearDialogLocked_def Let_def)
      fix d assume d: "d \<in> set (dialogs_of ?s u)" "dg_Peer d = msg_Peer m"
      have "incoming_after (box ?s u) (msg_Peer m) (dg_ReadInboxMaxID (?f d)) = 0"
        by (rule incoming_top) (use c in \<open>simp add: rebuild_fold_box\<close>)
      moreover have "dg_ReadInboxMaxID d \<le> ms_nextBox ?s u" using v1 d(1) by (simp add: view_ok_def)
      ultimately show "dg_ReadInboxMaxID (?f d) \<le> ms_nextBox ?s u \<and> (msg_Peer m \<notin> {} \<longrightarrow> exact ?s u d \<longrightarrow> exact ?s u (?f d))"
        using c d(2) by (simp add: exact_def Let_def rebuild_fold_box)
    qed (simp_all add: advanceMemoryHistoryClearDialogLocked_def Let_def box_def)
    then show ?thesis by (simp add: refresh_dialogs_def Some)
  qed
qed

end
