(* ===== verification/Private_View.thy ===== *)
theory Private_View
  imports Private_Dialogs
begin

text \<open>
  Every operation on the boxes leaves every dialog exact: the end of a deletion rebuilds what it made stale,
  reading recounts, and a send keeps the count of one side and raises that of the other.
\<close>

subsection \<open>The end of a deletion\<close>

definition same_account :: "message_store \<Rightarrow> message_store \<Rightarrow> int \<Rightarrow> bool" where
  "same_account s s' v \<longleftrightarrow> box s' v = box s v \<and> ms_dialogs s' v = ms_dialogs s v \<and> ms_nextBox s' v = ms_nextBox s v"

lemma same_account_view: "same_account s s' v \<Longrightarrow> view_ok s' v ps = view_ok s v ps"
  unfolding same_account_def by (intro view_cong) simp_all

lemma same_account_trans: "same_account a b v \<Longrightarrow> same_account b c v \<Longrightarrow> same_account a c v"
  by (simp add: same_account_def)

lemma receipts_same: "same_account s (fold (delete_receipt u e) rows s) v"
proof (induction rows arbitrary: s)
  case Nil
  then show ?case by (simp add: same_account_def)
next
  case (Cons d rows)
  have "same_account s (delete_receipt u e d s) v" by (auto simp: same_account_def delete_receipt_def split: option.splits)
  then show ?case using same_account_trans Cons by fastforce
qed

lemma rebuild_fold_other: "v \<noteq> u \<Longrightarrow> ms_dialogs (fold (rebuildMemoryDialogLocked u) ps s) v = ms_dialogs s v"
  by (induction ps arbitrary: s) (simp_all add: rebuildMemoryDialogLocked_def Let_def)

lemma refresh_other: "v \<noteq> u \<Longrightarrow> same_account s (refresh_dialogs u ps cleared s) v"
  using rebuild_fold_other [of v u ps s] rebuild_fold_box [of u ps s]
  by (auto simp: same_account_def refresh_dialogs_def advanceMemoryHistoryClearDialogLocked_def Let_def split: option.splits)

definition cleared_of :: "(int \<times> clear_anchor) list \<Rightarrow> int \<Rightarrow> private_message option" where
  "cleared_of anchors u = (case map_of anchors u of None \<Rightarrow> None | Some a \<Rightarrow> if ca_materialized a then None else Some (ca_message a))"

lemma finish_owner_parts:
  obtains (none) "fst (finish_owner rows anchors date u (s, items)) = s" "cleared_of anchors u = None"
      "normalizeMemoryMessageIDs (map dm_id (filter (\<lambda>d. dm_userID d = u) rows)) = []"
    | (some) s2 item cursor qs where "\<And>v. same_account s s2 v"
      "set qs = dm_peer ` {d \<in> set rows. dm_userID d = u} \<union> (case map_of anchors u of None \<Rightarrow> {} | Some a \<Rightarrow> {msg_Peer (ca_message a)})"
      "fst (finish_owner rows anchors date u (s, items)) = refresh_dialogs u qs (cleared_of anchors u)
         (case cleared_of anchors u of None \<Rightarrow> s2 | Some m \<Rightarrow> fst (materialize_anchor u date cursor m (s2, item)))"
proof -
  define mids where "mids = normalizeMemoryMessageIDs (map dm_id (filter (\<lambda>d. dm_userID d = u) rows))"
  define total where "total = int (length mids) + (if cleared_of anchors u \<noteq> None then 2 else 0)"
  obtain s1 pts where p: "nextPtsNLocked s u total = (s1, pts)" by (rule prod.exhaust)
  define event where "event = zero_event\<lparr>ue_UserID := u, ue_Type := UpdateEventDeleteMessages, ue_Pts := pts - total + int (length mids),
      ue_PtsCount := int (length mids), ue_Date := date, ue_MessageIDs := mids\<rparr>"
  define s2 where "s2 = (if mids \<noteq> [] then fold (delete_receipt u event) rows s1 else s1)"
  define item where "item = \<lparr>du_UserID = u, du_MessageIDs = mids, du_Event = (if mids \<noteq> [] then event else zero_event),
      du_Events = (if mids \<noteq> [] then [event] else []), du_Pts = pts, du_PtsCount = total\<rparr>"
  define qs where "qs = remdups (map dm_peer (filter (\<lambda>d. dm_userID d = u) rows) @ (case map_of anchors u of None \<Rightarrow> [] | Some a \<Rightarrow> [msg_Peer (ca_message a)]))"
  have eq: "fst (finish_owner rows anchors date u (s, items)) = (if total = 0 then s else refresh_dialogs u qs (cleared_of anchors u)
     (case cleared_of anchors u of None \<Rightarrow> s2 | Some m \<Rightarrow> fst (materialize_anchor u date (pts - total + int (length mids)) m (s2, item))))"
    unfolding finish_owner_def prod.case Let_def mids_def [symmetric] cleared_of_def [symmetric] total_def [symmetric] p
      event_def [symmetric] s2_def [symmetric] item_def [symmetric] qs_def [symmetric] by (cases "cleared_of anchors u") (simp_all add: split_beta)
  show ?thesis
  proof (cases "total = 0")
    case True
    then show ?thesis using none eq by (auto simp: total_def mids_def split: if_splits)
  next
    case False
    have "same_account s s1 v" for v using p by (auto simp: same_account_def nextPtsNLocked_def Let_def)
    moreover have "same_account s1 s2 v" for v by (simp add: s2_def receipts_same) (simp add: same_account_def)
    ultimately have "same_account s s2 v" for v using same_account_trans by blast
    moreover have "set qs = dm_peer ` {d \<in> set rows. dm_userID d = u} \<union> (case map_of anchors u of None \<Rightarrow> {} | Some a \<Rightarrow> {msg_Peer (ca_message a)})"
      by (auto simp: qs_def split: option.splits)
    moreover have "fst (finish_owner rows anchors date u (s, items)) = refresh_dialogs u qs (cleared_of anchors u)
     (case cleared_of anchors u of None \<Rightarrow> s2 | Some m \<Rightarrow> fst (materialize_anchor u date (pts - total + int (length mids)) m (s2, item)))"
      using eq False by simp
    ultimately show ?thesis by (rule some)
  qed
qed

text \<open>Clearing the anchor in place makes the dialog of its peer stale and no other.\<close>

lemma replace_other: "filter (\<lambda>x. msg_Peer x = p) (replace_message m ms) = filter (\<lambda>x. msg_Peer x = p) ms" if "p \<noteq> msg_Peer m"
  using that by (induction ms) auto

lemma replace_slots:
  "map (\<lambda>x. (msg_ID x, msg_Peer x)) (replace_message m ms) = map (\<lambda>x. (msg_ID x, msg_Peer x)) ms"
  by (induction ms) auto

lemma materialize_view:
  assumes v: "view_ok s u ps"
  shows "view_ok (fst (materialize_anchor u date cursor m (s, item))) u (insert (msg_Peer m) ps)"
    and "box (fst (materialize_anchor u date cursor m (s, item))) u =
      replace_message (NewHistoryClearMessage u (msg_Peer m) (msg_ID m) (pm_UID m) (msg_Date m) (cursor + 1 + 1)) (box s u)"
    and "ms_nextBox (fst (materialize_anchor u date cursor m (s, item))) = ms_nextBox s"
    and "v \<noteq> u \<Longrightarrow> same_account s (fst (materialize_anchor u date cursor m (s, item))) v"
proof -
  let ?msg = "NewHistoryClearMessage u (msg_Peer m) (msg_ID m) (pm_UID m) (msg_Date m) (cursor + 1 + 1)"
  let ?t = "fst (materialize_anchor u date cursor m (s, item))"
  show b: "box ?t u = replace_message ?msg (box s u)" and nb: "ms_nextBox ?t = ms_nextBox s"
    and "v \<noteq> u \<Longrightarrow> same_account s ?t v" by (simp_all add: materialize_anchor_def Let_def same_account_def)
  have ds: "dialogs_of ?t u = dialogs_of s u" by (simp add: dialogs_of_def materialize_anchor_def Let_def)
  have peer: "msg_Peer (NewHistoryClearMessage a q i uid date pts) = q" for a q i uid date pts by (simp add: NewHistoryClearMessage_def)
  have "exact ?t u d = exact s u d" if "dg_Peer d \<noteq> msg_Peer m" for d
    by (rule exact_peer) (unfold b, rule replace_other, simp add: peer that)
  moreover have "msg_Peer ` set (box ?t u) = msg_Peer ` set (box s u)"
    using arg_cong [OF replace_slots [of ?msg "box s u"], of "\<lambda>xs. snd ` set xs"] by (simp add: b image_image)
  ultimately show "view_ok ?t u (insert (msg_Peer m) ps)"
    using v unfolding view_ok_def ds nb by (simp add: image_subset_iff [symmetric])
qed

definition stale_peers :: "deleted_message list \<Rightarrow> int \<Rightarrow> peer set" where
  "stale_peers rows u = dm_peer ` {d \<in> set rows. dm_userID d = u}"

definition anchor_newest :: "(int \<times> clear_anchor) list \<Rightarrow> message_store \<Rightarrow> int \<Rightarrow> bool" where
  "anchor_newest anchors s u \<longleftrightarrow> (\<forall>a. map_of anchors u = Some a \<longrightarrow> msg_ID (ca_message a) \<le> ms_nextBox s u \<and>
     (\<forall>x \<in> set (box s u). msg_Peer x = msg_Peer (ca_message a) \<longrightarrow> msg_ID x \<le> msg_ID (ca_message a)))"

lemma anchor_newest_same: "same_account s s' u \<Longrightarrow> anchor_newest anchors s' u = anchor_newest anchors s u"
  by (simp add: same_account_def anchor_newest_def)

lemma top_le: "0 \<le> k \<Longrightarrow> (\<And>x. x \<in> set ms \<Longrightarrow> msg_Peer x = p \<Longrightarrow> msg_ID x \<le> k) \<Longrightarrow> msg_ID (top_message ms p) \<le> k"
  using top_message_props [of ms p] by (auto simp: zero_message_def)

lemma finish_owner_view:
  assumes v: "view_ok s u (stale_peers rows u)" and pos: "\<And>m. m \<in> set (box s u) \<Longrightarrow> 0 < msg_ID m"
    and small: "\<And>d. d \<in> set rows \<Longrightarrow> 0 < dm_id d \<and> dm_id d \<le> MaxMessageBoxID"
    and newest: "anchor_newest anchors s u" "\<And>a. map_of anchors u = Some a \<Longrightarrow> 0 \<le> msg_ID (ca_message a)"
  shows "view_ok (fst (finish_owner rows anchors date u (s, items))) u {}"
    and "w \<noteq> u \<Longrightarrow> same_account s (fst (finish_owner rows anchors date u (s, items))) w"
proof -
  have "view_ok (fst (finish_owner rows anchors date u (s, items))) u {} \<and> (w \<noteq> u \<longrightarrow> same_account s (fst (finish_owner rows anchors date u (s, items))) w)"
  proof (rule finish_owner_parts [of rows anchors date u s items])
    assume none: "fst (finish_owner rows anchors date u (s, items)) = s" "normalizeMemoryMessageIDs (map dm_id (filter (\<lambda>d. dm_userID d = u) rows)) = []"
    have "dm_id d \<in> set (normalizeMemoryMessageIDs (map dm_id (filter (\<lambda>d. dm_userID d = u) rows)))" if "d \<in> set rows" "dm_userID d = u" for d
      using small [OF that(1)] that by (simp add: normalizeMemoryMessageIDs_def)
    then have "stale_peers rows u = {}" unfolding none(2) by (auto simp: stale_peers_def)
    then show ?thesis using none(1) v by (simp add: same_account_def)
  next
    fix s2 item cursor qs
    assume same: "\<And>v. same_account s s2 v"
      and qs: "set qs = dm_peer ` {d \<in> set rows. dm_userID d = u} \<union> (case map_of anchors u of None \<Rightarrow> {} | Some a \<Rightarrow> {msg_Peer (ca_message a)})"
      and eq: "fst (finish_owner rows anchors date u (s, items)) = refresh_dialogs u qs (cleared_of anchors u)
         (case cleared_of anchors u of None \<Rightarrow> s2 | Some m \<Rightarrow> fst (materialize_anchor u date cursor m (s2, item)))"
    have v2: "view_ok s2 u (stale_peers rows u)" using v same_account_view [OF same] by simp
    show ?thesis
    proof (cases "cleared_of anchors u")
      case None
      have "view_ok (refresh_dialogs u qs None s2) u {}"
        by (rule refresh_view [OF v2]) (use qs pos same in \<open>auto simp: stale_peers_def same_account_def\<close>)
      moreover have "same_account s (refresh_dialogs u qs None s2) w" if "w \<noteq> u" using same_account_trans [OF same refresh_other [OF that]] .
      ultimately show ?thesis using eq None by simp
    next
      case (Some m)
      let ?t = "fst (materialize_anchor u date cursor m (s2, item))"
      obtain a where a: "map_of anchors u = Some a" "m = ca_message a" using Some by (auto simp: cleared_of_def split: option.splits if_splits)
      have vt: "view_ok ?t u (insert (msg_Peer m) (stale_peers rows u))" by (rule materialize_view(1) [OF v2])
      have slots: "(\<lambda>x. (msg_ID x, msg_Peer x)) ` set (box ?t u) = (\<lambda>x. (msg_ID x, msg_Peer x)) ` set (box s u)"
        using arg_cong [OF replace_slots, of set] same [of u] by (simp add: materialize_view(2) [OF v2] same_account_def)
      have slot: "\<exists>y \<in> set (box s u). msg_ID y = msg_ID x \<and> msg_Peer y = msg_Peer x" if x: "x \<in> set (box ?t u)" for x
      proof -
        have "(msg_ID x, msg_Peer x) \<in> (\<lambda>x. (msg_ID x, msg_Peer x)) ` set (box s u)" unfolding slots [symmetric] using x by (rule imageI)
        then show ?thesis by auto
      qed
      have pos_t: "0 < msg_ID x" if "x \<in> set (box ?t u)" for x using slot [OF that] pos by force
      have newest_t: "msg_ID x \<le> msg_ID m" if "x \<in> set (box ?t u)" "msg_Peer x = msg_Peer m" for x
        using slot [OF that(1)] that(2) newest(1) a by (auto simp: anchor_newest_def)
      have "view_ok (refresh_dialogs u qs (Some m) ?t) u {}"
      proof (rule refresh_view [OF vt _ pos_t])
        show "insert (msg_Peer m) (stale_peers rows u) \<subseteq> set qs" using qs a by (auto simp: stale_peers_def)
        fix m' assume "Some m = Some m'"
        then show "msg_ID m' \<le> ms_nextBox ?t u \<and> msg_ID (top_message (box ?t u) (msg_Peer m')) \<le> msg_ID m'"
          using newest a same [of u] top_le [of "msg_ID m" "box ?t u" "msg_Peer m"] newest_t
          by (auto simp: materialize_view(3) [OF v2] anchor_newest_def same_account_def)
      qed
      moreover have "same_account s (refresh_dialogs u qs (Some m) ?t) w" if "w \<noteq> u"
        using same_account_trans [OF same_account_trans [OF same materialize_view(4) [OF v2 that]] refresh_other [OF that]] .
      ultimately show ?thesis using eq Some by simp
    qed
  qed
  then show "view_ok (fst (finish_owner rows anchors date u (s, items))) u {}"
    "w \<noteq> u \<Longrightarrow> same_account s (fst (finish_owner rows anchors date u (s, items))) w" by simp_all
qed

lemma finish_fold_view:
  assumes small: "\<And>d. d \<in> set rows \<Longrightarrow> 0 < dm_id d \<and> dm_id d \<le> MaxMessageBoxID" and "distinct us"
    and "\<And>u. u \<in> set us \<Longrightarrow> view_ok s u (stale_peers rows u) \<and> anchor_newest anchors s u \<and> (\<forall>m \<in> set (box s u). 0 < msg_ID m) \<and>
      (\<forall>a. map_of anchors u = Some a \<longrightarrow> 0 \<le> msg_ID (ca_message a))"
    and "\<And>u. u \<notin> set us \<Longrightarrow> view_ok s u {}"
  shows "view_ok (fst (fold (finish_owner rows anchors date) us (s, items))) w {}"
  using assms(2-4)
proof (induction us arbitrary: s items)
  case Nil
  then show ?case by simp
next
  case (Cons u us)
  obtain s1 items1 where f: "finish_owner rows anchors date u (s, items) = (s1, items1)" by (rule prod.exhaust)
  have u: "view_ok s u (stale_peers rows u)" "anchor_newest anchors s u" "\<And>m. m \<in> set (box s u) \<Longrightarrow> 0 < msg_ID m"
    "\<And>a. map_of anchors u = Some a \<Longrightarrow> 0 \<le> msg_ID (ca_message a)" using Cons.prems(2) [of u] by auto
  have now: "view_ok s1 u {}" and same: "\<And>v. v \<noteq> u \<Longrightarrow> same_account s s1 v"
    using finish_owner_view [OF u(1,3) small u(2,4), where date = date and items = items] f by simp_all
  have "view_ok (fst (fold (finish_owner rows anchors date) us (s1, items1))) w {}"
  proof (rule Cons.IH)
    show "distinct us" using Cons.prems(1) by simp
    fix v assume v: "v \<in> set us"
    then have "v \<noteq> u" using Cons.prems(1) by auto
    then have sv: "same_account s s1 v" by (rule same)
    then show "view_ok s1 v (stale_peers rows v) \<and> anchor_newest anchors s1 v \<and> (\<forall>m \<in> set (box s1 v). 0 < msg_ID m) \<and>
      (\<forall>a. map_of anchors v = Some a \<longrightarrow> 0 \<le> msg_ID (ca_message a))"
      using Cons.prems(2) [of v] v same_account_view [OF sv] anchor_newest_same [OF sv] sv by (simp add: same_account_def)
  next
    fix v assume "v \<notin> set us"
    then show "view_ok s1 v {}" using now Cons.prems(3) [of v] same_account_view [OF same [of v]] by (cases "v = u") simp_all
  qed
  then show ?case using f by simp
qed

end
