(* ===== verification/Private_Exact.thy ===== *)
theory Private_Exact
  imports Private_View
begin

text \<open>
  Dialogs are exact after every operation: deletions, clears and reads, sends, and runs of them.
\<close>

subsection \<open>Deletions\<close>

definition views_ok :: "message_store \<Rightarrow> bool" where
  "views_ok s \<longleftrightarrow> (\<forall>u. view_ok s u {})"

lemma drop_tags_same: "same_account s (drop_tags rows s) u"
  unfolding drop_tags_def
proof (induction rows arbitrary: s)
  case Nil
  then show ?case by (simp add: same_account_def)
next
  case (Cons d rows)
  let ?t = "s\<lparr>ms_savedMessageTags := (ms_savedMessageTags s)((dm_userID d, dm_id d) := None)\<rparr>"
  have "same_account s ?t u" by (simp add: same_account_def)
  from same_account_trans [OF this Cons.IH] show ?case by (simp only: fold_Cons o_apply)
qed

lemma anchor_top:
  assumes "boxes_ok s" "memoryHistoryClearAnchorLocked s u q = Some a"
  shows "0 \<le> msg_ID (ca_message a)" "msg_ID (ca_message a) \<le> ms_nextBox s u"
    "x \<in> set (box s u) \<Longrightarrow> msg_Peer x = msg_Peer (ca_message a) \<Longrightarrow> msg_ID x \<le> msg_ID (ca_message a)"
proof -
  note fits = anchor_fits(2,3) [OF boxes_okD(1) [OF assms(1)] assms(2)]
  have "ca_message a = top_message (box s u) q"
    using assms(2) by (auto simp: memoryHistoryClearAnchorLocked_def Let_def split: if_splits)
  then show "x \<in> set (box s u) \<Longrightarrow> msg_Peer x = msg_Peer (ca_message a) \<Longrightarrow> msg_ID x \<le> msg_ID (ca_message a)"
    using top_bound fits(2) by metis
  show "0 \<le> msg_ID (ca_message a)" "msg_ID (ca_message a) \<le> ms_nextBox s u"
    using boxes_okD(5,6) [OF assms(1) fits(1)] by simp_all
qed

lemma finish_view:
  assumes ok: "boxes_ok s" and views: "views_ok s" and small: "\<And>u. ms_nextBox s u \<le> MaxMessageBoxID"
    and l: "leaves s t" and rows: "removes s t rows" and dialogs: "ms_dialogs t = ms_dialogs s"
    and anchors: "\<And>u a. map_of anchors u = Some a \<Longrightarrow> \<exists>q. memoryHistoryClearAnchorLocked s u q = Some a"
  shows "views_ok (fst (finishMemoryDeleteLocked t res rows date anchors))"
proof -
  let ?t = "drop_tags rows t" and ?us = "sort (remdups (map dm_userID rows @ map fst (filter (\<lambda>(u, a). \<not> ca_materialized a) anchors)))"
  have same: "same_account t ?t u" for u by (rule drop_tags_same)
  have nb: "ms_nextBox t = ms_nextBox s" using l by (simp add: leaves_def)
  have removed: "\<exists>D. D \<subseteq> set (box s u) \<and> box t u = filter (\<lambda>m. m \<notin> D) (box s u) \<and> {d \<in> set rows. dm_userID d = u} = deleted_row u ` D" for u
    using rows by (simp add: removes_def)
  have view_t: "view_ok t u (stale_peers rows u)" for u
  proof -
    obtain D where D: "box t u = filter (\<lambda>m. m \<notin> D) (box s u)" "{d \<in> set rows. dm_userID d = u} = deleted_row u ` D" using removed by blast
    have "stale_peers rows u = msg_Peer ` D" unfolding stale_peers_def D(2) by (simp add: image_image deleted_row_def)
    then show ?thesis using view_removed [OF _ D(1)] views dialogs nb by (simp add: views_ok_def)
  qed
  have ids: "0 < dm_id d \<and> dm_id d \<le> MaxMessageBoxID" if d: "d \<in> set rows" for d
  proof -
    obtain D where D: "D \<subseteq> set (box s (dm_userID d))" "{e \<in> set rows. dm_userID e = dm_userID d} = deleted_row (dm_userID d) ` D"
      using removed [of "dm_userID d"] by blast
    have "d \<in> deleted_row (dm_userID d) ` D" unfolding D(2) [symmetric] using d by simp
    then obtain m where m: "m \<in> D" "d = deleted_row (dm_userID d) m" by blast
    have "dm_id d = msg_ID m" by (subst m(2)) (simp add: deleted_row_def)
    then show ?thesis using boxes_okD(5,6) [OF ok, of m "dm_userID d"] m(1) D(1) small [of "dm_userID d"] by fastforce
  qed
  have sub: "set (box t u) \<subseteq> set (box s u)" for u using removed [of u] by auto
  have nonneg: "0 \<le> msg_ID (ca_message a)" if "map_of anchors u = Some a" for u a using anchors [OF that] anchor_top(1) [OF ok] by blast
  have newest: "anchor_newest anchors t u" for u
    unfolding anchor_newest_def nb
  proof (intro allI impI conjI ballI)
    fix a assume "map_of anchors u = Some a"
    then obtain q where q: "memoryHistoryClearAnchorLocked s u q = Some a" using anchors by blast
    show "msg_ID (ca_message a) \<le> ms_nextBox s u" by (rule anchor_top(2) [OF ok q])
    fix x assume "x \<in> set (box t u)" "msg_Peer x = msg_Peer (ca_message a)"
    then show "msg_ID x \<le> msg_ID (ca_message a)" using anchor_top(3) [OF ok q] sub [of u] by blast
  qed
  have "view_ok (fst (fold (finish_owner rows anchors date) ?us (?t, []))) w {}" for w
  proof (rule finish_fold_view)
    show "\<And>d. d \<in> set rows \<Longrightarrow> 0 < dm_id d \<and> dm_id d \<le> MaxMessageBoxID" by (rule ids)
    show "distinct ?us" by simp
    fix u
    show "view_ok ?t u (stale_peers rows u) \<and> anchor_newest anchors ?t u \<and> (\<forall>m \<in> set (box ?t u). 0 < msg_ID m) \<and>
        (\<forall>a. map_of anchors u = Some a \<longrightarrow> 0 \<le> msg_ID (ca_message a))"
      using same_account_view [OF same] anchor_newest_same [OF same] view_t newest nonneg sub [of u] boxes_okD(5) [OF ok] same [of u]
      by (auto simp: same_account_def)
    assume "u \<notin> set ?us"
    then have "stale_peers rows u = {}" by (auto simp: stale_peers_def)
    then show "view_ok ?t u {}" using view_t [of u] same_account_view [OF same] by simp
  qed
  moreover have "view_ok t w {}" if "rows = []" for w using view_t [of w] that by (simp add: stale_peers_def)
  ultimately show ?thesis by (auto simp: views_ok_def finishMemoryDeleteLocked_def Let_def split_beta)
qed

lemma delete_messages_view:
  assumes ok: "boxes_ok s" and views: "views_ok s" and small: "\<And>u. ms_nextBox s u \<le> MaxMessageBoxID"
  shows "views_ok (fst (DeleteMessages now s owner rawIDs revoke date0))"
proof (cases "owner \<noteq> 0 \<and> normalizeMemoryMessageIDs rawIDs \<noteq> [] \<and> int (length (normalizeMemoryMessageIDs rawIDs)) \<le> MaxDeleteMessageIDs")
  case True
  then have c: "owner \<noteq> 0" "int (length (normalizeMemoryMessageIDs rawIDs)) \<le> MaxDeleteMessageIDs" "normalizeMemoryMessageIDs rawIDs \<noteq> []" by simp_all
  show ?thesis
  proof (rule delete_messages_stage [OF boxes_okD(1) [OF ok] c, of now revoke date0])
    fix t rows res date
    assume st: "leaves s t" "removes s t rows" "ms_dialogs t = ms_dialogs s"
      and eq: "fst (DeleteMessages now s owner rawIDs revoke date0) = fst (finishMemoryDeleteLocked t res rows date [])"
    show ?thesis unfolding eq by (rule finish_view [OF ok views small st]) simp
  qed
next
  case False
  then have "fst (DeleteMessages now s owner rawIDs revoke date0) = s" by (auto simp: DeleteMessages_def Let_def)
  then show ?thesis using views by simp
qed

lemma delete_history_view:
  assumes ok: "boxes_ok s" and views: "views_ok s" and small: "\<And>u. ms_nextBox s u \<le> MaxMessageBoxID"
  shows "views_ok (fst (DeleteHistory now s req))"
proof (cases "dh_OwnerUserID req = 0 \<or> peer_ID (dh_Peer req) = 0")
  case True
  then have "fst (DeleteHistory now s req) = s" by (simp add: DeleteHistory_def Let_def)
  then show ?thesis using views by simp
next
  case False
  then have "dh_OwnerUserID req \<noteq> 0" "peer_ID (dh_Peer req) \<noteq> 0" by simp_all
  then show ?thesis
  proof (rule delete_history_parts [OF boxes_okD(1) [OF ok], where now = now])
    fix t rows anchors res date
    assume st: "leaves s t" "removes s t rows" "ms_dialogs t = ms_dialogs s"
      and eq: "fst (DeleteHistory now s req) = fst (finishMemoryDeleteLocked t res rows date anchors)"
      and a: "\<And>u a. map_of anchors u = Some a \<Longrightarrow>
       dh_JustClear req \<and> (\<exists>q. memoryHistoryClearAnchorLocked s u q = Some a) \<and> ca_message a \<in> set (box t u)"
    show ?thesis unfolding eq by (rule finish_view [OF ok views small st]) (use a in blast)
  qed
qed

subsection \<open>Reading\<close>

lemma views_change:
  assumes views: "views_ok s" and t: "\<And>v. box t v = box s v" "ms_nextBox t = ms_nextBox s" "\<And>v. v \<noteq> u \<Longrightarrow> ms_dialogs t v = ms_dialogs s v"
    "dialogs_of t u = change_dialog p f (dialogs_of s u)"
    and f: "\<And>d. dg_Peer (f d) = dg_Peer d"
    and good: "\<And>d. d \<in> set (dialogs_of s u) \<Longrightarrow> dg_Peer d = p \<Longrightarrow> exact s u d \<Longrightarrow> dg_ReadInboxMaxID d \<le> ms_nextBox s u \<Longrightarrow>
      dg_ReadInboxMaxID (f d) \<le> ms_nextBox s u \<and> exact s u (f d)"
  shows "views_ok t"
  unfolding views_ok_def
proof
  fix v
  have v: "view_ok s v {}" using views by (simp add: views_ok_def)
  show "view_ok t v {}"
  proof (cases "v = u")
    case True
    show ?thesis unfolding True
    proof (rule view_change [OF v [unfolded True] _ _ t(4) f])
      fix d assume d: "d \<in> set (dialogs_of s u)" "dg_Peer d = p"
      then have "exact s u d \<and> dg_ReadInboxMaxID d \<le> ms_nextBox s u" using v unfolding True view_ok_def by blast
      then show "dg_ReadInboxMaxID (f d) \<le> ms_nextBox s u \<and> (p \<notin> {} \<longrightarrow> exact s u d \<longrightarrow> exact s u (f d))" using good [OF d] by blast
    qed (simp_all add: t)
  next
    case False
    then have "view_ok t v {} = view_ok s v {}" using t by (intro view_cong) simp_all
    then show ?thesis using v by simp
  qed
qed

lemma the_dialog:
  assumes "views_ok s" "find_dialog s u p = Some dialog" "d \<in> set (dialogs_of s u)" "dg_Peer d = p"
  shows "d = dialog"
proof -
  have "inj_on dg_Peer (set (dialogs_of s u))" using assms(1) by (simp add: views_ok_def view_ok_def distinct_map)
  then show ?thesis using find_dialogD [OF assms(2)] assms(3,4) by (metis inj_onD)
qed

lemma exact_top_bound:
  assumes "boxes_ok s" "exact s u d"
  shows "dg_TopMessage d \<le> ms_nextBox s u"
proof -
  let ?top = "top_message (box s u) (dg_Peer d)"
  have "?top \<noteq> zero_message" using assms(2) by (auto simp: exact_def Let_def zero_message_def)
  then have "?top \<in> set (box s u)" using top_message_props by blast
  then show ?thesis using boxes_okD(6) [OF assms(1)] assms(2) by (simp add: exact_def Let_def)
qed

lemma dialogs_put: "dialogs_of (put_dialogs s u ds) v = (if v = u then ds else dialogs_of s v)"
  by (simp add: dialogs_of_def put_dialogs_def)

lemma read_outbox_view:
  assumes "views_ok s"
  shows "views_ok (fst (read_outbox owner date latest (s, res)))"
proof -
  define t where "t = fst (read_outbox owner date latest (s, res))"
  have "t = s \<or> (\<exists>u p k. (\<forall>v. box t v = box s v) \<and> ms_nextBox t = ms_nextBox s \<and> (\<forall>v. v \<noteq> u \<longrightarrow> ms_dialogs t v = ms_dialogs s v) \<and>
      dialogs_of t u = change_dialog p (\<lambda>d. d\<lparr>dg_ReadOutboxMaxID := k\<rparr>) (dialogs_of s u))"
  proof (cases "t = s")
    case False
    define u where "u = peer_ID (pm_From latest)"
    define k where "k = (case find (\<lambda>m. pm_UID m = pm_UID latest \<and> pm_Out m) (box s u) of None \<Rightarrow> 0 | Some m \<Rightarrow> msg_ID m)"
    have "(\<forall>v. box t v = box s v) \<and> ms_nextBox t = ms_nextBox s \<and> (\<forall>v. v \<noteq> u \<longrightarrow> ms_dialogs t v = ms_dialogs s v) \<and>
        dialogs_of t u = change_dialog (user_peer owner) (\<lambda>d. d\<lparr>dg_ReadOutboxMaxID := k\<rparr>) (dialogs_of s u)"
      using False unfolding t_def read_outbox_def Let_def prod.case u_def [symmetric] k_def [symmetric]
      by (auto simp: nextPtsLocked_def Let_def put_dialogs_def dialogs_of_def box_def split: option.splits if_splits)
    then show ?thesis by blast
  qed simp
  then show ?thesis
  proof
    assume "\<exists>u p k. (\<forall>v. box t v = box s v) \<and> ms_nextBox t = ms_nextBox s \<and> (\<forall>v. v \<noteq> u \<longrightarrow> ms_dialogs t v = ms_dialogs s v) \<and>
      dialogs_of t u = change_dialog p (\<lambda>d. d\<lparr>dg_ReadOutboxMaxID := k\<rparr>) (dialogs_of s u)"
    then obtain u p k where t: "\<And>v. box t v = box s v" "ms_nextBox t = ms_nextBox s" "\<And>v. v \<noteq> u \<Longrightarrow> ms_dialogs t v = ms_dialogs s v"
      "dialogs_of t u = change_dialog p (\<lambda>d. d\<lparr>dg_ReadOutboxMaxID := k\<rparr>) (dialogs_of s u)" by blast
    have "views_ok t" by (rule views_change [OF assms t]) (simp_all add: exact_def Let_def)
    then show ?thesis by (simp add: t_def)
  qed (use assms in \<open>simp add: t_def\<close>)
qed

text \<open>Reading a dialog, with the position clamped to its top message.\<close>

definition read_max :: "dialog \<Rightarrow> int \<Rightarrow> int" where
  "read_max d maxID = (if (if maxID \<le> 0 then dg_TopMessage d else maxID) > dg_TopMessage d then dg_TopMessage d
     else if maxID \<le> 0 then dg_TopMessage d else maxID)"

definition recounted :: "message_store \<Rightarrow> int \<Rightarrow> dialog \<Rightarrow> dialog \<Rightarrow> dialog" where
  "recounted s u dialog d = d\<lparr>dg_UnreadCount := incoming_after (box s u) (dg_Peer dialog) (dg_ReadInboxMaxID dialog), dg_UnreadMentions := 0, dg_UnreadMark := False\<rparr>"

definition read_to :: "message_store \<Rightarrow> int \<Rightarrow> peer \<Rightarrow> int \<Rightarrow> dialog \<Rightarrow> dialog" where
  "read_to s u p k d = d\<lparr>dg_ReadInboxMaxID := k, dg_UnreadCount := incoming_after (box s u) p k, dg_UnreadMentions := 0, dg_UnreadMark := False\<rparr>"

definition inbox_read :: "message_store \<Rightarrow> int \<Rightarrow> peer \<Rightarrow> int \<Rightarrow> message_store" where
  "inbox_read s u p k = put_dialogs (fst (nextPtsLocked s u)) u (change_dialog p (read_to s u p k) (dialogs_of s u))"

lemma ReadHistory_state:
  assumes "owner \<noteq> 0" "peer_ID p \<noteq> 0" and dialog: "find_dialog s owner p = Some dialog"
  obtains res where "fst (ReadHistory now s owner p maxID date0) =
      (if \<not> read_max dialog maxID > dg_ReadInboxMaxID dialog then
         (if dg_UnreadCount dialog > 0 then put_dialogs s owner (change_dialog p (recounted s owner dialog) (dialogs_of s owner)) else s)
       else fst (read_outbox owner (if date0 = 0 then now else date0)
         (latest_incoming (box s owner) p (dg_ReadInboxMaxID dialog) (read_max dialog maxID)) (inbox_read s owner p (read_max dialog maxID), res)))"
proof -
  have peer: "dg_Peer dialog = p" using find_dialogD [OF dialog] by simp
  have "\<exists>res. fst (ReadHistory now s owner p maxID date0) =
      (if \<not> read_max dialog maxID > dg_ReadInboxMaxID dialog then
         (if dg_UnreadCount dialog > 0 then put_dialogs s owner (change_dialog p (recounted s owner dialog) (dialogs_of s owner)) else s)
       else fst (read_outbox owner (if date0 = 0 then now else date0)
         (latest_incoming (box s owner) p (dg_ReadInboxMaxID dialog) (read_max dialog maxID)) (inbox_read s owner p (read_max dialog maxID), res)))"
    using assms unfolding ReadHistory_def Let_def dialog option.case dialogs_of_def [symmetric] read_max_def [symmetric]
    by (simp add: split_beta recounted_def [abs_def] read_to_def [abs_def] inbox_read_def peer) blast
  then show ?thesis using that by blast
qed

lemma read_view:
  assumes ok: "boxes_ok s" and views: "views_ok s"
  shows "views_ok (fst (ReadHistory now s owner p maxID date0))"
proof (cases "owner = 0 \<or> peer_ID p = 0 \<or> find_dialog s owner p = None")
  case True
  then have "fst (ReadHistory now s owner p maxID date0) = s" by (auto simp: ReadHistory_def Let_def)
  then show ?thesis using views by simp
next
  case False
  then obtain dialog where dialog: "find_dialog s owner p = Some dialog" by blast
  have d0: "exact s owner dialog" "dg_Peer dialog = p" using views find_dialogD [OF dialog] by (simp_all add: views_ok_def view_ok_def)
  have max: "read_max dialog maxID \<le> ms_nextBox s owner" using exact_top_bound [OF ok d0(1)] by (simp add: read_max_def)
  have one: "views_ok (put_dialogs s owner (change_dialog p (recounted s owner dialog) (dialogs_of s owner)))"
  proof (rule views_change [OF views, where u = owner and p = p and f = "recounted s owner dialog"])
    fix d assume d: "d \<in> set (dialogs_of s owner)" "dg_Peer d = p" "exact s owner d" "dg_ReadInboxMaxID d \<le> ms_nextBox s owner"
    then show "dg_ReadInboxMaxID (recounted s owner dialog d) \<le> ms_nextBox s owner \<and> exact s owner (recounted s owner dialog d)"
      using the_dialog [OF views dialog d(1,2)] d0(2) by (simp add: recounted_def exact_def Let_def)
  qed (simp_all add: recounted_def dialogs_put, simp_all add: put_dialogs_def)
  have "views_ok (inbox_read s owner p (read_max dialog maxID))"
  proof (rule views_change [OF views, where u = owner and p = p and f = "read_to s owner p (read_max dialog maxID)"])
    fix d assume d: "d \<in> set (dialogs_of s owner)" "dg_Peer d = p" "exact s owner d" "dg_ReadInboxMaxID d \<le> ms_nextBox s owner"
    then show "dg_ReadInboxMaxID (read_to s owner p (read_max dialog maxID) d) \<le> ms_nextBox s owner \<and> exact s owner (read_to s owner p (read_max dialog maxID) d)"
      using max by (simp add: read_to_def exact_def Let_def)
  qed (simp_all add: inbox_read_def read_to_def dialogs_put, simp_all add: put_dialogs_def nextPtsLocked_def Let_def)
  then have two: "views_ok (fst (read_outbox owner date latest (inbox_read s owner p (read_max dialog maxID), res)))" for date latest res
    by (rule read_outbox_view)
  have "owner \<noteq> 0" "peer_ID p \<noteq> 0" using False by simp_all
  then show ?thesis
    by (rule ReadHistory_state [OF _ _ dialog, of now maxID date0]) (use one two views in \<open>simp split: if_split\<close>)
qed

end
