(* ===== verification/Private_Once.thy ===== *)
theory Private_Once
  imports Private_Delete
begin

text \<open>
  A random id is used once: the receipt of a send stays what it was, so a retry never sends again, and the
  message it names is in the sender's box or its deletion is recorded.
\<close>

subsection \<open>Receipts over a run\<close>

lemma receipt_stays_step:
  assumes "ids_ok s" "ms_privateSendDedup s k = Some r"
  shows "\<exists>e. ms_privateSendDedup (fst (pm_step digest op s)) k = Some (r\<lparr>dd_senderDeleteEvent := e\<rparr>)"
proof -
  obtain s' a where step: "pm_step digest op s = (s', a)" by (rule prod.exhaust)
  show ?thesis
  proof (rule pm_step_cases [OF assms(1) step])
    assume "leaves s s'"
    then have "receipts_kept s s'" by (simp add: leaves_def)
    then show ?thesis using receipts_forward assms(2) step by fastforce
  next
    fix now quote req fp a b sender recipient alloc
    assume "s' = commit_send s (dated now req) fp alloc sender recipient" "ms_privateSendDedup s (sp_SenderUserID req, sp_RandomID req) = None"
    then have "ms_privateSendDedup s' k = Some r" using assms(2) by (auto simp: commit_fields dated_def)
    then show ?thesis using step by (intro exI [of _ "dd_senderDeleteEvent r"]) simp
  qed
qed

lemma receipt_stays:
  assumes "boxes_ok s" "ms_privateSendDedup s k = Some r"
  shows "\<exists>e. ms_privateSendDedup (fst (pm_run digest ops s)) k = Some (r\<lparr>dd_senderDeleteEvent := e\<rparr>)"
  using assms
proof (induction ops arbitrary: s r)
  case Nil
  then show ?case by (intro exI [of _ "dd_senderDeleteEvent r"]) simp
next
  case (Cons op ops)
  obtain e where "ms_privateSendDedup (fst (pm_step digest op s)) k = Some (r\<lparr>dd_senderDeleteEvent := e\<rparr>)"
    using receipt_stays_step [OF boxes_okD(1) [OF Cons.prems(1)] Cons.prems(2)] by blast
  from Cons.IH [OF boxes_ok_step [OF Cons.prems(1)] this] show ?case by (simp add: Let_def split_beta)
qed

subsection \<open>Messages behind receipts\<close>

text \<open>
  The message of a receipt, as it was sent, is in its sender's box until its deletion is recorded, and no
  other message has its place.
\<close>

definition backed :: "message_store \<Rightarrow> int \<times> int \<Rightarrow> bool" where
  "backed s k \<longleftrightarrow> (\<forall>r. ms_privateSendDedup s k = Some r \<longrightarrow> dd_senderSnapshot r \<in> set (box s (fst k)) \<or> dd_senderDeleteEvent r \<noteq> None)"

definition all_backed :: "message_store \<Rightarrow> bool" where
  "all_backed s \<longleftrightarrow> (\<forall>k. backed s k) \<and>
     (\<forall>k r. \<forall>m \<in> set (box s (fst k)). ms_privateSendDedup s k = Some r \<and> pm_UID m = pm_UID (dd_senderSnapshot r) \<longrightarrow> m = dd_senderSnapshot r) \<and>
     (\<forall>u. \<forall>m \<in> set (box s u). pm_Out m \<longrightarrow> pm_From m = user_peer u)"

lemma all_backedD:
  assumes "all_backed s" "ms_privateSendDedup s k = Some r"
  shows "dd_senderSnapshot r \<in> set (box s (fst k)) \<or> dd_senderDeleteEvent r \<noteq> None"
  using assms unfolding all_backed_def backed_def by blast

lemma all_backed_current:
  assumes "all_backed s" "ms_privateSendDedup s k = Some r" "m \<in> set (box s (fst k))" "pm_UID m = pm_UID (dd_senderSnapshot r)"
  shows "m = dd_senderSnapshot r"
  using assms unfolding all_backed_def by blast

lemma all_backed_new: "all_backed (NewMessageStore events)"
  by (simp add: all_backed_def backed_def NewMessageStore_def box_def)

lemma all_backed_deletes:
  assumes ok: "boxes_ok s" and backed: "all_backed s" and l: "leaves s s'" and d: "deletes s s' rows"
    and small: "\<And>u. ms_nextBox s u \<le> MaxMessageBoxID"
  shows "all_backed s'"
proof -
  have removed: "\<exists>D. D \<subseteq> set (box s u) \<and> box s' u = filter (\<lambda>m. m \<notin> D) (box s u) \<and> {d \<in> set rows. dm_userID d = u} = deleted_row u ` D" for u
    using d by (simp add: deletes_def removes_def)
  have "backed s' k" for k
    unfolding backed_def
  proof (intro allI impI)
    fix r' assume r': "ms_privateSendDedup s' k = Some r'"
    then obtain r e where r: "ms_privateSendDedup s k = Some r" "r' = r\<lparr>dd_senderDeleteEvent := e\<rparr>"
      using receipts_back [of s s' k r'] l by (auto simp: leaves_def)
    let ?m = "dd_senderSnapshot r"
    have "?m \<in> set (box s (fst k)) \<or> dd_senderDeleteEvent r \<noteq> None" by (rule all_backedD [OF backed r(1)])
    then show "dd_senderSnapshot r' \<in> set (box s' (fst k)) \<or> dd_senderDeleteEvent r' \<noteq> None"
    proof
      assume "dd_senderDeleteEvent r \<noteq> None"
      then show ?thesis using receipts_forward [of s s' k r] l r(1) r' by (auto simp: leaves_def)
    next
      assume m: "?m \<in> set (box s (fst k))"
      have ok_r: "receipt_ok s k r" by (rule boxes_okD(10) [OF ok r(1)])
      obtain D where D: "box s' (fst k) = filter (\<lambda>m. m \<notin> D) (box s (fst k))" "{d \<in> set rows. dm_userID d = fst k} = deleted_row (fst k) ` D"
        using removed by blast
      show ?thesis
      proof (cases "?m \<in> D")
        case True
        then have row: "deleted_row (fst k) ?m \<in> set rows" using D(2) by blast
        have "due (deleted_row (fst k) ?m)"
          using ok_r m backed boxes_okD(5,6,7) [OF ok m] small [of "fst k"]
          by (auto simp: due_def deleted_row_def receipt_ok_def Let_def all_backed_def user_peer_def DecodePrivateSendSnapshot_def split: if_splits)
        moreover have "(dm_userID (deleted_row (fst k) ?m), dm_randomID (deleted_row (fst k) ?m)) = k"
          using ok_r by (simp add: deleted_row_def receipt_ok_def Let_def)
        ultimately have "recorded s' k" using d row r(1) unfolding deletes_def by fastforce
        then show ?thesis using r' by (simp add: recorded_def)
      next
        case False
        then show ?thesis using m r(2) unfolding D(1) by simp
      qed
    qed
  qed
  moreover have "pm_From m = user_peer u" if "m \<in> set (box s' u)" "pm_Out m" for u m
    using removed [of u] that backed by (auto simp: all_backed_def)
  moreover have "m = dd_senderSnapshot r'"
    if m: "m \<in> set (box s' (fst k))" and r': "ms_privateSendDedup s' k = Some r'" "pm_UID m = pm_UID (dd_senderSnapshot r')" for k r' m
  proof -
    obtain r e where r: "ms_privateSendDedup s k = Some r" "r' = r\<lparr>dd_senderDeleteEvent := e\<rparr>"
      using receipts_back [of s s' k r'] l r'(1) by (auto simp: leaves_def)
    have "m \<in> set (box s (fst k))" using removed [of "fst k"] m by auto
    then show ?thesis using all_backed_current [OF backed r(1)] r(2) r'(2) by simp
  qed
  ultimately show ?thesis unfolding all_backed_def by blast
qed

lemma all_backed_same:
  assumes "all_backed s" "ms_m s' = ms_m s" "ms_privateSendDedup s' = ms_privateSendDedup s"
  shows "all_backed s'"
proof -
  have "box s' u = box s u" for u using assms(2) by (simp add: box_def)
  then show ?thesis using assms(1,3) by (simp only: all_backed_def backed_def)
qed

lemma all_backed_commit:
  assumes ok: "boxes_ok s" and backed: "all_backed s" and c: "send_commits s req fp a b sender recipient alloc"
  shows "all_backed (commit_send s req fp alloc sender recipient)" (is "all_backed ?t")
proof -
  have grows: "set (box s v) \<subseteq> set (box ?t v)" for v by (auto simp: commit_boxes)
  have "backed ?t k" for k
    unfolding backed_def
  proof (intro allI impI)
    fix r assume r: "ms_privateSendDedup ?t k = Some r"
    show "dd_senderSnapshot r \<in> set (box ?t (fst k)) \<or> dd_senderDeleteEvent r \<noteq> None"
    proof (cases "ms_privateSendDedup s k = Some r")
      case True
      then show ?thesis using all_backedD [OF backed True] grows by blast
    next
      case False
      then show ?thesis using r by (auto simp: commit_fields commit_boxes split: if_splits)
    qed
  qed
  moreover have "pm_From m = user_peer u" if "m \<in> set (box ?t u)" "pm_Out m" for u m
    using that backed copies(6,13) [OF c] by (auto simp: commit_boxes all_backed_def split: if_splits)
  moreover have "m = dd_senderSnapshot r"
    if m: "m \<in> set (box ?t (fst k))" and r: "ms_privateSendDedup ?t k = Some r" "pm_UID m = pm_UID (dd_senderSnapshot r)" for k r m
  proof (cases "ms_privateSendDedup s k = Some r")
    case True
    then have "pm_UID m < ms_nextUID s" using boxes_okD(10) [OF ok True] r(2) by (simp add: receipt_ok_def Let_def)
    then have "m \<in> set (box s (fst k))" using m copies(2,10) [OF c] by (auto simp: commit_boxes split: if_splits)
    then show ?thesis using all_backed_current [OF backed True _ r(2)] by blast
  next
    case False
    then have k: "fst k = sp_SenderUserID req" "dd_senderSnapshot r = sender" using r(1) by (auto simp: commit_fields split: if_splits)
    then have "pm_UID m = ms_nextUID s" using r(2) copies(2) [OF c] by simp
    then have "m \<notin> set (box s (fst k))" using boxes_okD(8) [OF ok] by fastforce
    then show ?thesis using m k by (auto simp: commit_boxes split: if_splits)
  qed
  ultimately show ?thesis unfolding all_backed_def by blast
qed

text \<open>Operations that do not clear a history in place, which replaces the newest message.\<close>

fun plain :: "pm_op \<Rightarrow> bool" where
  "plain (PmClear now req) \<longleftrightarrow> \<not> dh_JustClear req"
| "plain _ \<longleftrightarrow> True"

lemma step_next_box:
  assumes "boxes_ok s"
  shows "ms_nextBox (fst (pm_step digest op s)) u \<le> ms_nextBox s u + 1"
proof -
  obtain s' a where step: "pm_step digest op s = (s', a)" by (rule prod.exhaust)
  show ?thesis
    by (rule pm_step_cases [OF boxes_okD(1) [OF assms] step])
       (use step boxes_okD(3) [OF assms] commit_next_box in \<open>auto simp: leaves_def\<close>)
qed

lemma run_next_box:
  assumes "boxes_ok s"
  shows "ms_nextBox (fst (pm_run digest ops s)) u \<le> ms_nextBox s u + int (length ops)"
  using assms
proof (induction ops arbitrary: s)
  case Nil
  then show ?case by simp
next
  case (Cons op ops)
  show ?case using Cons.IH [OF boxes_ok_step [OF Cons.prems], of digest op] step_next_box [OF Cons.prems, of digest op u]
    by (simp add: Let_def split_beta)
qed

lemma all_backed_step:
  assumes ok: "boxes_ok s" and backed: "all_backed s" and small: "\<And>u. ms_nextBox s u \<le> MaxMessageBoxID" and plain: "plain op"
  shows "all_backed (fst (pm_step digest op s))"
proof -
  note ids = boxes_okD(1) [OF ok]
  obtain s' a where step: "pm_step digest op s = (s', a)" by (rule prod.exhaust)
  have deletes: "all_backed s'" if "leaves s s'" "\<exists>rows. deletes s s' rows"
    using all_backed_deletes [OF ok backed that(1) _ small] that(2) by blast
  show ?thesis
  proof (rule pm_step_cases [OF ids step])
    fix now quote req fp a b sender recipient alloc
    assume "send_commits s (dated now req) fp a b sender recipient alloc" "s' = commit_send s (dated now req) fp alloc sender recipient"
    then show ?thesis using all_backed_commit [OF ok backed] step by simp
  next
    assume l: "leaves s s'" and send: "\<And>now quote req. op = PmSend now quote req \<Longrightarrow> s' = s"
    show ?thesis
    proof (cases op)
      case (PmRead now owner p maxID date)
      then have "s' = fst (ReadHistory now s owner p maxID date)" using step by (auto simp: map_prod_def split_beta)
      then show ?thesis using all_backed_same [OF backed] read_fields step by simp
    next
      case (PmDelete now owner rawIDs revoke date)
      then have "s' = fst (DeleteMessages now s owner rawIDs revoke date)" using step by (auto simp: map_prod_def split_beta)
      then show ?thesis using deletes [OF l] delete_messages_deletes [OF ids] step by simp
    next
      case (PmClear now req)
      then have "s' = fst (DeleteHistory now s req)" using step by (auto simp: map_prod_def split_beta)
      then show ?thesis using deletes [OF l] delete_history_deletes [OF ids, of req] plain PmClear step by simp
    next
      case (PmRecord userID e)
      have "ms_m s' = ms_m s \<and> ms_privateSendDedup s' = ms_privateSendDedup s" using step PmRecord by (auto split: sum.splits)
      then show ?thesis using all_backed_same [OF backed] step by simp
    qed (use send backed step in auto)
  qed
qed

lemma all_backed_run:
  assumes "boxes_ok s" "all_backed s" "\<And>u. ms_nextBox s u + int (length ops) \<le> 2 ^ 31" "\<forall>op \<in> set ops. plain op"
  shows "all_backed (fst (pm_run digest ops s))"
  using assms
proof (induction ops arbitrary: s)
  case Nil
  then show ?case by simp
next
  case (Cons op ops)
  have small: "ms_nextBox s u \<le> MaxMessageBoxID" for u using Cons.prems(3) [of u] by (simp add: MaxMessageBoxID_def)
  have nb: "ms_nextBox (fst (pm_step digest op s)) u + int (length ops) \<le> 2 ^ 31" for u
    using step_next_box [OF Cons.prems(1), of digest op u] Cons.prems(3) [of u] by simp
  have "all_backed (fst (pm_step digest op s))" using all_backed_step [OF Cons.prems(1,2) small] Cons.prems(4) by simp
  then show ?case using Cons.IH [OF boxes_ok_step [OF Cons.prems(1)] _ nb] Cons.prems(4) by (simp add: Let_def split_beta)
qed

subsection \<open>Retries\<close>

text \<open>The answer to a retry, by the receipt.\<close>

lemma retry_answer:
  assumes r: "ms_privateSendDedup s (sp_SenderUserID req, sp_RandomID req) = Some r"
  shows "fst (SendPrivateText digest now quote s req) = s"
    and "HasContent req \<Longrightarrow> PrivateSendFingerprint digest req = Inr fp \<Longrightarrow> SameSendFingerprint (dd_fingerprint r) fp \<Longrightarrow>
      dd_recipientUserID r = sp_RecipientUserID req \<Longrightarrow>
      snd (SendPrivateText digest now quote s req) = (case lookupPrivateSendReplayLocked s (replay_of req fp) of Inl e \<Rightarrow> Inl e | Inr d \<Rightarrow> Inr (the d))"
proof -
  have none: "lookupPrivateSendReplayLocked s (replay_of req fp) \<noteq> Inr None" for fp
    using r lookup_none [of s "replay_of req fp"] by (auto simp: replay_of_def)
  obtain s' ans where run: "SendPrivateText digest now quote s req = (s', ans)" by (rule prod.exhaust)
  show "fst (SendPrivateText digest now quote s req) = s" by (rule send_private_cases [OF run]) (use run none in auto)
  assume "HasContent req" "PrivateSendFingerprint digest req = Inr fp"
  then show "snd (SendPrivateText digest now quote s req) = (case lookupPrivateSendReplayLocked s (replay_of req fp) of Inl e \<Rightarrow> Inl e | Inr d \<Rightarrow> Inr (the d))"
    using none [of fp] unfolding SendPrivateText_def sendPrivateTextLocked_def replay_of_def by (auto split: sum.splits option.splits)
qed

lemma replay_answer:
  assumes "ms_privateSendDedup s (rr_SenderUserID req, rr_RandomID req) = Some r" "SameSendFingerprint (dd_fingerprint r) (rr_IdempotencyFingerprint req)"
    and "dd_recipientUserID r = rr_RecipientUserID req" "DecodePrivateSendSnapshot (dd_senderSnapshot r) = Inr (dd_senderSnapshot r)"
  shows "(\<exists>d. lookupPrivateSendReplayLocked s req = Inr (Some d) \<and> sd_Duplicate d \<and> pm_UID (sd_SenderMessage d) = pm_UID (dd_senderSnapshot r) \<and>
       msg_ID (sd_SenderMessage d) = msg_ID (dd_senderSnapshot r) \<and> sd_RecipientMessage d = dd_recipientMessage r) \<or>
     lookupPrivateSendReplayLocked s req = Inl (ErrReplayAbsent (pm_UID (dd_senderSnapshot r)))"
  using assms by (auto simp: lookupPrivateSendReplayLocked_def Let_def find_Some_iff split: option.split)

text \<open>With the message of every receipt in place, the answer is the message as it was sent.\<close>

lemma backed_answer:
  assumes "ms_privateSendDedup s (rr_SenderUserID req, rr_RandomID req) = Some r" "SameSendFingerprint (dd_fingerprint r) (rr_IdempotencyFingerprint req)"
    and "dd_recipientUserID r = rr_RecipientUserID req" "boxes_ok s" "all_backed s"
  shows "\<exists>d. lookupPrivateSendReplayLocked s req = Inr (Some d) \<and> sd_Duplicate d \<and> sd_SenderMessage d = dd_senderSnapshot r"
proof -
  let ?m = "dd_senderSnapshot r" and ?box = "box s (rr_SenderUserID req)"
  have ok_r: "DecodePrivateSendSnapshot ?m = Inr ?m" using boxes_okD(10) [OF assms(4,1)] by (simp add: receipt_ok_def Let_def)
  have found: "find (\<lambda>m. pm_UID m = pm_UID ?m \<and> msg_ID m = msg_ID ?m) ?box = Some ?m" if in_box: "?m \<in> set ?box"
  proof -
    have "find (\<lambda>m. pm_UID m = pm_UID ?m \<and> msg_ID m = msg_ID ?m) ?box \<noteq> None" using in_box by (auto simp: find_None_iff)
    then obtain x where x: "find (\<lambda>m. pm_UID m = pm_UID ?m \<and> msg_ID m = msg_ID ?m) ?box = Some x" by blast
    then have "x \<in> set ?box" "msg_ID x = msg_ID ?m" by (auto simp: find_Some_iff)
    then show ?thesis using x same_id [OF boxes_okD(1) [OF assms(4)] _ in_box] by simp
  qed
  consider "?m \<in> set ?box" | "?m \<notin> set ?box" "dd_senderDeleteEvent r \<noteq> None" using all_backedD [OF assms(5,1)] by auto
  then show ?thesis
  proof cases
    case 1
    then show ?thesis using assms(1-3) ok_r found by (simp add: lookupPrivateSendReplayLocked_def Let_def)
  next
    case 2
    have "find (\<lambda>m. pm_UID m = pm_UID ?m \<and> msg_ID m = msg_ID ?m) ?box = None"
      using all_backed_current [OF assms(5,1)] 2(1) by (auto simp: find_None_iff)
    then show ?thesis using assms(1-3) ok_r 2(2) by (auto simp: lookupPrivateSendReplayLocked_def Let_def)
  qed
qed

end
