(* ===== verification/Private_Accounts.thy ===== *)
theory Private_Accounts
  imports Private_Exact Private_Once
begin

text \<open>
  A send keeps the dialogs of both sides exact, and so does every run from the empty store.
\<close>

subsection \<open>Sending\<close>

definition top_dialog :: "private_message \<Rightarrow> int \<Rightarrow> dialog" where
  "top_dialog m unread = zero_dialog\<lparr>dg_Peer := msg_Peer m, dg_TopMessage := msg_ID m, dg_TopMessageDate := msg_Date m, dg_UnreadCount := unread\<rparr>"

lemma top_dialog_simps [simp]:
  "dg_Peer (top_dialog m n) = msg_Peer m" "dg_TopMessage (top_dialog m n) = msg_ID m" "dg_TopMessageDate (top_dialog m n) = msg_Date m"
  "dg_UnreadCount (top_dialog m n) = n" "dg_ReadInboxMaxID (top_dialog m n) = 0"
  by (simp_all add: top_dialog_def zero_dialog_def)

lemma top_dialog_zero: "top_dialog m 0 = zero_dialog\<lparr>dg_Peer := msg_Peer m, dg_TopMessage := msg_ID m, dg_TopMessageDate := msg_Date m\<rparr>"
  by (simp add: top_dialog_def zero_dialog_def)

lemma upsert_dialogs_of:
  "dialogs_of (upsertMemoryDialogsLocked s a b) v =
     (if v = msg_OwnerUserID a then change_dialog (msg_Peer a) (\<lambda>d. d\<lparr>dg_UnreadMark := False\<rparr>) (upsert_dialogs (dialogs_of s v) (top_dialog a 0))
      else if v = msg_OwnerUserID b then upsert_dialogs (dialogs_of s v) (top_dialog b (privateUnreadCountLocked s v (msg_Peer b)))
      else dialogs_of s v)"
proof -
  have "privateUnreadCountLocked (s\<lparr>ms_dialogs := (ms_dialogs s)(u := l)\<rparr>) w p = privateUnreadCountLocked s w p" if "w \<noteq> u" for u w l p
    using that by (simp add: privateUnreadCountLocked_def find_dialog_def)
  then show ?thesis
    by (simp add: upsertMemoryDialogsLocked_def Let_def dialogs_of_def upsertMemoryDialog_def top_dialog_zero [symmetric])
       (simp add: top_dialog_def)
qed

lemma unread_commit_state:
  assumes "\<And>v. box t v = box s v" "ms_dialogs t = ms_dialogs s"
  shows "privateUnreadCountLocked t u p = privateUnreadCountLocked s u p"
  using assms by (simp add: privateUnreadCountLocked_def find_dialog_def)

lemma commit_dialogs:
  "dialogs_of (commit_send s req fp alloc sender recipient) v =
     (let b = (if msg_ID recipient \<noteq> 0 then recipient else sender) in
      if v = msg_OwnerUserID sender then change_dialog (msg_Peer sender) (\<lambda>d. d\<lparr>dg_UnreadMark := False\<rparr>) (upsert_dialogs (dialogs_of s v) (top_dialog sender 0))
      else if v = msg_OwnerUserID b then upsert_dialogs (dialogs_of s v) (top_dialog b
        (incoming_after (box (commit_send s req fp alloc sender recipient) v) (msg_Peer b)
           (case find_dialog s v (msg_Peer b) of None \<Rightarrow> 0 | Some d \<Rightarrow> dg_ReadInboxMaxID d)))
      else dialogs_of s v)"
proof -
  let ?b = "if msg_ID recipient \<noteq> 0 then recipient else sender"
  obtain s6 where s6: "dialogs_of (commit_send s req fp alloc sender recipient) v = dialogs_of (upsertMemoryDialogsLocked s6 sender ?b) v"
    "\<And>v. box s6 v = box (commit_send s req fp alloc sender recipient) v" "ms_dialogs s6 = ms_dialogs s"
  proof (rule that)
    let ?s6 = "let s1 = s\<lparr>ms_nextUID := ms_nextUID s + 1, ms_nextBox := (ms_nextBox s)(sp_SenderUserID req := msg_ID sender)\<rparr>;
          s2 = (if msg_ID recipient \<noteq> 0 then s1\<lparr>ms_nextBox := (ms_nextBox s1)(msg_OwnerUserID recipient := msg_ID recipient)\<rparr> else s1);
          s3 = s2\<lparr>ms_nextPts := (\<lambda>v. case alloc v of None \<Rightarrow> ms_nextPts s2 v | Some p \<Rightarrow> p)\<rparr>;
          s4 = put_box s3 (sp_SenderUserID req) (box s3 (sp_SenderUserID req) @ [sender]);
          s5 = (if sp_SenderUserID req \<noteq> sp_RecipientUserID req \<and> \<not> sp_RecipientBlocked req
                then put_box s4 (sp_RecipientUserID req) (box s4 (sp_RecipientUserID req) @ [recipient]) else s4)
        in (if sp_RandomID req \<noteq> 0
                then s5\<lparr>ms_privateSendDedup := (ms_privateSendDedup s5)((sp_SenderUserID req, sp_RandomID req) \<mapsto>
                       \<lparr>dd_recipientUserID = sp_RecipientUserID req, dd_senderSnapshot = sender, dd_recipientMessage = immutablePrivateSendReceipt recipient,
                        dd_fingerprint = fp, dd_senderDeleteEvent = None\<rparr>)\<rparr>
                else s5)"
    show "dialogs_of (commit_send s req fp alloc sender recipient) v = dialogs_of (upsertMemoryDialogsLocked ?s6 sender ?b) v"
      unfolding commit_send_def Let_def by (simp add: dialogs_of_def split_beta)
    show "\<And>v. box ?s6 v = box (commit_send s req fp alloc sender recipient) v" by (simp add: commit_boxes delivers_def Let_def)
    show "ms_dialogs ?s6 = ms_dialogs s" by (simp add: Let_def)
  qed
  have ds: "dialogs_of s6 v = dialogs_of s v" "find_dialog s6 v p = find_dialog s v p" for v p using s6(3) by (simp_all add: dialogs_of_def find_dialog_def)
  show ?thesis unfolding s6(1) upsert_dialogs_of ds privateUnreadCountLocked_def Let_def s6(2) by simp
qed

text \<open>A message at the end of a box, and the dialog of its peer upserted.\<close>

lemma view_append:
  assumes ok: "boxes_ok s" and v: "view_ok s u {}"
    and t: "box t u = box s u @ [m]" "msg_ID m = ms_nextBox s u + 1" "ms_nextBox t u = ms_nextBox s u + 1"
    and ds: "dialogs_of t u = upsert_dialogs (dialogs_of s u) (top_dialog m n)"
    and n: "n = (if pm_Out m then 0 else incoming_after (box t u) (msg_Peer m) (case find_dialog s u (msg_Peer m) of None \<Rightarrow> 0 | Some d \<Rightarrow> dg_ReadInboxMaxID d))"
  shows "view_ok t u {}"
proof -
  let ?p = "msg_Peer m"
  have dist: "distinct (map dg_Peer (dialogs_of s u))" using v by (simp add: view_ok_def)
  have nb: "0 \<le> ms_nextBox s u" by (rule boxes_okD(3) [OF ok])
  have "msg_ID (top_message (box s u) p) \<le> ms_nextBox s u" for p by (rule top_le [OF nb]) (rule boxes_okD(6) [OF ok])
  then have top: "top_message (box t u) p = (if p = ?p then m else top_message (box s u) p)" for p
    using t(1,2) by (simp add: top_append)
  have inc: "incoming_after (box t u) p k = incoming_after (box s u) p k + of_bool (?p = p \<and> \<not> pm_Out m \<and> msg_ID m > k)" for p k
    using t(1) by (simp add: incoming_one)
  define d where "d = (case find_dialog s u ?p of None \<Rightarrow> top_dialog m n | Some x \<Rightarrow> merge_dialog x (top_dialog m n))"
  have set_ds: "set (dialogs_of t u) = {x \<in> set (dialogs_of s u). dg_Peer x \<noteq> ?p} \<union> {d}"
    unfolding ds upsert_set [OF dist] d_def find_dialog_eq by simp
  have dp: "dg_Peer d = ?p" by (simp add: d_def split: option.split)
  have old: "dg_ReadInboxMaxID x \<le> ms_nextBox s u \<and> exact s u x" if "x \<in> set (dialogs_of s u)" for x using v that by (simp add: view_ok_def)
  have d_ok: "exact t u d \<and> dg_ReadInboxMaxID d \<le> ms_nextBox t u"
  proof (cases "find_dialog s u ?p")
    case None
    then have "msg_Peer x \<noteq> ?p" if "x \<in> set (box s u)" for x using v that unfolding find_dialog_None view_ok_def by metis
    then have "incoming_after (box s u) ?p 0 = 0" by (intro incoming_none) blast
    then show ?thesis using None nb t(2,3) n inc [of ?p 0] by (simp add: d_def exact_def Let_def top)
  next
    case (Some x)
    then have x: "x \<in> set (dialogs_of s u)" "dg_Peer x = ?p" using find_dialogD by blast+
    have k: "dg_ReadInboxMaxID x \<le> ms_nextBox s u" "dg_UnreadCount x = incoming_after (box s u) ?p (dg_ReadInboxMaxID x)"
      using old [OF x(1)] x(2) by (simp_all add: exact_def Let_def)
    have pos: "incoming_after (box s u) ?p (dg_ReadInboxMaxID x) + 1 \<noteq> 0" using incoming_nonneg [of "box s u" ?p "dg_ReadInboxMaxID x"] by linarith
    show ?thesis using Some k t(2,3) nb n inc [of ?p "dg_ReadInboxMaxID x"] pos by (auto simp: d_def exact_def Let_def top merge_dialog_def)
  qed
  have others: "exact t u x = exact s u x" if "dg_Peer x \<noteq> ?p" for x using that by (simp add: exact_def top inc Let_def)
  show ?thesis
    unfolding view_ok_def
  proof (intro conjI ballI)
    show "distinct (map dg_Peer (dialogs_of t u))" unfolding ds upsert_peers using dist by (auto simp: image_iff)
    fix x assume "x \<in> set (dialogs_of t u)"
    then have x: "x = d \<or> x \<in> set (dialogs_of s u) \<and> dg_Peer x \<noteq> ?p" unfolding set_ds by blast
    then show "dg_ReadInboxMaxID x \<le> ms_nextBox t u" "dg_Peer x \<notin> {} \<longrightarrow> exact t u x" using d_ok others old [of x] t(3) by fastforce+
  next
    fix x assume "x \<in> set (box t u)"
    then have "msg_Peer x = ?p \<or> msg_Peer x \<in> dg_Peer ` set (dialogs_of s u)" using v unfolding t(1) by (auto simp: view_ok_def)
    then show "msg_Peer x \<in> dg_Peer ` set (dialogs_of t u)" unfolding set_ds using dp by auto
  qed
qed

lemma commit_view:
  assumes ok: "boxes_ok s" and views: "views_ok s" and c: "send_commits s req fp a b sender recipient alloc"
  shows "views_ok (commit_send s req fp alloc sender recipient)" (is "views_ok ?t")
  unfolding views_ok_def
proof
  fix v
  note cp = copies [OF c]
  have view: "view_ok s v {}" using views by (simp add: views_ok_def)
  have nb: "ms_nextBox ?t v = (if v = sp_SenderUserID req \<or> v = sp_RecipientUserID req \<and> delivers req then ms_nextBox s v + 1 else ms_nextBox s v)"
    by (rule commit_next_box [OF c boxes_okD(3) [OF ok]])
  have nonzero: "msg_ID sender \<noteq> 0" "delivers req \<Longrightarrow> msg_ID recipient \<noteq> 0"
    using boxes_okD(3) [OF ok, of "sp_SenderUserID req"] boxes_okD(3) [OF ok, of "sp_RecipientUserID req"] cp(1,9) by auto
  have zero: "msg_ID recipient = 0" if "\<not> delivers req" "sp_SenderUserID req \<noteq> sp_RecipientUserID req"
    using cp(17) that by (simp add: delivers_def zero_message_def)
  consider (sender) "v = sp_SenderUserID req" | (recipient) "v \<noteq> sp_SenderUserID req" "v = sp_RecipientUserID req" "delivers req"
    | (other) "v \<noteq> sp_SenderUserID req" "v = sp_RecipientUserID req \<longrightarrow> \<not> delivers req" by blast
  then show "view_ok ?t v {}"
  proof cases
    case sender
    let ?mid = "?t\<lparr>ms_dialogs := (ms_dialogs ?t)(v := (ms_dialogs ?t v)\<lparr>dl_Dialogs := upsert_dialogs (dialogs_of s v) (top_dialog sender 0)\<rparr>)\<rparr>"
    have ds0: "dialogs_of ?mid v = upsert_dialogs (dialogs_of s v) (top_dialog sender 0)" by (simp add: dialogs_of_def)
    have dst: "dialogs_of ?t v = change_dialog (msg_Peer sender) (\<lambda>d. d\<lparr>dg_UnreadMark := False\<rparr>) (upsert_dialogs (dialogs_of s v) (top_dialog sender 0))"
      using sender cp(4) by (simp add: commit_dialogs Let_def)
    have v0: "view_ok ?mid v {}"
      by (rule view_append [OF ok view _ _ _ ds0]) (use sender nb cp(1,7) in \<open>simp_all add: commit_boxes\<close>)
    show ?thesis
    proof (rule view_change [OF v0])
      show "dialogs_of ?t v = change_dialog (msg_Peer sender) (\<lambda>d. d\<lparr>dg_UnreadMark := False\<rparr>) (dialogs_of ?mid v)"
        unfolding ds0 by (rule dst)
      fix d assume "d \<in> set (dialogs_of ?mid v)"
      then show "dg_ReadInboxMaxID (d\<lparr>dg_UnreadMark := False\<rparr>) \<le> ms_nextBox ?mid v \<and>
          (msg_Peer sender \<notin> {} \<longrightarrow> exact ?mid v d \<longrightarrow> exact ?mid v (d\<lparr>dg_UnreadMark := False\<rparr>))"
        using v0 by (simp add: view_ok_def exact_def Let_def)
    qed simp_all
  next
    case recipient
    let ?n = "incoming_after (box ?t v) (msg_Peer recipient) (case find_dialog s v (msg_Peer recipient) of None \<Rightarrow> 0 | Some d \<Rightarrow> dg_ReadInboxMaxID d)"
    have ds: "dialogs_of ?t v = upsert_dialogs (dialogs_of s v) (top_dialog recipient ?n)"
      using recipient cp(4,11) nonzero(2) unfolding commit_dialogs by (simp add: Let_def)
    show ?thesis
      by (rule view_append [OF ok view _ _ _ ds]) (use recipient nb cp(9,13) in \<open>simp_all add: commit_boxes\<close>)
  next
    case other
    have "box ?t v = box s v" using other by (auto simp: commit_boxes)
    moreover have "msg_OwnerUserID (if msg_ID recipient \<noteq> 0 then recipient else sender) \<noteq> v"
      using other zero cp(4,11,16) by (cases "delivers req") auto
    then have "dialogs_of ?t v = dialogs_of s v" using other(1) cp(4) unfolding commit_dialogs by (auto simp: Let_def)
    moreover have "ms_nextBox ?t v = ms_nextBox s v" using nb other by auto
    ultimately show ?thesis using view by (simp add: view_ok_def exact_def)
  qed
qed

subsection \<open>Runs\<close>

lemma views_ok_new: "views_ok (NewMessageStore events)"
  by (simp add: views_ok_def view_ok_def NewMessageStore_def dialogs_of_def box_def)

lemma views_ok_step:
  assumes ok: "boxes_ok s" and views: "views_ok s" and small: "\<And>u. ms_nextBox s u \<le> MaxMessageBoxID"
  shows "views_ok (fst (pm_step digest op s))"
proof -
  obtain s' a where step: "pm_step digest op s = (s', a)" by (rule prod.exhaust)
  show ?thesis
  proof (rule pm_step_cases [OF boxes_okD(1) [OF ok] step])
    fix now quote req fp a b sender recipient alloc
    assume "send_commits s (dated now req) fp a b sender recipient alloc" "s' = commit_send s (dated now req) fp alloc sender recipient"
    then show ?thesis using commit_view [OF ok views] step by simp
  next
    assume send: "\<And>now quote req. op = PmSend now quote req \<Longrightarrow> s' = s"
    show ?thesis
    proof (cases op)
      case (PmRecord userID e)
      have "s' = s \<or> (\<exists>ev. s' = s\<lparr>ms_updateEvents := ev\<rparr>)" using step PmRecord by (auto split: sum.splits)
      moreover have "views_ok (s\<lparr>ms_updateEvents := ev\<rparr>)" for ev using views by (simp add: views_ok_def view_ok_def exact_def dialogs_of_def)
      ultimately show ?thesis using views step by auto
    next
      case (PmSend now quote req)
      then show ?thesis using send views step by simp
    next
      case (PmRead now owner p maxID date)
      then have "s' = fst (ReadHistory now s owner p maxID date)" using step by (auto simp: map_prod_def split_beta)
      then show ?thesis using read_view [OF ok views] step by simp
    next
      case (PmDelete now owner rawIDs revoke date)
      then have "s' = fst (DeleteMessages now s owner rawIDs revoke date)" using step by (auto simp: map_prod_def split_beta)
      then show ?thesis using delete_messages_view [OF ok views small] step by simp
    next
      case (PmClear now req)
      then have "s' = fst (DeleteHistory now s req)" using step by (auto simp: map_prod_def split_beta)
      then show ?thesis using delete_history_view [OF ok views small] step by simp
    qed
  qed
qed

lemma views_ok_run:
  assumes "boxes_ok s" "views_ok s" "\<And>u. ms_nextBox s u + int (length ops) \<le> 2 ^ 31"
  shows "views_ok (fst (pm_run digest ops s))"
  using assms
proof (induction ops arbitrary: s)
  case Nil
  then show ?case by simp
next
  case (Cons op ops)
  have small: "ms_nextBox s u \<le> MaxMessageBoxID" for u using Cons.prems(3) [of u] by (simp add: MaxMessageBoxID_def)
  have nb: "ms_nextBox (fst (pm_step digest op s)) u + int (length ops) \<le> 2 ^ 31" for u
    using step_next_box [OF Cons.prems(1), of digest op u] Cons.prems(3) [of u] by simp
  show ?case using Cons.IH [OF boxes_ok_step [OF Cons.prems(1)] views_ok_step [OF Cons.prems(1,2) small] nb] by (simp add: Let_def split_beta)
qed

end
