(* ===== verification/Private_Log.thy ===== *)
theory Private_Log
  imports Private_Accounts Update_Contract
begin

text \<open>
  The account's update log under private messages: a send appends the event of each copy with the next pts,
  so that sends and the other writers of the log together keep it gapless.
\<close>

subsection \<open>The events of a send\<close>

lemma append_send_event:
  assumes "0 < ue_PtsCount e" "ue_UserID e = u"
  shows "appendMemorySendEventLocked ev u e auth session =
    ev\<lparr>st_events := (st_events ev)(u := st_events ev u @ [e]),
       st_dispatches := (st_dispatches ev)(u := st_dispatches ev u @ [\<lparr>ud_Pts = ue_Pts e, ud_ExcludeAuthKeyID = auth, ud_ExcludeSessionID = session\<rparr>])\<rparr>"
proof -
  have "e\<lparr>ue_UserID := u\<rparr> = e" using assms(2) by (cases e) simp
  then show ?thesis using assms(1) by (simp add: appendMemorySendEventLocked_def appendLocked_def Let_def)
qed

lemma new_message_event:
  assumes "msg_ID m \<noteq> 0"
  shows "ue_PtsCount (newMessageEvent m) = 1" "ue_UserID (newMessageEvent m) = msg_OwnerUserID m" "ue_Pts (newMessageEvent m) = pm_Pts m"
  using assms by (simp_all add: newMessageEvent_def zero_event_def)

definition send_events :: "send_request \<Rightarrow> private_message \<Rightarrow> private_message \<Rightarrow> int \<Rightarrow> update_event list" where
  "send_events req sender recipient v =
     (if v = sp_SenderUserID req then [newMessageEvent sender]
      else if delivers req \<and> v = sp_RecipientUserID req then [newMessageEvent recipient] else [])"

lemma commit_events:
  assumes ok: "boxes_ok s" and c: "send_commits s req fp a b sender recipient alloc"
  shows "st_events (ms_updateEvents (commit_send s req fp alloc sender recipient)) v =
      st_events (ms_updateEvents s) v @ send_events req sender recipient v" (is ?log)
    and "st_dispatches (ms_updateEvents (commit_send s req fp alloc sender recipient)) v =
      st_dispatches (ms_updateEvents s) v @ map (\<lambda>e. \<lparr>ud_Pts = ue_Pts e, ud_ExcludeAuthKeyID = fst (exclusion req v),
        ud_ExcludeSessionID = snd (exclusion req v)\<rparr>) (send_events req sender recipient v)" (is ?dispatches)
proof -
  note cp = copies [OF c]
  have nz: "msg_ID sender \<noteq> 0" "delivers req \<Longrightarrow> msg_ID recipient \<noteq> 0"
    using boxes_okD(3) [OF ok, of "sp_SenderUserID req"] boxes_okD(3) [OF ok, of "sp_RecipientUserID req"] cp(1,9) by auto
  have second: "msg_ID recipient \<noteq> 0 \<and> msg_OwnerUserID recipient \<noteq> msg_OwnerUserID sender \<longleftrightarrow> delivers req"
  proof (cases "delivers req")
    case True
    then show ?thesis using nz(2) cp(4,11) by (auto simp: delivers_def)
  next
    case False
    then have "recipient = sender \<or> recipient = zero_message" using cp(16,17) by (auto simp: delivers_def)
    then show ?thesis using False by (auto simp: zero_message_def)
  qed
  note ev = new_message_event [OF nz(1)]
  have ev2: "ue_PtsCount (newMessageEvent recipient) = 1" "ue_UserID (newMessageEvent recipient) = sp_RecipientUserID req" if "delivers req"
    using new_message_event [OF nz(2) [OF that]] cp(11) [OF that] by simp_all
  have eq: "ms_updateEvents (commit_send s req fp alloc sender recipient) =
    (let ev1 = appendMemorySendEventLocked (ms_updateEvents s) (sp_SenderUserID req) (newMessageEvent sender) (fst (exclusion req (sp_SenderUserID req))) (snd (exclusion req (sp_SenderUserID req)))
     in if delivers req then appendMemorySendEventLocked ev1 (sp_RecipientUserID req) (newMessageEvent recipient)
          (fst (exclusion req (sp_RecipientUserID req))) (snd (exclusion req (sp_RecipientUserID req))) else ev1)"
    using second by (simp add: commit_send_def Let_def split_beta)
  have first: "appendMemorySendEventLocked (ms_updateEvents s) (sp_SenderUserID req) (newMessageEvent sender) auth session =
    (ms_updateEvents s)\<lparr>st_events := (st_events (ms_updateEvents s))(sp_SenderUserID req := st_events (ms_updateEvents s) (sp_SenderUserID req) @ [newMessageEvent sender]),
       st_dispatches := (st_dispatches (ms_updateEvents s))(sp_SenderUserID req := st_dispatches (ms_updateEvents s) (sp_SenderUserID req) @
         [\<lparr>ud_Pts = ue_Pts (newMessageEvent sender), ud_ExcludeAuthKeyID = auth, ud_ExcludeSessionID = session\<rparr>])\<rparr>" for auth session
    by (rule append_send_event) (simp_all add: ev cp(4))
  show ?log ?dispatches
    unfolding eq Let_def first send_events_def
    by (auto simp: append_send_event ev2 delivers_def)
qed

subsection \<open>Fresh pts\<close>

lemma fresh_above:
  "ms_nextPts s u < fresh_pts s Map.empty u \<and> (\<forall>e \<in> set (st_events (ms_updateEvents s) u). ue_Pts e < fresh_pts s Map.empty u)"
proof -
  have "c \<le> foldl max c xs \<and> (\<forall>x \<in> set xs. x \<le> foldl max c xs)" for c :: int and xs
  proof (induction xs arbitrary: c)
    case (Cons x xs)
    have "max c x \<le> foldl max (max c x) xs \<and> (\<forall>y \<in> set xs. y \<le> foldl max (max c x) xs)" by (rule Cons)
    then show ?case by simp
  qed simp
  from this [of "ms_nextPts s u" "map ue_Pts (st_events (ms_updateEvents s) u)"]
  show ?thesis by (auto simp: fresh_pts_def max_pts_fold)
qed

text \<open>The log is gapless and the counters do not run ahead of it.\<close>

definition log_leads :: "message_store \<Rightarrow> bool" where
  "log_leads s \<longleftrightarrow> log_ok (ms_updateEvents s) \<and> (\<forall>u. 0 \<le> ms_nextPts s u \<and> ms_nextPts s u \<le> top_pts 0 (st_events (ms_updateEvents s) u))"

lemma fresh_next:
  assumes "log_leads s"
  shows "fresh_pts s Map.empty u = top_pts 0 (st_events (ms_updateEvents s) u) + 1"
proof -
  let ?es = "st_events (ms_updateEvents s) u"
  have c: "chained 0 ?es" "0 \<le> ms_nextPts s u" "ms_nextPts s u \<le> top_pts 0 ?es" using assms by (simp_all add: log_leads_def log_ok_def)
  have fold: "foldl max c xs = max c (foldl max d xs)" if "d \<le> c" for c d :: int and xs
    using that by (induction xs arbitrary: c d) (auto simp: max_def)
  have "foldl max (ms_nextPts s u) (map ue_Pts ?es) = top_pts 0 ?es"
    using fold [OF c(2), of "map ue_Pts ?es"] max_pts_chained [OF c(1)] c(3) by simp
  then show ?thesis by (simp add: fresh_pts_def max_pts_fold)
qed

lemma log_leads_new: "log_ok events \<Longrightarrow> log_leads (NewMessageStore events)"
  by (auto simp: log_leads_def NewMessageStore_def log_ok_def dest: chained_le_top)

lemma log_leads_commit:
  assumes leads: "log_leads s" and ok: "boxes_ok s" and c: "send_commits s req fp a b sender recipient alloc"
  shows "log_leads (commit_send s req fp alloc sender recipient)"
proof -
  note cp = copies [OF c]
  have nz: "msg_ID sender \<noteq> 0" "delivers req \<Longrightarrow> msg_ID recipient \<noteq> 0"
    using boxes_okD(3) [OF ok, of "sp_SenderUserID req"] boxes_okD(3) [OF ok, of "sp_RecipientUserID req"] cp(1,9) by auto
  have ev: "ue_PtsCount e = 1 \<and> ue_Pts e = top_pts 0 (st_events (ms_updateEvents s) v) + 1"
    if "e \<in> set (send_events req sender recipient v)" for e v
    using that new_message_event [OF nz(1)] new_message_event [OF nz(2)] cp(8,14) fresh_next [OF leads]
    by (auto simp: send_events_def split: if_splits)
  have alloc: "alloc v = (if v = sp_SenderUserID req \<or> delivers req \<and> v = sp_RecipientUserID req then Some (fresh_pts s Map.empty v) else None)" for v
    using c cp(8,14) by (auto simp: send_commits_def delivers_def)
  have one: "send_events req sender recipient v = [] \<or> (\<exists>e. send_events req sender recipient v = [e])" for v by (simp add: send_events_def)
  have none: "send_events req sender recipient v = [] \<longleftrightarrow> alloc v = None" for v by (simp add: send_events_def alloc)
  have old: "chained 0 (st_events (ms_updateEvents s) v)" "0 \<le> ms_nextPts s v" "ms_nextPts s v \<le> top_pts 0 (st_events (ms_updateEvents s) v)" for v
    using leads by (simp_all add: log_leads_def log_ok_def)
  show ?thesis
    unfolding log_leads_def log_ok_def commit_events [OF ok c]
  proof (intro conjI allI)
    fix v
    show "chained 0 (st_events (ms_updateEvents s) v @ send_events req sender recipient v)" using one [of v] ev [of _ v] old(1) [of v] by auto
    show "0 \<le> ms_nextPts (commit_send s req fp alloc sender recipient) v"
      "ms_nextPts (commit_send s req fp alloc sender recipient) v \<le> top_pts 0 (st_events (ms_updateEvents s) v @ send_events req sender recipient v)"
      using one [of v] none [of v] ev [of _ v] old [of v] alloc [of v] fresh_next [OF leads, of v] by (auto simp: commit_fields)
  qed
qed

text \<open>Operations that write the log: sends, and the other services of the account.\<close>

fun logs :: "pm_op \<Rightarrow> bool" where
  "logs (PmSend now quote req) \<longleftrightarrow> True"
| "logs (PmRecord userID e) \<longleftrightarrow> True"
| "logs _ \<longleftrightarrow> False"

lemma log_leads_step:
  assumes leads: "log_leads s" and ok: "boxes_ok s" and op: "logs op"
  shows "log_leads (fst (pm_step digest op s))"
proof -
  obtain s' a where step: "pm_step digest op s = (s', a)" by (rule prod.exhaust)
  show ?thesis
  proof (cases op)
    case (PmSend now quote req)
    show ?thesis
    proof (rule pm_step_cases [OF boxes_okD(1) [OF ok] step])
      assume "\<And>now quote req. op = PmSend now quote req \<Longrightarrow> s' = s"
      then show ?thesis using PmSend step leads by simp
    next
      fix now quote req fp a b sender recipient alloc
      assume "send_commits s (dated now req) fp a b sender recipient alloc" "s' = commit_send s (dated now req) fp alloc sender recipient"
      then show ?thesis using log_leads_commit [OF leads ok] step by simp
    qed
  next
    case (PmRecord userID e)
    define e1 where "e1 = (if ue_PtsCount e \<le> 0 then e\<lparr>ue_PtsCount := 1\<rparr> else e)"
    have pos: "0 < ue_PtsCount e1" by (simp add: e1_def)
    obtain ev e' where alloc: "allocate_event (ms_updateEvents s) userID e1 = (ev, e')" by (rule prod.exhaust)
    then have "allocate_event (ms_updateEvents s) userID e = (ev, e')" by (simp add: allocate_event_def appendLocked_def e1_def Let_def split: if_splits)
    then have s': "s' = s\<lparr>ms_updateEvents := ev\<rparr>" using step PmRecord by (auto simp: AppendAllocated_def append_event_def allocate_event_def)
    have log: "log_ok (ms_updateEvents s)" using leads by (simp add: log_leads_def)
    have new: "e' = e1\<lparr>ue_UserID := userID, ue_Pts := top_pts 0 (st_events (ms_updateEvents s) userID) + ue_PtsCount e1\<rparr> \<and> log_ok ev \<and>
        st_events ev = (st_events (ms_updateEvents s))(userID := st_events (ms_updateEvents s) userID @ [e'])"
      by (rule mem.alloc_log [OF log pos alloc])
    have "log_leads s'" unfolding log_leads_def s'
    proof (intro conjI allI)
      show "log_ok (ms_updateEvents (s\<lparr>ms_updateEvents := ev\<rparr>))" using new by simp
      fix v
      show "0 \<le> ms_nextPts (s\<lparr>ms_updateEvents := ev\<rparr>) v" using leads by (simp add: log_leads_def)
      have "ms_nextPts s v \<le> top_pts 0 (st_events (ms_updateEvents s) v)" using leads by (simp add: log_leads_def)
      then show "ms_nextPts (s\<lparr>ms_updateEvents := ev\<rparr>) v \<le> top_pts 0 (st_events (ms_updateEvents (s\<lparr>ms_updateEvents := ev\<rparr>)) v)"
        using new pos by auto
    qed
    then show ?thesis using step by simp
  qed (use op in simp_all)
qed

lemma log_leads_run:
  assumes "log_leads s" "boxes_ok s" "\<forall>op \<in> set ops. logs op"
  shows "log_leads (fst (pm_run digest ops s))"
  using assms
proof (induction ops arbitrary: s)
  case (Cons op ops)
  then show ?case using Cons.IH [OF log_leads_step boxes_ok_step] by (simp add: Let_def split_beta)
qed simp

end
