(* ===== verification/Private_Read.thy ===== *)
theory Private_Read
  imports Private_Log
begin

text \<open>
  What reading a dialog does on both sides: the reader's dialog has nothing unread up to the position read,
  and the sender of the newest message read learns the date.
\<close>

subsection \<open>The reader\<close>

lemma find_change: "(\<And>d. dg_Peer (f d) = dg_Peer d) \<Longrightarrow> find (\<lambda>d. dg_Peer d = p) (change_dialog p f ds) = map_option f (find (\<lambda>d. dg_Peer d = p) ds)"
  by (induction ds) auto

lemma read_outbox_owner: "dialogs_of (fst (read_outbox owner date latest (s, res))) owner = dialogs_of s owner"
  by (auto simp: read_outbox_def Let_def nextPtsLocked_def put_dialogs_def dialogs_of_def split: option.splits)

lemma read_all:
  assumes ok: "boxes_ok s" and views: "views_ok s" and req: "owner \<noteq> 0" "peer_ID p \<noteq> 0" and dialog: "find_dialog s owner p = Some d"
  shows "\<exists>d'. find_dialog (fst (ReadHistory now s owner p 0 date0)) owner p = Some d' \<and> dg_UnreadCount d' = 0 \<and>
    dg_ReadInboxMaxID d \<le> dg_ReadInboxMaxID d' \<and> dg_TopMessage d' \<le> dg_ReadInboxMaxID d'"
proof (rule ReadHistory_state [OF req dialog, of now 0 date0])
  fix res
  assume eq: "fst (ReadHistory now s owner p 0 date0) =
      (if \<not> read_max d 0 > dg_ReadInboxMaxID d then
         (if dg_UnreadCount d > 0 then put_dialogs s owner (change_dialog p (recounted s owner d) (dialogs_of s owner)) else s)
       else fst (read_outbox owner (if date0 = 0 then now else date0)
         (latest_incoming (box s owner) p (dg_ReadInboxMaxID d) (read_max d 0)) (inbox_read s owner p (read_max d 0), res)))"
  have d: "exact s owner d" "dg_Peer d = p" using views find_dialogD [OF dialog] by (simp_all add: views_ok_def view_ok_def)
  have max: "read_max d 0 = dg_TopMessage d" by (simp add: read_max_def)
  have none: "incoming_after (box s owner) p k = 0" if "dg_TopMessage d \<le> k" for k
    by (rule incoming_top) (use d that in \<open>simp add: exact_def Let_def\<close>)
  have found: "find (\<lambda>d. dg_Peer d = p) (dialogs_of s owner) = Some d" using dialog by (simp add: find_dialog_eq)
  show ?thesis
  proof (cases "dg_TopMessage d > dg_ReadInboxMaxID d")
    case True
    have "find_dialog (fst (ReadHistory now s owner p 0 date0)) owner p = Some (read_to s owner p (dg_TopMessage d) d)"
      unfolding eq find_dialog_eq using True found by (simp add: max read_outbox_owner inbox_read_def dialogs_put find_change read_to_def)
    then show ?thesis using True none [of "dg_TopMessage d"] by (simp add: read_to_def)
  next
    case False
    have zero: "incoming_after (box s owner) p (dg_ReadInboxMaxID d) = 0" using none False by simp
    then have "find_dialog (fst (ReadHistory now s owner p 0 date0)) owner p = Some d"
      unfolding eq find_dialog_eq using False found d by (simp add: max exact_def Let_def)
    then show ?thesis using False zero d by (simp add: exact_def Let_def)
  qed
qed

subsection \<open>The sender\<close>

text \<open>The peer of a message that came in is who sent it.\<close>

definition senders_ok :: "message_store \<Rightarrow> bool" where
  "senders_ok s \<longleftrightarrow> (\<forall>u. \<forall>m \<in> set (box s u). \<not> pm_Out m \<longrightarrow> pm_From m = msg_Peer m)"

lemma senders_ok_step:
  assumes ok: "boxes_ok s" and senders: "senders_ok s"
  shows "senders_ok (fst (pm_step digest op s))"
proof -
  obtain s' a where step: "pm_step digest op s = (s', a)" by (rule prod.exhaust)
  show ?thesis
  proof (rule pm_step_cases [OF boxes_okD(1) [OF ok] step])
    assume l: "leaves s s'"
    have "pm_From m = msg_Peer m" if "m \<in> set (box s' u)" "\<not> pm_Out m" for m u
      using shrinks_from [of "box s u" "box s' u" m] l that senders by (auto simp: leaves_def same_slot_def senders_ok_def)
    then show ?thesis using step by (simp add: senders_ok_def)
  next
    fix now quote req fp a b sender recipient alloc
    assume c: "send_commits s (dated now req) fp a b sender recipient alloc" "s' = commit_send s (dated now req) fp alloc sender recipient"
    have "pm_From m = msg_Peer m" if "m \<in> set (box s' u)" "\<not> pm_Out m" for m u
      using that senders copies(7,12,15) [OF c(1)] unfolding c(2) by (auto simp: commit_boxes senders_ok_def split: if_splits)
    then show ?thesis using step by (simp add: senders_ok_def)
  qed
qed

lemma senders_ok_run:
  assumes "boxes_ok s" "senders_ok s"
  shows "senders_ok (fst (pm_run digest ops s))"
proof -
  have "boxes_ok (fst (pm_run digest ops s)) \<and> senders_ok (fst (pm_run digest ops s))"
    by (rule pm_run_inv [where P = "\<lambda>s. boxes_ok s \<and> senders_ok s"]) (use assms boxes_ok_step senders_ok_step in auto)
  then show ?thesis ..
qed

lemma latest_props:
  "(latest_incoming ms p k n = zero_message \<or>
    latest_incoming ms p k n \<in> set ms \<and> msg_Peer (latest_incoming ms p k n) = p \<and> \<not> pm_Out (latest_incoming ms p k n) \<and> msg_ID (latest_incoming ms p k n) \<le> n) \<and>
   (\<forall>m \<in> set ms. msg_Peer m = p \<and> \<not> pm_Out m \<and> k < msg_ID m \<and> msg_ID m \<le> n \<longrightarrow> msg_ID m \<le> msg_ID (latest_incoming ms p k n))"
proof (induction ms rule: rev_induct)
  case Nil
  then show ?case by (simp add: latest_incoming_def)
next
  case (snoc m ms)
  have "latest_incoming (ms @ [m]) p k n = (if msg_Peer m \<noteq> p \<or> pm_Out m then latest_incoming ms p k n
      else if msg_ID m > n then latest_incoming ms p k n
      else if msg_ID m > k \<and> msg_ID m > msg_ID (latest_incoming ms p k n) then m else latest_incoming ms p k n)"
    by (simp add: latest_incoming_def)
  then show ?case using snoc by auto
qed

lemma latest_is:
  assumes ok: "boxes_ok s" and m: "m \<in> set (box s u)" "msg_Peer m = p" "\<not> pm_Out m" "k < msg_ID m" "msg_ID m \<le> n"
    and newest: "\<And>x. x \<in> set (box s u) \<Longrightarrow> msg_Peer x = p \<Longrightarrow> \<not> pm_Out x \<Longrightarrow> msg_ID x \<le> msg_ID m"
  shows "latest_incoming (box s u) p k n = m"
proof -
  let ?l = "latest_incoming (box s u) p k n"
  have ge: "msg_ID m \<le> msg_ID ?l" using latest_props [of "box s u" p k n] m by blast
  moreover have "0 < msg_ID m" by (rule boxes_okD(5) [OF ok m(1)])
  ultimately have "?l \<noteq> zero_message" by (auto simp: zero_message_def)
  then have l: "?l \<in> set (box s u)" "msg_Peer ?l = p" "\<not> pm_Out ?l" using latest_props [of "box s u" p k n] by auto
  then have "msg_ID ?l = msg_ID m" using newest ge by (simp add: order_antisym)
  then show ?thesis by (rule same_id [OF boxes_okD(1) [OF ok] l(1) m(1)])
qed

lemma same_uid:
  assumes "boxes_ok s" "x \<in> set (box s u)" "y \<in> set (box s u)" "pm_UID x = pm_UID y"
  shows "x = y"
proof -
  have "distinct (map pm_UID (box s u))" using boxes_okD(4) [OF assms(1), of u] by (simp add: strict_sorted_iff)
  then show ?thesis using assms(2-4) by (auto simp: distinct_map dest: inj_onD)
qed

lemma read_tells:
  assumes ok: "boxes_ok s" and views: "views_ok s" and senders: "senders_ok s" and small: "ms_nextBox s v \<le> MaxMessageBoxID"
    and users: "u \<noteq> 0" "v \<noteq> 0" "u \<noteq> v"
    and du: "find_dialog s u (user_peer v) = Some du"
    and m: "m \<in> set (box s u)" "msg_Peer m = user_peer v" "\<not> pm_Out m" "dg_ReadInboxMaxID du < msg_ID m"
    and newest: "\<And>x. x \<in> set (box s u) \<Longrightarrow> msg_Peer x = user_peer v \<Longrightarrow> \<not> pm_Out x \<Longrightarrow> msg_ID x \<le> msg_ID m"
    and copy: "m' \<in> set (box s v)" "pm_UID m' = pm_UID m" "pm_Out m'"
    and dv: "find_dialog s v (user_peer u) = Some dv" "dg_ReadOutboxMaxID dv < msg_ID m'"
    and date: "date \<noteq> 0"
  shows "GetOutboxReadDate (fst (ReadHistory now s u (user_peer v) 0 date)) v (user_peer u) (msg_ID m') = Inr date"
proof -
  have peer: "peer_ID (user_peer w) = w" for w by (simp add: user_peer_def)
  have "exact s u du" "dg_Peer du = user_peer v" using views find_dialogD [OF du] by (simp_all add: views_ok_def view_ok_def)
  then have le: "msg_ID m \<le> dg_TopMessage du" using top_bound [OF m(1,2)] by (simp add: exact_def Let_def)
  then have more: "read_max du 0 > dg_ReadInboxMaxID du" using m(4) by (simp add: read_max_def)
  have max: "read_max du 0 = dg_TopMessage du" by (simp add: read_max_def)
  have latest: "latest_incoming (box s u) (user_peer v) (dg_ReadInboxMaxID du) (dg_TopMessage du) = m"
    by (rule latest_is [OF ok m(1-4) le newest])
  have from_v: "pm_From m = user_peer v" using senders m(1-3) by (simp add: senders_ok_def)
  have peer': "msg_Peer m' = user_peer u" by (rule boxes_okD(9) [OF ok copy(1) m(1)]) (use copy(2) users in simp_all)
  have nz: "msg_ID m \<noteq> 0" "0 < msg_ID m'" "msg_ID m' \<le> MaxMessageBoxID"
    using boxes_okD(5) [OF ok m(1)] boxes_okD(5,6) [OF ok copy(1)] small by simp_all
  let ?t = "inbox_read s u (user_peer v) (read_max du 0)"
  have t: "box ?t w = box s w" "ms_readOutboxDates ?t = ms_readOutboxDates s" "find_dialog ?t v q = find_dialog s v q" for w q
    using users(3) by (simp_all add: inbox_read_def put_dialogs_def nextPtsLocked_def Let_def find_dialog_def)
  have found: "find (\<lambda>x. pm_UID x = pm_UID m \<and> pm_Out x) (box s v) = Some m'"
  proof -
    have "find (\<lambda>x. pm_UID x = pm_UID m \<and> pm_Out x) (box s v) \<noteq> None" using copy by (auto simp: find_None_iff)
    then obtain x where x: "find (\<lambda>x. pm_UID x = pm_UID m \<and> pm_Out x) (box s v) = Some x" by blast
    then have "x \<in> set (box s v)" "pm_UID x = pm_UID m'" using copy(2) by (auto simp: find_Some_iff)
    then show ?thesis using x same_uid [OF ok _ copy(1)] by simp
  qed
  obtain res where s': "fst (ReadHistory now s u (user_peer v) 0 date) = fst (read_outbox u date m (?t, res))"
    by (rule ReadHistory_state [OF users(1) _ du, of now 0 date]) (use users(2) more date max latest in \<open>auto simp: peer\<close>)
  have "\<exists>x \<in> set (box s v). msg_Peer x = user_peer u \<and> pm_Out x \<and> dg_ReadOutboxMaxID dv < msg_ID x \<and> msg_ID x \<le> msg_ID m' \<and> msg_ID m' = msg_ID x"
    using copy peer' dv(2) by auto
  then have dates: "ms_readOutboxDates (fst (read_outbox u date m (?t, res))) (v, u, msg_ID m') = date"
    using nz users(3) from_v found dv t users(2)
    by (simp add: read_outbox_def Let_def peer put_dialogs_def nextPtsLocked_def)
  have boxes: "box (fst (ReadHistory now s u (user_peer v) 0 date)) w = box s w" for w using read_fields by (simp add: box_def)
  have "find (\<lambda>x. msg_ID x = msg_ID m' \<and> msg_Peer x = user_peer u \<and> pm_Out x) (box s v) \<noteq> None" using copy peer' by (auto simp: find_None_iff)
  then show ?thesis using nz dates users date boxes unfolding GetOutboxReadDate_def s' by (simp add: user_peer_def)
qed

end
