(* ===== verification/Private_Theorems.thy ===== *)
theory Private_Theorems
  imports Private_Read
begin

text \<open>
  The properties of private messages, each with an input it applies to.
\<close>

subsection \<open>Inputs for the witnesses\<close>

definition pm_digest :: digest where
  "pm_digest = (\<lambda>p. Some (replicate 32 (of_nat (length (fg_Message p)))))"

definition pm_quote :: quote_source where
  "pm_quote = (\<lambda>r m. Inl (ErrQuoteRefused 0))"

definition pm_request :: "int \<Rightarrow> int \<Rightarrow> int \<Rightarrow> send_request" where
  "pm_request u r rid = \<lparr>sp_SenderUserID = u, sp_RecipientUserID = r, sp_RandomID = rid, sp_Message = ''hi'', sp_Media = None, sp_Rich = None,
     sp_NoForwards = False, sp_ReplyTo = None, sp_Forward = None, sp_Date = 7, sp_OriginAuthKeyID = 11, sp_OriginSessionID = 12,
     sp_OriginUserID = 0, sp_RecipientBlocked = False, sp_IdempotencyFingerprint = [], sp_TTLPeriod = 0, sp_payload = 0\<rparr>"

definition pm_store :: message_store where
  "pm_store = NewMessageStore NewUpdateEventStore"

subsection \<open>The boxes\<close>

text \<open>
  C31. Message boxes stay well formed. After any sequence of sends, reads, deletions and clears, ids and
  shared ids strictly increase along every box, every message has its owner, an id the allocator has
  given and a shared id, two copies of one message in different boxes name each other's owner as the
  peer, and every message a user sent with a random id has the receipt that names it.
\<close>

theorem mailboxes_wellformed:
  assumes "s = fst (pm_run digest ops (NewMessageStore events))"
  shows "sorted_wrt (<) (map msg_ID (box s u)) \<and> sorted_wrt (<) (map pm_UID (box s u)) \<and>
    (\<forall>m \<in> set (box s u). msg_OwnerUserID m = u \<and> 0 < msg_ID m \<and> msg_ID m \<le> ms_nextBox s u \<and> pm_UID m < ms_nextUID s) \<and>
    (\<forall>m \<in> set (box s u). \<forall>m' \<in> set (box s v). pm_UID m = pm_UID m' \<and> u \<noteq> v \<longrightarrow> msg_Peer m = user_peer v \<and> msg_Peer m' = user_peer u) \<and>
    (\<forall>m \<in> set (box s u). pm_Out m \<and> pm_RandomID m \<noteq> 0 \<longrightarrow>
      (\<exists>r. ms_privateSendDedup s (u, pm_RandomID m) = Some r \<and> dd_senderSnapshot r = m))"
proof -
  have ok: "boxes_ok s" unfolding assms by (rule boxes_ok_run [OF boxes_ok_new])
  have "sorted_wrt (<) (map msg_ID (box s u))" using boxes_okD(1) [OF ok] by (simp add: ids_ok_def)
  moreover have "msg_Peer m = user_peer v \<and> msg_Peer m' = user_peer u"
    if "m \<in> set (box s u)" "m' \<in> set (box s v)" "pm_UID m = pm_UID m'" "u \<noteq> v" for m m'
    using boxes_okD(9) [OF ok that] boxes_okD(9) [OF ok that(2,1)] that(3,4) by simp
  ultimately show ?thesis using boxes_okD(4,5,6,8,11,12) [OF ok] by blast
qed

theorem mailboxes_wellformed_witness:
  "sorted_wrt (<) (map msg_ID (box (fst (pm_run pm_digest [PmSend 0 pm_quote (pm_request 1 2 5)] pm_store)) 2))"
  using mailboxes_wellformed [OF refl, of pm_digest "[PmSend 0 pm_quote (pm_request 1 2 5)]" NewUpdateEventStore 2 1]
  unfolding pm_store_def by blast

subsection \<open>The dialogs\<close>

text \<open>
  C32. The dialog list is an exact view of the message box. After any sequence of fewer than 2^31
  operations an account has a dialog with a peer exactly when its box has a message with that peer; the
  dialog's top message is the newest of them, with its date, and its unread count is the number of
  messages from the peer above the position read, in spite of deletions on either side.
\<close>

theorem dialogs_exact:
  assumes "length ops < 2 ^ 31" "s = fst (pm_run digest ops (NewMessageStore events))"
  shows "(find_dialog s u p = None \<longleftrightarrow> (\<forall>m \<in> set (box s u). msg_Peer m \<noteq> p)) \<and>
    (\<forall>d. find_dialog s u p = Some d \<longrightarrow>
      (\<exists>top \<in> set (box s u). msg_Peer top = p \<and> dg_TopMessage d = msg_ID top \<and> dg_TopMessageDate d = msg_Date top \<and>
         (\<forall>m \<in> set (box s u). msg_Peer m = p \<longrightarrow> msg_ID m \<le> msg_ID top)) \<and>
      dg_UnreadCount d = int (length (filter (\<lambda>m. msg_Peer m = p \<and> \<not> pm_Out m \<and> msg_ID m > dg_ReadInboxMaxID d) (box s u))))"
proof -
  have "views_ok s" unfolding assms(2)
    by (rule views_ok_run [OF boxes_ok_new views_ok_new]) (use assms(1) in \<open>simp add: NewMessageStore_def\<close>)
  then have v: "view_ok s u {}" by (simp add: views_ok_def)
  have top: "\<exists>top \<in> set (box s u). msg_Peer top = p \<and> dg_TopMessage d = msg_ID top \<and> dg_TopMessageDate d = msg_Date top \<and>
      (\<forall>m \<in> set (box s u). msg_Peer m = p \<longrightarrow> msg_ID m \<le> msg_ID top)"
    and unread: "dg_UnreadCount d = incoming_after (box s u) p (dg_ReadInboxMaxID d)" if "find_dialog s u p = Some d" for d
  proof -
    have d: "exact s u d" "dg_Peer d = p" using v find_dialogD [OF that] by (simp_all add: view_ok_def)
    then show "dg_UnreadCount d = incoming_after (box s u) p (dg_ReadInboxMaxID d)" by (simp add: exact_def Let_def)
    have "top_message (box s u) p \<noteq> zero_message" using d by (auto simp: exact_def Let_def zero_message_def)
    then show "\<exists>top \<in> set (box s u). msg_Peer top = p \<and> dg_TopMessage d = msg_ID top \<and> dg_TopMessageDate d = msg_Date top \<and>
        (\<forall>m \<in> set (box s u). msg_Peer m = p \<longrightarrow> msg_ID m \<le> msg_ID top)"
      using top_message_props [of "box s u" p] d by (intro bexI [of _ "top_message (box s u) p"]) (auto simp: exact_def Let_def)
  qed
  have "find_dialog s u p = None \<longleftrightarrow> (\<forall>m \<in> set (box s u). msg_Peer m \<noteq> p)"
  proof
    assume "find_dialog s u p = None"
    then show "\<forall>m \<in> set (box s u). msg_Peer m \<noteq> p" using v unfolding find_dialog_None view_ok_def by metis
  next
    assume "\<forall>m \<in> set (box s u). msg_Peer m \<noteq> p"
    then show "find_dialog s u p = None" using top by (cases "find_dialog s u p") blast+
  qed
  then show ?thesis using top unread unfolding incoming_after_def by blast
qed

theorem dialogs_exact_witness:
  "find_dialog (fst (pm_run pm_digest [PmSend 0 pm_quote (pm_request 1 2 5), PmRead 0 2 (user_peer 1) 0 3] pm_store)) 3 (user_peer 1) = None \<longleftrightarrow>
     (\<forall>m \<in> set (box (fst (pm_run pm_digest [PmSend 0 pm_quote (pm_request 1 2 5), PmRead 0 2 (user_peer 1) 0 3] pm_store)) 3). msg_Peer m \<noteq> user_peer 1)"
proof -
  have "length [PmSend 0 pm_quote (pm_request 1 2 5), PmRead 0 2 (user_peer 1) 0 3] < 2 ^ 31" by simp
  from dialogs_exact [OF this refl, where digest = pm_digest and events = NewUpdateEventStore and u = 3 and p = "user_peer 1"]
  show ?thesis unfolding pm_store_def by blast
qed

subsection \<open>Random ids\<close>

text \<open>The receipt behind an answer.\<close>

lemma answered_receipt:
  assumes ok: "boxes_ok s" and run: "SendPrivateText digest now quote s req = (s1, Inr d)" and rid: "sp_RandomID req \<noteq> 0"
  obtains r where "boxes_ok s1" "ms_privateSendDedup s1 (sp_SenderUserID req, sp_RandomID req) = Some r"
    "pm_UID (sd_SenderMessage d) = pm_UID (dd_senderSnapshot r)" "msg_ID (sd_SenderMessage d) = msg_ID (dd_senderSnapshot r)"
    "dd_recipientUserID r = sp_RecipientUserID req" "PrivateSendFingerprint digest req = Inr (dd_fingerprint r)" "HasContent req"
    "sd_SenderMessage d = dd_senderSnapshot r \<or> lookupPrivateSendReplayLocked s1 (replay_of req (dd_fingerprint r)) = Inr (Some d)"
proof -
  have content: "HasContent req" using run by (auto simp: SendPrivateText_def split: if_splits)
  have step: "fst (pm_step digest (PmSend now quote req) s) = s1" using run by simp
  have ok1: "boxes_ok s1" using boxes_ok_step [OF ok, of digest "PmSend now quote req"] step by simp
  show ?thesis
  proof (rule send_private_cases [OF run])
    fix fp d' assume c: "s1 = s" "Inr d = Inr d'" "PrivateSendFingerprint digest req = Inr fp" "lookupPrivateSendReplayLocked s (replay_of req fp) = Inr (Some d')"
    then obtain r where r: "ms_privateSendDedup s (sp_SenderUserID req, sp_RandomID req) = Some r"
      "dd_recipientUserID r = sp_RecipientUserID req" "SameSendFingerprint (dd_fingerprint r) fp"
      by (auto simp: lookupPrivateSendReplayLocked_def replay_of_def Let_def split: option.splits if_splits sum.splits)
    have "DecodePrivateSendSnapshot (dd_senderSnapshot r) = Inr (dd_senderSnapshot r)"
      using boxes_okD(10) [OF ok r(1)] by (simp add: receipt_ok_def Let_def)
    with replay_answer [of s "replay_of req fp" r] r c
    have "pm_UID (sd_SenderMessage d) = pm_UID (dd_senderSnapshot r) \<and> msg_ID (sd_SenderMessage d) = msg_ID (dd_senderSnapshot r)"
      by (auto simp: replay_of_def)
    moreover have "dd_fingerprint r = fp" using r(3) by (simp add: SameSendFingerprint_def)
    ultimately show ?thesis using that [OF ok1, of r] c r content by simp
  next
    fix fp a b sender recipient alloc
    assume c: "PrivateSendFingerprint digest req = Inr fp" "send_commits s (dated now req) fp a b sender recipient alloc"
      "s1 = commit_send s (dated now req) fp alloc sender recipient"
      "Inr d = Inr \<lparr>sd_SenderMessage = sender, sd_RecipientMessage = recipient, sd_SenderEvent = newMessageEvent sender,
                    sd_RecipientEvent = newMessageEvent recipient, sd_Duplicate = False, sd_ReplayDeleteEvent = None\<rparr>"
    have "ms_privateSendDedup s1 (sp_SenderUserID req, sp_RandomID req) = Some \<lparr>dd_recipientUserID = sp_RecipientUserID req, dd_senderSnapshot = sender,
        dd_recipientMessage = immutablePrivateSendReceipt recipient, dd_fingerprint = fp, dd_senderDeleteEvent = None\<rparr>"
      using rid unfolding c(3) by (simp add: commit_fields dated_def)
    then show ?thesis by (rule that [OF ok1]) (use c content in simp_all)
  qed (use that in simp_all)
qed

text \<open>
  C33. A random id sends one message. Once a send with a random id has been answered, no later send of the
  same user with that random id changes the store, whatever happened in between and whatever the request
  says; if it is answered at all, it is answered as a duplicate with the first message.
\<close>

theorem random_id_once:
  assumes "s = fst (pm_run digest ops (NewMessageStore events))" "snd (SendPrivateText digest now quote s req) = Inr d" "sp_RandomID req \<noteq> 0"
    and "s2 = fst (pm_run digest later (fst (SendPrivateText digest now quote s req)))"
    and "sp_SenderUserID retry = sp_SenderUserID req" "sp_RandomID retry = sp_RandomID req"
  shows "fst (SendPrivateText digest later_now later_quote s2 retry) = s2 \<and>
    (\<forall>d2. snd (SendPrivateText digest later_now later_quote s2 retry) = Inr d2 \<longrightarrow> sd_Duplicate d2 \<and>
       pm_UID (sd_SenderMessage d2) = pm_UID (sd_SenderMessage d) \<and> msg_ID (sd_SenderMessage d2) = msg_ID (sd_SenderMessage d))"
proof -
  have ok: "boxes_ok s" unfolding assms(1) by (rule boxes_ok_run [OF boxes_ok_new])
  have run: "SendPrivateText digest now quote s req = (fst (SendPrivateText digest now quote s req), Inr d)" using assms(2) by (simp add: prod_eq_iff)
  show ?thesis
  proof (rule answered_receipt [OF ok run assms(3)])
    fix r assume r: "boxes_ok (fst (SendPrivateText digest now quote s req))"
      "ms_privateSendDedup (fst (SendPrivateText digest now quote s req)) (sp_SenderUserID req, sp_RandomID req) = Some r"
      "pm_UID (sd_SenderMessage d) = pm_UID (dd_senderSnapshot r)" "msg_ID (sd_SenderMessage d) = msg_ID (dd_senderSnapshot r)"
    obtain e where e: "ms_privateSendDedup s2 (sp_SenderUserID retry, sp_RandomID retry) = Some (r\<lparr>dd_senderDeleteEvent := e\<rparr>)"
      using receipt_stays [OF r(1,2)] assms(4-6) by metis
    have ok2: "boxes_ok s2" unfolding assms(4) by (rule boxes_ok_run [OF r(1)])
    have same: "fst (SendPrivateText digest later_now later_quote s2 retry) = s2" by (rule retry_answer(1) [OF e])
    moreover have "sd_Duplicate d2 \<and> pm_UID (sd_SenderMessage d2) = pm_UID (sd_SenderMessage d) \<and> msg_ID (sd_SenderMessage d2) = msg_ID (sd_SenderMessage d)"
      if d2: "snd (SendPrivateText digest later_now later_quote s2 retry) = Inr d2" for d2
    proof -
      have run2: "SendPrivateText digest later_now later_quote s2 retry = (s2, Inr d2)" using same d2 by (simp add: prod_eq_iff)
      show ?thesis
      proof (rule send_private_cases [OF run2])
        fix fp d' assume c: "Inr d2 = Inr d'" "lookupPrivateSendReplayLocked s2 (replay_of retry fp) = Inr (Some d')"
        have "DecodePrivateSendSnapshot (dd_senderSnapshot r) = Inr (dd_senderSnapshot r)"
          using boxes_okD(10) [OF ok2 e] by (simp add: receipt_ok_def Let_def)
        with replay_answer [of s2 "replay_of retry fp" "r\<lparr>dd_senderDeleteEvent := e\<rparr>"] e c r(3,4) show ?thesis
          by (auto simp: replay_of_def lookupPrivateSendReplayLocked_def split: if_splits)
      next
        fix fp assume "lookupPrivateSendReplayLocked s2 (replay_of retry fp) = Inr None"
        then show ?thesis using lookup_none e by (fastforce simp: replay_of_def)
      qed simp_all
    qed
    ultimately show ?thesis by blast
  qed
qed

lemma pm_answered:
  assumes "\<not> isl (snd (SendPrivateText digest now quote s req))"
  shows "snd (SendPrivateText digest now quote s req) = Inr (projr (snd (SendPrivateText digest now quote s req)))"
  using assms by simp

lemma pm_first_answered: "\<not> isl (snd (SendPrivateText pm_digest 0 pm_quote pm_store (pm_request 1 2 5)))"
  by code_simp

text \<open>A retry in the witnesses: the same random id after the recipient has read and the sender deleted.\<close>

definition pm_later :: "pm_op list" where
  "pm_later = [PmRead 0 2 (user_peer 1) 0 3, PmDelete 0 1 [1] False 4]"

theorem random_id_once_witness:
  "fst (SendPrivateText pm_digest 9 pm_quote (fst (pm_run pm_digest pm_later (fst (SendPrivateText pm_digest 0 pm_quote pm_store (pm_request 1 2 5)))))
     ((pm_request 1 2 5)\<lparr>sp_Message := ''other''\<rparr>)) =
   fst (pm_run pm_digest pm_later (fst (SendPrivateText pm_digest 0 pm_quote pm_store (pm_request 1 2 5))))"
proof -
  have s: "pm_store = fst (pm_run pm_digest [] (NewMessageStore NewUpdateEventStore))" by (simp add: pm_store_def)
  have ids: "sp_RandomID (pm_request 1 2 5) \<noteq> 0" "sp_SenderUserID ((pm_request 1 2 5)\<lparr>sp_Message := ''other''\<rparr>) = sp_SenderUserID (pm_request 1 2 5)"
    "sp_RandomID ((pm_request 1 2 5)\<lparr>sp_Message := ''other''\<rparr>) = sp_RandomID (pm_request 1 2 5)" by (simp_all add: pm_request_def)
  show ?thesis
    by (rule conjunct1 [OF random_id_once [OF s pm_answered [OF pm_first_answered] ids(1) refl ids(2,3)]])
qed



subsection \<open>Delivery\<close>

text \<open>
  C35. A send delivers to both sides. A new send appends one copy to the sender's box and, unless it is
  to oneself or the recipient blocked the sender, one to the recipient's, with the same shared id, body
  and date, each under the next id of its box; no other box changes. Each side's update log gets the event
  of its copy at the end, with a pts above every earlier one, and a dispatch that leaves out the device
  the message came from and no other.
\<close>

theorem send_delivers:
  assumes "s = fst (pm_run digest ops (NewMessageStore events))" "SendPrivateText digest now quote s req = (s', Inr d)" "\<not> sd_Duplicate d"
  shows "box s' v = box s v @ (if v = sp_SenderUserID req then [sd_SenderMessage d]
       else if v = sp_RecipientUserID req \<and> delivers req then [sd_RecipientMessage d] else []) \<and>
     pm_Body (sd_SenderMessage d) = sp_Message req \<and> msg_ID (sd_SenderMessage d) = ms_nextBox s (sp_SenderUserID req) + 1 \<and>
     (delivers req \<longrightarrow> msg_ID (sd_RecipientMessage d) = ms_nextBox s (sp_RecipientUserID req) + 1 \<and>
        pm_UID (sd_RecipientMessage d) = pm_UID (sd_SenderMessage d) \<and> pm_Body (sd_RecipientMessage d) = sp_Message req \<and>
        msg_Date (sd_RecipientMessage d) = msg_Date (sd_SenderMessage d)) \<and>
     st_events (ms_updateEvents s') v = st_events (ms_updateEvents s) v @ send_events req (sd_SenderMessage d) (sd_RecipientMessage d) v \<and>
     (\<forall>e \<in> set (st_events (ms_updateEvents s) v). \<forall>e' \<in> set (send_events req (sd_SenderMessage d) (sd_RecipientMessage d) v). ue_Pts e < ue_Pts e') \<and>
     st_dispatches (ms_updateEvents s') v = st_dispatches (ms_updateEvents s) v @
       map (\<lambda>e. if v = (if sp_OriginUserID req = 0 then sp_SenderUserID req else sp_OriginUserID req)
              then \<lparr>ud_Pts = ue_Pts e, ud_ExcludeAuthKeyID = sp_OriginAuthKeyID req, ud_ExcludeSessionID = sp_OriginSessionID req\<rparr>
              else \<lparr>ud_Pts = ue_Pts e, ud_ExcludeAuthKeyID = 0, ud_ExcludeSessionID = 0\<rparr>)
         (send_events req (sd_SenderMessage d) (sd_RecipientMessage d) v)"
proof -
  have ok: "boxes_ok s" unfolding assms(1) by (rule boxes_ok_run [OF boxes_ok_new])
  show ?thesis
  proof (rule send_private_cases [OF assms(2)])
    fix fp d' assume "Inr d = Inr d'" "lookupPrivateSendReplayLocked s (replay_of req fp) = Inr (Some d')"
    then have "sd_Duplicate d" by (auto simp: lookupPrivateSendReplayLocked_def Let_def split: option.splits if_splits sum.splits)
    then show ?thesis using assms(3) by simp
  next
    fix fp a b sender recipient alloc
    assume c: "send_commits s (dated now req) fp a b sender recipient alloc" and s': "s' = commit_send s (dated now req) fp alloc sender recipient"
      and "Inr d = Inr \<lparr>sd_SenderMessage = sender, sd_RecipientMessage = recipient, sd_SenderEvent = newMessageEvent sender,
                    sd_RecipientEvent = newMessageEvent recipient, sd_Duplicate = False, sd_ReplayDeleteEvent = None\<rparr>"
    then have d: "sd_SenderMessage d = sender" "sd_RecipientMessage d = recipient" by simp_all
    have same: "sp_SenderUserID (dated now req) = sp_SenderUserID req" "sp_RecipientUserID (dated now req) = sp_RecipientUserID req"
      "delivers (dated now req) = delivers req" "exclusion (dated now req) v = exclusion req v" "sp_Message (dated now req) = sp_Message req"
      "sp_RecipientBlocked (dated now req) = sp_RecipientBlocked req" "send_events (dated now req) sender recipient v = send_events req sender recipient v"
      by (simp_all add: dated_def delivers_def exclusion_def send_events_def)
    note cp = copies [OF c, unfolded same]
    have nz: "msg_ID sender \<noteq> 0" "delivers req \<Longrightarrow> msg_ID recipient \<noteq> 0"
      using boxes_okD(3) [OF ok, of "sp_SenderUserID req"] boxes_okD(3) [OF ok, of "sp_RecipientUserID req"] cp(1,9) by auto
    have content: "pm_Body sender = sp_Message req" "delivers req \<Longrightarrow> pm_Body recipient = sp_Message req \<and> msg_Date recipient = msg_Date sender"
      using c by (auto simp: send_commits_def same sender_copy_def recipient_copy_def delivers_def Let_def)
    have pts: "ue_Pts e' = fresh_pts s Map.empty v" if "e' \<in> set (send_events req sender recipient v)" for e'
      using that new_message_event [OF nz(1)] new_message_event [OF nz(2)] cp(8,14) by (auto simp: send_events_def split: if_splits)
    have "box s' v = box s v @ (if v = sp_SenderUserID req then [sender] else if v = sp_RecipientUserID req \<and> delivers req then [recipient] else [])"
      unfolding s' commit_boxes same by simp
    moreover have "exclusion req v = (if v = (if sp_OriginUserID req = 0 then sp_SenderUserID req else sp_OriginUserID req)
        then (sp_OriginAuthKeyID req, sp_OriginSessionID req) else (0, 0))"
      by (auto simp: exclusion_def Let_def)
    ultimately show ?thesis
      unfolding d using commit_events [OF ok c, of v, folded s', unfolded same] cp(1,2,9,10) content pts fresh_above [of s v] by simp
  qed (use assms(3) in simp_all)
qed

theorem send_delivers_witness:
  "map pm_Body (box (fst (SendPrivateText pm_digest 0 pm_quote pm_store (pm_request 1 2 5))) 2) = [''hi'']"
proof -
  have s: "pm_store = fst (pm_run pm_digest [] (NewMessageStore NewUpdateEventStore))" by (simp add: pm_store_def)
  let ?ans = "SendPrivateText pm_digest 0 pm_quote pm_store (pm_request 1 2 5)"
  have run: "?ans = (fst ?ans, Inr (projr (snd ?ans)))" using pm_answered [OF pm_first_answered] by (simp add: prod_eq_iff)
  have new: "\<not> sd_Duplicate (projr (snd ?ans))" by code_simp
  have empty: "box pm_store 2 = []" by (simp add: pm_store_def NewMessageStore_def box_def)
  have d: "delivers (pm_request 1 2 5)" "sp_RecipientUserID (pm_request 1 2 5) = 2" "sp_SenderUserID (pm_request 1 2 5) = 1" "sp_Message (pm_request 1 2 5) = ''hi''"
    by (simp_all add: delivers_def pm_request_def)
  show ?thesis using send_delivers [OF s run new, of 2] unfolding d empty by (simp add: d)
qed

end
