(* ===== verification/Private_Outcomes.thy ===== *)
theory Private_Outcomes
  imports Private_Theorems
begin

text \<open>
  The properties of private messages, continued: deletions, the update log and reading, and two runs that
  show where the memory store falls short.
\<close>

subsection \<open>Deleting\<close>

text \<open>
  C36. A deletion removes exactly what was asked for. The owner's box loses the messages with the ids given
  and no other; without revoke no other box changes, and with it the other boxes lose exactly the copies
  of those messages, each from the box of the peer the owner had it with.
\<close>

theorem delete_exact:
  assumes "length ops < 2 ^ 31" "s = fst (pm_run digest ops (NewMessageStore events))" "owner \<noteq> 0"
    and "int (length (normalizeMemoryMessageIDs ids)) \<le> MaxDeleteMessageIDs" "s' = fst (DeleteMessages now s owner ids revoke date)"
  shows "box s' owner = filter (\<lambda>m. msg_ID m \<notin> set ids) (box s owner) \<and>
    (v \<noteq> owner \<longrightarrow> box s' v = filter (\<lambda>m. \<not> (revoke \<and> (\<exists>x \<in> set (box s owner). msg_ID x \<in> set ids \<and> pm_UID x = pm_UID m \<and> msg_Peer x = user_peer v))) (box s v))"
proof -
  have ok: "boxes_ok s" unfolding assms(2) by (rule boxes_ok_run [OF boxes_ok_new])
  have "ms_nextBox s owner \<le> int (length ops)"
    using run_next_box [OF boxes_ok_new, of digest ops events owner] by (simp add: assms(2) NewMessageStore_def)
  then have small: "0 < msg_ID m \<and> msg_ID m \<le> MaxMessageBoxID" if "m \<in> set (box s owner)" for m
    using boxes_okD(5,6) [OF ok that] assms(1) by (simp add: MaxMessageBoxID_def)
  have in_ids: "msg_ID m \<in> set (normalizeMemoryMessageIDs ids) \<longleftrightarrow> msg_ID m \<in> set ids" if "m \<in> set (box s owner)" for m
    using small [OF that] by (auto simp: normalizeMemoryMessageIDs_def)
  have run: "DeleteMessages now s owner ids revoke date = (s', snd (DeleteMessages now s owner ids revoke date))" using assms(5) by simp
  show ?thesis
  proof (rule delete_messages_parts [OF boxes_okD(1) [OF ok] run assms(3,4)])
    assume own: "box s' owner = filter (\<lambda>m. msg_ID m \<notin> set (normalizeMemoryMessageIDs ids)) (box s owner)"
      and others: "\<And>v. v \<noteq> owner \<Longrightarrow> box s' v = (if revoke then filter (\<lambda>m. pm_UID m = 0 \<or>
        pm_UID m \<notin> pm_UID ` {m \<in> set (box s owner). msg_ID m \<in> set (normalizeMemoryMessageIDs ids)}) (box s v) else box s v)"
    have "box s' owner = filter (\<lambda>m. msg_ID m \<notin> set ids) (box s owner)" unfolding own using in_ids by (intro filter_cong) auto
    moreover have "box s' v = filter (\<lambda>m. \<not> (revoke \<and> (\<exists>x \<in> set (box s owner). msg_ID x \<in> set ids \<and> pm_UID x = pm_UID m \<and> msg_Peer x = user_peer v))) (box s v)"
      if v: "v \<noteq> owner"
    proof (cases revoke)
      case True
      have "pm_UID m \<in> pm_UID ` {m \<in> set (box s owner). msg_ID m \<in> set (normalizeMemoryMessageIDs ids)} \<longleftrightarrow>
          (\<exists>x \<in> set (box s owner). msg_ID x \<in> set ids \<and> pm_UID x = pm_UID m \<and> msg_Peer x = user_peer v)" if m: "m \<in> set (box s v)" for m
        using in_ids boxes_okD(9) [OF ok _ m] v by (auto simp: image_iff)
      moreover have "pm_UID m \<noteq> 0" if "m \<in> set (box s v)" for m using boxes_okD(7) [OF ok that] by simp
      ultimately show ?thesis unfolding others [OF v] using True by (intro if_P [THEN trans] filter_cong) simp_all
    qed (simp add: others [OF v])
    ultimately show ?thesis by blast
  qed
qed

theorem delete_exact_witness:
  "box (fst (DeleteMessages 0 (fst (pm_run pm_digest [PmSend 0 pm_quote (pm_request 1 2 5)] pm_store)) 1 [1] True 4)) 1 =
   filter (\<lambda>m. msg_ID m \<notin> set [1]) (box (fst (pm_run pm_digest [PmSend 0 pm_quote (pm_request 1 2 5)] pm_store)) 1)"
proof -
  have "length [PmSend 0 pm_quote (pm_request 1 2 5)] < 2 ^ 31" "(1 :: int) \<noteq> 0"
    "int (length (normalizeMemoryMessageIDs [1])) \<le> MaxDeleteMessageIDs" by (simp, simp, code_simp)
  from delete_exact [OF this(1) refl this(2,3) refl, where digest = pm_digest and events = NewUpdateEventStore and now = 0 and revoke = True and date = 4]
  show ?thesis unfolding pm_store_def by blast
qed

subsection \<open>The update log\<close>

text \<open>
  C37. Sends keep the update log gapless. As long as the accounts only send messages and the other services
  record their events, every account's log takes up the pts units after 0 without gap or overlap, its
  contiguous pts is that of its last event, a difference from any cursor is the rest of the log, and the
  next send goes on with the next pts.
\<close>

theorem sends_keep_log:
  assumes "log_ok events" "\<forall>op \<in> set ops. logs op" "s = fst (pm_run digest ops (NewMessageStore events))" "0 < n"
  shows "chained 0 (st_events (ms_updateEvents s) u) \<and>
    MaxContiguousPts (ms_updateEvents s) u = top_pts 0 (st_events (ms_updateEvents s) u) \<and>
    ListAfter (ms_updateEvents s) u p n = take (nat n) (filter (\<lambda>e. p < ue_Pts e) (st_events (ms_updateEvents s) u)) \<and>
    fresh_pts s Map.empty u = MaxContiguousPts (ms_updateEvents s) u + 1"
proof -
  have leads: "log_leads s" unfolding assms(3) by (rule log_leads_run [OF log_leads_new [OF assms(1)] boxes_ok_new assms(2)])
  then have ok: "log_ok (ms_updateEvents s)" by (simp add: log_leads_def)
  show ?thesis using mem.chain [OF ok] mem.water_log [OF ok] mem.list_after_log [OF ok assms(4)] fresh_next [OF leads] by simp
qed

theorem sends_keep_log_witness:
  "chained 0 (st_events (ms_updateEvents (fst (pm_run pm_digest [PmSend 0 pm_quote (pm_request 1 2 5), PmRecord 2 zero_event] pm_store))) 2)"
proof -
  have "\<forall>op \<in> set [PmSend 0 pm_quote (pm_request 1 2 5), PmRecord 2 zero_event]. logs op" "(0 :: int) < 1" by simp_all
  from sends_keep_log [OF log_ok_new this(1) refl this(2), where digest = pm_digest] show ?thesis unfolding pm_store_def by blast
qed

subsection \<open>Reading\<close>

text \<open>
  Reading a dialog to its end leaves nothing unread. The dialog that is read stays, its unread count
  is 0, and the position read covers its top message and never moves back.
\<close>

theorem read_leaves_none:
  assumes "length ops < 2 ^ 31" "s = fst (pm_run digest ops (NewMessageStore events))" "owner \<noteq> 0" "peer_ID p \<noteq> 0"
    and "find_dialog s owner p = Some d"
  shows "\<exists>d'. find_dialog (fst (ReadHistory now s owner p 0 date)) owner p = Some d' \<and> dg_UnreadCount d' = 0 \<and>
    dg_ReadInboxMaxID d \<le> dg_ReadInboxMaxID d' \<and> dg_TopMessage d' \<le> dg_ReadInboxMaxID d'"
proof (rule read_all [OF _ _ assms(3-5)])
  show "boxes_ok s" unfolding assms(2) by (rule boxes_ok_run [OF boxes_ok_new])
  show "views_ok s" unfolding assms(2)
    by (rule views_ok_run [OF boxes_ok_new views_ok_new]) (use assms(1) in \<open>simp add: NewMessageStore_def\<close>)
qed

theorem read_leaves_none_witness:
  "\<exists>d'. find_dialog (fst (ReadHistory 0 (fst (pm_run pm_digest [PmSend 0 pm_quote (pm_request 1 2 5)] pm_store)) 2 (user_peer 1) 0 4)) 2 (user_peer 1) = Some d' \<and>
     dg_UnreadCount d' = 0"
proof -
  let ?s = "fst (pm_run pm_digest [PmSend 0 pm_quote (pm_request 1 2 5)] pm_store)"
  have "find_dialog ?s 2 (user_peer 1) \<noteq> None" by code_simp
  then have d: "find_dialog ?s 2 (user_peer 1) = Some (the (find_dialog ?s 2 (user_peer 1)))" by simp
  have c: "length [PmSend 0 pm_quote (pm_request 1 2 5)] < 2 ^ 31" "(2 :: int) \<noteq> 0" "peer_ID (user_peer 1) \<noteq> 0" by (simp_all add: user_peer_def)
  show ?thesis
    using read_leaves_none [OF c(1) refl c(2,3) d [unfolded pm_store_def], where now = 0 and date = 4] unfolding pm_store_def by blast
qed

text \<open>
  C38. The sender of a message learns when it was read. When a user reads a dialog to its end, the copy of
  the newest incoming message in its sender's box, not read before, gets the date it was read at,
  whatever was sent, deleted or cleared before.
\<close>

theorem read_tells_sender:
  assumes "length ops < 2 ^ 31" "s = fst (pm_run digest ops (NewMessageStore events))" "u \<noteq> 0" "v \<noteq> 0" "u \<noteq> v"
    and "find_dialog s u (user_peer v) = Some du"
    and "m \<in> set (box s u)" "msg_Peer m = user_peer v" "\<not> pm_Out m" "dg_ReadInboxMaxID du < msg_ID m"
    and "\<forall>x \<in> set (box s u). msg_Peer x = user_peer v \<and> \<not> pm_Out x \<longrightarrow> msg_ID x \<le> msg_ID m"
    and "m' \<in> set (box s v)" "pm_UID m' = pm_UID m" "pm_Out m'"
    and "find_dialog s v (user_peer u) = Some dv" "dg_ReadOutboxMaxID dv < msg_ID m'" "date \<noteq> 0"
  shows "GetOutboxReadDate (fst (ReadHistory now s u (user_peer v) 0 date)) v (user_peer u) (msg_ID m') = Inr date"
proof -
  have ok: "boxes_ok s" unfolding assms(2) by (rule boxes_ok_run [OF boxes_ok_new])
  have views: "views_ok s" unfolding assms(2)
    by (rule views_ok_run [OF boxes_ok_new views_ok_new]) (use assms(1) in \<open>simp add: NewMessageStore_def\<close>)
  have senders: "senders_ok s" unfolding assms(2)
    by (rule senders_ok_run [OF boxes_ok_new]) (simp add: senders_ok_def NewMessageStore_def box_def)
  have "ms_nextBox s v \<le> int (length ops)"
    using run_next_box [OF boxes_ok_new, of digest ops events v] by (simp add: assms(2) NewMessageStore_def)
  then have small: "ms_nextBox s v \<le> MaxMessageBoxID" using assms(1) by (simp add: MaxMessageBoxID_def)
  have newest: "msg_ID x \<le> msg_ID m" if "x \<in> set (box s u)" "msg_Peer x = user_peer v" "\<not> pm_Out x" for x using assms(11) that by blast
  show ?thesis by (rule read_tells [OF ok views senders small assms(3-10) newest assms(12-17)])
qed

theorem read_tells_sender_witness:
  "GetOutboxReadDate (fst (ReadHistory 0 (fst (pm_run pm_digest [PmSend 0 pm_quote (pm_request 1 2 5)] pm_store)) 2 (user_peer 1) 0 4)) 1 (user_peer 2) 1 = Inr 4"
proof -
  let ?ops = "[PmSend 0 pm_quote (pm_request 1 2 5)]"
  let ?s = "fst (pm_run pm_digest ?ops pm_store)"
  let ?m = "hd (box ?s 2)" and ?m' = "hd (box ?s 1)"
  let ?du = "the (find_dialog ?s 2 (user_peer 1))" and ?dv = "the (find_dialog ?s 1 (user_peer 2))"
  have ne: "find_dialog ?s 2 (user_peer 1) \<noteq> None" "find_dialog ?s 1 (user_peer 2) \<noteq> None" "length (box ?s 2) = 1" "length (box ?s 1) = 1"
    by (code_simp, code_simp, code_simp, code_simp)
  have dialogs: "find_dialog ?s 2 (user_peer 1) = Some ?du" "find_dialog ?s 1 (user_peer 2) = Some ?dv" using ne(1,2) by simp_all
  have boxes: "box ?s 2 = [?m]" "box ?s 1 = [?m']" using ne(3,4) by (simp_all add: length_Suc_conv) (metis list.sel(1) One_nat_def length_0_conv length_Suc_conv)+
  have m: "msg_Peer ?m = user_peer 1" "\<not> pm_Out ?m" "dg_ReadInboxMaxID ?du < msg_ID ?m" by (code_simp, code_simp, code_simp)
  have m': "pm_UID ?m' = pm_UID ?m" "pm_Out ?m'" "dg_ReadOutboxMaxID ?dv < msg_ID ?m'" "msg_ID ?m' = 1" by (code_simp, code_simp, code_simp, code_simp)
  have c: "length ?ops < 2 ^ 31" "(2 :: int) \<noteq> 0" "(1 :: int) \<noteq> 0" "(2 :: int) \<noteq> 1" "(4 :: int) \<noteq> 0" by simp_all
  have mem: "?m \<in> set (box ?s 2)" "?m' \<in> set (box ?s 1)" "\<forall>x \<in> set (box ?s 2). msg_Peer x = user_peer 1 \<and> \<not> pm_Out x \<longrightarrow> msg_ID x \<le> msg_ID ?m"
    using boxes by (metis list.set_intros(1), metis list.set_intros(1), metis (mono_tags) empty_iff list.set(1) order_refl set_ConsD)
  show ?thesis
    using read_tells_sender [OF c(1) refl c(2,3,4) dialogs(1) [unfolded pm_store_def] mem(1) [unfolded pm_store_def] m [unfolded pm_store_def]
        mem(3) [unfolded pm_store_def] mem(2) [unfolded pm_store_def] m'(1,2) [unfolded pm_store_def] dialogs(2) [unfolded pm_store_def]
        m'(3) [unfolded pm_store_def] c(5), where now = 0]
    unfolding pm_store_def m'(4) [unfolded pm_store_def] .
qed

subsection \<open>Where the store falls short\<close>

text \<open>
  Clearing a history in place replaces the newest message by one without a random id, so that deleting it
  afterwards records nothing in the receipt: the retry of the send fails with an internal error.
\<close>

lemma retry_lost_after_clear:
  "case snd (SendPrivateText pm_digest 9 pm_quote
      (fst (pm_run pm_digest [PmSend 0 pm_quote (pm_request 1 2 5),
          PmClear 0 \<lparr>dh_OwnerUserID = 1, dh_Peer = user_peer 2, dh_MaxID = 0, dh_MinDate = 0, dh_MaxDate = 0, dh_JustClear = True, dh_Revoke = False, dh_Date = 8\<rparr>,
          PmDelete 0 1 [1] False 9] pm_store)) (pm_request 1 2 5)) of
     Inl e \<Rightarrow> e = ErrReplayAbsent 1 | Inr d \<Rightarrow> False"
  by code_simp

text \<open>
  Reading takes a pts and leaves its event out of the log: the contiguous pts of the reader stays where it
  was, however many messages follow.
\<close>

lemma reading_leaves_gap:
  "let s = fst (pm_run pm_digest [PmSend 0 pm_quote (pm_request 1 2 5), PmRead 0 2 (user_peer 1) 0 3, PmSend 0 pm_quote (pm_request 1 2 6)] pm_store)
   in map ue_Pts (st_events (ms_updateEvents s) 2) = [1, 3] \<and> MaxContiguousPts (ms_updateEvents s) 2 = 1"
  by code_simp

end
