(* ===== verification/Private_History.thy ===== *)
theory Private_History
  imports Private_Log "HOL-Library.Sublist" "HOL-Library.Multiset"
begin

text \<open>
  Reading the messages of a box (\<^verbatim>\<open>internal/store/memory/message_history.go\<close>): by id, by the shared id, and
  the list of a dialog or a search with its filters and its pages, and the equivalence of the three ways a
  page is loaded with one window of the matching messages.

  \<^item> A listed message is the stored one with its poll enriched and its reactions attached, and with the
    two fields of the message only this file reads: whether it is pinned, and whether its media is music.
    The reactions and the polls of the store, the system users and the hash are other parts of the
    program and come as the \<open>listing\<close>, a parameter. So does the lower case of a string, which is Unicode's.
\<close>

subsection \<open>Data\<close>

text \<open>The results by the keys of their reactions; the recent ones and the paid one are only carried along.\<close>

record message_reactions =
  rx_CanSeeList :: bool
  rx_AsTags :: bool
  rx_Results :: "string list"
  rx_Recent :: "nat list"
  rx_Paid :: "nat option"

record history_message = private_message +
  hm_Pinned :: bool
  hm_Reactions :: "message_reactions option"

record listing =
  ls_reactions :: "private_message \<Rightarrow> message_reactions"
  ls_poll :: "private_message \<Rightarrow> message_media option"
  ls_Pinned :: "private_message \<Rightarrow> bool"
  ls_IsMusic :: "message_media option \<Rightarrow> bool"
  ls_ToLower :: "string \<Rightarrow> string"
  ls_SystemUserByID :: "int \<Rightarrow> nat option"
  ls_messageListHash :: "history_message list \<Rightarrow> 64 word"

record message_filter =
  hf_HasPeer :: bool
  hf_Peer :: peer
  hf_Query :: string
  hf_OffsetID :: int
  hf_OffsetDate :: int
  hf_MinDate :: int
  hf_MaxDate :: int
  hf_AddOffset :: int
  hf_Limit :: int
  hf_MaxID :: int
  hf_MinID :: int
  hf_Hash :: int
  hf_SenderUserID :: int
  hf_CountOnly :: bool
  hf_PinnedOnly :: bool
  hf_MusicOnly :: bool
  hf_PhoneCallsOnly :: bool
  hf_MissedPhoneCallsOnly :: bool
  hf_NeedTotalCount :: bool
  hf_SavedPeer :: peer
  hf_SavedReactions :: "string list"
  hf_PeerIDs :: "int list"
  hf_RestrictPeerIDs :: bool

record history_list =
  hl_Messages :: "history_message list"
  hl_Users :: "nat list"
  hl_Count :: int
  hl_Hash :: "64 word"

definition no_history :: history_list where
  "no_history = \<lparr>hl_Messages = [], hl_Users = [], hl_Count = 0, hl_Hash = 0\<rparr>"

definition listed :: "listing \<Rightarrow> private_message \<Rightarrow> history_message" where
  "listed ls m =
     (let reactions = ls_reactions ls m;
          attached = (if rx_Results reactions \<noteq> [] \<or> rx_Recent reactions \<noteq> [] then Some reactions else None)
      in private_message.extend (m\<lparr>pm_Media := ls_poll ls m\<rparr>) (history_message.fields (ls_Pinned ls m) attached))"

fun users_loop :: "listing \<Rightarrow> peer list \<Rightarrow> int list \<Rightarrow> nat list \<Rightarrow> nat list" where
  "users_loop ls [] seen users = users"
| "users_loop ls (p # ps) seen users =
     (if peer_Type p \<noteq> PeerTypeUser then users_loop ls ps seen users
      else if peer_ID p \<in> set seen then users_loop ls ps seen users
      else users_loop ls ps (peer_ID p # seen) (case ls_SystemUserByID ls (peer_ID p) of None \<Rightarrow> users | Some u \<Rightarrow> users @ [u]))"

definition usersForMessages :: "listing \<Rightarrow> history_message list \<Rightarrow> nat list" where
  "usersForMessages ls ms = users_loop ls (concat (map (\<lambda>m. [msg_Peer m, pm_From m]) ms)) [] []"

subsection \<open>By id\<close>

definition GetByIDs :: "listing \<Rightarrow> message_store \<Rightarrow> int \<Rightarrow> int list \<Rightarrow> history_list" where
  "GetByIDs ls s userID ids =
     (if userID = 0 \<or> ids = [] then no_history
      else let byID = fold (\<lambda>m f. f(msg_ID m \<mapsto> listed ls m)) (box s userID) Map.empty;
               out = List.map_filter byID ids
           in \<lparr>hl_Messages = out, hl_Users = usersForMessages ls out, hl_Count = 0, hl_Hash = ls_messageListHash ls out\<rparr>)"

definition GetByUID :: "listing \<Rightarrow> message_store \<Rightarrow> int \<Rightarrow> int \<Rightarrow> history_message option" where
  "GetByUID ls s userID uid =
     (if userID = 0 \<or> uid = 0 then None
      else case find (\<lambda>m. pm_UID m = uid) (box s userID) of
             None \<Rightarrow> None
           | Some m \<Rightarrow> if msg_ID m = 0 then None else Some (listed ls m))"

subsection \<open>Filters\<close>

definition MaxMessageHistoryAddOffset :: int where
  "MaxMessageHistoryAddOffset = 100"

definition ClampMessageHistoryAddOffset :: "int \<Rightarrow> int" where
  "ClampMessageHistoryAddOffset v =
     (if v > MaxMessageHistoryAddOffset then MaxMessageHistoryAddOffset
      else if v < - MaxMessageHistoryAddOffset then - MaxMessageHistoryAddOffset
      else v)"

definition newest_first :: "history_message list \<Rightarrow> history_message list" where
  "newest_first ms = sort_key (\<lambda>m. - msg_ID m) ms"

definition messageHasAnySavedTag :: "history_message \<Rightarrow> string list \<Rightarrow> bool" where
  "messageHasAnySavedTag m wanted =
     (case hm_Reactions m of None \<Rightarrow> False
      | Some r \<Rightarrow> if \<not> rx_AsTags r then False else list_ex (\<lambda>reaction. reaction \<in> set (rx_Results r)) wanted)"

definition matches_filter :: "listing \<Rightarrow> message_filter \<Rightarrow> history_message \<Rightarrow> bool" where
  "matches_filter ls f m \<longleftrightarrow>
     (let query = ls_ToLower ls (hf_Query f) in
      if hf_HasPeer f \<and> msg_Peer m \<noteq> hf_Peer f then False
      else if hf_SenderUserID f \<noteq> 0 \<and> pm_From m \<noteq> user_peer (hf_SenderUserID f) then False
      else if hf_RestrictPeerIDs f \<and> (peer_Type (msg_Peer m) \<noteq> PeerTypeUser \<or> peer_ID (msg_Peer m) \<notin> set (hf_PeerIDs f)) then False
      else if query \<noteq> [] \<and> \<not> sublist query (ls_ToLower ls (pm_Body m)) then False
      else if hf_MinDate f > 0 \<and> msg_Date m \<le> hf_MinDate f then False
      else if hf_MaxDate f > 0 \<and> msg_Date m \<ge> hf_MaxDate f then False
      else if hf_MaxID f > 0 \<and> msg_ID m \<ge> hf_MaxID f then False
      else if hf_MinID f > 0 \<and> msg_ID m \<le> hf_MinID f then False
      else if hf_PinnedOnly f \<and> \<not> hm_Pinned m then False
      else if hf_MusicOnly f \<and> \<not> ls_IsMusic ls (pm_Media m) then False
      else if peer_ID (hf_SavedPeer f) \<noteq> 0 \<and> pm_SavedPeer m \<noteq> hf_SavedPeer f then False
      else if hf_SavedReactions f \<noteq> [] \<and> \<not> messageHasAnySavedTag m (hf_SavedReactions f) then False
      else True)"

subsection \<open>Pages\<close>

datatype history_load = LoadBackward | LoadForward | LoadAround

definition messageHistoryLoadType :: "int \<Rightarrow> int \<Rightarrow> history_load" where
  "messageHistoryLoadType addOffset limit =
     (if addOffset \<ge> 0 then LoadBackward else if addOffset + limit > 0 then LoadAround else LoadForward)"

definition messageBeforeHistoryOffset :: "history_message \<Rightarrow> message_filter \<Rightarrow> bool" where
  "messageBeforeHistoryOffset m f \<longleftrightarrow>
     (if hf_OffsetDate f > 0 then msg_Date m < hf_OffsetDate f else if hf_OffsetID f \<le> 0 then True else msg_ID m < hf_OffsetID f)"

definition messageAfterHistoryOffset :: "history_message \<Rightarrow> message_filter \<Rightarrow> bool" where
  "messageAfterHistoryOffset m f \<longleftrightarrow>
     (if hf_OffsetDate f > 0 then msg_Date m \<ge> hf_OffsetDate f else if hf_OffsetID f \<le> 0 then False else msg_ID m \<ge> hf_OffsetID f)"

fun backward_loop :: "message_filter \<Rightarrow> int \<Rightarrow> history_message list \<Rightarrow> history_message list \<Rightarrow> history_message list" where
  "backward_loop f limit [] out = out"
| "backward_loop f limit (m # ms) out =
     (if \<not> messageBeforeHistoryOffset m f then backward_loop f limit ms out
      else let out' = out @ [m] in if int (length out') = limit then out' else backward_loop f limit ms out')"

definition backwardMessageHistory :: "history_message list \<Rightarrow> message_filter \<Rightarrow> int \<Rightarrow> history_message list" where
  "backwardMessageHistory base f limit = (if limit \<le> 0 then [] else backward_loop f limit base [])"

fun forward_loop :: "message_filter \<Rightarrow> int \<Rightarrow> history_message list \<Rightarrow> int \<Rightarrow> history_message list \<Rightarrow> history_message list" where
  "forward_loop f limit [] skip out = out"
| "forward_loop f limit (m # ms) skip out =
     (if \<not> messageAfterHistoryOffset m f then forward_loop f limit ms skip out
      else if skip > 0 then forward_loop f limit ms (skip - 1) out
      else let out' = out @ [m] in if int (length out') = limit then out' else forward_loop f limit ms skip out')"

definition forwardMessageHistory :: "history_message list \<Rightarrow> message_filter \<Rightarrow> int \<Rightarrow> int \<Rightarrow> history_message list" where
  "forwardMessageHistory base f limit skip = (if limit \<le> 0 then [] else newest_first (forward_loop f limit (rev base) skip []))"

definition pageMessageHistory :: "history_message list \<Rightarrow> message_filter \<Rightarrow> int \<Rightarrow> history_message list" where
  "pageMessageHistory base f limit =
     (if limit \<le> 0 \<or> base = [] then []
      else case messageHistoryLoadType (hf_AddOffset f) limit of
        LoadForward \<Rightarrow> forwardMessageHistory base f limit (- hf_AddOffset f - limit)
      | LoadAround \<Rightarrow>
          let forwardLimit = (if - hf_AddOffset f > limit then limit else - hf_AddOffset f);
              backwardLimit = (if limit + hf_AddOffset f < 0 then 0 else limit + hf_AddOffset f)
          in newest_first (forwardMessageHistory base f forwardLimit 0 @ backwardMessageHistory base f backwardLimit)
      | LoadBackward \<Rightarrow>
          let start = (if hf_AddOffset f < 0 then 0 else hf_AddOffset f);
              candidates = backwardMessageHistory base f (limit + start)
          in if start \<ge> int (length candidates) then [] else drop (nat start) candidates)"

definition page_limit :: "int \<Rightarrow> int" where
  "page_limit l = (if l \<le> 0 then 100 else if l > 500 then 500 else l)"

definition filterMessageList :: "listing \<Rightarrow> history_message list \<Rightarrow> message_filter \<Rightarrow> history_list" where
  "filterMessageList ls messages f0 =
     (let f = f0\<lparr>hf_AddOffset := ClampMessageHistoryAddOffset (hf_AddOffset f0)\<rparr>;
          base = filter (matches_filter ls f) (newest_first messages)
      in if hf_CountOnly f then no_history\<lparr>hl_Count := int (length base)\<rparr>
         else let page = pageMessageHistory base f (page_limit (hf_Limit f))
              in \<lparr>hl_Messages = page, hl_Users = usersForMessages ls page, hl_Count = int (length base),
                  hl_Hash = ls_messageListHash ls base\<rparr>)"

definition ListByUser :: "listing \<Rightarrow> message_store \<Rightarrow> int \<Rightarrow> message_filter \<Rightarrow> history_list" where
  "ListByUser ls s userID f = filterMessageList ls (map (listed ls) (box s userID)) f"

subsection \<open>Windows\<close>

text \<open>A window of a list: the \<open>n\<close> elements from index \<open>i\<close> on, as far as they are there.\<close>

definition window :: "int \<Rightarrow> int \<Rightarrow> 'a list \<Rightarrow> 'a list" where
  "window i n xs = drop (nat i) (take (nat (i + n)) xs)"

abbreviation descending :: "history_message list \<Rightarrow> bool" where
  "descending ms \<equiv> sorted_wrt (\<lambda>a b. msg_ID a > msg_ID b) ms"

lemma after_before: "messageAfterHistoryOffset m f \<longleftrightarrow> \<not> messageBeforeHistoryOffset m f"
  by (auto simp: messageAfterHistoryOffset_def messageBeforeHistoryOffset_def)

lemma newest_first_is:
  assumes "mset xs = mset ys" "descending ys"
  shows "newest_first xs = ys"
proof -
  have "sorted_wrt (<) (map (\<lambda>m. - msg_ID m) ys)" using assms(2) by (simp add: sorted_wrt_map)
  then have keys: "sorted (map (\<lambda>m. - msg_ID m) ys)" "distinct (map (\<lambda>m. - msg_ID m) ys)" by (simp_all add: strict_sorted_iff)
  have "inj_on (\<lambda>m. - msg_ID m) (set ys)" using keys(2) by (simp only: distinct_map)
  then show ?thesis
    unfolding newest_first_def using assms(1) keys(1) mset_eq_setD [OF assms(1)] by (intro sort_key_inj_key_eq) simp_all
qed

lemma newest_first_id: "descending ms \<Longrightarrow> newest_first ms = ms"
  by (rule newest_first_is) simp_all

lemma newest_first_rev: "descending ms \<Longrightarrow> newest_first (rev ms) = ms"
  by (rule newest_first_is) simp_all

lemma newest_first_set [simp]: "set (newest_first ms) = set ms"
  by (simp add: newest_first_def)

lemma backward_loop_take:
  "int (length out) < limit \<Longrightarrow>
   backward_loop f limit ms out = out @ take (nat (limit - int (length out))) (filter (\<lambda>m. messageBeforeHistoryOffset m f) ms)"
proof (induction f limit ms out rule: backward_loop.induct)
  case (2 f limit m ms out)
  show ?case
  proof (cases "messageBeforeHistoryOffset m f")
    case True
    have n: "nat (limit - int (length out)) = Suc (nat (limit - int (length (out @ [m]))))" using 2(3) by simp
    show ?thesis
    proof (cases "int (length (out @ [m])) = limit")
      case last: True
      then show ?thesis using True n by (simp del: length_append)
    next
      case False
      then have "int (length (out @ [m])) < limit" using 2(3) by simp
      then show ?thesis using 2 True n False by (simp del: length_append)
    qed
  qed (use 2 in simp)
qed simp

lemma backward_take: "backwardMessageHistory base f limit = take (nat limit) (filter (\<lambda>m. messageBeforeHistoryOffset m f) base)"
  using backward_loop_take [of "[]" limit f base] by (simp add: backwardMessageHistory_def)

lemma forward_loop_take:
  "int (length out) < limit \<Longrightarrow>
   forward_loop f limit ms skip out =
     out @ take (nat (limit - int (length out))) (drop (nat skip) (filter (\<lambda>m. messageAfterHistoryOffset m f) ms))"
proof (induction f limit ms skip out rule: forward_loop.induct)
  case (2 f limit m ms skip out)
  show ?case
  proof (cases "messageAfterHistoryOffset m f")
    case after: True
    show ?thesis
    proof (cases "skip > 0")
      case True
      then have "nat skip = Suc (nat (skip - 1))" by simp
      then show ?thesis using 2 after True by simp
    next
      case False
      have n: "nat (limit - int (length out)) = Suc (nat (limit - int (length (out @ [m]))))" using 2(4) by simp
      show ?thesis
      proof (cases "int (length (out @ [m])) = limit")
        case last: True
        then show ?thesis using after False n by (simp del: length_append)
      next
        case more: False
        then have "int (length (out @ [m])) < limit" using 2(4) by simp
        then show ?thesis using 2 after False n more by (simp del: length_append)
      qed
    qed
  qed (use 2 in simp)
qed simp

lemma descending_part: "descending ms \<Longrightarrow> descending (filter P ms) \<and> descending (take n ms) \<and> descending (drop n ms)"
  by (simp add: sorted_wrt_filter sorted_wrt_take sorted_wrt_drop)

lemma forward_window:
  assumes "descending base" "0 \<le> skip" and newer_def: "newer = filter (\<lambda>m. messageAfterHistoryOffset m f) base"
  shows "forwardMessageHistory base f limit skip = window (int (length newer) - skip - limit) limit newer"
proof (cases "limit \<le> 0")
  case True
  then show ?thesis by (simp add: forwardMessageHistory_def window_def)
next
  case False
  let ?k = "length newer"
  have "forward_loop f limit (rev base) skip [] = take (nat limit) (drop (nat skip) (rev newer))"
    using forward_loop_take [of "[]" limit f "rev base" skip] False by (simp add: newer_def rev_filter)
  also have "\<dots> = rev (drop (?k - nat skip - nat limit) (take (?k - nat skip) newer))"
    by (simp add: drop_rev take_rev)
  also have "drop (?k - nat skip - nat limit) (take (?k - nat skip) newer) = window (int ?k - skip - limit) limit newer"
  proof -
    have "?k - nat skip - nat limit = nat (int ?k - skip - limit)" "?k - nat skip = nat (int ?k - skip - limit + limit)"
      using False assms(2) by arith+
    then show ?thesis unfolding window_def by (simp only:)
  qed
  finally show ?thesis
    using False descending_part [OF assms(1)] newest_first_rev [of "window (int ?k - skip - limit) limit newer"] descending_part
    by (simp add: forwardMessageHistory_def window_def newer_def)
qed

lemma window_append:
  "window (int (length xs) + i) n (xs @ ys) =
     (if 0 \<le> i then drop (nat i) (take (nat (i + n)) ys)
      else if i + n \<le> 0 then window (int (length xs) + i) n xs
      else drop (nat (int (length xs) + i)) xs @ take (nat (i + n)) ys)"
proof -
  consider "0 \<le> i" "0 \<le> i + n" | "0 \<le> i" "i + n < 0" | "i < 0" "i + n \<le> 0" | "i < 0" "0 < i + n" by linarith
  then show ?thesis
  proof cases
    case 1
    then have "nat (int (length xs) + i) = length xs + nat i" "nat (int (length xs) + i + n) = length xs + nat (i + n)" by arith+
    then show ?thesis using 1 by (simp add: window_def)
  next
    case 2
    then have "nat (int (length xs) + i + n) \<le> nat (int (length xs) + i)" by arith
    then show ?thesis using 2 by (simp add: window_def)
  next
    case 3
    then have "nat (int (length xs) + i + n) - length xs = 0" by arith
    then show ?thesis using 3 by (simp add: window_def)
  next
    case 4
    then have "nat (int (length xs) + i + n) = length xs + nat (i + n)" "nat (int (length xs) + i) - length xs = 0" by arith+
    then show ?thesis using 4 by (simp add: window_def)
  qed
qed

lemma window_length: "length (window i n xs) \<le> nat n"
  unfolding window_def length_drop length_take by arith

lemma page_window:
  assumes base: "descending base" and limit: "0 < limit"
    and newer: "newer = filter (\<lambda>m. messageAfterHistoryOffset m f) base" and older: "older = filter (\<lambda>m. messageBeforeHistoryOffset m f) base"
  shows "pageMessageHistory base f limit = newest_first (window (int (length newer) + hf_AddOffset f) limit (newer @ older))"
proof (cases "base = []")
  case True
  then show ?thesis by (simp add: pageMessageHistory_def newer older window_def newest_first_def)
next
  case False
  let ?a = "hf_AddOffset f"
  have desc: "descending (drop i (take j newer))" "descending (drop i (take j older))" for i j
    using base descending_part unfolding newer older by blast+
  show ?thesis
  proof (cases "messageHistoryLoadType ?a limit")
    case LoadBackward
    then have a: "0 \<le> ?a" by (simp add: messageHistoryLoadType_def split: if_splits)
    show ?thesis
      using LoadBackward a False limit newest_first_id [OF desc(2)]
      by (simp add: pageMessageHistory_def window_append backward_take Let_def add.commute [of limit] flip: older)
  next
    case LoadForward
    then have a: "?a < 0" "?a + limit \<le> 0" by (simp_all add: messageHistoryLoadType_def split: if_splits)
    have "forwardMessageHistory base f limit (- ?a - limit) = window (int (length newer) + ?a) limit newer"
      using forward_window [OF base _ newer, of "- ?a - limit" limit] a by simp
    moreover have "newest_first (window (int (length newer) + ?a) limit newer) = window (int (length newer) + ?a) limit newer"
      by (rule newest_first_id) (simp only: window_def desc)
    ultimately show ?thesis using LoadForward a False limit by (simp add: pageMessageHistory_def window_append)
  next
    case LoadAround
    then have a: "?a < 0" "0 < ?a + limit" by (simp_all add: messageHistoryLoadType_def split: if_splits)
    have "forwardMessageHistory base f (- ?a) 0 = drop (nat (int (length newer) + ?a)) newer"
      using forward_window [OF base _ newer, of 0 "- ?a"] by (simp add: window_def)
    then show ?thesis
      using LoadAround a False limit
      by (simp add: pageMessageHistory_def window_append backward_take Let_def add.commute [of limit] flip: older)
  qed
qed

lemma offset_parts:
  assumes "descending base" "hf_OffsetDate f \<le> 0"
  shows "filter (\<lambda>m. messageAfterHistoryOffset m f) base @ filter (\<lambda>m. messageBeforeHistoryOffset m f) base = base"
  using assms(1)
proof (induction base)
  case (Cons m base)
  have "messageAfterHistoryOffset x f \<Longrightarrow> messageAfterHistoryOffset m f" if "x \<in> set base" for x
    using Cons.prems that assms(2) by (force simp: messageAfterHistoryOffset_def split: if_splits)
  then have "\<not> messageAfterHistoryOffset m f \<Longrightarrow> filter (\<lambda>m. messageAfterHistoryOffset m f) base = []"
    by (auto simp: filter_empty_conv)
  then show ?case using Cons by (auto simp: after_before)
qed simp

end
