(* ===== verification/Private_Pages.thy ===== *)
theory Private_Pages
  imports Private_History Private_Theorems
begin

text \<open>
  What a reader of the message history gets: each page is a window of the matching messages, and a dialog
  that is read page by page while the store keeps changing gives every message that stays, once.
\<close>

subsection \<open>Listed messages\<close>

lemma listed_fields [simp]:
  "msg_ID (listed ls m) = msg_ID m" "msg_Peer (listed ls m) = msg_Peer m" "msg_Date (listed ls m) = msg_Date m" "pm_UID (listed ls m) = pm_UID m"
  by (simp_all add: listed_def Let_def private_message.defs history_message.defs)

lemma box_listed:
  assumes "boxes_ok s"
  shows "newest_first (map (listed ls) (box s u)) = rev (map (listed ls) (box s u))"
    and "descending (rev (map (listed ls) (box s u)))"
proof -
  have "sorted_wrt (<) (map msg_ID (box s u))" using boxes_okD(1) [OF assms] by (simp add: ids_ok_def)
  then show "descending (rev (map (listed ls) (box s u)))" by (simp add: sorted_wrt_rev sorted_wrt_map)
  then show "newest_first (map (listed ls) (box s u)) = rev (map (listed ls) (box s u))" by (rule newest_first_is [rotated]) simp
qed

definition matching :: "listing \<Rightarrow> message_store \<Rightarrow> int \<Rightarrow> message_filter \<Rightarrow> history_message list" where
  "matching ls s u f = filter (matches_filter ls f) (rev (map (listed ls) (box s u)))"

lemma descending_matching: "boxes_ok s \<Longrightarrow> descending (matching ls s u f)"
  unfolding matching_def using descending_part box_listed(2) by blast

lemma offset_clamped [simp]:
  "messageAfterHistoryOffset m (f\<lparr>hf_AddOffset := a\<rparr>) = messageAfterHistoryOffset m f"
  "messageBeforeHistoryOffset m (f\<lparr>hf_AddOffset := a\<rparr>) = messageBeforeHistoryOffset m f"
  "matches_filter ls (f\<lparr>hf_AddOffset := a\<rparr>) = matches_filter ls f"
proof -
  show "matches_filter ls (f\<lparr>hf_AddOffset := a\<rparr>) = matches_filter ls f"
    by (rule ext, cases f) (simp only: matches_filter_def message_filter.select_convs message_filter.update_convs)
qed (simp_all add: messageAfterHistoryOffset_def messageBeforeHistoryOffset_def)

lemma page_limit_pos: "0 < page_limit l \<and> page_limit l \<le> 500"
  by (simp add: page_limit_def)

lemma list_window:
  assumes "boxes_ok s" "\<not> hf_CountOnly f"
  shows "hl_Messages (ListByUser ls s u f) = newest_first (window
     (int (length (filter (\<lambda>m. messageAfterHistoryOffset m f) (matching ls s u f))) + ClampMessageHistoryAddOffset (hf_AddOffset f))
     (page_limit (hf_Limit f))
     (filter (\<lambda>m. messageAfterHistoryOffset m f) (matching ls s u f) @ filter (\<lambda>m. messageBeforeHistoryOffset m f) (matching ls s u f)))"
    and "hl_Count (ListByUser ls s u f) = int (length (matching ls s u f))"
proof -
  let ?f = "f\<lparr>hf_AddOffset := ClampMessageHistoryAddOffset (hf_AddOffset f)\<rparr>"
  have base: "filter (matches_filter ls ?f) (newest_first (map (listed ls) (box s u))) = matching ls s u f"
    by (simp add: matching_def box_listed(1) [OF assms(1)])
  have run: "ListByUser ls s u f = (let page = pageMessageHistory (matching ls s u f) ?f (page_limit (hf_Limit f))
      in \<lparr>hl_Messages = page, hl_Users = usersForMessages ls page, hl_Count = int (length (matching ls s u f)),
          hl_Hash = ls_messageListHash ls (matching ls s u f)\<rparr>)"
    using assms(2) unfolding ListByUser_def filterMessageList_def Let_def base by simp
  then show "hl_Count (ListByUser ls s u f) = int (length (matching ls s u f))" by (simp add: Let_def)
  show "hl_Messages (ListByUser ls s u f) = newest_first (window
     (int (length (filter (\<lambda>m. messageAfterHistoryOffset m f) (matching ls s u f))) + ClampMessageHistoryAddOffset (hf_AddOffset f))
     (page_limit (hf_Limit f))
     (filter (\<lambda>m. messageAfterHistoryOffset m f) (matching ls s u f) @ filter (\<lambda>m. messageBeforeHistoryOffset m f) (matching ls s u f)))"
    using run by (simp add: Let_def page_window [OF descending_matching [OF assms(1)] conjunct1 [OF page_limit_pos] refl refl])
qed

subsection \<open>What stays\<close>

lemma step_from:
  assumes ok: "boxes_ok s" and m: "m \<in> set (box (fst (pm_step digest op s)) u)" "msg_ID m \<le> ms_nextBox s u"
  shows "\<exists>x \<in> set (box s u). same_slot x m"
proof -
  obtain s' a where step: "pm_step digest op s = (s', a)" by (rule prod.exhaust)
  show ?thesis
  proof (rule pm_step_cases [OF boxes_okD(1) [OF ok] step])
    assume "leaves s s'"
    then show ?thesis using m step shrinks_from [of "box s u" "box s' u" m] by (simp add: leaves_def)
  next
    fix now quote req fp a b sender recipient alloc
    assume c: "send_commits s (dated now req) fp a b sender recipient alloc" "s' = commit_send s (dated now req) fp alloc sender recipient"
    show ?thesis
    proof (rule committed_box [OF c(1), of u])
    qed (use m step c(2) in \<open>auto intro: same_slot_refl\<close>)
  qed
qed

lemma step_next_ge:
  assumes ok: "boxes_ok s"
  shows "ms_nextBox s u \<le> ms_nextBox (fst (pm_step digest op s)) u"
proof -
  obtain s' a where step: "pm_step digest op s = (s', a)" by (rule prod.exhaust)
  show ?thesis
  proof (rule pm_step_cases [OF boxes_okD(1) [OF ok] step])
    assume "leaves s s'"
    then show ?thesis using step by (simp add: leaves_def)
  next
    fix now quote req fp a b sender recipient alloc
    assume c: "send_commits s (dated now req) fp a b sender recipient alloc" "s' = commit_send s (dated now req) fp alloc sender recipient"
    show ?thesis using commit_next_box [OF c(1) boxes_okD(3) [OF ok], of u] step c(2) by simp
  qed
qed

lemma run_from:
  "boxes_ok s \<Longrightarrow> ms_nextBox s u \<le> ms_nextBox (fst (pm_run digest ops s)) u \<and>
   (\<forall>m \<in> set (box (fst (pm_run digest ops s)) u). msg_ID m \<le> ms_nextBox s u \<longrightarrow> (\<exists>x \<in> set (box s u). same_slot x m))"
proof (induction ops arbitrary: s)
  case (Cons op ops)
  let ?t = "fst (pm_step digest op s)"
  have run: "fst (pm_run digest (op # ops) s) = fst (pm_run digest ops ?t)" by (simp add: Let_def split_beta)
  note ih = Cons.IH [OF boxes_ok_step [OF Cons.prems], of digest op]
  have ge: "ms_nextBox s u \<le> ms_nextBox ?t u" by (rule step_next_ge [OF Cons.prems])
  have "\<exists>x \<in> set (box s u). same_slot x m" if m: "m \<in> set (box (fst (pm_run digest ops ?t)) u)" "msg_ID m \<le> ms_nextBox s u" for m
  proof -
    obtain y where y: "y \<in> set (box ?t u)" "same_slot y m" using ih m ge by (meson order_trans)
    then have "msg_ID y \<le> ms_nextBox s u" using m(2) by (simp add: same_slot_def)
    then obtain x where "x \<in> set (box s u)" "same_slot x y" using step_from [OF Cons.prems y(1)] by blast
    then show ?thesis using same_slot_trans y(2) by blast
  qed
  then show ?case unfolding run using ih ge by (meson order_trans)
qed (auto intro: same_slot_refl)

subsection \<open>A reader\<close>

text \<open>
  A client that reads a dialog to its beginning: each page starts before the last message of the page
  before, operations run between the pages, and an empty page ends it.
\<close>

definition dialog_filter :: "peer \<Rightarrow> int \<Rightarrow> int \<Rightarrow> message_filter" where
  "dialog_filter p limit offset = \<lparr>hf_HasPeer = True, hf_Peer = p, hf_Query = [], hf_OffsetID = offset, hf_OffsetDate = 0, hf_MinDate = 0,
     hf_MaxDate = 0, hf_AddOffset = 0, hf_Limit = limit, hf_MaxID = 0, hf_MinID = 0, hf_Hash = 0, hf_SenderUserID = 0, hf_CountOnly = False,
     hf_PinnedOnly = False, hf_MusicOnly = False, hf_PhoneCallsOnly = False, hf_MissedPhoneCallsOnly = False, hf_NeedTotalCount = False,
     hf_SavedPeer = no_peer, hf_SavedReactions = [], hf_PeerIDs = [], hf_RestrictPeerIDs = False\<rparr>"

fun history_walk :: "listing \<Rightarrow> digest \<Rightarrow> int \<Rightarrow> peer \<Rightarrow> int \<Rightarrow> int \<Rightarrow> pm_op list list \<Rightarrow> message_store \<Rightarrow>
    history_message list \<times> bool \<times> message_store" where
  "history_walk ls digest u p limit offset [] s = ([], False, s)"
| "history_walk ls digest u p limit offset (ops # rest) s =
     (let page = hl_Messages (ListByUser ls s u (dialog_filter p limit offset))
      in if page = [] then ([], True, s)
         else let (ms, finished, s') = history_walk ls digest u p limit (msg_ID (last page)) rest (fst (pm_run digest ops s))
              in (page @ ms, finished, s'))"

definition below :: "int \<Rightarrow> int \<Rightarrow> bool" where
  "below offset k \<longleftrightarrow> offset \<le> 0 \<or> k < offset"

definition ids_below :: "message_store \<Rightarrow> int \<Rightarrow> peer \<Rightarrow> int \<Rightarrow> int set" where
  "ids_below s u p offset = {msg_ID m | m. m \<in> set (box s u) \<and> msg_Peer m = p \<and> below offset (msg_ID m)}"

lemma finite_ids [simp]: "finite (ids_below s u p offset)"
  unfolding ids_below_def by (rule finite_subset [of _ "msg_ID ` set (box s u)"]) auto

lemma dialog_page:
  assumes ok: "boxes_ok s" and lower: "ls_ToLower ls [] = []"
    and page_def: "page = hl_Messages (ListByUser ls s u (dialog_filter p limit offset))"
  shows "descending page" "msg_ID ` set page \<subseteq> ids_below s u p offset" "page = [] \<Longrightarrow> ids_below s u p offset = {}"
    and "page \<noteq> [] \<Longrightarrow> k \<in> ids_below s u p offset \<Longrightarrow> k \<in> msg_ID ` set page \<or> k < msg_ID (last page)"
    and "\<forall>m \<in> set page. msg_Peer m = p"
proof -
  let ?f = "dialog_filter p limit offset"
  let ?older = "filter (\<lambda>m. messageBeforeHistoryOffset m ?f) (matching ls s u ?f)"
  let ?n = "nat (page_limit limit)"
  have fs: "\<not> hf_CountOnly ?f" "hf_AddOffset ?f = 0" "hf_Limit ?f = limit" by (simp_all add: dialog_filter_def)
  have n: "0 < ?n" using page_limit_pos [of limit] by simp
  have older: "descending ?older" using descending_matching [OF ok] descending_part by blast
  have "page = newest_first (take ?n ?older)"
    unfolding page_def list_window(1) [OF ok fs(1)] fs(2,3) by (simp add: window_append [of _ 0, simplified] ClampMessageHistoryAddOffset_def MaxMessageHistoryAddOffset_def)
  then have page: "page = take ?n ?older" using older descending_part newest_first_id by metis
  have matches: "matches_filter ls ?f m \<longleftrightarrow> msg_Peer m = p" for m
    by (simp add: matches_filter_def dialog_filter_def lower no_peer_def)
  have before: "messageBeforeHistoryOffset m ?f \<longleftrightarrow> below offset (msg_ID m)" for m
    by (simp add: messageBeforeHistoryOffset_def dialog_filter_def below_def)
  have set_older: "set ?older = listed ls ` {m \<in> set (box s u). msg_Peer m = p \<and> below offset (msg_ID m)}"
    unfolding matching_def by (auto simp: matches before)
  have ids: "msg_ID ` set ?older = ids_below s u p offset" unfolding set_older by (auto simp: ids_below_def image_iff)
  show "descending page" unfolding page using older descending_part by blast
  have sub: "set page \<subseteq> set ?older" unfolding page by (rule set_take_subset)
  then show "msg_ID ` set page \<subseteq> ids_below s u p offset" using ids by blast
  show "\<forall>m \<in> set page. msg_Peer m = p" using sub set_older by auto
  show "ids_below s u p offset = {}" if "page = []"
  proof -
    have "?older = []" using that n unfolding page by (simp add: take_eq_Nil)
    from ids [symmetric, unfolded this] show ?thesis by simp
  qed
  show "k \<in> msg_ID ` set page \<or> k < msg_ID (last page)" if "page \<noteq> []" "k \<in> ids_below s u p offset"
  proof -
    obtain m where m: "m \<in> set ?older" "k = msg_ID m" using \<open>k \<in> ids_below s u p offset\<close> ids by blast
    have "descending (page @ drop ?n ?older)" using older unfolding page by simp
    then have "m \<in> set (drop ?n ?older) \<Longrightarrow> msg_ID m < msg_ID (last page)" using that(1) by (auto simp: sorted_wrt_append)
    moreover have "m \<in> set page \<or> m \<in> set (drop ?n ?older)" unfolding page using m(1) by (metis append_take_drop_id Un_iff set_append)
    ultimately show ?thesis using m(2) by blast
  qed
qed

lemma walk_end: "\<exists>ops. snd (snd (history_walk ls digest u p limit offset schedule s)) = fst (pm_run digest ops s)"
proof (induction schedule arbitrary: s offset)
  case Nil
  show ?case by (rule exI [of _ "[]"]) simp
next
  case (Cons ops schedule)
  let ?page = "hl_Messages (ListByUser ls s u (dialog_filter p limit offset))"
  let ?t = "fst (pm_run digest ops s)"
  show ?case
  proof (cases "?page = []")
    case True
    show ?thesis by (rule exI [of _ "[]"]) (simp add: Let_def True)
  next
    case False
    obtain more_ops where "snd (snd (history_walk ls digest u p limit (msg_ID (last ?page)) schedule ?t)) = fst (pm_run digest more_ops ?t)"
      using Cons.IH by blast
    also have "\<dots> = fst (pm_run digest (ops @ more_ops) s)" by (simp add: pm_run_append Let_def split_beta)
    finally show ?thesis using False by (intro exI [of _ "ops @ more_ops"]) (simp add: Let_def split_beta)
  qed
qed

lemma ids_below_run:
  assumes "boxes_ok s" "0 < offset" "offset \<le> ms_nextBox s u"
  shows "ids_below (fst (pm_run digest ops s)) u p offset \<subseteq> ids_below s u p offset"
proof
  fix k assume "k \<in> ids_below (fst (pm_run digest ops s)) u p offset"
  then obtain m where m: "m \<in> set (box (fst (pm_run digest ops s)) u)" "msg_Peer m = p" "msg_ID m = k" "k < offset"
    using assms(2) by (auto simp: ids_below_def below_def)
  then obtain x where "x \<in> set (box s u)" "same_slot x m" using run_from [OF assms(1), of u digest ops] assms(3) by auto
  then show "k \<in> ids_below s u p offset" using m by (auto simp: ids_below_def below_def same_slot_def)
qed

lemma descending_last:
  assumes "descending ms" "m \<in> set ms"
  shows "msg_ID (last ms) \<le> msg_ID m"
  using assms by (induction ms) (auto simp: less_imp_le)

lemma walk_reads:
  assumes "boxes_ok s" "ls_ToLower ls [] = []" "card (ids_below s u p offset) < length schedule"
    and "history_walk ls digest u p limit offset schedule s = (out, finished, s')"
  shows "finished \<and> descending out \<and> msg_ID ` set out \<subseteq> ids_below s u p offset \<and> (\<forall>m \<in> set out. msg_Peer m = p) \<and>
    ids_below s u p offset \<inter> msg_ID ` set (box s' u) \<subseteq> msg_ID ` set out"
  using assms
proof (induction schedule arbitrary: s offset out)
  case (Cons ops schedule)
  let ?page = "hl_Messages (ListByUser ls s u (dialog_filter p limit offset))"
  let ?t = "fst (pm_run digest ops s)" and ?d = "msg_ID (last ?page)"
  note page = dialog_page [OF Cons.prems(1,2) refl, of u p limit offset]
  show ?case
  proof (cases "?page = []")
    case True
    then show ?thesis using Cons.prems(4) page(3) by (auto simp: Let_def)
  next
    case False
    obtain ms where walk: "history_walk ls digest u p limit ?d schedule ?t = (ms, finished, s')" and out: "out = ?page @ ms"
      using Cons.prems(4) False by (auto simp: Let_def split_beta prod_eq_iff)
    have ok: "boxes_ok ?t" by (rule boxes_ok_run [OF Cons.prems(1)])
    have last: "?d \<in> ids_below s u p offset" using page(2) False by auto
    then have d: "0 < ?d" "?d \<le> ms_nextBox s u" "below offset ?d"
      using boxes_okD(5,6) [OF Cons.prems(1), of _ u] by (auto simp: ids_below_def)
    have down: "ids_below s u p ?d \<subseteq> ids_below s u p offset - {?d}" using d by (auto simp: ids_below_def below_def)
    have shrink: "ids_below ?t u p ?d \<subseteq> ids_below s u p ?d" by (rule ids_below_run [OF Cons.prems(1) d(1,2)])
    have "card (ids_below ?t u p ?d) < card (ids_below s u p offset)" using shrink down last by (intro psubset_card_mono) auto
    then have "card (ids_below ?t u p ?d) < length schedule" using Cons.prems(3) by simp
    note ih = Cons.IH [OF ok Cons.prems(2) this walk]
    have kept: "ids_below s u p ?d \<inter> msg_ID ` set (box s' u) \<subseteq> ids_below ?t u p ?d"
    proof
      fix k assume k: "k \<in> ids_below s u p ?d \<inter> msg_ID ` set (box s' u)"
      obtain m where m: "m \<in> set (box s u)" "msg_ID m = k" "msg_Peer m = p" "below ?d k" using k by (auto simp: ids_below_def)
      obtain m' where m': "m' \<in> set (box s' u)" "msg_ID m' = k" using k by auto
      obtain more_ops where s': "s' = fst (pm_run digest more_ops ?t)" using walk_end [of ls digest u p limit ?d schedule ?t] walk by auto
      have "k \<le> ms_nextBox s u" using boxes_okD(6) [OF Cons.prems(1) m(1)] m(2) by simp
      moreover have "ms_nextBox s u \<le> ms_nextBox ?t u" using run_from [OF Cons.prems(1)] by blast
      ultimately obtain x where x: "x \<in> set (box ?t u)" "same_slot x m'"
        using run_from [OF ok, of u digest more_ops] m' s' by (meson order_trans)
      then obtain y where y: "y \<in> set (box s u)" "same_slot y x"
        using run_from [OF Cons.prems(1), of u digest ops] \<open>k \<le> ms_nextBox s u\<close> m'(2) by (auto simp: same_slot_def)
      then have "y = m" using same_id [OF boxes_okD(1) [OF Cons.prems(1)] y(1) m(1)] x(2) m(2) m'(2) by (simp add: same_slot_def)
      then show "k \<in> ids_below ?t u p ?d" using x y m m'(2) by (auto simp: ids_below_def same_slot_def)
    qed
    have "descending out" unfolding out sorted_wrt_append
    proof (intro conjI ballI)
      fix a b assume "a \<in> set ?page" "b \<in> set ms"
      then have "msg_ID b < ?d" using ih d(1) by (auto simp: ids_below_def below_def)
      moreover have "?d \<le> msg_ID a"
        by (rule descending_last [OF page(1) \<open>a \<in> set ?page\<close>])
      ultimately show "msg_ID a > msg_ID b" by simp
    qed (use page(1) ih in simp_all)
    moreover have "msg_ID ` set ms \<subseteq> ids_below s u p offset" using ih shrink down by blast
    moreover have "ids_below s u p offset \<inter> msg_ID ` set (box s' u) \<subseteq> msg_ID ` set out"
    proof
      fix k assume k: "k \<in> ids_below s u p offset \<inter> msg_ID ` set (box s' u)"
      then have "k \<in> msg_ID ` set ?page \<or> k \<in> ids_below s u p ?d" using page(4) [OF False, of k] by (auto simp: ids_below_def below_def)
      moreover have "k \<in> msg_ID ` set ms" if "k \<in> ids_below s u p ?d" using that k kept ih by blast
      ultimately show "k \<in> msg_ID ` set out" unfolding out set_append image_Un by blast
    qed
    ultimately show ?thesis using ih page(2,5) unfolding out by auto
  qed
qed simp

subsection \<open>Messages by id\<close>

text \<open>A message of the box is found by its id and by its shared id, and nothing else is.\<close>

lemma by_id_map:
  assumes "distinct (map msg_ID ms)"
  shows "fold (\<lambda>m f. f(msg_ID m \<mapsto> listed ls m)) ms g k = (case find (\<lambda>m. msg_ID m = k) ms of None \<Rightarrow> g k | Some m \<Rightarrow> Some (listed ls m))"
  using assms
proof (induction ms arbitrary: g)
  case (Cons m ms)
  have "find (\<lambda>x. msg_ID x = msg_ID m) ms = None" using Cons.prems by (fastforce simp: find_None_iff image_iff)
  then show ?case using Cons by auto
qed simp

lemma get_by_ids:
  assumes "boxes_ok s" "u \<noteq> 0"
  shows "hl_Messages (GetByIDs ls s u ids) = concat (map (\<lambda>k. map (listed ls) (filter (\<lambda>m. msg_ID m = k) (box s u))) ids)"
proof -
  have d: "distinct (map msg_ID (box s u))" by (rule ids_distinct [OF boxes_okD(1) [OF assms(1)]])
  have one: "map (listed ls) (filter (\<lambda>m. msg_ID m = k) ms) = (case find (\<lambda>m. msg_ID m = k) ms of None \<Rightarrow> [] | Some m \<Rightarrow> [listed ls m])"
    if "distinct (map msg_ID ms)" for k and ms :: "private_message list"
    using that
  proof (induction ms)
    case (Cons m ms)
    have "filter (\<lambda>x. msg_ID x = msg_ID m) ms = []" using Cons.prems by (fastforce simp: filter_empty_conv image_iff)
    then show ?case using Cons by (cases "msg_ID m = k") simp_all
  qed simp
  let ?byID = "fold (\<lambda>m f. f(msg_ID m \<mapsto> listed ls m)) (box s u) Map.empty"
  have "(case ?byID k of None \<Rightarrow> [] | Some x \<Rightarrow> [x]) = map (listed ls) (filter (\<lambda>m. msg_ID m = k) (box s u))" for k
    unfolding by_id_map [OF d] one [OF d] by (simp split: option.split)
  moreover have "List.map_filter g ks = concat (map (\<lambda>k. case g k of None \<Rightarrow> [] | Some x \<Rightarrow> [x]) ks)" for g :: "int \<Rightarrow> history_message option" and ks
    by (induction ks) (simp_all add: map_filter_simps split: option.split)
  ultimately show ?thesis using assms(2) by (simp add: GetByIDs_def no_history_def Let_def)
qed

lemma get_by_uid:
  assumes "boxes_ok s" "u \<noteq> 0"
  shows "GetByUID ls s u uid = Some x \<longleftrightarrow> (\<exists>m \<in> set (box s u). pm_UID m = uid \<and> x = listed ls m)"
proof -
  have found: "y \<in> set (box s u) \<and> pm_UID y = uid" if "find (\<lambda>m. pm_UID m = uid) (box s u) = Some y" for y
    using that by (auto simp: find_Some_iff)
  have eq: "GetByUID ls s u uid = map_option (listed ls) (find (\<lambda>m. pm_UID m = uid) (box s u))"
  proof (cases "find (\<lambda>m. pm_UID m = uid) (box s u)")
    case (Some y)
    then have "0 < msg_ID y" "0 < uid" using found [OF Some] boxes_okD(5,7) [OF assms(1), of y u] by auto
    then show ?thesis using Some assms(2) by (simp add: GetByUID_def)
  qed (simp add: GetByUID_def)
  have "find (\<lambda>m. pm_UID m = uid) (box s u) = Some m" if "m \<in> set (box s u)" "pm_UID m = uid" for m
  proof (cases "find (\<lambda>m. pm_UID m = uid) (box s u)")
    case None
    then show ?thesis using that by (auto simp: find_None_iff)
  next
    case (Some z)
    then show ?thesis using same_uid [OF assms(1) _ that(1), of z] found [OF Some] that(2) by auto
  qed
  then have "GetByUID ls s u uid = Some (listed ls m)" if "m \<in> set (box s u)" "pm_UID m = uid" for m using that unfolding eq by simp
  moreover have "\<exists>m \<in> set (box s u). pm_UID m = uid \<and> x = listed ls m" if some: "GetByUID ls s u uid = Some x"
  proof -
    obtain y where "find (\<lambda>m. pm_UID m = uid) (box s u) = Some y" "x = listed ls y" using some [unfolded eq] by (cases "find (\<lambda>m. pm_UID m = uid) (box s u)") auto
    then show ?thesis using found by blast
  qed
  ultimately show ?thesis by blast
qed

text \<open>
  The memory store does not read the two fields of the filter for phone calls: a search for calls lists the
  same messages as without it.
\<close>

lemma phone_filter_ignored:
  assumes "boxes_ok s" "\<not> hf_CountOnly f"
  shows "hl_Messages (ListByUser ls s u (f\<lparr>hf_PhoneCallsOnly := a, hf_MissedPhoneCallsOnly := b\<rparr>)) = hl_Messages (ListByUser ls s u f)"
proof -
  let ?g = "f\<lparr>hf_PhoneCallsOnly := a, hf_MissedPhoneCallsOnly := b\<rparr>"
  have "matches_filter ls ?g = matches_filter ls f"
    by (rule ext, cases f) (simp only: matches_filter_def message_filter.select_convs message_filter.update_convs)
  moreover have "messageAfterHistoryOffset m ?g = messageAfterHistoryOffset m f" "messageBeforeHistoryOffset m ?g = messageBeforeHistoryOffset m f" for m
    by (simp_all add: messageAfterHistoryOffset_def messageBeforeHistoryOffset_def)
  ultimately show ?thesis using assms by (simp add: list_window matching_def)
qed

subsection \<open>The properties\<close>

definition pm_listing :: listing where
  "pm_listing = \<lparr>ls_reactions = (\<lambda>m. \<lparr>rx_CanSeeList = True, rx_AsTags = False, rx_Results = [], rx_Recent = [], rx_Paid = None\<rparr>), ls_poll = pm_Media, ls_Pinned = (\<lambda>m. False),
     ls_IsMusic = (\<lambda>m. False), ls_ToLower = (\<lambda>x. x), ls_SystemUserByID = (\<lambda>u. None), ls_messageListHash = (\<lambda>ms. of_nat (length ms))\<rparr>"

definition pm_talk :: message_store where
  "pm_talk = fst (pm_run pm_digest [PmSend 0 pm_quote (pm_request 1 2 5), PmSend 0 pm_quote (pm_request 1 2 6)] pm_store)"

text \<open>
  C39. A page of the history is a window of the matching messages. The three ways the store loads a page,
  backward, forward and around, give the same: order the messages at or after the offset before those
  ahead of it, newest first, and take as many as the limit (100 when none is given, at most 500) from
  the first one ahead of the offset on, moved by the clamped additional offset, as far as they are there.
  Where the offset is an id this is a window of the matching messages as they are ordered. The count is
  that of all matching messages.
\<close>

theorem history_window:
  assumes "s = fst (pm_run digest ops (NewMessageStore events))" "\<not> hf_CountOnly f"
    and "newer = filter (\<lambda>m. messageAfterHistoryOffset m f) (matching ls s u f)" "older = filter (\<lambda>m. messageBeforeHistoryOffset m f) (matching ls s u f)"
    and "start = int (length newer) + ClampMessageHistoryAddOffset (hf_AddOffset f)"
  shows "hl_Messages (ListByUser ls s u f) = newest_first (window start (page_limit (hf_Limit f)) (newer @ older)) \<and>
    (hf_OffsetDate f \<le> 0 \<longrightarrow> hl_Messages (ListByUser ls s u f) = window start (page_limit (hf_Limit f)) (matching ls s u f)) \<and>
    length (hl_Messages (ListByUser ls s u f)) \<le> 500 \<and> hl_Count (ListByUser ls s u f) = int (length (matching ls s u f))"
proof -
  have ok: "boxes_ok s" unfolding assms(1) by (rule boxes_ok_run [OF boxes_ok_new])
  note page = list_window [OF ok assms(2), of ls u, folded assms(3,4), folded assms(5)]
  have "descending (window start (page_limit (hf_Limit f)) (matching ls s u f))"
    unfolding window_def using descending_matching [OF ok] descending_part by blast
  then have "newest_first (window start (page_limit (hf_Limit f)) (newer @ older)) = window start (page_limit (hf_Limit f)) (matching ls s u f)"
    if "hf_OffsetDate f \<le> 0"
    using offset_parts [OF descending_matching [OF ok] that, of ls u f] newest_first_id unfolding assms(3,4) by simp
  moreover have "length (newest_first (window start (page_limit (hf_Limit f)) (newer @ older))) \<le> 500"
    using window_length [of start "page_limit (hf_Limit f)" "newer @ older"] page_limit_pos [of "hf_Limit f"] unfolding newest_first_def length_sort by linarith
  ultimately show ?thesis unfolding page by simp
qed

theorem history_window_witness:
  "hl_Messages (ListByUser pm_listing pm_talk 2 (dialog_filter (user_peer 1) 5 2)) =
     window 1 5 (matching pm_listing pm_talk 2 (dialog_filter (user_peer 1) 5 2))"
proof -
  let ?f = "dialog_filter (user_peer 1) 5 2"
  have f: "\<not> hf_CountOnly ?f" "hf_OffsetDate ?f \<le> 0" "hf_AddOffset ?f = 0" "page_limit (hf_Limit ?f) = 5"
    by (simp_all add: dialog_filter_def page_limit_def)
  have start: "1 = int (length (filter (\<lambda>m. messageAfterHistoryOffset m ?f) (matching pm_listing pm_talk 2 ?f))) + ClampMessageHistoryAddOffset (hf_AddOffset ?f)"
    by code_simp
  show ?thesis using history_window [OF pm_talk_def [unfolded pm_store_def] f(1) refl refl start] f(2,4) by metis
qed

text \<open>
  C40. A dialog read page by page is complete. A client asks for the page before the last message it got
  until a page is empty, while other operations run between its requests: it comes to an end after at most
  one request more than the box has messages, gets messages of the dialog only, newest first and none
  twice, all of which were there when it began, and gets every message that was there when it began and
  is there when it ends.
\<close>

theorem history_walk_complete:
  assumes "s = fst (pm_run digest ops (NewMessageStore events))" "ls_ToLower ls [] = []" "length (box s u) < length schedule"
    and "history_walk ls digest u p limit 0 schedule s = (out, finished, s')"
  shows "finished \<and> sorted_wrt (>) (map msg_ID out) \<and>
    (\<forall>x \<in> set out. msg_Peer x = p \<and> (\<exists>m \<in> set (box s u). msg_ID m = msg_ID x \<and> msg_Peer m = p)) \<and>
    (\<forall>m \<in> set (box s u). msg_Peer m = p \<and> msg_ID m \<in> msg_ID ` set (box s' u) \<longrightarrow> (\<exists>x \<in> set out. msg_ID x = msg_ID m))"
proof -
  have ok: "boxes_ok s" unfolding assms(1) by (rule boxes_ok_run [OF boxes_ok_new])
  have ids: "ids_below s u p 0 = msg_ID ` {m \<in> set (box s u). msg_Peer m = p}" by (auto simp: ids_below_def below_def)
  then have "card (ids_below s u p 0) \<le> card (set (box s u))"
    by (metis (no_types, lifting) List.finite_set card_image_le card_mono finite_subset mem_Collect_eq order_trans subsetI)
  then have "card (ids_below s u p 0) < length schedule" using card_length [of "box s u"] assms(3) by simp
  note walk = walk_reads [OF ok assms(2) this assms(4)]
  then have "sorted_wrt (>) (map msg_ID out)" by (simp add: sorted_wrt_map)
  moreover have "\<exists>x \<in> set out. msg_ID x = msg_ID m" if "m \<in> set (box s u)" "msg_Peer m = p" "msg_ID m \<in> msg_ID ` set (box s' u)" for m
    using walk that unfolding ids by fastforce
  ultimately show ?thesis using walk unfolding ids by fastforce
qed

theorem history_walk_complete_witness:
  "fst (snd (history_walk pm_listing pm_digest 2 (user_peer 1) 1 0 [[PmSend 0 pm_quote (pm_request 1 2 7)], [], []] pm_talk))"
proof -
  let ?walk = "history_walk pm_listing pm_digest 2 (user_peer 1) 1 0 [[PmSend 0 pm_quote (pm_request 1 2 7)], [], []] pm_talk"
  have lower: "ls_ToLower pm_listing [] = []" by (simp add: pm_listing_def)
  have size: "length (box pm_talk 2) < length [[PmSend 0 pm_quote (pm_request 1 2 7)], [], []]" by code_simp
  have walk: "?walk = (fst ?walk, fst (snd ?walk), snd (snd ?walk))" by simp
  show ?thesis using history_walk_complete [OF pm_talk_def [unfolded pm_store_def] lower size walk] by blast
qed

end
