(* ===== verification/Spec2Isabelle.thy ===== *)
theory Spec2Isabelle
  imports Rpc_Ledger_Theorems Update_Devices Secret_Delivery Login_Theorems Wire_Theorems Stars_Theorems Phone_Signals Private_Outcomes Private_Pages
begin

text \<open>
  A verification development for the Telegram server of this repository.

  \<^bold>\<open>The program.\<close> Clients keep MTProto connections to the edge (\<^verbatim>\<open>internal/mtprotoedge\<close>), which reads
  transport frames, decrypts them, and runs each request at most once. Requests reach the application
  services (\<^verbatim>\<open>internal/app\<close>) through the handlers of \<^verbatim>\<open>internal/rpc\<close>; the services work on stores
  (\<^verbatim>\<open>internal/store\<close>) that exist for Postgres and Redis and, under the same interfaces, in memory.
  What a user must see later is written to the durable update log of the account, from which every
  device catches up; end-to-end encrypted chats have a queue per device instead.

  \<^bold>\<open>What is modelled.\<close>

  \<^item> \<^bold>\<open>Frames.\<close> \<open>Frame_Budget\<close> is the process-wide byte budget of inbound frames and a connection's part
    of it (\<^verbatim>\<open>frame_budget.go\<close>, \<^verbatim>\<open>transport_compat.go\<close>). \<open>Wire_Frames\<close> has the quick-ack codecs and the
    preflight reader, which reserves the announced length before the codec sees it; \<open>Wire_Recv\<close> the
    receive path and a reference that parses the bytes at once. \<open>frame_step\<close> interleaves all connections.
  \<^item> \<^bold>\<open>Running a request once.\<close> \<open>Capacity\<close> is the hard counter of \<^verbatim>\<open>rpc_flight.go\<close>; \<open>Rpc_Budget\<close> the fair
    entry budget, the callback budget and the admission tracker; \<open>Rpc_Ledger\<close> the ledger of
    \<^verbatim>\<open>rpc_execution_ledger.go\<close>, its flights and leases. The ledger calls all of them: an acquired claim
    holds a slot, a reservation and an admission sequence, and gives each back once. \<open>Rpc_Ledger_Ops\<close>
    has the other operations. What runs under one hold of a shard's lock is a section; \<open>acquire\<close>,
    \<open>Complete\<close>, \<open>expireReceipts\<close> and \<open>forgetSession\<close> take several locks and are written as sections with
    the steps of other goroutines between them. \<open>Rpc_Ledger_Run\<close> executes sequences of sections, which
    are the interleavings of all calls, and shows that every call is such a sequence.
  \<^item> \<^bold>\<open>The update log.\<close> \<open>Update_Log\<close> is the event, its types and the memory stores
    (\<^verbatim>\<open>internal/domain/update_event.go\<close>, \<^verbatim>\<open>update.go\<close>, \<^verbatim>\<open>internal/store/memory/updates.go\<close>);
    \<open>Update_Service\<close> and \<open>Update_Record\<close> the service \<^verbatim>\<open>internal/app/updates/service.go\<close>: recording,
    publishing, differences and device states.
  \<^item> \<^bold>\<open>Secret chats.\<close> \<open>Secret_Chat\<close> is the chat and its store, \<open>Secret_Queue\<close> the queues of messages and
    state events (\<^verbatim>\<open>internal/domain/secretchat.go\<close>, \<^verbatim>\<open>internal/store/memory/secretchat.go\<close>),
    \<open>Secret_Service\<close> the service \<^verbatim>\<open>internal/app/secretchat\<close> with its Diffie-Hellman checks.
  \<^item> \<^bold>\<open>One-time codes.\<close> \<open>Login_Code\<close> is \<^verbatim>\<open>internal/store/code.go\<close> with the memory \<^verbatim>\<open>CodeStore\<close>.
  \<^item> \<^bold>\<open>The Stars ledger.\<close> \<open>Stars_Cursor\<close> and \<open>Stars_Ledger\<close> are the balances, transactions, pages and
    purchase checks of \<^verbatim>\<open>internal/domain/stars.go\<close>, \<^verbatim>\<open>internal/store/memory/stars.go\<close> and
    \<^verbatim>\<open>internal/app/stars\<close>; \<open>Go_Strconv\<close> has the conversions of the standard library they use.
  \<^item> \<^bold>\<open>Private calls.\<close> \<open>Phone_Call\<close> is the call, its registry and the service
    (\<^verbatim>\<open>internal/domain/phone.go\<close>, \<^verbatim>\<open>internal/app/phone\<close>); \<open>Phone_Registry\<close> has the operations as data
    and the invariant, \<open>Phone_Runs\<close> sequences of them.
  \<^item> \<^bold>\<open>Private messages.\<close> \<open>Private_Message\<close> is the message, the dialog and the helpers of the memory store
    (\<^verbatim>\<open>internal/domain/message.go\<close>, \<^verbatim>\<open>dialog.go\<close>, \<^verbatim>\<open>internal/store/memory/message_store.go\<close>, \<^verbatim>\<open>dialogs.go\<close>),
    \<open>Private_Send\<close> sending with fingerprints, receipts and replies (\<^verbatim>\<open>message_send.go\<close>,
    \<^verbatim>\<open>internal/store/private_send_idempotency.go\<close>), \<open>Private_Changes\<close> reading, deleting and clearing
    (\<^verbatim>\<open>message_history.go\<close>, \<^verbatim>\<open>message_delete.go\<close>, \<^verbatim>\<open>message_helpers.go\<close>), \<open>Private_History\<close> the lookups,
    filters and pages of the history (\<^verbatim>\<open>message_history.go\<close>). The store writes to the update log of
    \<open>Update_Log\<close>; \<open>Private_Run\<close> has the operations as data, with the other writers of that log.

  \<^bold>\<open>Conventions\<close> (\<open>Go_Prelude\<close>). A struct is a record, an error return is \<open>Inl\<close>, a panic is \<open>None\<close>; a map that
  the code ranges over is an association list. Words of the wire and key ids are words; counters are
  integers, with \<open>wrap64\<close> where values from outside are added or multiplied. Time, randomness and
  answers of code outside the repository are arguments. A critical section is one step; where an
  operation takes several locks or makes several store calls, what other goroutines do between them is
  an argument (\<open>mid\<close>, \<open>between\<close>, \<open>turn\<close>, \<open>reap\<close>) or a step of its own (\<open>frame_step\<close>, \<open>fw_returning\<close>). The
  counters that the shards of the ledger share are changed within sections of different shards at once:
  what other shards have reserved and not installed, or are about to give back, is \<open>in_transit\<close>, an
  argument of every capacity check. It only makes a check refuse. A section that takes slots counts from
  its last reservation on, one that gives slots back from its first release on, so an execution of
  the code is a sequence of sections whose checks see what the others had in transit. Copies made to avoid sharing
  are the value itself. Log lines and metrics are left out.

  \<^bold>\<open>Interfaces.\<close> \<open>slot_counter\<close> (hard counters: the flight limit, the frame budget), \<open>ownership_budget\<close>
  (charge, shrink and give back: the fair budget) and \<open>durable_log\<close> (append next, read after, water
  mark: the memory event store, which the theorems about differences and about the log under private
  messages use only through it).

  \<^bold>\<open>What is shown.\<close>

  \<^item> \<open>Rpc_Ledger_Inv\<close>, \<open>_Claims\<close>, \<open>_Life\<close>: the invariant of the ledger (exact counters, tables and accounts
    that agree, nothing held twice) and that every operation keeps it; how long a claim excludes
    others. \<open>Rpc_Ledger_Theorems\<close>: one execution per key, no panic, every callback called once, exact
    counters of flights, entries, receipts and callbacks, refusals only when live claims and slots in
    transit reach a limit (\<open>refused_by_transit\<close> shows that the latter matter), waiters answered, and that
    whole calls return with any steps of others between their sections.
  \<^item> \<open>Update_Contract\<close> gives the laws of the log, \<open>Update_Sync\<close> the effect of each recording.
    \<open>Update_Theorems\<close>, \<open>Update_Difference\<close>, \<open>Update_Devices\<close>: the log is gapless and append-only; a
    difference is exact, and skips only what a retention checkpoint above the device covers; a client
    that follows differences while the log grows gets every event above its pts and that checkpoint once
    (for a checkpoint that stays fixed and is not above the account); a message published again is not
    appended again once a publication has returned, while two publications side by side append two events
    (\<open>publish_race\<close>); device states are monotone and never ahead of the account.
  \<^item> \<open>Secret_Theorems\<close>, \<open>Secret_Delivery\<close>: the life cycle of a chat under interleaving, a single winner
    of the acceptance, routing to the peer's device only, gapless queues, delivery of state events,
    logout of a device, and the parameter checks.
  \<^item> \<open>Login_Theorems\<close>: one winner per code, a bound on the recorded guesses, nothing after expiry, compare-and-swap
    without lost updates, one live code per purpose.
  \<^item> \<open>Stars_Theorems\<close>: the store and its service refine a purse per user with exact arithmetic, the
    transactions add up to the balance, paging ends and is complete, a giveaway is paid exactly.
  \<^item> \<open>Phone_Invariant\<close>, \<open>Phone_Steps\<close>: every operation keeps the registry well formed and calls only advance.
    \<open>Phone_Theorems\<close>, \<open>Phone_Signals\<close>: well-formedness, live calls are never lost, one answer per call,
    expiry is exact, retries are absorbed, negotiation stays within the offers, signals are limited.
  \<^item> \<open>Private_Boxes\<close>, \<open>_Mailbox\<close>, \<open>_Invariant\<close>, \<open>_Delete\<close>: what deletions leave of a box, and the invariant of boxes
    and receipts. \<open>Private_Once\<close>: receipts stay and the messages behind them are there or recorded as
    deleted. \<open>Private_Dialogs\<close>, \<open>_View\<close>, \<open>_Exact\<close>, \<open>_Accounts\<close>: the dialogs are an exact view of the box, which
    deletions make stale only until they end. \<open>Private_Log\<close>, \<open>Private_Read\<close>: the update log under sends, and
    reading on both sides. \<open>Private_Theorems\<close>, \<open>Private_Outcomes\<close> state the properties: one message per random
    id, retries answered, delivery to both sides, exact deletions, unread counts, read dates, and two runs
    where the store falls short. \<open>Private_Pages\<close>: a page is a window of the matching messages, and a reader
    that pages while the store changes gets every message that stays.
  \<^item> \<open>Frame_Budget\<close>, \<open>Wire_Theorems\<close>: exact accounting of the inbound bytes; receiving equals the reference
    for every segmentation of the stream; what a codec writes is received unchanged.

  \<^bold>\<open>Recursion and fuel.\<close> The loop of \<open>acquire\<close> takes at most two turns, which are written out;
  \<open>contiguous_from\<close> moves to a larger pts, a function with a termination proof. \<open>read_loop\<close> has one more unit of
  fuel than the bytes it wants, and every read of a connection gives a byte or an error
  (\<open>read_full_net\<close>). The client loop of the update service needs at most a round per hundred events
  and two more, which \<open>sync_delivers\<close> states for a list with what other requests do in each round; the loop that collects
  state events needs as many rounds as cover the pending events page by page. \<open>read_history\<close> needs one
  request per page; \<open>history_walk\<close> takes one list of operations per request, and one more than the box has
  messages are enough. \<open>new_id_from\<close> has the 32 attempts of \<^verbatim>\<open>newIDLocked\<close> and then fails as the code does.

  \<^bold>\<open>Not modelled.\<close> The Postgres and Redis stores (SQL and Lua run elsewhere; much of the Go is
  generated); the handlers of \<^verbatim>\<open>internal/rpc\<close>, which translate types of an imported package; encryption
  and key exchange, whose primitives are imported; the session manager, the outbound queues and the
  scheduling around the ledger; the send path, listeners and admission quotas of connections; the other
  services and memory stores, and of the message store the edits, pins, reactions, polls, forwards, albums,
  saved messages, the no-forwards toggle and the reading of media; the check of quotes from other chats and
  SHA-256, which are parameters, as are the reactions, polls and system users a listed message comes with; the administration, bot and web interfaces, the media relay, the client
  and the tools. The order \<^verbatim>\<open>sort.Slice\<close> gives to equal elements is not specified by Go: the model keeps
  their order, and the theorems are about logs without such events. Within one receive
  the connection's own steps are sequential; interleavings are those of \<open>frame_step\<close>.
\<close>

end
